(* ===== verification/Eris_Prelude.thy ===== *)
theory Eris_Prelude
  imports Main "HOL-Library.Word" "HOL-Library.AList"
begin

text \<open>
  Shared vocabulary of the development: the machine types of the Go program, the result of a
  call that may return an error or panic, and the generic facts on lists, maps and 64-bit
  integers that several components use.
\<close>

section \<open>Machine types\<close>

type_synonym byte = "8 word"
type_synonym bytes = "byte list"
type_synonym uint = "64 word"
type_synonym uint16 = "16 word"

text \<open>
  Go's \<open>int\<close> and \<open>int64\<close> (64 bits on the platforms the program supports) are \<open>int\<close> values
  inside \<open>in_int64\<close>; every addition or subtraction of the source is wrapped by \<open>wrap64\<close>.
\<close>

definition MinInt64 :: int where
  "MinInt64 = - (2 ^ 63)"

definition MaxInt64 :: int where
  "MaxInt64 = 2 ^ 63 - 1"

definition MaxInt32 :: int where
  "MaxInt32 = 2 ^ 31 - 1"

definition in_int64 :: "int \<Rightarrow> bool" where
  "in_int64 x \<longleftrightarrow> MinInt64 \<le> x \<and> x \<le> MaxInt64"

definition wrap64 :: "int \<Rightarrow> int" where
  "wrap64 x = (x + 2 ^ 63) mod 2 ^ 64 - 2 ^ 63"

section \<open>Errors and panics as values\<close>

text \<open>
  \<open>Ok\<close> is a normal return, \<open>Err\<close> a returned Go \<open>error\<close> with its message, \<open>Panic\<close> a run-time
  panic (a nil dereference, an index out of range, an explicit \<open>panic\<close>).
\<close>

datatype 'a outcome = Ok 'a | Err string | Panic string

primrec obind :: "'a outcome \<Rightarrow> ('a \<Rightarrow> 'b outcome) \<Rightarrow> 'b outcome" where
  "obind (Ok a) f = f a"
| "obind (Err e) f = Err e"
| "obind (Panic e) f = Panic e"

primrec is_ok :: "'a outcome \<Rightarrow> bool" where
  "is_ok (Ok a) = True"
| "is_ok (Err e) = False"
| "is_ok (Panic e) = False"

section \<open>Collections of facts\<close>

named_theorems int64_simps \<open>definitions of the 64-bit bounds\<close>
named_theorems inv_intros \<open>every operation keeps its component's invariant\<close>

lemmas int64_defs [int64_simps] = MinInt64_def MaxInt64_def MaxInt32_def in_int64_def

lemma wrap64_id [simp]: "in_int64 x \<Longrightarrow> wrap64 x = x"
  by (simp add: wrap64_def int64_simps)

lemma wrap64_in_range [simp]: "in_int64 (wrap64 x)"
  using pos_mod_bound [of "2 ^ 64" "x + 2 ^ 63"] pos_mod_sign [of "2 ^ 64" "x + 2 ^ 63"]
  by (simp add: wrap64_def int64_simps)

lemma obind_eq_Ok: "obind r f = Ok b \<longleftrightarrow> (\<exists>a. r = Ok a \<and> f a = Ok b)"
  by (cases r) auto

lemma is_ok_iff: "is_ok r \<longleftrightarrow> (\<exists>a. r = Ok a)"
  by (cases r) auto

section \<open>Go maps\<close>

text \<open>
  A Go map is an association list with distinct keys: \<open>AList.update\<close> stores, \<open>AList.delete\<close>
  removes, \<open>map_of\<close> looks up and \<open>length\<close> is \<open>len\<close>. The order of the list stands for the
  (unspecified) iteration order of the Go map.
\<close>

type_synonym ('k, 'v) gomap = "('k \<times> 'v) list"

definition gomap_ok :: "('k, 'v) gomap \<Rightarrow> bool" where
  "gomap_ok m \<longleftrightarrow> distinct (map fst m)"

definition keys :: "('k, 'v) gomap \<Rightarrow> 'k set" where
  "keys m = fst ` set m"

lemma keys_Nil [simp]: "keys [] = {}"
  by (simp add: keys_def)

lemma keys_dom: "keys m = dom (map_of m)"
  by (simp add: keys_def dom_map_of_conv_image_fst)

lemma in_keys_iff: "k \<in> keys m \<longleftrightarrow> (\<exists>v. map_of m k = Some v)"
  by (auto simp: keys_dom)

lemma finite_keys [simp]: "finite (keys m)"
  by (simp add: keys_def)

lemma keys_update [simp]: "keys (AList.update k v m) = insert k (keys m)"
  by (simp add: keys_dom update_conv')

lemma keys_delete [simp]: "keys (AList.delete k m) = keys m - {k}"
  by (simp add: keys_dom delete_conv')

lemma map_of_gomap_update [simp]: "map_of (AList.update k v m) = (map_of m)(k \<mapsto> v)"
  by (simp add: update_conv')

lemma map_of_gomap_delete [simp]: "map_of (AList.delete k m) = (map_of m)(k := None)"
  by (simp add: delete_conv')

lemma gomap_ok_Nil [simp]: "gomap_ok []"
  by (simp add: gomap_ok_def)

lemma gomap_ok_update [simp, inv_intros]: "gomap_ok m \<Longrightarrow> gomap_ok (AList.update k v m)"
  by (simp add: gomap_ok_def distinct_update)

lemma gomap_ok_delete [simp, inv_intros]: "gomap_ok m \<Longrightarrow> gomap_ok (AList.delete k m)"
  by (simp add: gomap_ok_def distinct_delete)

lemma length_gomap: "gomap_ok m \<Longrightarrow> length m = card (keys m)"
  by (metis gomap_ok_def distinct_card keys_def length_map list.set_map)

section \<open>A pool and its used elements partition a set\<close>

text \<open>
  What an id pool and its client agree on: the free ids are distinct, disjoint from the ids in
  use, and together they are exactly the ids the pool was created with.
\<close>

definition partitions :: "'a list \<Rightarrow> 'a set \<Rightarrow> 'a set \<Rightarrow> bool" where
  "partitions free used tot \<longleftrightarrow>
     distinct free \<and> set free \<inter> used = {} \<and> set free \<union> used = tot \<and> finite tot"

lemma partitions_take:
  "partitions (i # free) used tot \<Longrightarrow> partitions free (insert i used) tot \<and> i \<notin> used \<and> i \<in> tot"
  by (auto simp: partitions_def)

lemma partitions_return:
  "partitions free used tot \<Longrightarrow> i \<in> used \<Longrightarrow> partitions (free @ [i]) (used - {i}) tot"
  by (auto simp: partitions_def)

lemma partitions_card: "partitions free used tot \<Longrightarrow> length free + card used = card tot"
proof -
  assume p: "partitions free used tot"
  then have "finite used" "set free \<inter> used = {}" "length free = card (set free)"
    by (auto simp: partitions_def distinct_card intro: finite_subset)
  then show ?thesis
    using p by (auto simp: partitions_def card_Un_disjoint)
qed

end
