(* ===== verification/Go_Stdlib.thy ===== *)
theory Go_Stdlib
  imports Eris_Prelude
begin

text \<open>
  The parts of Go's standard library that the program's own logic runs through: \<open>strings\<close>
  (\<open>Split\<close>, \<open>ToLower\<close>, \<open>ToUpper\<close>, \<open>EqualFold\<close>, \<open>HasPrefix\<close>), \<open>strconv\<close> (\<open>ParseInt\<close> in base 10,
  \<open>Atoi\<close>), \<open>encoding/hex\<close> and the decimal and hexadecimal verbs of \<open>fmt\<close>. A Go string is its
  list of bytes; letter case is that of ASCII, which is exact for the field names, operators and
  numbers the program compares (its tables hold ASCII letters only).
\<close>

section \<open>strings\<close>

definition is_upper :: "char \<Rightarrow> bool" where
  "is_upper c \<longleftrightarrow> 65 \<le> (of_char c :: nat) \<and> (of_char c :: nat) \<le> 90"

definition is_lower :: "char \<Rightarrow> bool" where
  "is_lower c \<longleftrightarrow> 97 \<le> (of_char c :: nat) \<and> (of_char c :: nat) \<le> 122"

definition char_lower :: "char \<Rightarrow> char" where
  "char_lower c = (if is_upper c then char_of ((of_char c :: nat) + 32) else c)"

definition char_upper :: "char \<Rightarrow> char" where
  "char_upper c = (if is_lower c then char_of ((of_char c :: nat) - 32) else c)"

definition ToLower :: "string \<Rightarrow> string" where
  "ToLower s = map char_lower s"

definition ToUpper :: "string \<Rightarrow> string" where
  "ToUpper s = map char_upper s"

definition EqualFold :: "string \<Rightarrow> string \<Rightarrow> bool" where
  "EqualFold s t \<longleftrightarrow> ToLower s = ToLower t"

definition HasPrefix :: "string \<Rightarrow> string \<Rightarrow> bool" where
  "HasPrefix s p \<longleftrightarrow> take (length p) s = p"

text \<open>
  \<open>strings.Split\<close> for a non-empty separator: cut at the leftmost occurrence and go on behind it.
\<close>

function split_at :: "string \<Rightarrow> string \<Rightarrow> string \<Rightarrow> string list" where
  "split_at sep acc [] = [rev acc]"
| "split_at sep acc (c # cs) =
     (if sep \<noteq> [] \<and> HasPrefix (c # cs) sep
      then rev acc # split_at sep [] (drop (length sep) (c # cs))
      else split_at sep (c # acc) cs)"
  by pat_completeness auto
termination
  by (relation "measure (\<lambda>(sep, acc, s). length s)") auto

definition Split :: "string \<Rightarrow> string \<Rightarrow> string list" where
  "Split s sep = split_at sep [] s"

fun Join :: "string list \<Rightarrow> string \<Rightarrow> string" where
  "Join [] sep = []"
| "Join [x] sep = x"
| "Join (x # y # xs) sep = x @ sep @ Join (y # xs) sep"

section \<open>strconv and fmt: decimal numbers\<close>

definition digit_val :: "char \<Rightarrow> int option" where
  "digit_val c =
     (let n = (of_char c :: nat) in if 48 \<le> n \<and> n \<le> 57 then Some (int n - 48) else None)"

fun parse_digits :: "int \<Rightarrow> string \<Rightarrow> int option" where
  "parse_digits acc [] = Some acc"
| "parse_digits acc (c # cs) =
     (case digit_val c of None \<Rightarrow> None | Some d \<Rightarrow> parse_digits (10 * acc + d) cs)"

text \<open>\<open>ParseUint\<close> in base 10 without its range check: at least one digit, digits only.\<close>

definition parse_unsigned :: "string \<Rightarrow> int option" where
  "parse_unsigned s = (if s = [] then None else parse_digits 0 s)"

text \<open>
  \<open>strconv.ParseInt(s, 10, 64)\<close>, \<open>ParseInt(s, 10, 0)\<close> and \<open>Atoi\<close> on a 64-bit platform: an
  optional sign, digits, and an error for a value outside \<open>int64\<close>.
\<close>

definition ParseInt :: "string \<Rightarrow> int option" where
  "ParseInt s =
     (let r = (case s of
                 [] \<Rightarrow> None
               | c # cs \<Rightarrow>
                   (if c = CHR ''-'' then map_option uminus (parse_unsigned cs)
                    else if c = CHR ''+'' then parse_unsigned cs
                    else parse_unsigned s))
      in case r of None \<Rightarrow> None | Some v \<Rightarrow> if in_int64 v then Some v else None)"

definition digit_char :: "nat \<Rightarrow> char" where
  "digit_char d = char_of (48 + d)"

fun show_nat :: "nat \<Rightarrow> string" where
  "show_nat n = (if n < 10 then [digit_char n] else show_nat (n div 10) @ [digit_char (n mod 10)])"

declare show_nat.simps [simp del]

definition show_int :: "int \<Rightarrow> string" where
  "show_int i = (if i < 0 then CHR ''-'' # show_nat (nat (- i)) else show_nat (nat i))"

section \<open>encoding/hex\<close>

definition fromHexChar :: "char \<Rightarrow> nat option" where
  "fromHexChar c =
     (let n = (of_char c :: nat) in
      if 48 \<le> n \<and> n \<le> 57 then Some (n - 48)
      else if 97 \<le> n \<and> n \<le> 102 then Some (n - 87)
      else if 65 \<le> n \<and> n \<le> 70 then Some (n - 55)
      else None)"

fun DecodeString :: "string \<Rightarrow> bytes option" where
  "DecodeString [] = Some []"
| "DecodeString [c] = None"
| "DecodeString (a # b # cs) =
     (case (fromHexChar a, fromHexChar b) of
        (Some x, Some y) \<Rightarrow> map_option ((#) (word_of_nat (16 * x + y))) (DecodeString cs)
      | _ \<Rightarrow> None)"

definition hex_lower :: "nat \<Rightarrow> char" where
  "hex_lower n = (if n < 10 then char_of (48 + n) else char_of (87 + n))"

definition EncodeToString :: "bytes \<Rightarrow> string" where
  "EncodeToString bs = concat (map (\<lambda>b. [hex_lower (unat b div 16), hex_lower (unat b mod 16)]) bs)"

text \<open>The verb \<open>%X\<close> of \<open>fmt\<close> on a byte slice: upper-case hexadecimal.\<close>

definition fmt_X :: "bytes \<Rightarrow> string" where
  "fmt_X bs = ToUpper (EncodeToString bs)"

section \<open>Splitting and joining\<close>

lemma HasPrefix_drop: "HasPrefix s p \<Longrightarrow> p @ drop (length p) s = s"
  by (metis HasPrefix_def append_take_drop_id)

lemma split_at_ne [simp]: "split_at sep acc s \<noteq> []"
  by (induction sep acc s rule: split_at.induct) auto

lemma Split_ne [simp]: "Split s sep \<noteq> []"
  by (simp add: Split_def)

lemma Join_Cons: "xs \<noteq> [] \<Longrightarrow> Join (x # xs) sep = x @ sep @ Join xs sep"
  by (cases xs) auto

lemma Join_split_at: "sep \<noteq> [] \<Longrightarrow> Join (split_at sep acc s) sep = rev acc @ s"
proof (induction sep acc s rule: split_at.induct)
  case (2 sep acc c cs)
  show ?case
  proof (cases "HasPrefix (c # cs) sep")
    case True
    with 2 show ?thesis
      using HasPrefix_drop [OF True] by (simp add: Join_Cons del: drop_Cons')
  next
    case False
    with 2 show ?thesis by simp
  qed
qed simp

lemma Join_Split: "sep \<noteq> [] \<Longrightarrow> Join (Split s sep) sep = s"
  by (simp add: Split_def Join_split_at)

lemma split_at_char_notin: "c \<notin> set x \<Longrightarrow> split_at [c] acc x = [rev acc @ x]"
  by (induction x arbitrary: acc) (auto simp: HasPrefix_def)

lemma split_at_char_app:
  "c \<notin> set x \<Longrightarrow> split_at [c] acc (x @ c # y) = (rev acc @ x) # split_at [c] [] y"
  by (induction x arbitrary: acc) (auto simp: HasPrefix_def)

lemma Split_char_notin [simp]: "c \<notin> set x \<Longrightarrow> Split x [c] = [x]"
  by (simp add: Split_def split_at_char_notin)

lemma Split_char_app [simp]: "c \<notin> set x \<Longrightarrow> Split (x @ c # y) [c] = x # Split y [c]"
  by (simp add: Split_def split_at_char_app)

lemma Split_char_two:
  "c \<notin> set x \<Longrightarrow> c \<notin> set y \<Longrightarrow> Split (x @ c # y) [c] = [x, y]"
  by simp

text \<open>Joining pieces free of the separator and splitting again gives the pieces back.\<close>

lemma Split_Join:
  "xs \<noteq> [] \<Longrightarrow> \<forall>x\<in>set xs. c \<notin> set x \<Longrightarrow> Split (Join xs [c]) [c] = xs"
proof (induction xs)
  case (Cons x xs)
  then show ?case by (cases xs) auto
qed simp

text \<open>The pieces of a split by one character never hold that character.\<close>

lemma split_at_char_pieces:
  "c \<notin> set acc \<Longrightarrow> x \<in> set (split_at [c] acc s) \<Longrightarrow> c \<notin> set x"
proof (induction "[c]" acc s rule: split_at.induct)
  case (2 acc d cs)
  then show ?case by (cases "d = c") (auto simp: HasPrefix_def)
qed simp

lemma Split_char_pieces: "x \<in> set (Split s [c]) \<Longrightarrow> c \<notin> set x"
  using split_at_char_pieces [of c "[]"] by (simp add: Split_def)

text \<open>
  The two-character range separator: the first part holds no dot, so the cut is at its end.
\<close>

lemma split_at_dd_notin:
  "CHR ''.'' \<notin> set x \<Longrightarrow> split_at ''..'' acc x = [rev acc @ x]"
  by (induction x arbitrary: acc) (auto simp: HasPrefix_def)

lemma split_at_dd_app:
  "CHR ''.'' \<notin> set x \<Longrightarrow>
   split_at ''..'' acc (x @ ''..'' @ y) = (rev acc @ x) # split_at ''..'' [] y"
  by (induction x arbitrary: acc) (auto simp: HasPrefix_def)

lemma Split_dd_range:
  "CHR ''.'' \<notin> set x \<Longrightarrow> CHR ''.'' \<notin> set y \<Longrightarrow> Split (x @ ''..'' @ y) ''..'' = [x, y]"
  unfolding Split_def by (subst split_at_dd_app) (simp_all add: split_at_dd_notin)

lemma Split_dd_notin: "CHR ''.'' \<notin> set x \<Longrightarrow> Split x ''..'' = [x]"
  by (simp add: Split_def split_at_dd_notin)

section \<open>Case folding\<close>

lemma char_lower_idem [simp]: "char_lower (char_lower c) = char_lower c"
  by (auto simp: char_lower_def is_upper_def)

lemma ToLower_idem [simp]: "ToLower (ToLower s) = ToLower s"
  by (simp add: ToLower_def)

lemma length_ToLower [simp]: "length (ToLower s) = length s"
  by (simp add: ToLower_def)

lemma length_ToUpper [simp]: "length (ToUpper s) = length s"
  by (simp add: ToUpper_def)

lemma EqualFold_refl [simp]: "EqualFold s s"
  by (simp add: EqualFold_def)

lemma EqualFold_sym: "EqualFold s t \<longleftrightarrow> EqualFold t s"
  by (auto simp: EqualFold_def)

lemma EqualFold_trans: "EqualFold s t \<Longrightarrow> EqualFold t u \<Longrightarrow> EqualFold s u"
  by (simp add: EqualFold_def)

section \<open>Decimal numbers\<close>

lemma digit_val_digit_char [simp]: "d < 10 \<Longrightarrow> digit_val (digit_char d) = Some (int d)"
  by (simp add: digit_val_def digit_char_def Let_def)

lemma parse_digits_append:
  "parse_digits a (s @ t) = (case parse_digits a s of None \<Rightarrow> None | Some b \<Rightarrow> parse_digits b t)"
  by (induction a s rule: parse_digits.induct) (auto split: option.splits)

lemma show_nat_ne [simp]: "show_nat n \<noteq> []"
  by (subst show_nat.simps) simp

lemma parse_show_nat: "parse_digits 0 (show_nat n) = Some (int n)"
proof (induction n rule: show_nat.induct)
  case (1 n)
  show ?case
  proof (cases "n < 10")
    case True
    then show ?thesis by (subst show_nat.simps) simp
  next
    case False
    with 1 have "parse_digits 0 (show_nat (n div 10)) = Some (int (n div 10))" by simp
    with False show ?thesis
      by (subst show_nat.simps) (simp add: parse_digits_append zdiv_int zmod_int)
  qed
qed

lemma parse_unsigned_show_nat [simp]: "parse_unsigned (show_nat n) = Some (int n)"
  by (simp add: parse_unsigned_def parse_show_nat)

lemma show_nat_digits: "c \<in> set (show_nat n) \<Longrightarrow> digit_val c \<noteq> None"
proof (induction n rule: show_nat.induct)
  case (1 n)
  then show ?case
    by (cases "n < 10") (auto simp: show_nat.simps [of n])
qed

lemma show_nat_hd_not_sign: "show_nat n = c # cs \<Longrightarrow> c \<noteq> CHR ''-'' \<and> c \<noteq> CHR ''+''"
  using show_nat_digits [of c n] by (auto simp: digit_val_def Let_def)

lemma ParseInt_show_int:
  assumes "in_int64 i"
  shows "ParseInt (show_int i) = Some i"
proof (cases "i < 0")
  case True
  with assms show ?thesis by (simp add: ParseInt_def show_int_def)
next
  case False
  obtain c cs where s: "show_nat (nat i) = c # cs" by (metis show_nat_ne neq_Nil_conv)
  have u: "parse_unsigned (c # cs) = Some (int (nat i))" by (metis s parse_unsigned_show_nat)
  with False assms s show_nat_hd_not_sign [OF s] show ?thesis
    by (simp add: ParseInt_def show_int_def)
qed

lemma ParseInt_in_range: "ParseInt s = Some v \<Longrightarrow> in_int64 v"
  by (auto simp: ParseInt_def Let_def split: option.splits if_splits)

section \<open>Hexadecimal\<close>

lemma fromHexChar_hex_lower [simp]: "n < 16 \<Longrightarrow> fromHexChar (hex_lower n) = Some n"
  by (auto simp: fromHexChar_def hex_lower_def Let_def)

lemma fromHexChar_upper [simp]: "fromHexChar (char_upper c) = fromHexChar c"
proof (cases "is_lower c")
  case True
  then show ?thesis
    by (auto simp: fromHexChar_def char_upper_def is_lower_def Let_def)
next
  case False
  then show ?thesis by (simp add: char_upper_def)
qed

lemma DecodeString_ToUpper: "DecodeString (ToUpper s) = DecodeString s"
  by (induction s rule: DecodeString.induct) (auto simp: ToUpper_def split: option.splits)

lemma DecodeString_EncodeToString [simp]: "DecodeString (EncodeToString bs) = Some bs"
proof (induction bs)
  case Nil
  then show ?case by (simp add: EncodeToString_def)
next
  case (Cons b bs)
  have "unat b < 256" using unsigned_less [of b] by simp
  then show ?case using Cons by (simp add: EncodeToString_def)
qed

lemma DecodeString_fmt_X [simp]: "DecodeString (fmt_X bs) = Some bs"
  by (simp add: fmt_X_def DecodeString_ToUpper)

lemma EncodeToString_inject: "EncodeToString a = EncodeToString b \<longleftrightarrow> a = b"
  by (metis DecodeString_EncodeToString option.inject)

lemma fmt_X_inject: "fmt_X a = fmt_X b \<longleftrightarrow> a = b"
  by (metis DecodeString_fmt_X option.inject)

lemma length_EncodeToString [simp]: "length (EncodeToString bs) = 2 * length bs"
  by (induction bs) (simp_all add: EncodeToString_def)

lemma length_fmt_X [simp]: "length (fmt_X bs) = 2 * length bs"
  by (simp add: fmt_X_def)

lemma DecodeString_length: "DecodeString s = Some bs \<Longrightarrow> length s = 2 * length bs"
  by (induction s arbitrary: bs rule: DecodeString.induct) (auto split: option.splits)

lemma DecodeString_defined:
  "DecodeString s \<noteq> None \<longleftrightarrow> even (length s) \<and> (\<forall>c\<in>set s. fromHexChar c \<noteq> None)"
  by (induction s rule: DecodeString.induct) (auto split: option.splits)

end
