(* ===== verification/Util_Regex.thy ===== *)
theory Util_Regex
  imports Go_Stdlib
begin

text \<open>
  Package \<open>util\<close> (\<open>src/util/util.go\<close>): the four anchored regular expressions over hexadecimal
  digits, as predicates on strings, and what they guarantee to \<open>hex.DecodeString\<close>.
\<close>

definition hex_class :: "char \<Rightarrow> bool" where
  "hex_class c \<longleftrightarrow>
     (let n = (of_char c :: nat) in
        (48 \<le> n \<and> n \<le> 57) \<or> (97 \<le> n \<and> n \<le> 102) \<or> (65 \<le> n \<and> n \<le> 70))"

definition hexRe :: "string \<Rightarrow> bool" where
  "hexRe s \<longleftrightarrow> list_all hex_class s"

definition hexReN :: "nat \<Rightarrow> string \<Rightarrow> bool" where
  "hexReN n s \<longleftrightarrow> length s = n \<and> list_all hex_class s"

definition IsHex :: "string \<Rightarrow> bool" where
  "IsHex s \<longleftrightarrow> hexRe s"

definition IsHash :: "string \<Rightarrow> bool" where
  "IsHash s \<longleftrightarrow> hexReN 64 s"

definition IsAddress :: "string \<Rightarrow> bool" where
  "IsAddress s \<longleftrightarrow> hexReN 40 s"

definition IsPubKey :: "string \<Rightarrow> bool" where
  "IsPubKey s \<longleftrightarrow> hexReN 64 s"

definition IsPrivKey :: "string \<Rightarrow> bool" where
  "IsPrivKey s \<longleftrightarrow> hexReN 128 s"

lemma hex_class_iff: "hex_class c \<longleftrightarrow> fromHexChar c \<noteq> None"
  by (simp add: hex_class_def fromHexChar_def Let_def)

lemma hexReN_iff_decodes:
  "hexReN (2 * n) s \<longleftrightarrow> (\<exists>bs. DecodeString s = Some bs \<and> length bs = n)"
proof
  assume h: "hexReN (2 * n) s"
  then have "DecodeString s \<noteq> None"
    unfolding DecodeString_defined by (simp add: hexReN_def list_all_iff hex_class_iff)
  then obtain bs where bs: "DecodeString s = Some bs" by auto
  with h DecodeString_length [OF bs] show "\<exists>bs. DecodeString s = Some bs \<and> length bs = n"
    by (auto simp: hexReN_def)
next
  assume "\<exists>bs. DecodeString s = Some bs \<and> length bs = n"
  then obtain bs where bs: "DecodeString s = Some bs" "length bs = n" by blast
  then have "\<forall>c\<in>set s. fromHexChar c \<noteq> None"
    using DecodeString_defined [of s] by auto
  with bs DecodeString_length [OF bs(1)] show "hexReN (2 * n) s"
    by (simp add: hexReN_def list_all_iff hex_class_iff)
qed

lemma IsAddress_iff_decodes: "IsAddress s \<longleftrightarrow> (\<exists>bs. DecodeString s = Some bs \<and> length bs = 20)"
  using hexReN_iff_decodes [of 20 s] by (simp add: IsAddress_def)

lemma IsPrivKey_iff_decodes: "IsPrivKey s \<longleftrightarrow> (\<exists>bs. DecodeString s = Some bs \<and> length bs = 64)"
  using hexReN_iff_decodes [of 64 s] by (simp add: IsPrivKey_def)

lemma IsPubKey_iff_decodes: "IsPubKey s \<longleftrightarrow> (\<exists>bs. DecodeString s = Some bs \<and> length bs = 32)"
  using hexReN_iff_decodes [of 32 s] by (simp add: IsPubKey_def)

lemma IsHex_even_decodes: "IsHex s \<and> even (length s) \<longleftrightarrow> DecodeString s \<noteq> None"
  unfolding DecodeString_defined by (auto simp: IsHex_def hexRe_def list_all_iff hex_class_iff)

end
