(* ===== verification/Id_Pool.thy ===== *)
theory Id_Pool
  imports Eris_Prelude
begin

text \<open>
  The id pool of \<open>src/server/idpool.go\<close>, the interface its two clients (the websocket session
  manager and the test-server manager) rely on, and the laws the pool keeps.
\<close>

section \<open>The pool\<close>

record IdPool =
  ids :: "uint list"

text \<open>
  The loop of \<open>init\<close> counts a 64-bit unsigned counter up to \<open>totNum\<close>; for the largest \<open>totNum\<close>
  the counter wraps to 0 and the loop never ends, which is \<open>None\<close> here.
\<close>

partial_function (option) init_loop :: "uint \<Rightarrow> uint \<Rightarrow> uint list \<Rightarrow> uint list option" where
  "init_loop i totNum acc = (if i \<le> totNum then init_loop (i + 1) totNum (acc @ [i]) else Some acc)"

definition init :: "uint \<Rightarrow> IdPool option" where
  "init totNum = map_option (\<lambda>xs. \<lparr>ids = xs\<rparr>) (init_loop 1 totNum [])"

definition NewIdPool :: "uint \<Rightarrow> IdPool option" where
  "NewIdPool totNum = init totNum"

text \<open>The id (0 with an error), the error, the pool afterwards.\<close>

definition GetId :: "IdPool \<Rightarrow> uint \<times> string option \<times> IdPool" where
  "GetId idp = (case ids idp of
      [] \<Rightarrow> (0, Some ''Out of IDs'', idp)
    | val # rest \<Rightarrow> (val, None, idp\<lparr>ids := rest\<rparr>))"

definition ReleaseId :: "IdPool \<Rightarrow> uint \<Rightarrow> IdPool" where
  "ReleaseId idp i = idp\<lparr>ids := ids idp @ [i]\<rparr>"

section \<open>The interface its clients rely on\<close>

locale id_source =
  fixes get :: "'p \<Rightarrow> uint \<times> string option \<times> 'p"
    and release :: "'p \<Rightarrow> uint \<Rightarrow> 'p"
    and free :: "'p \<Rightarrow> uint list"
  assumes get_empty: "free p = [] \<Longrightarrow> get p = (0, Some ''Out of IDs'', p)"
    and get_some: "free p = i # rest \<Longrightarrow> \<exists>p'. get p = (i, None, p') \<and> free p' = rest"
    and free_release: "free (release p i) = free p @ [i]"
begin

lemma get_error_iff: "get p = (i, e, p') \<Longrightarrow> e = None \<longleftrightarrow> free p \<noteq> []"
  using get_empty [of p] get_some [of p] by (cases "free p") auto

lemma get_keeps:
  assumes "partitions (free p) used tot" and "get p = (i, None, p')"
  shows "partitions (free p') (insert i used) tot" and "i \<notin> used" and "i \<in> tot"
proof -
  obtain rest where f: "free p = i # rest" and f': "free p' = rest"
    using assms(2) get_empty [of p] get_some [of p] by (cases "free p") auto
  show "partitions (free p') (insert i used) tot" and "i \<notin> used" and "i \<in> tot"
    using partitions_take [of i rest used tot] assms(1) f f' by simp_all
qed

lemma get_succeeds:
  assumes "partitions (free p) used tot" and "card used < card tot"
  shows "\<exists>i p'. get p = (i, None, p')"
proof -
  from partitions_card [OF assms(1)] assms(2) have "free p \<noteq> []" by auto
  then show ?thesis using get_some [of p] by (cases "free p") auto
qed

lemma get_fails:
  assumes "partitions (free p) used tot" and "card tot \<le> card used"
  shows "get p = (0, Some ''Out of IDs'', p)"
proof -
  from partitions_card [OF assms(1)] assms(2) have "free p = []" by (cases "free p") simp_all
  then show ?thesis by (rule get_empty)
qed

lemma release_keeps:
  "partitions (free p) used tot \<Longrightarrow> i \<in> used \<Longrightarrow>
   partitions (free (release p i)) (used - {i}) tot"
  by (simp add: free_release partitions_return)

end

interpretation pool: id_source GetId ReleaseId ids
  by unfold_locales (auto simp: GetId_def ReleaseId_def)

section \<open>The ids a new pool holds\<close>

definition all_ids :: "uint \<Rightarrow> uint set" where
  "all_ids totNum = {i. 1 \<le> i \<and> i \<le> totNum}"

declare init_loop.simps [simp del]

lemma init_loop_result:
  assumes "totNum < - 1"
  shows "init_loop i totNum acc = Some (acc @ map word_of_nat [unat i..<Suc (unat totNum)])"
proof (induction "Suc (unat totNum) - unat i" arbitrary: i acc)
  case 0
  then have "\<not> i \<le> totNum" by (simp add: word_le_nat_alt)
  with 0 show ?case by (subst init_loop.simps) simp
next
  case (Suc n)
  then have le: "i \<le> totNum" by (simp add: word_le_nat_alt)
  with assms have "1 + i \<noteq> 0" using max_word_wrap [of i] by (auto simp: add.commute)
  then have u: "unat (i + 1) = Suc (unat i)" by (metis unatSuc add.commute)
  with Suc le have "init_loop (i + 1) totNum (acc @ [i]) =
      Some ((acc @ [i]) @ map word_of_nat [unat (i + 1)..<Suc (unat totNum)])"
    by (intro Suc.hyps) simp
  with le u show ?case
    by (subst init_loop.simps) (simp add: upt_conv_Cons word_le_nat_alt del: upt_Suc)
qed

lemma NewIdPool_result:
  "totNum < - 1 \<Longrightarrow>
   NewIdPool totNum = Some \<lparr>ids = map word_of_nat [1..<Suc (unat totNum)]\<rparr>"
  by (simp add: NewIdPool_def init_def init_loop_result del: upt_Suc)

lemma init_loop_wraps: "init_loop i (- 1) acc \<noteq> Some r"
proof
  assume ret: "init_loop i (- 1) acc = Some r"
  have "\<And>tot. init_loop i tot acc = Some r \<Longrightarrow> tot \<noteq> - 1"
    by (erule init_loop.raw_induct [rotated]) (use max_word_max in \<open>auto split: if_splits\<close>)
  with ret show False by blast
qed

lemma set_ids_new: "set (map word_of_nat [1..<Suc (unat totNum)]) = all_ids totNum"
proof (intro set_eqI iffI)
  fix x :: uint
  assume "x \<in> set (map word_of_nat [1..<Suc (unat totNum)])"
  then obtain n where n: "x = word_of_nat n" "1 \<le> n" "n \<le> unat totNum" by auto
  moreover have "unat totNum < 2 ^ 64" using unsigned_less [of totNum] by simp
  ultimately have "unat x = n" by (simp add: unat_of_nat)
  with n show "x \<in> all_ids totNum" by (simp add: all_ids_def word_le_nat_alt)
next
  fix x :: uint
  assume "x \<in> all_ids totNum"
  then have "x = word_of_nat (unat x)" "unat x \<in> set [1..<Suc (unat totNum)]"
    by (auto simp: all_ids_def word_le_nat_alt)
  then show "x \<in> set (map word_of_nat [1..<Suc (unat totNum)])"
    by (metis image_eqI list.set_map)
qed

lemma inj_word_of_nat_upto: "inj_on (word_of_nat :: nat \<Rightarrow> uint) {..<2 ^ 64}"
proof (rule inj_onI)
  fix x y :: nat
  assume "x \<in> {..<2 ^ 64}" "y \<in> {..<2 ^ 64}" and eq: "word_of_nat x = (word_of_nat y :: uint)"
  moreover from eq have "unat (word_of_nat x :: uint) = unat (word_of_nat y :: uint)" by simp
  ultimately show "x = y" unfolding unat_of_nat by simp
qed

lemma distinct_ids_new: "distinct (map (word_of_nat :: nat \<Rightarrow> uint) [1..<Suc (unat totNum)])"
  for totNum :: uint
proof -
  have "set [1..<Suc (unat totNum)] \<subseteq> {..<2 ^ 64}"
    using unsigned_less [of totNum] by auto
  then show ?thesis
    by (simp add: distinct_map inj_on_subset [OF inj_word_of_nat_upto] del: upt_Suc)
qed

lemma NewIdPool_partitions:
  "NewIdPool totNum = Some p \<Longrightarrow> partitions (ids p) {} (all_ids totNum)"
proof -
  assume new: "NewIdPool totNum = Some p"
  have "totNum \<noteq> (- 1 :: uint)"
    using new init_loop_wraps by (auto simp: NewIdPool_def init_def)
  then have "totNum < - 1" using max_word_max [of totNum] by (rule le_neq_trans [rotated])
  then show ?thesis
    using new set_ids_new [of totNum] distinct_ids_new [of totNum]
    by (auto simp: NewIdPool_result partitions_def simp del: upt_Suc)
qed

lemma card_all_ids: "card (all_ids totNum) = unat totNum"
proof -
  have "card (all_ids totNum) = card (set (map (word_of_nat :: nat \<Rightarrow> uint) [1..<Suc (unat totNum)]))"
    by (simp only: set_ids_new)
  also have "\<dots> = length (map (word_of_nat :: nat \<Rightarrow> uint) [1..<Suc (unat totNum)])"
    by (rule distinct_card [OF distinct_ids_new])
  finally show ?thesis by simp
qed

end
