(* ===== verification/Session_Manager.thy ===== *)
theory Session_Manager
  imports Id_Pool
begin

text \<open>
  The websocket session manager of \<open>src/server/websocket.go\<close>: sessions as heap objects, the map of
  active sessions, the id pool, and the observer channels. A pointer is an index into \<open>heap\<close> (for
  sessions) or \<open>chans\<close> (for observer channels); a nil map is \<open>None\<close>; a send that would block for ever
  because the one-element buffer is full gives \<open>None\<close>.
\<close>

section \<open>State\<close>

record WSSession =
  sessId :: uint
  wsConn :: nat
  writeChan :: "bytes list"
  opened :: bool
  closed :: bool

record SessionManager =
  maxSessions :: uint
  activeSessions :: "(uint, nat) gomap option"
  idPool :: IdPool
  heap :: "WSSession list"
  chans :: "nat list list"
  openEventChans :: "nat list"
  closeEventChans :: "nat list"

definition maxMessageSize :: nat where
  "maxMessageSize = 1000000"

section \<open>Operations\<close>

definition NewSessionManager :: "uint \<Rightarrow> SessionManager option" where
  "NewSessionManager n = map_option (\<lambda>p.
     \<lparr>maxSessions = n, activeSessions = Some [], idPool = p, heap = [], chans = [],
      openEventChans = [], closeEventChans = []\<rparr>) (NewIdPool n)"

definition Shutdown :: "SessionManager \<Rightarrow> SessionManager" where
  "Shutdown s = s\<lparr>activeSessions := None\<rparr>"

definition SessionOpenEventChannel :: "SessionManager \<Rightarrow> nat \<times> SessionManager" where
  "SessionOpenEventChannel s =
     (let lChan = length (chans s)
      in (lChan, s\<lparr>chans := chans s @ [[]], openEventChans := openEventChans s @ [lChan]\<rparr>))"

definition SessionCloseEventChannel :: "SessionManager \<Rightarrow> nat \<times> SessionManager" where
  "SessionCloseEventChannel s =
     (let lChan = length (chans s)
      in (lChan, s\<lparr>chans := chans s @ [[]], closeEventChans := closeEventChans s @ [lChan]\<rparr>))"

text \<open>
  Both removals work on a local copy \<open>ec\<close> of the slice header: the assignment
  \<open>ec[i], ec = ec[len(ec)-1], ec[:len(ec)-1]\<close> writes the last channel into slot \<open>i\<close> of the shared
  backing array and shortens the local slice only.
\<close>

fun index_of :: "'a list \<Rightarrow> 'a \<Rightarrow> nat option" where
  "index_of [] x = None"
| "index_of (y # ys) x = (if x = y then Some 0 else map_option Suc (index_of ys x))"

definition remove_chan :: "nat list \<Rightarrow> nat \<Rightarrow> bool \<times> nat list" where
  "remove_chan ec lChan =
     (if length ec = 0 then (False, ec)
      else case index_of ec lChan of
             None \<Rightarrow> (False, ec)
           | Some i \<Rightarrow> (True, ec[i := last ec]))"

definition RemoveSessionOpenEventChannel :: "SessionManager \<Rightarrow> nat \<Rightarrow> bool \<times> SessionManager" where
  "RemoveSessionOpenEventChannel s lChan =
     (let (ok, ec) = remove_chan (openEventChans s) lChan in (ok, s\<lparr>openEventChans := ec\<rparr>))"

definition RemoveSessionCloseEventChannel :: "SessionManager \<Rightarrow> nat \<Rightarrow> bool \<times> SessionManager" where
  "RemoveSessionCloseEventChannel s lChan =
     (let (ok, ec) = remove_chan (closeEventChans s) lChan in (ok, s\<lparr>closeEventChans := ec\<rparr>))"

text \<open>Sending the session to each observer in turn; the channels have a buffer of one.\<close>

fun notify :: "nat list \<Rightarrow> nat \<Rightarrow> nat list list \<Rightarrow> nat list list option" where
  "notify [] session cs = Some cs"
| "notify (lChan # rest) session cs =
     (if length (cs ! lChan) < 1 then notify rest session (cs[lChan := cs ! lChan @ [session]])
      else None)"

definition notifyOpened :: "SessionManager \<Rightarrow> nat \<Rightarrow> SessionManager option" where
  "notifyOpened s session =
     map_option (\<lambda>cs. s\<lparr>chans := cs\<rparr>) (notify (openEventChans s) session (chans s))"

definition notifyClosed :: "SessionManager \<Rightarrow> nat \<Rightarrow> SessionManager option" where
  "notifyClosed s session =
     map_option (\<lambda>cs. s\<lparr>chans := cs\<rparr>) (notify (closeEventChans s) session (chans s))"

definition num_active :: "SessionManager \<Rightarrow> nat" where
  "num_active s = (case activeSessions s of None \<Rightarrow> 0 | Some m \<Rightarrow> length m)"

text \<open>\<open>int(this.maxSessions)\<close> reads the unsigned limit as a signed number.\<close>

definition atCapacity :: "SessionManager \<Rightarrow> bool" where
  "atCapacity s \<longleftrightarrow> int (num_active s) \<ge> sint (maxSessions s)"

definition createSession :: "SessionManager \<Rightarrow> nat \<Rightarrow> (nat \<times> SessionManager) outcome" where
  "createSession s conn =
     (if atCapacity s then Err ''Already at capacity''
      else
        let (newId, _, p') = GetId (idPool s);
            session = \<lparr>sessId = newId, wsConn = conn, writeChan = [], opened = False, closed = False\<rparr>;
            ref = length (heap s)
        in case activeSessions s of
             None \<Rightarrow> Panic ''assignment to entry in nil map''
           | Some m \<Rightarrow> Ok (ref, s\<lparr>idPool := p', heap := heap s @ [session],
                                  activeSessions := Some (AList.update newId ref m)\<rparr>))"

definition removeSession :: "SessionManager \<Rightarrow> uint \<Rightarrow> SessionManager" where
  "removeSession s i =
     (case activeSessions s of
        None \<Rightarrow> s
      | Some m \<Rightarrow>
          (case map_of m i of
             None \<Rightarrow> s
           | Some _ \<Rightarrow> s\<lparr>activeSessions := Some (AList.delete i m), idPool := ReleaseId (idPool s) i\<rparr>))"

text \<open>
  \<open>WSSession.Open\<close> up to the start of its two pumps. Opening and closing a session are one step each,
  with the notification of the observers. In the code a notification that blocks on a full channel
  leaves the call half done while other goroutines go on; the states they then reach are not
  states of this model, which has no step where the call would block.
\<close>

definition Open :: "SessionManager \<Rightarrow> nat \<Rightarrow> SessionManager option" where
  "Open s ref = notifyOpened (s\<lparr>heap := (heap s)[ref := (heap s ! ref)\<lparr>opened := True\<rparr>]\<rparr>) ref"

text \<open>\<open>WSSession.Close\<close>: the state changes, and then the notification of the observers.\<close>

definition close_session :: "SessionManager \<Rightarrow> nat \<Rightarrow> SessionManager" where
  "close_session s ref =
     removeSession (s\<lparr>heap := (heap s)[ref := (heap s ! ref)\<lparr>closed := True\<rparr>]\<rparr>) (sessId (heap s ! ref))"

definition Close :: "SessionManager \<Rightarrow> nat \<Rightarrow> SessionManager option" where
  "Close s ref =
     (if closed (heap s ! ref) then Some s else notifyClosed (close_session s ref) ref)"

text \<open>\<open>WSSession.Write\<close>: \<open>None\<close> when the buffer of the write channel is full.\<close>

definition Write :: "SessionManager \<Rightarrow> nat \<Rightarrow> bytes \<Rightarrow> (SessionManager outcome) option" where
  "Write s ref msg =
     (let session = heap s ! ref in
      if closed session then Some (Err ''Session is closed'')
      else if length (writeChan session) < maxMessageSize
      then Some (Ok (s\<lparr>heap := (heap s)[ref := session\<lparr>writeChan := writeChan session @ [msg]\<rparr>]\<rparr>))
      else None)"

section \<open>Invariant\<close>

text \<open>
  While the manager is not shut down: the active ids and the free ids partition the ids of the
  pool, the map points to sessions that carry the key as their id and are not closed, and every
  session that is not closed is in the map. After a shutdown the map is gone, but some such map
  still describes the sessions that were left open.
\<close>

definition active_ok :: "WSSession list \<Rightarrow> (uint, nat) gomap \<Rightarrow> bool" where
  "active_ok h m \<longleftrightarrow>
     (\<forall>i r. map_of m i = Some r \<longrightarrow> r < length h \<and> sessId (h ! r) = i \<and> \<not> closed (h ! r)) \<and>
     (\<forall>r < length h. \<not> closed (h ! r) \<longrightarrow> map_of m (sessId (h ! r)) = Some r)"

definition sm_inv :: "SessionManager \<Rightarrow> bool" where
  "sm_inv s \<longleftrightarrow>
     (case activeSessions s of
        None \<Rightarrow> (\<exists>m. active_ok (heap s) m \<and> keys m \<subseteq> all_ids (maxSessions s))
      | Some m \<Rightarrow> gomap_ok m \<and> partitions (ids (idPool s)) (keys m) (all_ids (maxSessions s)) \<and>
                  active_ok (heap s) m)"

lemma sm_inv_new: "NewSessionManager n = Some s \<Longrightarrow> sm_inv s"
  using NewIdPool_partitions [of n]
  by (auto simp: NewSessionManager_def sm_inv_def active_ok_def)

lemma sm_inv_cong [inv_intros]:
  "sm_inv s \<Longrightarrow> activeSessions t = activeSessions s \<Longrightarrow> idPool t = idPool s \<Longrightarrow>
   maxSessions t = maxSessions s \<Longrightarrow> heap t = heap s \<Longrightarrow> sm_inv t"
  by (auto simp: sm_inv_def split: option.splits)

lemma active_okI:
  assumes "\<And>i r. map_of m i = Some r \<Longrightarrow> r < length h \<and> sessId (h ! r) = i \<and> \<not> closed (h ! r)"
    and "\<And>r. r < length h \<Longrightarrow> \<not> closed (h ! r) \<Longrightarrow> map_of m (sessId (h ! r)) = Some r"
  shows "active_ok h m"
  unfolding active_ok_def using assms by blast

lemma active_ok_entry:
  "active_ok h m \<Longrightarrow> map_of m i = Some r \<Longrightarrow> r < length h \<and> sessId (h ! r) = i \<and> \<not> closed (h ! r)"
  unfolding active_ok_def by blast

lemma active_ok_open:
  "active_ok h m \<Longrightarrow> r < length h \<Longrightarrow> \<not> closed (h ! r) \<Longrightarrow> map_of m (sessId (h ! r)) = Some r"
  unfolding active_ok_def by blast

text \<open>Updating a session without touching its id or its closed flag keeps \<open>active_ok\<close>.\<close>

lemma active_ok_touch:
  assumes "active_ok h m" and x: "sessId x = sessId (h ! r)" "closed x = closed (h ! r)"
  shows "active_ok (h[r := x]) m"
proof -
  have "sessId (h[r := x] ! k) = sessId (h ! k) \<and> closed (h[r := x] ! k) = closed (h ! k)" for k
    using x by (cases "r < length h \<and> k = r") (auto simp: list_update_beyond)
  then show ?thesis using assms(1) unfolding active_ok_def length_list_update by metis
qed

lemma active_ok_add:
  assumes ok: "active_ok h m" and new: "i \<notin> keys m" and x: "sessId x = i" "\<not> closed x"
  shows "active_ok (h @ [x]) (AList.update i (length h) m)"
proof (rule active_okI)
  fix j r assume "map_of (AList.update i (length h) m) j = Some r"
  then show "r < length (h @ [x]) \<and> sessId ((h @ [x]) ! r) = j \<and> \<not> closed ((h @ [x]) ! r)"
    using x active_ok_entry [OF ok, of j r] by (cases "j = i") (auto simp: nth_append)
next
  fix r assume r: "r < length (h @ [x])" "\<not> closed ((h @ [x]) ! r)"
  show "map_of (AList.update i (length h) m) (sessId ((h @ [x]) ! r)) = Some r"
  proof (cases "r < length h")
    case True
    with r have "map_of m (sessId (h ! r)) = Some r"
      by (intro active_ok_open [OF ok]) (simp_all add: nth_append)
    with True new show ?thesis by (auto simp: nth_append in_keys_iff)
  qed (use r x in \<open>simp add: nth_append\<close>)
qed

lemma active_ok_close:
  assumes ok: "active_ok h m" and r: "r < length h" and op: "\<not> closed (h ! r)"
  shows "active_ok (h[r := (h ! r)\<lparr>closed := True\<rparr>]) (AList.delete (sessId (h ! r)) m)"
proof (rule active_okI)
  fix j k assume e: "map_of (AList.delete (sessId (h ! r)) m) j = Some k"
  then have m: "map_of m j = Some k" and ne: "j \<noteq> sessId (h ! r)" by (auto split: if_splits)
  from active_ok_entry [OF ok m] ne have "k \<noteq> r" by auto
  with active_ok_entry [OF ok m] show "k < length (h[r := (h ! r)\<lparr>closed := True\<rparr>]) \<and>
      sessId (h[r := (h ! r)\<lparr>closed := True\<rparr>] ! k) = j \<and> \<not> closed (h[r := (h ! r)\<lparr>closed := True\<rparr>] ! k)"
    by simp
next
  fix k assume k: "k < length (h[r := (h ! r)\<lparr>closed := True\<rparr>])"
    and o: "\<not> closed (h[r := (h ! r)\<lparr>closed := True\<rparr>] ! k)"
  from o r have ne: "k \<noteq> r" by auto
  with k o have mk: "map_of m (sessId (h ! k)) = Some k"
    by (intro active_ok_open [OF ok]) simp_all
  moreover have "sessId (h ! k) \<noteq> sessId (h ! r)"
    using mk ne active_ok_open [OF ok r op] by auto
  ultimately show "map_of (AList.delete (sessId (h ! r)) m)
      (sessId (h[r := (h ! r)\<lparr>closed := True\<rparr>] ! k)) = Some k"
    using ne by simp
qed

lemma sint_le_uint: "sint w \<le> uint w" for w :: uint
proof -
  have "- (2 ^ 63) \<le> uint w" by (rule order_trans [OF _ uint_ge_0]) simp
  then show ?thesis by (simp add: sint_uint signed_take_bit_int_less_eq_self_iff)
qed

lemma createSession_fresh:
  assumes inv: "sm_inv s" and act: "activeSessions s = Some m" and cap: "\<not> atCapacity s"
  obtains i p' where "GetId (idPool s) = (i, None, p')"
    and "partitions (ids p') (insert i (keys m)) (all_ids (maxSessions s))" and "i \<notin> keys m"
proof -
  have p: "partitions (ids (idPool s)) (keys m) (all_ids (maxSessions s))" and ok: "gomap_ok m"
    using inv act by (auto simp: sm_inv_def)
  have "int (card (keys m)) < sint (maxSessions s)"
    using cap act ok by (simp add: atCapacity_def num_active_def length_gomap)
  also have "\<dots> \<le> uint (maxSessions s)" by (rule sint_le_uint)
  finally have "card (keys m) < card (all_ids (maxSessions s))"
    by (simp only: card_all_ids uint_nat of_nat_less_iff)
  then obtain i p' where g: "GetId (idPool s) = (i, None, p')"
    using pool.get_succeeds [OF p] by blast
  show ?thesis using that [OF g pool.get_keeps(1,2) [OF p g]] .
qed

lemma createSession_inv [inv_intros]:
  assumes inv: "sm_inv s" and cr: "createSession s conn = Ok (ref, t)"
  shows "sm_inv t"
proof -
  obtain m where act: "activeSessions s = Some m" and cap: "\<not> atCapacity s"
    using cr by (auto simp: createSession_def Let_def split: if_splits option.splits prod.splits)
  obtain i p' where g: "GetId (idPool s) = (i, None, p')"
    and p: "partitions (ids p') (insert i (keys m)) (all_ids (maxSessions s))" and new: "i \<notin> keys m"
    using createSession_fresh [OF inv act cap] .
  let ?x = "\<lparr>sessId = i, wsConn = conn, writeChan = [], opened = False, closed = False\<rparr>"
  have "active_ok (heap s @ [?x]) (AList.update i (length (heap s)) m)"
    using inv act new by (intro active_ok_add) (auto simp: sm_inv_def)
  then show ?thesis
    using cr g p act cap inv by (auto simp: createSession_def sm_inv_def Let_def)
qed

lemma close_session_inv [inv_intros]:
  assumes inv: "sm_inv s" and r: "r < length (heap s)" and op: "\<not> closed (heap s ! r)"
  shows "sm_inv (close_session s r)"
proof (cases "activeSessions s")
  case None
  then obtain m where ok: "active_ok (heap s) m" and sub: "keys m \<subseteq> all_ids (maxSessions s)"
    using inv by (auto simp: sm_inv_def)
  have "active_ok ((heap s)[r := (heap s ! r)\<lparr>closed := True\<rparr>]) (AList.delete (sessId (heap s ! r)) m)"
    by (rule active_ok_close [OF ok r op])
  moreover have "keys (AList.delete (sessId (heap s ! r)) m) \<subseteq> all_ids (maxSessions s)"
    using sub by auto
  ultimately have "\<exists>m. active_ok ((heap s)[r := (heap s ! r)\<lparr>closed := True\<rparr>]) m \<and>
      keys m \<subseteq> all_ids (maxSessions s)" by blast
  with None show ?thesis by (simp add: close_session_def removeSession_def sm_inv_def)
next
  case (Some m)
  have look: "map_of m (sessId (heap s ! r)) = Some r"
    using inv Some r op by (intro active_ok_open) (auto simp: sm_inv_def)
  moreover have "partitions (ids (ReleaseId (idPool s) (sessId (heap s ! r))))
      (keys m - {sessId (heap s ! r)}) (all_ids (maxSessions s))"
    using inv Some look by (intro pool.release_keeps) (auto simp: sm_inv_def in_keys_iff)
  ultimately show ?thesis
    using inv Some r op by (simp add: close_session_def removeSession_def sm_inv_def active_ok_close)
qed

lemma Close_inv [inv_intros]:
  assumes "sm_inv s" and "r < length (heap s)" and "Close s r = Some t"
  shows "sm_inv t"
proof (cases "closed (heap s ! r)")
  case False
  with assms have "sm_inv (close_session s r)" by (intro close_session_inv)
  with False assms(3) show ?thesis
    by (auto simp: Close_def notifyClosed_def intro: sm_inv_cong)
qed (use assms in \<open>simp add: Close_def\<close>)

lemma Open_inv [inv_intros]: "sm_inv s \<Longrightarrow> Open s r = Some t \<Longrightarrow> sm_inv t"
  by (fastforce simp: Open_def notifyOpened_def sm_inv_def intro: active_ok_touch split: option.splits)

lemma Write_inv [inv_intros]: "sm_inv s \<Longrightarrow> Write s r msg = Some (Ok t) \<Longrightarrow> sm_inv t"
  by (fastforce simp: Write_def Let_def sm_inv_def intro: active_ok_touch split: option.splits if_splits)

lemma Shutdown_inv [inv_intros]: "sm_inv s \<Longrightarrow> sm_inv (Shutdown s)"
  by (auto simp: Shutdown_def sm_inv_def partitions_def split: option.splits)

section \<open>Runs of the manager\<close>

text \<open>
  One rule per call another goroutine can make: the http handler creates and opens sessions, the
  pumps write and close, the server process shuts the manager down, observers register, deregister
  and receive.
\<close>

inductive ws_reach :: "uint \<Rightarrow> SessionManager \<Rightarrow> bool" where
  new: "NewSessionManager n = Some s \<Longrightarrow> ws_reach n s"
| create: "ws_reach n s \<Longrightarrow> createSession s conn = Ok (ref, t) \<Longrightarrow> ws_reach n t"
| start_pumps: "ws_reach n s \<Longrightarrow> ref < length (heap s) \<Longrightarrow> Open s ref = Some t \<Longrightarrow> ws_reach n t"
| writing: "ws_reach n s \<Longrightarrow> ref < length (heap s) \<Longrightarrow> Write s ref msg = Some (Ok t) \<Longrightarrow> ws_reach n t"
| closing: "ws_reach n s \<Longrightarrow> ref < length (heap s) \<Longrightarrow> Close s ref = Some t \<Longrightarrow> ws_reach n t"
| shutdown: "ws_reach n s \<Longrightarrow> ws_reach n (Shutdown s)"
| observe_open: "ws_reach n s \<Longrightarrow> ws_reach n (snd (SessionOpenEventChannel s))"
| observe_close: "ws_reach n s \<Longrightarrow> ws_reach n (snd (SessionCloseEventChannel s))"
| drop_open: "ws_reach n s \<Longrightarrow> ws_reach n (snd (RemoveSessionOpenEventChannel s c))"
| drop_close: "ws_reach n s \<Longrightarrow> ws_reach n (snd (RemoveSessionCloseEventChannel s c))"
| receive: "ws_reach n s \<Longrightarrow> ws_reach n (s\<lparr>chans := (chans s)[c := tl (chans s ! c)]\<rparr>)"

text \<open>No call changes the limit.\<close>

lemma maxSessions_createSession: "createSession s conn = Ok (r, t) \<Longrightarrow> maxSessions t = maxSessions s"
  by (auto simp: createSession_def Let_def split: if_splits option.splits prod.splits)

lemma maxSessions_Open: "Open s r = Some t \<Longrightarrow> maxSessions t = maxSessions s"
  by (auto simp: Open_def notifyOpened_def)

lemma maxSessions_Write: "Write s r msg = Some (Ok t) \<Longrightarrow> maxSessions t = maxSessions s"
  by (auto simp: Write_def Let_def split: if_splits)

lemma maxSessions_Close: "Close s r = Some t \<Longrightarrow> maxSessions t = maxSessions s"
  by (auto simp: Close_def notifyClosed_def close_session_def removeSession_def
      split: if_splits option.splits)

lemmas maxSessions_simps = maxSessions_createSession maxSessions_Open maxSessions_Write maxSessions_Close
lemmas call_invs = createSession_inv Open_inv Write_inv Close_inv Shutdown_inv

text \<open>The observer calls touch the channels only.\<close>

lemma observer_calls_inv:
  assumes "sm_inv s"
  shows "sm_inv (snd (SessionOpenEventChannel s))" "sm_inv (snd (SessionCloseEventChannel s))"
    "sm_inv (snd (RemoveSessionOpenEventChannel s c))" "sm_inv (snd (RemoveSessionCloseEventChannel s c))"
    "sm_inv (s\<lparr>chans := cs\<rparr>)"
  by (rule sm_inv_cong [OF assms];
      simp add: SessionOpenEventChannel_def SessionCloseEventChannel_def Let_def
        RemoveSessionOpenEventChannel_def RemoveSessionCloseEventChannel_def split: prod.split)+

lemma observer_calls_max [simp]:
  "maxSessions (snd (SessionOpenEventChannel s)) = maxSessions s"
  "maxSessions (snd (SessionCloseEventChannel s)) = maxSessions s"
  "maxSessions (snd (RemoveSessionOpenEventChannel s c)) = maxSessions s"
  "maxSessions (snd (RemoveSessionCloseEventChannel s c)) = maxSessions s"
  by (simp_all add: SessionOpenEventChannel_def SessionCloseEventChannel_def Let_def
      RemoveSessionOpenEventChannel_def RemoveSessionCloseEventChannel_def split: prod.split)

lemma ws_reach_inv: "ws_reach n s \<Longrightarrow> sm_inv s \<and> maxSessions s = n"
proof (induction rule: ws_reach.induct)
  case (new n s)
  then show ?case using sm_inv_new by (auto simp: NewSessionManager_def)
next
  case (shutdown n s)
  then show ?case using Shutdown_inv by (simp add: Shutdown_def)
next
  case (create n s conn ref t)
  then show ?case using createSession_inv maxSessions_createSession by blast
next
  case (start_pumps n s ref t)
  then show ?case using Open_inv maxSessions_Open by blast
next
  case (writing n s ref msg t)
  then show ?case using Write_inv maxSessions_Write by blast
next
  case (closing n s ref t)
  then show ?case using Close_inv maxSessions_Close by blast
qed (simp_all add: observer_calls_inv)

definition open_refs :: "SessionManager \<Rightarrow> nat set" where
  "open_refs s = {r. r < length (heap s) \<and> \<not> closed (heap s ! r)}"

lemma sm_inv_witness:
  "sm_inv s \<Longrightarrow> \<exists>m. active_ok (heap s) m \<and> keys m \<subseteq> all_ids (maxSessions s)"
  by (auto simp: sm_inv_def partitions_def split: option.splits)

lemma open_refs_inj:
  assumes "sm_inv s"
  shows "inj_on (\<lambda>r. sessId (heap s ! r)) (open_refs s)"
    and "(\<lambda>r. sessId (heap s ! r)) ` open_refs s \<subseteq> all_ids (maxSessions s)"
proof -
  obtain m where ok: "active_ok (heap s) m" and sub: "keys m \<subseteq> all_ids (maxSessions s)"
    using sm_inv_witness [OF assms] by blast
  have look: "map_of m (sessId (heap s ! r)) = Some r" if "r \<in> open_refs s" for r
    using that active_ok_open [OF ok] by (simp add: open_refs_def)
  show "inj_on (\<lambda>r. sessId (heap s ! r)) (open_refs s)"
    by (rule inj_onI) (metis look option.inject)
  show "(\<lambda>r. sessId (heap s ! r)) ` open_refs s \<subseteq> all_ids (maxSessions s)"
    using look sub by (force simp: in_keys_iff)
qed

lemma finite_all_ids: "finite (all_ids n)"
  using set_ids_new [of n] by (metis List.finite_set)

lemma card_open_refs:
  assumes "sm_inv s"
  shows "card (open_refs s) \<le> unat (maxSessions s)"
  using card_inj_on_le [OF open_refs_inj [OF assms] finite_all_ids] by (simp add: card_all_ids)

section \<open>Properties\<close>

text \<open>
  At every reachable state of a manager that is not shut down, \<open>createSession\<close> succeeds exactly
  below the limit; the new session gets an id between 1 and the limit that no active session has
  (so the discarded error of \<open>GetId\<close> cannot occur), and at the limit it answers with the capacity
  error and nothing else.
\<close>

theorem createSession_total:
  assumes reach: "ws_reach n s" and act: "activeSessions s = Some m"
  shows "(int (length m) < sint n \<longrightarrow>
            (\<exists>i t. createSession s conn = Ok (length (heap s), t) \<and> i \<in> all_ids n \<and> i \<notin> keys m \<and>
                   activeSessions t = Some (AList.update i (length (heap s)) m) \<and>
                   sessId (heap t ! length (heap s)) = i)) \<and>
         (sint n \<le> int (length m) \<longrightarrow> createSession s conn = Err ''Already at capacity'')"
proof (intro conjI impI)
  have inv: "sm_inv s" and n: "maxSessions s = n" using ws_reach_inv [OF reach] by auto
  assume "int (length m) < sint n"
  then have cap: "\<not> atCapacity s" using act n by (simp add: atCapacity_def num_active_def)
  obtain i p' where g: "GetId (idPool s) = (i, None, p')" and new: "i \<notin> keys m"
    and p: "partitions (ids p') (insert i (keys m)) (all_ids (maxSessions s))"
    using createSession_fresh [OF inv act cap] .
  from p n have "i \<in> all_ids n" by (auto simp: partitions_def)
  with g new act cap show "\<exists>i t. createSession s conn = Ok (length (heap s), t) \<and> i \<in> all_ids n \<and>
      i \<notin> keys m \<and> activeSessions t = Some (AList.update i (length (heap s)) m) \<and>
      sessId (heap t ! length (heap s)) = i"
    by (simp add: createSession_def Let_def)
next
  assume "sint n \<le> int (length m)"
  then show "createSession s conn = Err ''Already at capacity''"
    using act ws_reach_inv [OF reach] by (simp add: createSession_def atCapacity_def num_active_def)
qed

lemma new_manager_2:
  "NewSessionManager 2 = Some \<lparr>maxSessions = 2, activeSessions = Some [], idPool = \<lparr>ids = [1, 2]\<rparr>,
     heap = [], chans = [], openEventChans = [], closeEventChans = []\<rparr>"
  by (simp add: NewSessionManager_def NewIdPool_result upt_rec)

lemma reach_manager_2: "ws_reach 2 (the (NewSessionManager 2))"
  by (rule ws_reach.new) (simp add: new_manager_2)

theorem createSession_total_witness:
  "\<exists>i t. createSession (the (NewSessionManager 2)) 7 = Ok (0, t) \<and> i \<in> all_ids 2 \<and>
     activeSessions t = Some (AList.update i 0 [])"
  using createSession_total [OF reach_manager_2, of "[]" 7] by (auto simp: new_manager_2)

text \<open>
  C21: in every reachable state no two sessions that are not closed share an id, and there are at
  most as many of them as the configured maximum.
\<close>

theorem open_sessions_unique_and_bounded:
  assumes "ws_reach n s"
  shows "inj_on (\<lambda>r. sessId (heap s ! r)) (open_refs s) \<and> card (open_refs s) \<le> unat n"
  using ws_reach_inv [OF assms] open_refs_inj [of s] card_open_refs [of s] by auto

theorem open_sessions_unique_and_bounded_witness:
  "\<exists>s. ws_reach 2 s \<and> open_refs s = {0} \<and> card (open_refs s) \<le> 2"
proof -
  define s where "s = snd (case createSession (the (NewSessionManager 2)) 7 of Ok x \<Rightarrow> x | _ \<Rightarrow> undefined)"
  have "createSession (the (NewSessionManager 2)) 7 = Ok (0, s)"
    by (simp add: s_def new_manager_2 createSession_def atCapacity_def num_active_def GetId_def)
  with reach_manager_2 have reach: "ws_reach 2 s" by (rule ws_reach.create)
  moreover have "open_refs s = {0}"
    by (auto simp: s_def new_manager_2 createSession_def atCapacity_def num_active_def GetId_def
        open_refs_def)
  ultimately show ?thesis
    using open_sessions_unique_and_bounded [OF reach] by auto
qed

text \<open>
  Closing an open session of a manager that is not shut down removes it from the active map,
  returns its id to the end of the pool and frees one place; closing it again changes nothing.
\<close>

theorem Close_releases_id:
  assumes reach: "ws_reach n s" and act: "activeSessions s = Some m" and r: "r < length (heap s)"
    and op: "\<not> closed (heap s ! r)" and cl: "Close s r = Some t"
  shows "ids (idPool t) = ids (idPool s) @ [sessId (heap s ! r)] \<and>
         activeSessions t = Some (AList.delete (sessId (heap s ! r)) m) \<and>
         num_active s = Suc (num_active t) \<and> Close t r = Some t"
proof -
  have inv: "sm_inv s" using ws_reach_inv [OF reach] by simp
  then have ok: "gomap_ok m" and aok: "active_ok (heap s) m" using act by (auto simp: sm_inv_def)
  have look: "map_of m (sessId (heap s ! r)) = Some r" by (rule active_ok_open [OF aok r op])
  have t: "ids (idPool t) = ids (idPool s) @ [sessId (heap s ! r)]"
    "activeSessions t = Some (AList.delete (sessId (heap s ! r)) m)" "closed (heap t ! r)"
    using cl op act look r
    by (auto simp: Close_def notifyClosed_def close_session_def removeSession_def ReleaseId_def)
  have "sessId (heap s ! r) \<in> keys m" using look by (auto simp: in_keys_iff)
  then have "card (keys m) = Suc (card (keys m - {sessId (heap s ! r)}))"
    by (rule card_Suc_Diff1 [OF finite_keys, symmetric])
  with t act ok have "num_active s = Suc (num_active t)"
    by (simp add: num_active_def length_gomap)
  with t show ?thesis by (simp add: Close_def)
qed

theorem Close_releases_id_witness:
  "\<exists>s t. ws_reach 2 s \<and> Close s 0 = Some t \<and> ids (idPool s) = [2] \<and> ids (idPool t) = [2, 1] \<and>
     num_active s = Suc (num_active t)"
proof -
  define s where "s = snd (case createSession (the (NewSessionManager 2)) 7 of Ok x \<Rightarrow> x | _ \<Rightarrow> undefined)"
  have "createSession (the (NewSessionManager 2)) 7 = Ok (0, s)"
    by (simp add: s_def new_manager_2 createSession_def atCapacity_def num_active_def GetId_def)
  with reach_manager_2 have reach: "ws_reach 2 s" by (rule ws_reach.create)
  have st: "activeSessions s = Some [(1, 0)]" "0 < length (heap s)" "\<not> closed (heap s ! 0)"
    "ids (idPool s) = [2]" "sessId (heap s ! 0) = 1" "closeEventChans s = []"
    by (simp_all add: s_def new_manager_2 createSession_def atCapacity_def num_active_def GetId_def)
  then obtain t where cl: "Close s 0 = Some t"
    by (simp add: Close_def notifyClosed_def close_session_def removeSession_def)
  from Close_releases_id [OF reach st(1,2,3) cl] reach cl st show ?thesis by auto
qed

text \<open>
  \<open>Shutdown\<close> sets the map of active sessions to nil, so the next connection that is upgraded
  makes \<open>createSession\<close> write to a nil map: it panics instead of returning an error.
\<close>

theorem createSession_after_Shutdown_panics:
  assumes "0 < sint (maxSessions s)"
  shows "createSession (Shutdown s) conn = Panic ''assignment to entry in nil map''"
  using assms by (simp add: createSession_def Shutdown_def atCapacity_def num_active_def split: prod.splits)

theorem createSession_after_Shutdown_panics_witness:
  "0 < sint (maxSessions (the (NewSessionManager 2))) \<and>
   createSession (Shutdown (the (NewSessionManager 2))) 7 = Panic ''assignment to entry in nil map''"
proof -
  have "0 < sint (maxSessions (the (NewSessionManager 2)))" by (simp add: new_manager_2)
  then show ?thesis using createSession_after_Shutdown_panics by blast
qed

lemma index_of_last: "c \<notin> set pre \<Longrightarrow> index_of (pre @ [c]) c = Some (length pre)"
  by (induction pre) auto

text \<open>
  Removing an observer channel reports success but never shortens the list of observers; in
  particular the channel registered last stays registered and goes on receiving notifications.
\<close>

theorem remove_last_observer_is_no_op:
  assumes "openEventChans s = pre @ [c]" and "c \<notin> set pre"
  shows "RemoveSessionOpenEventChannel s c = (True, s)"
  using assms index_of_last [of c pre]
  by (simp add: RemoveSessionOpenEventChannel_def remove_chan_def)

theorem remove_last_observer_is_no_op_witness:
  "let s = snd (SessionOpenEventChannel (the (NewSessionManager 2)))
   in openEventChans s = [] @ [0] \<and> RemoveSessionOpenEventChannel s 0 = (True, s)"
proof -
  define s where "s = snd (SessionOpenEventChannel (the (NewSessionManager 2)))"
  have "openEventChans s = [] @ [0]" by (simp add: s_def new_manager_2 SessionOpenEventChannel_def)
  then show ?thesis using remove_last_observer_is_no_op [of s "[]" 0] by (simp add: s_def [symmetric])
qed

end
