(* ===== verification/Session_Pump.thy ===== *)
theory Session_Pump
  imports Session_Manager
begin

text \<open>
  The two goroutines of an open websocket session (\<open>readPump\<close> and \<open>writePump\<close> of
  \<open>src/server/websocket.go\<close>) and the calls of \<open>Write\<close> made by the service, as a machine whose
  events are the points where the goroutines meet the socket or a channel. \<open>writeCloseChan\<close> is
  unbuffered, so the reader's send is a rendezvous with the writer's \<open>select\<close>.
\<close>

section \<open>The machine\<close>

datatype read_pc = Reading | Signalling | ReadDone
datatype write_pc = Selecting | Closing | WriteDone

record pump =
  rpc :: read_pc
  wpc :: write_pc
  queue :: "bytes list"
  connOpen :: bool
  isClosed :: bool
  requests :: "bytes list"
  accepted :: "bytes list"
  wire :: "bytes list"

text \<open>
  \<open>requests\<close>, \<open>accepted\<close> and \<open>wire\<close> record what was handed to \<open>service.Process\<close>, what \<open>Write\<close>
  took from the service, and what reached the socket.
\<close>

datatype pump_event =
    ReadText bytes
  | ReadOther
  | ReadError
  | CloseSignal
  | WriteSocket
  | WriteError
  | DeferredClose
  | ServiceWrite bytes

definition new_pump :: pump where
  "new_pump = \<lparr>rpc = Reading, wpc = Selecting, queue = [], connOpen = True, isClosed = False,
               requests = [], accepted = [], wire = []\<rparr>"

definition readPump_step :: "pump \<Rightarrow> pump_event \<Rightarrow> pump option" where
  "readPump_step s e =
     (if rpc s \<noteq> Reading then None
      else case e of
             ReadText msg \<Rightarrow> if connOpen s then Some (s\<lparr>requests := requests s @ [msg]\<rparr>) else None
           | ReadOther \<Rightarrow> if connOpen s then Some (s\<lparr>rpc := Signalling\<rparr>) else None
           | ReadError \<Rightarrow> Some (s\<lparr>rpc := Signalling\<rparr>)
           | _ \<Rightarrow> None)"

definition writePump_step :: "pump \<Rightarrow> pump_event \<Rightarrow> pump option" where
  "writePump_step s e =
     (case e of
        WriteSocket \<Rightarrow>
          (case queue s of
             m # q \<Rightarrow> if wpc s = Selecting \<and> connOpen s
                      then Some (s\<lparr>queue := q, wire := wire s @ [m]\<rparr>) else None
           | [] \<Rightarrow> None)
      | WriteError \<Rightarrow>
          (case queue s of
             m # q \<Rightarrow> if wpc s = Selecting then Some (s\<lparr>queue := q, wpc := Closing\<rparr>) else None
           | [] \<Rightarrow> None)
      | DeferredClose \<Rightarrow>
          if wpc s = Closing then Some (s\<lparr>wpc := WriteDone, isClosed := True, connOpen := False\<rparr>)
          else None
      | _ \<Rightarrow> None)"

text \<open>The rendezvous on \<open>writeCloseChan\<close>: the reader is sending and the writer selects.\<close>

definition close_signal :: "pump \<Rightarrow> pump option" where
  "close_signal s =
     (if rpc s = Signalling \<and> wpc s = Selecting then Some (s\<lparr>rpc := ReadDone, wpc := Closing\<rparr>)
      else None)"

text \<open>
  \<open>Write\<close> of the service: the test whether the session is closed and the send on the channel are one
  step. In the code a close may come between the two, and the message is then queued for a writer
  that has already ended; such a message never reaches the wire.
\<close>

definition service_write :: "pump \<Rightarrow> bytes \<Rightarrow> pump option" where
  "service_write s msg =
     (if isClosed s then Some s
      else if length (queue s) < maxMessageSize
      then Some (s\<lparr>queue := queue s @ [msg], accepted := accepted s @ [msg]\<rparr>)
      else None)"

definition pump_exec :: "pump \<Rightarrow> pump_event \<Rightarrow> pump option" where
  "pump_exec s e =
     (case e of
        CloseSignal \<Rightarrow> close_signal s
      | ServiceWrite msg \<Rightarrow> service_write s msg
      | ReadText msg \<Rightarrow> readPump_step s e
      | ReadOther \<Rightarrow> readPump_step s e
      | ReadError \<Rightarrow> readPump_step s e
      | _ \<Rightarrow> writePump_step s e)"

fun pump_run :: "pump \<Rightarrow> pump_event list \<Rightarrow> pump option" where
  "pump_run s [] = Some s"
| "pump_run s (e # es) = (case pump_exec s e of None \<Rightarrow> None | Some t \<Rightarrow> pump_run t es)"

lemmas pump_defs = pump_exec_def readPump_step_def writePump_step_def close_signal_def
  service_write_def

section \<open>Invariants of a run\<close>

text \<open>
  The messages on the wire and those still queued are what the service wrote, in order, with at
  most one message lost between them: the one whose socket write failed.
\<close>

definition pump_inv :: "pump \<Rightarrow> bool" where
  "pump_inv s \<longleftrightarrow>
     (isClosed s \<longleftrightarrow> wpc s = WriteDone) \<and>
     (connOpen s \<longleftrightarrow> wpc s \<noteq> WriteDone) \<and>
     (rpc s = ReadDone \<longrightarrow> wpc s \<noteq> Selecting) \<and>
     (\<exists>lost. accepted s = wire s @ lost @ queue s \<and> length lost \<le> 1 \<and>
             (wpc s = Selecting \<longrightarrow> lost = []))"

lemma pump_inv_new: "pump_inv new_pump"
  by (simp add: pump_inv_def new_pump_def)

lemma pump_inv_step:
  assumes "pump_inv s" and "pump_exec s e = Some t"
  shows "pump_inv t"
proof -
  from assms(1) obtain lost where inv: "isClosed s \<longleftrightarrow> wpc s = WriteDone"
    "connOpen s \<longleftrightarrow> wpc s \<noteq> WriteDone" "rpc s = ReadDone \<longrightarrow> wpc s \<noteq> Selecting"
    "accepted s = wire s @ lost @ queue s" "length lost \<le> 1" "wpc s = Selecting \<longrightarrow> lost = []"
    by (auto simp: pump_inv_def)
  show ?thesis
  proof (cases e)
    case WriteError
    with assms(2) obtain m q where q: "queue s = m # q" and w: "wpc s = Selecting"
      and t: "t = s\<lparr>queue := q, wpc := Closing\<rparr>"
      by (auto simp: pump_defs split: list.splits if_splits)
    with inv have "accepted t = wire t @ [m] @ queue t" by simp
    with t inv w show ?thesis unfolding pump_inv_def by (intro conjI exI [of _ "[m]"]) simp_all
  qed (use assms(2) inv in \<open>auto simp: pump_defs pump_inv_def split: list.splits if_splits\<close>)
qed

lemma pump_inv_run: "pump_inv s \<Longrightarrow> pump_run s es = Some t \<Longrightarrow> pump_inv t"
  by (induction es arbitrary: s) (auto split: option.splits intro: pump_inv_step)

lemma reader_stuck_step:
  "rpc s = Signalling \<Longrightarrow> wpc s = WriteDone \<Longrightarrow> pump_exec s e = Some t \<Longrightarrow>
   rpc t = Signalling \<and> wpc t = WriteDone"
  by (cases e) (auto simp: pump_defs split: list.splits if_splits)

lemma reader_stuck_run:
  "rpc s = Signalling \<Longrightarrow> wpc s = WriteDone \<Longrightarrow> pump_run s es = Some t \<Longrightarrow> rpc t = Signalling"
proof (induction es arbitrary: s)
  case (Cons e es)
  then obtain u where u: "pump_exec s e = Some u" "pump_run u es = Some t"
    by (auto split: option.splits)
  have "rpc u = Signalling" "wpc u = WriteDone"
    using reader_stuck_step [OF Cons.prems(1,2) u(1)] by auto
  then show ?case using u(2) by (rule Cons.IH)
qed simp

section \<open>Properties\<close>

text \<open>
  C22: in every run of a session's two pumps, whatever the interleaving, the messages that reached
  the socket are an initial part of the messages the service wrote: none is reordered, repeated or
  invented, and while the write pump still runs nothing accepted is lost (it is on the wire or in
  the channel).
\<close>

theorem pump_writes_in_order:
  assumes "pump_run new_pump es = Some s"
  shows "(\<exists>rest. accepted s = wire s @ rest) \<and>
         (wpc s = Selecting \<longrightarrow> accepted s = wire s @ queue s)"
  using pump_inv_run [OF pump_inv_new assms] by (auto simp: pump_inv_def)

theorem pump_writes_in_order_witness:
  "(\<exists>s. pump_run new_pump [ServiceWrite [1], ServiceWrite [2], WriteSocket] = Some s \<and>
        wire s = [[1]] \<and> queue s = [[2]] \<and> accepted s = wire s @ queue s)"
proof -
  define s where "s = the (pump_run new_pump [ServiceWrite [1], ServiceWrite [2], WriteSocket])"
  have run: "pump_run new_pump [ServiceWrite [1], ServiceWrite [2], WriteSocket] = Some s"
    by (simp add: s_def pump_defs new_pump_def maxMessageSize_def)
  then have "wpc s = Selecting" "wire s = [[1]]" "queue s = [[2]]"
    by (auto simp: pump_defs new_pump_def maxMessageSize_def)
  with pump_writes_in_order [OF run] run show ?thesis by auto
qed

text \<open>
  A session is closed exactly when its write pump has returned, and from then on \<open>Write\<close>
  changes nothing and the socket receives nothing more.
\<close>

theorem pump_closed_is_final:
  assumes "pump_run new_pump es = Some s" and "isClosed s" and "pump_run s fs = Some t"
  shows "isClosed t \<and> wire t = wire s \<and> accepted t = accepted s"
  using assms(3) assms(2) pump_inv_run [OF pump_inv_new assms(1)]
proof (induction fs arbitrary: s)
  case (Cons e fs)
  then obtain u where u: "pump_exec s e = Some u" "pump_run u fs = Some t"
    by (auto split: option.splits)
  have "pump_inv u" by (rule pump_inv_step [OF Cons.prems(3) u(1)])
  moreover have "isClosed u \<and> wire u = wire s \<and> accepted u = accepted s"
    using Cons.prems(2,3) u(1)
    by (cases e) (auto simp: pump_defs pump_inv_def split: list.splits if_splits)
  ultimately show ?case using Cons.IH [OF u(2)] by simp
qed simp

theorem pump_closed_is_final_witness:
  "\<exists>s t. pump_run new_pump [ReadError, CloseSignal, DeferredClose] = Some s \<and> isClosed s \<and>
     pump_run s [ServiceWrite [7]] = Some t \<and> isClosed t \<and> wire t = wire s \<and> accepted t = accepted s"
proof -
  define s where "s = the (pump_run new_pump [ReadError, CloseSignal, DeferredClose])"
  have run: "pump_run new_pump [ReadError, CloseSignal, DeferredClose] = Some s" and cl: "isClosed s"
    by (simp_all add: s_def pump_defs new_pump_def)
  have after: "pump_run s [ServiceWrite [7]] = Some s"
    using cl by (simp add: pump_defs)
  show ?thesis using run cl after pump_closed_is_final [OF run cl after] by blast
qed

text \<open>
  When a socket write fails, the write pump closes the session and returns; the read pump then
  fails its next read and blocks on \<open>writeCloseChan\<close>, which nobody receives from any more: from
  that reachable state on the read pump never returns, so its goroutine leaks.
\<close>

theorem read_pump_leaks_after_write_error:
  "\<exists>s. pump_run new_pump [ServiceWrite [1], WriteError, DeferredClose, ReadError] = Some s \<and>
       isClosed s \<and> rpc s = Signalling \<and>
       (\<forall>es. pred_option (\<lambda>t. rpc t \<noteq> ReadDone) (pump_run s es))"
proof -
  define s where "s = the (pump_run new_pump [ServiceWrite [1], WriteError, DeferredClose, ReadError])"
  have "pump_run new_pump [ServiceWrite [1], WriteError, DeferredClose, ReadError] = Some s"
    and "isClosed s" and st: "rpc s = Signalling" "wpc s = WriteDone"
    by (simp_all add: s_def pump_defs new_pump_def maxMessageSize_def)
  moreover have "pred_option (\<lambda>t. rpc t \<noteq> ReadDone) (pump_run s es)" for es
    using reader_stuck_run [OF st] by (cases "pump_run s es") auto
  ultimately show ?thesis by blast
qed

end
