(* ===== verification/Files.thy ===== *)
theory Files
  imports Go_Stdlib
begin

unbundle bit_operations_syntax

text \<open>
  Package \<open>files\<close> (\<open>src/files/files.go\<close>) over a disk: a partial map from path names to nodes, and an
  environment that says which system calls fail and how much of a write reaches the disk. A write
  error makes \<open>WriteFile\<close> call \<open>Error()\<close> on the nil error of the earlier \<open>os.Create\<close>, a panic.
\<close>

section \<open>The disk and the system calls\<close>

type_synonym FileMode = "32 word"

datatype node = RegularFile FileMode bytes | OtherFile

type_synonym disk = "string \<rightharpoonup> node"

record os_env =
  createErr :: "string \<Rightarrow> string option"
  writeResult :: "string \<Rightarrow> bytes \<Rightarrow> nat \<times> string option"
  statErr :: "string \<Rightarrow> string option"
  removeErr :: "string \<Rightarrow> string option"
  readErr :: "string \<Rightarrow> string option"

definition FILE_RW :: FileMode where "FILE_RW = 438"
definition FILE_W :: FileMode where "FILE_W = 146"
definition FILE_R :: FileMode where "FILE_R = 292"

text \<open>\<open>os.Stat\<close>: a node, \<open>not exist\<close>, or another error.\<close>

datatype stat_result = StatOk node | StatNotExist | StatErr string

definition Stat :: "os_env \<Rightarrow> disk \<Rightarrow> string \<Rightarrow> stat_result" where
  "Stat env d name =
     (case statErr env name of
        Some e \<Rightarrow> StatErr e
      | None \<Rightarrow> (case d name of None \<Rightarrow> StatNotExist | Some nd \<Rightarrow> StatOk nd))"

text \<open>\<open>os.Create\<close> truncates an existing regular file (keeping its mode) or makes one with mode 0666.\<close>

definition Create :: "os_env \<Rightarrow> disk \<Rightarrow> string \<Rightarrow> disk outcome" where
  "Create env d name =
     (case createErr env name of
        Some e \<Rightarrow> Err e
      | None \<Rightarrow>
          (case d name of
             None \<Rightarrow> Ok (d(name \<mapsto> RegularFile FILE_RW []))
           | Some (RegularFile m bs) \<Rightarrow> Ok (d(name \<mapsto> RegularFile m []))
           | Some OtherFile \<Rightarrow> Err ''is a directory''))"

definition put_data :: "disk \<Rightarrow> string \<Rightarrow> bytes \<Rightarrow> disk" where
  "put_data d name bs =
     (case d name of Some (RegularFile m old) \<Rightarrow> d(name \<mapsto> RegularFile m bs) | _ \<Rightarrow> d)"

section \<open>The package\<close>

definition IsWritable :: "FileMode \<Rightarrow> bool" where
  "IsWritable fm \<longleftrightarrow> fm AND 2 = 2"

text \<open>The parameter \<open>perm\<close> of the source is never used.\<close>

definition WriteFile :: "os_env \<Rightarrow> disk \<Rightarrow> string \<Rightarrow> bytes \<Rightarrow> FileMode \<Rightarrow> disk \<times> unit outcome" where
  "WriteFile env d fileName data perm =
     (case Create env d fileName of
        Err e \<Rightarrow> (d, Err e)
      | Panic e \<Rightarrow> (d, Panic e)
      | Ok d1 \<Rightarrow>
          (let (n, err2) = writeResult env fileName data;
               d2 = put_data d1 fileName (take n data)
           in if err2 \<noteq> None then (d2, Panic ''nil pointer dereference'')
              else if n < length data then (d2, Ok ())
              else (d2, Ok ())))"

definition WriteFileRW :: "os_env \<Rightarrow> disk \<Rightarrow> string \<Rightarrow> bytes \<Rightarrow> disk \<times> unit outcome" where
  "WriteFileRW env d fileName data = WriteFile env d fileName data FILE_RW"

definition WriteFileReadOnly :: "os_env \<Rightarrow> disk \<Rightarrow> string \<Rightarrow> bytes \<Rightarrow> disk \<times> unit outcome" where
  "WriteFileReadOnly env d fileName data = WriteFile env d fileName data FILE_R"

definition WriteFileWriteOnly :: "os_env \<Rightarrow> disk \<Rightarrow> string \<Rightarrow> bytes \<Rightarrow> disk \<times> unit outcome" where
  "WriteFileWriteOnly env d fileName data = WriteFile env d fileName data FILE_W"

definition FileExists :: "os_env \<Rightarrow> disk \<Rightarrow> string \<Rightarrow> bool" where
  "FileExists env d fileName \<longleftrightarrow> Stat env d fileName \<noteq> StatNotExist"

fun node_regular :: "node \<Rightarrow> bool" where
  "node_regular (RegularFile m bs) = True"
| "node_regular OtherFile = False"

definition IsRegular :: "os_env \<Rightarrow> disk \<Rightarrow> string \<Rightarrow> bool" where
  "IsRegular env d fileName =
     (case Stat env d fileName of StatOk nd \<Rightarrow> node_regular nd | _ \<Rightarrow> False)"

definition ReadFile :: "os_env \<Rightarrow> disk \<Rightarrow> string \<Rightarrow> bytes outcome" where
  "ReadFile env d fileName =
     (case readErr env fileName of
        Some e \<Rightarrow> Err e
      | None \<Rightarrow> (case d fileName of Some (RegularFile m bs) \<Rightarrow> Ok bs | _ \<Rightarrow> Err ''cannot read''))"

definition Remove :: "os_env \<Rightarrow> disk \<Rightarrow> string \<Rightarrow> disk outcome" where
  "Remove env d fileName =
     (case removeErr env fileName of Some e \<Rightarrow> Err e | None \<Rightarrow> Ok (d(fileName := None)))"

text \<open>The part of \<open>WriteAndBackup\<close> after the old backup is gone.\<close>

definition backup_and_write :: "os_env \<Rightarrow> disk \<Rightarrow> string \<Rightarrow> string \<Rightarrow> bytes \<Rightarrow> disk \<times> unit outcome" where
  "backup_and_write env d fileName backupName data =
     (case ReadFile env d fileName of
        Err e \<Rightarrow> (d, Err e)
      | Panic e \<Rightarrow> (d, Panic e)
      | Ok bts \<Rightarrow>
          (case WriteFileRW env d backupName bts of
             (d1, Ok _) \<Rightarrow> WriteFileRW env d1 fileName data
           | (d1, r) \<Rightarrow> (d1, r)))"

definition WriteAndBackup :: "os_env \<Rightarrow> disk \<Rightarrow> string \<Rightarrow> bytes \<Rightarrow> disk \<times> unit outcome" where
  "WriteAndBackup env d fileName data =
     (case Stat env d fileName of
        StatNotExist \<Rightarrow>
          (case WriteFileRW env d fileName data of
             (d1, Panic e) \<Rightarrow> (d1, Panic e)
           | (d1, _) \<Rightarrow> (d1, Ok ()))
      | StatErr e \<Rightarrow> (d, Err e)
      | StatOk nd \<Rightarrow>
          if \<not> node_regular nd then (d, Err (''Not a regular file: '' @ fileName))
          else
            (let backupName = fileName @ ''.bak'' in
             case Stat env d backupName of
               StatErr e \<Rightarrow> (d, Err e)
             | StatNotExist \<Rightarrow> backup_and_write env d fileName backupName data
             | StatOk nb \<Rightarrow>
                 if \<not> node_regular nb then (d, Err (backupName @ '' is not a regular file.''))
                 else (case Remove env d backupName of
                         Err e \<Rightarrow> (d, Err e)
                       | Panic e \<Rightarrow> (d, Panic e)
                       | Ok d1 \<Rightarrow> backup_and_write env d1 fileName backupName data)))"

section \<open>Lemmas\<close>

text \<open>
  Go's contract for \<open>Write\<close>: it never reports more bytes than it was given, and a short write comes
  with an error.
\<close>

definition write_contract :: "os_env \<Rightarrow> bool" where
  "write_contract env \<longleftrightarrow>
     (\<forall>name data. fst (writeResult env name data) \<le> length data \<and>
        (fst (writeResult env name data) < length data \<longrightarrow> snd (writeResult env name data) \<noteq> None))"

lemma Create_other: "Create env d name = Ok d1 \<Longrightarrow> other \<noteq> name \<Longrightarrow> d1 other = d other"
  by (auto simp: Create_def split: option.splits node.splits)

lemma Create_regular: "Create env d name = Ok d1 \<Longrightarrow> \<exists>m. d1 name = Some (RegularFile m [])"
  by (auto simp: Create_def split: option.splits node.splits)

lemma put_data_other: "other \<noteq> name \<Longrightarrow> put_data d name bs other = d other"
  by (auto simp: put_data_def split: option.splits node.splits)

lemma WriteFile_other:
  "WriteFile env d name data perm = (d', r) \<Longrightarrow> other \<noteq> name \<Longrightarrow> d' other = d other"
  by (auto simp: WriteFile_def Let_def put_data_other dest: Create_other
      split: outcome.splits prod.splits if_splits)

lemma WriteFile_Ok_contents:
  assumes c: "write_contract env" and w: "WriteFile env d name data perm = (d', Ok ())"
  shows "\<exists>m. d' name = Some (RegularFile m data)"
proof -
  obtain d1 where cr: "Create env d name = Ok d1"
    using w by (auto simp: WriteFile_def split: outcome.splits)
  obtain n e where r: "writeResult env name data = (n, e)" by (cases "writeResult env name data")
  with w cr have none: "e = None" and d': "d' = put_data d1 name (take n data)"
    by (auto simp: WriteFile_def Let_def split: if_splits)
  have "\<not> n < length data"
    using c r none unfolding write_contract_def by (metis fst_conv snd_conv)
  then have "take n data = data" by simp
  with d' Create_regular [OF cr] show ?thesis by (auto simp: put_data_def)
qed

lemma WriteFile_Err_unchanged: "WriteFile env d name data perm = (d', Err e) \<Longrightarrow> d' = d"
  by (auto simp: WriteFile_def Let_def split: outcome.splits prod.splits if_splits)

lemmas WriteFile_RW_facts = WriteFile_other [where perm = FILE_RW, folded WriteFileRW_def]
  WriteFile_Ok_contents [where perm = FILE_RW, folded WriteFileRW_def]
  WriteFile_Err_unchanged [where perm = FILE_RW, folded WriteFileRW_def]

text \<open>The old content of a file, wherever a backup may have put it.\<close>

definition holds_content :: "disk \<Rightarrow> string \<Rightarrow> bytes \<Rightarrow> bool" where
  "holds_content d name bs \<longleftrightarrow> (\<exists>m. d name = Some (RegularFile m bs))"

lemma backup_and_write_keeps:
  assumes c: "write_contract env" and ne: "bak \<noteq> name" and old: "holds_content d name bs"
    and run: "backup_and_write env d name bak data = (d', r)"
  shows "holds_content d' name bs \<or> holds_content d' bak bs"
proof (cases "ReadFile env d name")
  case (Ok bts)
  with old have bts: "bts = bs"
    by (auto simp: ReadFile_def holds_content_def split: option.splits)
  obtain d1 r1 where w1: "WriteFileRW env d bak bts = (d1, r1)" by (cases "WriteFileRW env d bak bts")
  show ?thesis
  proof (cases r1)
    case (Ok u)
    have "holds_content d1 bak bs"
      using WriteFile_RW_facts(2) [OF c, of d bak bts d1] w1 Ok bts by (simp add: holds_content_def)
    moreover have "WriteFileRW env d1 name data = (d', r)"
      using run w1 Ok \<open>ReadFile env d name = outcome.Ok bts\<close> by (simp add: backup_and_write_def)
    ultimately have "holds_content d' bak bs"
      using WriteFile_RW_facts(1) [of env d1 name data d' r bak] ne by (simp add: holds_content_def)
    then show ?thesis ..
  next
    case (Err e)
    then have "d' = d1"
      using run w1 \<open>ReadFile env d name = outcome.Ok bts\<close> by (simp add: backup_and_write_def)
    then show ?thesis
      using WriteFile_RW_facts(1) [OF w1, of name] ne old by (simp add: holds_content_def)
  next
    case (Panic e)
    then have "d' = d1"
      using run w1 \<open>ReadFile env d name = outcome.Ok bts\<close> by (simp add: backup_and_write_def)
    then show ?thesis
      using WriteFile_RW_facts(1) [OF w1, of name] ne old by (simp add: holds_content_def)
  qed
qed (use run old in \<open>auto simp: backup_and_write_def\<close>)

lemma backup_and_write_Ok:
  assumes c: "write_contract env" and ne: "bak \<noteq> name" and old: "holds_content d name bs"
    and run: "backup_and_write env d name bak data = (d', Ok ())"
  shows "holds_content d' name data \<and> holds_content d' bak bs"
proof -
  obtain bts where rd: "ReadFile env d name = Ok bts"
    using run by (auto simp: backup_and_write_def split: outcome.splits)
  with old have bts: "bts = bs" by (auto simp: ReadFile_def holds_content_def split: option.splits)
  obtain d1 where w1: "WriteFileRW env d bak bts = (d1, Ok ())" and w2: "WriteFileRW env d1 name data = (d', Ok ())"
    using run rd by (auto simp: backup_and_write_def split: prod.splits outcome.splits)
  have "holds_content d1 bak bs" using WriteFile_RW_facts(2) [OF c w1] bts by (simp add: holds_content_def)
  then have "holds_content d' bak bs"
    using WriteFile_RW_facts(1) [OF w2, of bak] ne by (simp add: holds_content_def)
  moreover have "holds_content d' name data"
    using WriteFile_RW_facts(2) [OF c w2] by (simp add: holds_content_def)
  ultimately show ?thesis by simp
qed

lemma WriteAndBackup_keeps:
  assumes c: "write_contract env" and old: "d fileName = Some (RegularFile m bs)"
    and run: "WriteAndBackup env d fileName data = (d', r)"
  shows "(holds_content d' fileName bs \<or> holds_content d' (fileName @ ''.bak'') bs) \<and>
         (r = Ok () \<longrightarrow> holds_content d' fileName data \<and> holds_content d' (fileName @ ''.bak'') bs)"
proof -
  let ?bak = "fileName @ ''.bak''"
  have ne: "?bak \<noteq> fileName" by simp
  have hold: "holds_content d fileName bs" using old by (simp add: holds_content_def)
  have hold': "holds_content (d(?bak := None)) fileName bs" using old by (simp add: holds_content_def)
  consider "d' = d" "r \<noteq> Ok ()"
    | d1 where "backup_and_write env d1 fileName ?bak data = (d', r)" "holds_content d1 fileName bs"
    using run old hold hold'
    by (auto simp: WriteAndBackup_def Stat_def Remove_def Let_def
        split: option.splits stat_result.splits if_splits outcome.splits)
  then show ?thesis
  proof cases
    case 1
    with hold show ?thesis by simp
  next
    case 2
    with backup_and_write_keeps [OF c ne 2(2,1)] backup_and_write_Ok [OF c ne 2(2)]
    show ?thesis by auto
  qed
qed

section \<open>Properties\<close>

text \<open>An environment in which every call succeeds.\<close>

definition good_env :: os_env where
  "good_env = \<lparr>createErr = (\<lambda>_. None), writeResult = (\<lambda>_ data. (length data, None)),
               statErr = (\<lambda>_. None), removeErr = (\<lambda>_. None), readErr = (\<lambda>_. None)\<rparr>"

lemma good_env_contract: "write_contract good_env"
  by (simp add: write_contract_def good_env_def)

text \<open>
  \<open>WriteAndBackup\<close> never loses the old content of a regular file: whichever system call fails,
  whether it returns an error, panics or succeeds, afterwards the old bytes are in the file or in
  its \<open>.bak\<close>; and when it returns no error the file holds the new bytes and the backup the old.
\<close>

theorem WriteAndBackup_keeps_old_content:
  assumes c: "write_contract env" and old: "d fileName = Some (RegularFile m bs)"
    and run: "WriteAndBackup env d fileName data = (d', r)"
  shows "(holds_content d' fileName bs \<or> holds_content d' (fileName @ ''.bak'') bs) \<and>
         (r = Ok () \<longrightarrow> holds_content d' fileName data \<and> holds_content d' (fileName @ ''.bak'') bs)"
  by (rule WriteAndBackup_keeps [OF c old run])

theorem WriteAndBackup_keeps_old_content_witness:
  "\<exists>d'. WriteAndBackup good_env [''a'' \<mapsto> RegularFile FILE_RW [1, 2]] ''a'' [9] = (d', Ok ()) \<and>
        holds_content d' ''a'' [9] \<and> holds_content d' ''a.bak'' [1, 2]"
proof -
  let ?d = "[''a'' \<mapsto> RegularFile FILE_RW [1, 2]]"
  define d' where "d' = fst (WriteAndBackup good_env ?d ''a'' [9])"
  have run: "WriteAndBackup good_env ?d ''a'' [9] = (d', Ok ())"
    by (simp add: d'_def WriteAndBackup_def Stat_def good_env_def backup_and_write_def ReadFile_def
        WriteFileRW_def WriteFile_def Create_def put_data_def)
  from WriteAndBackup_keeps_old_content [OF good_env_contract _ run, of FILE_RW "[1, 2]"] run
  show ?thesis by simp
qed

text \<open>
  The permission argument has no effect: a file written with the read-only (or write-only)
  variant is created with the same mode as one written read-write, and stays writable.
\<close>

theorem WriteFileReadOnly_same_as_RW:
  "WriteFileReadOnly env d fileName data = WriteFileRW env d fileName data \<and>
   WriteFileWriteOnly env d fileName data = WriteFileRW env d fileName data \<and>
   IsWritable FILE_RW"
  by (simp add: WriteFileReadOnly_def WriteFileRW_def WriteFileWriteOnly_def WriteFile_def
      IsWritable_def FILE_RW_def)

text \<open>
  When the file can be created but the write fails, \<open>WriteFile\<close> does not return the write error:
  it dereferences the nil error of the successful create and panics.
\<close>

theorem WriteFile_write_error_panics:
  assumes "Create env d fileName = Ok d1" and "writeResult env fileName data = (n, Some e)"
  shows "snd (WriteFile env d fileName data perm) = Panic ''nil pointer dereference''"
  using assms by (simp add: WriteFile_def Let_def)

theorem WriteFile_write_error_panics_witness:
  "snd (WriteFile (good_env\<lparr>writeResult := (\<lambda>_ _. (0, Some ''no space left on device''))\<rparr>)
          Map.empty ''f'' [1] FILE_RW) = Panic ''nil pointer dereference''"
  by (rule WriteFile_write_error_panics
      [where ?d1.0 = "[''f'' \<mapsto> RegularFile FILE_RW []]" and n = 0 and e = "''no space left on device''"])
    (simp_all add: Create_def good_env_def)

end
