(* ===== verification/Server_Config.thy ===== *)
theory Server_Config
  imports Files
begin

text \<open>
  The server configuration of \<open>src/server/config.go\<close>: its sections as records, the defaults, and
  reading and writing the file. The TOML encoder and decoder are third-party code and parameters
  of the two file operations.
\<close>

record Bind =
  bindAddress :: string
  bindPort :: uint16

record TLS =
  tlsOn :: bool
  CertPath :: string
  KeyPath :: string

record CORS =
  corsEnable :: bool
  AllowOrigins :: "string list"
  AllowCredentials :: bool
  AllowMethods :: "string list"
  AllowHeaders :: "string list"
  ExposeHeaders :: "string list"
  MaxAge :: "64 word"

record HTTP =
  JsonRpcEndpoint :: string

record WebSocket =
  WebSocketEndpoint :: string
  MaxWebSocketSessions :: uint
  ReadBufferSize :: uint
  WriteBufferSize :: uint

record Logging =
  ConsoleLogLevel :: string
  FileLogLevel :: string
  LogFile :: string

record ServerConfig =
  cfgBind :: Bind
  cfgTLS :: TLS
  cfgCORS :: CORS
  cfgHTTP :: HTTP
  cfgWebSocket :: WebSocket
  cfgLogging :: Logging

definition DefaultServerConfig :: ServerConfig where
  "DefaultServerConfig =
     \<lparr>cfgBind = \<lparr>bindAddress = '''', bindPort = 1337\<rparr>,
      cfgTLS = \<lparr>tlsOn = False, CertPath = '''', KeyPath = ''''\<rparr>,
      cfgCORS = \<lparr>corsEnable = False, AllowOrigins = [], AllowCredentials = False,
                 AllowMethods = [], AllowHeaders = [], ExposeHeaders = [], MaxAge = 0\<rparr>,
      cfgHTTP = \<lparr>JsonRpcEndpoint = ''/rpc''\<rparr>,
      cfgWebSocket = \<lparr>WebSocketEndpoint = ''/socketrpc'', MaxWebSocketSessions = 50,
                      ReadBufferSize = 4096, WriteBufferSize = 4096\<rparr>,
      cfgLogging = \<lparr>ConsoleLogLevel = ''info'', FileLogLevel = ''warn'', LogFile = ''''\<rparr>\<rparr>"

definition ReadServerConfig ::
  "(bytes \<Rightarrow> ServerConfig outcome) \<Rightarrow> os_env \<Rightarrow> disk \<Rightarrow> string \<Rightarrow> ServerConfig outcome" where
  "ReadServerConfig unmarshal env d filePath = obind (ReadFile env d filePath) unmarshal"

definition WriteServerConfig ::
  "(ServerConfig \<Rightarrow> bytes outcome) \<Rightarrow> os_env \<Rightarrow> disk \<Rightarrow> string \<Rightarrow> ServerConfig \<Rightarrow> disk \<times> unit outcome"
where
  "WriteServerConfig marshal env d filePath cfg =
     (case marshal cfg of
        Ok bts \<Rightarrow> WriteAndBackup env d filePath bts
      | Err e \<Rightarrow> (d, Err e)
      | Panic e \<Rightarrow> (d, Panic e))"

section \<open>Properties\<close>

lemma WriteAndBackup_fresh_contents:
  assumes "write_contract env" and "Stat env d name = StatNotExist" and "createErr env name = None"
    and "WriteAndBackup env d name data = (d', Ok ())"
  shows "holds_content d' name data"
proof -
  have "d name = None" using assms(2) by (auto simp: Stat_def split: option.splits)
  then obtain d1 where cr: "Create env d name = Ok d1" using assms(3) by (simp add: Create_def)
  have "WriteFileRW env d name data = (d', Ok ())"
    using assms(2,4) cr
    by (auto simp: WriteAndBackup_def WriteFileRW_def WriteFile_def Let_def
        split: prod.splits outcome.splits if_splits)
  then show ?thesis
    using WriteFile_RW_facts(2) [OF assms(1)] by (simp add: holds_content_def)
qed

lemma WriteAndBackup_Ok_contents:
  assumes c: "write_contract env" and cr: "createErr env name = None"
    and run: "WriteAndBackup env d name data = (d', Ok ())"
  shows "holds_content d' name data"
proof (cases "Stat env d name")
  case (StatOk nd)
  then obtain m bs where "d name = Some (RegularFile m bs)"
    using run by (cases nd) (auto simp: WriteAndBackup_def Stat_def split: option.splits)
  from WriteAndBackup_keeps [OF c this run] show ?thesis by simp
next
  case StatNotExist
  then show ?thesis using WriteAndBackup_fresh_contents [OF c _ cr run] by simp
next
  case (StatErr e)
  then show ?thesis using run by (simp add: WriteAndBackup_def)
qed

text \<open>
  A configuration that was written without an error reads back as the same configuration, when
  the file could be created and read and the TOML codec decodes what it encoded.
\<close>

theorem config_round_trip:
  assumes c: "write_contract env" and "createErr env filePath = None" and "readErr env filePath = None"
    and codec: "\<And>bts. marshal cfg = Ok bts \<Longrightarrow> unmarshal bts = Ok cfg"
    and run: "WriteServerConfig marshal env d filePath cfg = (d', Ok ())"
  shows "ReadServerConfig unmarshal env d' filePath = Ok cfg"
proof -
  obtain bts where m: "marshal cfg = Ok bts" and w: "WriteAndBackup env d filePath bts = (d', Ok ())"
    using run by (auto simp: WriteServerConfig_def split: outcome.splits)
  have "holds_content d' filePath bts" by (rule WriteAndBackup_Ok_contents [OF c assms(2) w])
  with assms(3) codec [OF m] show ?thesis
    by (auto simp: ReadServerConfig_def ReadFile_def holds_content_def)
qed

theorem config_round_trip_witness:
  "let marshal = (\<lambda>c. Ok [ucast (bindPort (cfgBind c)), ucast (drop_bit 8 (bindPort (cfgBind c)))]);
       unmarshal = (\<lambda>bs. Ok (DefaultServerConfig\<lparr>cfgBind := \<lparr>bindAddress = '''',
                       bindPort = ucast (bs ! 0) + push_bit 8 (ucast (bs ! 1))\<rparr>\<rparr>));
       d' = fst (WriteServerConfig marshal good_env Map.empty ''c'' DefaultServerConfig)
   in ReadServerConfig unmarshal good_env d' ''c'' = Ok DefaultServerConfig"
  unfolding Let_def
  by (rule config_round_trip [where d = Map.empty
        and marshal = "\<lambda>c. Ok [ucast (bindPort (cfgBind c)), ucast (drop_bit 8 (bindPort (cfgBind c)))]"])
    (auto simp: write_contract_def good_env_def DefaultServerConfig_def WriteServerConfig_def
      WriteAndBackup_def Stat_def WriteFileRW_def WriteFile_def Create_def)

text \<open>
  When the file does not exist yet and cannot be created, \<open>WriteAndBackup\<close> (and with it
  \<open>WriteServerConfig\<close>) still reports success, and the disk is unchanged.
\<close>

theorem WriteAndBackup_hides_create_error:
  assumes "Stat env d fileName = StatNotExist" and "createErr env fileName = Some e"
  shows "WriteAndBackup env d fileName data = (d, Ok ())"
  using assms by (simp add: WriteAndBackup_def WriteFileRW_def WriteFile_def Create_def)

theorem WriteAndBackup_hides_create_error_witness:
  "WriteAndBackup (good_env\<lparr>createErr := (\<lambda>_. Some ''permission denied'')\<rparr>) Map.empty ''f'' [1]
     = (Map.empty, Ok ())"
  by (rule WriteAndBackup_hides_create_error) (simp_all add: Stat_def good_env_def)

end
