(* ===== verification/Server_Manager.thy ===== *)
theory Server_Manager
  imports Id_Pool Server_Config
begin

text \<open>
  The test-server manager of \<open>src/erisdb/erisdbss/server_manager.go\<close>: it starts \<open>erisdb\<close> processes on
  ports taken from an id pool and reaps them. Processes are numbered; the results of the system
  calls (creating the working directory, starting the process) and the clock are arguments.
\<close>

section \<open>State\<close>

record ServeTask =
  sp :: nat
  workDir :: string
  start :: int
  maxDuration :: int
  port :: uint16

record ServerManager =
  smIdPool :: IdPool
  maxProcs :: uint
  running :: "ServeTask list"
  reapOn :: bool
  baseDir :: string
  killed :: "nat list"

text \<open>\<open>killed\<close> records the processes \<open>Kill\<close> was called on.\<close>

definition second :: int where
  "second = 1000000000"

definition REAPER_THRESHOLD :: int where
  "REAPER_THRESHOLD = 10 * second"

definition PORT_BASE :: nat where
  "PORT_BASE = 29000"

definition NewServerManager :: "uint \<Rightarrow> string \<Rightarrow> ServerManager option" where
  "NewServerManager n dir = map_option (\<lambda>p.
     \<lparr>smIdPool = p, maxProcs = n, running = [], reapOn = True, baseDir = dir, killed = []\<rparr>) (NewIdPool n)"

text \<open>\<open>uint16(PORT_BASE + id)\<close> and \<open>uint(task.port - PORT_BASE)\<close>, with their wrap-around.\<close>

definition port_of :: "uint \<Rightarrow> uint16" where
  "port_of i = ucast (of_nat PORT_BASE + i)"

definition id_of :: "uint16 \<Rightarrow> uint" where
  "id_of p = ucast (p - of_nat PORT_BASE)"

section \<open>Starting a process\<close>

text \<open>
  \<open>CmdProcess.Start\<close>: the values it sends on \<open>doneChan\<close>, in order, given the result of
  \<open>StdoutPipe\<close>, of \<open>cmd.Start\<close>, the lines the process prints before its output ends, and the
  scanner's error. The scan stops at the first line that contains the token.
\<close>

definition contains :: "string \<Rightarrow> string \<Rightarrow> bool" where
  "contains text token \<longleftrightarrow> (\<exists>i \<in> set [0..<Suc (length text)]. HasPrefix (drop i text) token)"

record proc_env =
  pipeErr :: "string option"
  startErr :: "string option"
  outLines :: "string list"
  scanErr :: "string option"

fun scan_for :: "string \<Rightarrow> string list \<Rightarrow> bool" where
  "scan_for token [] = False"
| "scan_for token (text # rest) = (if contains text token then True else scan_for token rest)"

definition CmdProcess_Start :: "proc_env \<Rightarrow> string \<Rightarrow> string option list" where
  "CmdProcess_Start pe token =
     (case pipeErr pe of Some e \<Rightarrow> [Some e] | None \<Rightarrow> []) @
     (case startErr pe of
        Some e \<Rightarrow> [Some e]
      | None \<Rightarrow>
          (if scan_for token (outLines pe) then [None]
           else case scanErr pe of
                  Some e \<Rightarrow> [Some (''Error reading from process stdout:'' @ e)]
                | None \<Rightarrow> [None]))"

text \<open>
  \<open>waitForProcStarted\<close>: the first value on \<open>doneChan\<close>, or the timeout when that comes first; after
  a timeout the process is killed.
\<close>

definition waitForProcStarted :: "bool \<Rightarrow> proc_env \<Rightarrow> string \<Rightarrow> string option \<times> bool" where
  "waitForProcStarted timeoutFirst pe token =
     (if timeoutFirst then (Some ''Process start timed out'', True)
      else (hd (CmdProcess_Start pe token), False))"

section \<open>The working directory\<close>

datatype file_content =
    TendermintConfig
  | PrivValidatorJSON
  | GenesisJSON
  | ServerConfigTOML ServerConfig

datatype fs_op = RemoveAll string | EnsureDir string | WriteTo string file_content

text \<open>Running file operations in order until one fails: the operations done, and the error.\<close>

fun run_ops :: "(fs_op \<Rightarrow> string option) \<Rightarrow> fs_op list \<Rightarrow> fs_op list \<times> string option" where
  "run_ops os [] = ([], None)"
| "run_ops os (op # ops) =
     (case os op of
        Some e \<Rightarrow> ([op], Some e)
      | None \<Rightarrow> (let (done, e) = run_ops os ops in (op # done, e)))"

definition path_join :: "string \<Rightarrow> string \<Rightarrow> string" where
  "path_join dir name = dir @ ''/'' @ name"

definition createWorkDir ::
  "(fs_op \<Rightarrow> string option) \<Rightarrow> string \<Rightarrow> ServerConfig \<Rightarrow> string \<Rightarrow> fs_op list \<times> string outcome"
where
  "createWorkDir os base config folderName =
     (let wd = path_join base folderName;
          (done, e) = run_ops os
            [EnsureDir wd,
             WriteTo (path_join wd ''config.toml'') TendermintConfig,
             WriteTo (path_join wd ''priv_validator.json'') PrivValidatorJSON,
             WriteTo (path_join wd ''genesis.json'') GenesisJSON,
             WriteTo (path_join wd ''server_conf.toml'') (ServerConfigTOML config)]
      in (RemoveAll wd # done, case e of Some err \<Rightarrow> Err err | None \<Rightarrow> Ok wd))"

section \<open>Adding, reaping, killing\<close>

definition newServeTask :: "uint16 \<Rightarrow> string \<Rightarrow> int \<Rightarrow> nat \<Rightarrow> int \<Rightarrow> ServeTask" where
  "newServeTask prt wd maxDur process t =
     \<lparr>sp = process, workDir = wd, start = t, maxDuration = maxDur, port = prt\<rparr>"

text \<open>The requested seconds as a \<open>time.Duration\<close> (64-bit nanoseconds), 0 meaning the default.\<close>

definition request_duration :: "uint \<Rightarrow> int" where
  "request_duration d =
     (let maxDur = wrap64 (sint d * second) in if maxDur = 0 then REAPER_THRESHOLD else maxDur)"

record add_env =
  osCall :: "fs_op \<Rightarrow> string option"
  timeoutFirst :: bool
  procEnv :: proc_env
  procRef :: nat
  now :: int

text \<open>The configuration and the working directory of the server with id \<open>i\<close>.\<close>

definition add_workdir :: "add_env \<Rightarrow> ServerManager \<Rightarrow> uint \<Rightarrow> string outcome" where
  "add_workdir env sm i =
     (let prt = port_of i;
          config = DefaultServerConfig\<lparr>cfgBind := (cfgBind DefaultServerConfig)\<lparr>bindPort := prt\<rparr>\<rparr>;
          folderName = ''testnode'' @ show_nat (unat prt)
      in snd (createWorkDir (osCall env) (baseDir sm) config folderName))"

definition add :: "add_env \<Rightarrow> ServerManager \<Rightarrow> uint \<Rightarrow> ServerManager \<times> string outcome" where
  "add env sm reqMaxDuration =
     (let (i, errId, p') = GetId (smIdPool sm); sm1 = sm\<lparr>smIdPool := p'\<rparr> in
      case errId of
        Some e \<Rightarrow> (sm1, Err e)
      | None \<Rightarrow>
          (case add_workdir env sm i of
             Err e \<Rightarrow> (sm1, Err e)
           | Panic e \<Rightarrow> (sm1, Panic e)
           | Ok wd \<Rightarrow>
               (case waitForProcStarted (timeoutFirst env) (procEnv env) ''DONTMINDME55891'' of
                  (Some e, k) \<Rightarrow> (sm1\<lparr>killed := killed sm1 @ (if k then [procRef env] else [])\<rparr>, Err e)
                | (None, k) \<Rightarrow>
                    (let prt = port_of i;
                         st = newServeTask prt wd (request_duration reqMaxDuration) (procRef env) (now env)
                     in (sm1\<lparr>running := running sm1 @ [st]\<rparr>, Ok (show_nat (unat prt)))))))"

text \<open>
  The reaper's loop over the running tasks, oldest first, stopping at the first one that is not
  due; \<open>clock k\<close> is the \<open>k\<close>-th reading of the clock.
\<close>

fun reap_loop :: "(nat \<Rightarrow> int) \<Rightarrow> nat \<Rightarrow> ServeTask list \<Rightarrow> IdPool \<Rightarrow> nat list \<Rightarrow>
    ServeTask list \<times> IdPool \<times> nat list" where
  "reap_loop clock k [] p kl = ([], p, kl)"
| "reap_loop clock k (task # rest) p kl =
     (if maxDuration task \<noteq> 0 \<and> clock k - start task > maxDuration task
      then reap_loop clock (Suc k) rest (ReleaseId p (id_of (port task))) (kl @ [sp task])
      else (task # rest, p, kl))"

definition reap :: "(nat \<Rightarrow> int) \<Rightarrow> ServerManager \<Rightarrow> ServerManager" where
  "reap clock sm =
     (if \<not> reapOn sm then sm
      else let (r, p, kl) = reap_loop clock 0 (running sm) (smIdPool sm) (killed sm)
           in sm\<lparr>running := r, smIdPool := p, killed := kl\<rparr>)"

fun kill_loop :: "ServeTask list \<Rightarrow> IdPool \<Rightarrow> nat list \<Rightarrow> IdPool \<times> nat list" where
  "kill_loop [] p kl = (p, kl)"
| "kill_loop (task # rest) p kl = kill_loop rest (ReleaseId p (id_of (port task))) (kl @ [sp task])"

definition killAll :: "ServerManager \<Rightarrow> ServerManager" where
  "killAll sm =
     (let (p, kl) = kill_loop (running sm) (smIdPool sm) (killed sm)
      in sm\<lparr>running := [], smIdPool := p, killed := kl\<rparr>)"

section \<open>Ports and ids\<close>

lemma unat_port_of:
  assumes "unat i \<le> 36535"
  shows "unat (port_of i) = PORT_BASE + unat i"
proof -
  have "unat (29000 + i) = 29000 + unat i" using assms by (simp add: unat_plus_if')
  then show ?thesis using assms
    by (simp add: port_of_def PORT_BASE_def unsigned_ucast_eq take_bit_nat_eq_self)
qed

lemma id_of_port_of:
  assumes "unat i \<le> 36535"
  shows "id_of (port_of i) = i"
proof -
  have "unat (port_of i - 29000) = unat i"
    using unat_port_of [OF assms] by (simp add: unat_sub_if' PORT_BASE_def)
  then have "unat (id_of (port_of i)) = unat i"
    using assms by (simp add: id_of_def PORT_BASE_def unsigned_ucast_eq take_bit_nat_eq_self)
  then show ?thesis by (simp only: word_unat_eq_iff)
qed

section \<open>The reaper's loop\<close>

definition task_id :: "ServeTask \<Rightarrow> uint" where
  "task_id t = id_of (port t)"

definition due :: "int \<Rightarrow> ServeTask \<Rightarrow> bool" where
  "due t task \<longleftrightarrow> maxDuration task \<noteq> 0 \<and> t - start task > maxDuration task"

lemma reap_loop_splits:
  "\<exists>gone left. tasks = gone @ left \<and>
     reap_loop clock k tasks p kl = (left, p\<lparr>ids := ids p @ map task_id gone\<rparr>, kl @ map sp gone)"
proof (induction tasks arbitrary: k p kl)
  case Nil
  then show ?case by simp
next
  case (Cons task rest)
  show ?case
  proof (cases "maxDuration task \<noteq> 0 \<and> clock k - start task > maxDuration task")
    case True
    obtain gone left where "rest = gone @ left" and
      "reap_loop clock (Suc k) rest (ReleaseId p (task_id task)) (kl @ [sp task]) =
        (left, (ReleaseId p (task_id task))\<lparr>ids := ids (ReleaseId p (task_id task)) @ map task_id gone\<rparr>,
         (kl @ [sp task]) @ map sp gone)"
      using Cons.IH by blast
    with True show ?thesis
      by (intro exI [of _ "task # gone"] exI [of _ left]) (simp add: task_id_def ReleaseId_def)
  next
    case False
    then show ?thesis by (intro exI [of _ "[]"] exI [of _ "task # rest"]) auto
  qed
qed

lemma reap_loop_at:
  "reap_loop (\<lambda>_. t) k tasks p kl =
     (dropWhile (due t) tasks, p\<lparr>ids := ids p @ map task_id (takeWhile (due t) tasks)\<rparr>,
      kl @ map sp (takeWhile (due t) tasks))"
  by (induction tasks arbitrary: k p kl) (simp_all add: due_def task_id_def ReleaseId_def)

lemma kill_loop_all:
  "kill_loop tasks p kl = (p\<lparr>ids := ids p @ map task_id tasks\<rparr>, kl @ map sp tasks)"
  by (induction tasks arbitrary: p kl) (simp_all add: task_id_def ReleaseId_def)

section \<open>Invariant\<close>

text \<open>
  The running tasks have distinct ids; these, the free ids and the ids lost by failed starts
  (\<open>leaked\<close>) partition the ids of the pool. The limit on \<open>maxProcs\<close> keeps every port in 16 bits.
\<close>

definition srv_inv :: "uint set \<Rightarrow> ServerManager \<Rightarrow> bool" where
  "srv_inv leaked sm \<longleftrightarrow>
     unat (maxProcs sm) \<le> 36535 \<and> distinct (map task_id (running sm)) \<and>
     leaked \<inter> set (map task_id (running sm)) = {} \<and>
     partitions (ids (smIdPool sm)) (set (map task_id (running sm)) \<union> leaked) (all_ids (maxProcs sm)) \<and>
     (\<forall>t \<in> set (running sm). port t = port_of (task_id t))"

lemma srv_inv_new:
  "NewServerManager n dir = Some sm \<Longrightarrow> unat n \<le> 36535 \<Longrightarrow> srv_inv {} sm"
  using NewIdPool_partitions [of n] by (auto simp: NewServerManager_def srv_inv_def)

lemma partitions_return_list:
  assumes "partitions free (set gone \<union> used) tot" and "distinct gone" and "set gone \<inter> used = {}"
  shows "partitions (free @ gone) used tot"
  using assms by (auto simp: partitions_def)

lemma srv_inv_drop:
  assumes inv: "srv_inv leaked sm" and split: "running sm = gone @ left"
  shows "srv_inv leaked (sm\<lparr>running := left, smIdPool := (smIdPool sm)\<lparr>ids := ids (smIdPool sm) @ map task_id gone\<rparr>,
                            killed := kl\<rparr>)"
proof -
  have "partitions (ids (smIdPool sm)) (set (map task_id gone) \<union> (set (map task_id left) \<union> leaked))
      (all_ids (maxProcs sm))"
    using inv split by (simp add: srv_inv_def Un_assoc)
  then have "partitions (ids (smIdPool sm) @ map task_id gone) (set (map task_id left) \<union> leaked)
      (all_ids (maxProcs sm))"
    by (rule partitions_return_list) (use inv split in \<open>auto simp: srv_inv_def\<close>)
  then show ?thesis using inv split by (auto simp: srv_inv_def)
qed

lemma srv_inv_reap [inv_intros]: "srv_inv leaked sm \<Longrightarrow> srv_inv leaked (reap clock sm)"
  using reap_loop_splits [of "running sm" clock 0 "smIdPool sm" "killed sm"]
  by (auto simp: reap_def intro: srv_inv_drop)

lemma srv_inv_killAll [inv_intros]: "srv_inv leaked sm \<Longrightarrow> srv_inv leaked (killAll sm)"
  using srv_inv_drop [of leaked sm "running sm" "[]" "killed sm @ map sp (running sm)"]
  by (simp add: killAll_def kill_loop_all)

text \<open>What \<open>add\<close> does with the id it took: a new task carries it, or it is lost.\<close>

lemma add_cases:
  assumes "add env sm d = (sm', r)"
  obtains (no_id) "r = Err ''Out of IDs''" "sm' = sm" "ids (smIdPool sm) = []"
  | (lost) i rest kl where "ids (smIdPool sm) = i # rest" "\<not> is_ok r"
      "sm' = sm\<lparr>smIdPool := \<lparr>ids = rest\<rparr>, killed := kl\<rparr>"
  | (started) i rest t where "ids (smIdPool sm) = i # rest" "r = Ok (show_nat (unat (port_of i)))"
      "port t = port_of i" "maxDuration t \<noteq> 0" "sm' = sm\<lparr>smIdPool := \<lparr>ids = rest\<rparr>, running := running sm @ [t]\<rparr>"
proof (cases "ids (smIdPool sm)")
  case Nil
  have "smIdPool sm = \<lparr>ids = []\<rparr>" using Nil by (cases "smIdPool sm") simp
  with Nil assms no_id show ?thesis by (cases sm) (auto simp: add_def GetId_def)
next
  case (Cons i rest)
  have g: "GetId (smIdPool sm) = (i, None, \<lparr>ids = rest\<rparr>)"
    using Cons by (cases "smIdPool sm") (simp add: GetId_def)
  let ?wait = "waitForProcStarted (timeoutFirst env) (procEnv env) ''DONTMINDME55891''"
  let ?task = "\<lambda>wd. newServeTask (port_of i) wd (request_duration d) (procRef env) (now env)"
  consider (werr) e where "add_workdir env sm i = Err e" | (wpanic) e where "add_workdir env sm i = Panic e"
    | (serr) wd e k where "add_workdir env sm i = Ok wd" "?wait = (Some e, k)"
    | (ok) wd k where "add_workdir env sm i = Ok wd" "?wait = (None, k)"
    by (metis outcome.exhaust option.exhaust prod.exhaust)
  then show ?thesis
  proof cases
    case werr
    with assms have "r = Err e" "sm' = sm\<lparr>smIdPool := \<lparr>ids = rest\<rparr>\<rparr>" by (simp_all add: add_def g)
    then show ?thesis by (intro lost [OF Cons, of "killed sm"]) simp_all
  next
    case wpanic
    with assms have "r = Panic e" "sm' = sm\<lparr>smIdPool := \<lparr>ids = rest\<rparr>\<rparr>" by (simp_all add: add_def g)
    then show ?thesis by (intro lost [OF Cons, of "killed sm"]) simp_all
  next
    case (serr wd e k)
    with assms g show ?thesis
      by (intro lost [OF Cons, of "killed sm @ (if k then [procRef env] else [])"]) (auto simp: add_def)
  next
    case (ok wd k)
    have "request_duration d \<noteq> 0"
      by (simp add: request_duration_def Let_def REAPER_THRESHOLD_def second_def)
    with ok assms g show ?thesis
      by (intro started [OF Cons, of "?task wd"]) (auto simp: add_def newServeTask_def Let_def)
  qed
qed

lemma srv_inv_add [inv_intros]:
  assumes inv: "srv_inv leaked sm" and run: "add env sm d = (sm', r)"
  shows "\<exists>leaked'. leaked \<subseteq> leaked' \<and> srv_inv leaked' sm' \<and> (is_ok r \<longrightarrow> leaked' = leaked)"
  using run
proof (cases rule: add_cases)
  case no_id
  with inv show ?thesis by auto
next
  case (lost i rest kl)
  let ?used = "set (map task_id (running sm)) \<union> leaked"
  have p: "partitions (i # rest) ?used (all_ids (maxProcs sm))" using inv lost by (simp add: srv_inv_def)
  with partitions_take [OF this] have "partitions rest (insert i ?used) (all_ids (maxProcs sm))" "i \<notin> ?used"
    by auto
  then have "srv_inv (insert i leaked) sm'" using inv lost by (auto simp: srv_inv_def)
  with lost show ?thesis by auto
next
  case (started i rest t)
  let ?used = "set (map task_id (running sm)) \<union> leaked"
  have p: "partitions (i # rest) ?used (all_ids (maxProcs sm))" using inv started by (simp add: srv_inv_def)
  with partitions_take [OF this]
  have take: "partitions rest (insert i ?used) (all_ids (maxProcs sm))" "i \<notin> ?used" "i \<in> all_ids (maxProcs sm)"
    by auto
  then have "unat i \<le> 36535" using inv by (simp add: srv_inv_def all_ids_def word_le_nat_alt)
  then have t: "task_id t = i" using started(3) id_of_port_of by (simp add: task_id_def)
  have "srv_inv leaked sm'" using inv take started t by (auto simp: srv_inv_def)
  then show ?thesis by auto
qed

section \<open>Runs of the manager\<close>

inductive srv_reach :: "uint \<Rightarrow> ServerManager \<Rightarrow> bool" where
  new: "NewServerManager n dir = Some sm \<Longrightarrow> unat n \<le> 36535 \<Longrightarrow> srv_reach n sm"
| adding: "srv_reach n sm \<Longrightarrow> add env sm d = (sm', r) \<Longrightarrow> srv_reach n sm'"
| reaping: "srv_reach n sm \<Longrightarrow> srv_reach n (reap clock sm)"
| killing: "srv_reach n sm \<Longrightarrow> srv_reach n (killAll sm)"

lemma maxProcs_reap [simp]: "maxProcs (reap clock sm) = maxProcs sm"
  by (simp add: reap_def split: prod.split)

lemma maxProcs_killAll [simp]: "maxProcs (killAll sm) = maxProcs sm"
  by (simp add: killAll_def split: prod.split)

lemma maxProcs_add: "add env sm d = (sm', r) \<Longrightarrow> maxProcs sm' = maxProcs sm"
  by (erule add_cases) auto

lemma srv_reach_inv: "srv_reach n sm \<Longrightarrow> (\<exists>leaked. srv_inv leaked sm) \<and> maxProcs sm = n"
proof (induction rule: srv_reach.induct)
  case (new n dir sm)
  then have "srv_inv {} sm" using srv_inv_new by blast
  with new show ?case by (auto simp: NewServerManager_def)
next
  case (adding n sm env d sm' r)
  then show ?case using srv_inv_add maxProcs_add by metis
next
  case (reaping n sm clock)
  then show ?case using srv_inv_reap by auto
next
  case (killing n sm)
  then show ?case using srv_inv_killAll by auto
qed

section \<open>Properties\<close>

text \<open>
  In every reachable state of the manager the running servers listen on distinct ports, all of
  them between \<open>PORT_BASE + 1\<close> and \<open>PORT_BASE + maxProcs\<close>, and there are at most \<open>maxProcs\<close> of them.
\<close>

theorem running_ports_distinct:
  assumes "srv_reach n sm"
  shows "distinct (map port (running sm)) \<and> length (running sm) \<le> unat n \<and>
         (\<forall>t \<in> set (running sm). PORT_BASE + 1 \<le> unat (port t) \<and> unat (port t) \<le> PORT_BASE + unat n)"
proof -
  obtain leaked where inv: "srv_inv leaked sm" and n: "maxProcs sm = n"
    using srv_reach_inv [OF assms] by blast
  have d: "distinct (map task_id (running sm))" using inv by (simp add: srv_inv_def)
  have "distinct (map id_of (map port (running sm)))" using d by (simp add: task_id_def [abs_def] comp_def)
  then have "distinct (map port (running sm))" using distinct_map by blast
  moreover have sub: "set (map task_id (running sm)) \<subseteq> all_ids n"
    using inv n by (auto simp: srv_inv_def partitions_def)
  then have "card (set (map task_id (running sm))) \<le> card (all_ids n)"
    using inv n by (intro card_mono) (auto simp: srv_inv_def partitions_def)
  then have "length (running sm) \<le> unat n" using distinct_card [OF d] by (simp add: card_all_ids)
  moreover have "PORT_BASE + 1 \<le> unat (port t) \<and> unat (port t) \<le> PORT_BASE + unat n"
    if t: "t \<in> set (running sm)" for t
  proof -
    have "task_id t \<in> all_ids n" using sub t by auto
    then have i: "1 \<le> unat (task_id t)" "unat (task_id t) \<le> unat n"
      by (auto simp: all_ids_def word_le_nat_alt)
    then have "unat (task_id t) \<le> 36535" using inv n by (simp add: srv_inv_def)
    moreover have "port t = port_of (task_id t)" using inv t by (simp add: srv_inv_def)
    ultimately have "unat (port t) = PORT_BASE + unat (task_id t)" using unat_port_of by simp
    with i show ?thesis by simp
  qed
  ultimately show ?thesis by blast
qed

lemma new_server_manager_1:
  "NewServerManager 1 ''d'' = Some \<lparr>smIdPool = \<lparr>ids = [1]\<rparr>, maxProcs = 1, running = [],
     reapOn = True, baseDir = ''d'', killed = []\<rparr>"
proof -
  have "(1 :: uint) < - 1" by code_simp
  then show ?thesis by (simp add: NewServerManager_def NewIdPool_result upt_rec)
qed

text \<open>A request whose system calls all succeed, and the same with a failing directory creation.\<close>

definition ok_env :: add_env where
  "ok_env = \<lparr>osCall = (\<lambda>_. None), timeoutFirst = False,
             procEnv = \<lparr>pipeErr = None, startErr = None, outLines = [''DONTMINDME55891''], scanErr = None\<rparr>,
             procRef = 7, now = 0\<rparr>"

definition no_dir_env :: add_env where
  "no_dir_env = ok_env\<lparr>osCall := (\<lambda>_. Some ''mkdir failed'')\<rparr>"

lemma waitForProcStarted_ok: "waitForProcStarted False (procEnv ok_env) ''DONTMINDME55891'' = (None, False)"
  by (simp add: waitForProcStarted_def CmdProcess_Start_def ok_env_def contains_def HasPrefix_def)

lemma add_workdir_ok: "\<exists>wd. add_workdir ok_env sm i = Ok wd"
  by (simp add: add_workdir_def createWorkDir_def ok_env_def Let_def)

lemma add_workdir_fails: "add_workdir no_dir_env sm i = Err ''mkdir failed''"
  by (simp add: add_workdir_def createWorkDir_def no_dir_env_def Let_def)

theorem running_ports_distinct_witness:
  "\<exists>sm. srv_reach 1 sm \<and> map port (running sm) = [29001] \<and> distinct (map port (running sm))"
proof -
  let ?s0 = "the (NewServerManager 1 ''d'')"
  obtain wd where wd: "add_workdir ok_env ?s0 1 = Ok wd" using add_workdir_ok by blast
  obtain sm r where ad: "add ok_env ?s0 5 = (sm, r)" by (cases "add ok_env ?s0 5")
  have "srv_reach 1 ?s0" by (rule srv_reach.new [of _ "''d''"]) (simp_all add: new_server_manager_1)
  then have reach: "srv_reach 1 sm" using ad by (rule srv_reach.adding)
  have m: "map port (running sm) = [29001]"
    using ad wd waitForProcStarted_ok
    by (simp add: add_def new_server_manager_1 GetId_def Let_def newServeTask_def port_of_def PORT_BASE_def)
      (auto simp: ok_env_def Let_def port_of_def PORT_BASE_def newServeTask_def)
  from running_ports_distinct [OF reach] have d: "distinct (map port (running sm))" ..
  show ?thesis by (intro exI [of _ sm] conjI) (rule reach, rule m, rule d)
qed

text \<open>
  At one reading of the clock the reaper kills exactly the tasks at the front of the list that
  are past their duration, in order, releases their ids to the pool in the same order, and leaves
  the rest of the list untouched.
\<close>

theorem reap_kills_due_prefix:
  assumes "reapOn sm"
  shows "running (reap (\<lambda>_. t) sm) = dropWhile (due t) (running sm) \<and>
         killed (reap (\<lambda>_. t) sm) = killed sm @ map sp (takeWhile (due t) (running sm)) \<and>
         ids (smIdPool (reap (\<lambda>_. t) sm)) =
           ids (smIdPool sm) @ map task_id (takeWhile (due t) (running sm))"
  using assms by (simp add: reap_def reap_loop_at)

text \<open>Two running tasks: the first may run an hour, the second ten seconds.\<close>

definition two_tasks :: ServerManager where
  "two_tasks = \<lparr>smIdPool = \<lparr>ids = []\<rparr>, maxProcs = 2,
     running = [newServeTask 29001 ''a'' (3600 * second) 1 0, newServeTask 29002 ''b'' (10 * second) 2 0],
     reapOn = True, baseDir = ''d'', killed = []\<rparr>"

theorem reap_kills_due_prefix_witness:
  "reapOn two_tasks \<and> running (reap (\<lambda>_. 3601 * second) two_tasks) = [] \<and>
   killed (reap (\<lambda>_. 3601 * second) two_tasks) = [1, 2]"
proof -
  have on: "reapOn two_tasks" by (simp add: two_tasks_def)
  show ?thesis using reap_kills_due_prefix [OF on, of "3601 * second"] on
    by (simp add: two_tasks_def due_def newServeTask_def second_def)
qed

text \<open>
  The reaper stops at the first task that is not due, so a server past its own duration stays
  alive as long as an older server with a longer duration stands before it in the list.
\<close>

theorem reaper_misses_overdue_server:
  "\<exists>task \<in> set (running (reap (\<lambda>_. 60 * second) two_tasks)). due (60 * second) task"
  by (simp add: reap_def reap_loop_at two_tasks_def due_def newServeTask_def second_def)

text \<open>
  An id taken for a server whose working directory or process cannot be created is never
  returned: the pool is one id shorter although no server was added, and once every id is lost so,
  \<open>add\<close> answers \<open>Out of IDs\<close> with no server running.
\<close>

theorem failed_add_leaks_id:
  assumes "ids (smIdPool sm) = i # rest" and "add env sm d = (sm', r)" and "\<not> is_ok r"
  shows "ids (smIdPool sm') = rest \<and> running sm' = running sm"
  using assms(2) by (cases rule: add_cases) (use assms(1,3) in auto)

theorem failed_add_leaks_id_witness:
  "\<exists>sm. add no_dir_env (the (NewServerManager 1 ''d'')) 5 = (sm, Err ''mkdir failed'') \<and>
        ids (smIdPool sm) = [] \<and> running sm = [] \<and>
        add ok_env sm 5 = (sm, Err ''Out of IDs'')"
proof -
  let ?s0 = "the (NewServerManager 1 ''d'')"
  obtain sm where ad: "add no_dir_env ?s0 5 = (sm, Err ''mkdir failed'')"
    by (simp add: add_def new_server_manager_1 GetId_def add_workdir_fails)
  have p: "ids (smIdPool ?s0) = 1 # []" by (simp add: new_server_manager_1)
  have e: "ids (smIdPool sm) = []" "running sm = []"
    using failed_add_leaks_id [OF p ad] by (simp_all add: new_server_manager_1)
  then have "add ok_env sm 5 = (sm, Err ''Out of IDs'')" by (cases sm) (simp add: add_def GetId_def)
  with ad e show ?thesis by blast
qed

text \<open>
  A process whose output ends without the ready token (for instance because it exited at once)
  is reported as started.
\<close>

theorem start_without_token_is_ready:
  assumes "pipeErr pe = None" and "startErr pe = None" and "scanErr pe = None"
    and "\<not> scan_for token (outLines pe)"
  shows "waitForProcStarted False pe token = (None, False)"
  using assms by (simp add: waitForProcStarted_def CmdProcess_Start_def)

theorem start_without_token_is_ready_witness:
  "waitForProcStarted False \<lparr>pipeErr = None, startErr = None, outLines = [], scanErr = None\<rparr> ''T'' = (None, False)"
  by (rule start_without_token_is_ready) simp_all

end
