(* ===== verification/Filters.thy ===== *)
theory Filters
  imports Go_Stdlib
begin

text \<open>
  Query filters (\<open>erisdb/pipe/filters.go\<close>): a query is a list of \<open>FilterData\<close>; the
  \<open>FilterFactory\<close> of a component looks the field of each up in its pools, configures a filter
  with it and conjoins the results. A \<open>*FilterData\<close> is an \<open>option\<close>, since a JSON request may
  carry \<open>null\<close> for it. A configured filter is its \<open>Match\<close> method; a pool is the composition of
  its \<open>New\<close> function with \<open>Configure\<close> (nothing is ever put back into a pool, so \<open>Get\<close> always
  returns a fresh object, whose \<open>op\<close> is the empty string). The messages given to \<open>fmt.Errorf\<close>
  are modelled as they are, for text without the format character \<open>%\<close>.

  The locale \<open>configurable_filter\<close> is the contract of a \<open>ConfigurableFilter\<close>, the locale
  \<open>filter_family\<close> that of a component's factory; the components that own filters interpret them.
\<close>

section \<open>Filter data\<close>

record FilterData =
  Field :: string
  Op :: string
  Value :: string

type_synonym 'v match_fn = "'v \<Rightarrow> bool"
type_synonym 'v pool = "FilterData \<Rightarrow> 'v match_fn outcome"

section \<open>Composite filters\<close>

fun CompositeFilter_Match :: "'v match_fn list \<Rightarrow> 'v match_fn" where
  "CompositeFilter_Match [] v = True"
| "CompositeFilter_Match (f # fs) v = (if \<not> f v then False else CompositeFilter_Match fs v)"

definition MatchAllFilter_Match :: "'v match_fn" where
  "MatchAllFilter_Match v = True"

section \<open>The factory\<close>

record 'v FilterFactory =
  filterPools :: "(string, 'v pool) gomap"

definition NewFilterFactory :: "'v FilterFactory" where
  "NewFilterFactory = \<lparr> filterPools = [] \<rparr>"

definition RegisterFilterPool :: "string \<Rightarrow> 'v pool \<Rightarrow> 'v FilterFactory \<Rightarrow> 'v FilterFactory" where
  "RegisterFilterPool fieldName p ff =
     ff\<lparr> filterPools := AList.update (ToLower fieldName) p (filterPools ff) \<rparr>"

definition newSingleFilter :: "'v FilterFactory \<Rightarrow> FilterData option \<Rightarrow> 'v match_fn outcome" where
  "newSingleFilter ff fd =
     (case fd of
        None \<Rightarrow> Panic ''nil pointer dereference''
      | Some fd \<Rightarrow>
          (case map_of (filterPools ff) (ToLower (Field fd)) of
             None \<Rightarrow> Err (''Field is not supported: '' @ Field fd)
           | Some get \<Rightarrow> get fd))"

fun newFilters :: "'v FilterFactory \<Rightarrow> FilterData option list \<Rightarrow> 'v match_fn list outcome" where
  "newFilters ff [] = Ok []"
| "newFilters ff (fd # fds) =
     obind (newSingleFilter ff fd) (\<lambda>f. obind (newFilters ff fds) (\<lambda>fs. Ok (f # fs)))"

definition NewFilter :: "'v FilterFactory \<Rightarrow> FilterData option list \<Rightarrow> 'v match_fn outcome" where
  "NewFilter ff fdArr =
     (if length fdArr = 0 then Ok MatchAllFilter_Match
      else if length fdArr = 1 then newSingleFilter ff (fdArr ! 0)
      else obind (newFilters ff fdArr) (\<lambda>filters. Ok (CompositeFilter_Match filters)))"

section \<open>Value parsing and matching functions\<close>

definition ParseNumberValue :: "string \<Rightarrow> int outcome" where
  "ParseNumberValue value =
     (if value = ''min'' then Ok MinInt64
      else if value = ''max'' then Ok MaxInt64
      else case ParseInt value of
             None \<Rightarrow> Err ''Wrong value type.''
           | Some tv \<Rightarrow> Ok tv)"

definition GetRangeFilter :: "string \<Rightarrow> string \<Rightarrow> (int \<Rightarrow> int \<Rightarrow> bool) outcome" where
  "GetRangeFilter op fName =
     (if op = ''=='' then Ok (\<lambda>a b. a = b)
      else if op = ''!='' then Ok (\<lambda>a b. a \<noteq> b)
      else if op = ''<='' then Ok (\<lambda>a b. a \<le> b)
      else if op = ''>='' then Ok (\<lambda>a b. a \<ge> b)
      else if op = ''<'' then Ok (\<lambda>a b. a < b)
      else if op = ''>'' then Ok (\<lambda>a b. a > b)
      else Err (''Op: '' @ op @ '' is not supported for '' @ [CHR 0x27] @ fName @ [CHR 0x27] @
                '' filtering''))"

definition GetStringFilter :: "string \<Rightarrow> string \<Rightarrow> (string \<Rightarrow> string \<Rightarrow> bool) outcome" where
  "GetStringFilter op fName =
     (if op = ''=='' then Ok EqualFold
      else if op = ''!='' then Ok (\<lambda>s0 s1. \<not> EqualFold s0 s1)
      else Err (''Op: '' @ op @ '' is not supported for '' @ [CHR 0x27] @ fName @ [CHR 0x27] @
                '' filtering.''))"

text \<open>
  Every filter of the program is a struct of these three fields, and the bodies of their
  \<open>Configure\<close> methods are repetitions of three, as functions of the name of the field: equality
  on decoded bytes, equality on strings, and order on numbers. The first two print \<open>this.op\<close>,
  which is still empty, in the message for an unsupported operator.
\<close>

record 'a filter_obj =
  f_op :: string
  f_value :: 'a
  f_match :: "'a \<Rightarrow> 'a \<Rightarrow> bool"

definition eq_op :: "string \<Rightarrow> string \<Rightarrow> ('b \<Rightarrow> 'b \<Rightarrow> bool) outcome" where
  "eq_op op fName =
     (if op = ''=='' then Ok (\<lambda>a b. a = b)
      else if op = ''!='' then Ok (\<lambda>a b. a \<noteq> b)
      else Err (''Op:  is not supported for '' @ [CHR 0x27] @ fName @ [CHR 0x27] @ '' filtering''))"

definition configure_bytes :: "string \<Rightarrow> FilterData \<Rightarrow> bytes filter_obj outcome" where
  "configure_bytes fName fd =
     (case DecodeString (Value fd) of
        None \<Rightarrow> Err ''Wrong value type.''
      | Some val \<Rightarrow> obind (eq_op (Op fd) fName) (\<lambda>m.
          Ok \<lparr> f_op = Op fd, f_value = val, f_match = m \<rparr>))"

definition configure_string :: "string \<Rightarrow> FilterData \<Rightarrow> string filter_obj outcome" where
  "configure_string fName fd =
     obind (eq_op (Op fd) fName) (\<lambda>m. Ok \<lparr> f_op = Op fd, f_value = Value fd, f_match = m \<rparr>)"

definition configure_range :: "string \<Rightarrow> FilterData \<Rightarrow> int filter_obj outcome" where
  "configure_range fName fd =
     obind (ParseNumberValue (Value fd)) (\<lambda>val.
     obind (GetRangeFilter (Op fd) fName) (\<lambda>m.
     Ok \<lparr> f_op = Op fd, f_value = val, f_match = m \<rparr>))"

text \<open>\<open>Get\<close> followed by \<open>Configure\<close>; the result is used through its method \<open>Match\<close>.\<close>

definition filter_pool :: "(FilterData \<Rightarrow> 'f outcome) \<Rightarrow> ('f \<Rightarrow> 'v match_fn) \<Rightarrow> 'v pool" where
  "filter_pool Configure Match fd = obind (Configure fd) (\<lambda>f. Ok (Match f))"

section \<open>What a filter means\<close>

datatype cmp = CEq | CNe | CLe | CGe | CLt | CGt

definition cmp_of :: "string \<Rightarrow> cmp option" where
  "cmp_of op = map_of [(''=='', CEq), (''!='', CNe), (''<='', CLe), (''>='', CGe),
                       (''<'', CLt), (''>'', CGt)] op"

primrec cmp_sem :: "cmp \<Rightarrow> int \<Rightarrow> int \<Rightarrow> bool" where
  "cmp_sem CEq a b = (a = b)"
| "cmp_sem CNe a b = (a \<noteq> b)"
| "cmp_sem CLe a b = (a \<le> b)"
| "cmp_sem CGe a b = (a \<ge> b)"
| "cmp_sem CLt a b = (a < b)"
| "cmp_sem CGt a b = (a > b)"

definition eq_cmp :: "cmp option \<Rightarrow> bool" where
  "eq_cmp c \<longleftrightarrow> c = Some CEq \<or> c = Some CNe"

lemma GetRangeFilter_cases:
  "(case GetRangeFilter op fName of
      Ok f \<Rightarrow> (\<exists>c. cmp_of op = Some c \<and> f = cmp_sem c)
    | Err e \<Rightarrow> cmp_of op = None
    | Panic e \<Rightarrow> False)"
  by (simp add: GetRangeFilter_def cmp_of_def fun_eq_iff)

lemma GetRangeFilter_cmp:
  "GetRangeFilter op fName = Ok f \<longleftrightarrow> (\<exists>c. cmp_of op = Some c \<and> f = cmp_sem c)"
  using GetRangeFilter_cases [of op fName]
  by (cases "GetRangeFilter op fName") auto

lemma GetRangeFilter_no_panic: "GetRangeFilter op fName \<noteq> Panic e"
  by (simp add: GetRangeFilter_def)

lemma eq_op_cases:
  "(case eq_op op fName of
      Ok f \<Rightarrow> eq_cmp (cmp_of op) \<and> f = (\<lambda>a b. (cmp_of op = Some CEq) = (a = b))
    | Err e \<Rightarrow> \<not> eq_cmp (cmp_of op)
    | Panic e \<Rightarrow> False)"
  by (auto simp: eq_op_def eq_cmp_def cmp_of_def fun_eq_iff)

lemma ParseNumberValue_no_panic: "ParseNumberValue s \<noteq> Panic e"
  by (simp add: ParseNumberValue_def split: option.splits)

lemma ParseNumberValue_in_range: "ParseNumberValue s = Ok v \<Longrightarrow> in_int64 v"
  using ParseInt_in_range [of s]
  by (auto simp: ParseNumberValue_def int64_simps split: if_splits option.splits)

text \<open>The printed form of a 64-bit number parses back to it.\<close>

lemma wildcards_not_numbers: "ParseInt ''min'' = None" "ParseInt ''max'' = None"
  by (simp_all add: ParseInt_def parse_unsigned_def digit_val_def)

lemma ParseNumberValue_show_int: "in_int64 i \<Longrightarrow> ParseNumberValue (show_int i) = Ok i"
  using wildcards_not_numbers ParseInt_show_int [of i] by (auto simp: ParseNumberValue_def)

text \<open>
  The meaning of each kind of filter data on the value of its field, and which data is valid,
  stated without the filter objects.
\<close>

definition eq_sem :: "string \<Rightarrow> 'b \<Rightarrow> 'b \<Rightarrow> bool" where
  "eq_sem op b x \<longleftrightarrow> (if cmp_of op = Some CEq then x = b else x \<noteq> b)"

definition bytes_valid :: "FilterData \<Rightarrow> bool" where
  "bytes_valid fd \<longleftrightarrow> DecodeString (Value fd) \<noteq> None \<and> eq_cmp (cmp_of (Op fd))"

definition bytes_sem :: "FilterData \<Rightarrow> bytes \<Rightarrow> bool" where
  "bytes_sem fd x \<longleftrightarrow> eq_sem (Op fd) (the (DecodeString (Value fd))) x"

definition string_valid :: "FilterData \<Rightarrow> bool" where
  "string_valid fd \<longleftrightarrow> eq_cmp (cmp_of (Op fd))"

definition string_sem :: "FilterData \<Rightarrow> string \<Rightarrow> bool" where
  "string_sem fd x \<longleftrightarrow> eq_sem (Op fd) (Value fd) x"

definition number_of_value :: "string \<Rightarrow> int option" where
  "number_of_value s =
     (if s = ''min'' then Some MinInt64 else if s = ''max'' then Some MaxInt64 else ParseInt s)"

definition range_valid :: "FilterData \<Rightarrow> bool" where
  "range_valid fd \<longleftrightarrow> number_of_value (Value fd) \<noteq> None \<and> cmp_of (Op fd) \<noteq> None"

definition range_sem :: "FilterData \<Rightarrow> int \<Rightarrow> bool" where
  "range_sem fd x \<longleftrightarrow> cmp_sem (the (cmp_of (Op fd))) x (the (number_of_value (Value fd)))"

lemma configure_bytes_cases:
  "case configure_bytes fName fd of
     Ok f \<Rightarrow> bytes_valid fd \<and> (\<forall>x. f_match f x (f_value f) = bytes_sem fd x)
   | Err e \<Rightarrow> \<not> bytes_valid fd
   | Panic e \<Rightarrow> False"
  using eq_op_cases [where op = "Op fd" and fName = fName and 'a = bytes]
  by (cases "eq_op (Op fd) fName :: (bytes \<Rightarrow> bytes \<Rightarrow> bool) outcome")
    (auto simp: configure_bytes_def bytes_valid_def bytes_sem_def eq_sem_def split: option.splits)

lemma configure_string_cases:
  "case configure_string fName fd of
     Ok f \<Rightarrow> string_valid fd \<and> (\<forall>x. f_match f x (f_value f) = string_sem fd x)
   | Err e \<Rightarrow> \<not> string_valid fd
   | Panic e \<Rightarrow> False"
  using eq_op_cases [where op = "Op fd" and fName = fName and 'a = string]
  by (cases "eq_op (Op fd) fName :: (string \<Rightarrow> string \<Rightarrow> bool) outcome")
    (auto simp: configure_string_def string_valid_def string_sem_def eq_sem_def)

lemma ParseNumberValue_number:
  "ParseNumberValue s = (case number_of_value s of None \<Rightarrow> Err ''Wrong value type.'' | Some n \<Rightarrow> Ok n)"
  by (simp add: ParseNumberValue_def number_of_value_def)

lemma configure_range_cases:
  "case configure_range fName fd of
     Ok f \<Rightarrow> range_valid fd \<and> (\<forall>x. f_match f x (f_value f) = range_sem fd x)
   | Err e \<Rightarrow> \<not> range_valid fd
   | Panic e \<Rightarrow> False"
  using GetRangeFilter_cases [of "Op fd" fName]
  by (cases "GetRangeFilter (Op fd) fName")
    (auto simp: configure_range_def range_valid_def range_sem_def ParseNumberValue_number
      split: option.splits)

lemmas configure_cases = configure_bytes_cases configure_string_cases configure_range_cases

section \<open>The factory as a map from field names\<close>

lemma newSingleFilter_empty:
  "newSingleFilter NewFilterFactory (Some fd) = Err (''Field is not supported: '' @ Field fd)"
  by (simp add: newSingleFilter_def NewFilterFactory_def)

lemma newSingleFilter_Register:
  "newSingleFilter (RegisterFilterPool name p ff) (Some fd) =
     (if EqualFold (Field fd) name then p fd else newSingleFilter ff (Some fd))"
  by (simp add: newSingleFilter_def RegisterFilterPool_def EqualFold_def)

text \<open>Configuration data that names its field in another letter case selects the same pool.\<close>

lemma newSingleFilter_fold_case:
  assumes "EqualFold f g"
  shows "map_of (filterPools ff) (ToLower f) = map_of (filterPools ff) (ToLower g)"
  using assms by (simp add: EqualFold_def)

lemma CompositeFilter_Match_iff [simp]: "CompositeFilter_Match fs v \<longleftrightarrow> (\<forall>f\<in>set fs. f v)"
  by (induction fs) auto

section \<open>Contracts\<close>

text \<open>
  A \<open>ConfigurableFilter\<close> accepts exactly the \<open>valid\<close> data, and then matches the values that
  satisfy its meaning \<open>sem\<close>; on other data it returns an error.
\<close>

locale configurable_filter =
  fixes get :: "'v pool"
    and valid :: "FilterData \<Rightarrow> bool"
    and sem :: "FilterData \<Rightarrow> 'v \<Rightarrow> bool"
  assumes get_ok: "valid fd \<Longrightarrow> get fd = Ok (sem fd)"
    and get_err: "\<not> valid fd \<Longrightarrow> \<exists>e. get fd = Err e"
begin

lemma get_no_panic: "get fd \<noteq> Panic e"
  by (metis get_ok get_err outcome.distinct(3) outcome.distinct(5))

lemma get_Ok_iff: "get fd = Ok f \<longleftrightarrow> valid fd \<and> f = sem fd"
  by (metis get_ok get_err outcome.distinct(1) outcome.inject(1))

end

text \<open>
  A pool whose objects are configured by one of these bodies, and whose \<open>Match\<close> reads a field of
  the values it accepts and rejects every other value, keeps the contract.
\<close>

definition field_match :: "('v \<Rightarrow> 'a option) \<Rightarrow> ('a \<Rightarrow> bool) \<Rightarrow> 'v \<Rightarrow> bool" where
  "field_match get P v = (case get v of None \<Rightarrow> False | Some x \<Rightarrow> P x)"

lemma filter_pool_contract:
  assumes conf: "\<And>fd. case Configure fd of
              Ok f \<Rightarrow> valid fd \<and> (\<forall>x. f_match f x (f_value f) = sem fd x)
            | Err e \<Rightarrow> \<not> valid fd
            | Panic e \<Rightarrow> False"
    and match: "\<And>f v. Match f v = field_match get (\<lambda>x. f_match f x (f_value f)) v"
  shows "configurable_filter (filter_pool Configure Match) valid (\<lambda>fd. field_match get (sem fd))"
proof
  fix fd
  show "filter_pool Configure Match fd = Ok (field_match get (sem fd))" if "valid fd"
    using conf [of fd] that
    by (cases "Configure fd")
      (auto simp: filter_pool_def match field_match_def fun_eq_iff split: option.splits)
  show "\<exists>e. filter_pool Configure Match fd = Err e" if "\<not> valid fd"
    using conf [of fd] that by (cases "Configure fd") (auto simp: filter_pool_def)
qed

text \<open>A factory whose single filters keep such a contract conjoins them.\<close>

locale filter_family =
  fixes ff :: "'v FilterFactory"
    and valid :: "FilterData \<Rightarrow> bool"
    and sem :: "FilterData \<Rightarrow> 'v \<Rightarrow> bool"
  assumes single_ok: "valid fd \<Longrightarrow> newSingleFilter ff (Some fd) = Ok (sem fd)"
    and single_err: "\<not> valid fd \<Longrightarrow> \<exists>e. newSingleFilter ff (Some fd) = Err e"

sublocale filter_family \<subseteq> single: configurable_filter "\<lambda>fd. newSingleFilter ff (Some fd)" valid sem
  by unfold_locales (simp_all add: single_ok single_err)

context filter_family
begin

lemma newFilters_ok:
  "\<forall>fd\<in>set fds. valid fd \<Longrightarrow> newFilters ff (map Some fds) = Ok (map sem fds)"
  by (induction fds) (simp_all add: single_ok)

lemma newFilters_err:
  "\<exists>fd\<in>set fds. \<not> valid fd \<Longrightarrow> \<exists>e. newFilters ff (map Some fds) = Err e"
proof (induction fds)
  case (Cons fd fds)
  show ?case
  proof (cases "valid fd")
    case True
    with Cons show ?thesis by (auto simp: single_ok)
  next
    case False
    with single_err [OF this] show ?thesis by auto
  qed
qed simp

lemma NewFilter_ok:
  assumes "\<forall>fd\<in>set fds. valid fd"
  shows "\<exists>f. NewFilter ff (map Some fds) = Ok f \<and> (\<forall>v. f v \<longleftrightarrow> (\<forall>fd\<in>set fds. sem fd v))"
proof -
  consider "fds = []" | fd where "fds = [fd]" | fd1 fd2 fs where "fds = fd1 # fd2 # fs"
    by (metis neq_Nil_conv)
  then show ?thesis
    using newFilters_ok [OF assms] assms
    by cases (simp_all add: NewFilter_def MatchAllFilter_Match_def [abs_def] single_ok)
qed

lemma NewFilter_err:
  assumes "\<exists>fd\<in>set fds. \<not> valid fd"
  shows "\<exists>e. NewFilter ff (map Some fds) = Err e"
proof -
  consider fd where "fds = [fd]" | fd1 fd2 fs where "fds = fd1 # fd2 # fs"
    using assms by (metis neq_Nil_conv empty_iff list.set(1))
  then show ?thesis
    using newFilters_err [OF assms] assms single_err
    by cases (auto simp: NewFilter_def)
qed

lemma NewFilter_complete:
  "case NewFilter ff (map Some fds) of
     Ok f \<Rightarrow> (\<forall>fd\<in>set fds. valid fd) \<and> (\<forall>v. f v \<longleftrightarrow> (\<forall>fd\<in>set fds. sem fd v))
   | Err e \<Rightarrow> \<exists>fd\<in>set fds. \<not> valid fd
   | Panic e \<Rightarrow> False"
  using NewFilter_ok [of fds] NewFilter_err [of fds]
  by (cases "\<forall>fd\<in>set fds. valid fd") auto

lemma NewFilter_Ok_iff:
  "NewFilter ff (map Some fds) = Ok f \<longleftrightarrow>
     (\<forall>fd\<in>set fds. valid fd) \<and> f = (\<lambda>v. \<forall>fd\<in>set fds. sem fd v)"
  using NewFilter_complete [of fds]
  by (cases "NewFilter ff (map Some fds)") (auto simp: fun_eq_iff)

lemma NewFilter_no_panic: "NewFilter ff (map Some fds) \<noteq> Panic e"
  using NewFilter_complete [of fds] by (cases "NewFilter ff (map Some fds)") auto

text \<open>A longer query is stricter, and the order of its terms does not matter.\<close>

lemma filter_append:
  assumes "NewFilter ff (map Some (fds @ gds)) = Ok h"
  shows "\<exists>f g. NewFilter ff (map Some fds) = Ok f \<and> NewFilter ff (map Some gds) = Ok g \<and>
           (\<forall>v. h v \<longleftrightarrow> f v \<and> g v)"
  using assms by (auto simp: NewFilter_Ok_iff simp del: map_append)

lemma filter_order:
  assumes "set fds = set gds"
  shows "(NewFilter ff (map Some fds) = Ok f) = (NewFilter ff (map Some gds) = Ok f)"
  using assms by (simp add: NewFilter_Ok_iff)

end

text \<open>A query with a null element makes the server panic instead of returning an error.\<close>

lemma NewFilter_null: "NewFilter ff [None] = Panic ''nil pointer dereference''"
  by (simp add: NewFilter_def newSingleFilter_def)

end
