(* ===== verification/Query_Parser.thy ===== *)
theory Query_Parser
  imports Filters
begin

text \<open>
  The search query of the REST server (\<open>_parseSearchQuery\<close> and \<open>toFilterData\<close> of
  \<open>erisdb/restServer.go\<close>): a query is a list of terms \<open>field:statement\<close> separated by blanks; a
  statement is an operator with a value, a value, or a range \<open>a..b\<close>.
\<close>

definition mk_fd :: "string \<Rightarrow> string \<Rightarrow> string \<Rightarrow> FilterData" where
  "mk_fd field op value = \<lparr> Field = field, Op = op, Value = value \<rparr>"

definition toFilterData :: "string \<Rightarrow> string \<Rightarrow> (FilterData \<times> FilterData option) outcome" where
  "toFilterData field stmt =
     (if stmt = [] then Ok (mk_fd field ''=='' [], None)
      else if stmt ! 0 = CHR ''>'' \<or> stmt ! 0 = CHR ''<'' \<or> stmt ! 0 = CHR ''='' \<or>
              stmt ! 0 = CHR ''!'' then
        (if length stmt = 1 then Ok (mk_fd field (take 1 stmt) [], None)
         else if stmt ! 1 = CHR ''='' then Ok (mk_fd field (take 2 stmt) (drop 2 stmt), None)
         else Ok (mk_fd field (take 1 stmt) (drop 1 stmt), None))
      else
        (let rng = Split stmt ''..'' in
         if length rng = 1 then Ok (mk_fd field ''=='' stmt, None)
         else if length rng \<noteq> 2 \<or> rng ! 0 = [] \<or> rng ! 1 = []
         then Err (''Malformed query statement: '' @ stmt)
         else
           (let lo = (if rng ! 0 = ''*'' then ''min'' else rng ! 0);
                hi = (if rng ! 1 = ''*'' then ''max'' else rng ! 1)
            in Ok (mk_fd field ''>='' lo, Some (mk_fd field ''<='' hi)))))"

definition parse_term :: "string \<Rightarrow> FilterData list outcome" where
  "parse_term f =
     (let kv = Split f '':'' in
      if length kv \<noteq> 2 then Err (''Malformed query. Missing '' @ [CHR 0x27] @ '':'' @ [CHR 0x27] @
        '' separator: '' @ f)
      else if kv ! 0 = [] then Err (''Malformed query. Field name missing: '' @ f)
      else obind (toFilterData (kv ! 0) (kv ! 1)) (\<lambda>(fd, fd2).
        Ok (fd # (case fd2 of None \<Rightarrow> [] | Some fd2 \<Rightarrow> [fd2]))))"

fun parse_terms :: "string list \<Rightarrow> FilterData list \<Rightarrow> FilterData list outcome" where
  "parse_terms [] fdArr = Ok fdArr"
| "parse_terms (f # filters) fdArr =
     obind (parse_term f) (\<lambda>fds. parse_terms filters (fdArr @ fds))"

definition parseSearchQuery :: "string \<Rightarrow> FilterData list outcome" where
  "parseSearchQuery queryString =
     (if length queryString = 0 then Ok [] else parse_terms (Split queryString '' '') [])"

section \<open>Printing a query\<close>

text \<open>
  The printed form of a list of filters, which is what a client sends. The repository has no
  printer: \<open>print_query\<close> is the query language as the documentation of the server describes it.
\<close>

definition print_fd :: "FilterData \<Rightarrow> string" where
  "print_fd fd = Field fd @ '':'' @ Op fd @ Value fd"

definition print_query :: "FilterData list \<Rightarrow> string" where
  "print_query fds = Join (map print_fd fds) '' ''"

text \<open>
  What a query can express: a non-empty field without a colon or a blank, one of the operators that
  the parser knows, and a value without a colon or a blank that does not begin with an equals sign
  when the operator is one character long.
\<close>

definition printable :: "FilterData \<Rightarrow> bool" where
  "printable fd \<longleftrightarrow>
     Field fd \<noteq> [] \<and> CHR '':'' \<notin> set (Field fd) \<and> CHR '' '' \<notin> set (Field fd) \<and>
     Op fd \<in> set [''=='', ''!='', ''<='', ''>='', ''='', ''!'', ''<'', ''>''] \<and>
     CHR '':'' \<notin> set (Value fd) \<and> CHR '' '' \<notin> set (Value fd) \<and>
     (length (Op fd) = 1 \<longrightarrow> \<not> HasPrefix (Value fd) ''='')"

lemma parse_terms_map:
  "\<forall>x\<in>set xs. parse_term (f x) = Ok (g x) \<Longrightarrow>
   parse_terms (map f xs) acc = Ok (acc @ concat (map g xs))"
  by (induction xs arbitrary: acc) auto

lemma toFilterData_op:
  assumes "printable fd"
  shows "toFilterData (Field fd) (Op fd @ Value fd) = Ok (fd, None)"
proof -
  obtain field op val where fd: "fd = mk_fd field op val"
    by (cases fd) (simp add: mk_fd_def)
  have "op \<in> {''=='', ''!='', ''<='', ''>='', ''='', ''!'', ''<'', ''>''}"
    and "length op = 1 \<Longrightarrow> \<not> HasPrefix val ''=''"
    using assms by (auto simp: printable_def fd mk_fd_def)
  then have "toFilterData field (op @ val) = Ok (mk_fd field op val, None)"
    by (cases val) (auto simp: toFilterData_def HasPrefix_def)
  then show ?thesis
    by (simp add: fd mk_fd_def)
qed

lemma parse_term_print:
  assumes "printable fd"
  shows "parse_term (print_fd fd) = Ok [fd]"
proof -
  have "CHR '':'' \<notin> set (Op fd @ Value fd)" "CHR '':'' \<notin> set (Field fd)"
    using assms by (auto simp: printable_def)
  then have "Split (print_fd fd) '':'' = [Field fd, Op fd @ Value fd]"
    using Split_char_two [of "CHR '':''" "Field fd" "Op fd @ Value fd"] by (simp add: print_fd_def)
  then show ?thesis
    using toFilterData_op [OF assms] assms by (simp add: parse_term_def printable_def)
qed

lemma print_fd_no_blank: "printable fd \<Longrightarrow> CHR '' '' \<notin> set (print_fd fd)"
  by (auto simp: printable_def print_fd_def)

lemma parse_print:
  assumes "list_all printable fds"
  shows "parseSearchQuery (print_query fds) = Ok fds"
proof (cases "fds = []")
  case False
  have p: "\<forall>fd\<in>set fds. parse_term (print_fd fd) = Ok [fd]" "\<forall>fd\<in>set fds. printable fd"
    using assms parse_term_print by (auto simp: list_all_iff)
  have "Split (print_query fds) '' '' = map print_fd fds"
    unfolding print_query_def using False p(2) by (intro Split_Join) (auto simp: print_fd_no_blank)
  moreover have "print_query fds \<noteq> []"
    using False by (cases fds rule: remdups_adj.cases) (auto simp: print_query_def print_fd_def)
  ultimately show ?thesis
    using parse_terms_map [OF p(1), of "[]"] by (simp add: parseSearchQuery_def)
qed (simp add: parseSearchQuery_def print_query_def)

text \<open>
  Nothing else comes back: a blank makes more terms than there are filters, a colon makes a term
  malformed, and no statement is parsed to another operator than these.
\<close>

lemma length_split_at: "length (split_at [c] acc s) = Suc (count_list s c)"
  by (induction "[c]" acc s rule: split_at.induct) (auto simp: HasPrefix_def)

lemma length_Split: "length (Split s [c]) = Suc (count_list s c)"
  by (simp add: Split_def length_split_at)

lemma count_list_Join:
  "xs \<noteq> [] \<Longrightarrow> Suc (count_list (Join xs [c]) c) = length xs + sum_list (map (\<lambda>x. count_list x c) xs)"
proof (induction xs)
  case (Cons x xs)
  then show ?case by (cases xs) (simp_all add: count_list_append)
qed simp

lemma parse_term_Ok_ne: "parse_term f = Ok fds \<Longrightarrow> fds \<noteq> []"
  by (auto simp: parse_term_def obind_eq_Ok Let_def split: if_splits)

lemma parse_terms_Ok:
  "parse_terms fs acc = Ok r \<Longrightarrow>
   \<exists>parts. r = acc @ concat parts \<and> list_all2 (\<lambda>f part. parse_term f = Ok part) fs parts"
proof (induction fs arbitrary: acc)
  case (Cons f fs)
  then obtain fds where f: "parse_term f = Ok fds" and rest: "parse_terms fs (acc @ fds) = Ok r"
    by (auto simp: obind_eq_Ok)
  then obtain parts where "r = (acc @ fds) @ concat parts" "list_all2 (\<lambda>f part. parse_term f = Ok part) fs parts"
    using Cons.IH by blast
  with f show ?case by (intro exI [of _ "fds # parts"]) simp
qed simp

lemma length_concat_ne: "\<forall>p\<in>set ps. p \<noteq> [] \<Longrightarrow> length ps \<le> length (concat ps)"
proof (induction ps)
  case (Cons p ps)
  then show ?case by (cases p) auto
qed simp

lemma concat_singletons:
  assumes "\<forall>p\<in>set ps. p \<noteq> []" "length (concat ps) = length ps"
  shows "ps = map (\<lambda>x. [x]) (concat ps)"
  using assms
proof (induction ps)
  case (Cons p ps)
  obtain x xs where p: "p = x # xs" using Cons.prems(1) by (cases p) auto
  with Cons.prems have "length xs + length (concat ps) = length ps" by simp
  moreover have "length ps \<le> length (concat ps)" using Cons.prems(1) by (intro length_concat_ne) simp
  ultimately have "length xs = 0" "length (concat ps) = length ps" by linarith+
  with Cons p show ?case by simp
qed simp

lemma toFilterData_Some:
  assumes "toFilterData field stmt = Ok (fd, None)" "Field fd = field" "stmt = Op fd @ Value fd"
  shows "Op fd \<in> set [''=='', ''!='', ''<='', ''>='', ''='', ''!'', ''<'', ''>''] \<and>
         (length (Op fd) = 1 \<longrightarrow> \<not> HasPrefix (Value fd) ''='')"
proof (cases "stmt = [] \<or> stmt ! 0 \<notin> {CHR ''>'', CHR ''<'', CHR ''='', CHR ''!''}")
  case True
  then have "fd = mk_fd field ''=='' stmt"
    using assms(1) by (auto simp: toFilterData_def Let_def split: if_splits)
  then have "length (Op fd @ Value fd) = 2 + length stmt" by (simp add: mk_fd_def)
  then show ?thesis using arg_cong [OF assms(3), of length] by simp
next
  case False
  then obtain c cs where stmt: "stmt = c # cs" "c \<in> {CHR ''>'', CHR ''<'', CHR ''='', CHR ''!''}"
    by (cases stmt) auto
  then show ?thesis
    using assms(1) by (cases cs) (auto simp: toFilterData_def mk_fd_def HasPrefix_def split: if_splits)
qed

lemma parse_term_print_iff:
  assumes "CHR '' '' \<notin> set (print_fd fd)" "parse_term (print_fd fd) = Ok [fd]"
  shows "printable fd"
proof -
  have "length (Split (print_fd fd) '':'') = 2"
    using assms(2) by (auto simp: parse_term_def Let_def split: if_splits)
  then have colon: "CHR '':'' \<notin> set (Field fd)" "CHR '':'' \<notin> set (Op fd @ Value fd)"
    by (auto simp: length_Split print_fd_def count_list_append count_list_0_iff)
  then have "Split (print_fd fd) '':'' = [Field fd, Op fd @ Value fd]"
    using Split_char_two [of "CHR '':''" "Field fd" "Op fd @ Value fd"] by (simp add: print_fd_def)
  then have "Field fd \<noteq> []" "toFilterData (Field fd) (Op fd @ Value fd) = Ok (fd, None)"
    using assms(2) by (auto simp: parse_term_def obind_eq_Ok Let_def split: if_splits option.splits)
  then show ?thesis
    using toFilterData_Some [OF _ refl refl] colon assms(1) by (auto simp: printable_def print_fd_def)
qed

lemma parsed_back_printable:
  assumes "parseSearchQuery (print_query fds) = Ok fds"
  shows "list_all printable fds"
proof (cases "fds = []")
  case False
  let ?s = "print_query fds"
  have "?s \<noteq> []"
    using False by (cases fds rule: remdups_adj.cases) (auto simp: print_query_def print_fd_def)
  then obtain parts where parts: "fds = concat parts"
      "list_all2 (\<lambda>f part. parse_term f = Ok part) (Split ?s '' '') parts"
    using assms parse_terms_Ok [of "Split ?s '' ''" "[]"] by (auto simp: parseSearchQuery_def)
  have ne: "\<forall>p\<in>set parts. p \<noteq> []"
    using parts(2) parse_term_Ok_ne by (fastforce simp: list_all2_conv_all_nth in_set_conv_nth)
  have "length parts = length fds + sum_list (map (\<lambda>x. count_list x (CHR '' '')) (map print_fd fds))"
    using parts(2) False count_list_Join [of "map print_fd fds"]
    by (simp add: print_query_def length_Split list_all2_lengthD [symmetric])
  moreover have "length parts \<le> length fds"
    using length_concat_ne [OF ne] parts(1) by simp
  ultimately have blanks: "\<forall>fd\<in>set fds. CHR '' '' \<notin> set (print_fd fd)" and len: "length parts = length fds"
    by (auto simp: count_list_0_iff)
  have "Split ?s '' '' = map print_fd fds"
    unfolding print_query_def using False blanks by (intro Split_Join) auto
  moreover have "parts = map (\<lambda>x. [x]) fds"
    using concat_singletons [OF ne] parts(1) len by simp
  ultimately have "\<forall>fd\<in>set fds. parse_term (print_fd fd) = Ok [fd]"
    using parts(2) by (simp add: list_all2_map1 list_all2_map2 list_all2_same)
  with blanks show ?thesis
    by (simp add: list_all_iff parse_term_print_iff)
qed simp

text \<open>
  C31: The server parses the printed form of a list of filters back to that list, with field, operator
  and value unchanged and in order, exactly when every filter of the list is \<open>printable\<close>: its field
  is not empty, neither field nor value holds a colon or a blank, its operator is one the parser
  knows, and a value behind a one-character operator does not begin with an equals sign. The
  printer is part of this specification; the repository has only the parser.
\<close>

theorem parse_print_query: "parseSearchQuery (print_query fds) = Ok fds \<longleftrightarrow> list_all printable fds"
  using parse_print parsed_back_printable by blast

theorem parse_print_query_witness:
  "parseSearchQuery ''balance:>=100 code:!=00ff'' =
     Ok [mk_fd ''balance'' ''>='' ''100'', mk_fd ''code'' ''!='' ''00ff'']"
  using parse_print_query [of "[mk_fd ''balance'' ''>='' ''100'', mk_fd ''code'' ''!='' ''00ff'']"]
  by (simp add: printable_def mk_fd_def print_query_def print_fd_def)

section \<open>Ranges\<close>

definition bound_value :: "string \<Rightarrow> string \<Rightarrow> string" where
  "bound_value wildcard s = (if s = ''*'' then wildcard else s)"

definition range_end :: "string \<Rightarrow> bool" where
  "range_end s \<longleftrightarrow> s \<noteq> [] \<and> CHR ''.'' \<notin> set s \<and> CHR '':'' \<notin> set s \<and> CHR '' '' \<notin> set s"

definition starts_with_op :: "string \<Rightarrow> bool" where
  "starts_with_op s \<longleftrightarrow> s \<noteq> [] \<and> s ! 0 \<in> {CHR ''>'', CHR ''<'', CHR ''='', CHR ''!''}"

text \<open>
  A range \<open>field:lo..hi\<close> is the conjunction of \<open>field >= lo\<close> and \<open>field <= hi\<close>, where a star
  stands for the smallest or the largest number.
\<close>

theorem parse_range:
  assumes "field \<noteq> []" "CHR '':'' \<notin> set field" "CHR '' '' \<notin> set field"
    and "range_end lo" "range_end hi" "\<not> starts_with_op lo"
  shows "parseSearchQuery (field @ '':'' @ lo @ ''..'' @ hi) =
         Ok [mk_fd field ''>='' (bound_value ''min'' lo), mk_fd field ''<='' (bound_value ''max'' hi)]"
proof -
  define stmt where "stmt = lo @ ''..'' @ hi"
  have lo: "lo \<noteq> []" "hi \<noteq> []" "CHR ''.'' \<notin> set lo" "CHR ''.'' \<notin> set hi"
    and no: "CHR '':'' \<notin> set stmt" "CHR '' '' \<notin> set stmt"
    using assms by (auto simp: range_end_def stmt_def)
  have "Split stmt ''..'' = [lo, hi]"
    unfolding stmt_def using lo by (intro Split_dd_range)
  moreover have "stmt ! 0 = lo ! 0" "stmt \<noteq> []"
    using lo by (simp_all add: stmt_def nth_append)
  ultimately have "toFilterData field stmt =
      Ok (mk_fd field ''>='' (bound_value ''min'' lo), Some (mk_fd field ''<='' (bound_value ''max'' hi)))"
    using lo assms(6) by (simp add: toFilterData_def starts_with_op_def bound_value_def Let_def)
  moreover have "Split (field @ '':'' @ stmt) '':'' = [field, stmt]"
    using Split_char_two [OF assms(2) no(1)] by simp
  moreover have "Split (field @ '':'' @ stmt) '' '' = [field @ '':'' @ stmt]"
    using assms(3) no(2) by (intro Split_char_notin) simp
  ultimately show ?thesis
    using assms(1) by (simp add: parseSearchQuery_def parse_term_def stmt_def)
qed

theorem parse_range_witness:
  "parseSearchQuery ''balance:*..500'' =
     Ok [mk_fd ''balance'' ''>='' ''min'', mk_fd ''balance'' ''<='' ''500'']"
  using parse_range [of "''balance''" "''*''" "''500''"]
  by (simp add: range_end_def starts_with_op_def bound_value_def)

text \<open>
  Every parsed filter has a non-empty field name without a colon, so the factory is asked for a
  proper field.
\<close>

lemma toFilterData_field:
  "toFilterData field stmt = Ok (fd, fd2) \<Longrightarrow>
     Field fd = field \<and> (\<forall>g. fd2 = Some g \<longrightarrow> Field g = field)"
  by (auto simp: toFilterData_def mk_fd_def Let_def split: if_splits)

end
