(* ===== verification/Tendermint_Types.thy ===== *)
theory Tendermint_Types
  imports Go_Stdlib
begin

text \<open>
  The data of the Tendermint node that eris-db serves (the vendored packages \<open>account\<close>,
  \<open>types\<close> and \<open>common\<close>): accounts, transactions and the bytes they are signed over,
  name registry entries, blocks and events.

  A byte slice is a list (Go's \<open>nil\<close> slice and the empty slice are both \<open>[]\<close>); a pointer that may
  be \<open>nil\<close>, and the interfaces \<open>PubKey\<close>, \<open>PrivKey\<close> and \<open>Signature\<close> whose only implementation is
  Ed25519, are \<open>option\<close>s. The codecs and hash functions that the signed bytes go through are the
  parameters collected in the record \<open>wire_env\<close>.
\<close>

section \<open>Accounts\<close>

record BasePermissions =
  Perms :: "64 word"
  SetBit :: "64 word"

record AccountPermissions =
  Base :: BasePermissions
  Roles :: "string list"

record Account =
  acc_Address :: bytes
  acc_PubKey :: "bytes option"
  acc_Sequence :: int
  acc_Balance :: int
  acc_Code :: bytes
  acc_StorageRoot :: bytes
  acc_Permissions :: AccountPermissions

record PrivAccount =
  pa_Address :: bytes
  pa_PubKey :: "bytes option"
  pa_PrivKey :: "bytes option"

definition LeftPadWord256 :: "bytes \<Rightarrow> bytes outcome" where
  "LeftPadWord256 bz =
     (if length bz > 32 then Panic ''slice bounds out of range''
      else Ok (replicate (32 - length bz) 0 @ bz))"

section \<open>Transactions\<close>

record TxInput =
  in_Address :: bytes
  in_Amount :: int
  in_Sequence :: int
  in_Signature :: "bytes option"
  in_PubKey :: "bytes option"

record TxOutput =
  out_Address :: bytes
  out_Amount :: int

record SendTx =
  send_Inputs :: "TxInput option list"
  send_Outputs :: "TxOutput option list"

record CallTx =
  call_Input :: "TxInput option"
  call_Address :: bytes
  call_GasLimit :: int
  call_Fee :: int
  call_Data :: bytes

record NameTx =
  name_Input :: "TxInput option"
  name_Name :: string
  name_Data :: string
  name_Fee :: int

record BondTx =
  bond_PubKey :: bytes
  bond_Signature :: bytes
  bond_Inputs :: "TxInput option list"
  bond_UnbondTo :: "TxOutput option list"

record UnbondTx =
  unbond_Address :: bytes
  unbond_Height :: int
  unbond_Signature :: bytes

record RebondTx =
  rebond_Address :: bytes
  rebond_Height :: int
  rebond_Signature :: bytes

record PartSetHeader =
  Total :: int
  psh_Hash :: bytes

record Vote =
  vote_Height :: int
  vote_Round :: int
  vote_Type :: byte
  vote_BlockHash :: bytes
  vote_BlockPartsHeader :: PartSetHeader
  vote_Signature :: bytes

record DupeoutTx =
  dupe_Address :: bytes
  VoteA :: Vote
  VoteB :: Vote

type_synonym PermFlag = "64 word"

datatype PermArgs =
    HasBaseArgs bytes PermFlag
  | SetBaseArgs bytes PermFlag bool
  | UnsetBaseArgs bytes PermFlag
  | SetGlobalArgs PermFlag bool
  | HasRoleArgs bytes string
  | AddRoleArgs bytes string
  | RmRoleArgs bytes string

record PermissionsTx =
  perm_Input :: "TxInput option"
  perm_Args :: PermArgs

datatype Tx =
    TxSend SendTx
  | TxCall CallTx
  | TxName NameTx
  | TxBond BondTx
  | TxUnbond UnbondTx
  | TxRebond RebondTx
  | TxDupeout DupeoutTx
  | TxPermissions PermissionsTx

section \<open>The bytes a transaction is signed over\<close>

record wire_env =
  jsonEscape :: "string \<Rightarrow> string"
  JSON_PubKey :: "bytes \<Rightarrow> string"
  JSON_PermArgs :: "PermArgs \<Rightarrow> string"
  MakePublicKey :: "bytes \<Rightarrow> bytes"
  PubKey_Address :: "bytes \<Rightarrow> bytes"
  ed25519_Sign :: "bytes \<Rightarrow> string \<Rightarrow> bytes"
  ed25519_Verify :: "bytes \<Rightarrow> string \<Rightarrow> bytes \<Rightarrow> bool"
  BinaryRipemd160 :: "string \<Rightarrow> bytes"
  Ripemd160 :: "bytes \<Rightarrow> bytes"

definition quote :: "string" where
  "quote = [CHR 0x22]"

definition TxInput_WriteSignBytes :: "TxInput \<Rightarrow> string" where
  "TxInput_WriteSignBytes i =
     ''{'' @ quote @ ''address'' @ quote @ '':'' @ quote @ fmt_X (in_Address i) @ quote @ '','' @
     quote @ ''amount'' @ quote @ '':'' @ show_int (in_Amount i) @ '','' @
     quote @ ''sequence'' @ quote @ '':'' @ show_int (in_Sequence i) @ ''}''"

definition TxOutput_WriteSignBytes :: "TxOutput \<Rightarrow> string" where
  "TxOutput_WriteSignBytes out =
     ''{'' @ quote @ ''address'' @ quote @ '':'' @ quote @ fmt_X (out_Address out) @ quote @ '','' @
     quote @ ''amount'' @ quote @ '':'' @ show_int (out_Amount out) @ ''}''"

text \<open>A nil input or output makes its method panic; the list is written with commas between.\<close>

fun sequence_outcome :: "'a outcome list \<Rightarrow> 'a list outcome" where
  "sequence_outcome [] = Ok []"
| "sequence_outcome (r # rs) =
     obind r (\<lambda>x. obind (sequence_outcome rs) (\<lambda>xs. Ok (x # xs)))"

definition deref :: "'a option \<Rightarrow> 'a outcome" where
  "deref p = (case p of None \<Rightarrow> Panic ''nil pointer dereference'' | Some x \<Rightarrow> Ok x)"

definition write_list :: "('a \<Rightarrow> string) \<Rightarrow> 'a option list \<Rightarrow> string outcome" where
  "write_list f ps =
     obind (sequence_outcome (map (\<lambda>p. obind (deref p) (\<lambda>x. Ok (f x))) ps))
       (\<lambda>ss. Ok (Join ss '',''))"

definition chain_prefix :: "wire_env \<Rightarrow> string \<Rightarrow> string" where
  "chain_prefix W chainID = ''{'' @ quote @ ''chain_id'' @ quote @ '':'' @ jsonEscape W chainID"

definition tx_prefix :: "nat \<Rightarrow> string" where
  "tx_prefix ty = '','' @ quote @ ''tx'' @ quote @ '':['' @ show_nat ty @ '',{''"

definition field :: "string \<Rightarrow> string" where
  "field f = quote @ f @ quote @ '':''"

definition SendTx_WriteSignBytes :: "wire_env \<Rightarrow> string \<Rightarrow> SendTx \<Rightarrow> string outcome" where
  "SendTx_WriteSignBytes W chainID tx =
     obind (write_list TxInput_WriteSignBytes (send_Inputs tx)) (\<lambda>ins.
     obind (write_list TxOutput_WriteSignBytes (send_Outputs tx)) (\<lambda>outs.
     Ok (chain_prefix W chainID @ tx_prefix 1 @ field ''inputs'' @ ''['' @ ins @ ''],'' @
         field ''outputs'' @ ''['' @ outs @ '']}]}'')))"

definition CallTx_WriteSignBytes :: "wire_env \<Rightarrow> string \<Rightarrow> CallTx \<Rightarrow> string outcome" where
  "CallTx_WriteSignBytes W chainID tx =
     obind (deref (call_Input tx)) (\<lambda>i.
     Ok (chain_prefix W chainID @ tx_prefix 2 @
         field ''address'' @ quote @ fmt_X (call_Address tx) @ quote @ '','' @
         field ''data'' @ quote @ fmt_X (call_Data tx) @ quote @ '','' @
         field ''fee'' @ show_int (call_Fee tx) @ '','' @
         field ''gas_limit'' @ show_int (call_GasLimit tx) @ '','' @
         field ''input'' @ TxInput_WriteSignBytes i @ ''}]}''))"

definition NameTx_WriteSignBytes :: "wire_env \<Rightarrow> string \<Rightarrow> NameTx \<Rightarrow> string outcome" where
  "NameTx_WriteSignBytes W chainID tx =
     obind (deref (name_Input tx)) (\<lambda>i.
     Ok (chain_prefix W chainID @ tx_prefix 3 @
         field ''data'' @ jsonEscape W (name_Data tx) @ '','' @
         field ''fee'' @ show_int (name_Fee tx) @ '','' @
         field ''input'' @ TxInput_WriteSignBytes i @ '','' @
         field ''name'' @ jsonEscape W (name_Name tx) @ ''}]}''))"

definition BondTx_WriteSignBytes :: "wire_env \<Rightarrow> string \<Rightarrow> BondTx \<Rightarrow> string outcome" where
  "BondTx_WriteSignBytes W chainID tx =
     obind (write_list TxInput_WriteSignBytes (bond_Inputs tx)) (\<lambda>ins.
     obind (write_list TxOutput_WriteSignBytes (bond_UnbondTo tx)) (\<lambda>outs.
     Ok (chain_prefix W chainID @ tx_prefix 17 @ field ''inputs'' @ ''['' @ ins @ ''],'' @
         field ''pub_key'' @ JSON_PubKey W (bond_PubKey tx) @ '','' @
         field ''unbond_to'' @ ''['' @ outs @ '']}]}'')))"

definition height_sign_bytes :: "wire_env \<Rightarrow> string \<Rightarrow> nat \<Rightarrow> bytes \<Rightarrow> int \<Rightarrow> string" where
  "height_sign_bytes W chainID ty addr height =
     chain_prefix W chainID @ tx_prefix ty @
     field ''address'' @ quote @ fmt_X addr @ quote @ '','' @
     field ''height'' @ show_int height @ ''}]}''"

definition PermissionsTx_WriteSignBytes ::
  "wire_env \<Rightarrow> string \<Rightarrow> PermissionsTx \<Rightarrow> string outcome" where
  "PermissionsTx_WriteSignBytes W chainID tx =
     obind (deref (perm_Input tx)) (\<lambda>i.
     Ok (chain_prefix W chainID @ tx_prefix 32 @
         field ''args'' @ quote @ JSON_PermArgs W (perm_Args tx) @ quote @ '','' @
         field ''input'' @ TxInput_WriteSignBytes i @ ''}]}''))"

primrec SignBytes :: "wire_env \<Rightarrow> string \<Rightarrow> Tx \<Rightarrow> string outcome" where
  "SignBytes W c (TxSend tx) = SendTx_WriteSignBytes W c tx"
| "SignBytes W c (TxCall tx) = CallTx_WriteSignBytes W c tx"
| "SignBytes W c (TxName tx) = NameTx_WriteSignBytes W c tx"
| "SignBytes W c (TxBond tx) = BondTx_WriteSignBytes W c tx"
| "SignBytes W c (TxUnbond tx) =
     Ok (height_sign_bytes W c 18 (unbond_Address tx) (unbond_Height tx))"
| "SignBytes W c (TxRebond tx) =
     Ok (height_sign_bytes W c 19 (rebond_Address tx) (rebond_Height tx))"
| "SignBytes W c (TxDupeout tx) = Panic ''DupeoutTx has no sign bytes''"
| "SignBytes W c (TxPermissions tx) = PermissionsTx_WriteSignBytes W c tx"

definition TxID :: "wire_env \<Rightarrow> string \<Rightarrow> Tx \<Rightarrow> bytes outcome" where
  "TxID W chainID tx = obind (SignBytes W chainID tx) (\<lambda>s. Ok (BinaryRipemd160 W s))"

text \<open>\<open>PrivAccount.Sign\<close>; the private key is checked to be present before it is called.\<close>

definition PrivAccount_Sign :: "wire_env \<Rightarrow> string \<Rightarrow> PrivAccount \<Rightarrow> Tx \<Rightarrow> bytes outcome" where
  "PrivAccount_Sign W chainID pa tx =
     obind (deref (pa_PrivKey pa)) (\<lambda>key.
     obind (SignBytes W chainID tx) (\<lambda>s. Ok (ed25519_Sign W key s)))"

text \<open>
  \<open>ed25519.MakePublicKey\<close> computes the public key from the first half of the private key and
  writes it into the second half.
\<close>

definition GenPrivAccountFromPrivKeyBytes :: "wire_env \<Rightarrow> bytes \<Rightarrow> PrivAccount outcome" where
  "GenPrivAccountFromPrivKeyBytes W privKeyBytes =
     (if length privKeyBytes \<noteq> 64
      then Panic (''Expected 64 bytes but got '' @ show_nat (length privKeyBytes))
      else let seed = take 32 privKeyBytes; pub = MakePublicKey W seed in
        Ok \<lparr> pa_Address = PubKey_Address W pub, pa_PubKey = Some pub,
             pa_PrivKey = Some (seed @ pub) \<rparr>)"

definition PutInt64BE :: "int \<Rightarrow> bytes" where
  "PutInt64BE n = map (\<lambda>i. ucast (drop_bit (8 * (7 - i)) (word_of_int n :: 64 word))) [0..<8]"

definition NewContractAddress :: "wire_env \<Rightarrow> bytes \<Rightarrow> int \<Rightarrow> bytes" where
  "NewContractAddress W caller nonce =
     Ripemd160 W (take 32 (caller @ replicate 32 0) @ PutInt64BE nonce)"

definition NewNameTxWithNonce ::
  "wire_env \<Rightarrow> bytes \<Rightarrow> string \<Rightarrow> string \<Rightarrow> int \<Rightarrow> int \<Rightarrow> int \<Rightarrow> NameTx" where
  "NewNameTxWithNonce W from name data amt fee nonce =
     \<lparr> name_Input = Some \<lparr> in_Address = PubKey_Address W from, in_Amount = amt,
         in_Sequence = nonce, in_Signature = Some (replicate 64 0), in_PubKey = Some from \<rparr>,
       name_Name = name, name_Data = data, name_Fee = fee \<rparr>"

section \<open>Names, blocks and events\<close>

record NameRegEntry =
  nre_Name :: string
  nre_Owner :: bytes
  nre_Data :: string
  nre_Expires :: int

record Header =
  hdr_ChainID :: string
  hdr_Height :: int
  hdr_Time :: int
  hdr_Fees :: int
  hdr_NumTxs :: int
  hdr_LastBlockHash :: bytes
  hdr_LastBlockParts :: PartSetHeader
  hdr_LastValidationHash :: bytes
  hdr_DataHash :: bytes
  hdr_StateHash :: bytes

record BlockMeta =
  meta_Hash :: bytes
  meta_Header :: Header
  meta_PartsHeader :: PartSetHeader

record Block =
  block_Header :: Header
  block_Txs :: "Tx list"
  block_Precommits :: "Vote option list"

record CallData =
  cd_Caller :: bytes
  cd_Callee :: bytes
  cd_Data :: bytes
  cd_Value :: int
  cd_Gas :: int

record EventDataCall =
  edc_CallData :: "CallData option"
  edc_Origin :: bytes
  edc_TxID :: bytes
  edc_Return :: bytes
  edc_Exception :: string

record EventDataTx =
  edt_Tx :: Tx
  edt_Return :: bytes
  edt_Exception :: string

record EventDataLog =
  edl_Address :: bytes
  edl_Topics :: "bytes list"
  edl_Data :: bytes
  edl_Height :: int

record EventDataVote =
  edv_Index :: int
  edv_Address :: bytes
  edv_Vote :: "Vote option"

record Proposal =
  prop_Height :: int
  prop_Round :: int
  prop_BlockPartsHeader :: PartSetHeader
  prop_POLRound :: int
  prop_Signature :: bytes

record EventDataRoundState =
  rs_CurrentTime :: int
  rs_Height :: int
  rs_Round :: int
  rs_Step :: string
  rs_StartTime :: int
  rs_CommitTime :: int
  rs_Proposal :: "Proposal option"
  rs_ProposalBlock :: "Block option"
  rs_LockedRound :: int
  rs_LockedBlock :: "Block option"
  rs_POLRound :: int

datatype EventData =
    EvNewBlock "Block option"
  | EvRoundState EventDataRoundState
  | EvTx EventDataTx
  | EvCall EventDataCall
  | EvLog EventDataLog
  | EvVote EventDataVote

definition EventStringAccInput :: "bytes \<Rightarrow> string" where
  "EventStringAccInput addr = ''Acc/'' @ fmt_X addr @ ''/Input''"

definition EventStringAccOutput :: "bytes \<Rightarrow> string" where
  "EventStringAccOutput addr = ''Acc/'' @ fmt_X addr @ ''/Output''"

definition EventStringAccCall :: "bytes \<Rightarrow> string" where
  "EventStringAccCall addr = ''Acc/'' @ fmt_X addr @ ''/Call''"

text \<open>
  The values a filter is matched against: Go's \<open>interface{}\<close> holding a pointer to one of the
  types a filter of the program asks for, or something else.
\<close>

datatype iface =
    IAccount Account
  | INameRegEntry NameRegEntry
  | IBlockMeta "BlockMeta option"
  | IEventDataCall EventDataCall
  | IOther

section \<open>Facts\<close>

lemma LeftPadWord256_length: "LeftPadWord256 bz = Ok w \<Longrightarrow> length w = 32"
  by (auto simp: LeftPadWord256_def split: if_splits)

lemma LeftPadWord256_inj_same_length:
  "LeftPadWord256 a = Ok w \<Longrightarrow> LeftPadWord256 b = Ok w \<Longrightarrow> length a = length b \<Longrightarrow> a = b"
  by (auto simp: LeftPadWord256_def split: if_splits)

lemma length_PutInt64BE [simp]: "length (PutInt64BE n) = 8"
  by (simp add: PutInt64BE_def)

text \<open>The signed bytes of an input leave its signature and its public key out.\<close>

definition sign_core :: "TxInput \<Rightarrow> bytes \<times> int \<times> int" where
  "sign_core i = (in_Address i, in_Amount i, in_Sequence i)"

lemma TxInput_WriteSignBytes_core:
  "sign_core i = sign_core j \<Longrightarrow> TxInput_WriteSignBytes i = TxInput_WriteSignBytes j"
  by (simp add: TxInput_WriteSignBytes_def sign_core_def)

lemma sign_core_update [simp]:
  "sign_core (i\<lparr> in_PubKey := p \<rparr>) = sign_core i"
  "sign_core (i\<lparr> in_Signature := g \<rparr>) = sign_core i"
  by (simp_all add: sign_core_def)

lemma write_list_core:
  assumes "map (map_option sign_core) xs = map (map_option sign_core) ys"
  shows "write_list TxInput_WriteSignBytes xs = write_list TxInput_WriteSignBytes ys"
proof -
  define w where "w p = obind (deref p) (\<lambda>x. Ok (TxInput_WriteSignBytes x))" for p
  have w: "w p = w q" if c: "map_option sign_core p = map_option sign_core q" for p q
  proof (cases p)
    case None
    with c show ?thesis by simp
  next
    case (Some i)
    with c obtain j where q: "q = Some j" "sign_core i = sign_core j" by (cases q) simp_all
    with TxInput_WriteSignBytes_core [OF this(2)] Some show ?thesis
      by (simp add: w_def deref_def)
  qed
  have "length xs = length ys"
    using assms by (rule map_eq_imp_length_eq)
  moreover have "w (xs ! n) = w (ys ! n)" if "n < length xs" for n
    using w assms that calculation by (metis nth_map)
  ultimately have "map w xs = map w ys"
    by (simp add: list_eq_iff_nth_eq)
  then show ?thesis
    by (simp add: write_list_def flip: w_def)
qed

end
