(* ===== verification/Permissions.thy ===== *)
theory Permissions
  imports Tendermint_Types
begin

text \<open>
  Permissions of accounts (the vendored \<open>permission/types\<close>): a flag is a bit of a 64-bit word; an
  account has one word for the values of its permissions and one for which of them are set, and a
  list of roles. A role is stored with zero bytes on its left to 32 bytes. \<open>Get\<close> returns a value or
  one of two errors, which its caller tells apart.
\<close>

unbundle bit_operations_syntax

section \<open>Flags\<close>

definition Perm_Root :: PermFlag where "Perm_Root = 1"
definition Perm_Send :: PermFlag where "Perm_Send = 2"
definition Perm_Call :: PermFlag where "Perm_Call = 4"
definition Perm_CreateContract :: PermFlag where "Perm_CreateContract = 8"
definition Perm_CreateAccount :: PermFlag where "Perm_CreateAccount = 16"
definition Perm_Bond :: PermFlag where "Perm_Bond = 32"
definition Perm_Name :: PermFlag where "Perm_Name = 64"
definition Perm_HasBase :: PermFlag where "Perm_HasBase = 128"
definition Perm_SetBase :: PermFlag where "Perm_SetBase = 256"
definition Perm_UnsetBase :: PermFlag where "Perm_UnsetBase = 512"
definition Perm_SetGlobal :: PermFlag where "Perm_SetGlobal = 1024"
definition Perm_HasRole :: PermFlag where "Perm_HasRole = 2048"
definition Perm_AddRole :: PermFlag where "Perm_AddRole = 4096"
definition Perm_RmRole :: PermFlag where "Perm_RmRole = 8192"

definition NumPermissions :: nat where "NumPermissions = 14"

definition TopPermFlag :: PermFlag where
  "TopPermFlag = push_bit (NumPermissions - 1) 1"

definition AllPermFlags :: PermFlag where
  "AllPermFlags = TopPermFlag OR (TopPermFlag - 1)"

definition DefaultPermFlags :: PermFlag where
  "DefaultPermFlags = Perm_Send OR Perm_Call OR Perm_CreateContract OR Perm_CreateAccount OR Perm_Bond OR
     Perm_Name OR Perm_HasBase OR Perm_HasRole"

lemmas perm_flags = Perm_Root_def Perm_Send_def Perm_Call_def Perm_CreateContract_def
  Perm_CreateAccount_def Perm_Bond_def Perm_Name_def Perm_HasBase_def Perm_SetBase_def
  Perm_UnsetBase_def Perm_SetGlobal_def Perm_HasRole_def Perm_AddRole_def Perm_RmRole_def

definition GlobalPermissionsAddress :: bytes where
  "GlobalPermissionsAddress = replicate 20 0"

definition ZeroBasePermissions :: BasePermissions where
  "ZeroBasePermissions = \<lparr> Perms = 0, SetBit = 0 \<rparr>"

definition ZeroAccountPermissions :: AccountPermissions where
  "ZeroAccountPermissions = \<lparr> Base = ZeroBasePermissions, Roles = [] \<rparr>"

definition DefaultAccountPermissions :: AccountPermissions where
  "DefaultAccountPermissions = \<lparr> Base = \<lparr> Perms = DefaultPermFlags, SetBit = AllPermFlags \<rparr>, Roles = [] \<rparr>"

section \<open>Base permissions\<close>

datatype perm_get = PermValue bool | ErrInvalidPermission PermFlag | ErrValueNotSet PermFlag

definition perm_Get :: "BasePermissions \<Rightarrow> PermFlag \<Rightarrow> perm_get" where
  "perm_Get p ty =
     (if ty = 0 then ErrInvalidPermission ty
      else if SetBit p AND ty = 0 then ErrValueNotSet ty
      else PermValue (Perms p AND ty > 0))"

definition perm_Set :: "BasePermissions \<Rightarrow> PermFlag \<Rightarrow> bool \<Rightarrow> BasePermissions outcome" where
  "perm_Set p ty v =
     (if ty = 0 then Err (''invalid permission '' @ show_nat (unat ty))
      else Ok (p\<lparr> SetBit := SetBit p OR ty,
                  Perms := (if v then Perms p OR ty else Perms p AND NOT ty) \<rparr>))"

definition perm_Unset :: "BasePermissions \<Rightarrow> PermFlag \<Rightarrow> BasePermissions outcome" where
  "perm_Unset p ty =
     (if ty = 0 then Err (''invalid permission '' @ show_nat (unat ty))
      else Ok (p\<lparr> SetBit := SetBit p AND NOT ty \<rparr>))"

definition perm_IsSet :: "BasePermissions \<Rightarrow> PermFlag \<Rightarrow> bool" where
  "perm_IsSet p ty = (if ty = 0 then False else SetBit p AND ty > 0)"

section \<open>Roles\<close>

definition LeftPadBytes :: "string \<Rightarrow> nat \<Rightarrow> string" where
  "LeftPadBytes s l = (if l < length s then s else replicate (l - length s) (CHR 0x00) @ s)"

definition perm_HasRole :: "AccountPermissions \<Rightarrow> string \<Rightarrow> bool" where
  "perm_HasRole aP role = (LeftPadBytes role 32 \<in> set (Roles aP))"

definition perm_AddRole :: "AccountPermissions \<Rightarrow> string \<Rightarrow> bool \<times> AccountPermissions" where
  "perm_AddRole aP role =
     (let r = LeftPadBytes role 32 in
      if r \<in> set (Roles aP) then (False, aP) else (True, aP\<lparr> Roles := Roles aP @ [r] \<rparr>))"

definition perm_RmRole :: "AccountPermissions \<Rightarrow> string \<Rightarrow> bool \<times> AccountPermissions" where
  "perm_RmRole aP role =
     (let r = LeftPadBytes role 32 in
      if r \<in> set (Roles aP) then (True, aP\<lparr> Roles := remove1 r (Roles aP) \<rparr>) else (False, aP))"

section \<open>Names of flags\<close>

definition perm_names :: "(PermFlag \<times> string) list" where
  "perm_names =
     [(Perm_Root, ''root''), (Perm_Send, ''send''), (Perm_Call, ''call''),
      (Perm_CreateContract, ''create_contract''), (Perm_CreateAccount, ''create_account''),
      (Perm_Bond, ''bond''), (Perm_Name, ''name''), (Perm_HasBase, ''has_base''),
      (Perm_SetBase, ''set_base''), (Perm_UnsetBase, ''unset_base''), (Perm_SetGlobal, ''set_global''),
      (Perm_HasRole, ''has_role''), (Perm_AddRole, ''add_role''), (Perm_RmRole, ''rm_role'')]"

definition PermFlagToString :: "PermFlag \<Rightarrow> string" where
  "PermFlagToString pf = (case map_of perm_names pf of None \<Rightarrow> ''#-UNKNOWN-#'' | Some s \<Rightarrow> s)"

definition PermStringToFlag :: "string \<Rightarrow> PermFlag outcome" where
  "PermStringToFlag perm =
     (case find (\<lambda>(f, s). s = perm) perm_names of
        None \<Rightarrow> Err (''Unknown permission '' @ perm)
      | Some (f, s) \<Rightarrow> Ok f)"

text \<open>The permission a permission transaction asks of its sender.\<close>

primrec PermFlag_of :: "PermArgs \<Rightarrow> PermFlag" where
  "PermFlag_of (HasBaseArgs a p) = Perm_HasBase"
| "PermFlag_of (SetBaseArgs a p v) = Perm_SetBase"
| "PermFlag_of (UnsetBaseArgs a p) = Perm_UnsetBase"
| "PermFlag_of (SetGlobalArgs p v) = Perm_SetGlobal"
| "PermFlag_of (HasRoleArgs a r) = Perm_HasRole"
| "PermFlag_of (AddRoleArgs a r) = Perm_AddRole"
| "PermFlag_of (RmRoleArgs a r) = Perm_RmRole"

section \<open>Laws\<close>

lemma AllPermFlags_value: "AllPermFlags = 16383"
  by (simp add: AllPermFlags_def TopPermFlag_def NumPermissions_def push_bit_eq_mult)

lemma PermFlag_of_known: "PermFlag_of args \<le> AllPermFlags"
  by (cases args) (simp_all add: perm_flags AllPermFlags_value)

lemma word_gt_0_bits: "(0 < (w :: 64 word)) = (w \<noteq> 0)"
  by (simp add: word_gt_0)

lemma or_and_same: "(a OR b) AND b = (b :: 64 word)"
  by (rule bit_eqI) (auto simp: bit_simps)

lemma and_not_same: "(a AND NOT b) AND b = (0 :: 64 word)"
  by (rule bit_eqI) (auto simp: bit_simps)

lemma or_and_other: "b AND c = 0 \<Longrightarrow> (a OR b) AND c = a AND (c :: 64 word)"
proof (rule bit_word_eqI)
  fix n assume "b AND c = 0"
  then have "\<not> (bit b n \<and> bit c n)" by (metis bit_and_iff bit_0_eq bot_apply bot_bool_def)
  then show "bit ((a OR b) AND c) n = bit (a AND c) n" by (auto simp: bit_simps)
qed

lemma and_not_other: "b AND c = 0 \<Longrightarrow> (a AND NOT b) AND c = a AND (c :: 64 word)"
proof (rule bit_word_eqI)
  fix n assume n: "n < LENGTH(64)" and "b AND c = 0"
  then have "\<not> (bit b n \<and> bit c n)" by (metis bit_and_iff bit_0_eq bot_apply bot_bool_def)
  with n show "bit ((a AND NOT b) AND c) n = bit (a AND c) n" by (auto simp: bit_simps)
qed

lemma show_nat_0: "show_nat 0 = ''0''"
  by code_simp

lemmas perm_bits = or_and_same and_not_same or_and_other and_not_other

text \<open>
  C28: A permission that was set reads back with its value, a permission that was unset reads back as
  not set, and in both cases every permission with no bit in common keeps what it was; the flag
  without bits is an error in every operation.
\<close>

theorem permission_bits:
  "perm_Set p 0 v = Err ''invalid permission 0'' \<and> perm_Unset p 0 = Err ''invalid permission 0'' \<and>
   perm_Get p 0 = ErrInvalidPermission 0 \<and>
   (ty \<noteq> 0 \<longrightarrow>
     (\<exists>q. perm_Set p ty v = Ok q \<and> perm_Get q ty = PermValue v \<and> perm_IsSet q ty \<and>
        (\<forall>u. ty AND u = 0 \<longrightarrow> perm_Get q u = perm_Get p u)) \<and>
     (\<exists>q. perm_Unset p ty = Ok q \<and> perm_Get q ty = ErrValueNotSet ty \<and> \<not> perm_IsSet q ty \<and>
        (\<forall>u. ty AND u = 0 \<longrightarrow> perm_Get q u = perm_Get p u)))"
  by (auto simp: perm_Set_def perm_Unset_def perm_Get_def perm_IsSet_def perm_bits word_gt_0_bits show_nat_0)

theorem permission_bits_witness:
  "\<exists>q. perm_Set ZeroBasePermissions Perm_Send True = Ok q \<and> perm_Get q Perm_Send = PermValue True \<and>
     perm_Get q Perm_Call = ErrValueNotSet Perm_Call"
proof -
  have "Perm_Send \<noteq> 0" "Perm_Send AND Perm_Call = 0" by (simp_all add: perm_flags)
  moreover have "perm_Get ZeroBasePermissions Perm_Call = ErrValueNotSet Perm_Call"
    by (simp add: perm_Get_def ZeroBasePermissions_def perm_flags)
  ultimately show ?thesis
    using permission_bits [of ZeroBasePermissions True Perm_Send] by auto
qed

text \<open>Reading a flag from its name and printing it again are inverse on the known flags.\<close>

lemma perm_names_roundtrip:
  "list_all (\<lambda>(f, s). PermFlagToString f = s \<and> PermStringToFlag s = Ok f) perm_names"
  by (simp add: perm_names_def PermFlagToString_def PermStringToFlag_def perm_flags)

text \<open>Roles: distinct, and added, found and removed as in a set.\<close>

definition roles_ok :: "AccountPermissions \<Rightarrow> bool" where
  "roles_ok aP \<longleftrightarrow> distinct (Roles aP)"

lemma AddRole_ok: "roles_ok aP \<Longrightarrow> roles_ok (snd (perm_AddRole aP r))"
  by (simp add: roles_ok_def perm_AddRole_def Let_def)

lemma RmRole_ok: "roles_ok aP \<Longrightarrow> roles_ok (snd (perm_RmRole aP r))"
  by (simp add: roles_ok_def perm_RmRole_def Let_def)

lemma HasRole_AddRole: "perm_HasRole (snd (perm_AddRole aP r)) r"
  by (simp add: perm_HasRole_def perm_AddRole_def Let_def)

lemma HasRole_RmRole: "roles_ok aP \<Longrightarrow> \<not> perm_HasRole (snd (perm_RmRole aP r)) r"
  by (simp add: perm_HasRole_def perm_RmRole_def roles_ok_def Let_def)

lemma RmRole_AddRole: "fst (perm_AddRole aP r) \<Longrightarrow> snd (perm_RmRole (snd (perm_AddRole aP r)) r) = aP"
  by (simp add: perm_RmRole_def perm_AddRole_def Let_def remove1_append remove1_idem split: if_splits)

end
