(* ===== verification/Validator_Set.thy ===== *)
theory Validator_Set
  imports Tendermint_Types "HOL-Library.List_Lexorder"
begin

text \<open>
  Validators and the sets of them that the consensus state keeps (the vendored
  \<open>types/validator.go\<close>, \<open>types/validator_set.go\<close>, \<open>types/vote.go\<close> and the validation of
  \<open>types/block.go\<close>). A set is a list sorted by address, searched by bisection, with a cached
  proposer and a cached total of the voting power. Addresses are compared as \<open>bytes.Compare\<close> does:
  the order of \<open>List_Lexorder\<close>.

  The locale \<open>keyed_store\<close> says what such a set promises: it is a finite map from addresses to
  validators. It is interpreted on the validator sets.
\<close>

section \<open>Bisection\<close>

text \<open>\<open>sort.Search\<close> of the standard library: the least index at which a monotone predicate holds.\<close>

function search_loop :: "(nat \<Rightarrow> bool) \<Rightarrow> nat \<Rightarrow> nat \<Rightarrow> nat" where
  "search_loop f i j =
     (if i < j then
        (let h = i + (j - i) div 2 in
         if \<not> f h then search_loop f (h + 1) j else search_loop f i h)
      else i)"
  by pat_completeness auto
termination by (relation "measure (\<lambda>(f, i, j). j - i)") (auto simp: Let_def)

declare search_loop.simps [simp del]

definition sort_Search :: "nat \<Rightarrow> (nat \<Rightarrow> bool) \<Rightarrow> nat" where
  "sort_Search n f = search_loop f 0 n"

lemma search_loop_least:
  assumes "i \<le> k" "k \<le> j" "\<And>x. x < k \<Longrightarrow> \<not> f x" "\<And>x. k \<le> x \<Longrightarrow> x < j \<Longrightarrow> f x"
  shows "search_loop f i j = k"
  using assms
proof (induction f i j rule: search_loop.induct)
  case (1 f i j)
  define h where "h = i + (j - i) div 2"
  show ?case
  proof (cases "i < j")
    case True
    then have h: "i \<le> h" "h < j" by (auto simp: h_def)
    show ?thesis
    proof (cases "f h")
      case True
      then have "k \<le> h" using "1.prems"(3) leI by blast
      with True h \<open>i < j\<close> "1.IH"(2) [OF \<open>i < j\<close> h_def] "1.prems" show ?thesis
        by (subst search_loop.simps) (simp add: Let_def flip: h_def)
    next
      case False
      then have "h + 1 \<le> k" using "1.prems"(4) [of h] h by (cases "k \<le> h") auto
      with False h \<open>i < j\<close> "1.IH"(1) [OF \<open>i < j\<close> h_def] "1.prems" show ?thesis
        by (subst search_loop.simps) (simp add: Let_def flip: h_def)
    qed
  next
    case False
    with "1.prems" show ?thesis by (subst search_loop.simps) simp
  qed
qed

lemma sort_Search_least:
  assumes "k \<le> n" "\<And>x. x < k \<Longrightarrow> \<not> f x" "\<And>x. k \<le> x \<Longrightarrow> x < n \<Longrightarrow> f x"
  shows "sort_Search n f = k"
  unfolding sort_Search_def using assms by (intro search_loop_least) simp_all

section \<open>Validators\<close>

record ValidatorInfo =
  vi_Address :: bytes
  vi_PubKey :: bytes
  vi_UnbondTo :: "TxOutput option list"
  vi_FirstBondHeight :: int
  vi_FirstBondAmount :: int
  vi_DestroyedHeight :: int
  vi_DestroyedAmount :: int
  vi_ReleasedHeight :: int

record Validator =
  val_Address :: bytes
  val_PubKey :: bytes
  val_BondHeight :: int
  val_UnbondHeight :: int
  val_LastCommitHeight :: int
  val_VotingPower :: int
  val_Accum :: int

definition CompareAccum :: "Validator option \<Rightarrow> Validator \<Rightarrow> Validator outcome" where
  "CompareAccum v other =
     (case v of
        None \<Rightarrow> Ok other
      | Some v \<Rightarrow>
          (if val_Accum v > val_Accum other then Ok v
           else if val_Accum v < val_Accum other then Ok other
           else if val_Address v < val_Address other then Ok v
           else if val_Address v > val_Address other then Ok other
           else Panic ''Cannot compare identical validators''))"

section \<open>Sets\<close>

record ValidatorSet =
  Validators :: "Validator list"
  vs_proposer :: "Validator option"
  vs_totalVotingPower :: int

definition addr_index :: "bytes \<Rightarrow> Validator list \<Rightarrow> nat" where
  "addr_index address vals = sort_Search (length vals) (\<lambda>i. address \<le> val_Address (vals ! i))"

definition vs_found :: "bytes \<Rightarrow> Validator list \<Rightarrow> bool" where
  "vs_found address vals =
     (addr_index address vals \<noteq> length vals \<and> val_Address (vals ! addr_index address vals) = address)"

definition NewValidatorSet :: "Validator list \<Rightarrow> ValidatorSet" where
  "NewValidatorSet vals =
     \<lparr> Validators = sort_key val_Address vals, vs_proposer = None, vs_totalVotingPower = 0 \<rparr>"

definition HasAddress :: "bytes \<Rightarrow> ValidatorSet \<Rightarrow> bool" where
  "HasAddress address vs = vs_found address (Validators vs)"

definition GetByAddress :: "bytes \<Rightarrow> ValidatorSet \<Rightarrow> (nat \<times> Validator) option" where
  "GetByAddress address vs =
     (let idx = addr_index address (Validators vs) in
      if vs_found address (Validators vs) then Some (idx, Validators vs ! idx) else None)"

definition GetByIndex :: "int \<Rightarrow> ValidatorSet \<Rightarrow> (bytes \<times> Validator) outcome" where
  "GetByIndex i vs =
     (if 0 \<le> i \<and> i < int (length (Validators vs))
      then let val = Validators vs ! nat i in Ok (val_Address val, val)
      else Panic ''index out of range'')"

definition vs_Size :: "ValidatorSet \<Rightarrow> nat" where
  "vs_Size vs = length (Validators vs)"

text \<open>The caches are dropped by every change.\<close>

definition set_validators :: "Validator list \<Rightarrow> ValidatorSet \<Rightarrow> ValidatorSet" where
  "set_validators vals vs = vs\<lparr> Validators := vals, vs_proposer := None, vs_totalVotingPower := 0 \<rparr>"

definition vs_Add :: "Validator \<Rightarrow> ValidatorSet \<Rightarrow> bool \<times> ValidatorSet" where
  "vs_Add val vs =
     (let vals = Validators vs; idx = addr_index (val_Address val) vals in
      if idx = length vals then (True, set_validators (vals @ [val]) vs)
      else if val_Address (vals ! idx) = val_Address val then (False, vs)
      else (True, set_validators (take idx vals @ val # drop idx vals) vs))"

definition vs_Update :: "Validator \<Rightarrow> ValidatorSet \<Rightarrow> bool \<times> ValidatorSet" where
  "vs_Update val vs =
     (case GetByAddress (val_Address val) vs of
        None \<Rightarrow> (False, vs)
      | Some (i, _) \<Rightarrow> (True, set_validators ((Validators vs)[i := val]) vs))"

definition vs_Remove :: "bytes \<Rightarrow> ValidatorSet \<Rightarrow> Validator option \<times> ValidatorSet" where
  "vs_Remove address vs =
     (let vals = Validators vs; idx = addr_index address vals in
      if \<not> vs_found address vals then (None, vs)
      else (Some (vals ! idx), set_validators (take idx vals @ drop (idx + 1) vals) vs))"

definition sum_power :: "int \<Rightarrow> Validator list \<Rightarrow> int" where
  "sum_power acc vals = foldl (\<lambda>t v. wrap64 (t + val_VotingPower v)) acc vals"

definition TotalVotingPower :: "ValidatorSet \<Rightarrow> int \<times> ValidatorSet" where
  "TotalVotingPower vs =
     (let vs' = (if vs_totalVotingPower vs = 0
                 then vs\<lparr> vs_totalVotingPower := sum_power 0 (Validators vs) \<rparr> else vs)
      in (vs_totalVotingPower vs', vs'))"

fun proposer_loop :: "Validator option \<Rightarrow> Validator list \<Rightarrow> Validator option outcome" where
  "proposer_loop p [] = Ok p"
| "proposer_loop p (v # vs) = obind (CompareAccum p v) (\<lambda>q. proposer_loop (Some q) vs)"

definition vs_Proposer :: "ValidatorSet \<Rightarrow> (Validator option \<times> ValidatorSet) outcome" where
  "vs_Proposer vs =
     (if Validators vs = [] then Ok (None, vs)
      else if vs_proposer vs = None
      then obind (proposer_loop None (Validators vs)) (\<lambda>p. Ok (p, vs\<lparr> vs_proposer := p \<rparr>))
      else Ok (vs_proposer vs, vs))"

section \<open>Commits\<close>

definition VoteTypePrecommit :: byte where "VoteTypePrecommit = 2"

definition Fingerprint :: "bytes \<Rightarrow> bytes" where
  "Fingerprint bz = take 6 (bz @ replicate 6 0)"

definition PartSetHeader_String :: "PartSetHeader \<Rightarrow> string" where
  "PartSetHeader_String psh = ''PartSet{T:'' @ show_int (Total psh) @ '' '' @ fmt_X (Fingerprint (psh_Hash psh)) @ ''}''"

definition Vote_SignBytes :: "string \<Rightarrow> Vote \<Rightarrow> string" where
  "Vote_SignBytes chainID vote =
     ''{'' @ quote @ ''chain_id'' @ quote @ '':'' @ quote @ chainID @ quote @
     '','' @ field ''vote'' @ ''{'' @ field ''block_hash'' @ quote @ fmt_X (vote_BlockHash vote) @ quote @ '','' @
     field ''block_parts_header'' @ PartSetHeader_String (vote_BlockPartsHeader vote) @ '','' @
     field ''height'' @ show_int (vote_Height vote) @ '','' @ field ''round'' @ show_int (vote_Round vote) @ '','' @
     field ''type'' @ show_nat (unat (vote_Type vote)) @ ''}}''"

definition FirstPrecommit :: "Vote option list \<Rightarrow> Vote option" where
  "FirstPrecommit ps = (case find (\<lambda>p. p \<noteq> None) ps of None \<Rightarrow> None | Some p \<Rightarrow> p)"

definition Validation_Height :: "Vote option list \<Rightarrow> int outcome" where
  "Validation_Height ps = (if ps = [] then Ok 0 else obind (deref (FirstPrecommit ps)) (\<lambda>v. Ok (vote_Height v)))"

definition Validation_Round :: "Vote option list \<Rightarrow> int outcome" where
  "Validation_Round ps = (if ps = [] then Ok 0 else obind (deref (FirstPrecommit ps)) (\<lambda>v. Ok (vote_Round v)))"

fun check_precommits :: "int \<Rightarrow> int \<Rightarrow> Vote option list \<Rightarrow> unit outcome" where
  "check_precommits height round [] = Ok ()"
| "check_precommits height round (None # ps) = check_precommits height round ps"
| "check_precommits height round (Some v # ps) =
     (if vote_Type v \<noteq> VoteTypePrecommit
      then Err (''Invalid validation vote. Expected precommit, got '' @ show_nat (unat (vote_Type v)))
      else if vote_Height v \<noteq> height
      then Err (''Invalid validation precommit height. Expected '' @ show_int height @ '', got '' @ show_int (vote_Height v))
      else if vote_Round v \<noteq> round
      then Err (''Invalid validation precommit round. Expected '' @ show_int round @ '', got '' @ show_int (vote_Round v))
      else check_precommits height round ps)"

definition Validation_ValidateBasic :: "Vote option list \<Rightarrow> unit outcome" where
  "Validation_ValidateBasic ps =
     (if ps = [] then Err ''No precommits in validation''
      else obind (Validation_Height ps) (\<lambda>height. obind (Validation_Round ps) (\<lambda>round.
             check_precommits height round ps)))"

text \<open>The loop of \<open>VerifyValidation\<close>: the voting power tallied so far, or the error.\<close>

fun tally ::
  "wire_env \<Rightarrow> string \<Rightarrow> bytes \<Rightarrow> PartSetHeader \<Rightarrow> int \<Rightarrow> int \<Rightarrow> nat \<Rightarrow> ValidatorSet \<Rightarrow> Vote option list \<Rightarrow> int \<Rightarrow> int outcome"
where
  "tally W chainID hash parts height round idx vs [] t = Ok t"
| "tally W chainID hash parts height round idx vs (None # ps) t =
     tally W chainID hash parts height round (Suc idx) vs ps t"
| "tally W chainID hash parts height round idx vs (Some p # ps) t =
     (if vote_Height p \<noteq> height
      then Err (''Invalid validation -- wrong height: '' @ show_int height @ '' vs '' @ show_int (vote_Height p))
      else if vote_Round p \<noteq> round
      then Err (''Invalid validation -- wrong round: '' @ show_int round @ '' vs '' @ show_int (vote_Round p))
      else if vote_Type p \<noteq> VoteTypePrecommit
      then Err (''Invalid validation -- not precommit @ index '' @ show_nat idx)
      else obind (GetByIndex (int idx) vs) (\<lambda>(_, val).
        if \<not> ed25519_Verify W (val_PubKey val) (Vote_SignBytes chainID p) (vote_Signature p)
        then Err ''Invalid validation -- invalid signature''
        else tally W chainID hash parts height round (Suc idx) vs ps
               (if vote_BlockHash p = hash \<and> vote_BlockPartsHeader p = parts
                then wrap64 (t + val_VotingPower val) else t)))"

text \<open>Go's \<open>/\<close> truncates towards zero.\<close>

definition go_div :: "int \<Rightarrow> int \<Rightarrow> int" where
  "go_div a b = sgn a * sgn b * (\<bar>a\<bar> div \<bar>b\<bar>)"

definition VerifyValidation ::
  "wire_env \<Rightarrow> string \<Rightarrow> bytes \<Rightarrow> PartSetHeader \<Rightarrow> int \<Rightarrow> Vote option list \<Rightarrow> ValidatorSet \<Rightarrow> unit outcome" where
  "VerifyValidation W chainID hash parts height ps vs =
     (if vs_Size vs \<noteq> length ps
      then Err (''Invalid validation -- wrong set size: '' @ show_nat (vs_Size vs) @ '' vs '' @ show_nat (length ps))
      else obind (Validation_Height ps) (\<lambda>h.
        if height \<noteq> h
        then Err (''Invalid validation -- wrong height: '' @ show_int height @ '' vs '' @ show_int h)
        else obind (Validation_Round ps) (\<lambda>round.
             obind (tally W chainID hash parts height round 0 vs ps 0) (\<lambda>tallied.
        let total = fst (TotalVotingPower vs); needed = go_div (wrap64 (total * 2)) 3 in
        if tallied > needed then Ok ()
        else Err (''Invalid validation -- insufficient voting power: got '' @ show_int tallied @
                  '', needed '' @ show_int (wrap64 (needed + 1)))))))"

section \<open>The contract of a set\<close>

locale keyed_store =
  fixes inv :: "'s \<Rightarrow> bool"
    and abs :: "'s \<Rightarrow> bytes \<Rightarrow> Validator option"
    and get :: "bytes \<Rightarrow> 's \<Rightarrow> Validator option"
    and add :: "Validator \<Rightarrow> 's \<Rightarrow> bool \<times> 's"
    and upd :: "Validator \<Rightarrow> 's \<Rightarrow> bool \<times> 's"
    and rem :: "bytes \<Rightarrow> 's \<Rightarrow> Validator option \<times> 's"
  assumes key: "inv s \<Longrightarrow> abs s a = Some v \<Longrightarrow> val_Address v = a"
    and get: "inv s \<Longrightarrow> get a s = abs s a"
    and add_inv: "inv s \<Longrightarrow> inv (snd (add v s))"
    and add_res: "inv s \<Longrightarrow> fst (add v s) \<longleftrightarrow> abs s (val_Address v) = None"
    and add_abs: "inv s \<Longrightarrow> abs (snd (add v s)) =
       (if abs s (val_Address v) = None then (abs s)(val_Address v \<mapsto> v) else abs s)"
    and upd_inv: "inv s \<Longrightarrow> inv (snd (upd v s))"
    and upd_res: "inv s \<Longrightarrow> fst (upd v s) \<longleftrightarrow> abs s (val_Address v) \<noteq> None"
    and upd_abs: "inv s \<Longrightarrow> abs (snd (upd v s)) =
       (if abs s (val_Address v) = None then abs s else (abs s)(val_Address v \<mapsto> v))"
    and rem_inv: "inv s \<Longrightarrow> inv (snd (rem a s))"
    and rem_res: "inv s \<Longrightarrow> fst (rem a s) = abs s a"
    and rem_abs: "inv s \<Longrightarrow> abs (snd (rem a s)) = (abs s)(a := None)"
begin

text \<open>Moving a validator from one set to another, where the two are disjoint, always works and keeps both disjoint.\<close>

lemma move:
  assumes "inv s" "inv t" "dom (abs s) \<inter> dom (abs t) = {}" "abs s a = Some v"
    and f: "\<And>v. val_Address (f v) = val_Address v"
    and s': "s' = snd (rem a s)" and t': "t' = snd (add (f v) t)"
  shows "fst (rem a s) = Some v" "fst (add (f v) t)" "inv s'" "inv t'"
    "dom (abs s') \<inter> dom (abs t') = {}" "abs s' = (abs s)(a := None)" "abs t' = (abs t)(a \<mapsto> f v)"
proof -
  have a: "val_Address v = a" using key assms(1,4) by blast
  have n: "abs t a = None" using assms(3,4) by auto
  show "fst (rem a s) = Some v" by (simp add: rem_res assms(1,4))
  show "fst (add (f v) t)" by (simp add: add_res assms(2) f a n)
  show "inv s'" "inv t'" by (simp_all add: s' t' rem_inv add_inv assms(1,2))
  show abs: "abs s' = (abs s)(a := None)" "abs t' = (abs t)(a \<mapsto> f v)"
    by (simp_all add: s' t' rem_abs add_abs assms(1,2) f a n)
  show "dom (abs s') \<inter> dom (abs t') = {}"
    using assms(3) by (auto simp: abs)
qed

end

section \<open>Sorted lists as maps\<close>

definition by_address :: "Validator list \<Rightarrow> bool" where
  "by_address vals \<longleftrightarrow> sorted_wrt (\<lambda>v w. val_Address v < val_Address w) vals"

definition vals_map :: "Validator list \<Rightarrow> bytes \<Rightarrow> Validator option" where
  "vals_map vals = map_of (map (\<lambda>v. (val_Address v, v)) vals)"

lemma vals_map_None: "vals_map vals a = None \<longleftrightarrow> a \<notin> val_Address ` set vals"
  by (auto simp: vals_map_def map_of_eq_None_iff image_image)

lemma vals_map_app: "vals_map (xs @ ys) a = (case vals_map xs a of None \<Rightarrow> vals_map ys a | Some v \<Rightarrow> Some v)"
  by (simp add: vals_map_def map_add_def split: option.split)

lemma vals_map_Cons [simp]: "vals_map (v # vs) = (vals_map vs)(val_Address v \<mapsto> v)"
  by (simp add: vals_map_def)

lemma vals_map_Nil [simp]: "vals_map [] = Map.empty"
  by (simp add: vals_map_def)

text \<open>Where a search splits the list.\<close>

lemma split_at_index:
  assumes "by_address vals"
  obtains pre suf where "vals = pre @ suf" "addr_index a vals = length pre"
    "\<And>v. v \<in> set pre \<Longrightarrow> val_Address v < a" "\<And>v. v \<in> set suf \<Longrightarrow> a \<le> val_Address v"
proof -
  define pre where "pre = takeWhile (\<lambda>v. val_Address v < a) vals"
  define suf where "suf = dropWhile (\<lambda>v. val_Address v < a) vals"
  have vals: "vals = pre @ suf" by (simp add: pre_def suf_def)
  have pre: "val_Address v < a" if "v \<in> set pre" for v
    using that by (auto simp: pre_def dest: set_takeWhileD)
  have suf: "a \<le> val_Address v" if v: "v \<in> set suf" for v
  proof -
    have ne: "suf \<noteq> []" using v by auto
    then have hd: "a \<le> val_Address (hd suf)"
      using hd_dropWhile [of "\<lambda>v. val_Address v < a" vals] by (auto simp: suf_def not_less)
    have "sorted_wrt (\<lambda>v w. val_Address v < val_Address w) suf"
      using assms by (simp add: by_address_def vals sorted_wrt_append)
    then have "v = hd suf \<or> val_Address (hd suf) < val_Address v"
      using v ne by (cases suf) auto
    with hd show ?thesis by auto
  qed
  have "addr_index a vals = length pre"
    unfolding addr_index_def
  proof (rule sort_Search_least)
    show "length pre \<le> length vals" by (simp add: vals)
  next
    fix x assume "x < length pre"
    then show "\<not> a \<le> val_Address (vals ! x)" using pre [of "pre ! x"] by (simp add: vals nth_append not_le)
  next
    fix x assume "length pre \<le> x" "x < length vals"
    then show "a \<le> val_Address (vals ! x)"
      using suf [of "suf ! (x - length pre)"] by (simp add: vals nth_append)
  qed
  then show thesis using that vals pre suf by blast
qed

lemma by_address_app:
  "by_address (xs @ ys) \<longleftrightarrow> by_address xs \<and> by_address ys \<and> (\<forall>x\<in>set xs. \<forall>y\<in>set ys. val_Address x < val_Address y)"
  by (simp add: by_address_def sorted_wrt_append)

lemma by_address_Cons:
  "by_address (x # ys) \<longleftrightarrow> by_address ys \<and> (\<forall>y\<in>set ys. val_Address x < val_Address y)"
  by (auto simp: by_address_def)

text \<open>Every search finds one of three situations.\<close>

lemma index_cases:
  assumes "by_address vals"
  obtains (absent_end) "addr_index a vals = length vals" "\<And>v. v \<in> set vals \<Longrightarrow> val_Address v < a"
  | (here) pre v suf where "vals = pre @ v # suf" "addr_index a vals = length pre" "val_Address v = a"
  | (absent) pre w suf where "vals = pre @ w # suf" "addr_index a vals = length pre" "val_Address w \<noteq> a"
      "\<And>v. v \<in> set pre \<Longrightarrow> val_Address v < a" "\<And>v. v \<in> set (w # suf) \<Longrightarrow> a < val_Address v"
proof (rule split_at_index [OF assms, of a])
  fix pre suf
  assume p: "vals = pre @ suf" "addr_index a vals = length pre"
    "\<And>v. v \<in> set pre \<Longrightarrow> val_Address v < a" "\<And>v. v \<in> set suf \<Longrightarrow> a \<le> val_Address v"
  show thesis
  proof (cases suf)
    case Nil
    with p absent_end show ?thesis by simp
  next
    case (Cons w suf')
    show ?thesis
    proof (cases "val_Address w = a")
      case True
      with p Cons here show ?thesis by blast
    next
      case False
      have "a < val_Address v" if "v \<in> set (w # suf')" for v
      proof -
        have "a < val_Address w" using p(4) [of w] Cons False by (auto simp: le_less)
        moreover have "v = w \<or> val_Address w < val_Address v"
          using assms that p(1) Cons by (auto simp: by_address_app by_address_Cons)
        ultimately show ?thesis by auto
      qed
      with p Cons False absent show ?thesis by blast
    qed
  qed
qed

definition vs_ok :: "ValidatorSet \<Rightarrow> bool" where
  "vs_ok vs \<longleftrightarrow> by_address (Validators vs)"

definition vs_map :: "ValidatorSet \<Rightarrow> bytes \<Rightarrow> Validator option" where
  "vs_map vs = vals_map (Validators vs)"

definition vs_get :: "bytes \<Rightarrow> ValidatorSet \<Rightarrow> Validator option" where
  "vs_get a vs = map_option snd (GetByAddress a vs)"

lemma Validators_set_validators [simp]: "Validators (set_validators vals vs) = vals"
  by (simp add: set_validators_def)

lemma less_not_in: "(\<And>v. v \<in> set vals \<Longrightarrow> val_Address v < a) \<Longrightarrow> vals_map vals a = None"
  by (force simp: vals_map_None)

lemma greater_not_in: "(\<And>v. v \<in> set vals \<Longrightarrow> a < val_Address v) \<Longrightarrow> vals_map vals a = None"
  by (force simp: vals_map_None)

lemma vs_get_map:
  assumes "vs_ok vs"
  shows "vs_get a vs = vs_map vs a"
  using assms [unfolded vs_ok_def]
proof (cases rule: index_cases [where a = a])
  case absent_end
  then show ?thesis
    by (simp add: vs_get_def GetByAddress_def vs_found_def vs_map_def less_not_in)
next
  case (here pre v suf)
  then have "vals_map pre a = None"
    using assms by (intro less_not_in) (auto simp: vs_ok_def by_address_app)
  with here show ?thesis
    by (simp add: vs_get_def GetByAddress_def vs_found_def vs_map_def vals_map_app nth_append)
next
  case (absent pre w suf)
  then have "vals_map pre a = None" "vals_map (w # suf) a = None"
    by (blast intro: less_not_in greater_not_in)+
  with absent(1-3) show ?thesis
    by (simp add: vs_get_def GetByAddress_def vs_found_def vs_map_def vals_map_app nth_append)
qed

lemma vals_map_insert:
  assumes "vals_map pre (val_Address v) = None"
  shows "vals_map (pre @ v # suf) = (vals_map (pre @ suf))(val_Address v \<mapsto> v)"
  using assms by (auto simp: fun_eq_iff vals_map_app split: option.split)

lemma vs_Add_laws:
  assumes "vs_ok vs"
  shows "vs_ok (snd (vs_Add v vs)) \<and> (fst (vs_Add v vs) \<longleftrightarrow> vs_map vs (val_Address v) = None) \<and>
    vs_map (snd (vs_Add v vs)) =
       (if vs_map vs (val_Address v) = None then (vs_map vs)(val_Address v \<mapsto> v) else vs_map vs)"
  using assms [unfolded vs_ok_def]
proof (cases rule: index_cases [where a = "val_Address v"])
  case absent_end
  then have "vals_map (Validators vs) (val_Address v) = None" by (blast intro: less_not_in)
  moreover have "by_address (Validators vs @ [v])"
    using absent_end(2) assms by (auto simp: vs_ok_def by_address_app by_address_Cons) (simp add: by_address_def)
  ultimately show ?thesis
    using absent_end(1) vals_map_insert [of "Validators vs" v "[]"]
    by (simp add: vs_Add_def vs_map_def vs_ok_def Let_def)
next
  case (here pre w suf)
  then have "vals_map (Validators vs) (val_Address v) \<noteq> None"
    by (auto simp: vals_map_None)
  with here assms show ?thesis
    by (auto simp: vs_Add_def vs_map_def vs_ok_def Let_def nth_append)
next
  case (absent pre w suf)
  then have n: "vals_map pre (val_Address v) = None" "vals_map (w # suf) (val_Address v) = None"
    by (blast intro: less_not_in greater_not_in)+
  have "by_address (pre @ v # w # suf)"
    using absent(1,4,5) assms by (auto simp: vs_ok_def by_address_app by_address_Cons)
  moreover have "vals_map (Validators vs) (val_Address v) = None"
    using n by (simp add: absent(1) vals_map_app)
  ultimately show ?thesis
    using absent(1-3) vals_map_insert [OF n(1), of "w # suf"]
    by (simp add: vs_Add_def vs_map_def vs_ok_def Let_def nth_append)
qed

lemma here_unique:
  assumes "by_address (pre @ v # suf)"
  shows "vals_map pre (val_Address v) = None" "vals_map suf (val_Address v) = None"
    "vals_map (pre @ v # suf) (val_Address v) = Some v"
proof -
  show n: "vals_map pre (val_Address v) = None" "vals_map suf (val_Address v) = None"
    using assms by (force simp: by_address_app by_address_Cons vals_map_None)+
  then show "vals_map (pre @ v # suf) (val_Address v) = Some v"
    by (simp add: vals_map_app)
qed

lemma vs_Remove_laws:
  assumes "vs_ok vs"
  shows "vs_ok (snd (vs_Remove a vs)) \<and> fst (vs_Remove a vs) = vs_map vs a \<and>
    vs_map (snd (vs_Remove a vs)) = (vs_map vs)(a := None)"
  using assms [unfolded vs_ok_def]
proof (cases rule: index_cases [where a = a])
  case absent_end
  then have "vals_map (Validators vs) a = None" by (blast intro: less_not_in)
  with absent_end(1) assms show ?thesis
    by (auto simp: vs_Remove_def vs_found_def vs_map_def vs_ok_def Let_def fun_eq_iff)
next
  case (here pre v suf)
  have "by_address (pre @ suf)"
    using here(1) assms by (auto simp: vs_ok_def by_address_app by_address_Cons)
  moreover have "vals_map (pre @ suf) = (vals_map (Validators vs))(a := None)"
    using here(1,3) assms here_unique [of pre v suf]
    by (auto simp: vs_ok_def fun_eq_iff vals_map_app split: option.split)
  moreover have "vals_map (Validators vs) a = Some v"
    using here(1,3) assms here_unique(3) [of pre v suf] by (simp add: vs_ok_def)
  ultimately show ?thesis
    using here by (simp add: vs_Remove_def vs_found_def vs_map_def vs_ok_def Let_def nth_append)
next
  case (absent pre w suf)
  then have "vals_map pre a = None" "vals_map (w # suf) a = None"
    by (blast intro: less_not_in greater_not_in)+
  then have "vals_map (Validators vs) a = None" by (simp add: absent(1) vals_map_app)
  with absent(1-3) assms show ?thesis
    by (auto simp: vs_Remove_def vs_found_def vs_map_def vs_ok_def Let_def nth_append fun_eq_iff)
qed

lemma vs_Update_laws:
  assumes "vs_ok vs"
  shows "vs_ok (snd (vs_Update v vs)) \<and> (fst (vs_Update v vs) \<longleftrightarrow> vs_map vs (val_Address v) \<noteq> None) \<and>
    vs_map (snd (vs_Update v vs)) =
      (if vs_map vs (val_Address v) = None then vs_map vs else (vs_map vs)(val_Address v \<mapsto> v))"
proof (cases "GetByAddress (val_Address v) vs")
  case None
  then have "vs_map vs (val_Address v) = None"
    using vs_get_map [OF assms, of "val_Address v"] by (simp add: vs_get_def)
  with None assms show ?thesis by (simp add: vs_Update_def)
next
  case (Some p)
  obtain i w where p: "p = (i, w)" by fastforce
  have found: "i < length (Validators vs)" "val_Address (Validators vs ! i) = val_Address v"
  proof -
    have "addr_index (val_Address v) (Validators vs) \<le> length (Validators vs)"
      using assms unfolding vs_ok_def by (cases rule: index_cases [where a = "val_Address v"]) auto
    with Some p show "i < length (Validators vs)" "val_Address (Validators vs ! i) = val_Address v"
      by (auto simp: GetByAddress_def vs_found_def Let_def split: if_splits)
  qed
  define pre suf where "pre = take i (Validators vs)" and "suf = drop (Suc i) (Validators vs)"
  have vals: "Validators vs = pre @ (Validators vs ! i) # suf"
    using found(1) by (simp add: pre_def suf_def id_take_nth_drop [symmetric])
  have upd: "(Validators vs)[i := v] = pre @ v # suf"
    using found(1) by (simp add: pre_def suf_def upd_conv_take_nth_drop)
  have "by_address (pre @ v # suf)"
    using assms found(2) unfolding vs_ok_def
    by (subst (asm) vals) (auto simp: by_address_app by_address_Cons)
  moreover have "vals_map (pre @ v # suf) = (vals_map (Validators vs))(val_Address v \<mapsto> v)"
    using here_unique(1) [OF calculation] found(2)
    by (subst vals) (auto simp: fun_eq_iff vals_map_app split: option.split)
  moreover have "vals_map (Validators vs) (val_Address v) \<noteq> None"
    using nth_mem [OF found(1)] by (metis found(2) image_eqI vals_map_None)
  ultimately show ?thesis
    using Some p upd by (auto simp: vs_Update_def vs_ok_def vs_map_def)
qed

interpretation validators: keyed_store vs_ok vs_map vs_get vs_Add vs_Update vs_Remove
proof unfold_locales
  fix s a v assume "vs_map s a = Some v"
  then show "val_Address v = a" by (auto simp: vs_map_def vals_map_def dest!: map_of_SomeD)
qed (simp_all add: vs_get_map vs_Add_laws vs_Update_laws vs_Remove_laws)

section \<open>Tallying\<close>

definition contrib :: "bytes \<Rightarrow> PartSetHeader \<Rightarrow> Validator \<Rightarrow> Vote option \<Rightarrow> int" where
  "contrib hash parts val p =
     (case p of
        None \<Rightarrow> 0
      | Some v \<Rightarrow> if vote_BlockHash v = hash \<and> vote_BlockPartsHeader v = parts then val_VotingPower val else 0)"

definition signed_precommit :: "wire_env \<Rightarrow> string \<Rightarrow> int \<Rightarrow> int \<Rightarrow> Validator \<Rightarrow> Vote option \<Rightarrow> bool" where
  "signed_precommit W chainID height round val p =
     (case p of
        None \<Rightarrow> True
      | Some v \<Rightarrow> vote_Height v = height \<and> vote_Round v = round \<and> vote_Type v = VoteTypePrecommit \<and>
          ed25519_Verify W (val_PubKey val) (Vote_SignBytes chainID v) (vote_Signature v))"

abbreviation powers :: "Validator list \<Rightarrow> int" where
  "powers vals \<equiv> sum_list (map val_VotingPower vals)"

definition powers_ok :: "Validator list \<Rightarrow> bool" where
  "powers_ok vals \<longleftrightarrow> (\<forall>v\<in>set vals. 0 \<le> val_VotingPower v) \<and> 2 * powers vals \<le> MaxInt64"

lemma powers_nonneg: "\<forall>v\<in>set vals. 0 \<le> val_VotingPower v \<Longrightarrow> 0 \<le> powers vals"
  by (induction vals) auto

lemma sum_power_eq:
  assumes "\<forall>v\<in>set vals. 0 \<le> val_VotingPower v" "0 \<le> t" "t + powers vals \<le> MaxInt64"
  shows "sum_power t vals = t + powers vals"
  using assms
proof (induction vals arbitrary: t)
  case (Cons v vals)
  then have "wrap64 (t + val_VotingPower v) = t + val_VotingPower v"
    using powers_nonneg [of vals] by (intro wrap64_id) (auto simp: int64_simps)
  with Cons.IH [of "t + val_VotingPower v"] Cons.prems show ?case
    by (simp add: sum_power_def)
qed (simp add: sum_power_def)

lemma tally_Ok:
  assumes "tally W c hash parts h r idx vs ps t = Ok t'" "idx + length ps = length (Validators vs)"
    and "\<forall>v\<in>set (Validators vs). 0 \<le> val_VotingPower v" "0 \<le> t"
    and "t + powers (drop idx (Validators vs)) \<le> MaxInt64"
  shows "t' = t + sum_list (map2 (contrib hash parts) (drop idx (Validators vs)) ps) \<and>
         list_all2 (signed_precommit W c h r) (drop idx (Validators vs)) ps"
  using assms
proof (induction ps arbitrary: idx t)
  case (Cons p ps)
  define val where "val = Validators vs ! idx"
  have idx: "idx < length (Validators vs)" using Cons.prems(2) by simp
  then have dr: "drop idx (Validators vs) = val # drop (Suc idx) (Validators vs)"
    by (simp add: val_def Cons_nth_drop_Suc)
  have pv: "0 \<le> val_VotingPower val" using Cons.prems(3) idx by (simp add: val_def)
  have rest: "0 \<le> powers (drop (Suc idx) (Validators vs))"
    using Cons.prems(3) by (intro powers_nonneg) (auto dest: in_set_dropD)
  show ?case
  proof (cases p)
    case None
    with Cons.IH [of "Suc idx" t] Cons.prems dr pv show ?thesis
      by (simp add: contrib_def signed_precommit_def)
  next
    case (Some v)
    have get: "GetByIndex (int idx) vs = Ok (val_Address val, val)"
      using idx by (simp add: GetByIndex_def val_def Let_def)
    have w: "wrap64 (t + val_VotingPower val) = t + val_VotingPower val"
      using Cons.prems(4,5) pv rest dr by (intro wrap64_id) (auto simp: int64_simps)
    define u where "u = (if vote_BlockHash v = hash \<and> vote_BlockPartsHeader v = parts
        then t + val_VotingPower val else t)"
    have step: "tally W c hash parts h r (Suc idx) vs ps u = Ok t'" "signed_precommit W c h r val (Some v)"
      using Cons.prems(1) Some get w by (auto simp: u_def signed_precommit_def split: if_splits)
    have "u + powers (drop (Suc idx) (Validators vs)) \<le> MaxInt64" "0 \<le> u"
      using Cons.prems(4,5) pv dr by (auto simp: u_def)
    with Cons.IH [OF step(1)] Cons.prems(2,3) step(2) dr Some show ?thesis
      by (simp add: u_def contrib_def)
  qed
qed simp

lemma two_thirds: "0 \<le> (t :: int) \<Longrightarrow> go_div (2 * t) 3 < x \<Longrightarrow> 2 * t < 3 * x"
  by (cases "t = 0") (auto simp: go_div_def sgn_if)

section \<open>Properties\<close>

text \<open>
  C26: A validator set, which is a sorted list searched by bisection, behaves as a finite map from
  addresses to validators: looking up, adding, updating and removing agree with the map, report
  whether the address was there, and keep the list sorted.
\<close>

theorem validator_set_refines_map:
  assumes "vs_ok vs"
  shows "map_option snd (GetByAddress a vs) = vs_map vs a \<and>
    (let (added, vs') = vs_Add v vs in
       vs_ok vs' \<and> added = (vs_map vs (val_Address v) = None) \<and>
       vs_map vs' = (if added then (vs_map vs)(val_Address v \<mapsto> v) else vs_map vs)) \<and>
    (let (updated, vs') = vs_Update v vs in
       vs_ok vs' \<and> updated = (vs_map vs (val_Address v) \<noteq> None) \<and>
       vs_map vs' = (if updated then (vs_map vs)(val_Address v \<mapsto> v) else vs_map vs)) \<and>
    (let (old, vs') = vs_Remove a vs in
       vs_ok vs' \<and> old = vs_map vs a \<and> vs_map vs' = (vs_map vs)(a := None))"
  using validators.get [OF assms] validators.add_inv [OF assms] validators.add_res [OF assms]
    validators.add_abs [OF assms] validators.upd_inv [OF assms] validators.upd_res [OF assms]
    validators.upd_abs [OF assms] validators.rem_inv [OF assms] validators.rem_res [OF assms]
    validators.rem_abs [OF assms]
  by (simp add: case_prod_beta Let_def vs_get_def)

definition sample_val :: "byte \<Rightarrow> int \<Rightarrow> Validator" where
  "sample_val b p = \<lparr> val_Address = [b], val_PubKey = [b], val_BondHeight = 1, val_UnbondHeight = 0,
     val_LastCommitHeight = 0, val_VotingPower = p, val_Accum = 0 \<rparr>"

definition sample_set :: ValidatorSet where
  "sample_set = \<lparr> Validators = [sample_val 1 5, sample_val 4 2], vs_proposer = None, vs_totalVotingPower = 0 \<rparr>"

lemma sample_set_ok: "vs_ok sample_set"
  by (simp add: vs_ok_def sample_set_def by_address_def sample_val_def list_less_def)

theorem validator_set_refines_map_witness:
  "vs_map (snd (vs_Remove [4] (snd (vs_Add (sample_val 3 7) sample_set)))) [3] = Some (sample_val 3 7)"
proof -
  have ok: "vs_ok (snd (vs_Add (sample_val 3 7) sample_set))" and
    m: "vs_map (snd (vs_Add (sample_val 3 7) sample_set)) = (vs_map sample_set)([3] \<mapsto> sample_val 3 7)"
    using validator_set_refines_map [OF sample_set_ok, of "[3]" "sample_val 3 7"]
    by (simp_all add: case_prod_beta Let_def sample_val_def vs_map_def sample_set_def)
  then show ?thesis
    using validator_set_refines_map [OF ok, of "[4]" "sample_val 3 7"]
    by (simp add: case_prod_beta Let_def)
qed

text \<open>
  C4: A commit that \<open>VerifyValidation\<close> accepts is signed by more than two thirds of the voting power:
  every precommit in it is for the given height and one round and carries the signature of the
  validator at its index, and the validators whose precommits are for this block hold more than
  two thirds of the total.
\<close>

theorem VerifyValidation_two_thirds:
  assumes "VerifyValidation W chainID hash parts height ps vs = Ok ()" "powers_ok (Validators vs)"
    and "vs_totalVotingPower vs \<in> {0, powers (Validators vs)}"
  shows "\<exists>round. list_all2 (signed_precommit W chainID height round) (Validators vs) ps \<and>
    2 * powers (Validators vs) < 3 * sum_list (map2 (contrib hash parts) (Validators vs) ps)"
proof -
  have nn: "\<forall>v\<in>set (Validators vs). 0 \<le> val_VotingPower v" and le: "2 * powers (Validators vs) \<le> MaxInt64"
    using assms(2) by (auto simp: powers_ok_def)
  have pos: "0 \<le> powers (Validators vs)" using nn by (rule powers_nonneg)
  have total: "fst (TotalVotingPower vs) = powers (Validators vs)"
    using assms(3) sum_power_eq [OF nn, of 0] le pos by (auto simp: TotalVotingPower_def Let_def)
  have wrap: "wrap64 (powers (Validators vs) * 2) = 2 * powers (Validators vs)"
    using le pos by (subst wrap64_id) (auto simp: int64_simps)
  from assms(1) obtain round t where "length ps = length (Validators vs)"
    and t: "tally W chainID hash parts height round 0 vs ps 0 = Ok t"
    and q: "t > go_div (wrap64 (fst (TotalVotingPower vs) * 2)) 3"
    by (auto simp: VerifyValidation_def vs_Size_def Let_def obind_eq_Ok split: if_splits)
  then have "t = sum_list (map2 (contrib hash parts) (Validators vs) ps) \<and>
      list_all2 (signed_precommit W chainID height round) (Validators vs) ps"
    using tally_Ok [OF t] nn le pos by simp
  moreover have "2 * powers (Validators vs) < 3 * t"
    using q total wrap pos by (intro two_thirds) simp_all
  ultimately show ?thesis by blast
qed

definition sample_vote :: Vote where
  "sample_vote = \<lparr> vote_Height = 1, vote_Round = 0, vote_Type = 2, vote_BlockHash = [9],
     vote_BlockPartsHeader = \<lparr> Total = 1, psh_Hash = [] \<rparr>, vote_Signature = [] \<rparr>"

definition sample_keys :: wire_env where
  "sample_keys = \<lparr> jsonEscape = (\<lambda>s. s), JSON_PubKey = (\<lambda>_. []), JSON_PermArgs = (\<lambda>_. []), MakePublicKey = (\<lambda>s. s),
     PubKey_Address = (\<lambda>k. take 20 k), ed25519_Sign = (\<lambda>k m. []), ed25519_Verify = (\<lambda>k m g. True),
     BinaryRipemd160 = (\<lambda>_. []), Ripemd160 = (\<lambda>_. []) \<rparr>"

theorem VerifyValidation_two_thirds_witness:
  "2 * powers (Validators sample_set) <
     3 * sum_list (map2 (contrib [9] \<lparr> Total = 1, psh_Hash = [] \<rparr>) (Validators sample_set) [Some sample_vote, None])"
proof -
  have "VerifyValidation sample_keys ''c'' [9] \<lparr> Total = 1, psh_Hash = [] \<rparr> 1 [Some sample_vote, None] sample_set = Ok ()"
    by (simp add: VerifyValidation_def vs_Size_def sample_set_def Validation_Height_def Validation_Round_def
        FirstPrecommit_def deref_def sample_vote_def VoteTypePrecommit_def GetByIndex_def sample_keys_def
        sample_val_def TotalVotingPower_def sum_power_def go_div_def wrap64_def Let_def)
  moreover have "powers_ok (Validators sample_set)"
    by (simp add: powers_ok_def sample_set_def sample_val_def int64_simps)
  moreover have "vs_totalVotingPower sample_set \<in> {0, powers (Validators sample_set)}"
    by (simp add: sample_set_def)
  ultimately show ?thesis using VerifyValidation_two_thirds by blast
qed

text \<open>
  A commit without any precommit is not rejected with an error: reading its height dereferences
  the first precommit, which is nil, and panics.
\<close>

theorem nil_precommits_panic:
  assumes "ps \<noteq> []" "list_all (\<lambda>p. p = None) ps"
  shows "Validation_ValidateBasic ps = Panic ''nil pointer dereference''"
proof -
  have "find (\<lambda>p. p \<noteq> None) ps = None"
    using assms(2) by (induction ps) auto
  with assms(1) show ?thesis
    by (simp add: Validation_ValidateBasic_def Validation_Height_def FirstPrecommit_def deref_def)
qed

theorem nil_precommits_panic_witness:
  "Validation_ValidateBasic [None, None] = Panic ''nil pointer dereference''"
  using nil_precommits_panic [of "[None, None]"] by simp

text \<open>Only six bytes of the hash of the parts are signed.\<close>

lemma Vote_SignBytes_six_bytes:
  assumes "take 6 a = take 6 b" "6 \<le> length a" "6 \<le> length b"
  shows "Vote_SignBytes c (v\<lparr> vote_BlockPartsHeader := \<lparr> Total = n, psh_Hash = a \<rparr> \<rparr>) =
         Vote_SignBytes c (v\<lparr> vote_BlockPartsHeader := \<lparr> Total = n, psh_Hash = b \<rparr> \<rparr>)"
  using assms by (simp add: Vote_SignBytes_def PartSetHeader_String_def Fingerprint_def)

end
