(* ===== verification/Ledger_State.thy ===== *)
theory Ledger_State
  imports Permissions Validator_Set "HOL-Library.Char_ord"
begin

text \<open>
  The consensus state of the Tendermint node (the vendored \<open>state/state.go\<close>): the last block, the
  validators, and three Merkle trees with the accounts, the validator infos and the names. A tree
  is an association list in the order of its keys, as its \<open>Iterate\<close> visits them; values read from
  it and stored in it are copies. The storage of an account is found by its root with
  \<open>LoadStorage\<close>. The root hash of a tree depends on its shape, and so on the order in which it was
  written: the state also keeps the writes to each tree, which the code does not do, so that the hash
  can be given by them. A time is counted in nanoseconds since 1970.
\<close>

text \<open>The writes to a tree, the last one at the end; no value stands for the removal of the key.\<close>

type_synonym ('k, 'v) tree_writes = "('k \<times> 'v option) list"

record State =
  ChainID :: string
  LastBlockHeight :: int
  LastBlockHash :: bytes
  LastBlockParts :: PartSetHeader
  LastBlockTime :: int
  BondedValidators :: ValidatorSet
  LastBondedValidators :: ValidatorSet
  UnbondingValidators :: ValidatorSet
  st_accounts :: "(bytes, Account) gomap"
  st_validatorInfos :: "(bytes, ValidatorInfo) gomap"
  st_nameReg :: "(string, NameRegEntry) gomap"
  LoadStorage :: "bytes \<Rightarrow> (bytes, bytes) gomap"
  accounts_writes :: "(bytes, Account) tree_writes"
  infos_writes :: "(bytes, ValidatorInfo) tree_writes"
  names_writes :: "(string, NameRegEntry) tree_writes"

text \<open>The seconds of a time (\<open>Time.Unix\<close>).\<close>

definition Unix :: "int \<Rightarrow> int" where
  "Unix t = t div 1000000000"

section \<open>Trees\<close>

fun tree_Set :: "'k::linorder \<Rightarrow> 'v \<Rightarrow> ('k, 'v) gomap \<Rightarrow> ('k, 'v) gomap" where
  "tree_Set k v [] = [(k, v)]"
| "tree_Set k v ((k', v') # m) =
     (if k = k' then (k, v) # m
      else if k < k' then (k, v) # (k', v') # m
      else (k', v') # tree_Set k v m)"

definition tree_Remove :: "'k::linorder \<Rightarrow> ('k, 'v) gomap \<Rightarrow> bool \<times> ('k, 'v) gomap" where
  "tree_Remove k m = (map_of m k \<noteq> None, AList.delete k m)"

definition tree_ok :: "('k::linorder, 'v) gomap \<Rightarrow> bool" where
  "tree_ok m \<longleftrightarrow> sorted_wrt (<) (map fst m)"

lemma map_of_tree_Set [simp]: "map_of (tree_Set k v m) = (map_of m)(k \<mapsto> v)"
  by (induction k v m rule: tree_Set.induct) (auto simp: fun_eq_iff)

lemma keys_tree_Set: "set (map fst (tree_Set k v m)) = insert k (set (map fst m))"
  by (induction k v m rule: tree_Set.induct) auto

lemma tree_ok_Set: "tree_ok m \<Longrightarrow> tree_ok (tree_Set k v m)"
proof (induction k v m rule: tree_Set.induct)
  case (2 k v k' v' m)
  then show ?case
    using keys_tree_Set [of k v m] by (auto simp: tree_ok_def)
qed (simp add: tree_ok_def)

lemma tree_ok_Remove: "tree_ok m \<Longrightarrow> tree_ok (snd (tree_Remove k m))"
proof -
  have "sorted_wrt (<) (map fst m) \<Longrightarrow> sorted_wrt (<) (map fst (AList.delete k m))" for m :: "('a, 'b) gomap"
    by (induction m) (auto simp: AList.delete_eq)
  then show "tree_ok m \<Longrightarrow> tree_ok (snd (tree_Remove k m))"
    by (simp add: tree_ok_def tree_Remove_def)
qed

lemma map_of_tree_Remove [simp]: "map_of (snd (tree_Remove k m)) = (map_of m)(k := None)"
  by (simp add: tree_Remove_def delete_conv')

section \<open>Accounts\<close>

definition GetGasLimit :: "State \<Rightarrow> int" where
  "GetGasLimit s = 1000000"

definition State_GetAccount :: "State \<Rightarrow> bytes \<Rightarrow> Account option" where
  "State_GetAccount st address = map_of (st_accounts st) address"

definition State_UpdateAccount :: "Account \<Rightarrow> State \<Rightarrow> State" where
  "State_UpdateAccount acc s =
     s\<lparr> st_accounts := tree_Set (acc_Address acc) acc (st_accounts s),
        accounts_writes := accounts_writes s @ [(acc_Address acc, Some acc)] \<rparr>"

definition State_RemoveAccount :: "bytes \<Rightarrow> State \<Rightarrow> bool \<times> State" where
  "State_RemoveAccount address s =
     (let (removed, t) = tree_Remove address (st_accounts s) in
      (removed, s\<lparr> st_accounts := t, accounts_writes := accounts_writes s @ [(address, None)] \<rparr>))"

section \<open>Names\<close>

definition State_GetNameRegEntry :: "State \<Rightarrow> string \<Rightarrow> NameRegEntry option" where
  "State_GetNameRegEntry st name = map_of (st_nameReg st) name"

definition State_UpdateNameRegEntry :: "NameRegEntry \<Rightarrow> State \<Rightarrow> State" where
  "State_UpdateNameRegEntry entry s =
     s\<lparr> st_nameReg := tree_Set (nre_Name entry) entry (st_nameReg s),
        names_writes := names_writes s @ [(nre_Name entry, Some entry)] \<rparr>"

definition State_RemoveNameRegEntry :: "string \<Rightarrow> State \<Rightarrow> bool \<times> State" where
  "State_RemoveNameRegEntry name s =
     (let (removed, t) = tree_Remove name (st_nameReg s) in
      (removed, s\<lparr> st_nameReg := t, names_writes := names_writes s @ [(name, None)] \<rparr>))"

section \<open>Validators\<close>

definition GetValidatorInfo :: "State \<Rightarrow> bytes \<Rightarrow> ValidatorInfo option" where
  "GetValidatorInfo s address = map_of (st_validatorInfos s) address"

definition SetValidatorInfo :: "ValidatorInfo \<Rightarrow> State \<Rightarrow> State" where
  "SetValidatorInfo valInfo s =
     s\<lparr> st_validatorInfos := tree_Set (vi_Address valInfo) valInfo (st_validatorInfos s),
        infos_writes := infos_writes s @ [(vi_Address valInfo, Some valInfo)] \<rparr>"

definition next_height :: "State \<Rightarrow> int" where
  "next_height s = wrap64 (LastBlockHeight s + 1)"

definition unbondValidator :: "Validator \<Rightarrow> State \<Rightarrow> State outcome" where
  "unbondValidator val s =
     (case vs_Remove (val_Address val) (BondedValidators s) of
        (None, _) \<Rightarrow> Panic ''Couldn't remove validator for unbonding''
      | (Some v, bonded) \<Rightarrow>
          (let (added, unbonding) = vs_Add (v\<lparr> val_UnbondHeight := next_height s \<rparr>) (UnbondingValidators s) in
           if \<not> added then Panic ''Couldn't add validator for unbonding''
           else Ok (s\<lparr> BondedValidators := bonded, UnbondingValidators := unbonding \<rparr>)))"

definition rebondValidator :: "Validator \<Rightarrow> State \<Rightarrow> State outcome" where
  "rebondValidator val s =
     (case vs_Remove (val_Address val) (UnbondingValidators s) of
        (None, _) \<Rightarrow> Panic ''Couldn't remove validator for rebonding''
      | (Some v, unbonding) \<Rightarrow>
          (let (added, bonded) = vs_Add (v\<lparr> val_BondHeight := next_height s \<rparr>) (BondedValidators s) in
           if \<not> added then Panic ''Couldn't add validator for rebonding''
           else Ok (s\<lparr> UnbondingValidators := unbonding, BondedValidators := bonded \<rparr>)))"

definition destroyValidator :: "Validator \<Rightarrow> State \<Rightarrow> State outcome" where
  "destroyValidator val s =
     (case GetValidatorInfo s (val_Address val) of
        None \<Rightarrow> Panic ''Couldn't find validatorInfo for release''
      | Some valInfo \<Rightarrow>
          (let s1 = SetValidatorInfo (valInfo\<lparr> vi_DestroyedHeight := next_height s,
                                               vi_DestroyedAmount := val_VotingPower val \<rparr>) s in
           case vs_Remove (val_Address val) (BondedValidators s1) of
             (Some _, bonded) \<Rightarrow> Ok (s1\<lparr> BondedValidators := bonded \<rparr>)
           | (None, _) \<Rightarrow>
               (case vs_Remove (val_Address val) (UnbondingValidators s1) of
                  (Some _, unbonding) \<Rightarrow> Ok (s1\<lparr> UnbondingValidators := unbonding \<rparr>)
                | (None, _) \<Rightarrow> Panic ''Couldn't remove validator for destruction'')))"

section \<open>The validators of a state\<close>

text \<open>No validator is bonded and unbonding at once.\<close>

definition validators_ok :: "State \<Rightarrow> bool" where
  "validators_ok s \<longleftrightarrow>
     vs_ok (BondedValidators s) \<and> vs_ok (UnbondingValidators s) \<and>
     dom (vs_map (BondedValidators s)) \<inter> dom (vs_map (UnbondingValidators s)) = {}"

text \<open>
  Unbonding a bonded validator and rebonding an unbonding one never panic in a state whose two
  validator sets are sorted and disjoint; they move the validator to the other set with the new
  height, touch nobody else, and keep the sets sorted and disjoint.
\<close>

theorem unbond_rebond_move:
  assumes "validators_ok s"
  shows "pred_option (\<lambda>v. \<exists>t. unbondValidator val s = Ok t \<and> validators_ok t \<and>
           vs_map (BondedValidators t) = (vs_map (BondedValidators s))(val_Address val := None) \<and>
           vs_map (UnbondingValidators t) =
             (vs_map (UnbondingValidators s))(val_Address val \<mapsto> v\<lparr> val_UnbondHeight := next_height s \<rparr>))
         (vs_map (BondedValidators s) (val_Address val)) \<and>
         pred_option (\<lambda>v. \<exists>t. rebondValidator val s = Ok t \<and> validators_ok t \<and>
           vs_map (UnbondingValidators t) = (vs_map (UnbondingValidators s))(val_Address val := None) \<and>
           vs_map (BondedValidators t) =
             (vs_map (BondedValidators s))(val_Address val \<mapsto> v\<lparr> val_BondHeight := next_height s \<rparr>))
         (vs_map (UnbondingValidators s) (val_Address val))"
proof (intro conjI)
  have ok: "vs_ok (BondedValidators s)" "vs_ok (UnbondingValidators s)"
    "dom (vs_map (BondedValidators s)) \<inter> dom (vs_map (UnbondingValidators s)) = {}"
    "dom (vs_map (UnbondingValidators s)) \<inter> dom (vs_map (BondedValidators s)) = {}"
    using assms by (auto simp: validators_ok_def)
  show "pred_option (\<lambda>v. \<exists>t. unbondValidator val s = Ok t \<and> validators_ok t \<and>
           vs_map (BondedValidators t) = (vs_map (BondedValidators s))(val_Address val := None) \<and>
           vs_map (UnbondingValidators t) =
             (vs_map (UnbondingValidators s))(val_Address val \<mapsto> v\<lparr> val_UnbondHeight := next_height s \<rparr>))
         (vs_map (BondedValidators s) (val_Address val))"
  proof (cases "vs_map (BondedValidators s) (val_Address val)")
    case (Some v)
    note m = validators.move [OF ok(1,2,3) Some _ refl refl, of "\<lambda>v. v\<lparr> val_UnbondHeight := next_height s \<rparr>"]
    show ?thesis
      using m Some by (simp add: unbondValidator_def validators_ok_def case_prod_beta Let_def option.case_eq_if)
  qed simp
  show "pred_option (\<lambda>v. \<exists>t. rebondValidator val s = Ok t \<and> validators_ok t \<and>
           vs_map (UnbondingValidators t) = (vs_map (UnbondingValidators s))(val_Address val := None) \<and>
           vs_map (BondedValidators t) =
             (vs_map (BondedValidators s))(val_Address val \<mapsto> v\<lparr> val_BondHeight := next_height s \<rparr>))
         (vs_map (UnbondingValidators s) (val_Address val))"
  proof (cases "vs_map (UnbondingValidators s) (val_Address val)")
    case (Some v)
    note m = validators.move [OF ok(2,1,4) Some _ refl refl, of "\<lambda>v. v\<lparr> val_BondHeight := next_height s \<rparr>"]
    show ?thesis
      using m Some by (simp add: rebondValidator_def validators_ok_def case_prod_beta Let_def option.case_eq_if) blast
  qed simp
qed

definition sample_validators :: State where
  "sample_validators =
     \<lparr> ChainID = ''c'', LastBlockHeight = 7, LastBlockHash = [], LastBlockParts = \<lparr> Total = 0, psh_Hash = [] \<rparr>,
       LastBlockTime = 0, BondedValidators = sample_set, LastBondedValidators = sample_set,
       UnbondingValidators = \<lparr> Validators = [], vs_proposer = None, vs_totalVotingPower = 0 \<rparr>, st_accounts = [],
       st_validatorInfos = [], st_nameReg = [], LoadStorage = (\<lambda>_. []), accounts_writes = [], infos_writes = [],
       names_writes = [] \<rparr>"

theorem unbond_rebond_move_witness:
  "\<exists>t. unbondValidator (hd (Validators sample_set)) sample_validators = Ok t \<and> validators_ok t"
proof -
  have "validators_ok sample_validators"
    by (simp add: sample_validators_def validators_ok_def vs_ok_def by_address_def list_less_def
        sample_set_def sample_val_def vs_map_def)
  from unbond_rebond_move [OF this, of "hd (Validators sample_set)"] show ?thesis
    by (auto simp: sample_validators_def sample_set_def vs_map_def)
qed

end
