(* ===== verification/Block_Cache.thy ===== *)
theory Block_Cache
  imports Ledger_State "HOL-Library.Product_Lexorder"
begin

text \<open>
  The block cache (the vendored \<open>state/block_cache.go\<close>): what the transactions of a block read and
  write before \<open>Sync\<close> writes it to the ledger state.

  \<open>GetAccount\<close> and \<open>GetNameRegEntry\<close> return pointers into the cache, and the code changes the objects
  behind them. Such a write is \<open>poke\<close>, which replaces the object of a slot and leaves its flags
  alone. A storage tree is a sorted map; saving it gives its root hash, which is the parameter
  \<open>tree_Save\<close>, and makes the tree loadable by that root.
\<close>

section \<open>Data\<close>

type_synonym word256 = bytes

definition Zero256 :: word256 where
  "Zero256 = replicate 32 0"

definition Postfix20 :: "word256 \<Rightarrow> bytes" where
  "Postfix20 w = drop (length w - 20) w"

definition word_IsZero :: "word256 \<Rightarrow> bool" where
  "word_IsZero w \<longleftrightarrow> foldl (OR) 0 w = 0"

type_synonym storage_tree = "(bytes, bytes) gomap"

record accountInfo =
  ai_account :: "Account option"
  ai_storage :: "storage_tree option"
  ai_removed :: bool
  ai_dirty :: bool

record storageInfo =
  si_value :: word256
  si_dirty :: bool

record nameInfo =
  ni_name :: "NameRegEntry option"
  ni_removed :: bool
  ni_dirty :: bool

record BlockCache =
  bc_backend :: State
  bc_accounts :: "(bytes, accountInfo) gomap"
  bc_storages :: "(word256 \<times> word256, storageInfo) gomap"
  bc_names :: "(string, nameInfo) gomap"

definition NewBlockCache :: "State \<Rightarrow> BlockCache" where
  "NewBlockCache backend =
     \<lparr> bc_backend = backend, bc_accounts = [], bc_storages = [], bc_names = [] \<rparr>"

text \<open>A map lookup in Go gives the zero value for a missing key.\<close>

definition account_info :: "BlockCache \<Rightarrow> bytes \<Rightarrow> accountInfo" where
  "account_info c addr =
     (case map_of (bc_accounts c) addr of
        None \<Rightarrow> \<lparr> ai_account = None, ai_storage = None, ai_removed = False, ai_dirty = False \<rparr>
      | Some info \<Rightarrow> info)"

definition name_info :: "BlockCache \<Rightarrow> string \<Rightarrow> nameInfo" where
  "name_info c name =
     (case map_of (bc_names c) name of
        None \<Rightarrow> \<lparr> ni_name = None, ni_removed = False, ni_dirty = False \<rparr>
      | Some info \<Rightarrow> info)"

definition set_account_info :: "bytes \<Rightarrow> accountInfo \<Rightarrow> BlockCache \<Rightarrow> BlockCache" where
  "set_account_info addr info c = c\<lparr> bc_accounts := AList.update addr info (bc_accounts c) \<rparr>"

definition set_name_info :: "string \<Rightarrow> nameInfo \<Rightarrow> BlockCache \<Rightarrow> BlockCache" where
  "set_name_info name info c = c\<lparr> bc_names := AList.update name info (bc_names c) \<rparr>"

section \<open>Accounts\<close>

definition bc_GetAccount :: "bytes \<Rightarrow> BlockCache \<Rightarrow> Account option \<times> BlockCache" where
  "bc_GetAccount addr c =
     (let info = account_info c addr in
      if ai_removed info then (None, c)
      else case ai_account info of
        Some acc \<Rightarrow> (Some acc, c)
      | None \<Rightarrow>
          (let acc = State_GetAccount (bc_backend c) addr in
           (acc, set_account_info addr
              \<lparr> ai_account = acc, ai_storage = None, ai_removed = False, ai_dirty = False \<rparr> c)))"

definition poke :: "bytes \<Rightarrow> Account \<Rightarrow> BlockCache \<Rightarrow> BlockCache" where
  "poke addr acc c = set_account_info addr ((account_info c addr)\<lparr> ai_account := Some acc \<rparr>) c"

definition bc_UpdateAccount :: "Account \<Rightarrow> BlockCache \<Rightarrow> BlockCache outcome" where
  "bc_UpdateAccount acc c =
     (let info = account_info c (acc_Address acc) in
      if ai_removed info then Panic ''UpdateAccount on a removed account''
      else Ok (set_account_info (acc_Address acc)
                 \<lparr> ai_account = Some acc, ai_storage = ai_storage info, ai_removed = False, ai_dirty = True \<rparr> c))"

definition bc_RemoveAccount :: "bytes \<Rightarrow> BlockCache \<Rightarrow> BlockCache outcome" where
  "bc_RemoveAccount addr c =
     (if ai_removed (account_info c addr) then Panic ''RemoveAccount on a removed account''
      else Ok (set_account_info addr
                 \<lparr> ai_account = None, ai_storage = None, ai_removed = True, ai_dirty = False \<rparr> c))"

section \<open>Storage\<close>

definition bc_GetStorage :: "word256 \<Rightarrow> word256 \<Rightarrow> BlockCache \<Rightarrow> (word256 \<times> BlockCache) outcome" where
  "bc_GetStorage addr key c =
     (case map_of (bc_storages c) (addr, key) of
        Some info \<Rightarrow> Ok (si_value info, c)
      | None \<Rightarrow>
          (let info = account_info c (Postfix20 addr) in
           if ai_removed info then Panic ''GetStorage() on removed account''
           else case ai_account info of
             None \<Rightarrow> Ok (Zero256, c)
           | Some acc \<Rightarrow>
               (let storage = (case ai_storage info of
                                 None \<Rightarrow> LoadStorage (bc_backend c) (acc_StorageRoot acc)
                               | Some t \<Rightarrow> t);
                    c1 = (if ai_storage info = None
                          then set_account_info (Postfix20 addr)
                                 \<lparr> ai_account = Some acc, ai_storage = Some storage, ai_removed = False,
                                   ai_dirty = ai_dirty info \<rparr> c
                          else c) in
                obind (case map_of storage key of None \<Rightarrow> Ok Zero256 | Some val \<Rightarrow> LeftPadWord256 val)
                  (\<lambda>value. Ok (value, c1\<lparr> bc_storages :=
                     AList.update (addr, key) \<lparr> si_value = value, si_dirty = False \<rparr> (bc_storages c1) \<rparr>)))))"

definition bc_SetStorage :: "word256 \<Rightarrow> word256 \<Rightarrow> word256 \<Rightarrow> BlockCache \<Rightarrow> BlockCache outcome" where
  "bc_SetStorage addr key value c =
     (if ai_removed (account_info c (Postfix20 addr)) then Panic ''SetStorage() on a removed account''
      else Ok (c\<lparr> bc_storages :=
                 AList.update (addr, key) \<lparr> si_value = value, si_dirty = True \<rparr> (bc_storages c) \<rparr>))"

section \<open>Names\<close>

definition bc_GetNameRegEntry :: "string \<Rightarrow> BlockCache \<Rightarrow> NameRegEntry option \<times> BlockCache" where
  "bc_GetNameRegEntry name c =
     (let info = name_info c name in
      if ni_removed info then (None, c)
      else case ni_name info of
        Some entry \<Rightarrow> (Some entry, c)
      | None \<Rightarrow>
          (let entry = State_GetNameRegEntry (bc_backend c) name in
           (entry, set_name_info name \<lparr> ni_name = entry, ni_removed = False, ni_dirty = False \<rparr> c)))"

definition bc_UpdateNameRegEntry :: "NameRegEntry \<Rightarrow> BlockCache \<Rightarrow> BlockCache" where
  "bc_UpdateNameRegEntry entry c =
     set_name_info (nre_Name entry) \<lparr> ni_name = Some entry, ni_removed = False, ni_dirty = True \<rparr> c"

definition bc_RemoveNameRegEntry :: "string \<Rightarrow> BlockCache \<Rightarrow> BlockCache outcome" where
  "bc_RemoveNameRegEntry name c =
     (if ni_removed (name_info c name) then Panic ''RemoveNameRegEntry on a removed entry''
      else Ok (set_name_info name \<lparr> ni_name = None, ni_removed = True, ni_dirty = False \<rparr> c))"

section \<open>Sync\<close>

text \<open>
  The cursor of the loop over the storage writes, which come in the order of their keys. The tree
  it holds may be the one in the account's slot (\<open>cur_shared\<close>), and then a change is visible there,
  or one that was loaded for the loop only.
\<close>

record sync_cursor =
  cur_addr :: word256
  cur_acc :: "Account option"
  cur_removed :: bool
  cur_storage :: storage_tree
  cur_shared :: bool

definition load_cursor :: "word256 \<Rightarrow> BlockCache \<Rightarrow> sync_cursor outcome" where
  "load_cursor addr c =
     (let info = account_info c (Postfix20 addr);
          cursor = (\<lambda>t sh. Ok \<lparr> cur_addr = addr, cur_acc = ai_account info, cur_removed = ai_removed info,
                                cur_storage = t, cur_shared = sh \<rparr>) in
      case ai_storage info of
        Some t \<Rightarrow> cursor t True
      | None \<Rightarrow>
          (if ai_removed info then cursor [] False
           else case ai_account info of
             None \<Rightarrow> Panic ''nil pointer dereference''
           | Some acc \<Rightarrow> cursor (LoadStorage (bc_backend c) (acc_StorageRoot acc)) False))"

definition sync_write ::
  "word256 \<Rightarrow> word256 \<Rightarrow> word256 \<Rightarrow> sync_cursor \<Rightarrow> BlockCache \<Rightarrow> sync_cursor \<times> BlockCache" where
  "sync_write addr key value cur c =
     (let slot = Postfix20 addr in
      if word_IsZero value then
        (let t = snd (tree_Remove key (cur_storage cur)) in
         (cur\<lparr> cur_storage := t \<rparr>,
          if cur_shared cur
          then set_account_info slot ((account_info c slot)\<lparr> ai_storage := Some t \<rparr>) c
          else c))
      else
        (let t = tree_Set key value (cur_storage cur) in
         (cur\<lparr> cur_storage := t, cur_shared := True \<rparr>,
          set_account_info slot
            \<lparr> ai_account = cur_acc cur, ai_storage = Some t, ai_removed = False, ai_dirty = True \<rparr> c)))"

fun sync_storages ::
  "((word256 \<times> word256) \<times> storageInfo) list \<Rightarrow> sync_cursor \<Rightarrow> BlockCache \<Rightarrow> BlockCache outcome" where
  "sync_storages [] cur c = Ok c"
| "sync_storages (((addr, key), info) # ws) cur c =
     obind (if addr \<noteq> cur_addr cur \<or> cur_acc cur = None then load_cursor addr c else Ok cur) (\<lambda>cur.
       if cur_removed cur \<or> \<not> si_dirty info then sync_storages ws cur c
       else let (cur, c) = sync_write addr key (si_value info) cur c in sync_storages ws cur c)"

definition sync_account ::
  "(storage_tree \<Rightarrow> bytes) \<Rightarrow> bytes \<Rightarrow> accountInfo \<Rightarrow> State \<Rightarrow> State outcome" where
  "sync_account tree_Save addr info s =
     (if ai_removed info then
        (let (removed, s1) = State_RemoveAccount addr s in
         if removed then Ok s1
         else if ai_account info = None then Panic ''nil pointer dereference''
         else Panic (''Could not remove account to be removed: '' @ fmt_X addr))
      else case ai_account info of
        None \<Rightarrow> Ok s
      | Some acc \<Rightarrow>
          (case ai_storage info of
             None \<Rightarrow> Ok (if ai_dirty info then State_UpdateAccount acc s else s)
           | Some t \<Rightarrow>
               (let root = tree_Save t; s1 = s\<lparr> LoadStorage := (LoadStorage s)(root := t) \<rparr> in
                Ok (if ai_dirty info \<or> root \<noteq> acc_StorageRoot acc
                    then State_UpdateAccount (acc\<lparr> acc_StorageRoot := root \<rparr>) s1 else s1))))"

definition sync_name :: "string \<Rightarrow> nameInfo \<Rightarrow> State \<Rightarrow> State outcome" where
  "sync_name name info s =
     (if ni_removed info then
        (let (removed, s1) = State_RemoveNameRegEntry name s in
         if removed then Ok s1
         else Panic (''Could not remove namereg entry to be removed: '' @ name))
      else case ni_name info of
        None \<Rightarrow> Ok s
      | Some entry \<Rightarrow> Ok (if ni_dirty info then State_UpdateNameRegEntry entry s else s))"

fun each :: "('k \<Rightarrow> 'v \<Rightarrow> 's \<Rightarrow> 's outcome) \<Rightarrow> ('k \<times> 'v) list \<Rightarrow> 's \<Rightarrow> 's outcome" where
  "each f [] s = Ok s"
| "each f ((k, v) # kvs) s = obind (f k v s) (each f kvs)"

definition start_cursor :: sync_cursor where
  "start_cursor = \<lparr> cur_addr = Zero256, cur_acc = None, cur_removed = False, cur_storage = [], cur_shared = False \<rparr>"

definition bc_Sync :: "(storage_tree \<Rightarrow> bytes) \<Rightarrow> BlockCache \<Rightarrow> State outcome" where
  "bc_Sync tree_Save c =
     obind (sync_storages (sort_key fst (bc_storages c)) start_cursor c) (\<lambda>c.
     obind (each (sync_account tree_Save) (sort_key fst (bc_accounts c)) (bc_backend c)) (\<lambda>s.
     each sync_name (sort_key fst (bc_names c)) s))"

section \<open>The ledger a cache shows\<close>

text \<open>
  What the transactions of the block see: the cache's own value where it has one, else the value
  of the state behind it.
\<close>

definition bc_view :: "BlockCache \<Rightarrow> bytes \<Rightarrow> Account option" where
  "bc_view c addr =
     (let info = account_info c addr in
      if ai_removed info then None
      else case ai_account info of Some acc \<Rightarrow> Some acc | None \<Rightarrow> State_GetAccount (bc_backend c) addr)"

definition name_view :: "BlockCache \<Rightarrow> string \<Rightarrow> NameRegEntry option" where
  "name_view c name =
     (let info = name_info c name in
      if ni_removed info then None
      else case ni_name info of Some entry \<Rightarrow> Some entry | None \<Rightarrow> State_GetNameRegEntry (bc_backend c) name)"

text \<open>
  The word a contract finds in a slot of its storage: the cached word, else the one in the tree of its
  account, which is the tree in the account's slot once it was loaded there.
\<close>

definition account_tree :: "BlockCache \<Rightarrow> bytes \<Rightarrow> Account \<Rightarrow> storage_tree" where
  "account_tree c addr acc =
     (let info = account_info c addr in
      case ai_storage info of
        Some t \<Rightarrow> if ai_account info = None then LoadStorage (bc_backend c) (acc_StorageRoot acc) else t
      | None \<Rightarrow> LoadStorage (bc_backend c) (acc_StorageRoot acc))"

definition storage_view :: "BlockCache \<Rightarrow> word256 \<Rightarrow> word256 \<Rightarrow> word256 outcome" where
  "storage_view c addr key =
     (case map_of (bc_storages c) (addr, key) of
        Some info \<Rightarrow> Ok (si_value info)
      | None \<Rightarrow>
          (case bc_view c (Postfix20 addr) of
             None \<Rightarrow> Ok Zero256
           | Some acc \<Rightarrow>
               (case map_of (account_tree c (Postfix20 addr) acc) key of
                  None \<Rightarrow> Ok Zero256
                | Some val \<Rightarrow> LeftPadWord256 val)))"

text \<open>The words that \<open>Sync\<close> has to write.\<close>

definition pending_write :: "BlockCache \<Rightarrow> word256 \<times> word256 \<Rightarrow> word256 option" where
  "pending_write c slot =
     (case map_of (bc_storages c) slot of
        None \<Rightarrow> None
      | Some info \<Rightarrow> if si_dirty info then Some (si_value info) else None)"

text \<open>
  The invariant of a cache: slots are filed under the address of their account, and a slot that is
  neither dirty nor removed agrees with the state.
\<close>

definition info_ok :: "State \<Rightarrow> bytes \<Rightarrow> accountInfo \<Rightarrow> bool" where
  "info_ok s addr info \<longleftrightarrow>
     (\<forall>acc. ai_account info = Some acc \<longrightarrow> acc_Address acc = addr) \<and>
     (ai_removed info \<longrightarrow> ai_account info = None) \<and>
     (ai_dirty info \<longrightarrow> ai_account info \<noteq> None) \<and>
     (\<not> ai_removed info \<longrightarrow> \<not> ai_dirty info \<longrightarrow> ai_account info = State_GetAccount s addr \<or> ai_account info = None)"

definition name_ok :: "State \<Rightarrow> string \<Rightarrow> nameInfo \<Rightarrow> bool" where
  "name_ok s name info \<longleftrightarrow>
     (\<forall>entry. ni_name info = Some entry \<longrightarrow> nre_Name entry = name) \<and>
     (ni_removed info \<longrightarrow> ni_name info = None) \<and>
     (\<not> ni_removed info \<longrightarrow> \<not> ni_dirty info \<longrightarrow> ni_name info = State_GetNameRegEntry s name \<or> ni_name info = None)"

definition state_ok :: "State \<Rightarrow> bool" where
  "state_ok s \<longleftrightarrow>
     (\<forall>addr acc. State_GetAccount s addr = Some acc \<longrightarrow> acc_Address acc = addr) \<and>
     (\<forall>name entry. State_GetNameRegEntry s name = Some entry \<longrightarrow> nre_Name entry = name)"

definition bc_ok :: "BlockCache \<Rightarrow> bool" where
  "bc_ok c \<longleftrightarrow>
     state_ok (bc_backend c) \<and> gomap_ok (bc_accounts c) \<and> gomap_ok (bc_names c) \<and>
     (\<forall>addr. info_ok (bc_backend c) addr (account_info c addr)) \<and>
     (\<forall>name. name_ok (bc_backend c) name (name_info c name))"

lemmas cache_maps = account_info_def name_info_def set_account_info_def set_name_info_def

lemma account_info_set [simp]:
  "account_info (set_account_info addr info c) = (account_info c)(addr := info)"
  "account_info (set_name_info name ni c) = account_info c"
  "account_info (c\<lparr> bc_storages := ss \<rparr>) = account_info c"
  by (auto simp: cache_maps fun_eq_iff)

lemma name_info_set [simp]:
  "name_info (set_name_info name ni c) = (name_info c)(name := ni)"
  "name_info (set_account_info addr info c) = name_info c"
  "name_info (c\<lparr> bc_storages := ss \<rparr>) = name_info c"
  by (auto simp: cache_maps fun_eq_iff)

lemma backend_set [simp]:
  "bc_backend (set_account_info addr info c) = bc_backend c"
  "bc_backend (set_name_info name ni c) = bc_backend c"
  by (simp_all add: set_account_info_def set_name_info_def)

lemma bc_ok_set_account:
  "bc_ok c \<Longrightarrow> info_ok (bc_backend c) addr info \<Longrightarrow> bc_ok (set_account_info addr info c)"
  by (auto simp: bc_ok_def) (auto simp: set_account_info_def)

lemma bc_ok_set_name:
  "bc_ok c \<Longrightarrow> name_ok (bc_backend c) name info \<Longrightarrow> bc_ok (set_name_info name info c)"
  by (auto simp: bc_ok_def) (auto simp: set_name_info_def)

lemma bc_ok_state_address: "bc_ok c \<Longrightarrow> State_GetAccount (bc_backend c) addr = Some acc \<Longrightarrow> acc_Address acc = addr"
  by (simp add: bc_ok_def state_ok_def)

lemma bc_ok_state_name: "bc_ok c \<Longrightarrow> State_GetNameRegEntry (bc_backend c) name = Some entry \<Longrightarrow> nre_Name entry = name"
  by (simp add: bc_ok_def state_ok_def)

lemma bc_ok_address: "bc_ok c \<Longrightarrow> bc_view c addr = Some acc \<Longrightarrow> acc_Address acc = addr"
  by (auto simp: bc_ok_def info_ok_def state_ok_def bc_view_def Let_def split: if_splits option.splits)

lemma bc_ok_name: "bc_ok c \<Longrightarrow> name_view c name = Some entry \<Longrightarrow> nre_Name entry = name"
  by (auto simp: bc_ok_def name_ok_def state_ok_def name_view_def Let_def split: if_splits option.splits)

lemma bc_ok_New: "state_ok s \<Longrightarrow> bc_ok (NewBlockCache s)"
  by (simp add: bc_ok_def NewBlockCache_def cache_maps info_ok_def name_ok_def)

lemma view_New: "bc_view (NewBlockCache s) = State_GetAccount s" "name_view (NewBlockCache s) = State_GetNameRegEntry s"
  by (simp_all add: bc_view_def name_view_def NewBlockCache_def cache_maps fun_eq_iff)

section \<open>Operations on the view\<close>

text \<open>Reading caches, but changes neither what the cache shows nor the state behind it.\<close>

lemma GetAccount_view [simp]: "fst (bc_GetAccount addr c) = bc_view c addr"
  by (simp add: bc_GetAccount_def bc_view_def Let_def split: option.split)

lemma GetAccount_keeps [simp]:
  "bc_view (snd (bc_GetAccount addr c)) = bc_view c"
  "name_view (snd (bc_GetAccount addr c)) = name_view c"
  "bc_backend (snd (bc_GetAccount addr c)) = bc_backend c"
  by (auto simp: bc_GetAccount_def bc_view_def name_view_def Let_def fun_eq_iff split: option.split)

lemma GetAccount_ok [simp]: "bc_ok c \<Longrightarrow> bc_ok (snd (bc_GetAccount addr c))"
  by (auto simp: bc_GetAccount_def Let_def info_ok_def intro!: bc_ok_set_account split: option.split
      dest: bc_ok_state_address)

lemma GetNameRegEntry_view [simp]: "fst (bc_GetNameRegEntry name c) = name_view c name"
  by (simp add: bc_GetNameRegEntry_def name_view_def Let_def split: option.split)

lemma GetNameRegEntry_keeps [simp]:
  "bc_view (snd (bc_GetNameRegEntry name c)) = bc_view c"
  "name_view (snd (bc_GetNameRegEntry name c)) = name_view c"
  "bc_backend (snd (bc_GetNameRegEntry name c)) = bc_backend c"
  by (auto simp: bc_GetNameRegEntry_def bc_view_def name_view_def Let_def fun_eq_iff split: option.split)

lemma GetNameRegEntry_ok [simp]: "bc_ok c \<Longrightarrow> bc_ok (snd (bc_GetNameRegEntry name c))"
  by (auto simp: bc_GetNameRegEntry_def Let_def name_ok_def intro!: bc_ok_set_name split: option.split
      dest: bc_ok_state_name)

text \<open>Writing changes the view at one key. An account is written after it was read.\<close>

lemma UpdateAccount_view:
  assumes "\<not> ai_removed (account_info c (acc_Address acc))"
  shows "\<exists>c'. bc_UpdateAccount acc c = Ok c' \<and> bc_view c' = (bc_view c)(acc_Address acc \<mapsto> acc) \<and>
           name_view c' = name_view c \<and> bc_backend c' = bc_backend c \<and>
           account_info c' = (account_info c)(acc_Address acc :=
             \<lparr> ai_account = Some acc, ai_storage = ai_storage (account_info c (acc_Address acc)),
               ai_removed = False, ai_dirty = True \<rparr>)"
  using assms by (auto simp: bc_UpdateAccount_def bc_view_def name_view_def Let_def fun_eq_iff split: option.split)

lemma UpdateAccount_ok [inv_intros]: "bc_ok c \<Longrightarrow> bc_UpdateAccount acc c = Ok c' \<Longrightarrow> bc_ok c'"
  by (auto simp: bc_UpdateAccount_def Let_def info_ok_def intro!: bc_ok_set_account split: if_splits)

lemma RemoveAccount_ok [inv_intros]: "bc_ok c \<Longrightarrow> bc_RemoveAccount addr c = Ok c' \<Longrightarrow> bc_ok c'"
  by (auto simp: bc_RemoveAccount_def info_ok_def intro!: bc_ok_set_account split: if_splits)

lemma RemoveAccount_view:
  "bc_RemoveAccount addr c = Ok c' \<Longrightarrow> bc_view c' = (bc_view c)(addr := None) \<and> name_view c' = name_view c"
  by (auto simp: bc_RemoveAccount_def bc_view_def name_view_def Let_def fun_eq_iff split: if_splits option.split)

lemma UpdateNameRegEntry_view [simp]:
  "name_view (bc_UpdateNameRegEntry entry c) = (name_view c)(nre_Name entry \<mapsto> entry)"
  "bc_view (bc_UpdateNameRegEntry entry c) = bc_view c"
  "bc_backend (bc_UpdateNameRegEntry entry c) = bc_backend c"
  "account_info (bc_UpdateNameRegEntry entry c) = account_info c"
  by (auto simp: bc_UpdateNameRegEntry_def bc_view_def name_view_def Let_def fun_eq_iff split: option.split)

lemma UpdateNameRegEntry_ok [inv_intros]: "bc_ok c \<Longrightarrow> bc_ok (bc_UpdateNameRegEntry entry c)"
  by (auto simp: bc_UpdateNameRegEntry_def name_ok_def intro!: bc_ok_set_name)

lemma RemoveNameRegEntry_view:
  "bc_RemoveNameRegEntry name c = Ok c' \<Longrightarrow>
     name_view c' = (name_view c)(name := None) \<and> bc_view c' = bc_view c \<and> bc_backend c' = bc_backend c \<and>
     account_info c' = account_info c"
  by (auto simp: bc_RemoveNameRegEntry_def bc_view_def name_view_def Let_def fun_eq_iff split: if_splits option.split)

lemma RemoveNameRegEntry_Ok:
  "name_view c name \<noteq> None \<Longrightarrow> \<exists>c'. bc_RemoveNameRegEntry name c = Ok c'"
  by (auto simp: bc_RemoveNameRegEntry_def name_view_def Let_def split: if_splits)

lemma RemoveNameRegEntry_ok [inv_intros]: "bc_ok c \<Longrightarrow> bc_RemoveNameRegEntry name c = Ok c' \<Longrightarrow> bc_ok c'"
  by (auto simp: bc_RemoveNameRegEntry_def name_ok_def intro!: bc_ok_set_name split: if_splits)

section \<open>What Sync writes\<close>

text \<open>
  A cache that can be written without a storage write: nothing is removed that the state does not have,
  the storage words it holds were only read, from accounts it has, and a tree that was loaded has the
  root of its account.
\<close>

definition sync_ready :: "(storage_tree \<Rightarrow> bytes) \<Rightarrow> BlockCache \<Rightarrow> bool" where
  "sync_ready tree_Save c \<longleftrightarrow>
     list_all (\<lambda>(addr, info).
       (ai_removed info \<longrightarrow> State_GetAccount (bc_backend c) addr \<noteq> None) \<and>
       pred_option (\<lambda>t. pred_option (\<lambda>acc. tree_Save t = acc_StorageRoot acc) (ai_account info)) (ai_storage info))
       (bc_accounts c) \<and>
     list_all (\<lambda>(name, info). ni_removed info \<longrightarrow> State_GetNameRegEntry (bc_backend c) name \<noteq> None) (bc_names c) \<and>
     list_all (\<lambda>((addr, key), info). \<not> si_dirty info \<and>
       (let acc = account_info c (Postfix20 addr) in ai_removed acc \<or> ai_account acc \<noteq> None)) (bc_storages c)"

lemma sync_storages_clean:
  assumes "\<forall>((addr, key), info) \<in> set ws. \<not> si_dirty info \<and>
    (let acc = account_info c (Postfix20 addr) in ai_removed acc \<or> ai_account acc \<noteq> None)"
  shows "sync_storages ws cur c = Ok c"
  using assms
proof (induction ws arbitrary: cur)
  case (Cons w ws)
  obtain addr key info where w: "w = ((addr, key), info)" by (metis surj_pair)
  then have clean: "\<not> si_dirty info"
    "ai_removed (account_info c (Postfix20 addr)) \<or> ai_account (account_info c (Postfix20 addr)) \<noteq> None"
    using Cons.prems by (auto simp: Let_def)
  then have "\<exists>cur'. load_cursor addr c = Ok cur'"
    by (auto simp: load_cursor_def Let_def split: option.split)
  then show ?case using Cons clean(1) by (auto simp: w)
qed simp

definition written :: "accountInfo \<Rightarrow> Account option \<Rightarrow> Account option" where
  "written info old =
     (if ai_removed info then None
      else if ai_dirty info \<and> ai_account info \<noteq> None then ai_account info else old)"

definition name_written :: "nameInfo \<Rightarrow> NameRegEntry option \<Rightarrow> NameRegEntry option" where
  "name_written info old =
     (if ni_removed info then None
      else if ni_dirty info \<and> ni_name info \<noteq> None then ni_name info else old)"

lemma sync_account_effect:
  assumes "\<And>acc. ai_account info = Some acc \<Longrightarrow> acc_Address acc = addr"
    "ai_removed info \<Longrightarrow> State_GetAccount s addr \<noteq> None"
    "pred_option (\<lambda>t. pred_option (\<lambda>acc. tree_Save t = acc_StorageRoot acc) (ai_account info)) (ai_storage info)"
  shows "\<exists>s'. sync_account tree_Save addr info s = Ok s' \<and>
           State_GetAccount s' = (State_GetAccount s)(addr := written info (State_GetAccount s addr)) \<and>
           State_GetNameRegEntry s' = State_GetNameRegEntry s"
  using assms
  by (auto simp: sync_account_def written_def State_RemoveAccount_def State_UpdateAccount_def State_GetAccount_def
      State_GetNameRegEntry_def case_prod_beta Let_def tree_Remove_def fun_eq_iff split: option.splits)

lemma sync_name_effect:
  assumes "\<And>entry. ni_name info = Some entry \<Longrightarrow> nre_Name entry = name"
    "ni_removed info \<Longrightarrow> State_GetNameRegEntry s name \<noteq> None"
  shows "\<exists>s'. sync_name name info s = Ok s' \<and>
           State_GetNameRegEntry s' = (State_GetNameRegEntry s)(name := name_written info (State_GetNameRegEntry s name)) \<and>
           State_GetAccount s' = State_GetAccount s"
  using assms
  by (auto simp: sync_name_def name_written_def State_RemoveNameRegEntry_def State_UpdateNameRegEntry_def
      State_GetAccount_def State_GetNameRegEntry_def case_prod_beta Let_def tree_Remove_def fun_eq_iff split: option.splits)

text \<open>A loop over distinct keys whose step changes one key of a lookup and keeps another lookup.\<close>

lemma each_effect:
  assumes step: "\<And>k v s. (k, v) \<in> set kvs \<Longrightarrow> P k v (look s k) \<Longrightarrow>
      \<exists>s'. f k v s = Ok s' \<and> look s' = (look s)(k := w v (look s k)) \<and> other s' = other s"
    and "distinct (map fst kvs)" "\<And>k v. (k, v) \<in> set kvs \<Longrightarrow> P k v (look s k)"
  shows "\<exists>s'. each f kvs s = Ok s' \<and> other s' = other s \<and>
           look s' = (\<lambda>k. case map_of kvs k of None \<Rightarrow> look s k | Some v \<Rightarrow> w v (look s k))"
  using assms
proof (induction kvs arbitrary: s)
  case (Cons kv kvs)
  obtain k v where kv: "kv = (k, v)" by force
  obtain s1 where s1: "f k v s = Ok s1" "look s1 = (look s)(k := w v (look s k))" "other s1 = other s"
    using Cons.prems(1) [of k v s] Cons.prems(3) [of k v] kv by (metis list.set_intros(1))
  have k: "k \<notin> fst ` set kvs" "distinct (map fst kvs)" using Cons.prems(2) kv by auto
  have "\<And>k' v'. (k', v') \<in> set kvs \<Longrightarrow> k' \<noteq> k" using k by force
  then have "\<And>k' v'. (k', v') \<in> set kvs \<Longrightarrow> P k' v' (look s1 k')"
    using Cons.prems(3) kv s1 by auto
  then obtain s' where s': "each f kvs s1 = Ok s'" "other s' = other s1"
    "look s' = (\<lambda>k. case map_of kvs k of None \<Rightarrow> look s1 k | Some v \<Rightarrow> w v (look s1 k))"
    using Cons.IH [of s1] Cons.prems(1) k by (auto simp: kv)
  have "map_of kvs k = None" using k by (simp add: map_of_eq_None_iff)
  then have "look s' = (\<lambda>k'. case map_of (kv # kvs) k' of None \<Rightarrow> look s k' | Some v \<Rightarrow> w v (look s k'))"
    using s' s1 kv by (auto simp: fun_eq_iff split: option.split)
  then show ?case using s1 s' kv by auto
qed simp

lemma distinct_sort_key: "gomap_ok m \<Longrightarrow> distinct (map fst (sort_key fst m))"
  by (simp add: gomap_ok_def distinct_map)

lemma map_of_sort_key: "gomap_ok m \<Longrightarrow> map_of (sort_key fst m) = map_of m"
  by (rule map_of_inject_set [THEN iffD2]) (simp_all add: distinct_sort_key, simp add: gomap_ok_def)

lemma written_view:
  "bc_ok c \<Longrightarrow> (case map_of (bc_accounts c) addr of None \<Rightarrow> State_GetAccount (bc_backend c) addr
     | Some info \<Rightarrow> written info (State_GetAccount (bc_backend c) addr)) = bc_view c addr"
  unfolding bc_ok_def info_ok_def bc_view_def account_info_def
  by (drule conjunct2, drule conjunct2, drule conjunct2, drule conjunct1, drule spec [where x = addr])
     (auto simp: written_def Let_def split: option.splits)

lemma name_written_view:
  "bc_ok c \<Longrightarrow> (case map_of (bc_names c) name of None \<Rightarrow> State_GetNameRegEntry (bc_backend c) name
     | Some info \<Rightarrow> name_written info (State_GetNameRegEntry (bc_backend c) name)) = name_view c name"
  unfolding bc_ok_def name_ok_def name_view_def name_info_def
  by (drule conjunct2, drule conjunct2, drule conjunct2, drule conjunct2, drule spec [where x = name])
     (auto simp: name_written_def Let_def split: option.splits)

text \<open>
  C18: Sync refines the cache to the ledger when the block wrote no contract storage (its words may have
  been read) and removed only what the state has: then it does not panic, and afterwards the state holds
  exactly the accounts and the names that the cache showed to the transactions of the block, for every
  address and every name. Both conditions are needed: \<open>storage_write_sync\<close> says what becomes of a
  storage write (a zero may be lost), and \<open>Sync_removed_new_account_panics\<close> of the removal of an account
  that the state lacks.
\<close>

theorem Sync_writes_view:
  assumes "bc_ok c" "sync_ready tree_Save c"
  shows "\<exists>s. bc_Sync tree_Save c = Ok s \<and> State_GetAccount s = bc_view c \<and> State_GetNameRegEntry s = name_view c"
proof -
  let ?ok = "\<lambda>addr info old. (\<forall>acc. ai_account info = Some acc \<longrightarrow> acc_Address acc = addr) \<and>
    (ai_removed info \<longrightarrow> old \<noteq> None) \<and>
    pred_option (\<lambda>t. pred_option (\<lambda>acc. tree_Save t = acc_StorageRoot acc) (ai_account info)) (ai_storage info)"
  let ?nok = "\<lambda>name info old. (\<forall>entry. ni_name info = Some entry \<longrightarrow> nre_Name entry = name) \<and>
    (ni_removed info \<longrightarrow> old \<noteq> None)"
  have maps: "gomap_ok (bc_accounts c)" "gomap_ok (bc_names c)" using assms(1) by (auto simp: bc_ok_def)
  have acc: "?ok addr info (State_GetAccount (bc_backend c) addr)" if "(addr, info) \<in> set (bc_accounts c)" for addr info
  proof -
    have "account_info c addr = info" using that maps(1) by (simp add: account_info_def gomap_ok_def)
    then show ?thesis
      using assms that by (fastforce simp: bc_ok_def info_ok_def sync_ready_def list_all_iff)
  qed
  have name: "?nok name info (State_GetNameRegEntry (bc_backend c) name)" if "(name, info) \<in> set (bc_names c)" for name info
  proof -
    have "name_info c name = info" using that maps(2) by (simp add: name_info_def gomap_ok_def)
    then show ?thesis
      using assms that by (fastforce simp: bc_ok_def name_ok_def sync_ready_def list_all_iff)
  qed
  obtain s1 where s1: "each (sync_account tree_Save) (sort_key fst (bc_accounts c)) (bc_backend c) = Ok s1"
    "State_GetNameRegEntry s1 = State_GetNameRegEntry (bc_backend c)" "State_GetAccount s1 = bc_view c"
    using each_effect [of "sort_key fst (bc_accounts c)" ?ok State_GetAccount "sync_account tree_Save" written
        State_GetNameRegEntry "bc_backend c"] acc sync_account_effect [of _ _ _ tree_Save] maps
    by (auto simp: distinct_sort_key map_of_sort_key written_view [OF assms(1)])
  have view: "(\<lambda>k. case map_of (bc_names c) k of None \<Rightarrow> State_GetNameRegEntry s1 k
      | Some v \<Rightarrow> name_written v (State_GetNameRegEntry s1 k)) = name_view c"
    unfolding s1(2) by (rule ext) (rule name_written_view [OF assms(1)])
  obtain s2 where "each sync_name (sort_key fst (bc_names c)) s1 = Ok s2"
    "State_GetAccount s2 = State_GetAccount s1" "State_GetNameRegEntry s2 = name_view c"
    using each_effect [of "sort_key fst (bc_names c)" ?nok State_GetNameRegEntry sync_name name_written
        State_GetAccount s1] name sync_name_effect maps s1(2)
    by (auto simp: distinct_sort_key map_of_sort_key view)
  moreover have "sync_storages (sort_key fst (bc_storages c)) start_cursor c = Ok c"
    using assms(2) by (intro sync_storages_clean) (simp add: sync_ready_def list_all_iff)
  ultimately show ?thesis
    using s1 by (simp add: bc_Sync_def)
qed

definition sample_account :: "bytes \<Rightarrow> int \<Rightarrow> Account" where
  "sample_account addr bal =
     \<lparr> acc_Address = addr, acc_PubKey = None, acc_Sequence = 0, acc_Balance = bal, acc_Code = [],
       acc_StorageRoot = [], acc_Permissions = ZeroAccountPermissions \<rparr>"

definition sample_cache :: BlockCache where
  "sample_cache =
     NewBlockCache (sample_validators\<lparr> st_accounts := [([1], sample_account [1] 5)] \<rparr>)"

text \<open>A block that writes an account and reads the storage of another.\<close>

definition read_cache :: BlockCache where
  "read_cache = sample_cache\<lparr>
     bc_accounts := [([2], \<lparr> ai_account = Some (sample_account [2] 7), ai_storage = None, ai_removed = False, ai_dirty = True \<rparr>),
       ([1], \<lparr> ai_account = Some (sample_account [1] 5), ai_storage = Some [], ai_removed = False, ai_dirty = False \<rparr>)],
     bc_storages := [(([1], Zero256), \<lparr> si_value = Zero256, si_dirty = False \<rparr>)] \<rparr>"

lemma read_cache_made:
  "obind (bc_UpdateAccount (sample_account [2] 7) sample_cache) (\<lambda>c. bc_GetStorage [1] Zero256 (snd (bc_GetAccount [1] c))) =
     Ok (Zero256, read_cache)"
  by (simp add: bc_UpdateAccount_def bc_GetStorage_def bc_GetAccount_def sample_cache_def read_cache_def NewBlockCache_def
      cache_maps Let_def sample_account_def Postfix20_def State_GetAccount_def sample_validators_def)

theorem Sync_writes_view_witness:
  "\<exists>s. obind (bc_UpdateAccount (sample_account [2] 7) sample_cache)
        (\<lambda>c. bc_GetStorage [1] Zero256 (snd (bc_GetAccount [1] c))) = Ok (Zero256, read_cache) \<and>
     bc_Sync (\<lambda>_. []) read_cache = Ok s \<and>
     State_GetAccount s [2] = Some (sample_account [2] 7) \<and> State_GetAccount s [1] = Some (sample_account [1] 5)"
proof -
  have slots: "account_info read_cache a =
      (if a = [2] then \<lparr> ai_account = Some (sample_account [2] 7), ai_storage = None, ai_removed = False, ai_dirty = True \<rparr>
       else if a = [1] then \<lparr> ai_account = Some (sample_account [1] 5), ai_storage = Some [], ai_removed = False, ai_dirty = False \<rparr>
       else \<lparr> ai_account = None, ai_storage = None, ai_removed = False, ai_dirty = False \<rparr>)" for a
    by (simp add: read_cache_def account_info_def)
  have state: "State_GetAccount (bc_backend read_cache) a = (if a = [1] then Some (sample_account [1] 5) else None)"
    "State_GetNameRegEntry (bc_backend read_cache) n = None" "bc_names read_cache = []" for a n
    by (simp_all add: read_cache_def sample_cache_def NewBlockCache_def State_GetAccount_def State_GetNameRegEntry_def
        sample_validators_def)
  have "gomap_ok (bc_accounts read_cache)" by (simp add: read_cache_def gomap_ok_def)
  then have ok: "bc_ok read_cache"
    by (simp add: bc_ok_def state_ok_def state slots info_ok_def name_ok_def name_info_def sample_account_def gomap_ok_def)
  have "sync_ready (\<lambda>_. []) read_cache"
    by (simp add: sync_ready_def state slots) (simp add: read_cache_def sample_account_def Postfix20_def Let_def account_info_def)
  then obtain s where s: "bc_Sync (\<lambda>_. []) read_cache = Ok s" "State_GetAccount s = bc_view read_cache"
    using Sync_writes_view [OF ok] by auto
  have "bc_view read_cache [1] = Some (sample_account [1] 5)" "bc_view read_cache [2] = Some (sample_account [2] 7)"
    by (simp_all add: bc_view_def slots)
  then show ?thesis using s read_cache_made by auto
qed

text \<open>
  A contract's write to one slot of its storage, synced to the ledger. A value other than zero
  becomes part of the saved tree, whose root is stored with the account. A zero, which should delete
  the slot, is lost when the tree was not loaded by a read before: the block sees zero, and Sync
  leaves the ledger as it was, with the old value in the slot.
\<close>

theorem storage_write_sync:
  assumes "State_GetAccount s (Postfix20 addr) = Some acc" "acc_Address acc = Postfix20 addr"
    "bc_SetStorage addr key value (snd (bc_GetAccount (Postfix20 addr) (NewBlockCache s))) = Ok c"
  shows "bc_GetStorage addr key c = Ok (value, c) \<and>
         (if word_IsZero value then bc_Sync tree_Save c = Ok s
          else \<exists>t root s'. t = tree_Set key value (LoadStorage s (acc_StorageRoot acc)) \<and> root = tree_Save t \<and>
            bc_Sync tree_Save c = Ok s' \<and> LoadStorage s' root = t \<and>
            State_GetAccount s' = (State_GetAccount s)(Postfix20 addr \<mapsto> acc\<lparr> acc_StorageRoot := root \<rparr>))"
proof -
  have c: "c = \<lparr> bc_backend = s,
      bc_accounts = [(Postfix20 addr,
        \<lparr> ai_account = Some acc, ai_storage = None, ai_removed = False, ai_dirty = False \<rparr>)],
      bc_storages = [((addr, key), \<lparr> si_value = value, si_dirty = True \<rparr>)], bc_names = [] \<rparr>"
    using assms(1,3) by (auto simp: bc_SetStorage_def bc_GetAccount_def NewBlockCache_def cache_maps Let_def)
  show ?thesis
    using assms(2)
    by (auto simp: c bc_GetStorage_def bc_Sync_def start_cursor_def load_cursor_def sync_write_def
        sync_account_def cache_maps Let_def State_UpdateAccount_def State_GetAccount_def)
qed

theorem storage_write_sync_witness:
  "\<exists>s c. State_GetAccount s (Postfix20 (replicate 32 1)) \<noteq> None \<and>
     bc_SetStorage (replicate 32 1) Zero256 Zero256
       (snd (bc_GetAccount (Postfix20 (replicate 32 1)) (NewBlockCache s))) = Ok c \<and>
     bc_Sync (\<lambda>_. []) c = Ok s \<and> LoadStorage s [] = [(Zero256, replicate 32 7)]"
proof -
  let ?a = "Postfix20 (replicate 32 1)"
  let ?s = "sample_validators\<lparr> st_accounts := [(?a, sample_account ?a 5)], LoadStorage := (\<lambda>_. [(Zero256, replicate 32 7)]) \<rparr>"
  have get: "State_GetAccount ?s ?a = Some (sample_account ?a 5)" "acc_Address (sample_account ?a 5) = ?a"
    by (simp_all add: State_GetAccount_def sample_account_def)
  then obtain c where c: "bc_SetStorage (replicate 32 1) Zero256 Zero256
       (snd (bc_GetAccount ?a (NewBlockCache ?s))) = Ok c"
    by (simp add: bc_SetStorage_def bc_GetAccount_def NewBlockCache_def cache_maps Let_def)
  have "word_IsZero Zero256" by (simp add: word_IsZero_def Zero256_def eval_nat_numeral)
  then show ?thesis
    using storage_write_sync [OF get c, of "\<lambda>_. []"] c get by (intro exI [of _ ?s] exI [of _ c]) simp
qed

text \<open>
  An account that a block creates and removes again ends the node: Sync finds nothing to remove, and
  the error message it builds dereferences the account, which is nil.
\<close>

lemma Sync_removed_new_account_panics:
  assumes "State_GetAccount s addr = None"
    "obind (bc_UpdateAccount (sample_account addr 1) (NewBlockCache s)) (bc_RemoveAccount addr) = Ok c"
  shows "bc_Sync tree_Save c = Panic ''nil pointer dereference''"
  using assms
  by (auto simp: bc_UpdateAccount_def bc_RemoveAccount_def NewBlockCache_def cache_maps Let_def sample_account_def
      bc_Sync_def sync_account_def State_RemoveAccount_def State_GetAccount_def tree_Remove_def)

end
