(* ===== verification/Tx_Validation.thy ===== *)
theory Tx_Validation
  imports Block_Cache
begin

text \<open>
  The checks that transactions share (the first half and the end of the vendored
  \<open>state/execution.go\<close>, \<open>types/tx.go\<close>, \<open>types/names.go\<close>): finding the accounts of inputs and
  outputs, public keys, signatures, sequence numbers and amounts, permissions with their global
  fallback, and the strings of names.

  An operation that reads the ledger is a function from a state to the state it leaves behind and an
  outcome. The \<open>accounts\<close> map of the code holds pointers; here it holds the accounts, and the one
  change made through such a pointer before the transaction is accepted, remembering a public key,
  is written to the cache with \<open>poke\<close>. Go visits the accounts of the map in any order; the model
  takes the order in which they were added.
\<close>

section \<open>Operations with a state and an outcome\<close>

type_synonym ('s, 'a) exec = "'s \<Rightarrow> 's \<times> 'a outcome"

definition ebind :: "('s, 'a) exec \<Rightarrow> ('a \<Rightarrow> ('s, 'b) exec) \<Rightarrow> ('s, 'b) exec" where
  "ebind m f s = (case m s of (s', Ok a) \<Rightarrow> f a s' | (s', Err e) \<Rightarrow> (s', Err e) | (s', Panic e) \<Rightarrow> (s', Panic e))"

definition elift :: "'a outcome \<Rightarrow> ('s, 'a) exec" where
  "elift r s = (s, r)"

abbreviation eret :: "'a \<Rightarrow> ('s, 'a) exec" where
  "eret a \<equiv> elift (Ok a)"

definition eread :: "('s \<Rightarrow> 'a) \<Rightarrow> ('s, 'a) exec" where
  "eread f s = (s, Ok (f s))"

definition echange :: "('s \<Rightarrow> 's) \<Rightarrow> ('s, unit) exec" where
  "echange f s = (f s, Ok ())"

definition etry :: "('s \<Rightarrow> 's outcome) \<Rightarrow> ('s, unit) exec" where
  "etry f s = (case f s of Ok s' \<Rightarrow> (s', Ok ()) | Err e \<Rightarrow> (s, Err e) | Panic e \<Rightarrow> (s, Panic e))"

definition ecall :: "('s \<Rightarrow> 'a \<times> 's) \<Rightarrow> ('s, 'a) exec" where
  "ecall f s = (let (a, s') = f s in (s', Ok a))"

text \<open>An early return with an error when the condition does not hold.\<close>

definition require :: "bool \<Rightarrow> string \<Rightarrow> ('s, unit) exec" where
  "require b e = elift (if b then Ok () else Err e)"

lemma ebind_eq_Ok:
  "ebind m f s = (s2, Ok b) \<longleftrightarrow> (\<exists>s1 a. m s = (s1, Ok a) \<and> f a s1 = (s2, Ok b))"
  by (auto simp: ebind_def split: prod.splits outcome.splits)

lemma ebind_Ok: "m s = (s1, Ok a) \<Longrightarrow> ebind m f s = f a s1"
  by (simp add: ebind_def)

lemma ebind_elift [simp]:
  "ebind (eret a) f = f a"
  "ebind (elift (Err e)) f = elift (Err e)"
  "ebind (elift (Panic e)) f = elift (Panic e)"
  by (simp_all add: ebind_def elift_def fun_eq_iff)

lemma require_eq_Ok [simp]: "require b e s = (s', Ok u) \<longleftrightarrow> b \<and> s' = s"
  by (auto simp: require_def elift_def)

lemma elift_eq_Ok [simp]: "elift r s = (s', Ok a) \<longleftrightarrow> s' = s \<and> r = Ok a"
  by (auto simp: elift_def)

lemma eread_eq_Ok [simp]: "eread f s = (s', Ok a) \<longleftrightarrow> s' = s \<and> a = f s"
  by (auto simp: eread_def)

lemma echange_eq_Ok [simp]: "echange f s = (s', Ok u) \<longleftrightarrow> s' = f s"
  by (auto simp: echange_def)

lemma etry_eq_Ok [simp]: "etry f s = (s', Ok u) \<longleftrightarrow> f s = Ok s'"
  by (auto simp: etry_def split: outcome.splits)

lemma ecall_eq_Ok [simp]: "ecall f s = (s', Ok a) \<longleftrightarrow> f s = (a, s')"
  by (auto simp: ecall_def split: prod.splits)

lemmas exec_eqs = ebind_eq_Ok require_eq_Ok elift_eq_Ok eread_eq_Ok echange_eq_Ok etry_eq_Ok ecall_eq_Ok

section \<open>Errors\<close>

definition ErrTxInvalidAddress :: string where "ErrTxInvalidAddress = ''Error invalid address''"
definition ErrTxDuplicateAddress :: string where "ErrTxDuplicateAddress = ''Error duplicate address''"
definition ErrTxInvalidAmount :: string where "ErrTxInvalidAmount = ''Error invalid amount''"
definition ErrTxInsufficientFunds :: string where "ErrTxInsufficientFunds = ''Error insufficient funds''"
definition ErrTxUnknownPubKey :: string where "ErrTxUnknownPubKey = ''Error unknown pubkey''"
definition ErrTxInvalidPubKey :: string where "ErrTxInvalidPubKey = ''Error invalid pubkey''"
definition ErrTxInvalidSignature :: string where "ErrTxInvalidSignature = ''Error invalid signature''"
definition ErrTxPermissionDenied :: string where "ErrTxPermissionDenied = ''Error permission denied''"

definition ErrTxInvalidSequence :: "int \<Rightarrow> int \<Rightarrow> string" where
  "ErrTxInvalidSequence got expected =
     ''Error invalid sequence. Got '' @ show_int got @ '', expected '' @ show_int expected"

section \<open>Permissions\<close>

text \<open>
  Both implementations of \<open>AccountGetter\<close> have the same contract: the account that is returned is the
  one the state shows, and reading changes nothing that is shown.
\<close>

type_synonym 's getter = "bytes \<Rightarrow> 's \<Rightarrow> Account option \<times> 's"

definition State_getter :: "State getter" where
  "State_getter addr s = (State_GetAccount s addr, s)"

definition check_perm :: "Account option \<Rightarrow> PermFlag \<Rightarrow> perm_get outcome" where
  "check_perm acc perm =
     (if AllPermFlags < perm then Panic ''Checking an unknown permission in state should never happen''
      else obind (deref acc) (\<lambda>acc. Ok (perm_Get (Base (acc_Permissions acc)) perm)))"

definition HasPermission :: "'s getter \<Rightarrow> Account option \<Rightarrow> PermFlag \<Rightarrow> ('s, bool) exec" where
  "HasPermission GetAccount acc perm =
     ebind (elift (check_perm acc perm)) (\<lambda>r. case r of
       PermValue v \<Rightarrow> eret v
     | ErrInvalidPermission _ \<Rightarrow> eret False
     | ErrValueNotSet _ \<Rightarrow>
         ebind (ecall (GetAccount GlobalPermissionsAddress)) (\<lambda>global.
         ebind (elift (check_perm global perm)) (\<lambda>r. case r of
           PermValue v \<Rightarrow> eret v
         | ErrInvalidPermission _ \<Rightarrow> eret False
         | ErrValueNotSet _ \<Rightarrow> elift (Panic ''All known global permissions should be set!''))))"

fun all_have :: "'s getter \<Rightarrow> PermFlag \<Rightarrow> (bytes, Account) gomap \<Rightarrow> ('s, bool) exec" where
  "all_have GetAccount perm [] = eret True"
| "all_have GetAccount perm ((_, acc) # accs) =
     ebind (HasPermission GetAccount (Some acc) perm) (\<lambda>v.
     if v then all_have GetAccount perm accs else eret False)"

definition hasSendPermission :: "'s getter \<Rightarrow> (bytes, Account) gomap \<Rightarrow> ('s, bool) exec" where
  "hasSendPermission GetAccount accs = all_have GetAccount Perm_Send accs"

definition hasNamePermission :: "'s getter \<Rightarrow> Account \<Rightarrow> ('s, bool) exec" where
  "hasNamePermission GetAccount acc = HasPermission GetAccount (Some acc) Perm_Name"

definition hasCallPermission :: "'s getter \<Rightarrow> Account \<Rightarrow> ('s, bool) exec" where
  "hasCallPermission GetAccount acc = HasPermission GetAccount (Some acc) Perm_Call"

definition hasCreateContractPermission :: "'s getter \<Rightarrow> Account \<Rightarrow> ('s, bool) exec" where
  "hasCreateContractPermission GetAccount acc = HasPermission GetAccount (Some acc) Perm_CreateContract"

definition hasCreateAccountPermission :: "'s getter \<Rightarrow> (bytes, Account) gomap \<Rightarrow> ('s, bool) exec" where
  "hasCreateAccountPermission GetAccount accs = all_have GetAccount Perm_CreateAccount accs"

definition hasBondPermission :: "'s getter \<Rightarrow> Account option \<Rightarrow> ('s, bool) exec" where
  "hasBondPermission GetAccount acc = HasPermission GetAccount acc Perm_Bond"

fun hasBondOrSendPermission :: "'s getter \<Rightarrow> (bytes, Account) gomap \<Rightarrow> ('s, bool) exec" where
  "hasBondOrSendPermission GetAccount [] = eret True"
| "hasBondOrSendPermission GetAccount ((_, acc) # accs) =
     ebind (HasPermission GetAccount (Some acc) Perm_Bond) (\<lambda>bond.
     if bond then hasBondOrSendPermission GetAccount accs
     else ebind (HasPermission GetAccount (Some acc) Perm_Send) (\<lambda>send.
       if send then hasBondOrSendPermission GetAccount accs else eret False))"

section \<open>Inputs and outputs\<close>

definition checkInputPubKey :: "wire_env \<Rightarrow> Account \<Rightarrow> TxInput \<Rightarrow> (Account \<times> TxInput) outcome" where
  "checkInputPubKey W acc inp =
     (case acc_PubKey acc of
        None \<Rightarrow>
          (case in_PubKey inp of
             None \<Rightarrow> Err ErrTxUnknownPubKey
           | Some key \<Rightarrow>
               (if PubKey_Address W key \<noteq> acc_Address acc then Err ErrTxInvalidPubKey
                else Ok (acc\<lparr> acc_PubKey := Some key \<rparr>, inp)))
      | Some _ \<Rightarrow> Ok (acc, inp\<lparr> in_PubKey := None \<rparr>))"

text \<open>The account and the input after the check; the account is the object in the cache.\<close>

definition check_pub_key :: "wire_env \<Rightarrow> Account \<Rightarrow> TxInput \<Rightarrow> (BlockCache, Account \<times> TxInput) exec" where
  "check_pub_key W acc inp =
     ebind (elift (checkInputPubKey W acc inp)) (\<lambda>(acc, inp).
     ebind (echange (poke (in_Address inp) acc)) (\<lambda>_. eret (acc, inp)))"

fun getInputs ::
  "wire_env \<Rightarrow> (bytes, Account) gomap \<Rightarrow> TxInput option list \<Rightarrow>
   (BlockCache, TxInput option list \<times> (bytes, Account) gomap) exec" where
  "getInputs W accs [] = eret ([], accs)"
| "getInputs W accs (p # ps) =
     ebind (elift (deref p)) (\<lambda>inp.
     ebind (require (map_of accs (in_Address inp) = None) ErrTxDuplicateAddress) (\<lambda>_.
     ebind (ecall (bc_GetAccount (in_Address inp))) (\<lambda>acc. case acc of
       None \<Rightarrow> elift (Err ErrTxInvalidAddress)
     | Some acc \<Rightarrow>
         ebind (check_pub_key W acc inp) (\<lambda>(acc, inp).
         ebind (getInputs W (accs @ [(in_Address inp, acc)]) ps) (\<lambda>(ins, accs).
         eret (Some inp # ins, accs))))))"

definition new_output_account :: "bytes \<Rightarrow> Account" where
  "new_output_account addr =
     \<lparr> acc_Address = addr, acc_PubKey = None, acc_Sequence = 0, acc_Balance = 0, acc_Code = [],
       acc_StorageRoot = [], acc_Permissions = ZeroAccountPermissions \<rparr>"

fun getOrMakeOutputs ::
  "'s getter \<Rightarrow> bool \<Rightarrow> (bytes, Account) gomap \<Rightarrow> TxOutput option list \<Rightarrow> ('s, (bytes, Account) gomap) exec" where
  "getOrMakeOutputs GetAccount checkedCreatePerms accs [] = eret accs"
| "getOrMakeOutputs GetAccount checkedCreatePerms accs (p # ps) =
     ebind (elift (deref p)) (\<lambda>out.
     ebind (require (map_of accs (out_Address out) = None) ErrTxDuplicateAddress) (\<lambda>_.
     ebind (ecall (GetAccount (out_Address out))) (\<lambda>acc. case acc of
       Some acc \<Rightarrow> getOrMakeOutputs GetAccount checkedCreatePerms (accs @ [(out_Address out, acc)]) ps
     | None \<Rightarrow>
         ebind (if checkedCreatePerms then eret True else hasCreateAccountPermission GetAccount accs) (\<lambda>allowed.
         ebind (require allowed ''At least one input does not have permission to create accounts'') (\<lambda>_.
         getOrMakeOutputs GetAccount True (accs @ [(out_Address out, new_output_account (out_Address out))]) ps)))))"

definition TxInput_ValidateBasic :: "TxInput \<Rightarrow> unit outcome" where
  "TxInput_ValidateBasic inp =
     (if length (in_Address inp) \<noteq> 20 then Err ErrTxInvalidAddress
      else if in_Amount inp = 0 then Err ErrTxInvalidAmount
      else Ok ())"

definition TxOutput_ValidateBasic :: "TxOutput \<Rightarrow> unit outcome" where
  "TxOutput_ValidateBasic out =
     (if length (out_Address out) \<noteq> 20 then Err ErrTxInvalidAddress
      else if out_Amount out = 0 then Err ErrTxInvalidAmount
      else Ok ())"

definition VerifyBytes :: "wire_env \<Rightarrow> bytes \<Rightarrow> string \<Rightarrow> bytes option \<Rightarrow> bool" where
  "VerifyBytes W key msg sig = (case sig of None \<Rightarrow> False | Some g \<Rightarrow> ed25519_Verify W key msg g)"

definition validateInput :: "wire_env \<Rightarrow> Account \<Rightarrow> string \<Rightarrow> TxInput \<Rightarrow> unit outcome" where
  "validateInput W acc signBytes inp =
     obind (TxInput_ValidateBasic inp) (\<lambda>_.
     obind (deref (acc_PubKey acc)) (\<lambda>key.
     if \<not> VerifyBytes W key signBytes (in_Signature inp) then Err ErrTxInvalidSignature
     else if wrap64 (acc_Sequence acc + 1) \<noteq> in_Sequence inp
     then Err (ErrTxInvalidSequence (in_Sequence inp) (wrap64 (acc_Sequence acc + 1)))
     else if acc_Balance acc < in_Amount inp then Err ErrTxInsufficientFunds
     else Ok ()))"

fun validateInputs ::
  "wire_env \<Rightarrow> (bytes, Account) gomap \<Rightarrow> string \<Rightarrow> int \<Rightarrow> TxInput option list \<Rightarrow> int outcome" where
  "validateInputs W accs signBytes tot [] = Ok tot"
| "validateInputs W accs signBytes tot (p # ps) =
     obind (deref p) (\<lambda>inp. case map_of accs (in_Address inp) of
       None \<Rightarrow> Panic ''validateInputs() expects account in accounts''
     | Some acc \<Rightarrow>
         obind (validateInput W acc signBytes inp) (\<lambda>_.
         validateInputs W accs signBytes (wrap64 (tot + in_Amount inp)) ps))"

fun validateOutputs :: "int \<Rightarrow> TxOutput option list \<Rightarrow> int outcome" where
  "validateOutputs tot [] = Ok tot"
| "validateOutputs tot (p # ps) =
     obind (deref p) (\<lambda>out.
     obind (TxOutput_ValidateBasic out) (\<lambda>_.
     validateOutputs (wrap64 (tot + out_Amount out)) ps))"

definition debit :: "int \<Rightarrow> Account \<Rightarrow> Account" where
  "debit amount acc =
     acc\<lparr> acc_Balance := wrap64 (acc_Balance acc - amount), acc_Sequence := wrap64 (acc_Sequence acc + 1) \<rparr>"

definition credit :: "int \<Rightarrow> Account \<Rightarrow> Account" where
  "credit amount acc = acc\<lparr> acc_Balance := wrap64 (acc_Balance acc + amount) \<rparr>"

fun adjustByInputs :: "(bytes, Account) gomap \<Rightarrow> TxInput option list \<Rightarrow> (bytes, Account) gomap outcome" where
  "adjustByInputs accs [] = Ok accs"
| "adjustByInputs accs (p # ps) =
     obind (deref p) (\<lambda>inp. case map_of accs (in_Address inp) of
       None \<Rightarrow> Panic ''adjustByInputs() expects account in accounts''
     | Some acc \<Rightarrow>
         (if acc_Balance acc < in_Amount inp then Panic ''adjustByInputs() expects sufficient funds''
          else adjustByInputs (AList.update (in_Address inp) (debit (in_Amount inp) acc) accs) ps))"

fun adjustByOutputs :: "(bytes, Account) gomap \<Rightarrow> TxOutput option list \<Rightarrow> (bytes, Account) gomap outcome" where
  "adjustByOutputs accs [] = Ok accs"
| "adjustByOutputs accs (p # ps) =
     obind (deref p) (\<lambda>out. case map_of accs (out_Address out) of
       None \<Rightarrow> Panic ''adjustByOutputs() expects account in accounts''
     | Some acc \<Rightarrow> adjustByOutputs (AList.update (out_Address out) (credit (out_Amount out) acc) accs) ps)"

section \<open>Names\<close>

definition MinNameRegistrationPeriod :: int where "MinNameRegistrationPeriod = 5"
definition NameByteCostMultiplier :: int where "NameByteCostMultiplier = 1"
definition NameBlockCostMultiplier :: int where "NameBlockCostMultiplier = 1"
definition MaxNameLength :: nat where "MaxNameLength = 64"
definition MaxDataLength :: nat where "MaxDataLength = 65536"

text \<open>
  The two regular expressions are character classes, starred and anchored. In \<open>[a-zA-Z0-9._/-@]\<close> the
  dash between the slash and the at sign makes a range.
\<close>

definition in_range :: "char \<Rightarrow> char \<Rightarrow> char \<Rightarrow> bool" where
  "in_range lo hi ch \<longleftrightarrow> (of_char lo :: nat) \<le> of_char ch \<and> (of_char ch :: nat) \<le> of_char hi"

definition alnum :: "char \<Rightarrow> bool" where
  "alnum ch \<longleftrightarrow> in_range (CHR ''a'') (CHR ''z'') ch \<or> in_range (CHR ''A'') (CHR ''Z'') ch \<or>
     in_range (CHR ''0'') (CHR ''9'') ch"

definition validateNameRegEntryName :: "string \<Rightarrow> bool" where
  "validateNameRegEntryName name \<longleftrightarrow>
     list_all (\<lambda>ch. alnum ch \<or> ch \<in> set ''._'' \<or> in_range (CHR ''/'') (CHR ''@'') ch) name"

definition validateNameRegEntryData :: "string \<Rightarrow> bool" where
  "validateNameRegEntryData data \<longleftrightarrow>
     list_all (\<lambda>ch. alnum ch \<or> ch \<in> set (''_/ -+:,.{}()[]'' @ [CHR 0x22, CHR 0x27, CHR 0x0A, CHR 0x09])) data"

definition NameBaseCost :: "string \<Rightarrow> string \<Rightarrow> int" where
  "NameBaseCost name data = int (length data + 32)"

definition NameCostPerBlock :: "int \<Rightarrow> int" where
  "NameCostPerBlock baseCost = wrap64 (NameBlockCostMultiplier * NameByteCostMultiplier * baseCost)"

definition ValidateStrings :: "NameTx \<Rightarrow> unit outcome" where
  "ValidateStrings tx =
     (if name_Name tx = [] then Err ''Name must not be empty''
      else if MaxNameLength < length (name_Name tx) then Err ''Name is too long. Max 64 bytes''
      else if MaxDataLength < length (name_Data tx) then Err ''Data is too long. Max 65536 bytes''
      else if \<not> validateNameRegEntryName (name_Name tx)
      then Err (''Invalid characters found in NameTx.Name ('' @ name_Name tx @
                ''). Only alphanumeric, underscores, dashes, forward slashes, and @ are allowed'')
      else if \<not> validateNameRegEntryData (name_Data tx)
      then Err (''Invalid characters found in NameTx.Data ('' @ name_Data tx @
                ''). Only the kind of things found in a JSON file are allowed'')
      else Ok ())"

section \<open>What an operation preserves\<close>

definition preserves :: "('s \<Rightarrow> bool) \<Rightarrow> ('s, 'a) exec \<Rightarrow> bool" where
  "preserves P m \<longleftrightarrow> (\<forall>s. P s \<longrightarrow> P (fst (m s)))"

named_theorems preserves_intros \<open>operations that preserve a property of the state\<close>

lemma preservesD: "preserves P m \<Longrightarrow> m s = (s', r) \<Longrightarrow> P s \<Longrightarrow> P s'"
  by (metis fst_conv preserves_def)

lemma preserves_ebind [preserves_intros]:
  "preserves P m \<Longrightarrow> (\<And>a. preserves P (f a)) \<Longrightarrow> preserves P (ebind m f)"
  unfolding preserves_def ebind_def by (force split: prod.splits outcome.splits)

lemma preserves_elift [preserves_intros]: "preserves P (elift r)"
  by (simp add: preserves_def elift_def)

lemma preserves_require [preserves_intros]: "preserves P (require b e)"
  by (simp add: preserves_def require_def elift_def)

lemma preserves_eread [preserves_intros]: "preserves P (eread f)"
  by (simp add: preserves_def eread_def)

lemma preserves_ecall [preserves_intros]: "(\<And>s. P s \<Longrightarrow> P (snd (f s))) \<Longrightarrow> preserves P (ecall f)"
  by (simp add: preserves_def ecall_def case_prod_beta Let_def)

lemma preserves_HasPermission [preserves_intros]:
  "(\<And>a s. P s \<Longrightarrow> P (snd (GetAccount a s))) \<Longrightarrow> preserves P (HasPermission GetAccount acc perm)"
  unfolding HasPermission_def by (intro preserves_intros) (auto intro!: preserves_intros split: perm_get.split)

lemma preserves_all_have [preserves_intros]:
  "(\<And>a s. P s \<Longrightarrow> P (snd (GetAccount a s))) \<Longrightarrow> preserves P (all_have GetAccount perm accs)"
  by (induction GetAccount perm accs rule: all_have.induct) (auto intro!: preserves_intros)

lemma preserves_hasBondOrSend [preserves_intros]:
  "(\<And>a s. P s \<Longrightarrow> P (snd (GetAccount a s))) \<Longrightarrow> preserves P (hasBondOrSendPermission GetAccount accs)"
  by (induction GetAccount accs rule: hasBondOrSendPermission.induct) (auto intro!: preserves_intros)

lemma preserves_getOrMakeOutputs [preserves_intros]:
  "(\<And>a s. P s \<Longrightarrow> P (snd (GetAccount a s))) \<Longrightarrow> preserves P (getOrMakeOutputs GetAccount b accs outs)"
  unfolding hasCreateAccountPermission_def [abs_def]
  by (induction GetAccount b accs outs rule: getOrMakeOutputs.induct)
     (auto simp: hasCreateAccountPermission_def intro!: preserves_intros split: option.split)

section \<open>The contract of an account getter\<close>

text \<open>A permission is the account's own setting, or the global account's when the account has none.\<close>

definition permitted :: "(bytes \<Rightarrow> Account option) \<Rightarrow> Account option \<Rightarrow> PermFlag \<Rightarrow> bool outcome" where
  "permitted view acc perm =
     obind (check_perm acc perm) (\<lambda>r. case r of
       PermValue v \<Rightarrow> Ok v
     | ErrInvalidPermission _ \<Rightarrow> Ok False
     | ErrValueNotSet _ \<Rightarrow>
         obind (check_perm (view GlobalPermissionsAddress) perm) (\<lambda>r. case r of
           PermValue v \<Rightarrow> Ok v
         | ErrInvalidPermission _ \<Rightarrow> Ok False
         | ErrValueNotSet _ \<Rightarrow> Panic ''All known global permissions should be set!''))"

locale account_getter =
  fixes GetAccount :: "'s getter" and view :: "'s \<Rightarrow> bytes \<Rightarrow> Account option"
  assumes get_view: "fst (GetAccount a s) = view s a"
    and get_keeps: "view (snd (GetAccount a s)) = view s"
begin

lemma ecall_get: "ecall (GetAccount a) s = (snd (GetAccount a s), Ok (view s a))"
  by (simp add: ecall_def case_prod_beta Let_def get_view)

lemma HasPermission_value: "snd (HasPermission GetAccount acc perm s) = permitted (view s) acc perm"
  unfolding HasPermission_def permitted_def
  by (cases "check_perm acc perm")
     (auto simp: ebind_def elift_def ecall_get split: perm_get.split outcome.splits prod.splits)

lemma HasPermission_keeps: "view (fst (HasPermission GetAccount acc perm s)) = view s"
  using preserves_HasPermission [of "\<lambda>t. view t = view s" GetAccount acc perm] get_keeps
  by (simp add: preserves_def)

lemma HasPermission_eq_Ok:
  "HasPermission GetAccount acc perm s = (s', Ok v) \<Longrightarrow> permitted (view s) acc perm = Ok v \<and> view s' = view s"
  by (metis HasPermission_value HasPermission_keeps fst_conv snd_conv)

lemma all_have_eq_Ok:
  "all_have GetAccount perm accs s = (s', Ok v) \<Longrightarrow>
     view s' = view s \<and> (v \<longrightarrow> (\<forall>(a, acc) \<in> set accs. permitted (view s) (Some acc) perm = Ok True))"
proof (induction accs arbitrary: s)
  case (Cons x accs)
  from Cons.prems obtain s1 w where w: "HasPermission GetAccount (Some (snd x)) perm s = (s1, Ok w)"
    "(if w then all_have GetAccount perm accs else eret False) s1 = (s', Ok v)"
    by (cases x) (auto simp: ebind_eq_Ok)
  then show ?case
    using Cons.IH [of s1] HasPermission_eq_Ok [OF w(1)] by (cases x) (auto split: if_splits)
qed simp

text \<open>
  The outputs are appended in order, each once and none an input: the account the state shows, or a
  new one.
\<close>

lemma getOrMakeOutputs_eq_Ok:
  "getOrMakeOutputs GetAccount b accs outs s = (s', Ok accs') \<Longrightarrow> distinct (map fst accs) \<Longrightarrow>
     view s' = view s \<and> distinct (map fst accs') \<and>
     (\<exists>os. outs = map Some os \<and>
        accs' = accs @ map (\<lambda>out. (out_Address out,
          case view s (out_Address out) of Some acc \<Rightarrow> acc | None \<Rightarrow> new_output_account (out_Address out))) os)"
proof (induction outs arbitrary: b accs s)
  case (Cons p outs)
  let ?acc = "\<lambda>v out. case v (out_Address out) of Some acc \<Rightarrow> acc | None \<Rightarrow> new_output_account (out_Address out)"
  from Cons.prems obtain out s1 s2 b' where out: "p = Some out" "map_of accs (out_Address out) = None"
    "getOrMakeOutputs GetAccount b' (accs @ [(out_Address out, ?acc (view s) out)]) outs s2 = (s', Ok accs')"
    "view s2 = view s"
    by (auto simp: exec_eqs deref_def hasCreateAccountPermission_def ecall_get get_keeps
        dest!: all_have_eq_Ok split: option.splits if_splits)
  moreover have "distinct (map fst (accs @ [(out_Address out, ?acc (view s) out)]))"
    using out(2) Cons.prems(2) by (auto simp: map_of_eq_None_iff image_iff)
  ultimately obtain os where "view s' = view s" "distinct (map fst accs')" "outs = map Some os"
    "accs' = (accs @ [(out_Address out, ?acc (view s) out)]) @ map (\<lambda>out. (out_Address out, ?acc (view s) out)) os"
    using Cons.IH [OF out(3)] by auto
  then show ?case
    using out(1) by (auto intro!: exI [of _ "out # os"])
qed (simp add: elift_def)

end

interpretation cache_getter: account_getter bc_GetAccount bc_view
  by unfold_locales simp_all

interpretation state_getter: account_getter State_getter State_GetAccount
  by unfold_locales (simp_all add: State_getter_def)

end
