(* ===== verification/Tx_Cache.thy ===== *)
theory Tx_Cache
  imports Block_Cache
begin

text \<open>
  The cache one contract call runs on (the vendored \<open>state/tx_cache.go\<close>, with \<open>vm/types.go\<close>): the
  accounts and storage words the machine wrote, in front of a block cache, to which \<open>Sync\<close> writes
  them when the call succeeds.

  The machine changes accounts through pointers, and whether such a change is kept depends on who
  else holds the pointer: \<open>GetAccount\<close> returns the cached object when there is one and a new object,
  which the cache does not remember, when the account comes from the block cache. The \<open>vm.Account\<close>
  objects of a call are therefore kept in an explicit heap (\<open>tc_heap\<close>), a pointer is an index into
  it, and the cache maps addresses to pointers.
\<close>

section \<open>Data\<close>

text \<open>\<open>Other\<close> is an \<open>interface{}\<close>: nil, a public key, or the cache's \<open>vmAccountOther\<close>.\<close>

datatype vm_other = NoOther | PubKeyOther "bytes option" | StateOther "bytes option" bytes

record VMAccount =
  vm_Address :: word256
  vm_Balance :: int
  vm_Code :: bytes
  vm_Nonce :: int
  vm_Other :: vm_other
  vm_Permissions :: AccountPermissions

record vm_Params =
  vm_BlockHeight :: int
  BlockHash :: word256
  BlockTime :: int
  GasLimit :: int

type_synonym acc_ref = nat

type_synonym fired = "(string \<times> EventData) list"

record vmAccountInfo =
  va_account :: "acc_ref option"
  va_removed :: bool

record TxCache =
  tc_backend :: BlockCache
  tc_accounts :: "(word256, vmAccountInfo) gomap"
  tc_storages :: "(word256 \<times> word256, word256) gomap"
  tc_heap :: "VMAccount list"

definition NewTxCache :: "BlockCache \<Rightarrow> TxCache" where
  "NewTxCache backend = \<lparr> tc_backend = backend, tc_accounts = [], tc_storages = [], tc_heap = [] \<rparr>"

definition vm_info :: "TxCache \<Rightarrow> word256 \<Rightarrow> vmAccountInfo" where
  "vm_info c addr =
     (case map_of (tc_accounts c) addr of None \<Rightarrow> \<lparr> va_account = None, va_removed = False \<rparr> | Some info \<Rightarrow> info)"

definition set_vm_info :: "word256 \<Rightarrow> vmAccountInfo \<Rightarrow> TxCache \<Rightarrow> TxCache" where
  "set_vm_info addr info c = c\<lparr> tc_accounts := AList.update addr info (tc_accounts c) \<rparr>"

text \<open>The object a pointer refers to, a new object, and a change of an object's fields.\<close>

definition tc_obj :: "TxCache \<Rightarrow> acc_ref \<Rightarrow> VMAccount" where
  "tc_obj c r = tc_heap c ! r"

definition tc_new :: "VMAccount \<Rightarrow> TxCache \<Rightarrow> acc_ref \<times> TxCache" where
  "tc_new acc c = (length (tc_heap c), c\<lparr> tc_heap := tc_heap c @ [acc] \<rparr>)"

definition tc_modify :: "acc_ref \<Rightarrow> (VMAccount \<Rightarrow> VMAccount) \<Rightarrow> TxCache \<Rightarrow> TxCache" where
  "tc_modify r f c = c\<lparr> tc_heap := (tc_heap c)[r := f (tc_heap c ! r)] \<rparr>"

section \<open>Conversions\<close>

definition state_toVMAccount :: "Account \<Rightarrow> VMAccount outcome" where
  "state_toVMAccount acc =
     obind (LeftPadWord256 (acc_Address acc)) (\<lambda>addr.
     Ok \<lparr> vm_Address = addr, vm_Balance = acc_Balance acc, vm_Code = acc_Code acc, vm_Nonce = acc_Sequence acc,
          vm_Other = StateOther (acc_PubKey acc) (acc_StorageRoot acc), vm_Permissions = acc_Permissions acc \<rparr>)"

definition toStateAccount :: "VMAccount \<Rightarrow> Account outcome" where
  "toStateAccount acc =
     obind (case vm_Other acc of
              NoOther \<Rightarrow> Ok (None, [])
            | StateOther pubKey storageRoot \<Rightarrow> Ok (pubKey, storageRoot)
            | PubKeyOther _ \<Rightarrow> Panic ''interface conversion'') (\<lambda>(pubKey, storageRoot).
     Ok \<lparr> acc_Address = Postfix20 (vm_Address acc), acc_PubKey = pubKey, acc_Sequence = vm_Nonce acc,
          acc_Balance = vm_Balance acc, acc_Code = vm_Code acc, acc_StorageRoot = storageRoot,
          acc_Permissions = vm_Permissions acc \<rparr>)"

section \<open>Accounts\<close>

definition tc_GetAccount :: "word256 \<Rightarrow> TxCache \<Rightarrow> (acc_ref option \<times> TxCache) outcome" where
  "tc_GetAccount addr c =
     (let info = vm_info c addr in
      if va_removed info then Ok (None, c)
      else case va_account info of
        Some r \<Rightarrow> Ok (Some r, c)
      | None \<Rightarrow>
          (case bc_GetAccount (Postfix20 addr) (tc_backend c) of
             (None, b) \<Rightarrow> Ok (None, c\<lparr> tc_backend := b \<rparr>)
           | (Some acc, b) \<Rightarrow>
               obind (state_toVMAccount acc) (\<lambda>vacc.
               let (r, c) = tc_new vacc (c\<lparr> tc_backend := b \<rparr>) in Ok (Some r, c))))"

definition tc_UpdateAccount :: "acc_ref \<Rightarrow> TxCache \<Rightarrow> TxCache outcome" where
  "tc_UpdateAccount r c =
     (let addr = vm_Address (tc_obj c r) in
      if va_removed (vm_info c addr) then Panic ''UpdateAccount on a removed account''
      else Ok (set_vm_info addr \<lparr> va_account = Some r, va_removed = False \<rparr> c))"

definition tc_RemoveAccount :: "acc_ref \<Rightarrow> TxCache \<Rightarrow> TxCache outcome" where
  "tc_RemoveAccount r c =
     (let addr = vm_Address (tc_obj c r) in
      if va_removed (vm_info c addr) then Panic ''RemoveAccount on a removed account''
      else Ok (set_vm_info addr \<lparr> va_account = Some r, va_removed = True \<rparr> c))"

definition tc_CreateAccount :: "wire_env \<Rightarrow> acc_ref \<Rightarrow> TxCache \<Rightarrow> (acc_ref \<times> TxCache) outcome" where
  "tc_CreateAccount W creator c =
     (let nonce = vm_Nonce (tc_obj c creator);
          c = tc_modify creator (\<lambda>acc. acc\<lparr> vm_Nonce := wrap64 (nonce + 1) \<rparr>) c in
      obind (LeftPadWord256 (NewContractAddress W (Postfix20 (vm_Address (tc_obj c creator))) nonce)) (\<lambda>addr.
      if va_removed (vm_info c addr) \<or> va_account (vm_info c addr) = None then
        obind (tc_GetAccount Zero256 c) (\<lambda>(global, c).
        obind (deref global) (\<lambda>global.
        let (r, c) = tc_new \<lparr> vm_Address = addr, vm_Balance = 0, vm_Code = [], vm_Nonce = 0,
                              vm_Other = StateOther None [],
                              vm_Permissions = vm_Permissions (tc_obj c global) \<rparr> c in
        Ok (r, set_vm_info addr \<lparr> va_account = Some r, va_removed = False \<rparr> c)))
      else Panic (''Could not create account, address already exists: '' @ fmt_X addr)))"

section \<open>Storage\<close>

definition tc_GetStorage :: "word256 \<Rightarrow> word256 \<Rightarrow> TxCache \<Rightarrow> (word256 \<times> TxCache) outcome" where
  "tc_GetStorage addr key c =
     (case map_of (tc_storages c) (addr, key) of
        Some value \<Rightarrow> Ok (value, c)
      | None \<Rightarrow> obind (bc_GetStorage addr key (tc_backend c)) (\<lambda>(value, b). Ok (value, c\<lparr> tc_backend := b \<rparr>)))"

definition tc_SetStorage :: "word256 \<Rightarrow> word256 \<Rightarrow> word256 \<Rightarrow> TxCache \<Rightarrow> TxCache outcome" where
  "tc_SetStorage addr key value c =
     (if va_removed (vm_info c addr) then Panic ''SetStorage() on a removed account''
      else Ok (c\<lparr> tc_storages := AList.update (addr, key) value (tc_storages c) \<rparr>))"

section \<open>Sync\<close>

text \<open>Go visits both maps in any order; the model takes the order of insertion.\<close>

definition sync_vm_account ::
  "VMAccount list \<Rightarrow> word256 \<Rightarrow> vmAccountInfo \<Rightarrow> BlockCache \<Rightarrow> BlockCache outcome" where
  "sync_vm_account objs addr info b =
     (if va_removed info then bc_RemoveAccount (Postfix20 addr) b
      else obind (deref (va_account info)) (\<lambda>r.
           obind (toStateAccount (objs ! r)) (\<lambda>sacc. bc_UpdateAccount sacc b)))"

definition tc_Sync :: "TxCache \<Rightarrow> BlockCache outcome" where
  "tc_Sync c =
     obind (each (\<lambda>(addr, key) value. bc_SetStorage addr key value) (tc_storages c) (tc_backend c))
       (each (sync_vm_account (tc_heap c)) (tc_accounts c))"

section \<open>Facts\<close>

lemma Postfix20_pad: "length a = 20 \<Longrightarrow> LeftPadWord256 a = Ok w \<Longrightarrow> Postfix20 w = a"
  by (auto simp: LeftPadWord256_def Postfix20_def split: if_splits)

text \<open>
  Converting an account with a 20-byte address for the machine and back gives the same account.
\<close>

theorem toStateAccount_toVMAccount:
  assumes "length (acc_Address acc) = 20"
  shows "obind (state_toVMAccount acc) toStateAccount = Ok acc"
  using assms by (simp add: state_toVMAccount_def toStateAccount_def LeftPadWord256_def Postfix20_def)

theorem toStateAccount_toVMAccount_witness:
  "obind (state_toVMAccount (sample_account (replicate 20 1) 5)) toStateAccount = Ok (sample_account (replicate 20 1) 5)"
  using toStateAccount_toVMAccount [of "sample_account (replicate 20 1) 5"] by (simp add: sample_account_def)

end
