(* ===== verification/Word256.thy ===== *)
theory Word256
  imports Block_Cache
begin

text \<open>
  The 32-byte words of the contract machine (the vendored \<open>common/word.go\<close>, \<open>common/int.go\<close>,
  \<open>common/byteslice.go\<close>, \<open>vm/common.go\<close>): big-endian byte strings, their 64-bit ends, and the big
  integers the arithmetic instructions compute with. \<open>math/big\<close> is modelled by \<open>int\<close>.
\<close>

section \<open>Conversions\<close>

definition One256 :: word256 where
  "One256 = 1 # replicate 31 0"

definition Int64ToWord256 :: "int \<Rightarrow> word256" where
  "Int64ToWord256 i = replicate 24 0 @ PutInt64BE i"

definition GetUint64BE :: "bytes \<Rightarrow> uint" where
  "GetUint64BE src = foldl (\<lambda>a b. push_bit 8 a OR ucast b) 0 (take 8 src)"

definition Uint64FromWord256 :: "word256 \<Rightarrow> uint" where
  "Uint64FromWord256 w = GetUint64BE (drop (length w - 8) w)"

definition Int64FromWord256 :: "word256 \<Rightarrow> int" where
  "Int64FromWord256 w = sint (Uint64FromWord256 w)"

definition RightPadBytes :: "bytes \<Rightarrow> nat \<Rightarrow> bytes" where
  "RightPadBytes bs l = (if l < length bs then bs else bs @ replicate (l - length bs) 0)"

definition pad_left :: "bytes \<Rightarrow> nat \<Rightarrow> bytes" where
  "pad_left bs l = (if l < length bs then bs else replicate (l - length bs) 0 @ bs)"

section \<open>Big integers\<close>

definition SetBytes :: "bytes \<Rightarrow> int" where
  "SetBytes bs = foldl (\<lambda>a b. a * 256 + uint b) 0 bs"

function big_Bytes :: "int \<Rightarrow> bytes" where
  "big_Bytes x = (if x \<le> 0 then [] else big_Bytes (x div 256) @ [word_of_int x])"
  by pat_completeness auto
termination
  by (relation "measure nat") auto

declare big_Bytes.simps [simp del]

definition U256 :: "int \<Rightarrow> int" where
  "U256 x = x mod 2 ^ 256"

definition S256 :: "int \<Rightarrow> int" where
  "S256 x = (if x < 2 ^ 255 then x else x - 2 ^ 256)"

text \<open>Division of \<open>big.Int\<close> is Euclidean: the remainder is never negative.\<close>

definition big_Div :: "int \<Rightarrow> int \<Rightarrow> int" where
  "big_Div x y = (if y > 0 then x div y else - (x div (- y)))"

definition big_Mod :: "int \<Rightarrow> int \<Rightarrow> int" where
  "big_Mod x y = x mod \<bar>y\<bar>"

definition big_word :: "int \<Rightarrow> word256 outcome" where
  "big_word x = LeftPadWord256 (big_Bytes (U256 x))"

section \<open>Laws\<close>

lemma length_Int64ToWord256 [simp]: "length (Int64ToWord256 i) = 32"
  by (simp add: Int64ToWord256_def)

lemma length_Zero256 [simp]: "length Zero256 = 32"
  by (simp add: Zero256_def)

lemma length_One256 [simp]: "length One256 = 32"
  by (simp add: One256_def)

lemma SetBytes_append: "SetBytes (xs @ [b]) = SetBytes xs * 256 + uint b"
  by (simp add: SetBytes_def)

lemma SetBytes_zeros: "SetBytes (replicate n 0 @ bs) = SetBytes bs"
proof -
  have "foldl (\<lambda>a (b :: byte). a * 256 + uint b) 0 (replicate n 0) = 0"
    by (induction n) auto
  then show ?thesis by (simp add: SetBytes_def)
qed

lemma SetBytes_bounds: "0 \<le> SetBytes bs \<and> SetBytes bs < 256 ^ length bs"
proof (induction bs rule: rev_induct)
  case Nil then show ?case by (simp add: SetBytes_def)
next
  case (snoc b bs)
  have "0 \<le> uint b" "uint b < 256" using uint_bounded [of b] by simp_all
  with snoc show ?case by (auto simp: SetBytes_append)
qed

lemma SetBytes_Cons: "SetBytes (b # bs) = uint b * 256 ^ length bs + SetBytes bs"
  by (induction bs rule: rev_induct)
    (simp_all add: SetBytes_append SetBytes_append [of "_ # _", simplified] algebra_simps SetBytes_def)

lemma SetBytes_inject:
  "length xs = length ys \<Longrightarrow> SetBytes xs = SetBytes ys \<Longrightarrow> xs = ys"
proof (induction xs ys rule: rev_induct2)
  case 1 then show ?case by simp
next
  case (2 x xs) then show ?case by simp
next
  case (3 y ys) then show ?case by simp
next
  case (4 x xs y ys)
  have b: "uint x < 256" "uint y < 256" "0 \<le> uint x" "0 \<le> uint y"
    using uint_bounded [of x] uint_bounded [of y] by simp_all
  have eq: "SetBytes xs * 256 + uint x = SetBytes ys * 256 + uint y"
    using 4 by (simp add: SetBytes_append)
  then have "SetBytes xs = SetBytes ys" using b by linarith
  moreover from this eq have "uint x = uint y" by simp
  ultimately show ?case using 4 by (simp add: word_uint_eq_iff)
qed

lemma SetBytes_big_Bytes: "SetBytes (big_Bytes x) = max 0 x"
proof (induction x rule: big_Bytes.induct)
  case (1 x)
  show ?case
  proof (cases "x \<le> 0")
    case True then show ?thesis by (simp add: big_Bytes.simps SetBytes_def)
  next
    case False
    then have "SetBytes (big_Bytes x) = (x div 256) * 256 + x mod 256"
      using 1 by (simp add: big_Bytes.simps [of x] SetBytes_append uint_word_of_int take_bit_eq_mod)
    then show ?thesis using False by simp
  qed
qed

lemma length_big_Bytes: "x < 256 ^ n \<Longrightarrow> length (big_Bytes x) \<le> n"
proof (induction n arbitrary: x)
  case 0 then show ?case by (simp add: big_Bytes.simps)
next
  case (Suc n)
  then have "x div 256 < 256 ^ n" by auto
  with Suc.IH [of "x div 256"] show ?case by (simp add: big_Bytes.simps [of x])
qed

text \<open>The word of a big integer: 32 bytes that hold it modulo 2 to the 256.\<close>

lemma big_word_Ok: "\<exists>w. big_word x = Ok w \<and> length w = 32 \<and> SetBytes w = x mod 2 ^ 256"
proof -
  have "length (big_Bytes (U256 x)) \<le> 32"
    by (rule length_big_Bytes) (simp add: U256_def)
  then show ?thesis
    by (simp add: big_word_def LeftPadWord256_def SetBytes_zeros SetBytes_big_Bytes U256_def)
qed

lemma big_word_SetBytes: "length w = 32 \<Longrightarrow> big_word (SetBytes w) = Ok w"
  using big_word_Ok [of "SetBytes w"] SetBytes_bounds [of w] SetBytes_inject by fastforce

end
