(* ===== verification/Evm_Native.thy ===== *)
theory Evm_Native
  imports Word256 Tx_Cache Tx_Validation
begin

text \<open>
  The contracts that are part of the machine (the vendored \<open>vm/native.go\<close>, \<open>vm/snative.go\<close>): three
  hash-like functions and the permissions contract, through which contracts read and change the
  permissions of accounts. The SHA-256 and RIPEMD-160 functions, and the machine's SHA3, are
  parameters. A native contract gets the gas of the call, which it lowers, and works on the cache.
\<close>

section \<open>Errors and gas\<close>

definition ErrUnknownAddress :: string where "ErrUnknownAddress = ''Unknown address''"
definition ErrInsufficientBalance :: string where "ErrInsufficientBalance = ''Insufficient balance''"
definition ErrInvalidJumpDest :: string where "ErrInvalidJumpDest = ''Invalid jump dest''"
definition ErrInsufficientGas :: string where "ErrInsufficientGas = ''Insuffient gas''"
definition ErrMemoryOutOfBounds :: string where "ErrMemoryOutOfBounds = ''Memory out of bounds''"
definition ErrCodeOutOfBounds :: string where "ErrCodeOutOfBounds = ''Code out of bounds''"
definition ErrInputOutOfBounds :: string where "ErrInputOutOfBounds = ''Input out of bounds''"
definition ErrDataStackOverflow :: string where "ErrDataStackOverflow = ''Data stack overflow''"
definition ErrDataStackUnderflow :: string where "ErrDataStackUnderflow = ''Data stack underflow''"

definition ErrPermission :: "string \<Rightarrow> string" where
  "ErrPermission typ = ''Contract does not have permission to '' @ typ"

definition GasSha3 :: int where "GasSha3 = 1"
definition GasGetAccount :: int where "GasGetAccount = 1"
definition GasStorageUpdate :: int where "GasStorageUpdate = 1"
definition GasBaseOp :: int where "GasBaseOp = 0"
definition GasStackOp :: int where "GasStackOp = 1"
definition GasSha256Word :: int where "GasSha256Word = 1"
definition GasSha256Base :: int where "GasSha256Base = 1"
definition GasRipemd160Word :: int where "GasRipemd160Word = 1"
definition GasRipemd160Base :: int where "GasRipemd160Base = 1"
definition GasIdentityWord :: int where "GasIdentityWord = 1"
definition GasIdentityBase :: int where "GasIdentityBase = 1"

section \<open>Permissions\<close>

definition vm_GetAccount :: "word256 \<Rightarrow> (TxCache, acc_ref option) exec" where
  "vm_GetAccount addr c =
     (case tc_GetAccount addr c of
        Ok (r, c') \<Rightarrow> (c', Ok r) | Err e \<Rightarrow> (c, Err e) | Panic e \<Rightarrow> (c, Panic e))"

definition vm_HasPermission :: "acc_ref \<Rightarrow> PermFlag \<Rightarrow> (TxCache, bool) exec" where
  "vm_HasPermission acc perm =
     ebind (eread (\<lambda>c. perm_Get (Base (vm_Permissions (tc_obj c acc))) perm)) (\<lambda>r. case r of
       PermValue v \<Rightarrow> eret v
     | ErrInvalidPermission _ \<Rightarrow> eret False
     | ErrValueNotSet _ \<Rightarrow>
         ebind (vm_GetAccount Zero256) (\<lambda>global.
         ebind (elift (deref global)) (\<lambda>global.
         ebind (eread (\<lambda>c. perm_Get (Base (vm_Permissions (tc_obj c global))) perm)) (\<lambda>r. case r of
           PermValue v \<Rightarrow> eret v
         | ErrInvalidPermission _ \<Rightarrow> eret False
         | ErrValueNotSet _ \<Rightarrow> eret False))))"

section \<open>Hash functions\<close>

record hash_env =
  Sha3 :: "bytes \<Rightarrow> bytes"
  Sha256 :: "bytes \<Rightarrow> bytes"
  hash_Ripemd160 :: "bytes \<Rightarrow> bytes"

type_synonym native = "acc_ref \<Rightarrow> bytes \<Rightarrow> int \<Rightarrow> TxCache \<Rightarrow> TxCache \<times> int \<times> bytes outcome"

definition native_words :: "bytes \<Rightarrow> int" where
  "native_words input = (int (length input) + 31) div 32"

definition charge_native :: "int \<Rightarrow> bytes \<Rightarrow> int \<Rightarrow> TxCache \<Rightarrow> TxCache \<times> int \<times> bytes outcome" where
  "charge_native gasRequired out gas c =
     (if gas < gasRequired then (c, gas, Err ErrInsufficientGas) else (c, gas - gasRequired, Ok out))"

definition sha256Func :: "hash_env \<Rightarrow> native" where
  "sha256Func H caller input =
     charge_native (native_words input * GasSha256Word + GasSha256Base) (Sha256 H input)"

definition ripemd160Func :: "hash_env \<Rightarrow> native" where
  "ripemd160Func H caller input =
     charge_native (native_words input * GasRipemd160Word + GasRipemd160Base) (pad_left (hash_Ripemd160 H input) 32)"

definition identityFunc :: native where
  "identityFunc caller input = charge_native (native_words input * GasIdentityWord + GasIdentityBase) input"

section \<open>The permissions contract\<close>

datatype snative = has_base | set_base | unset_base | set_global | has_role | add_role | rm_role

record SNativeFuncDescription =
  sn_Name :: string
  sn_NArgs :: nat
  sn_PermFlag :: PermFlag
  sn_F :: snative

definition PermsMap :: "(string, SNativeFuncDescription) gomap" where
  "PermsMap =
     [(''054556ac'', \<lparr> sn_Name = ''has_role'', sn_NArgs = 2, sn_PermFlag = Perm_HasRole, sn_F = has_role \<rparr>),
      (''180d26f2'', \<lparr> sn_Name = ''unset_base'', sn_NArgs = 2, sn_PermFlag = Perm_UnsetBase, sn_F = unset_base \<rparr>),
      (''3a3fcc59'', \<lparr> sn_Name = ''set_global'', sn_NArgs = 2, sn_PermFlag = Perm_SetGlobal, sn_F = set_global \<rparr>),
      (''9a1c4141'', \<lparr> sn_Name = ''add_role'', sn_NArgs = 2, sn_PermFlag = Perm_AddRole, sn_F = add_role \<rparr>),
      (''9ea53314'', \<lparr> sn_Name = ''set_base'', sn_NArgs = 3, sn_PermFlag = Perm_SetBase, sn_F = set_base \<rparr>),
      (''bb37737a'', \<lparr> sn_Name = ''has_base'', sn_NArgs = 2, sn_PermFlag = Perm_HasBase, sn_F = has_base \<rparr>),
      (''ded3350a'', \<lparr> sn_Name = ''rm_role'', sn_NArgs = 2, sn_PermFlag = Perm_RmRole, sn_F = rm_role \<rparr>)]"

definition ValidPermN :: "PermFlag \<Rightarrow> bool" where
  "ValidPermN n \<longleftrightarrow> \<not> n > TopPermFlag"

definition arg256 :: "nat \<Rightarrow> bytes \<Rightarrow> word256" where
  "arg256 i args = take 32 (drop (32 * i) args)"

definition bool_word :: "bool \<Rightarrow> bytes" where
  "bool_word b = replicate 31 0 @ [if b then 1 else 0]"

definition bytes_string :: "bytes \<Rightarrow> string" where
  "bytes_string = map (\<lambda>b. char_of (unat b))"

definition unknown_account :: "word256 \<Rightarrow> string" where
  "unknown_account addr = ''Unknown account '' @ fmt_X addr"

definition known_account :: "word256 \<Rightarrow> (TxCache, acc_ref) exec" where
  "known_account addr =
     ebind (vm_GetAccount addr) (\<lambda>acc. case acc of
       None \<Rightarrow> elift (Err (unknown_account addr)) | Some r \<Rightarrow> eret r)"

definition valid_perm :: "word256 \<Rightarrow> (TxCache, PermFlag) exec" where
  "valid_perm permNum =
     (let permN = Uint64FromWord256 permNum in
      if ValidPermN permN then eret permN
      else elift (Err (''invalid permission '' @ show_nat (unat permN))))"

text \<open>Changing the base permissions of an account through its pointer, and storing the account.\<close>

definition change_base ::
  "acc_ref \<Rightarrow> (BasePermissions \<Rightarrow> BasePermissions outcome) \<Rightarrow> (TxCache, unit) exec" where
  "change_base acc f =
     ebind (eread (\<lambda>c. f (Base (vm_Permissions (tc_obj c acc))))) (\<lambda>r.
     ebind (elift r) (\<lambda>base.
     ebind (echange (tc_modify acc (\<lambda>a. a\<lparr> vm_Permissions := (vm_Permissions a)\<lparr> Base := base \<rparr> \<rparr>))) (\<lambda>_.
     etry (tc_UpdateAccount acc))))"

definition change_roles ::
  "acc_ref \<Rightarrow> (AccountPermissions \<Rightarrow> bool \<times> AccountPermissions) \<Rightarrow> (TxCache, bool) exec" where
  "change_roles acc f =
     ebind (eread (\<lambda>c. f (vm_Permissions (tc_obj c acc)))) (\<lambda>(changed, perms).
     ebind (echange (tc_modify acc (\<lambda>a. a\<lparr> vm_Permissions := perms \<rparr>))) (\<lambda>_.
     ebind (etry (tc_UpdateAccount acc)) (\<lambda>_.
     eret changed)))"

definition run_has_base :: "bytes \<Rightarrow> (TxCache, bytes) exec" where
  "run_has_base args =
     ebind (known_account (arg256 0 args)) (\<lambda>acc.
     ebind (valid_perm (arg256 1 args)) (\<lambda>permN.
     ebind (vm_HasPermission acc permN) (\<lambda>v.
     eret (bool_word v))))"

definition run_set_base :: "bytes \<Rightarrow> (TxCache, bytes) exec" where
  "run_set_base args =
     ebind (known_account (arg256 0 args)) (\<lambda>acc.
     ebind (valid_perm (arg256 1 args)) (\<lambda>permN.
     let perm = arg256 2 args in
     ebind (change_base acc (\<lambda>b. perm_Set b permN (\<not> word_IsZero perm))) (\<lambda>_.
     eret perm)))"

definition run_unset_base :: "bytes \<Rightarrow> (TxCache, bytes) exec" where
  "run_unset_base args =
     ebind (known_account (arg256 0 args)) (\<lambda>acc.
     ebind (valid_perm (arg256 1 args)) (\<lambda>permN.
     ebind (change_base acc (\<lambda>b. perm_Unset b permN)) (\<lambda>_.
     eret (arg256 1 args))))"

definition run_set_global :: "bytes \<Rightarrow> (TxCache, bytes) exec" where
  "run_set_global args =
     ebind (vm_GetAccount Zero256) (\<lambda>acc. case acc of
       None \<Rightarrow> elift (Panic ''cant find the global permissions account'')
     | Some acc \<Rightarrow>
         ebind (valid_perm (arg256 0 args)) (\<lambda>permN.
         let perm = arg256 1 args in
         ebind (change_base acc (\<lambda>b. perm_Set b permN (\<not> word_IsZero perm))) (\<lambda>_.
         eret perm)))"

definition run_has_role :: "bytes \<Rightarrow> (TxCache, bytes) exec" where
  "run_has_role args =
     ebind (known_account (arg256 0 args)) (\<lambda>acc.
     ebind (eread (\<lambda>c. perm_HasRole (vm_Permissions (tc_obj c acc)) (bytes_string (arg256 1 args)))) (\<lambda>v.
     eret (bool_word v)))"

definition run_add_role :: "bytes \<Rightarrow> (TxCache, bytes) exec" where
  "run_add_role args =
     ebind (known_account (arg256 0 args)) (\<lambda>acc.
     ebind (change_roles acc (\<lambda>p. perm_AddRole p (bytes_string (arg256 1 args)))) (\<lambda>v.
     eret (bool_word v)))"

definition run_rm_role :: "bytes \<Rightarrow> (TxCache, bytes) exec" where
  "run_rm_role args =
     ebind (known_account (arg256 0 args)) (\<lambda>acc.
     ebind (change_roles acc (\<lambda>p. perm_RmRole p (bytes_string (arg256 1 args)))) (\<lambda>v.
     eret (bool_word v)))"

primrec run_snative :: "snative \<Rightarrow> bytes \<Rightarrow> (TxCache, bytes) exec" where
  "run_snative has_base = run_has_base"
| "run_snative set_base = run_set_base"
| "run_snative unset_base = run_unset_base"
| "run_snative set_global = run_set_global"
| "run_snative has_role = run_has_role"
| "run_snative add_role = run_add_role"
| "run_snative rm_role = run_rm_role"

definition snative_denied :: "word256 \<Rightarrow> string \<Rightarrow> string" where
  "snative_denied addr name =
     ''Account '' @ fmt_X (Postfix20 addr) @ '' does not have permission snative.'' @ name"

definition permissionsContract :: "acc_ref \<Rightarrow> bytes \<Rightarrow> (TxCache, bytes) exec" where
  "permissionsContract caller args =
     ebind (require (\<not> length args < 4) ''permissionsContract expects at least a 4-byte function identifier'') (\<lambda>_.
     let funcID = EncodeToString (take 4 args); args = drop 4 args in
     case map_of PermsMap funcID of
       None \<Rightarrow> elift (Err (''unknown permissionsContract funcID '' @ funcID))
     | Some d \<Rightarrow>
         ebind (vm_HasPermission caller (sn_PermFlag d)) (\<lambda>allowed.
         ebind (eread (\<lambda>c. vm_Address (tc_obj c caller))) (\<lambda>addr.
         ebind (require allowed (snative_denied addr (sn_Name d))) (\<lambda>_.
         ebind (require (length args = sn_NArgs d * 32) (sn_Name d @ ''() takes %!d(MISSING) arguments'')) (\<lambda>_.
         run_snative (sn_F d) args)))))"

section \<open>The table of native contracts\<close>

definition PermissionsContract :: string where
  "PermissionsContract = ''permissions_contract''"

definition permissions_address :: word256 where
  "permissions_address = replicate 12 0 @ map of_char PermissionsContract"

definition registeredNativeContracts :: "hash_env \<Rightarrow> (word256, native) gomap" where
  "registeredNativeContracts H =
     [(Int64ToWord256 2, sha256Func H), (Int64ToWord256 3, ripemd160Func H), (Int64ToWord256 4, identityFunc),
      (permissions_address,
       \<lambda>caller args gas c. case permissionsContract caller args c of (c, r) \<Rightarrow> (c, gas, r))]"

definition RegisteredNativeContract :: "word256 \<Rightarrow> bool" where
  "RegisteredNativeContract addr \<longleftrightarrow>
     addr \<in> {Int64ToWord256 2, Int64ToWord256 3, Int64ToWord256 4, permissions_address}"

lemma RegisteredNativeContract_table:
  "RegisteredNativeContract addr \<longleftrightarrow> map_of (registeredNativeContracts H) addr \<noteq> None"
  by (simp add: RegisteredNativeContract_def registeredNativeContracts_def)

end
