(* ===== verification/Tx_Execution.thy ===== *)
theory Tx_Execution
  imports Evm_Native
begin

text \<open>
  Executing a transaction (\<open>ExecTx\<close> of the vendored \<open>state/execution.go\<close>), one definition per type of
  transaction. Each takes the block cache and returns the cache it leaves behind, also after an
  error, and the outcome: the transaction as it was changed by the execution (an input loses a public
  key that is known already) and the events that were fired, none when there is no \<open>evc\<close>.

  The virtual machine is the parameter \<open>vm_Run\<close> of the environment. It gets the transaction cache,
  in which the caller and the callee have been stored, and returns the cache, the events it fired
  and the result. \<open>runCall\<close> is false in the mempool, which runs no code.
\<close>

section \<open>Environment and events\<close>

record exec_env =
  ex_wire :: wire_env
  vm_Run :: "vm_Params \<Rightarrow> word256 \<Rightarrow> bytes \<Rightarrow> bool \<Rightarrow> acc_ref \<Rightarrow> acc_ref \<Rightarrow> bytes \<Rightarrow> bytes \<Rightarrow> int \<Rightarrow> int \<Rightarrow>
             TxCache \<Rightarrow> TxCache \<times> fired \<times> bytes outcome"

type_synonym tx_result = "Tx \<times> fired"

definition fire :: "bool \<Rightarrow> fired \<Rightarrow> fired" where
  "fire evc evs = (if evc then evs else [])"

definition tx_event :: "Tx \<Rightarrow> EventData" where
  "tx_event tx = EvTx \<lparr> edt_Tx = tx, edt_Return = [], edt_Exception = [] \<rparr>"

definition EventStringNameReg :: "string \<Rightarrow> string" where
  "EventStringNameReg name = ''NameReg/'' @ name"

definition EventStringPermissions :: "string \<Rightarrow> string" where
  "EventStringPermissions name = ''Permissions/'' @ name"

fun update_all :: "(bytes, Account) gomap \<Rightarrow> BlockCache \<Rightarrow> BlockCache outcome" where
  "update_all [] c = Ok c"
| "update_all ((_, acc) # accs) c = obind (bc_UpdateAccount acc c) (update_all accs)"

section \<open>Sending\<close>

definition in_addresses :: "TxInput option list \<Rightarrow> bytes list" where
  "in_addresses ps = map in_Address (map the (filter (\<lambda>p. p \<noteq> None) ps))"

definition out_addresses :: "TxOutput option list \<Rightarrow> bytes list" where
  "out_addresses ps = map out_Address (map the (filter (\<lambda>p. p \<noteq> None) ps))"

definition exec_SendTx :: "exec_env \<Rightarrow> bool \<Rightarrow> SendTx \<Rightarrow> (BlockCache, tx_result) exec" where
  "exec_SendTx X evc tx =
     ebind (getInputs (ex_wire X) [] (send_Inputs tx)) (\<lambda>(ins, accs).
     ebind (hasSendPermission bc_GetAccount accs) (\<lambda>allowed.
     ebind (require allowed ''At least one input lacks permission for SendTx'') (\<lambda>_.
     ebind (getOrMakeOutputs bc_GetAccount False accs (send_Outputs tx)) (\<lambda>accs.
     let tx = tx\<lparr> send_Inputs := ins \<rparr> in
     ebind (eread (\<lambda>c. ChainID (bc_backend c))) (\<lambda>chainID.
     ebind (elift (SignBytes (ex_wire X) chainID (TxSend tx))) (\<lambda>signBytes.
     ebind (elift (validateInputs (ex_wire X) accs signBytes 0 ins)) (\<lambda>inTotal.
     ebind (elift (validateOutputs 0 (send_Outputs tx))) (\<lambda>outTotal.
     ebind (require (outTotal \<le> inTotal) ErrTxInsufficientFunds) (\<lambda>_.
     ebind (elift (obind (adjustByInputs accs ins) (\<lambda>accs. adjustByOutputs accs (send_Outputs tx)))) (\<lambda>accs.
     ebind (etry (update_all accs)) (\<lambda>_.
     eret (TxSend tx, fire evc
       (map (\<lambda>a. (EventStringAccInput a, tx_event (TxSend tx))) (in_addresses ins) @
        map (\<lambda>a. (EventStringAccOutput a, tx_event (TxSend tx))) (out_addresses (send_Outputs tx)))))))))))))))"

section \<open>The account of a single input\<close>

text \<open>
  Call, name and permission transactions begin alike: the account of the input must exist, have the
  permission, and the input must be signed, in sequence and covered by the balance.
\<close>

definition check_single ::
  "exec_env \<Rightarrow> TxInput option \<Rightarrow> (Account \<Rightarrow> (BlockCache, bool) exec) \<Rightarrow> (bytes \<Rightarrow> string) \<Rightarrow>
   (TxInput \<Rightarrow> Tx) \<Rightarrow> (BlockCache, TxInput \<times> Account) exec" where
  "check_single X input permission denied tx =
     ebind (elift (deref input)) (\<lambda>inp.
     ebind (ecall (bc_GetAccount (in_Address inp))) (\<lambda>inAcc. case inAcc of
       None \<Rightarrow> elift (Err ErrTxInvalidAddress)
     | Some inAcc \<Rightarrow>
         ebind (permission inAcc) (\<lambda>allowed.
         ebind (require allowed (denied (in_Address inp))) (\<lambda>_.
         ebind (check_pub_key (ex_wire X) inAcc inp) (\<lambda>(inAcc, inp).
         ebind (eread (\<lambda>c. ChainID (bc_backend c))) (\<lambda>chainID.
         ebind (elift (SignBytes (ex_wire X) chainID (tx inp))) (\<lambda>signBytes.
         ebind (elift (validateInput (ex_wire X) inAcc signBytes inp)) (\<lambda>_.
         eret (inp, inAcc)))))))))"

section \<open>Calling contracts\<close>

definition call_params :: "State \<Rightarrow> vm_Params outcome" where
  "call_params s =
     obind (LeftPadWord256 (LastBlockHash s)) (\<lambda>h.
     Ok \<lparr> vm_BlockHeight = LastBlockHeight s, BlockHash = h, BlockTime = Unix (LastBlockTime s), GasLimit = GetGasLimit s \<rparr>)"

text \<open>
  The two accounts and the code a call starts with: a new account made from the data, or the
  account that is called.
\<close>

definition call_setup ::
  "exec_env \<Rightarrow> CallTx \<Rightarrow> acc_ref \<Rightarrow> Account option \<Rightarrow> TxCache \<Rightarrow> (acc_ref \<times> bytes \<times> TxCache) outcome" where
  "call_setup X tx caller outAcc t =
     obind (if call_Address tx = [] then
              obind (tc_CreateAccount (ex_wire X) caller t) (\<lambda>(callee, t). Ok (callee, call_Data tx, t))
            else obind (deref outAcc) (\<lambda>outAcc.
              obind (state_toVMAccount outAcc) (\<lambda>acc.
              let (callee, t) = tc_new acc t in Ok (callee, vm_Code acc, t))))
       (\<lambda>(callee, code, t).
        obind (tc_UpdateAccount caller t) (\<lambda>t.
        obind (tc_UpdateAccount callee t) (\<lambda>t. Ok (callee, code, t))))"

text \<open>
  Running the call: the block cache and the return value with the exception. What the call wrote
  reaches the block cache only when it succeeds; what it read stays cached.
\<close>

definition run_call ::
  "exec_env \<Rightarrow> bool \<Rightarrow> CallTx \<Rightarrow> int \<Rightarrow> Account \<Rightarrow> Account option \<Rightarrow> BlockCache \<Rightarrow>
   BlockCache \<times> (fired \<times> bytes \<times> string) outcome" where
  "run_call X evc tx value inAcc outAcc c =
     (case obind (state_toVMAccount inAcc) (\<lambda>caller.
           obind (call_params (bc_backend c)) (\<lambda>params. Ok (caller, params))) of
        Err e \<Rightarrow> (c, Err e) | Panic e \<Rightarrow> (c, Panic e)
      | Ok (callerAcc, params) \<Rightarrow>
          (if call_Address tx \<noteq> [] \<and> (case outAcc of None \<Rightarrow> True | Some acc \<Rightarrow> acc_Code acc = [])
           then (c, Ok ([], [], ErrTxInvalidAddress))
           else
             (let (caller, t) = tc_new callerAcc (NewTxCache c) in
              case obind (call_setup X tx caller outAcc t) (\<lambda>r.
                   obind (TxID (ex_wire X) (ChainID (bc_backend c)) (TxCall tx)) (\<lambda>txid. Ok (r, txid))) of
                Err e \<Rightarrow> (c, Err e) | Panic e \<Rightarrow> (c, Panic e)
              | Ok ((callee, code, t), txid) \<Rightarrow>
                  (case vm_Run X params (vm_Address callerAcc) txid evc caller callee code (call_Data tx) value (call_GasLimit tx) t of
                     (t, evs, Panic e) \<Rightarrow> (tc_backend t, Panic e)
                   | (t, evs, Err e) \<Rightarrow> (tc_backend t, Ok (evs, [], e))
                   | (t, evs, Ok ret) \<Rightarrow>
                       (case tc_Sync (if call_Address tx = [] then tc_modify callee (\<lambda>acc. acc\<lparr> vm_Code := ret \<rparr>) t else t) of
                          Ok c \<Rightarrow> (c, Ok (evs, ret, []))
                        | Err e \<Rightarrow> (tc_backend t, Err e)
                        | Panic e \<Rightarrow> (tc_backend t, Panic e))))))"

definition exec_checked_call ::
  "exec_env \<Rightarrow> bool \<Rightarrow> bool \<Rightarrow> CallTx \<Rightarrow> TxInput \<Rightarrow> Account \<Rightarrow> (BlockCache, tx_result) exec" where
  "exec_checked_call X runCall evc tx inp inAcc =
     (let createContract = call_Address tx = [] in
      ebind (require (call_Fee tx \<le> in_Amount inp) ErrTxInsufficientFunds) (\<lambda>_.
      ebind (require (createContract \<or> length (call_Address tx) = 20) ErrTxInvalidAddress) (\<lambda>_.
      ebind (require (createContract \<or> \<not> RegisteredNativeContract (replicate 12 0 @ call_Address tx))
               (''NativeContracts can not be called using CallTx. '' @
                ''Use a contract or the appropriate tx type (eg. PermissionsTx, NameTx)'')) (\<lambda>_.
      ebind (if createContract then eret None else ecall (bc_GetAccount (call_Address tx))) (\<lambda>outAcc.
      let value = wrap64 (in_Amount inp - call_Fee tx);
          inAcc = inAcc\<lparr> acc_Sequence := wrap64 (acc_Sequence inAcc + 1),
                         acc_Balance := wrap64 (acc_Balance inAcc - call_Fee tx) \<rparr> in
      ebind (etry (bc_UpdateAccount inAcc)) (\<lambda>_.
      if runCall then
        ebind (run_call X evc tx value inAcc
                 (if call_Address tx = in_Address inp then Some inAcc else outAcc)) (\<lambda>(evs, ret, exception).
        let ev = EvTx \<lparr> edt_Tx = TxCall tx, edt_Return = ret, edt_Exception = exception \<rparr> in
        eret (TxCall tx, fire evc (evs @ [(EventStringAccInput (in_Address inp), ev),
                                          (EventStringAccOutput (call_Address tx), ev)])))
      else
        ebind (etry (bc_UpdateAccount
                 (inAcc\<lparr> acc_Balance := wrap64 (acc_Balance inAcc - value),
                        acc_Sequence := (if createContract then wrap64 (acc_Sequence inAcc + 1)
                                         else acc_Sequence inAcc) \<rparr>))) (\<lambda>_.
        eret (TxCall tx, []))))))))"

definition exec_CallTx :: "exec_env \<Rightarrow> bool \<Rightarrow> bool \<Rightarrow> CallTx \<Rightarrow> (BlockCache, tx_result) exec" where
  "exec_CallTx X runCall evc tx =
     (let createContract = call_Address tx = [] in
      ebind (check_single X (call_Input tx)
               (if createContract then hasCreateContractPermission bc_GetAccount else hasCallPermission bc_GetAccount)
               (\<lambda>a. ''Account '' @ fmt_X a @ '' does not have '' @
                    (if createContract then ''CreateContract'' else ''Call'') @ '' permission'')
               (\<lambda>inp. TxCall (tx\<lparr> call_Input := Some inp \<rparr>))) (\<lambda>(inp, inAcc).
      exec_checked_call X runCall evc (tx\<lparr> call_Input := Some inp \<rparr>) inp inAcc))"

section \<open>Names\<close>

definition min_period_error :: string where
  "min_period_error = ''Names must be registered for at least '' @ show_int MinNameRegistrationPeriod @ '' blocks''"

text \<open>What the transaction makes of the entry it finds: \<open>None\<close> when the entry is to be removed.\<close>

definition next_entry ::
  "NameTx \<Rightarrow> bytes \<Rightarrow> int \<Rightarrow> int \<Rightarrow> NameRegEntry option \<Rightarrow> NameRegEntry option outcome" where
  "next_entry tx owner value lastBlockHeight entry =
     (let costPerBlock = NameCostPerBlock (NameBaseCost (name_Name tx) (name_Data tx));
          expiresIn = go_div value costPerBlock in
      case entry of
        None \<Rightarrow>
          (if expiresIn < MinNameRegistrationPeriod then Err min_period_error
           else Ok (Some \<lparr> nre_Name = name_Name tx, nre_Owner = owner, nre_Data = name_Data tx,
                           nre_Expires = wrap64 (lastBlockHeight + expiresIn) \<rparr>))
      | Some e \<Rightarrow>
          (let expired = \<not> nre_Expires e > lastBlockHeight in
           if \<not> expired \<and> nre_Owner e \<noteq> owner then Err ErrTxPermissionDenied
           else if value = 0 \<and> name_Data tx = [] then Ok None
           else if expired then
             (if expiresIn < MinNameRegistrationPeriod then Err min_period_error
              else Ok (Some (e\<lparr> nre_Expires := wrap64 (lastBlockHeight + expiresIn), nre_Owner := owner,
                                nre_Data := name_Data tx \<rparr>)))
           else
             (let oldCredit = wrap64 (wrap64 (nre_Expires e - lastBlockHeight) * NameBaseCost (nre_Name e) (nre_Data e));
                  expiresIn = go_div (wrap64 (oldCredit + value)) costPerBlock in
              if expiresIn < MinNameRegistrationPeriod then Err min_period_error
              else Ok (Some (e\<lparr> nre_Expires := wrap64 (lastBlockHeight + expiresIn), nre_Data := name_Data tx \<rparr>)))))"

definition write_entry :: "NameRegEntry option \<Rightarrow> NameRegEntry option \<Rightarrow> BlockCache \<Rightarrow> BlockCache outcome" where
  "write_entry old new c =
     (case new of
        Some e \<Rightarrow> Ok (bc_UpdateNameRegEntry e c)
      | None \<Rightarrow> obind (deref old) (\<lambda>e. bc_RemoveNameRegEntry (nre_Name e) c))"

definition exec_NameTx :: "exec_env \<Rightarrow> bool \<Rightarrow> NameTx \<Rightarrow> (BlockCache, tx_result) exec" where
  "exec_NameTx X evc tx =
     ebind (check_single X (name_Input tx) (hasNamePermission bc_GetAccount)
              (\<lambda>a. ''Account '' @ fmt_X a @ '' does not have Name permission'')
              (\<lambda>inp. TxName (tx\<lparr> name_Input := Some inp \<rparr>))) (\<lambda>(inp, inAcc).
     let tx = tx\<lparr> name_Input := Some inp \<rparr> in
     ebind (require (name_Fee tx \<le> in_Amount inp) ErrTxInsufficientFunds) (\<lambda>_.
     ebind (elift (ValidateStrings tx)) (\<lambda>_.
     let value = wrap64 (in_Amount inp - name_Fee tx) in
     ebind (eread (\<lambda>c. LastBlockHeight (bc_backend c))) (\<lambda>lastBlockHeight.
     ebind (ecall (bc_GetNameRegEntry (name_Name tx))) (\<lambda>entry.
     ebind (elift (next_entry tx (in_Address inp) value lastBlockHeight entry)) (\<lambda>entry'.
     ebind (etry (write_entry entry entry')) (\<lambda>_.
     ebind (etry (bc_UpdateAccount (debit value inAcc))) (\<lambda>_.
     eret (TxName tx, fire evc
       [(EventStringAccInput (in_Address inp), tx_event (TxName tx)),
        (EventStringNameReg (name_Name tx), tx_event (TxName tx))])))))))))"

section \<open>Validators\<close>

definition validatorTimeoutBlocks :: int where "validatorTimeoutBlocks = 10"

definition on_state :: "(State \<Rightarrow> State outcome) \<Rightarrow> (BlockCache, unit) exec" where
  "on_state f = etry (\<lambda>c. obind (f (bc_backend c)) (\<lambda>s. Ok (c\<lparr> bc_backend := s \<rparr>)))"

fun check_unbond_to :: "bool \<Rightarrow> TxOutput option list \<Rightarrow> (BlockCache, unit) exec" where
  "check_unbond_to canCreate [] = eret ()"
| "check_unbond_to canCreate (p # ps) =
     ebind (elift (deref p)) (\<lambda>out.
     ebind (ecall (bc_GetAccount (out_Address out))) (\<lambda>acc.
     ebind (require (acc \<noteq> None \<or> canCreate) ''At least one input does not have permission to create accounts'') (\<lambda>_.
     check_unbond_to canCreate ps)))"

definition add_validator :: "BondTx \<Rightarrow> bytes \<Rightarrow> int \<Rightarrow> State \<Rightarrow> State outcome" where
  "add_validator tx addr outTotal s =
     (let s1 = SetValidatorInfo
        \<lparr> vi_Address = addr, vi_PubKey = bond_PubKey tx, vi_UnbondTo = bond_UnbondTo tx,
          vi_FirstBondHeight = next_height s, vi_FirstBondAmount = outTotal,
          vi_DestroyedHeight = 0, vi_DestroyedAmount = 0, vi_ReleasedHeight = 0 \<rparr> s;
        (added, bonded) = vs_Add
        \<lparr> val_Address = addr, val_PubKey = bond_PubKey tx, val_BondHeight = next_height s, val_UnbondHeight = 0,
          val_LastCommitHeight = 0, val_VotingPower = outTotal, val_Accum = 0 \<rparr> (BondedValidators s1) in
      if added then Ok (s1\<lparr> BondedValidators := bonded \<rparr>) else Panic ''Failed to add validator'')"

definition exec_BondTx :: "exec_env \<Rightarrow> bool \<Rightarrow> BondTx \<Rightarrow> (BlockCache, tx_result) exec" where
  "exec_BondTx X evc tx =
     (let W = ex_wire X; addr = PubKey_Address W (bond_PubKey tx) in
      ebind (eread (\<lambda>c. GetValidatorInfo (bc_backend c) addr)) (\<lambda>valInfo.
      ebind (require (valInfo = None) ''Adding coins to existing validators not yet supported'') (\<lambda>_.
      ebind (getInputs W [] (bond_Inputs tx)) (\<lambda>(ins, accs).
      ebind (hasCreateAccountPermission bc_GetAccount accs) (\<lambda>canCreate.
      ebind (check_unbond_to canCreate (bond_UnbondTo tx)) (\<lambda>_.
      ebind (ecall (bc_GetAccount addr)) (\<lambda>bondAcc.
      ebind (hasBondPermission bc_GetAccount bondAcc) (\<lambda>allowed.
      ebind (require allowed ''The bonder does not have permission to bond'') (\<lambda>_.
      ebind (hasBondOrSendPermission bc_GetAccount accs) (\<lambda>allowed.
      ebind (require allowed ''At least one input lacks permission to bond'') (\<lambda>_.
      let tx = tx\<lparr> bond_Inputs := ins \<rparr> in
      ebind (eread (\<lambda>c. ChainID (bc_backend c))) (\<lambda>chainID.
      ebind (elift (SignBytes W chainID (TxBond tx))) (\<lambda>signBytes.
      ebind (elift (validateInputs W accs signBytes 0 ins)) (\<lambda>inTotal.
      ebind (require (VerifyBytes W (bond_PubKey tx) signBytes (Some (bond_Signature tx))) ErrTxInvalidSignature) (\<lambda>_.
      ebind (elift (validateOutputs 0 (bond_UnbondTo tx))) (\<lambda>outTotal.
      ebind (require (outTotal \<le> inTotal) ErrTxInsufficientFunds) (\<lambda>_.
      ebind (elift (adjustByInputs accs ins)) (\<lambda>accs.
      ebind (etry (update_all accs)) (\<lambda>_.
      ebind (on_state (add_validator tx addr outTotal)) (\<lambda>_.
      eret (TxBond tx, fire evc [(''Bond'', tx_event (TxBond tx))])))))))))))))))))))))"

definition exec_UnbondTx :: "exec_env \<Rightarrow> bool \<Rightarrow> UnbondTx \<Rightarrow> (BlockCache, tx_result) exec" where
  "exec_UnbondTx X evc tx =
     ebind (eread bc_backend) (\<lambda>s. case GetByAddress (unbond_Address tx) (BondedValidators s) of
       None \<Rightarrow> elift (Err ErrTxInvalidAddress)
     | Some (_, val) \<Rightarrow>
         ebind (elift (SignBytes (ex_wire X) (ChainID s) (TxUnbond tx))) (\<lambda>signBytes.
         ebind (require (VerifyBytes (ex_wire X) (val_PubKey val) signBytes (Some (unbond_Signature tx)))
                  ErrTxInvalidSignature) (\<lambda>_.
         ebind (require (val_LastCommitHeight val < unbond_Height tx) ''Invalid unbond height'') (\<lambda>_.
         ebind (on_state (unbondValidator val)) (\<lambda>_.
         eret (TxUnbond tx, fire evc [(''Unbond'', tx_event (TxUnbond tx))]))))))"

definition exec_RebondTx :: "exec_env \<Rightarrow> bool \<Rightarrow> RebondTx \<Rightarrow> (BlockCache, tx_result) exec" where
  "exec_RebondTx X evc tx =
     ebind (eread bc_backend) (\<lambda>s. case GetByAddress (rebond_Address tx) (UnbondingValidators s) of
       None \<Rightarrow> elift (Err ErrTxInvalidAddress)
     | Some (_, val) \<Rightarrow>
         (let minRebondHeight = wrap64 (LastBlockHeight s - go_div validatorTimeoutBlocks 2);
              maxRebondHeight = wrap64 (LastBlockHeight s + 2) in
          ebind (elift (SignBytes (ex_wire X) (ChainID s) (TxRebond tx))) (\<lambda>signBytes.
          ebind (require (VerifyBytes (ex_wire X) (val_PubKey val) signBytes (Some (rebond_Signature tx)))
                   ErrTxInvalidSignature) (\<lambda>_.
          ebind (require (minRebondHeight \<le> rebond_Height tx \<and> rebond_Height tx \<le> maxRebondHeight)
                   (''Rebond height not in range.  Expected '' @ show_int minRebondHeight @ '' <= '' @
                    show_int (rebond_Height tx) @ '' <= '' @ show_int maxRebondHeight)) (\<lambda>_.
          ebind (on_state (rebondValidator val)) (\<lambda>_.
          eret (TxRebond tx, fire evc [(''Rebond'', tx_event (TxRebond tx))])))))))"

definition find_accused :: "bytes \<Rightarrow> State \<Rightarrow> Validator option" where
  "find_accused addr s =
     (case GetByAddress addr (BondedValidators s) of
        Some (_, val) \<Rightarrow> Some val
      | None \<Rightarrow> map_option snd (GetByAddress addr (UnbondingValidators s)))"

definition exec_DupeoutTx :: "exec_env \<Rightarrow> bool \<Rightarrow> DupeoutTx \<Rightarrow> (BlockCache, tx_result) exec" where
  "exec_DupeoutTx X evc tx =
     ebind (eread bc_backend) (\<lambda>s. case find_accused (dupe_Address tx) s of
       None \<Rightarrow> elift (Err ErrTxInvalidAddress)
     | Some accused \<Rightarrow>
         (let signed = (\<lambda>v. VerifyBytes (ex_wire X) (val_PubKey accused) (Vote_SignBytes (ChainID s) v)
                              (Some (vote_Signature v))) in
          ebind (require (signed (VoteA tx) \<and> signed (VoteB tx)) ErrTxInvalidSignature) (\<lambda>_.
          ebind (require (vote_Height (VoteA tx) = vote_Height (VoteB tx)) ''DupeoutTx heights don't match'') (\<lambda>_.
          ebind (require (vote_Round (VoteA tx) = vote_Round (VoteB tx)) ''DupeoutTx rounds don't match'') (\<lambda>_.
          ebind (require (vote_Type (VoteA tx) = vote_Type (VoteB tx)) ''DupeoutTx types don't match'') (\<lambda>_.
          ebind (require (vote_BlockHash (VoteA tx) \<noteq> vote_BlockHash (VoteB tx))
                   ''DupeoutTx blockhashes shouldn't match'') (\<lambda>_.
          ebind (on_state (destroyValidator accused)) (\<lambda>_.
          eret (TxDupeout tx, fire evc [(''Dupeout'', tx_event (TxDupeout tx))])))))))))"

section \<open>Permissions\<close>

text \<open>
  The account whose permissions change, and the change. \<open>permAcc\<close> may be the account of the input
  itself, so the input's account is read again from its slot after the change.
\<close>

definition perm_target :: "PermArgs \<Rightarrow> bytes outcome" where
  "perm_target args =
     (case args of
        HasBaseArgs _ _ \<Rightarrow> Err ''HasBase is for contracts, not humans. Just look at the blockchain''
      | SetBaseArgs a _ _ \<Rightarrow> Ok a
      | UnsetBaseArgs a _ \<Rightarrow> Ok a
      | SetGlobalArgs _ _ \<Rightarrow> Ok GlobalPermissionsAddress
      | HasRoleArgs _ _ \<Rightarrow> Err ''HasRole is for contracts, not humans. Just look at the blockchain''
      | AddRoleArgs a _ \<Rightarrow> Ok a
      | RmRoleArgs a _ \<Rightarrow> Ok a)"

definition unknown_perm_account :: "PermArgs \<Rightarrow> bytes \<Rightarrow> 'a outcome" where
  "unknown_perm_account args a =
     (case args of
        SetGlobalArgs _ _ \<Rightarrow> Panic ''can't find global permissions account''
      | SetBaseArgs _ _ _ \<Rightarrow> Err (''Trying to update permissions for unknown account '' @ fmt_X a)
      | UnsetBaseArgs _ _ \<Rightarrow> Err (''Trying to update permissions for unknown account '' @ fmt_X a)
      | _ \<Rightarrow> Err (''Trying to update roles for unknown account '' @ fmt_X a))"

definition set_base :: "AccountPermissions \<Rightarrow> BasePermissions outcome \<Rightarrow> AccountPermissions outcome" where
  "set_base aP r = obind r (\<lambda>b. Ok (aP\<lparr> Base := b \<rparr>))"

definition change_permissions :: "PermArgs \<Rightarrow> AccountPermissions \<Rightarrow> AccountPermissions outcome" where
  "change_permissions args aP =
     (case args of
        SetBaseArgs _ p v \<Rightarrow> set_base aP (perm_Set (Base aP) p v)
      | UnsetBaseArgs _ p \<Rightarrow> set_base aP (perm_Unset (Base aP) p)
      | SetGlobalArgs p v \<Rightarrow> set_base aP (perm_Set (Base aP) p v)
      | AddRoleArgs a r \<Rightarrow>
          (if fst (perm_AddRole aP r) then Ok (snd (perm_AddRole aP r))
           else Err (''Role ('' @ r @ '') already exists for account '' @ fmt_X a))
      | RmRoleArgs a r \<Rightarrow>
          (if fst (perm_RmRole aP r) then Ok (snd (perm_RmRole aP r))
           else Err (''Role ('' @ r @ '') does not exist for account '' @ fmt_X a))
      | _ \<Rightarrow> Err [])"

fun show_bits :: "nat \<Rightarrow> string" where
  "show_bits n = (if n < 2 then show_nat n else show_bits (n div 2) @ show_nat (n mod 2))"

definition slot_account :: "bytes \<Rightarrow> (BlockCache, Account) exec" where
  "slot_account addr c = (c, deref (ai_account (account_info c addr)))"

definition exec_PermissionsTx :: "exec_env \<Rightarrow> bool \<Rightarrow> PermissionsTx \<Rightarrow> (BlockCache, tx_result) exec" where
  "exec_PermissionsTx X evc tx =
     (let args = perm_Args tx; permFlag = PermFlag_of args in
      ebind (check_single X (perm_Input tx) (\<lambda>acc. HasPermission bc_GetAccount (Some acc) permFlag)
               (\<lambda>a. ''Account '' @ fmt_X a @ '' does not have moderator permission '' @ PermFlagToString permFlag @
                    '' ('' @ show_bits (unat permFlag) @ '')'')
               (\<lambda>inp. TxPermissions (tx\<lparr> perm_Input := Some inp \<rparr>))) (\<lambda>(inp, _).
      let tx = tx\<lparr> perm_Input := Some inp \<rparr> in
      ebind (elift (perm_target args)) (\<lambda>target.
      ebind (ecall (bc_GetAccount target)) (\<lambda>permAcc. case permAcc of
        None \<Rightarrow> elift (unknown_perm_account args target)
      | Some permAcc \<Rightarrow>
          ebind (elift (change_permissions args (acc_Permissions permAcc))) (\<lambda>perms.
          ebind (echange (poke target (permAcc\<lparr> acc_Permissions := perms \<rparr>))) (\<lambda>_.
          ebind (slot_account (in_Address inp)) (\<lambda>inAcc.
          ebind (etry (bc_UpdateAccount (debit (in_Amount inp) inAcc))) (\<lambda>_.
          ebind (slot_account target) (\<lambda>permAcc.
          ebind (etry (bc_UpdateAccount permAcc)) (\<lambda>_.
          eret (TxPermissions tx, fire evc
            [(EventStringAccInput (in_Address inp), tx_event (TxPermissions tx)),
             (EventStringPermissions (PermFlagToString permFlag), tx_event (TxPermissions tx))])))))))))))"

section \<open>ExecTx\<close>

primrec ExecTx :: "exec_env \<Rightarrow> bool \<Rightarrow> bool \<Rightarrow> Tx \<Rightarrow> (BlockCache, tx_result) exec" where
  "ExecTx X runCall evc (TxSend tx) = exec_SendTx X evc tx"
| "ExecTx X runCall evc (TxCall tx) = exec_CallTx X runCall evc tx"
| "ExecTx X runCall evc (TxName tx) = exec_NameTx X evc tx"
| "ExecTx X runCall evc (TxBond tx) = exec_BondTx X evc tx"
| "ExecTx X runCall evc (TxUnbond tx) = exec_UnbondTx X evc tx"
| "ExecTx X runCall evc (TxRebond tx) = exec_RebondTx X evc tx"
| "ExecTx X runCall evc (TxDupeout tx) = exec_DupeoutTx X evc tx"
| "ExecTx X runCall evc (TxPermissions tx) = exec_PermissionsTx X evc tx"

end
