(* ===== verification/Send_Effects.thy ===== *)
theory Send_Effects
  imports Tx_Execution
begin

text \<open>
  What a transfer does to the ledger that a block cache shows: which accounts change and how, that
  money is neither made nor lost, and the amounts that break this.
\<close>

section \<open>Writing through a pointer\<close>

definition view_ok :: "BlockCache \<Rightarrow> bool" where
  "view_ok c \<longleftrightarrow> (\<forall>a acc. bc_view c a = Some acc \<longrightarrow> acc_Address acc = a)"

lemma bc_ok_view_ok: "bc_ok c \<Longrightarrow> view_ok c"
  by (simp add: view_ok_def bc_ok_address)

lemma poke_view:
  assumes "bc_view c a \<noteq> None"
  shows "bc_view (poke a acc c) = (bc_view c)(a \<mapsto> acc)" "name_view (poke a acc c) = name_view c"
    "bc_backend (poke a acc c) = bc_backend c"
  using assms by (auto simp: poke_def bc_view_def name_view_def Let_def fun_eq_iff split: option.splits if_splits)

section \<open>Inputs\<close>

definition keyed :: "wire_env \<Rightarrow> Account \<Rightarrow> Account \<Rightarrow> bool" where
  "keyed W acc acc' \<longleftrightarrow>
     (\<exists>key. acc' = acc\<lparr> acc_PubKey := Some key \<rparr> \<and>
        (acc_PubKey acc = Some key \<or> acc_PubKey acc = None \<and> PubKey_Address W key = acc_Address acc))"

lemma keyed_same [simp]:
  "keyed W acc acc' \<Longrightarrow> acc_Address acc' = acc_Address acc" "keyed W acc acc' \<Longrightarrow> acc_Balance acc' = acc_Balance acc"
  "keyed W acc acc' \<Longrightarrow> acc_Sequence acc' = acc_Sequence acc"
  "keyed W acc acc' \<Longrightarrow> acc_Permissions acc' = acc_Permissions acc"
  by (auto simp: keyed_def)

text \<open>A view with the accounts of a map written over it.\<close>

definition overlay :: "(bytes \<Rightarrow> Account option) \<Rightarrow> (bytes, Account) gomap \<Rightarrow> bytes \<Rightarrow> Account option" where
  "overlay view accs a = (case map_of accs a of None \<Rightarrow> view a | Some acc \<Rightarrow> Some acc)"

abbreviation in_core :: "TxInput \<Rightarrow> TxInput" where
  "in_core i \<equiv> i\<lparr> in_PubKey := None \<rparr>"

lemma in_core_eq:
  assumes "in_core i = in_core j"
  shows "in_Address i = in_Address j" "in_Amount i = in_Amount j" "in_Sequence i = in_Sequence j"
    "in_Signature i = in_Signature j"
  using arg_cong [OF assms, of in_Address] arg_cong [OF assms, of in_Amount] arg_cong [OF assms, of in_Sequence]
    arg_cong [OF assms, of in_Signature] by simp_all

lemma set_same_PubKey: "acc_PubKey acc = Some key \<Longrightarrow> acc\<lparr> acc_PubKey := Some key \<rparr> = (acc :: Account)"
  by (cases acc) simp

lemma checkInputPubKey_eq_Ok:
  assumes "checkInputPubKey W acc i = Ok (acc', j)"
  shows "keyed W acc acc'" "in_core j = in_core i"
proof -
  show "keyed W acc acc'"
  proof (cases "acc_PubKey acc")
    case None
    with assms obtain key where "in_PubKey i = Some key" "PubKey_Address W key = acc_Address acc"
      "acc' = acc\<lparr> acc_PubKey := Some key \<rparr>"
      by (simp add: checkInputPubKey_def split: option.splits if_splits)
    with None show ?thesis unfolding keyed_def by blast
  next
    case (Some key)
    with assms have "acc' = acc" by (simp add: checkInputPubKey_def)
    with Some show ?thesis unfolding keyed_def by (intro exI [of _ key]) (simp add: set_same_PubKey)
  qed
  show "in_core j = in_core i"
    using assms by (simp add: checkInputPubKey_def split: option.splits if_splits) auto
qed

lemma getInputs_eq_Ok:
  "getInputs W accs ps c = (c1, Ok (ins, accs1)) \<Longrightarrow> distinct (map fst accs) \<Longrightarrow> view_ok c \<Longrightarrow>
   \<exists>is js new. ps = map Some is \<and> ins = map Some js \<and> map in_core js = map in_core is \<and>
     accs1 = accs @ new \<and> map fst new = map in_Address is \<and> distinct (map fst accs1) \<and>
     (\<forall>(a, acc)\<in>set new. \<exists>acc0. bc_view c a = Some acc0 \<and> keyed W acc0 acc) \<and>
     bc_view c1 = overlay (bc_view c) new \<and> name_view c1 = name_view c \<and> bc_backend c1 = bc_backend c"
proof (induction ps arbitrary: accs c ins)
  case (Cons p ps)
  from Cons.prems(1) obtain i acc0 acc j ins' where i: "p = Some i" "map_of accs (in_Address i) = None"
    "bc_view c (in_Address i) = Some acc0" "checkInputPubKey W acc0 i = Ok (acc, j)" "ins = Some j # ins'" and
    rest: "getInputs W (accs @ [(in_Address j, acc)]) ps
        (poke (in_Address j) acc (snd (bc_GetAccount (in_Address i) c))) = (c1, Ok (ins', accs1))"
    by (auto simp: exec_eqs deref_def cache_getter.ecall_get check_pub_key_def split: option.splits)
  note k = checkInputPubKey_eq_Ok [OF i(4)]
  have a: "in_Address j = in_Address i" using in_core_eq(1) [OF k(2)] .
  let ?c = "poke (in_Address j) acc (snd (bc_GetAccount (in_Address i) c))"
  have v: "bc_view ?c = (bc_view c)(in_Address i \<mapsto> acc)" "name_view ?c = name_view c" "bc_backend ?c = bc_backend c"
    using i(3) a poke_view [of "snd (bc_GetAccount (in_Address i) c)" "in_Address i" acc] by simp_all
  have "view_ok ?c"
    using Cons.prems(3) i(3) k(1) by (auto simp: view_ok_def v(1))
  moreover have d: "distinct (map fst (accs @ [(in_Address j, acc)]))"
    using i(2) a Cons.prems(2) by (auto simp: map_of_eq_None_iff image_iff)
  ultimately obtain "is" js new where IH: "ps = map Some is" "ins' = map Some js" "map in_core js = map in_core is"
    "accs1 = (accs @ [(in_Address j, acc)]) @ new" "map fst new = map in_Address is" "distinct (map fst accs1)"
    "\<forall>(a, acc)\<in>set new. \<exists>acc0. bc_view ?c a = Some acc0 \<and> keyed W acc0 acc"
    "bc_view c1 = overlay (bc_view ?c) new" "name_view c1 = name_view ?c" "bc_backend c1 = bc_backend ?c"
    using Cons.IH [OF rest d] by blast
  have fresh: "in_Address i \<notin> fst ` set new" using IH(4,6) a by auto
  have new: "\<forall>(a, acc)\<in>set new. \<exists>acc0. bc_view c a = Some acc0 \<and> keyed W acc0 acc"
  proof (clarify)
    fix b accb assume "(b, accb) \<in> set new"
    moreover from this have "b \<noteq> in_Address i" using fresh by force
    ultimately show "\<exists>acc0. bc_view c b = Some acc0 \<and> keyed W acc0 accb" using IH(7) by (force simp: v(1))
  qed
  have "map_of new (in_Address i) = None" using fresh by (simp add: map_of_eq_None_iff)
  then have "bc_view c1 = overlay (bc_view c) ((in_Address i, acc) # new)"
    by (auto simp: IH(8) v(1) overlay_def fun_eq_iff split: option.split)
  then show ?case
    using i k a IH(1-7,9,10) new v(2,3)
    by - (rule exI [of _ "i # is"], rule exI [of _ "j # js"], rule exI [of _ "(in_Address i, acc) # new"], simp)
qed (auto simp: elift_def overlay_def fun_eq_iff)

text \<open>The checks and the changes of the inputs and outputs, by their address.\<close>

lemma wrap64_add_left [simp]: "wrap64 (wrap64 x + y) = wrap64 (x + y)"
  by (simp add: wrap64_def) (simp add: mod_simps ac_simps)

lemma wrap64_Suc_neq: "wrap64 (x + 1) \<noteq> wrap64 x"
  by (auto simp: wrap64_def mod_eq_dvd_iff)

lemma validateInputs_eq_Ok:
  "validateInputs W accs sb t (map Some js) = Ok tot \<Longrightarrow>
     (\<forall>j\<in>set js. \<exists>acc. map_of accs (in_Address j) = Some acc \<and> validateInput W acc sb j = Ok ()) \<and>
     (in_int64 t \<longrightarrow> tot = wrap64 (t + sum_list (map in_Amount js)))"
proof (induction js arbitrary: t)
  case (Cons j js)
  then show ?case
    using Cons.IH [of "wrap64 (t + in_Amount j)"] by (auto simp: obind_eq_Ok deref_def add.assoc split: option.splits)
qed simp

lemma validateOutputs_eq_Ok:
  "validateOutputs t (map Some os) = Ok tot \<Longrightarrow>
     (\<forall>out\<in>set os. length (out_Address out) = 20 \<and> out_Amount out \<noteq> 0) \<and>
     (in_int64 t \<longrightarrow> tot = wrap64 (t + sum_list (map out_Amount os)))"
proof (induction os arbitrary: t)
  case (Cons out os)
  then show ?case
    using Cons.IH [of "wrap64 (t + out_Amount out)"]
    by (auto simp: obind_eq_Ok deref_def add.assoc TxOutput_ValidateBasic_def split: option.splits if_splits)
qed simp

lemma adjustByInputs_eq_Ok:
  "adjustByInputs accs (map Some js) = Ok accs' \<Longrightarrow> distinct (map in_Address js) \<Longrightarrow>
     map fst accs' = map fst accs \<and>
     (\<forall>j\<in>set js. map_of accs' (in_Address j) = map_option (debit (in_Amount j)) (map_of accs (in_Address j))) \<and>
     (\<forall>a. a \<notin> in_Address ` set js \<longrightarrow> map_of accs' a = map_of accs a)"
proof (induction js arbitrary: accs)
  case (Cons j js)
  then obtain acc where acc: "map_of accs (in_Address j) = Some acc"
    "adjustByInputs (AList.update (in_Address j) (debit (in_Amount j) acc) accs) (map Some js) = Ok accs'"
    by (auto simp: obind_eq_Ok deref_def split: option.splits if_splits)
  then have "in_Address j \<in> fst ` set accs" by (metis map_of_eq_None_iff option.distinct(1))
  then have "map fst (AList.update (in_Address j) (debit (in_Amount j) acc) accs) = map fst accs"
    by (simp add: update_keys)
  moreover have "\<forall>k\<in>set js. in_Address k \<noteq> in_Address j" using Cons.prems(2) by (metis distinct.simps(2) image_eqI list.set_map list.simps(9))
  ultimately show ?case using Cons.IH [OF acc(2)] Cons.prems(2) acc(1) by auto
qed simp

lemma adjustByOutputs_eq_Ok:
  "adjustByOutputs accs (map Some os) = Ok accs' \<Longrightarrow> distinct (map out_Address os) \<Longrightarrow>
     map fst accs' = map fst accs \<and>
     (\<forall>out\<in>set os. map_of accs' (out_Address out) = map_option (credit (out_Amount out)) (map_of accs (out_Address out))) \<and>
     (\<forall>a. a \<notin> out_Address ` set os \<longrightarrow> map_of accs' a = map_of accs a)"
proof (induction os arbitrary: accs)
  case (Cons out os)
  then obtain acc where acc: "map_of accs (out_Address out) = Some acc"
    "adjustByOutputs (AList.update (out_Address out) (credit (out_Amount out) acc) accs) (map Some os) = Ok accs'"
    by (auto simp: obind_eq_Ok deref_def split: option.splits if_splits)
  then have "out_Address out \<in> fst ` set accs" by (metis map_of_eq_None_iff option.distinct(1))
  then have "map fst (AList.update (out_Address out) (credit (out_Amount out) acc) accs) = map fst accs"
    by (simp add: update_keys)
  moreover have "\<forall>o'\<in>set os. out_Address o' \<noteq> out_Address out" using Cons.prems(2) by (metis distinct.simps(2) image_eqI list.set_map list.simps(9))
  ultimately show ?case using Cons.IH [OF acc(2)] Cons.prems(2) acc(1) by auto
qed simp

lemma update_all_eq_Ok:
  "update_all accs c = Ok c' \<Longrightarrow> \<forall>(a, acc)\<in>set accs. acc_Address acc = a \<Longrightarrow> distinct (map fst accs) \<Longrightarrow>
     bc_view c' = overlay (bc_view c) accs \<and> name_view c' = name_view c \<and> bc_backend c' = bc_backend c"
proof (induction accs arbitrary: c)
  case (Cons x accs)
  obtain a acc where x: "x = (a, acc)" "acc_Address acc = a" using Cons.prems(2) by (cases x) auto
  then obtain c1 where c1: "bc_UpdateAccount acc c = Ok c1" "update_all accs c1 = Ok c'"
    using Cons.prems(1) by (auto simp: obind_eq_Ok)
  then have "\<not> ai_removed (account_info c a)" using x by (auto simp: bc_UpdateAccount_def Let_def)
  then have "bc_view c1 = (bc_view c)(a \<mapsto> acc)" "name_view c1 = name_view c" "bc_backend c1 = bc_backend c"
    using UpdateAccount_view [of c acc] c1(1) x by auto
  moreover have "map_of accs a = None" using Cons.prems(3) x by (auto simp: map_of_eq_None_iff)
  ultimately show ?case
    using Cons.IH [OF c1(2)] Cons.prems x by (auto simp: overlay_def fun_eq_iff split: option.split)
qed (simp add: overlay_def fun_eq_iff)

section \<open>The effect of a transfer\<close>

lemma permitted_cong:
  assumes "acc_Permissions a = acc_Permissions b"
    "map_option acc_Permissions (v GlobalPermissionsAddress) = map_option acc_Permissions (w GlobalPermissionsAddress)"
  shows "permitted v (Some a) perm = permitted w (Some b) perm"
proof -
  have g: "check_perm (v GlobalPermissionsAddress) perm = check_perm (w GlobalPermissionsAddress) perm"
    using assms(2) by (auto simp: check_perm_def deref_def split: option.splits)
  have a: "check_perm (Some a) perm = check_perm (Some b) perm"
    using assms(1) by (simp add: check_perm_def deref_def)
  show ?thesis unfolding permitted_def g a ..
qed

text \<open>
  Remembering keys changes no permission, so the permissions checked are those of the ledger before
  the transaction.
\<close>

lemma overlay_permissions:
  assumes "\<forall>(a, acc)\<in>set new. \<exists>acc0. view a = Some acc0 \<and> keyed W acc0 acc"
  shows "map_option acc_Permissions (overlay view new a) = map_option acc_Permissions (view a)"
  using assms by (force simp: overlay_def dest: map_of_SomeD split: option.split)

definition signed_input :: "wire_env \<Rightarrow> string \<Rightarrow> Account \<Rightarrow> Account \<Rightarrow> TxInput \<Rightarrow> bool" where
  "signed_input W signBytes acc acc' i \<longleftrightarrow>
     keyed W acc acc' \<and> VerifyBytes W (the (acc_PubKey acc')) signBytes (in_Signature i) \<and>
     in_Sequence i = wrap64 (acc_Sequence acc + 1) \<and> in_Amount i \<le> acc_Balance acc \<and> in_Amount i \<noteq> 0"

lemma validateInput_signed:
  "validateInput W acc' sb j = Ok () \<Longrightarrow> keyed W acc acc' \<Longrightarrow> in_core j = in_core i \<Longrightarrow> signed_input W sb acc acc' i"
  using in_core_eq [of j i]
  by (auto simp: validateInput_def signed_input_def obind_eq_Ok deref_def TxInput_ValidateBasic_def
      split: if_splits option.splits)

definition or_new :: "(bytes \<Rightarrow> Account option) \<Rightarrow> bytes \<Rightarrow> Account" where
  "or_new view a = (case view a of Some acc \<Rightarrow> acc | None \<Rightarrow> new_output_account a)"

lemma or_new_address [simp]: "view_ok c \<Longrightarrow> acc_Address (or_new (bc_view c) a) = a"
  by (auto simp: or_new_def view_ok_def new_output_account_def split: option.split)

lemma debit_address [simp]: "acc_Address (debit n acc) = acc_Address acc" "acc_Address (credit n acc) = acc_Address acc"
  by (simp_all add: debit_def credit_def)

text \<open>The ledger after a transfer, as a function of the ledger before it and the accounts of the inputs.\<close>

definition transferred ::
  "(bytes, Account) gomap \<Rightarrow> TxInput list \<Rightarrow> TxOutput list \<Rightarrow> (bytes \<Rightarrow> Account option) \<Rightarrow> (bytes \<Rightarrow> Account option) \<Rightarrow> bool"
  where
  "transferred new is os view view' \<longleftrightarrow>
     (\<forall>i\<in>set is. view' (in_Address i) = map_option (debit (in_Amount i)) (map_of new (in_Address i))) \<and>
     (\<forall>out\<in>set os. view' (out_Address out) = Some (credit (out_Amount out) (or_new view (out_Address out)))) \<and>
     (\<forall>a. a \<notin> in_Address ` set is \<union> out_Address ` set os \<longrightarrow> view' a = view a)"

lemma adjust_transferred:
  assumes accs: "accs = new @ map (\<lambda>out. (out_Address out, or_new view (out_Address out))) os"
    and keys: "map fst new = map in_Address is" "distinct (map fst accs)"
    and adj: "obind (adjustByInputs accs (map Some is)) (\<lambda>accs. adjustByOutputs accs (map Some os)) = Ok accs'"
  shows "map fst accs' = map fst accs \<and> transferred new is os view (overlay view accs')"
proof -
  obtain accs1 where a1: "adjustByInputs accs (map Some is) = Ok accs1" "adjustByOutputs accs1 (map Some os) = Ok accs'"
    using adj by (auto simp: obind_eq_Ok)
  have d: "distinct (map in_Address is)" "distinct (map out_Address os)"
    "in_Address ` set is \<inter> out_Address ` set os = {}"
    using keys by (auto simp: accs comp_def image_image simp flip: set_map)
  note e1 = adjustByInputs_eq_Ok [OF a1(1) d(1)] and e2 = adjustByOutputs_eq_Ok [OF a1(2) d(2)]
  have "fst ` set new = in_Address ` set is" using keys(1) by (metis list.set_map)
  then have new: "map_of accs a = map_of new a" if "a \<in> in_Address ` set is" for a
    using that d(3) by (auto simp: accs map_add_def map_of_eq_None_iff image_image split: option.split)
  have outs: "map_of accs (out_Address out) = Some (or_new view (out_Address out))" if "out \<in> set os" for out
    by (rule map_of_is_SomeI [OF keys(2)]) (use that in \<open>auto simp: accs\<close>)
  have keys': "map fst accs' = map fst accs" using e1 e2 by simp
  then have dom': "map_of accs' a = None \<longleftrightarrow> a \<notin> in_Address ` set is \<union> out_Address ` set os" for a
  proof -
    have "set (map fst accs') = in_Address ` set is \<union> out_Address ` set os"
      using keys' keys(1) by (simp add: accs comp_def)
    then show ?thesis by (metis list.set_map map_of_eq_None_iff)
  qed
  have "map_of accs' (in_Address i) = map_option (debit (in_Amount i)) (map_of new (in_Address i))" if "i \<in> set is" for i
    using that e1 e2 d(3) new [of "in_Address i"] by fastforce
  moreover have "map_of accs' (out_Address out) = Some (credit (out_Amount out) (or_new view (out_Address out)))"
    if "out \<in> set os" for out
    using that e1 e2 d(3) outs [OF that] by fastforce
  moreover have "overlay view accs' a = (if a \<in> in_Address ` set is \<union> out_Address ` set os then map_of accs' a else view a)" for a
    using dom' [of a] by (cases "map_of accs' a") (auto simp: overlay_def)
  ultimately show ?thesis
    using keys' by (simp add: transferred_def)
qed

lemma transferred_cong:
  assumes "map in_core js = map in_core is"
  shows "transferred new js os view view' = transferred new is os view view'"
proof -
  have "(\<lambda>i. (in_Address i, in_Amount i)) ` set js = (\<lambda>i. (in_Address i, in_Amount i)) ` set is"
    using arg_cong [OF assms, of "\<lambda>xs. (\<lambda>i. (in_Address i, in_Amount i)) ` set xs"] by (simp add: image_image)
  then have q: "(\<forall>j\<in>set js. P (in_Address j) (in_Amount j)) = (\<forall>i\<in>set is. P (in_Address i) (in_Amount i))" for P
    by (auto simp: set_eq_iff image_iff) metis+
  have "in_Address ` set js = in_Address ` set is"
    using arg_cong [OF assms, of "\<lambda>xs. in_Address ` set xs"] by (simp add: image_image)
  then show ?thesis
    using q [of "\<lambda>a n. view' a = map_option (debit n) (map_of new a)"] by (simp add: transferred_def)
qed

lemma transferred_address:
  assumes "transferred new is os (bc_view c) (overlay (bc_view c) accs)" "view_ok c"
    "\<forall>(a, acc)\<in>set new. acc_Address acc = a" "distinct (map fst accs)" "(a, acc) \<in> set accs"
  shows "acc_Address acc = a"
proof -
  have v: "overlay (bc_view c) accs a = Some acc" using assms(4,5) by (simp add: overlay_def)
  consider i where "i \<in> set is" "a = in_Address i" | out where "out \<in> set os" "a = out_Address out"
    | "a \<notin> in_Address ` set is \<union> out_Address ` set os" by blast
  then show ?thesis
  proof cases
    case 1
    then obtain acc' where "map_of new a = Some acc'" "acc = debit (in_Amount i) acc'"
      using assms(1) v by (auto simp: transferred_def)
    then show ?thesis using assms(3) by (force dest: map_of_SomeD)
  next
    case 2
    then have "acc = credit (out_Amount out) (or_new (bc_view c) a)"
      using assms(1) v by (simp add: transferred_def)
    then show ?thesis using assms(2) by simp
  next
    case 3
    then have "bc_view c a = Some acc" using assms(1) v by (simp add: transferred_def)
    then show ?thesis using assms(2) by (simp add: view_ok_def)
  qed
qed

lemma overlay_overlay:
  assumes "fst ` set new \<subseteq> fst ` set accs"
  shows "overlay (overlay view new) accs = overlay view accs"
proof -
  have "map_of accs a = None \<Longrightarrow> map_of new a = None" for a
    using assms by (auto simp: map_of_eq_None_iff)
  then show ?thesis by (auto simp: overlay_def fun_eq_iff split: option.split)
qed

lemma SendTx_SignBytes_core:
  assumes "send_Inputs tx = map Some is" "map in_core js = map in_core is"
  shows "SignBytes W chainID (TxSend (tx\<lparr> send_Inputs := map Some js \<rparr>)) = SignBytes W chainID (TxSend tx)"
proof -
  have "map sign_core js = map sign_core is"
    using arg_cong [OF assms(2), of "map sign_core"] by (simp add: comp_def)
  then have "map Some (map sign_core js) = map Some (map sign_core is)" by (rule arg_cong)
  then have "map (map_option sign_core) (map Some js) = map (map_option sign_core) (map Some is)"
    by (simp only: map_map comp_def option.map)
  then show ?thesis
    using write_list_core [of "map Some js" "map Some is"] by (simp add: SendTx_WriteSignBytes_def assms(1))
qed

lemma exec_SendTx_eq_Ok:
  assumes "exec_SendTx X evc tx c = (c', Ok r)" "view_ok c"
  obtains "is" os new sb where "send_Inputs tx = map Some is" "send_Outputs tx = map Some os"
    "map fst new = map in_Address is" "distinct (map in_Address is @ map out_Address os)"
    "SignBytes (ex_wire X) (ChainID (bc_backend c)) (TxSend tx) = Ok sb"
    "\<forall>i\<in>set is. \<exists>acc acc'. bc_view c (in_Address i) = Some acc \<and> map_of new (in_Address i) = Some acc' \<and>
       signed_input (ex_wire X) sb acc acc' i \<and> permitted (bc_view c) (Some acc) Perm_Send = Ok True"
    "\<forall>out\<in>set os. length (out_Address out) = 20 \<and> out_Amount out \<noteq> 0"
    "wrap64 (sum_list (map out_Amount os)) \<le> wrap64 (sum_list (map in_Amount is))"
    "transferred new is os (bc_view c) (bc_view c')" "name_view c' = name_view c" "bc_backend c' = bc_backend c"
proof -
  from assms(1) obtain ins accs1 c1 c2 accs2 c3 sb inTotal outTotal accs3 where
    inputs: "getInputs (ex_wire X) [] (send_Inputs tx) c = (c1, Ok (ins, accs1))" and
    perm: "all_have bc_GetAccount Perm_Send accs1 c1 = (c2, Ok True)" and
    outs: "getOrMakeOutputs bc_GetAccount False accs1 (send_Outputs tx) c2 = (c3, Ok accs2)" and
    sb: "SignBytes (ex_wire X) (ChainID (bc_backend c3)) (TxSend (tx\<lparr> send_Inputs := ins \<rparr>)) = Ok sb" and
    vin: "validateInputs (ex_wire X) accs2 sb 0 ins = Ok inTotal" and
    vout: "validateOutputs 0 (send_Outputs tx) = Ok outTotal" and le: "outTotal \<le> inTotal" and
    adj: "obind (adjustByInputs accs2 ins) (\<lambda>accs. adjustByOutputs accs (send_Outputs tx)) = Ok accs3" and
    upd: "update_all accs3 c3 = Ok c'"
    by (auto simp: exec_SendTx_def ebind_eq_Ok hasSendPermission_def Let_def)
  obtain "is" js new where I: "send_Inputs tx = map Some is" "ins = map Some js" "map in_core js = map in_core is"
    "accs1 = new" "map fst new = map in_Address is" "distinct (map fst new)"
    "\<forall>(a, acc)\<in>set new. \<exists>acc0. bc_view c a = Some acc0 \<and> keyed (ex_wire X) acc0 acc"
    "bc_view c1 = overlay (bc_view c) new" "name_view c1 = name_view c" "bc_backend c1 = bc_backend c"
    using getInputs_eq_Ok [OF inputs _ assms(2)] by auto
  have same: "map in_Address js = map in_Address is" "map in_Amount js = map in_Amount is"
    using arg_cong [OF I(3), of "map in_Address"] arg_cong [OF I(3), of "map in_Amount"] by (simp_all add: comp_def)
  have keep: "name_view c3 = name_view c1 \<and> bc_backend c3 = bc_backend c1"
    using preservesD [OF preserves_all_have perm, of "\<lambda>x. name_view x = name_view c1 \<and> bc_backend x = bc_backend c1"]
      preservesD [OF preserves_getOrMakeOutputs outs, of "\<lambda>x. name_view x = name_view c1 \<and> bc_backend x = bc_backend c1"]
    by simp
  have p: "bc_view c2 = bc_view c1" "\<forall>(a, acc)\<in>set new. permitted (bc_view c1) (Some acc) Perm_Send = Ok True"
    using cache_getter.all_have_eq_Ok [OF perm] I(4) by auto
  obtain os where O: "bc_view c3 = bc_view c1" "send_Outputs tx = map Some os" "distinct (map fst accs2)"
    "accs2 = new @ map (\<lambda>out. (out_Address out, or_new (bc_view c1) (out_Address out))) os"
    using cache_getter.getOrMakeOutputs_eq_Ok [OF outs] I(4,6) p(1) by (auto simp: or_new_def)
  have d: "distinct (map in_Address is @ map out_Address os)"
    using O(3) I(5) by (auto simp: O(4) comp_def image_image simp flip: set_map)
  have "or_new (bc_view c1) (out_Address out) = or_new (bc_view c) (out_Address out)" if "out \<in> set os" for out
  proof -
    have "out_Address out \<notin> fst ` set new"
      using d that I(5) by (metis IntI distinct_append empty_iff image_eqI list.set_map)
    then have "map_of new (out_Address out) = None" by (simp add: map_of_eq_None_iff)
    then show ?thesis by (simp add: or_new_def I(8) overlay_def)
  qed
  then have accs2: "accs2 = new @ map (\<lambda>out. (out_Address out, or_new (bc_view c) (out_Address out))) os"
    using O(4) by simp
  have t: "map fst accs3 = map fst accs2" "transferred new js os (bc_view c) (overlay (bc_view c) accs3)"
    using adjust_transferred [OF accs2 _ O(3), of js accs3] adj I(2,5) O(2) same(1) by auto
  have tr: "transferred new is os (bc_view c) (overlay (bc_view c) accs3)"
    using t(2) transferred_cong [OF I(3)] by simp
  have addr: "\<forall>(a, acc)\<in>set new. acc_Address acc = a"
  proof (clarify)
    fix a acc assume "(a, acc) \<in> set new"
    then obtain acc0 where "bc_view c a = Some acc0" "keyed (ex_wire X) acc0 acc" using I(7) by blast
    then show "acc_Address acc = a" using assms(2) by (simp add: view_ok_def)
  qed
  have "\<forall>(a, acc)\<in>set accs3. acc_Address acc = a"
    using transferred_address [OF tr assms(2) addr] t(1) O(3) by auto
  then have u: "bc_view c' = overlay (bc_view c3) accs3" "name_view c' = name_view c3" "bc_backend c' = bc_backend c3"
    using update_all_eq_Ok [OF upd] t(1) O(3) by auto
  have "fst ` set new \<subseteq> fst ` set accs3" 
    using arg_cong [OF t(1), of set] by (simp add: accs2)
  then have view': "bc_view c' = overlay (bc_view c) accs3"
    using u(1) O(1) I(8) by (simp add: overlay_overlay)
  have signed: "\<exists>acc acc'. bc_view c (in_Address i) = Some acc \<and> map_of new (in_Address i) = Some acc' \<and>
       signed_input (ex_wire X) sb acc acc' i \<and> permitted (bc_view c) (Some acc) Perm_Send = Ok True"
    if i: "i \<in> set is" for i
  proof -
    obtain j where j: "j \<in> set js" "in_core j = in_core i"
      using I(3) i by (metis (no_types, lifting) image_iff list.set_map)
    obtain acc' where acc': "map_of accs2 (in_Address j) = Some acc'" "validateInput (ex_wire X) acc' sb j = Ok ()"
      using validateInputs_eq_Ok [of "ex_wire X" accs2 sb 0 js inTotal] vin I(2) j(1) by auto
    have "in_Address i \<notin> out_Address ` set os" using d i by auto
    then have m: "map_of new (in_Address i) = Some acc'"
      using acc'(1) in_core_eq(1) [OF j(2)]
      by (auto simp: accs2 map_add_def image_iff dest!: map_of_SomeD split: option.splits)
    then obtain acc where acc: "bc_view c (in_Address i) = Some acc" "keyed (ex_wire X) acc acc'"
      "permitted (bc_view c1) (Some acc') Perm_Send = Ok True"
      using I(7) p(2) by (fastforce dest: map_of_SomeD)
    have "permitted (bc_view c) (Some acc) Perm_Send = permitted (bc_view c1) (Some acc') Perm_Send"
      using acc(2) overlay_permissions [OF I(7)] I(8) by (intro permitted_cong) simp_all
    then show ?thesis using validateInput_signed [OF acc'(2) acc(2) j(2)] acc m by auto
  qed
  show ?thesis
  proof (rule that [OF I(1) O(2) I(5) d])
    show "SignBytes (ex_wire X) (ChainID (bc_backend c)) (TxSend tx) = Ok sb"
      using sb SendTx_SignBytes_core [OF I(1,3)] keep I(2,10) by simp
    show "\<forall>out\<in>set os. length (out_Address out) = 20 \<and> out_Amount out \<noteq> 0"
      using validateOutputs_eq_Ok [of 0 os outTotal] vout O(2) by simp
    show "wrap64 (sum_list (map out_Amount os)) \<le> wrap64 (sum_list (map in_Amount is))"
      using validateOutputs_eq_Ok [of 0 os outTotal] validateInputs_eq_Ok [of "ex_wire X" accs2 sb 0 js inTotal]
        vin vout le I(2) O(2) same(2) by (simp add: int64_simps)
    show "transferred new is os (bc_view c) (bc_view c')" using tr view' by simp
    show "name_view c' = name_view c" "bc_backend c' = bc_backend c" using u keep I(9,10) by simp_all
  qed (use signed in blast)
qed

lemma exec_SendTx_view_ok:
  assumes "exec_SendTx X evc tx c = (c', Ok r)" "view_ok c"
  shows "view_ok c'"
proof -
  obtain "is" os new sb where t: "map fst new = map in_Address is"
    "\<forall>i\<in>set is. \<exists>acc acc'. bc_view c (in_Address i) = Some acc \<and> map_of new (in_Address i) = Some acc' \<and>
       signed_input (ex_wire X) sb acc acc' i \<and> permitted (bc_view c) (Some acc) Perm_Send = Ok True"
    "transferred new is os (bc_view c) (bc_view c')"
    using exec_SendTx_eq_Ok [OF assms] by metis
  show ?thesis
    unfolding view_ok_def
  proof (intro allI impI)
    fix a acc assume acc: "bc_view c' a = Some acc"
    consider i where "i \<in> set is" "a = in_Address i" | out where "out \<in> set os" "a = out_Address out"
      | "a \<notin> in_Address ` set is \<union> out_Address ` set os" by blast
    then show "acc_Address acc = a"
    proof cases
      case 1
      then obtain acc0 acc1 where "bc_view c a = Some acc0" "keyed (ex_wire X) acc0 acc1" "acc = debit (in_Amount i) acc1"
        using t(2,3) acc by (fastforce simp: transferred_def signed_input_def)
      then show ?thesis using assms(2) by (simp add: view_ok_def)
    next
      case 2
      then have "acc = credit (out_Amount out) (or_new (bc_view c) a)"
        using t(3) acc by (simp add: transferred_def)
      then show ?thesis using assms(2) by simp
    next
      case 3
      then show ?thesis using t(3) acc assms(2) by (simp add: transferred_def view_ok_def)
    qed
  qed
qed

section \<open>Money\<close>

definition bal :: "(bytes \<Rightarrow> Account option) \<Rightarrow> bytes \<Rightarrow> int" where
  "bal view a = (case view a of None \<Rightarrow> 0 | Some acc \<Rightarrow> acc_Balance acc)"

definition in_list :: "SendTx \<Rightarrow> TxInput list" where
  "in_list tx = map the (filter (\<lambda>p. p \<noteq> None) (send_Inputs tx))"

definition out_list :: "SendTx \<Rightarrow> TxOutput list" where
  "out_list tx = map the (filter (\<lambda>p. p \<noteq> None) (send_Outputs tx))"

definition tx_fee :: "SendTx \<Rightarrow> int" where
  "tx_fee tx = sum_list (map in_Amount (in_list tx)) - sum_list (map out_Amount (out_list tx))"

definition touched :: "SendTx \<Rightarrow> bytes set" where
  "touched tx = in_Address ` set (in_list tx) \<union> out_Address ` set (out_list tx)"

text \<open>Amounts that are positive and whose sums fit into 64 bits.\<close>

definition amounts_ok :: "(bytes \<Rightarrow> Account option) \<Rightarrow> SendTx \<Rightarrow> bool" where
  "amounts_ok view tx \<longleftrightarrow>
     list_all (\<lambda>i. 0 < in_Amount i \<and> in_int64 (bal view (in_Address i))) (in_list tx) \<and>
     list_all (\<lambda>out. 0 < out_Amount out \<and> 0 \<le> bal view (out_Address out) \<and>
                     bal view (out_Address out) + out_Amount out \<le> MaxInt64) (out_list tx) \<and>
     sum_list (map in_Amount (in_list tx)) \<le> MaxInt64 \<and> sum_list (map out_Amount (out_list tx)) \<le> MaxInt64"

lemma filter_Some [simp]: "map the (filter (\<lambda>p. p \<noteq> None) (map Some xs)) = xs"
  by (induction xs) auto

lemma in_list_Some: "send_Inputs tx = map Some is \<Longrightarrow> in_list tx = is"
  and out_list_Some: "send_Outputs tx = map Some os \<Longrightarrow> out_list tx = os"
  by (simp_all add: in_list_def out_list_def)

lemma bal_debit:
  "bc_view c a = Some acc \<Longrightarrow> keyed W acc acc' \<Longrightarrow> view' a = Some (debit n acc') \<Longrightarrow> 0 < n \<Longrightarrow> n \<le> acc_Balance acc \<Longrightarrow>
     in_int64 (bal (bc_view c) a) \<Longrightarrow> bal view' a = bal (bc_view c) a - n"
  by (simp add: bal_def debit_def int64_simps)

lemma bal_credit:
  "view' a = Some (credit n (or_new view a)) \<Longrightarrow> 0 < n \<Longrightarrow> 0 \<le> bal view a \<Longrightarrow> bal view a + n \<le> MaxInt64 \<Longrightarrow>
     bal view' a = bal view a + n"
  by (simp add: bal_def credit_def or_new_def new_output_account_def int64_simps split: option.splits)

lemma bal_credit_wraps: "view' a = Some (credit n (or_new view a)) \<Longrightarrow> bal view' a = wrap64 (bal view a + n)"
  by (simp add: bal_def credit_def or_new_def new_output_account_def split: option.splits)

lemma sum_distinct_map: "distinct (map f xs) \<Longrightarrow> (\<Sum>a\<in>f ` set xs. g a) = sum_list (map (\<lambda>x. g (f x)) xs)"
  by (induction xs) auto

lemma wrap64_sum_positive:
  assumes "\<forall>x\<in>set xs. 0 < f x" "sum_list (map f xs) \<le> MaxInt64"
  shows "wrap64 (sum_list (map f xs)) = sum_list (map f xs)"
proof -
  have "0 \<le> sum_list (map f xs)" using assms(1) by (induction xs) auto
  then show ?thesis using assms(2) by (simp add: int64_simps)
qed

lemma exec_SendTx_money:
  assumes "exec_SendTx X evc tx c = (c', Ok r)" "view_ok c" "amounts_ok (bc_view c) tx"
  shows "(\<Sum>a\<in>touched tx. bal (bc_view c') a) = (\<Sum>a\<in>touched tx. bal (bc_view c) a) - tx_fee tx \<and> 0 \<le> tx_fee tx \<and>
    list_all (\<lambda>i. bal (bc_view c') (in_Address i) = bal (bc_view c) (in_Address i) - in_Amount i) (in_list tx) \<and>
    list_all (\<lambda>out. bal (bc_view c') (out_Address out) = bal (bc_view c) (out_Address out) + out_Amount out) (out_list tx) \<and>
    (\<forall>a. a \<in> touched tx \<or> bc_view c' a = bc_view c a) \<and> name_view c' = name_view c \<and> bc_backend c' = bc_backend c"
proof -
  obtain "is" os new sb where t: "send_Inputs tx = map Some is" "send_Outputs tx = map Some os"
    "map fst new = map in_Address is" "distinct (map in_Address is @ map out_Address os)"
    "\<forall>i\<in>set is. \<exists>acc acc'. bc_view c (in_Address i) = Some acc \<and> map_of new (in_Address i) = Some acc' \<and>
       signed_input (ex_wire X) sb acc acc' i \<and> permitted (bc_view c) (Some acc) Perm_Send = Ok True"
    "wrap64 (sum_list (map out_Amount os)) \<le> wrap64 (sum_list (map in_Amount is))"
    "transferred new is os (bc_view c) (bc_view c')" "name_view c' = name_view c" "bc_backend c' = bc_backend c"
    using exec_SendTx_eq_Ok [OF assms(1,2)] by metis
  note lists = in_list_Some [OF t(1)] out_list_Some [OF t(2)]
  have ok: "\<forall>i\<in>set is. 0 < in_Amount i \<and> in_int64 (bal (bc_view c) (in_Address i))"
    "\<forall>out\<in>set os. 0 < out_Amount out \<and> 0 \<le> bal (bc_view c) (out_Address out) \<and>
       bal (bc_view c) (out_Address out) + out_Amount out \<le> MaxInt64"
    "sum_list (map in_Amount is) \<le> MaxInt64" "sum_list (map out_Amount os) \<le> MaxInt64"
    using assms(3) by (auto simp: amounts_ok_def lists list_all_iff)
  have ins: "bal (bc_view c') (in_Address i) = bal (bc_view c) (in_Address i) - in_Amount i" if "i \<in> set is" for i
  proof -
    obtain acc acc' where a: "bc_view c (in_Address i) = Some acc" "map_of new (in_Address i) = Some acc'"
      "signed_input (ex_wire X) sb acc acc' i" using t(5) \<open>i \<in> set is\<close> by blast
    then have "bc_view c' (in_Address i) = Some (debit (in_Amount i) acc')"
      using t(7) \<open>i \<in> set is\<close> by (simp add: transferred_def)
    with a show ?thesis
      using ok(1) \<open>i \<in> set is\<close> by (intro bal_debit [where acc = acc and acc' = acc']) (auto simp: signed_input_def)
  qed
  have outs: "bal (bc_view c') (out_Address out) = bal (bc_view c) (out_Address out) + out_Amount out"
    if "out \<in> set os" for out
    using ok(2) t(7) that by (intro bal_credit) (auto simp: transferred_def)
  have fee: "0 \<le> tx_fee tx"
    using t(6) ok wrap64_sum_positive [of "is" in_Amount] wrap64_sum_positive [of os out_Amount]
    by (simp add: tx_fee_def lists)
  have split: "(\<Sum>a\<in>touched tx. f a) = sum_list (map (\<lambda>i. f (in_Address i)) is) + sum_list (map (\<lambda>out. f (out_Address out)) os)"
    for f :: "bytes \<Rightarrow> int"
    using t(4) by (subst touched_def, subst sum.union_disjoint) (auto simp: lists sum_distinct_map)
  have "sum_list (map (\<lambda>i. bal (bc_view c') (in_Address i)) is) =
      sum_list (map (\<lambda>i. bal (bc_view c) (in_Address i)) is) - sum_list (map in_Amount is)"
    using ins by (induction "is") auto
  moreover have "sum_list (map (\<lambda>out. bal (bc_view c') (out_Address out)) os) =
      sum_list (map (\<lambda>out. bal (bc_view c) (out_Address out)) os) + sum_list (map out_Amount os)"
    using outs by (induction os) auto
  ultimately have "(\<Sum>a\<in>touched tx. bal (bc_view c') a) = (\<Sum>a\<in>touched tx. bal (bc_view c) a) - tx_fee tx"
    by (simp add: split tx_fee_def lists)
  moreover have "\<forall>a. a \<in> touched tx \<or> bc_view c' a = bc_view c a"
    using t(7) by (auto simp: touched_def lists transferred_def)
  ultimately show ?thesis
    using fee ins outs t(8,9) by (simp add: lists list_all_iff)
qed

text \<open>
  C1: A transfer neither makes nor loses money. When its amounts are positive and no sum leaves 64
  bits, the balances of the accounts it names add up to what they were less the fee, which is not
  negative, every input pays exactly its amount and every output receives exactly its amount, and no
  other account, no name and nothing else of the state changes.
\<close>

theorem SendTx_conserves_money:
  assumes "exec_SendTx X evc tx c = (c', Ok r)" "view_ok c" "amounts_ok (bc_view c) tx"
  shows "(\<Sum>a\<in>touched tx. bal (bc_view c') a) = (\<Sum>a\<in>touched tx. bal (bc_view c) a) - tx_fee tx \<and> 0 \<le> tx_fee tx \<and>
    list_all (\<lambda>i. bal (bc_view c') (in_Address i) = bal (bc_view c) (in_Address i) - in_Amount i) (in_list tx) \<and>
    list_all (\<lambda>out. bal (bc_view c') (out_Address out) = bal (bc_view c) (out_Address out) + out_Amount out) (out_list tx) \<and>
    (\<forall>a. a \<in> touched tx \<or> bc_view c' a = bc_view c a) \<and> name_view c' = name_view c \<and> bc_backend c' = bc_backend c"
  using assms by (rule exec_SendTx_money)

section \<open>Examples\<close>

text \<open>A machine without code, keys that are their own addresses, and signatures that all verify.\<close>

definition sample_exec :: exec_env where
  "sample_exec = \<lparr> ex_wire = sample_keys, vm_Run = (\<lambda>_ _ _ _ _ _ _ _ _ _ t. (t, [], Ok [])) \<rparr>"

definition addr20 :: "byte \<Rightarrow> bytes" where
  "addr20 b = replicate 20 b"

definition rich_account :: "byte \<Rightarrow> int \<Rightarrow> Account" where
  "rich_account b n =
     \<lparr> acc_Address = addr20 b, acc_PubKey = None, acc_Sequence = 0, acc_Balance = n, acc_Code = [],
       acc_StorageRoot = [], acc_Permissions = DefaultAccountPermissions \<rparr>"

definition sample_ledger :: BlockCache where
  "sample_ledger =
     NewBlockCache (sample_validators\<lparr> st_accounts := [(addr20 1, rich_account 1 10), (addr20 2, rich_account 2 10)] \<rparr>)"

definition sample_input :: "byte \<Rightarrow> int \<Rightarrow> TxInput" where
  "sample_input b n = \<lparr> in_Address = addr20 b, in_Amount = n, in_Sequence = 1, in_Signature = Some [], in_PubKey = Some (addr20 b) \<rparr>"

definition sample_send :: "int \<Rightarrow> int \<Rightarrow> int \<Rightarrow> SendTx" where
  "sample_send n x y =
     \<lparr> send_Inputs = [Some (sample_input 1 n)],
       send_Outputs = [Some \<lparr> out_Address = addr20 2, out_Amount = x \<rparr>, Some \<lparr> out_Address = addr20 3, out_Amount = y \<rparr>] \<rparr>"

lemma addr20_simps [simp]: "length (addr20 b) = 20" "addr20 a = addr20 b \<longleftrightarrow> a = b" "take 20 (addr20 b) = addr20 b"
  by (simp_all add: addr20_def replicate_eq_replicate)

lemma sample_ledger_view: "bc_view sample_ledger = [addr20 1 \<mapsto> rich_account 1 10, addr20 2 \<mapsto> rich_account 2 10]"
  by (simp add: sample_ledger_def view_New State_GetAccount_def [abs_def] fun_eq_iff)

lemma sample_ledger_ok: "view_ok sample_ledger"
  by (auto simp: view_ok_def sample_ledger_view rich_account_def split: if_splits)

lemma default_permission: "p \<in> {Perm_Send, Perm_CreateAccount} \<Longrightarrow> HasPermission G (Some (rich_account b n)) p = eret True"
  by (auto simp: HasPermission_def check_perm_def deref_def rich_account_def DefaultAccountPermissions_def perm_Get_def
      DefaultPermFlags_def AllPermFlags_value perm_flags)


lemma sample_send_runs:
  "case exec_SendTx sample_exec False (sample_send 9 4 3) sample_ledger of (c, Ok r) \<Rightarrow> True | _ \<Rightarrow> False"
  by code_simp

theorem SendTx_conserves_money_witness:
  "\<exists>c' r. exec_SendTx sample_exec False (sample_send 9 4 3) sample_ledger = (c', Ok r) \<and>
     bal (bc_view c') (addr20 1) = 1 \<and> bal (bc_view c') (addr20 2) = 14 \<and> bal (bc_view c') (addr20 3) = 3"
proof -
  obtain c' r where run: "exec_SendTx sample_exec False (sample_send 9 4 3) sample_ledger = (c', Ok r)"
    using sample_send_runs by (auto split: prod.splits outcome.splits)
  have lists: "in_list (sample_send 9 4 3) = [sample_input 1 9]"
    "out_list (sample_send 9 4 3) = [\<lparr> out_Address = addr20 2, out_Amount = 4 \<rparr>, \<lparr> out_Address = addr20 3, out_Amount = 3 \<rparr>]"
    by (simp_all add: in_list_def out_list_def sample_send_def)
  have bals: "bal (bc_view sample_ledger) (addr20 1) = 10" "bal (bc_view sample_ledger) (addr20 2) = 10"
    "bal (bc_view sample_ledger) (addr20 3) = 0"
    by (simp_all add: bal_def sample_ledger_view rich_account_def)
  have "amounts_ok (bc_view sample_ledger) (sample_send 9 4 3)"
    by (simp add: amounts_ok_def lists bals sample_input_def int64_simps)
  from SendTx_conserves_money [OF run sample_ledger_ok this] run show ?thesis
    by (simp add: lists bals sample_input_def)
qed

section \<open>Safety of transfers\<close>

text \<open>
  C2: Whose balance falls in a transfer. It is an input of the transaction, whose bytes carry a signature
  that verifies under the account's key (the one on record, or one that hashes to the address), with the
  next sequence number and enough money, and the account has the permission to send; or it is an output
  with a negative amount, or one whose credit does not fit into 64 bits, which the checks let through. No
  other account loses money, whatever the amounts are.
\<close>

theorem SendTx_spends_signed_inputs:
  assumes "exec_SendTx X evc tx c = (c', Ok r)" "view_ok c" "bal (bc_view c') a < bal (bc_view c) a"
  shows "(\<exists>i\<in>set (in_list tx). \<exists>acc acc' sb. in_Address i = a \<and> bc_view c a = Some acc \<and>
      SignBytes (ex_wire X) (ChainID (bc_backend c)) (TxSend tx) = Ok sb \<and> signed_input (ex_wire X) sb acc acc' i \<and>
      permitted (bc_view c) (Some acc) Perm_Send = Ok True) \<or>
    (\<exists>out\<in>set (out_list tx). out_Address out = a \<and>
      (out_Amount out < 0 \<or> wrap64 (bal (bc_view c) a + out_Amount out) \<noteq> bal (bc_view c) a + out_Amount out))"
proof -
  obtain "is" os new sb where t: "send_Inputs tx = map Some is" "send_Outputs tx = map Some os"
    "SignBytes (ex_wire X) (ChainID (bc_backend c)) (TxSend tx) = Ok sb"
    "\<forall>i\<in>set is. \<exists>acc acc'. bc_view c (in_Address i) = Some acc \<and> map_of new (in_Address i) = Some acc' \<and>
       signed_input (ex_wire X) sb acc acc' i \<and> permitted (bc_view c) (Some acc) Perm_Send = Ok True"
    "transferred new is os (bc_view c) (bc_view c')"
    using exec_SendTx_eq_Ok [OF assms(1,2)] by metis
  note lists = in_list_Some [OF t(1)] out_list_Some [OF t(2)]
  have "bc_view c' a \<noteq> bc_view c a" using assms(3) by (auto simp: bal_def)
  then consider "a \<in> in_Address ` set is" | "a \<in> out_Address ` set os"
    using t(5) unfolding transferred_def by blast
  then show ?thesis
  proof cases
    case 1
    then obtain i where "i \<in> set is" "a = in_Address i" by blast
    then show ?thesis using t(3,4) lists by metis
  next
    case 2
    then obtain out where out: "out \<in> set os" "a = out_Address out" by blast
    then have "bc_view c' a = Some (credit (out_Amount out) (or_new (bc_view c) a))"
      using t(5) by (auto simp: transferred_def)
    then have "bal (bc_view c') a = wrap64 (bal (bc_view c) a + out_Amount out)" by (rule bal_credit_wraps)
    then show ?thesis using out assms(3) lists by (intro disjI2 bexI [of _ out]) auto
  qed
qed

theorem SendTx_spends_signed_inputs_witness:
  "\<exists>i\<in>set (in_list (sample_send 9 4 3)). \<exists>acc acc' sb. in_Address i = addr20 1 \<and>
     bc_view sample_ledger (addr20 1) = Some acc \<and>
     SignBytes (ex_wire sample_exec) (ChainID (bc_backend sample_ledger)) (TxSend (sample_send 9 4 3)) = Ok sb \<and>
     signed_input (ex_wire sample_exec) sb acc acc' i \<and>
     permitted (bc_view sample_ledger) (Some acc) Perm_Send = Ok True"
proof -
  have "case exec_SendTx sample_exec False (sample_send 9 4 3) sample_ledger of
      (c, Ok r) \<Rightarrow> bal (bc_view c) (addr20 1) = 1 | _ \<Rightarrow> False"
    by code_simp
  then obtain c' r where run: "exec_SendTx sample_exec False (sample_send 9 4 3) sample_ledger = (c', Ok r)"
    "bal (bc_view c') (addr20 1) = 1"
    by (auto split: prod.splits outcome.splits)
  have lists: "out_list (sample_send 9 4 3) =
      [\<lparr> out_Address = addr20 2, out_Amount = 4 \<rparr>, \<lparr> out_Address = addr20 3, out_Amount = 3 \<rparr>]"
    by (simp add: out_list_def sample_send_def)
  have "bal (bc_view c') (addr20 1) < bal (bc_view sample_ledger) (addr20 1)"
    using run(2) by (simp add: bal_def sample_ledger_view rich_account_def)
  from SendTx_spends_signed_inputs [OF run(1) sample_ledger_ok this] show ?thesis by (simp add: lists)
qed

text \<open>
  C3: A transfer with an input cannot be replayed: after it was executed, executing it again is refused,
  whatever its amounts are.
\<close>

theorem SendTx_no_replay:
  assumes "exec_SendTx X evc tx c = (c', Ok r)" "view_ok c" "send_Inputs tx \<noteq> []"
  shows "snd (exec_SendTx X evc' tx c') \<noteq> Ok r'"
proof
  assume "snd (exec_SendTx X evc' tx c') = Ok r'"
  then obtain c'' where again: "exec_SendTx X evc' tx c' = (c'', Ok r')" by (metis prod.collapse)
  obtain "is" os new sb where t: "send_Inputs tx = map Some is"
    "\<forall>i\<in>set is. \<exists>acc acc'. bc_view c (in_Address i) = Some acc \<and> map_of new (in_Address i) = Some acc' \<and>
       signed_input (ex_wire X) sb acc acc' i \<and> permitted (bc_view c) (Some acc) Perm_Send = Ok True"
    "transferred new is os (bc_view c) (bc_view c')"
    using exec_SendTx_eq_Ok [OF assms(1,2)] by metis
  obtain is2 new2 sb2 where t2: "send_Inputs tx = map Some is2"
    "\<forall>i\<in>set is2. \<exists>acc acc'. bc_view c' (in_Address i) = Some acc \<and> map_of new2 (in_Address i) = Some acc' \<and>
       signed_input (ex_wire X) sb2 acc acc' i \<and> permitted (bc_view c') (Some acc) Perm_Send = Ok True"
    using exec_SendTx_eq_Ok [OF again exec_SendTx_view_ok [OF assms(1,2)]] by metis
  have "is2 = is" using t(1) t2(1) in_list_Some by metis
  obtain i where i: "i \<in> set is" using assms(3) t(1) by (cases "is") auto
  obtain acc acc' where a: "map_of new (in_Address i) = Some acc'" "signed_input (ex_wire X) sb acc acc' i"
    using t(2) i by blast
  then have "bc_view c' (in_Address i) = Some (debit (in_Amount i) acc')"
    using t(3) i by (simp add: transferred_def)
  then have "in_Sequence i = wrap64 (acc_Sequence (debit (in_Amount i) acc') + 1)"
    using t2(2) i \<open>is2 = is\<close> by (auto simp: signed_input_def)
  moreover have "in_Sequence i = wrap64 (acc_Sequence acc' + 1)" using a(2) by (auto simp: signed_input_def)
  ultimately have "wrap64 (acc_Sequence acc' + 1) = wrap64 (acc_Sequence acc' + 1 + 1)" by (simp add: debit_def)
  then show False using wrap64_Suc_neq [of "acc_Sequence acc' + 1"] by simp
qed

theorem SendTx_no_replay_witness:
  "\<exists>c' r. exec_SendTx sample_exec False (sample_send 9 4 3) sample_ledger = (c', Ok r) \<and>
     (\<forall>r'. snd (exec_SendTx sample_exec False (sample_send 9 4 3) c') \<noteq> Ok r')"
proof -
  obtain c' r where run: "exec_SendTx sample_exec False (sample_send 9 4 3) sample_ledger = (c', Ok r)"
    using sample_send_runs by (auto split: prod.splits outcome.splits)
  have "send_Inputs (sample_send 9 4 3) \<noteq> []" by (simp add: sample_send_def)
  with run show ?thesis using SendTx_no_replay [OF run sample_ledger_ok] by auto
qed

text \<open>
  The checks let amounts through that break this. Only the amount zero is refused, so an output
  with a negative amount takes money from an account that signed nothing, and gives it to another
  output.
\<close>

theorem SendTx_negative_output_steals:
  "\<exists>c' r. exec_SendTx sample_exec False (sample_send 1 (- 5) 6) sample_ledger = (c', Ok r) \<and>
     bal (bc_view c') (addr20 2) = bal (bc_view sample_ledger) (addr20 2) - 5 \<and> bal (bc_view c') (addr20 3) = 6"
proof -
  have "case exec_SendTx sample_exec False (sample_send 1 (- 5) 6) sample_ledger of
      (c, Ok r) \<Rightarrow> bal (bc_view c) (addr20 2) = bal (bc_view sample_ledger) (addr20 2) - 5 \<and> bal (bc_view c) (addr20 3) = 6
    | _ \<Rightarrow> False"
    by code_simp
  then show ?thesis by (auto split: prod.splits outcome.splits)
qed

text \<open>
  Nor do they ask for an input. Without one there is nothing to sign and no sequence number: anybody can
  move money from one account to another, and do it again with the same transaction.
\<close>

definition unsigned_send :: "int \<Rightarrow> SendTx" where
  "unsigned_send n = \<lparr> send_Inputs = [],
     send_Outputs = [Some \<lparr> out_Address = addr20 1, out_Amount = - n \<rparr>, Some \<lparr> out_Address = addr20 2, out_Amount = n \<rparr>] \<rparr>"

theorem SendTx_unsigned_replays:
  "\<exists>c1 r1 c2 r2. exec_SendTx sample_exec False (unsigned_send 5) sample_ledger = (c1, Ok r1) \<and>
     exec_SendTx sample_exec False (unsigned_send 5) c1 = (c2, Ok r2) \<and>
     map (bal (bc_view sample_ledger)) [addr20 1, addr20 2] = [10, 10] \<and>
     map (bal (bc_view c1)) [addr20 1, addr20 2] = [5, 15] \<and> map (bal (bc_view c2)) [addr20 1, addr20 2] = [0, 20]"
proof -
  have "case exec_SendTx sample_exec False (unsigned_send 5) sample_ledger of
      (c1, Ok r1) \<Rightarrow>
        (case exec_SendTx sample_exec False (unsigned_send 5) c1 of
           (c2, Ok r2) \<Rightarrow> map (bal (bc_view sample_ledger)) [addr20 1, addr20 2] = [10, 10] \<and>
             map (bal (bc_view c1)) [addr20 1, addr20 2] = [5, 15] \<and> map (bal (bc_view c2)) [addr20 1, addr20 2] = [0, 20]
         | _ \<Rightarrow> False)
    | _ \<Rightarrow> False"
    by code_simp
  then show ?thesis by (auto split: prod.splits outcome.splits)
qed

end
