(* ===== verification/Evm.thy ===== *)
theory Evm
  imports Evm_Native
begin

text \<open>
  The contract machine (the vendored \<open>vm/vm.go\<close>, \<open>vm/stack.go\<close>, \<open>vm/opcodes.go\<close>). A frame of a call
  has a program counter, a stack of at most 1024 words, one megabyte of memory and the error the
  stack operations remember; gas, the transaction cache and the events are shared by all frames.

  An instruction is an operation on this state. Its error is the error with which \<open>call\<close> returns, its
  value says how the loop goes on; \<open>Create\<close> and \<open>Invoke\<close> ask the loop to run a nested call, after
  which \<open>after_create\<close> and \<open>after_call\<close> finish the instruction. The loop need not end (the gas does
  not bound it), so it has fuel, one unit per instruction, and \<open>None\<close> means that it was not enough.
\<close>

unbundle bit_operations_syntax

section \<open>Machine state\<close>

definition dataStackCapacity :: nat where "dataStackCapacity = 1024"
definition memoryCapacity :: int where "memoryCapacity = 1024 * 1024"

record vm_env =
  ve_wire :: wire_env
  ve_hash :: hash_env
  ve_params :: vm_Params
  ve_origin :: word256
  ve_txid :: bytes
  ve_evc :: bool

record mach =
  m_caller :: acc_ref
  m_callee :: acc_ref
  m_code :: bytes
  m_input :: bytes
  m_value :: int
  m_pc :: int
  m_stack :: "word256 list"
  m_mem :: "int \<Rightarrow> byte"
  m_err :: "string option"
  m_gas :: int
  m_cache :: TxCache
  m_events :: fired

type_synonym 'a vmop = "(mach, 'a) exec"

section \<open>Stack\<close>

text \<open>The stack is the list of the words below \<open>ptr\<close>, the top first.\<close>

definition setErr :: "string \<Rightarrow> mach \<Rightarrow> mach" where
  "setErr e m = (if m_err m = None then m\<lparr> m_err := Some e \<rparr> else m)"

definition stack_useGas :: "int \<Rightarrow> mach \<Rightarrow> mach" where
  "stack_useGas g m = (if m_gas m > g then m\<lparr> m_gas := m_gas m - g \<rparr> else setErr ErrInsufficientGas m)"

definition stack_Push :: "word256 \<Rightarrow> unit vmop" where
  "stack_Push d = echange (\<lambda>m. let m = stack_useGas GasStackOp m in
     if length (m_stack m) = dataStackCapacity then setErr ErrDataStackOverflow m
     else m\<lparr> m_stack := d # m_stack m \<rparr>)"

definition PushBytes :: "bytes \<Rightarrow> unit vmop" where
  "PushBytes bz =
     (if length bz \<noteq> 32 then elift (Panic ''Invalid bytes size: expected 32'')
      else ebind (elift (LeftPadWord256 bz)) stack_Push)"

definition Push64 :: "int \<Rightarrow> unit vmop" where
  "Push64 i = stack_Push (Int64ToWord256 i)"

definition stack_Pop :: "word256 vmop" where
  "stack_Pop = ecall (\<lambda>m. let m = stack_useGas GasStackOp m in
     case m_stack m of
       [] \<Rightarrow> (Zero256, setErr ErrDataStackUnderflow m)
     | d # ds \<Rightarrow> (d, m\<lparr> m_stack := ds \<rparr>))"

definition Pop64 :: "int vmop" where
  "Pop64 = ebind stack_Pop (\<lambda>d. eret (Int64FromWord256 d))"

definition stack_Swap :: "nat \<Rightarrow> unit vmop" where
  "stack_Swap n = echange (\<lambda>m. let m = stack_useGas GasStackOp m; st = m_stack m in
     if length st < n then setErr ErrDataStackUnderflow m
     else m\<lparr> m_stack := st[n - 1 := st ! 0, 0 := st ! (n - 1)] \<rparr>)"

definition stack_Dup :: "nat \<Rightarrow> unit vmop" where
  "stack_Dup n =
     ebind (echange (stack_useGas GasStackOp)) (\<lambda>_.
     ebind (eread m_stack) (\<lambda>st.
     if length st < n then echange (setErr ErrDataStackUnderflow)
     else stack_Push (st ! (n - 1))))"

section \<open>Gas, code and memory\<close>

text \<open>Returning from a call: the error remembered before has precedence over the new one.\<close>

definition fail_first :: "string \<Rightarrow> 'a vmop" where
  "fail_first e = ebind (eread m_err) (\<lambda>first. elift (Err (case first of Some e0 \<Rightarrow> e0 | None \<Rightarrow> e)))"

definition useGasNegative :: "int \<Rightarrow> unit vmop" where
  "useGasNegative gasToUse =
     ebind (eread m_gas) (\<lambda>gasLeft.
     if gasLeft \<ge> gasToUse then echange (\<lambda>m. m\<lparr> m_gas := gasLeft - gasToUse \<rparr>)
     else fail_first ErrInsufficientGas)"

definition codeGetOp :: "bytes \<Rightarrow> int \<Rightarrow> byte outcome" where
  "codeGetOp code n =
     (if int (length code) \<le> n then Ok 0
      else if n < 0 then Panic ''index out of range''
      else Ok (code ! nat n))"

text \<open>
  The bounds of a subslice and whether it is a padded copy: nothing when the offset is behind the
  end; the rest of the data when it is too short, copied and padded to 32 bytes unless it is longer.
\<close>

definition subslice_bounds :: "int \<Rightarrow> int \<Rightarrow> int \<Rightarrow> (int \<times> int \<times> bool) option outcome" where
  "subslice_bounds sz offset len =
     (if sz < offset then Ok None
      else let stop = wrap64 (offset + len) in
        if sz < stop then
          (if offset < 0 then Panic ''slice bounds out of range'' else Ok (Some (offset, sz, sz - offset \<le> 32)))
        else if offset < 0 \<or> stop < offset then Panic ''slice bounds out of range''
        else Ok (Some (offset, stop, False)))"

definition subslice :: "bytes \<Rightarrow> int \<Rightarrow> int \<Rightarrow> bytes option outcome" where
  "subslice data offset len =
     obind (subslice_bounds (int (length data)) offset len) (\<lambda>r.
     Ok (map_option (\<lambda>(lo, hi, padded).
           let bs = take (nat (hi - lo)) (drop (nat lo) data) in if padded then RightPadBytes bs 32 else bs) r))"

definition mem_bytes :: "(int \<Rightarrow> byte) \<Rightarrow> int \<times> int \<times> bool \<Rightarrow> bytes" where
  "mem_bytes mem r =
     (case r of (lo, hi, padded) \<Rightarrow>
        let bs = map mem [lo..hi - 1] in if padded then RightPadBytes bs 32 else bs)"

definition mem_copy :: "int \<times> int \<times> bool \<Rightarrow> bytes \<Rightarrow> (int \<Rightarrow> byte) \<Rightarrow> int \<Rightarrow> byte" where
  "mem_copy r data mem =
     (case r of (lo, hi, padded) \<Rightarrow>
        if padded then mem
        else (\<lambda>i. if lo \<le> i \<and> i < hi \<and> i - lo < int (length data) then data ! nat (i - lo) else mem i))"

text \<open>A part of the memory, and a part of another byte string, with the errors of the machine.\<close>

definition mem_part :: "int \<Rightarrow> int \<Rightarrow> (int \<times> int \<times> bool) vmop" where
  "mem_part offset len =
     ebind (elift (subslice_bounds memoryCapacity offset len)) (\<lambda>r. case r of
       None \<Rightarrow> fail_first ErrMemoryOutOfBounds | Some r \<Rightarrow> eret r)"

definition mem_read :: "int \<Rightarrow> int \<Rightarrow> bytes vmop" where
  "mem_read offset len =
     ebind (mem_part offset len) (\<lambda>r. ebind (eread m_mem) (\<lambda>mem. eret (mem_bytes mem r)))"

definition mem_write :: "int \<Rightarrow> int \<Rightarrow> bytes \<Rightarrow> unit vmop" where
  "mem_write offset len data =
     ebind (mem_part offset len) (\<lambda>r. echange (\<lambda>m. m\<lparr> m_mem := mem_copy r data (m_mem m) \<rparr>))"

definition data_part :: "string \<Rightarrow> bytes \<Rightarrow> int \<Rightarrow> int \<Rightarrow> bytes vmop" where
  "data_part e data offset len =
     ebind (elift (subslice data offset len)) (\<lambda>r. case r of
       None \<Rightarrow> fail_first e | Some bs \<Rightarrow> eret bs)"

definition jump :: "int \<Rightarrow> unit vmop" where
  "jump dst =
     ebind (eread m_code) (\<lambda>code.
     ebind (elift (codeGetOp code dst)) (\<lambda>op.
     if op \<noteq> 0x5B then elift (Err ErrInvalidJumpDest)
     else echange (\<lambda>m. m\<lparr> m_pc := dst, m_err := None \<rparr>)))"

section \<open>Instructions\<close>

datatype signal =
    Next | Jumped | Return bytes
  | Create acc_ref bytes int
  | Invoke acc_ref acc_ref bytes bytes int "int \<times> int \<times> int"

definition on_cache :: "(TxCache, 'a) exec \<Rightarrow> 'a vmop" where
  "on_cache f m = (case f (m_cache m) of (c, r) \<Rightarrow> (m\<lparr> m_cache := c \<rparr>, r))"

definition push_big :: "int \<Rightarrow> signal vmop" where
  "push_big x = ebind (elift (big_word x)) (\<lambda>w. ebind (stack_Push w) (\<lambda>_. eret Next))"

definition push_next :: "word256 \<Rightarrow> signal vmop" where
  "push_next w = ebind (stack_Push w) (\<lambda>_. eret Next)"

definition push_bool :: "bool \<Rightarrow> signal vmop" where
  "push_bool b = push_next (if b then Int64ToWord256 1 else Zero256)"

definition pop2 :: "(word256 \<Rightarrow> word256 \<Rightarrow> 'a vmop) \<Rightarrow> 'a vmop" where
  "pop2 f = ebind stack_Pop (\<lambda>x. ebind stack_Pop (\<lambda>y. f x y))"

text \<open>Division and remainder push zero when the divisor is zero.\<close>

definition unless_zero :: "word256 \<Rightarrow> int \<Rightarrow> signal vmop" where
  "unless_zero z x = (if word_IsZero z then push_next Zero256 else push_big x)"

definition signextend :: "int \<Rightarrow> word256 \<Rightarrow> int" where
  "signextend back num =
     (let k = nat (back * 8 + 7); n = SetBytes num; mask = 2 ^ k - 1 in
      if bit n k then n OR NOT mask else n + mask)"

text \<open>
  The instructions compute with integers of any size and cut the result to 256 bits afterwards. For
  \<open>EXP\<close> this is the value only: the code raises to the full power before it cuts (\<open>big.Int.Exp\<close> with
  modulus zero), which for a large exponent takes more time and memory than any node has. Neither is
  part of the model.
\<close>

definition op_arith :: "byte \<Rightarrow> signal vmop" where
  "op_arith op =
     (if op = 0x01 then pop2 (\<lambda>x y. push_big (SetBytes x + SetBytes y))
      else if op = 0x02 then pop2 (\<lambda>x y. push_big (SetBytes x * SetBytes y))
      else if op = 0x03 then pop2 (\<lambda>x y. push_big (SetBytes x - SetBytes y))
      else if op = 0x04 then pop2 (\<lambda>x y. unless_zero y (big_Div (SetBytes x) (SetBytes y)))
      else if op = 0x05 then pop2 (\<lambda>x y. unless_zero y (big_Div (S256 (SetBytes x)) (S256 (SetBytes y))))
      else if op = 0x06 then pop2 (\<lambda>x y. unless_zero y (big_Mod (SetBytes x) (SetBytes y)))
      else if op = 0x07 then pop2 (\<lambda>x y. unless_zero y (big_Mod (S256 (SetBytes x)) (S256 (SetBytes y))))
      else if op = 0x08 then pop2 (\<lambda>x y. ebind stack_Pop (\<lambda>z.
        unless_zero z (big_Mod (SetBytes x + SetBytes y) (SetBytes z))))
      else if op = 0x09 then pop2 (\<lambda>x y. ebind stack_Pop (\<lambda>z.
        unless_zero z (big_Mod (SetBytes x * SetBytes y) (SetBytes z))))
      else if op = 0x0A then pop2 (\<lambda>x y. push_big (SetBytes x ^ nat (SetBytes y)))
      else
        ebind stack_Pop (\<lambda>back.
        if SetBytes back < 31 then ebind stack_Pop (\<lambda>num. push_big (signextend (SetBytes back) num))
        else eret Next))"

definition op_compare :: "byte \<Rightarrow> signal vmop" where
  "op_compare op =
     (if op = 0x10 then pop2 (\<lambda>x y. push_bool (SetBytes x < SetBytes y))
      else if op = 0x11 then pop2 (\<lambda>x y. push_bool (SetBytes x > SetBytes y))
      else if op = 0x12 then pop2 (\<lambda>x y. push_bool (S256 (SetBytes x) < S256 (SetBytes y)))
      else if op = 0x13 then pop2 (\<lambda>x y. push_bool (S256 (SetBytes x) > S256 (SetBytes y)))
      else if op = 0x14 then pop2 (\<lambda>x y. push_bool (x = y))
      else if op = 0x15 then ebind stack_Pop (\<lambda>x. push_bool (word_IsZero x))
      else if op = 0x16 then pop2 (\<lambda>x y. push_next (map2 (AND) x y))
      else if op = 0x17 then pop2 (\<lambda>x y. push_next (map2 (OR) x y))
      else if op = 0x18 then pop2 (\<lambda>x y. push_next (map2 (XOR) x y))
      else if op = 0x19 then ebind stack_Pop (\<lambda>x. push_next (map NOT x))
      else
        ebind Pop64 (\<lambda>idx. ebind stack_Pop (\<lambda>val.
        if idx < 32 then
          (if idx < 0 then elift (Panic ''index out of range'')
           else push_next (Int64ToWord256 (uint (val ! nat idx))))
        else push_next (Int64ToWord256 0))))"

text \<open>An account by its address, charged for; an unknown one ends the call.\<close>

definition charged_account :: "word256 \<Rightarrow> acc_ref vmop" where
  "charged_account addr =
     ebind (useGasNegative GasGetAccount) (\<lambda>_.
     ebind (on_cache (vm_GetAccount addr)) (\<lambda>acc. case acc of
       None \<Rightarrow> fail_first ErrUnknownAddress | Some r \<Rightarrow> eret r))"

definition read_acc :: "(mach \<Rightarrow> acc_ref) \<Rightarrow> (VMAccount \<Rightarrow> 'a) \<Rightarrow> 'a vmop" where
  "read_acc r f = eread (\<lambda>m. f (tc_obj (m_cache m) (r m)))"

definition copy_to_memory :: "string \<Rightarrow> bytes \<Rightarrow> signal vmop" where
  "copy_to_memory e data =
     ebind Pop64 (\<lambda>memOff. ebind Pop64 (\<lambda>off. ebind Pop64 (\<lambda>len.
     ebind (data_part e data off len) (\<lambda>bs.
     ebind (mem_write memOff len bs) (\<lambda>_. eret Next)))))"

definition op_environment :: "vm_env \<Rightarrow> byte \<Rightarrow> signal vmop" where
  "op_environment V op =
     (if op = 0x20 then
        ebind (useGasNegative GasSha3) (\<lambda>_. ebind Pop64 (\<lambda>offset. ebind Pop64 (\<lambda>len.
        ebind (mem_read offset len) (\<lambda>data. ebind (PushBytes (Sha3 (ve_hash V) data)) (\<lambda>_. eret Next)))))
      else if op = 0x30 then ebind (read_acc m_callee vm_Address) push_next
      else if op = 0x31 then
        ebind stack_Pop (\<lambda>addr. ebind (charged_account addr) (\<lambda>acc.
        ebind (read_acc (\<lambda>_. acc) vm_Balance) (\<lambda>balance. push_next (Int64ToWord256 balance))))
      else if op = 0x32 then push_next (ve_origin V)
      else if op = 0x33 then ebind (read_acc m_caller vm_Address) push_next
      else if op = 0x34 then ebind (eread m_value) (\<lambda>value. push_next (Int64ToWord256 value))
      else if op = 0x35 then
        ebind (eread m_input) (\<lambda>input. ebind Pop64 (\<lambda>offset.
        ebind (data_part ErrInputOutOfBounds input offset 32) (\<lambda>data.
        ebind (elift (LeftPadWord256 data)) push_next)))
      else if op = 0x36 then ebind (eread m_input) (\<lambda>input. push_next (Int64ToWord256 (int (length input))))
      else if op = 0x37 then ebind (eread m_input) (copy_to_memory ErrInputOutOfBounds)
      else if op = 0x38 then ebind (eread m_code) (\<lambda>code. push_next (Int64ToWord256 (int (length code))))
      else if op = 0x39 then ebind (eread m_code) (copy_to_memory ErrCodeOutOfBounds)
      else if op = 0x3A then push_next Zero256
      else if op = 0x3B then
        ebind stack_Pop (\<lambda>addr. ebind (charged_account addr) (\<lambda>acc.
        ebind (read_acc (\<lambda>_. acc) vm_Code) (\<lambda>code. push_next (Int64ToWord256 (int (length code))))))
      else if op = 0x3C then
        ebind stack_Pop (\<lambda>addr. ebind (charged_account addr) (\<lambda>acc.
        ebind (read_acc (\<lambda>_. acc) vm_Code) (copy_to_memory ErrCodeOutOfBounds)))
      else if op = 0x40 \<or> op = 0x41 then push_next Zero256
      else if op = 0x42 then push_next (Int64ToWord256 (BlockTime (ve_params V)))
      else if op = 0x43 then push_next (Int64ToWord256 (vm_BlockHeight (ve_params V)))
      else push_next (Int64ToWord256 (GasLimit (ve_params V))))"

definition op_storage :: "byte \<Rightarrow> signal vmop" where
  "op_storage op =
     (if op = 0x50 then ebind stack_Pop (\<lambda>_. eret Next)
      else if op = 0x51 then
        ebind Pop64 (\<lambda>offset. ebind (mem_read offset 32) (\<lambda>data.
        ebind (elift (LeftPadWord256 data)) push_next))
      else if op = 0x52 then
        ebind Pop64 (\<lambda>offset. ebind stack_Pop (\<lambda>data. ebind (mem_write offset 32 data) (\<lambda>_. eret Next)))
      else if op = 0x53 then
        ebind Pop64 (\<lambda>offset. ebind Pop64 (\<lambda>val.
        if memoryCapacity \<le> offset then fail_first ErrMemoryOutOfBounds
        else if offset < 0 then elift (Panic ''index out of range'')
        else ebind (echange (\<lambda>m. m\<lparr> m_mem := (m_mem m)(offset := word_of_int val) \<rparr>)) (\<lambda>_. eret Next)))
      else if op = 0x54 then
        ebind stack_Pop (\<lambda>loc. ebind (read_acc m_callee vm_Address) (\<lambda>addr.
        ebind (on_cache (\<lambda>c. case tc_GetStorage addr loc c of
                 Ok (v, c') \<Rightarrow> (c', Ok v) | Err e \<Rightarrow> (c, Err e) | Panic e \<Rightarrow> (c, Panic e))) push_next))
      else
        pop2 (\<lambda>loc data. ebind (useGasNegative GasStorageUpdate) (\<lambda>_.
        ebind (read_acc m_callee vm_Address) (\<lambda>addr.
        ebind (on_cache (etry (tc_SetStorage addr loc data))) (\<lambda>_. eret Next)))))"

definition op_flow :: "byte \<Rightarrow> signal vmop" where
  "op_flow op =
     (if op = 0x56 then ebind Pop64 (\<lambda>pos. ebind (jump pos) (\<lambda>_. eret Jumped))
      else if op = 0x57 then
        ebind Pop64 (\<lambda>pos. ebind stack_Pop (\<lambda>cond.
        if word_IsZero cond then eret Next else ebind (jump pos) (\<lambda>_. eret Jumped)))
      else if op = 0x58 then ebind (eread m_pc) (\<lambda>pc. push_next (Int64ToWord256 pc))
      else if op = 0x59 then push_next (Int64ToWord256 memoryCapacity)
      else if op = 0x5A then ebind (eread m_gas) (\<lambda>gas. push_next (Int64ToWord256 gas))
      else eret Next)"

definition op_push :: "nat \<Rightarrow> signal vmop" where
  "op_push a =
     ebind (eread m_code) (\<lambda>code. ebind (eread m_pc) (\<lambda>pc.
     ebind (data_part ErrCodeOutOfBounds code (pc + 1) (int a)) (\<lambda>codeSegment.
     ebind (elift (LeftPadWord256 codeSegment)) (\<lambda>res.
     ebind (stack_Push res) (\<lambda>_.
     ebind (echange (\<lambda>m. m\<lparr> m_pc := pc + int a \<rparr>)) (\<lambda>_. eret Next))))))"

section \<open>Events\<close>

definition EventStringLogEvent :: "bytes \<Rightarrow> string" where
  "EventStringLogEvent addr = ''Log/'' @ fmt_X addr"

fun pop_topics :: "nat \<Rightarrow> word256 list vmop" where
  "pop_topics 0 = eret []"
| "pop_topics (Suc n) = ebind stack_Pop (\<lambda>t. ebind (pop_topics n) (\<lambda>ts. eret (t # ts)))"

definition op_log :: "vm_env \<Rightarrow> nat \<Rightarrow> signal vmop" where
  "op_log V n =
     ebind Pop64 (\<lambda>offset. ebind Pop64 (\<lambda>len.
     ebind (pop_topics n) (\<lambda>topics.
     ebind (mem_read offset len) (\<lambda>data.
     ebind (read_acc m_callee vm_Address) (\<lambda>addr.
     ebind (echange (\<lambda>m. if ve_evc V then
              m\<lparr> m_events := m_events m @
                   [(EventStringLogEvent (Postfix20 addr),
                     EvLog \<lparr> edl_Address = addr, edl_Topics = topics, edl_Data = data,
                             edl_Height = vm_BlockHeight (ve_params V) \<rparr>)] \<rparr>
              else m)) (\<lambda>_. eret Next))))))"

definition fireCallEvent ::
  "vm_env \<Rightarrow> string \<Rightarrow> bytes \<Rightarrow> word256 \<Rightarrow> word256 \<Rightarrow> bytes \<Rightarrow> int \<Rightarrow> mach \<Rightarrow> mach" where
  "fireCallEvent V exception output caller callee input value m =
     (if ve_evc V then
        m\<lparr> m_events := m_events m @
             [(EventStringAccCall (Postfix20 callee),
               EvCall \<lparr> edc_CallData = Some \<lparr> cd_Caller = Postfix20 caller, cd_Callee = Postfix20 callee,
                          cd_Data = input, cd_Value = value, cd_Gas = m_gas m \<rparr>,
                        edc_Origin = Postfix20 (ve_origin V), edc_TxID = ve_txid V,
                        edc_Return = output, edc_Exception = exception \<rparr>)] \<rparr>
      else m)"

section \<open>Calls\<close>

definition op_create :: "vm_env \<Rightarrow> signal vmop" where
  "op_create V =
     ebind (eread m_callee) (\<lambda>callee.
     ebind (on_cache (vm_HasPermission callee Perm_CreateContract)) (\<lambda>allowed.
     ebind (require allowed (ErrPermission ''create_contract'')) (\<lambda>_.
     ebind Pop64 (\<lambda>contractValue. ebind Pop64 (\<lambda>offset. ebind Pop64 (\<lambda>len.
     ebind (mem_read offset len) (\<lambda>input.
     ebind (read_acc m_callee vm_Balance) (\<lambda>balance.
     if balance < contractValue then fail_first ErrInsufficientBalance
     else
       ebind (on_cache (\<lambda>c. case tc_CreateAccount (ve_wire V) callee c of
                Ok (r, c') \<Rightarrow> (c', Ok r) | Err e \<Rightarrow> (c, Err e) | Panic e \<Rightarrow> (c, Panic e))) (\<lambda>newAccount.
       eret (Create newAccount input contractValue))))))))))"

definition after_create :: "acc_ref \<Rightarrow> bytes outcome \<Rightarrow> signal vmop" where
  "after_create newAccount r =
     (case r of
        Panic e \<Rightarrow> elift (Panic e)
      | Err e \<Rightarrow> push_next Zero256
      | Ok ret \<Rightarrow>
          ebind (echange (\<lambda>m. m\<lparr> m_cache := tc_modify newAccount (\<lambda>acc. acc\<lparr> vm_Code := ret \<rparr>) (m_cache m) \<rparr>)) (\<lambda>_.
          ebind (read_acc (\<lambda>_. newAccount) vm_Address) push_next))"

definition after_call :: "int \<times> int \<times> int \<Rightarrow> bytes outcome \<Rightarrow> signal vmop" where
  "after_call k r =
     (case k of (gasLimit, retOffset, retSize) \<Rightarrow>
      ebind (case r of
               Panic e \<Rightarrow> elift (Panic e)
             | Err e \<Rightarrow> stack_Push Zero256
             | Ok ret \<Rightarrow>
                 ebind (stack_Push One256) (\<lambda>_.
                 ebind (elift (subslice_bounds memoryCapacity retOffset retSize)) (\<lambda>dest. case dest of
                   None \<Rightarrow> elift (Err ErrMemoryOutOfBounds)
                 | Some dest \<Rightarrow> echange (\<lambda>m. m\<lparr> m_mem := mem_copy dest ret (m_mem m) \<rparr>)))) (\<lambda>_.
      ebind (echange (\<lambda>m. m\<lparr> m_gas := wrap64 (m_gas m + gasLimit) \<rparr>)) (\<lambda>_. eret Next)))"

text \<open>A native contract runs on the gas limit of the call and returns what is left of it.\<close>

definition call_native ::
  "vm_env \<Rightarrow> native \<Rightarrow> word256 \<Rightarrow> bytes \<Rightarrow> int \<Rightarrow> int \<Rightarrow> (int \<times> bytes outcome) vmop" where
  "call_native V f addr args value gasLimit m =
     (case f (m_callee m) args gasLimit (m_cache m) of
        (c, gasLimit, Panic e) \<Rightarrow> (m\<lparr> m_cache := c \<rparr>, Panic e)
      | (c, gasLimit, r) \<Rightarrow>
          (fireCallEvent V (case r of Err e \<Rightarrow> e | _ \<Rightarrow> []) (case r of Ok ret \<Rightarrow> ret | _ \<Rightarrow> [])
             (vm_Address (tc_obj c (m_callee m))) addr args value (m\<lparr> m_cache := c \<rparr>),
           Ok (gasLimit, r)))"

definition new_account :: "word256 \<Rightarrow> acc_ref vmop" where
  "new_account addr =
     ebind (on_cache (ecall (tc_new \<lparr> vm_Address = addr, vm_Balance = 0, vm_Code = [], vm_Nonce = 0,
              vm_Other = NoOther, vm_Permissions = ZeroAccountPermissions \<rparr>))) (\<lambda>acc.
     ebind (on_cache (etry (tc_UpdateAccount acc))) (\<lambda>_. eret acc))"

definition call_contract :: "vm_env \<Rightarrow> bool \<Rightarrow> word256 \<Rightarrow> bytes \<Rightarrow> int \<Rightarrow> int \<times> int \<times> int \<Rightarrow> signal vmop" where
  "call_contract V callcode addr args value k =
     ebind (eread m_gas) (\<lambda>gas.
     if gas < GasGetAccount then elift (Err ErrInsufficientGas)
     else
       ebind (echange (\<lambda>m. m\<lparr> m_gas := gas - GasGetAccount \<rparr>)) (\<lambda>_.
       ebind (on_cache (vm_GetAccount addr)) (\<lambda>acc.
       ebind (eread m_callee) (\<lambda>callee.
       case acc of
         Some acc \<Rightarrow>
           ebind (read_acc (\<lambda>_. acc) vm_Code) (\<lambda>code.
           eret (Invoke callee (if callcode then callee else acc) code args value k))
       | None \<Rightarrow>
           if callcode then elift (Err ErrUnknownAddress)
           else
             ebind (eread m_caller) (\<lambda>caller.
             ebind (on_cache (vm_HasPermission caller Perm_CreateAccount)) (\<lambda>allowed.
             ebind (require allowed (ErrPermission ''create_account'')) (\<lambda>_.
             ebind (new_account addr) (\<lambda>acc. eret (Invoke callee acc [] args value k)))))))))"

definition op_call :: "vm_env \<Rightarrow> bool \<Rightarrow> signal vmop" where
  "op_call V callcode =
     ebind (eread m_callee) (\<lambda>callee.
     ebind (on_cache (vm_HasPermission callee Perm_Call)) (\<lambda>allowed.
     ebind (require allowed (ErrPermission ''call'')) (\<lambda>_.
     ebind Pop64 (\<lambda>gasLimit. ebind stack_Pop (\<lambda>addr. ebind Pop64 (\<lambda>value.
     ebind Pop64 (\<lambda>inOffset. ebind Pop64 (\<lambda>inSize. ebind Pop64 (\<lambda>retOffset. ebind Pop64 (\<lambda>retSize.
     ebind (mem_read inOffset inSize) (\<lambda>args.
     ebind (eread m_gas) (\<lambda>gas.
     if gas < gasLimit then fail_first ErrInsufficientGas
     else
       ebind (echange (\<lambda>m. m\<lparr> m_gas := wrap64 (gas - gasLimit) \<rparr>)) (\<lambda>_.
       case map_of (registeredNativeContracts (ve_hash V)) addr of
         Some nativeContract \<Rightarrow>
           ebind (call_native V nativeContract addr args value gasLimit) (\<lambda>(gasLimit, r).
           after_call (gasLimit, retOffset, retSize) r)
       | None \<Rightarrow> call_contract V callcode addr args value (gasLimit, retOffset, retSize))))))))))))))"

definition op_suicide :: "signal vmop" where
  "op_suicide =
     ebind stack_Pop (\<lambda>addr. ebind (charged_account addr) (\<lambda>receiver.
     ebind (read_acc m_callee vm_Balance) (\<lambda>balance.
     ebind (echange (\<lambda>m. m\<lparr> m_cache := tc_modify receiver
              (\<lambda>acc. acc\<lparr> vm_Balance := wrap64 (vm_Balance acc + balance) \<rparr>) (m_cache m) \<rparr>)) (\<lambda>_.
     ebind (on_cache (etry (tc_UpdateAccount receiver))) (\<lambda>_.
     ebind (eread m_callee) (\<lambda>callee.
     ebind (on_cache (etry (tc_RemoveAccount callee))) (\<lambda>_. eret (Return []))))))))"

section \<open>Dispatch\<close>

text \<open>The name of an opcode, used in the error of an opcode that the machine does not have.\<close>

definition op_names :: "(byte, string) gomap" where
  "op_names =
     [(0x00, ''STOP''), (0x01, ''ADD''), (0x02, ''MUL''), (0x03, ''SUB''), (0x04, ''DIV''), (0x05, ''SDIV''),
      (0x06, ''MOD''), (0x07, ''SMOD''), (0x0A, ''EXP''), (0x19, ''NOT''), (0x10, ''LT''), (0x11, ''GT''),
      (0x12, ''SLT''), (0x13, ''SGT''), (0x14, ''EQ''), (0x15, ''ISZERO''), (0x0B, ''SIGNEXTEND''),
      (0x16, ''AND''), (0x17, ''OR''), (0x18, ''XOR''), (0x1A, ''BYTE''), (0x08, ''ADDMOD''), (0x09, ''MULMOD''),
      (0x20, ''SHA3''),
      (0x30, ''ADDRESS''), (0x31, ''BALANCE''), (0x32, ''ORIGIN''), (0x33, ''CALLER''), (0x34, ''CALLVALUE''),
      (0x35, ''CALLDATALOAD''), (0x36, ''CALLDATASIZE''), (0x37, ''CALLDATACOPY''), (0x38, ''CODESIZE''),
      (0x39, ''CODECOPY''), (0x3A, ''TXGASPRICE_DEPRECATED''),
      (0x40, ''BLOCKHASH''), (0x41, ''COINBASE''), (0x42, ''TIMESTAMP''), (0x43, ''BLOCKHEIGHT''),
      (0x44, ''DIFFICULTY_DEPRECATED''), (0x45, ''GASLIMIT''), (0x3B, ''EXTCODESIZE''), (0x3C, ''EXTCODECOPY''),
      (0x50, ''POP''), (0x51, ''MLOAD''), (0x52, ''MSTORE''), (0x53, ''MSTORE8''), (0x54, ''SLOAD''),
      (0x55, ''SSTORE''), (0x56, ''JUMP''), (0x57, ''JUMPI''), (0x58, ''PC''), (0x59, ''MSIZE''), (0x5A, ''GAS''),
      (0x5B, ''JUMPDEST''),
      (0xF0, ''CREATE''), (0xF1, ''CALL''), (0xF3, ''RETURN''), (0xF2, ''CALLCODE''), (0xFF, ''SUICIDE'')]"

text \<open>The format \<open>%x\<close> prints a number without leading zeros.\<close>

definition hex_trim :: "string \<Rightarrow> string" where
  "hex_trim s = (case s of c # cs \<Rightarrow> if c = CHR ''0'' \<and> cs \<noteq> [] then cs else s | [] \<Rightarrow> s)"

definition op_family :: "string \<Rightarrow> byte \<Rightarrow> nat \<Rightarrow> byte \<Rightarrow> string" where
  "op_family name base first op = name @ show_nat (unat (op - base) + first)"

definition OpCode_String :: "byte \<Rightarrow> string" where
  "OpCode_String op =
     (case map_of op_names op of
        Some s \<Rightarrow> s
      | None \<Rightarrow>
          if 0x60 \<le> op \<and> op \<le> 0x7F then op_family ''PUSH'' 0x60 1 op
          else if 0x80 \<le> op \<and> op \<le> 0x8F then op_family ''DUP'' 0x80 1 op
          else if 0x90 \<le> op \<and> op \<le> 0x9F then op_family ''SWAP'' 0x90 1 op
          else if 0xA0 \<le> op \<and> op \<le> 0xA4 then op_family ''LOG'' 0xA0 0 op
          else ''Missing opcode 0x'' @ hex_trim (EncodeToString [op]))"

definition invalid_opcode :: "byte \<Rightarrow> string" where
  "invalid_opcode op = ''Invalid opcode '' @ fmt_X (map of_char (OpCode_String op))"

definition op_exec :: "vm_env \<Rightarrow> byte \<Rightarrow> signal vmop" where
  "op_exec V op =
     (if 0x01 \<le> op \<and> op \<le> 0x0B then op_arith op
      else if 0x10 \<le> op \<and> op \<le> 0x1A then op_compare op
      else if op = 0x20 \<or> (0x30 \<le> op \<and> op \<le> 0x3C) \<or> (0x40 \<le> op \<and> op \<le> 0x43) \<or> op = 0x45 then op_environment V op
      else if 0x50 \<le> op \<and> op \<le> 0x55 then op_storage op
      else if 0x56 \<le> op \<and> op \<le> 0x5B then op_flow op
      else if 0x60 \<le> op \<and> op \<le> 0x7F then op_push (unat (op - 0x60) + 1)
      else if 0x80 \<le> op \<and> op \<le> 0x8F then ebind (stack_Dup (unat (op - 0x80) + 1)) (\<lambda>_. eret Next)
      else if 0x90 \<le> op \<and> op \<le> 0x9F then ebind (stack_Swap (unat (op - 0x90) + 2)) (\<lambda>_. eret Next)
      else if 0xA0 \<le> op \<and> op \<le> 0xA4 then op_log V (unat (op - 0xA0))
      else if op = 0xF0 then op_create V
      else if op = 0xF1 then op_call V False
      else if op = 0xF2 then op_call V True
      else if op = 0xF3 then
        ebind Pop64 (\<lambda>offset. ebind Pop64 (\<lambda>len. ebind (mem_read offset len) (\<lambda>ret. eret (Return ret))))
      else if op = 0xFF then op_suicide
      else if op = 0x00 then eret (Return [])
      else elift (Err (invalid_opcode op)))"

definition vm_op :: "vm_env \<Rightarrow> signal vmop" where
  "vm_op V =
     ebind (useGasNegative GasBaseOp) (\<lambda>_.
     ebind (eread m_code) (\<lambda>code. ebind (eread m_pc) (\<lambda>pc.
     ebind (elift (codeGetOp code pc)) (op_exec V))))"

section \<open>The machine\<close>

definition transfer :: "acc_ref \<Rightarrow> acc_ref \<Rightarrow> int \<Rightarrow> TxCache \<Rightarrow> TxCache outcome" where
  "transfer from dst amount c =
     (if vm_Balance (tc_obj c from) < amount then Err ErrInsufficientBalance
      else
        let c = tc_modify from (\<lambda>acc. acc\<lparr> vm_Balance := wrap64 (vm_Balance acc - amount) \<rparr>) c in
        Ok (tc_modify dst (\<lambda>acc. acc\<lparr> vm_Balance := wrap64 (vm_Balance acc + amount) \<rparr>) c))"

text \<open>A new frame, and what a finished frame leaves to the one that called it.\<close>

definition start_frame :: "acc_ref \<Rightarrow> acc_ref \<Rightarrow> bytes \<Rightarrow> bytes \<Rightarrow> int \<Rightarrow> mach \<Rightarrow> mach" where
  "start_frame caller callee code input value m =
     m\<lparr> m_caller := caller, m_callee := callee, m_code := code, m_input := input, m_value := value,
        m_pc := 0, m_stack := [], m_mem := (\<lambda>_. 0), m_err := None \<rparr>"

definition leave_frame :: "mach \<Rightarrow> mach \<Rightarrow> mach" where
  "leave_frame m' m = m\<lparr> m_gas := m_gas m', m_cache := m_cache m', m_events := m_events m' \<rparr>"

type_synonym 'a vmrun = "mach \<Rightarrow> (mach \<times> 'a outcome) option"

definition vm_Call ::
  "bytes vmrun \<Rightarrow> vm_env \<Rightarrow> acc_ref \<Rightarrow> acc_ref \<Rightarrow> bytes \<Rightarrow> bytes \<Rightarrow> int \<Rightarrow> bytes vmrun" where
  "vm_Call loop V caller callee code input value m =
     (let event = (\<lambda>exception output m. fireCallEvent V exception output
        (vm_Address (tc_obj (m_cache m) caller)) (vm_Address (tc_obj (m_cache m) callee)) input value m) in
      case transfer caller callee value (m_cache m) of
        Panic e \<Rightarrow> Some (m, Panic e)
      | Err e \<Rightarrow> Some (event e [] m, Err e)
      | Ok c \<Rightarrow>
          if code = [] then Some (event [] [] (m\<lparr> m_cache := c \<rparr>), Ok [])
          else
            (case loop (start_frame caller callee code input value (m\<lparr> m_cache := c \<rparr>)) of
               None \<Rightarrow> None
             | Some (m', Ok output) \<Rightarrow> Some (event [] output (leave_frame m' m), Ok output)
             | Some (m', Panic e) \<Rightarrow> Some (leave_frame m' m, Panic e)
             | Some (m', Err e) \<Rightarrow>
                 (case transfer callee caller value (m_cache m') of
                    Ok c \<Rightarrow> Some (event e [] ((leave_frame m' m)\<lparr> m_cache := c \<rparr>), Err e)
                  | _ \<Rightarrow> Some (leave_frame m' m, Panic ''Could not return value to caller''))))"

definition vm_step :: "bytes vmrun \<Rightarrow> vm_env \<Rightarrow> signal vmrun" where
  "vm_step loop V m =
     (case vm_op V m of
        (m1, Ok (Create acc input value)) \<Rightarrow>
          (case vm_Call loop V (m_callee m1) acc input input value m1 of
             None \<Rightarrow> None | Some (m2, r) \<Rightarrow> Some (after_create acc r m2))
      | (m1, Ok (Invoke caller callee code args value k)) \<Rightarrow>
          (case vm_Call loop V caller callee code args value m1 of
             None \<Rightarrow> None | Some (m2, r) \<Rightarrow> Some (after_call k r m2))
      | r \<Rightarrow> Some r)"

primrec vm_loop :: "nat \<Rightarrow> vm_env \<Rightarrow> bytes vmrun" where
  "vm_loop 0 V m = None"
| "vm_loop (Suc n) V m =
     (case vm_step (vm_loop n V) V m of
        None \<Rightarrow> None
      | Some (m, Err e) \<Rightarrow> Some (m, Err e)
      | Some (m, Panic e) \<Rightarrow> Some (m, Panic e)
      | Some (m, Ok (Return output)) \<Rightarrow> Some (m, Ok output)
      | Some (m, Ok Jumped) \<Rightarrow> vm_loop n V m
      | Some (m, Ok _) \<Rightarrow> vm_loop n V (m\<lparr> m_pc := m_pc m + 1 \<rparr>))"

text \<open>A call from outside, on a new machine (\<open>NewVM\<close>, \<open>SetFireable\<close> and \<open>Call\<close>).\<close>

definition evm_Call ::
  "nat \<Rightarrow> vm_env \<Rightarrow> acc_ref \<Rightarrow> acc_ref \<Rightarrow> bytes \<Rightarrow> bytes \<Rightarrow> int \<Rightarrow> int \<Rightarrow> TxCache \<Rightarrow>
   (mach \<times> bytes outcome) option" where
  "evm_Call n V caller callee code input value gas c =
     vm_Call (vm_loop n V) V caller callee code input value
       \<lparr> m_caller = caller, m_callee = callee, m_code = [], m_input = [], m_value = 0, m_pc = 0, m_stack = [],
         m_mem = (\<lambda>_. 0), m_err = None, m_gas = gas, m_cache = c, m_events = [] \<rparr>"

end
