(* ===== verification/Evm_Facts.thy ===== *)
theory Evm_Facts
  imports Evm
begin

text \<open>
  What holds of every run of the machine: it does not change what the block cache shows (its writes
  stay in the transaction cache until \<open>Sync\<close>), its stack never exceeds its capacity, and more fuel
  gives the same result.
\<close>

section \<open>Invariants of instructions\<close>

lemma preserves_echange [preserves_intros]: "(\<And>m. P m \<Longrightarrow> P (f m)) \<Longrightarrow> preserves P (echange f)"
  by (auto simp: preserves_def echange_def)

lemma preserves_etry [preserves_intros]:
  "(\<And>s s'. P s \<Longrightarrow> f s = Ok s' \<Longrightarrow> P s') \<Longrightarrow> preserves P (etry f)"
  by (auto simp: preserves_def etry_def split: outcome.splits)

lemma preserves_if [preserves_intros]: "preserves P a \<Longrightarrow> preserves P b \<Longrightarrow> preserves P (if c then a else b)"
  by simp

lemma preserves_option [preserves_intros]:
  "(r = None \<Longrightarrow> preserves P a) \<Longrightarrow> (\<And>x. r = Some x \<Longrightarrow> preserves P (b x)) \<Longrightarrow>
   preserves P (case r of None \<Rightarrow> a | Some x \<Rightarrow> b x)"
  by (cases r) auto

lemma preserves_prod [preserves_intros]: "(\<And>x y. r = (x, y) \<Longrightarrow> preserves P (f x y)) \<Longrightarrow> preserves P (case r of (x, y) \<Rightarrow> f x y)"
  by (cases r) auto

lemma preserves_outcome [preserves_intros]:
  "(\<And>x. preserves P (a x)) \<Longrightarrow> (\<And>x. preserves P (b x)) \<Longrightarrow> (\<And>x. preserves P (c x)) \<Longrightarrow>
   preserves P (case r of Ok x \<Rightarrow> a x | Err x \<Rightarrow> b x | Panic x \<Rightarrow> c x)"
  by (cases r) auto

lemma preserves_perm_get [preserves_intros]:
  "(\<And>x. preserves P (a x)) \<Longrightarrow> (\<And>x. preserves P (b x)) \<Longrightarrow> (\<And>x. preserves P (c x)) \<Longrightarrow>
   preserves P (case r of PermValue x \<Rightarrow> a x | ErrInvalidPermission x \<Rightarrow> b x | ErrValueNotSet x \<Rightarrow> c x)"
  by (cases r) auto

lemma preserves_on_cache:
  assumes "preserves Q f" "\<And>m. P m \<Longrightarrow> Q (m_cache m)" "\<And>m c. P m \<Longrightarrow> Q c \<Longrightarrow> P (m\<lparr> m_cache := c \<rparr>)"
  shows "preserves P (on_cache f)"
  using assms by (force simp: preserves_def on_cache_def split: prod.splits)

text \<open>
  An invariant of the machine that the stack operations, the gas and the memory keep, and that the
  operations on the cache keep, is kept by every instruction.
\<close>

locale machine_invariant =
  fixes P :: "mach \<Rightarrow> bool" and Q :: "TxCache \<Rightarrow> bool"
  assumes bounded: "P m \<Longrightarrow> length (m_stack m) \<le> dataStackCapacity"
    and stack_keeps: "P m \<Longrightarrow> length st \<le> dataStackCapacity \<Longrightarrow> P (m\<lparr> m_stack := st \<rparr>)"
    and pc_keeps: "P m \<Longrightarrow> P (m\<lparr> m_pc := pc \<rparr>)"
    and err_keeps: "P m \<Longrightarrow> P (m\<lparr> m_err := e \<rparr>)"
    and gas_keeps: "P m \<Longrightarrow> P (m\<lparr> m_gas := g \<rparr>)"
    and mem_keeps: "P m \<Longrightarrow> P (m\<lparr> m_mem := mem \<rparr>)"
    and events_keep: "P m \<Longrightarrow> P (m\<lparr> m_events := evs \<rparr>)"
    and frame_keeps: "P m \<Longrightarrow> P (start_frame caller callee code input v m)"
    and leave_keeps: "P m \<Longrightarrow> P m' \<Longrightarrow> P (leave_frame m' m)"
    and to_cache: "P m \<Longrightarrow> Q (m_cache m)"
    and from_cache: "P m \<Longrightarrow> Q c \<Longrightarrow> P (m\<lparr> m_cache := c \<rparr>)"
    and GetAccount_keeps: "Q c \<Longrightarrow> tc_GetAccount addr c = Ok (r, c') \<Longrightarrow> Q c'"
    and GetStorage_keeps: "Q c \<Longrightarrow> tc_GetStorage addr key c = Ok (w, c') \<Longrightarrow> Q c'"
    and accounts_keep: "Q c \<Longrightarrow> Q (c\<lparr> tc_accounts := a \<rparr>)"
    and storages_keep: "Q c \<Longrightarrow> Q (c\<lparr> tc_storages := sts \<rparr>)"
    and heap_keeps: "Q c \<Longrightarrow> Q (c\<lparr> tc_heap := h \<rparr>)"
begin

lemmas frame_rules = pc_keeps err_keeps gas_keeps mem_keeps events_keep stack_keeps

lemma Q_new: "Q c \<Longrightarrow> Q (snd (tc_new acc c))"
  by (simp add: tc_new_def heap_keeps)

lemma Q_modify: "Q c \<Longrightarrow> Q (tc_modify r f c)"
  by (simp add: tc_modify_def heap_keeps)

lemma Q_Update: "Q c \<Longrightarrow> tc_UpdateAccount r c = Ok c' \<Longrightarrow> Q c'"
  by (auto simp: tc_UpdateAccount_def set_vm_info_def accounts_keep Let_def split: if_splits)

lemma Q_Remove: "Q c \<Longrightarrow> tc_RemoveAccount r c = Ok c' \<Longrightarrow> Q c'"
  by (auto simp: tc_RemoveAccount_def set_vm_info_def accounts_keep Let_def split: if_splits)

lemma Q_SetStorage: "Q c \<Longrightarrow> tc_SetStorage a k w c = Ok c' \<Longrightarrow> Q c'"
  by (auto simp: tc_SetStorage_def storages_keep split: if_splits)

lemma Q_Create: "Q c \<Longrightarrow> tc_CreateAccount W r c = Ok (r', c') \<Longrightarrow> Q c'"
  by (auto simp: tc_CreateAccount_def Let_def obind_eq_Ok set_vm_info_def tc_new_def
      split: if_splits prod.splits
      intro!: accounts_keep heap_keeps dest!: GetAccount_keeps [OF Q_modify, rotated])

lemma Q_GetAccount: "preserves Q (vm_GetAccount addr)"
  by (auto simp: preserves_def vm_GetAccount_def split: outcome.splits prod.splits dest: GetAccount_keeps)

lemma Q_HasPermission: "preserves Q (vm_HasPermission acc perm)"
  unfolding vm_HasPermission_def by (intro preserves_intros Q_GetAccount)

lemmas Q_rules = Q_GetAccount Q_HasPermission

lemma Q_known: "preserves Q (known_account addr)"
  unfolding known_account_def by (intro preserves_intros Q_rules)

lemma Q_valid_perm: "preserves Q (valid_perm w)"
  unfolding valid_perm_def Let_def by (intro preserves_intros)

lemma Q_change_base: "preserves Q (change_base acc f)"
  unfolding change_base_def by (intro preserves_intros Q_modify) (auto dest: Q_Update)

lemma Q_change_roles: "preserves Q (change_roles acc f)"
  unfolding change_roles_def by (intro preserves_intros Q_modify) (auto dest: Q_Update)

lemma Q_snative: "preserves Q (run_snative f args)"
  unfolding run_has_base_def run_set_base_def run_unset_base_def run_set_global_def run_has_role_def
    run_add_role_def run_rm_role_def
  by (cases f)
    (simp_all add: run_has_base_def run_set_base_def run_unset_base_def run_set_global_def run_has_role_def
      run_add_role_def run_rm_role_def Let_def preserves_intros Q_known Q_valid_perm Q_change_base
      Q_change_roles Q_rules)

lemma Q_permissionsContract: "preserves Q (permissionsContract caller args)"
  unfolding permissionsContract_def Let_def by (intro preserves_intros Q_rules Q_snative)

lemma Q_native:
  "Q c \<Longrightarrow> map_of (registeredNativeContracts H) addr = Some f \<Longrightarrow> f caller args gas c = (c', gas', r) \<Longrightarrow> Q c'"
  using preservesD [OF Q_permissionsContract]
  by (auto simp: registeredNativeContracts_def sha256Func_def ripemd160Func_def identityFunc_def
      charge_native_def split: if_splits prod.splits)

section \<open>Instructions\<close>

lemma P_setErr: "P m \<Longrightarrow> P (setErr e m)"
  by (simp add: setErr_def err_keeps)

lemma P_useGas: "P m \<Longrightarrow> P (stack_useGas g m)"
  by (simp add: stack_useGas_def gas_keeps P_setErr)

lemma P_Push: "preserves P (stack_Push d)"
proof -
  have "P (m\<lparr> m_stack := d # m_stack m \<rparr>)" if "P m" "length (m_stack m) \<noteq> dataStackCapacity" for m
    using that bounded [OF that(1)] by (auto intro!: stack_keeps)
  then show ?thesis
    unfolding stack_Push_def Let_def
    by (intro preserves_intros) (auto simp: P_setErr P_useGas)
qed

lemma P_Pop: "preserves P stack_Pop"
proof -
  have "P (m\<lparr> m_stack := ds \<rparr>)" if "P m" "m_stack m = d # ds" for m d ds
    using bounded [OF that(1)] that by (auto intro!: stack_keeps)
  then show ?thesis
    unfolding stack_Pop_def Let_def
    by (intro preserves_intros) (auto split: list.split intro: P_setErr P_useGas)
qed

lemma P_Pop64: "preserves P Pop64"
  unfolding Pop64_def by (intro preserves_intros P_Pop)

lemma P_Swap: "preserves P (stack_Swap n)"
  unfolding stack_Swap_def Let_def
  by (intro preserves_intros) (auto intro!: P_setErr P_useGas stack_keeps dest: bounded [OF P_useGas])

lemma P_Dup: "preserves P (stack_Dup n)"
  unfolding stack_Dup_def by (intro preserves_intros P_Push P_setErr P_useGas)

lemma P_PushBytes: "preserves P (PushBytes bz)"
  unfolding PushBytes_def by (intro preserves_intros P_Push)

lemma P_fail: "preserves P (fail_first e)"
  unfolding fail_first_def by (intro preserves_intros)

lemma P_useGasNegative: "preserves P (useGasNegative g)"
  unfolding useGasNegative_def by (intro preserves_intros P_fail gas_keeps)

lemma P_mem_part: "preserves P (mem_part off len)"
  unfolding mem_part_def by (intro preserves_intros P_fail)

lemma P_mem_read: "preserves P (mem_read off len)"
  unfolding mem_read_def by (intro preserves_intros P_mem_part)

lemma P_mem_write: "preserves P (mem_write off len data)"
  unfolding mem_write_def by (intro preserves_intros P_mem_part mem_keeps)

lemma P_data_part: "preserves P (data_part e data off len)"
  unfolding data_part_def by (intro preserves_intros P_fail)

lemma P_jump: "preserves P (jump dst)"
proof -
  have "P (m\<lparr> m_pc := dst, m_err := None \<rparr>)" if "P m" for m
    using err_keeps [OF pc_keeps [OF that]] by simp
  then show ?thesis unfolding jump_def by (intro preserves_intros)
qed

lemma P_on_cache: "preserves Q f \<Longrightarrow> preserves P (on_cache f)"
  by (rule preserves_on_cache [of Q]) (auto intro: to_cache from_cache)

lemma P_read_acc: "preserves P (read_acc r f)"
  unfolding read_acc_def by (rule preserves_eread)

lemmas stack_rules = P_Push P_Pop P_Pop64 P_Swap P_Dup P_PushBytes P_fail P_useGasNegative P_mem_part P_mem_read
  P_mem_write P_data_part P_jump P_on_cache P_read_acc Q_rules

lemma P_push_next: "preserves P (push_next w)"
  unfolding push_next_def by (intro preserves_intros stack_rules)

lemma P_push_big: "preserves P (push_big x)"
  unfolding push_big_def by (intro preserves_intros stack_rules)

lemma P_push_bool: "preserves P (push_bool b)"
  unfolding push_bool_def by (rule P_push_next)

lemma P_unless_zero: "preserves P (unless_zero z x)"
  unfolding unless_zero_def by (intro preserves_intros P_push_next P_push_big)

lemma P_pop2: "(\<And>x y. preserves P (f x y)) \<Longrightarrow> preserves P (pop2 f)"
  unfolding pop2_def by (intro preserves_intros stack_rules)

lemmas push_rules = P_push_next P_push_big P_push_bool P_unless_zero P_pop2

lemma P_charged: "preserves P (charged_account addr)"
  unfolding charged_account_def by (intro preserves_intros stack_rules)

lemma P_copy_to_memory: "preserves P (copy_to_memory e data)"
  unfolding copy_to_memory_def by (intro preserves_intros stack_rules)

lemma P_arith: "preserves P (op_arith op)"
  unfolding op_arith_def by (intro preserves_intros push_rules stack_rules)

lemma P_compare: "preserves P (op_compare op)"
  unfolding op_compare_def by (intro preserves_intros push_rules stack_rules)

lemma P_environment: "preserves P (op_environment V op)"
  unfolding op_environment_def by (intro preserves_intros push_rules stack_rules P_charged P_copy_to_memory)

lemma Q_get_storage:
  "preserves Q (\<lambda>c. case tc_GetStorage addr loc c of
     Ok (v, c') \<Rightarrow> (c', Ok v) | Err e \<Rightarrow> (c, Err e) | Panic e \<Rightarrow> (c, Panic e))"
  by (auto simp: preserves_def split: outcome.splits prod.splits dest: GetStorage_keeps)

lemma P_storage: "preserves P (op_storage op)"
  unfolding op_storage_def
  by (intro preserves_intros push_rules stack_rules Q_get_storage mem_keeps) (auto dest: Q_SetStorage)

lemma P_flow: "preserves P (op_flow op)"
  unfolding op_flow_def by (intro preserves_intros push_rules stack_rules)

lemma P_op_push: "preserves P (op_push n)"
  unfolding op_push_def by (intro preserves_intros push_rules stack_rules pc_keeps)

lemma P_topics: "preserves P (pop_topics n)"
  by (induction n) (auto intro!: preserves_intros stack_rules)

lemma P_log: "preserves P (op_log V n)"
  unfolding op_log_def
  by (intro preserves_intros push_rules stack_rules P_topics) (auto intro: events_keep)

lemma Q_create_op:
  "preserves Q (\<lambda>c. case tc_CreateAccount W r c of
     Ok (r, c') \<Rightarrow> (c', Ok r) | Err e \<Rightarrow> (c, Err e) | Panic e \<Rightarrow> (c, Panic e))"
  by (auto simp: preserves_def split: outcome.splits prod.splits dest: Q_Create)

lemma P_create: "preserves P (op_create V)"
  unfolding op_create_def by (intro preserves_intros push_rules stack_rules Q_create_op)

lemma P_after_create: "preserves P (after_create acc r)"
  unfolding after_create_def
  by (intro preserves_intros push_rules stack_rules) (auto intro!: from_cache Q_modify to_cache)

lemma P_after_call: "preserves P (after_call k r)"
  unfolding after_call_def by (intro preserves_intros push_rules stack_rules mem_keeps gas_keeps)

lemma P_fire: "P m \<Longrightarrow> P (fireCallEvent V e out a b input v m)"
  by (simp add: fireCallEvent_def events_keep)

lemma P_call_native:
  "map_of (registeredNativeContracts H) addr = Some f \<Longrightarrow> preserves P (call_native V f addr args v g)"
  by (auto simp: preserves_def call_native_def split: prod.splits outcome.splits
      intro!: P_fire from_cache dest: Q_native [OF to_cache])

lemma P_new_account: "preserves P (new_account addr)"
  unfolding new_account_def by (intro preserves_intros stack_rules Q_new) (auto dest: Q_Update)

lemma P_call_contract: "preserves P (call_contract V callcode addr args v k)"
  unfolding call_contract_def by (intro preserves_intros stack_rules P_new_account gas_keeps)

lemma P_call: "preserves P (op_call V callcode)"
  unfolding op_call_def
  by (intro preserves_intros stack_rules P_call_contract P_after_call gas_keeps P_call_native; assumption?)

lemma P_suicide: "preserves P op_suicide"
  unfolding op_suicide_def
  by (intro preserves_intros stack_rules P_charged)
    (auto intro!: from_cache Q_modify to_cache dest: Q_Update Q_Remove)

lemma P_exec: "preserves P (op_exec V op)"
  unfolding op_exec_def
  by (intro preserves_intros stack_rules P_arith P_compare P_environment P_storage P_flow P_op_push P_log
      P_create P_call P_suicide)

lemma P_op: "preserves P (vm_op V)"
  unfolding vm_op_def by (intro preserves_intros stack_rules P_exec)

section \<open>Runs\<close>

lemma P_transfer: "Q c \<Longrightarrow> transfer a b v c = Ok c' \<Longrightarrow> Q c'"
  by (auto simp: transfer_def Let_def Q_modify split: if_splits)

lemma P_Call:
  assumes "\<And>m m' r. P m \<Longrightarrow> loop m = Some (m', r) \<Longrightarrow> P m'" "P m"
    "vm_Call loop V caller callee code input v m = Some (m', r)"
  shows "P m'"
proof -
  have c: "P (m\<lparr> m_cache := c \<rparr>)" if "transfer caller callee v (m_cache m) = Ok c" for c
    using from_cache [OF assms(2) P_transfer [OF to_cache [OF assms(2)] that]] .
  have l: "P m1" if "transfer caller callee v (m_cache m) = Ok c"
    "loop (start_frame caller callee code input v (m\<lparr> m_cache := c \<rparr>)) = Some (m1, r1)" for c m1 r1
    using assms(1) [OF frame_keeps [OF c [OF that(1)]] that(2)] .
  show ?thesis
    using assms(2,3)
    by (auto simp: vm_Call_def Let_def split: outcome.splits if_splits option.splits prod.splits
        intro!: P_fire c leave_keeps from_cache intro: assms(2) dest: l P_transfer [OF to_cache, rotated])
qed

lemma P_step:
  assumes "\<And>m m' r. P m \<Longrightarrow> loop m = Some (m', r) \<Longrightarrow> P m'" "P m" "vm_step loop V m = Some (m', r)"
  shows "P m'"
proof -
  have op: "P m1" if "vm_op V m = (m1, r1)" for m1 r1
    using preservesD [OF P_op that assms(2)] .
  have call: "P m2" if "P m1" "vm_Call loop V a b code input v m1 = Some (m2, r1)" for m1 m2 a b code input v r1
    using P_Call [OF assms(1) that] .
  show ?thesis
    using assms(3)
    by (auto simp: vm_step_def split: prod.splits outcome.splits signal.splits option.splits
        dest!: op intro: preservesD [OF P_after_create] preservesD [OF P_after_call] call)
qed

lemma P_loop: "P m \<Longrightarrow> vm_loop n V m = Some (m', r) \<Longrightarrow> P m'"
proof (induction n arbitrary: m m' r)
  case 0 then show ?case by simp
next
  case (Suc n)
  have step: "P m1" if "vm_step (vm_loop n V) V m = Some (m1, r1)" for m1 r1
    using P_step [OF Suc.IH Suc.prems(1) that] .
  show ?case
    using Suc.prems(2)
    by (auto split: option.splits prod.splits outcome.splits signal.splits dest!: step intro: Suc.IH pc_keeps)
qed

end

section \<open>The ledger behind the cache\<close>

text \<open>
  Two block caches that show the same accounts, names and storage words and have the same storage
  writes pending, over the same state. Accounts that the first has loaded are loaded in the second.
\<close>

definition same_view :: "BlockCache \<Rightarrow> BlockCache \<Rightarrow> bool" where
  "same_view b b' \<longleftrightarrow> bc_view b' = bc_view b \<and> name_view b' = name_view b \<and> bc_backend b' = bc_backend b \<and>
     storage_view b' = storage_view b \<and> pending_write b' = pending_write b \<and>
     (\<forall>a. ai_account (account_info b a) \<noteq> None \<longrightarrow> ai_account (account_info b' a) \<noteq> None)"

lemma same_view_refl [simp]: "same_view b b"
  by (simp add: same_view_def)

lemma same_view_trans: "same_view a b \<Longrightarrow> same_view b c \<Longrightarrow> same_view a c"
  by (simp add: same_view_def)

lemma storages_set [simp]: "bc_storages (set_account_info a info b) = bc_storages b"
  by (simp add: set_account_info_def)

text \<open>Storage words are shown by the cached words, the accounts and the trees of the accounts.\<close>

lemma storage_view_cong:
  assumes "bc_view b' = bc_view b" "bc_storages b' = bc_storages b"
    "\<And>a acc. bc_view b a = Some acc \<Longrightarrow> account_tree b' a acc = account_tree b a acc"
  shows "storage_view b' = storage_view b"
  using assms by (intro ext) (auto simp: storage_view_def split: option.splits)

lemma GetAccount_same_view: "same_view b (snd (bc_GetAccount addr b))"
proof -
  let ?b' = "snd (bc_GetAccount addr b)"
  have st: "bc_storages ?b' = bc_storages b"
    by (simp add: bc_GetAccount_def Let_def split: option.split)
  have "account_tree ?b' a acc = account_tree b a acc" for a acc
    by (auto simp: account_tree_def bc_GetAccount_def Let_def split: option.splits)
  then have "storage_view ?b' = storage_view b" by (intro storage_view_cong) (simp_all add: st)
  moreover have "ai_account (account_info ?b' a) \<noteq> None" if "ai_account (account_info b a) \<noteq> None" for a
    using that by (auto simp: bc_GetAccount_def Let_def split: option.split)
  ultimately show ?thesis by (simp add: same_view_def pending_write_def [abs_def] st)
qed

lemma set_storage_same_view:
  assumes "\<not> ai_removed (account_info b addr)" "ai_account (account_info b addr) = Some acc"
    "ai_storage (account_info b addr) = None"
  shows "same_view b (set_account_info addr
           \<lparr> ai_account = Some acc, ai_storage = Some (LoadStorage (bc_backend b) (acc_StorageRoot acc)),
             ai_removed = False, ai_dirty = d \<rparr> b)" (is "same_view b ?b'")
proof -
  have view: "bc_view ?b' = bc_view b" "name_view ?b' = name_view b"
    using assms by (auto simp: bc_view_def name_view_def Let_def fun_eq_iff split: option.split)
  have "account_tree ?b' a acc' = account_tree b a acc'" if "bc_view b a = Some acc'" for a acc'
    using assms that by (auto simp: account_tree_def bc_view_def Let_def split: option.splits)
  then have "storage_view ?b' = storage_view b" by (intro storage_view_cong) (simp_all add: view)
  then show ?thesis by (simp add: same_view_def view pending_write_def [abs_def])
qed

lemma storages_view [simp]:
  "bc_view (b\<lparr> bc_storages := st \<rparr>) = bc_view b" "name_view (b\<lparr> bc_storages := st \<rparr>) = name_view b"
  by (auto simp: bc_view_def name_view_def cache_maps fun_eq_iff Let_def split: option.split)

text \<open>Remembering a word that was read.\<close>

lemma storages_same_view:
  assumes "same_view b b'" "map_of (bc_storages b') (addr, key) = None" "storage_view b' addr key = Ok w"
  shows "same_view b (b'\<lparr> bc_storages := AList.update (addr, key) \<lparr> si_value = w, si_dirty = False \<rparr> (bc_storages b') \<rparr>)"
    (is "same_view b ?c")
proof -
  have "account_tree ?c = account_tree b'" by (auto simp: account_tree_def fun_eq_iff Let_def split: option.split)
  then have "storage_view ?c a k = storage_view b' a k" for a k
    using assms(2,3) by (auto simp: storage_view_def update_conv' split: option.splits)
  moreover have "pending_write ?c = pending_write b'"
    using assms(2) by (auto simp: pending_write_def update_conv' fun_eq_iff)
  ultimately show ?thesis using assms(1) by (auto simp: same_view_def fun_eq_iff)
qed

lemma GetStorage_same_view:
  assumes "bc_GetStorage addr key b = Ok (w, b')" shows "same_view b b'"
proof (cases "map_of (bc_storages b) (addr, key) \<noteq> None \<or> ai_account (account_info b (Postfix20 addr)) = None")
  case True
  then show ?thesis using assms by (auto simp: bc_GetStorage_def Let_def split: option.splits if_splits)
next
  case False
  let ?info = "account_info b (Postfix20 addr)"
  from False obtain acc where acc: "map_of (bc_storages b) (addr, key) = None" "ai_account ?info = Some acc" by auto
  then have live: "\<not> ai_removed ?info" using assms by (auto simp: bc_GetStorage_def Let_def split: if_splits)
  then have view: "bc_view b (Postfix20 addr) = Some acc" using acc(2) by (simp add: bc_view_def Let_def)
  define t where "t = account_tree b (Postfix20 addr) acc"
  define c1 where "c1 = (if ai_storage ?info = None then set_account_info (Postfix20 addr)
     \<lparr> ai_account = Some acc, ai_storage = Some t, ai_removed = False, ai_dirty = ai_dirty ?info \<rparr> b else b)"
  have word: "(case map_of t key of None \<Rightarrow> Ok Zero256 | Some val \<Rightarrow> LeftPadWord256 val) = Ok w"
    and b': "b' = c1\<lparr> bc_storages := AList.update (addr, key) \<lparr> si_value = w, si_dirty = False \<rparr> (bc_storages c1) \<rparr>"
    using assms acc live
    by (auto simp: bc_GetStorage_def Let_def obind_eq_Ok t_def account_tree_def c1_def split: option.splits if_splits)
  have c1: "same_view b c1"
    using set_storage_same_view [OF live acc(2)] acc(2)
    by (auto simp: c1_def t_def account_tree_def Let_def split: option.split)
  moreover have "map_of (bc_storages c1) (addr, key) = None" using acc(1) by (simp add: c1_def)
  moreover have "storage_view c1 addr key = Ok w"
    using c1 acc(1) view word by (simp add: same_view_def) (simp add: storage_view_def t_def)
  ultimately show ?thesis unfolding b' by (rule storages_same_view)
qed

lemma tc_GetAccount_same_view:
  "tc_GetAccount addr c = Ok (r, c') \<Longrightarrow> same_view (tc_backend c) (tc_backend c')"
  using GetAccount_same_view [of "tc_backend c" "Postfix20 addr"]
  by (auto simp: tc_GetAccount_def tc_new_def Let_def obind_eq_Ok split: if_splits option.splits prod.splits)

lemma tc_GetStorage_same_view:
  "tc_GetStorage addr key c = Ok (w, c') \<Longrightarrow> same_view (tc_backend c) (tc_backend c')"
  by (auto simp: tc_GetStorage_def obind_eq_Ok split: option.splits dest: GetStorage_same_view)

definition machine_ok :: "BlockCache \<Rightarrow> mach \<Rightarrow> bool" where
  "machine_ok b m \<longleftrightarrow> length (m_stack m) \<le> dataStackCapacity \<and> same_view b (tc_backend (m_cache m))"

interpretation ledger_inv: machine_invariant "machine_ok b" "\<lambda>c. same_view b (tc_backend c)" for b
  by unfold_locales
    (auto simp: machine_ok_def start_frame_def leave_frame_def
      dest: tc_GetAccount_same_view tc_GetStorage_same_view intro: same_view_trans)

text \<open>The states a frame goes through; nested calls run to their end with some fuel.\<close>

inductive vm_reaches :: "vm_env \<Rightarrow> mach \<Rightarrow> mach \<Rightarrow> bool" for V where
  start: "vm_reaches V m m"
| jumped: "vm_reaches V m m1 \<Longrightarrow> vm_step (vm_loop n V) V m1 = Some (m2, Ok Jumped) \<Longrightarrow> vm_reaches V m m2"
| advanced: "vm_reaches V m m1 \<Longrightarrow> vm_step (vm_loop n V) V m1 = Some (m2, Ok Next) \<Longrightarrow>
    vm_reaches V m (m2\<lparr> m_pc := m_pc m2 + 1 \<rparr>)"

lemma reaches_ok:
  assumes "vm_reaches V m m'" "machine_ok b m" shows "machine_ok b m'"
  using assms
proof induction
  case start then show ?case .
next
  case (jumped m m1 n m2)
  then show ?case by (blast intro: ledger_inv.P_step ledger_inv.P_loop)
next
  case (advanced m m1 n m2)
  then have "machine_ok b m2" by (blast intro: ledger_inv.P_step ledger_inv.P_loop)
  then show ?case by (rule ledger_inv.pc_keeps)
qed

section \<open>Fuel\<close>

definition loop_le :: "bytes vmrun \<Rightarrow> bytes vmrun \<Rightarrow> bool" where
  "loop_le f g \<longleftrightarrow> (\<forall>m r. f m = Some r \<longrightarrow> g m = Some r)"

lemma Call_mono:
  assumes "loop_le f g" "vm_Call f V a b code input v m = Some r"
  shows "vm_Call g V a b code input v m = Some r"
proof -
  have "g m1 = f m1" if "f m1 \<noteq> None" for m1
    using assms(1) that by (auto simp: loop_le_def)
  then show ?thesis
    using assms(2) unfolding vm_Call_def Let_def
    by (auto split: outcome.splits if_splits option.splits prod.splits)
qed

lemma step_mono:
  assumes "loop_le f g" "vm_step f V m = Some r" shows "vm_step g V m = Some r"
  using assms(2) unfolding vm_step_def
  by (auto split: outcome.splits option.splits prod.splits signal.splits dest: Call_mono [OF assms(1)])

lemma loop_Suc: "loop_le (vm_loop n V) (vm_loop (Suc n) V)"
proof (induction n)
  case 0 show ?case by (simp add: loop_le_def)
next
  case (Suc n)
  have "vm_loop (Suc (Suc n)) V m = Some r" if "vm_loop (Suc n) V m = Some r" for m r
  proof -
    obtain s where s: "vm_step (vm_loop n V) V m = Some s"
      using \<open>vm_loop (Suc n) V m = Some r\<close> by (auto split: option.splits)
    then have "vm_step (vm_loop (Suc n) V) V m = Some s" by (rule step_mono [OF Suc])
    moreover have "vm_loop (Suc n) V m1 = Some r" if "vm_loop n V m1 = Some r" for m1
      using Suc that unfolding loop_le_def by blast
    ultimately show ?thesis
      using s \<open>vm_loop (Suc n) V m = Some r\<close>
      by (simp add: vm_loop.simps(2) [of "Suc n"] vm_loop.simps(2) [of n V m] del: vm_loop.simps(2)
          split: prod.splits outcome.splits signal.splits)
  qed
  then show ?case by (simp add: loop_le_def)
qed

lemma loop_mono: "n \<le> k \<Longrightarrow> loop_le (vm_loop n V) (vm_loop k V)"
proof (induction k rule: dec_induct)
  case base show ?case by (simp add: loop_le_def)
next
  case (step k) then show ?case using loop_Suc [of k V] by (auto simp: loop_le_def simp del: vm_loop.simps)
qed

lemma evm_Call_fuel:
  "evm_Call n V caller callee code input v gas c = Some r \<Longrightarrow> n \<le> k \<Longrightarrow>
   evm_Call k V caller callee code input v gas c = Some r"
  unfolding evm_Call_def by (rule Call_mono [OF loop_mono])

end
