(* ===== verification/Evm_Alu.thy ===== *)
theory Evm_Alu
  imports Evm_Facts
begin

text \<open>
  Eighteen of the arithmetic, comparison and bit instructions compute what 256-bit machine words compute:
  the byte-wise and big-integer code of \<open>vm/vm.go\<close> is equivalent to operations on \<open>256 word\<close>. \<open>SDIV\<close>, \<open>SMOD\<close>
  and \<open>SIGNEXTEND\<close> are not among them, they differ from the words' operations; nor is \<open>BYTE\<close>, which reads
  its index as a 64-bit integer.
\<close>

unbundle bit_operations_syntax

section \<open>Words\<close>

definition word_of :: "word256 \<Rightarrow> 256 word" where
  "word_of w = word_of_int (SetBytes w)"

lemma uint_word_of: "length w = 32 \<Longrightarrow> uint (word_of w) = SetBytes w"
  using SetBytes_bounds [of w] by (simp add: word_of_def uint_word_of_int take_bit_eq_mod)

lemma word_of_inject: "length x = 32 \<Longrightarrow> length y = 32 \<Longrightarrow> word_of x = word_of y \<longleftrightarrow> x = y"
  by (metis SetBytes_inject uint_word_of)

lemma word_of_big: "big_word x = Ok w \<Longrightarrow> length w = 32 \<and> word_of w = word_of_int x"
  using big_word_Ok [of x] by (auto simp: word_of_def word_of_int_eq_iff take_bit_eq_mod)

lemma word_IsZero_iff: "word_IsZero w \<longleftrightarrow> (\<forall>b \<in> set w. b = 0)"
proof -
  have "foldl (OR) a w = 0 \<longleftrightarrow> a = 0 \<and> (\<forall>b \<in> set w. b = 0)" for a :: byte
    by (induction w arbitrary: a) (auto simp: or_eq_0_iff)
  then show ?thesis by (simp add: word_IsZero_def)
qed

lemma SetBytes_eq_0: "SetBytes w = 0 \<longleftrightarrow> (\<forall>b \<in> set w. b = 0)"
proof (induction w rule: rev_induct)
  case Nil then show ?case by (simp add: SetBytes_def)
next
  case (snoc b w)
  have "0 \<le> SetBytes w" "0 \<le> uint b" using SetBytes_bounds [of w] by simp_all
  then have "SetBytes (w @ [b]) = 0 \<longleftrightarrow> SetBytes w = 0 \<and> uint b = 0"
    unfolding SetBytes_append by linarith
  then show ?case using snoc by (auto simp: uint_0_iff)
qed

lemma word_of_Zero [simp]: "word_of Zero256 = 0"
proof -
  have "SetBytes Zero256 = 0" by (simp add: SetBytes_eq_0 Zero256_def)
  then show ?thesis by (simp add: word_of_def)
qed

lemma word_of_one [simp]: "word_of (Int64ToWord256 1) = 1"
proof -
  have "SetBytes (Int64ToWord256 1) = SetBytes (PutInt64BE 1)"
    by (simp add: Int64ToWord256_def SetBytes_zeros)
  also have "\<dots> = 1" by (simp add: PutInt64BE_def SetBytes_def upt_rec)
  finally show ?thesis by (simp add: word_of_def)
qed

lemma IsZero_word: "length w = 32 \<Longrightarrow> word_IsZero w \<longleftrightarrow> word_of w = 0"
  by (metis SetBytes_eq_0 uint_word_of uint_0_iff word_IsZero_iff)

lemma bits_digit:
  fixes a b x y :: int
  assumes "0 \<le> x" "x < 256" "0 \<le> y" "y < 256"
  shows "(a * 256 + x) AND (b * 256 + y) = (a AND b) * 256 + (x AND y)"
    and "(a * 256 + x) OR (b * 256 + y) = (a OR b) * 256 + (x OR y)"
    and "(a * 256 + x) XOR (b * 256 + y) = (a XOR b) * 256 + (x XOR y)"
proof -
  have t: "\<not> bit c n" if "0 \<le> c" "c < 256" "8 \<le> n" for c :: int and n
    using that bit_take_bit_iff [of 8 c n] take_bit_int_eq_self [of c 8] by simp
  have split: "c * 256 + z = push_bit 8 c OR z" if "0 \<le> z" "z < 256" for c z :: int
  proof -
    have "\<not> bit (push_bit 8 c) n \<or> \<not> bit z n" for n
      using t [OF that] by (auto simp: bit_simps not_le [symmetric])
    then have "push_bit 8 c + z = push_bit 8 c OR z" by (intro disjunctive_add) auto
    then show ?thesis by (simp add: push_bit_eq_mult)
  qed
  have z: "0 \<le> x AND y" "x AND y < 256" "0 \<le> x OR y" "x OR y < 256" "0 \<le> x XOR y" "x XOR y < 256"
    using assms AND_upper1 [of x y] OR_upper [of x 8 y] XOR_upper [of x 8 y] by auto
  show "(a * 256 + x) AND (b * 256 + y) = (a AND b) * 256 + (x AND y)"
    unfolding split [OF assms(1,2)] split [OF assms(3,4)] split [OF z(1,2)]
    by (rule bit_eqI) (use t assms in \<open>auto simp: bit_simps\<close>)
  show "(a * 256 + x) OR (b * 256 + y) = (a OR b) * 256 + (x OR y)"
    unfolding split [OF assms(1,2)] split [OF assms(3,4)] split [OF z(3,4)]
    by (rule bit_eqI) (use t assms in \<open>auto simp: bit_simps\<close>)
  show "(a * 256 + x) XOR (b * 256 + y) = (a XOR b) * 256 + (x XOR y)"
    unfolding split [OF assms(1,2)] split [OF assms(3,4)] split [OF z(5,6)]
    by (rule bit_eqI) (use t assms in \<open>auto simp: bit_simps\<close>)
qed

lemma SetBytes_bits:
  assumes "length x = length y"
  shows "SetBytes (map2 (AND) x y) = SetBytes x AND SetBytes y"
    and "SetBytes (map2 (OR) x y) = SetBytes x OR SetBytes y"
    and "SetBytes (map2 (XOR) x y) = SetBytes x XOR SetBytes y"
proof -
  have b: "0 \<le> uint c" "uint c < 256" for c :: byte using uint_bounded [of c] by simp_all
  have "SetBytes (map2 (AND) x y) = SetBytes x AND SetBytes y \<and>
    SetBytes (map2 (OR) x y) = SetBytes x OR SetBytes y \<and>
    SetBytes (map2 (XOR) x y) = SetBytes x XOR SetBytes y"
    using assms
  proof (induction x y rule: rev_induct2)
    case 1 then show ?case by (simp add: SetBytes_def)
  next
    case (2 c x) then show ?case by simp
  next
    case (3 c y) then show ?case by simp
  next
    case (4 c x d y)
    then show ?case
      by (simp add: SetBytes_append bits_digit [OF b b] uint_and uint_or uint_xor)
  qed
  then show "SetBytes (map2 (AND) x y) = SetBytes x AND SetBytes y"
    "SetBytes (map2 (OR) x y) = SetBytes x OR SetBytes y"
    "SetBytes (map2 (XOR) x y) = SetBytes x XOR SetBytes y" by auto
qed

lemma word_of_bits:
  assumes "length x = 32" "length y = 32"
  shows "word_of (map2 (AND) x y) = word_of x AND word_of y"
    and "word_of (map2 (OR) x y) = word_of x OR word_of y"
    and "word_of (map2 (XOR) x y) = word_of x XOR word_of y"
  using assms by (simp_all add: word_uint_eq_iff uint_word_of SetBytes_bits uint_and uint_or uint_xor)

lemma SetBytes_NOT: "SetBytes (map NOT x) = 256 ^ length x - 1 - SetBytes x"
proof (induction x rule: rev_induct)
  case Nil then show ?case by (simp add: SetBytes_def)
next
  case (snoc b x)
  have "NOT b = -1 - b" by (simp add: not_eq_complement)
  moreover have "uint (-1 - b) = uint (-1 :: byte) - uint b"
    by (rule uint_sub_lem [THEN iffD1]) (simp add: word_le_def [symmetric])
  ultimately have "uint (NOT b) = 255 - uint b" by (simp add: unsigned_minus_1_eq_mask mask_eq_exp_minus_1)
  with snoc show ?case by (simp add: SetBytes_append)
qed

lemma word_of_NOT: "length x = 32 \<Longrightarrow> word_of (map NOT x) = NOT (word_of x)"
  by (simp add: word_of_def SetBytes_NOT not_eq_complement wi_hom_sub [symmetric])

lemma S256_word:
  assumes "length x = 32" shows "S256 (SetBytes x) = sint (word_of x)"
proof -
  define k where "k = SetBytes x"
  have k: "0 \<le> k" "k < 2 ^ 256" using SetBytes_bounds [of x] assms by (simp_all add: k_def)
  have "sint (word_of x) = (k + 2 ^ 255) mod 2 ^ 256 - 2 ^ 255"
    by (simp add: sint_uint uint_word_of [OF assms] k_def signed_take_bit_eq_take_bit_shift take_bit_eq_mod)
  also have "\<dots> = S256 k"
  proof (cases "k < 2 ^ 255")
    case True
    then have "(k + 2 ^ 255) mod 2 ^ 256 = k + 2 ^ 255" using k by (intro mod_pos_pos_trivial) simp_all
    then show ?thesis using True by (simp add: S256_def)
  next
    case False
    have "(k + 2 ^ 255) mod 2 ^ 256 = (k - 2 ^ 255 + 2 ^ 256) mod 2 ^ 256" by (simp add: add.commute)
    also have "\<dots> = k - 2 ^ 255" unfolding mod_add_self2 using k False by (intro mod_pos_pos_trivial) simp_all
    finally have "(k + 2 ^ 255) mod 2 ^ 256 = k + 2 ^ 255 - 2 ^ 256" by simp
    then show ?thesis using False by (simp add: S256_def)
  qed
  finally show ?thesis by (simp add: k_def)
qed

section \<open>Instructions\<close>

lemma Pop_Cons:
  "m_stack m = x # st \<Longrightarrow> 1 < m_gas m \<Longrightarrow>
   stack_Pop m = (m\<lparr> m_stack := st, m_gas := m_gas m - 1 \<rparr>, Ok x)"
  by (simp add: stack_Pop_def ecall_def stack_useGas_def GasStackOp_def)

lemma Push_room:
  "length (m_stack m) < dataStackCapacity \<Longrightarrow> 1 < m_gas m \<Longrightarrow>
   stack_Push d m = (m\<lparr> m_stack := d # m_stack m, m_gas := m_gas m - 1 \<rparr>, Ok ())"
  by (simp add: stack_Push_def echange_def stack_useGas_def GasStackOp_def)

text \<open>The binary instructions of the machine, as functions on words.\<close>

definition alu2 :: "byte \<Rightarrow> (256 word \<Rightarrow> 256 word \<Rightarrow> 256 word) option" where
  "alu2 op =
     map_of [(0x01, \<lambda>x y. x + y), (0x02, \<lambda>x y. x * y), (0x03, \<lambda>x y. x - y), (0x04, \<lambda>x y. x div y),
             (0x06, \<lambda>x y. if y = 0 then 0 else x mod y), (0x0A, \<lambda>x y. x ^ unat y),
             (0x10, \<lambda>x y. of_bool (x < y)), (0x11, \<lambda>x y. of_bool (x > y)),
             (0x12, \<lambda>x y. of_bool (x <s y)), (0x13, \<lambda>x y. of_bool (y <s x)), (0x14, \<lambda>x y. of_bool (x = y)),
             (0x16, \<lambda>x y. x AND y), (0x17, \<lambda>x y. x OR y), (0x18, \<lambda>x y. x XOR y)] op"

lemma binary_op:
  assumes "m_stack m = x # y # st" "3 < m_gas m" "length st \<le> dataStackCapacity - 2"
    and f: "\<And>m. length (m_stack m) < dataStackCapacity \<Longrightarrow> 1 < m_gas m \<Longrightarrow>
      f x y m = (m\<lparr> m_stack := z # m_stack m, m_gas := m_gas m - 1 \<rparr>, Ok Next)"
  shows "pop2 f m = (m\<lparr> m_stack := z # st, m_gas := m_gas m - 3 \<rparr>, Ok Next)"
  using assms(1-3) f [of "m\<lparr> m_stack := st, m_gas := m_gas m - 2 \<rparr>"]
  by (simp add: pop2_def ebind_def Pop_Cons dataStackCapacity_def)

lemma push_next_room:
  "length (m_stack m) < dataStackCapacity \<Longrightarrow> 1 < m_gas m \<Longrightarrow>
   push_next z m = (m\<lparr> m_stack := z # m_stack m, m_gas := m_gas m - 1 \<rparr>, Ok Next)"
  by (simp add: push_next_def ebind_def Push_room elift_def)

lemma push_big_room:
  "big_word k = Ok z \<Longrightarrow> length (m_stack m) < dataStackCapacity \<Longrightarrow> 1 < m_gas m \<Longrightarrow>
   push_big k m = (m\<lparr> m_stack := z # m_stack m, m_gas := m_gas m - 1 \<rparr>, Ok Next)"
  by (simp add: push_big_def ebind_def Push_room elift_def)

definition computes :: "(word256 \<Rightarrow> word256 \<Rightarrow> signal vmop) \<Rightarrow> (256 word \<Rightarrow> 256 word \<Rightarrow> 256 word) \<Rightarrow> bool" where
  "computes f g \<longleftrightarrow> (\<forall>x y. length x = 32 \<longrightarrow> length y = 32 \<longrightarrow>
     (\<exists>z. length z = 32 \<and> word_of z = g (word_of x) (word_of y) \<and>
        (\<forall>m. length (m_stack m) < dataStackCapacity \<longrightarrow> 1 < m_gas m \<longrightarrow>
           f x y m = (m\<lparr> m_stack := z # m_stack m, m_gas := m_gas m - 1 \<rparr>, Ok Next))))"

lemma computes_word:
  "(\<And>x y. length x = 32 \<Longrightarrow> length y = 32 \<Longrightarrow> length (h x y) = 32 \<and> word_of (h x y) = g (word_of x) (word_of y)) \<Longrightarrow>
   computes (\<lambda>x y. push_next (h x y)) g"
  unfolding computes_def using push_next_room by blast

lemma computes_bool:
  "(\<And>x y. length x = 32 \<Longrightarrow> length y = 32 \<Longrightarrow> b x y = g (word_of x) (word_of y)) \<Longrightarrow>
   computes (\<lambda>x y. push_bool (b x y)) (\<lambda>x y. of_bool (g x y))"
  unfolding push_bool_def by (rule computes_word) auto

lemma computes_big:
  assumes "\<And>x y. length x = 32 \<Longrightarrow> length y = 32 \<Longrightarrow> word_of_int (h x y) = g (word_of x) (word_of y)"
  shows "computes (\<lambda>x y. push_big (h x y)) g"
  unfolding computes_def
proof (intro allI impI)
  fix x y :: word256
  assume len: "length x = 32" "length y = 32"
  obtain z where z: "big_word (h x y) = Ok z" using big_word_Ok by blast
  have "length z = 32" "word_of z = g (word_of x) (word_of y)"
    using word_of_big [OF z] assms [OF len] by auto
  then show "\<exists>z. length z = 32 \<and> word_of z = g (word_of x) (word_of y) \<and>
    (\<forall>m. length (m_stack m) < dataStackCapacity \<longrightarrow> 1 < m_gas m \<longrightarrow>
       push_big (h x y) m = (m\<lparr> m_stack := z # m_stack m, m_gas := m_gas m - 1 \<rparr>, Ok Next))"
    using push_big_room [OF z] by blast
qed

lemma computes_unless_zero:
  assumes "computes (\<lambda>x y. push_big (h x y)) g" "\<And>x. g' x 0 = 0" "\<And>x y. y \<noteq> 0 \<Longrightarrow> g' x y = g x y"
  shows "computes (\<lambda>x y. unless_zero y (h x y)) g'"
  using assms(1) computes_word [of "\<lambda>x y. Zero256" "\<lambda>x y. 0"] assms(2,3)
  unfolding computes_def unless_zero_def by (simp add: IsZero_word)

lemma computes_ring:
  "computes (\<lambda>x y. push_big (SetBytes x + SetBytes y)) (\<lambda>x y. x + y)"
  "computes (\<lambda>x y. push_big (SetBytes x * SetBytes y)) (\<lambda>x y. x * y)"
  "computes (\<lambda>x y. push_big (SetBytes x - SetBytes y)) (\<lambda>x y. x - y)"
  by (rule computes_big, simp add: word_of_def)+

lemma computes_power: "computes (\<lambda>x y. push_big (SetBytes x ^ nat (SetBytes y))) (\<lambda>x y. x ^ unat y)"
proof (rule computes_big)
  fix x y :: word256 assume "length x = 32" "length y = 32"
  then have "unat (word_of y) = nat (SetBytes y)" using uint_word_of [of y] by (simp add: unat_eq_nat_uint)
  then show "word_of_int (SetBytes x ^ nat (SetBytes y)) = word_of x ^ unat (word_of y)"
    by (simp add: word_of_def)
qed

lemma computes_division:
  "computes (\<lambda>x y. unless_zero y (big_Div (SetBytes x) (SetBytes y))) (\<lambda>x y. x div y)"
  "computes (\<lambda>x y. unless_zero y (big_Mod (SetBytes x) (SetBytes y))) (\<lambda>x y. if y = 0 then 0 else x mod y)"
proof -
  have nonneg: "0 \<le> SetBytes y" for y using SetBytes_bounds by blast
  show "computes (\<lambda>x y. unless_zero y (big_Div (SetBytes x) (SetBytes y))) (\<lambda>x y. x div y)"
    by (rule computes_unless_zero [OF computes_big [of _ "\<lambda>x y. x div y"]])
      (use nonneg in \<open>auto simp: word_div_def uint_word_of big_Div_def less_le\<close>)
  show "computes (\<lambda>x y. unless_zero y (big_Mod (SetBytes x) (SetBytes y))) (\<lambda>x y. if y = 0 then 0 else x mod y)"
    by (rule computes_unless_zero [OF computes_big [of _ "\<lambda>x y. x mod y"]])
      (use nonneg in \<open>auto simp: word_mod_def uint_word_of big_Mod_def\<close>)
qed

lemma computes_compare:
  "computes (\<lambda>x y. push_bool (SetBytes x < SetBytes y)) (\<lambda>x y. of_bool (x < y))"
  "computes (\<lambda>x y. push_bool (SetBytes x > SetBytes y)) (\<lambda>x y. of_bool (x > y))"
  "computes (\<lambda>x y. push_bool (S256 (SetBytes x) < S256 (SetBytes y))) (\<lambda>x y. of_bool (x <s y))"
  "computes (\<lambda>x y. push_bool (S256 (SetBytes x) > S256 (SetBytes y))) (\<lambda>x y. of_bool (y <s x))"
  "computes (\<lambda>x y. push_bool (x = y)) (\<lambda>x y. of_bool (x = y))"
  by (rule computes_bool, simp add: word_less_def uint_word_of S256_word word_sless_alt word_of_inject)+

lemma computes_bits:
  "computes (\<lambda>x y. push_next (map2 (AND) x y)) (\<lambda>x y. x AND y)"
  "computes (\<lambda>x y. push_next (map2 (OR) x y)) (\<lambda>x y. x OR y)"
  "computes (\<lambda>x y. push_next (map2 (XOR) x y)) (\<lambda>x y. x XOR y)"
  by (rule computes_word, simp add: word_of_bits)+

lemma pop2_computes:
  assumes "computes f g" "m_stack m = x # y # st" "length x = 32" "length y = 32"
    "length (m_stack m) \<le> dataStackCapacity" "3 < m_gas m"
  shows "\<exists>z. length z = 32 \<and> word_of z = g (word_of x) (word_of y) \<and>
     pop2 f m = (m\<lparr> m_stack := z # st, m_gas := m_gas m - 3 \<rparr>, Ok Next)"
proof -
  obtain z where z: "length z = 32" "word_of z = g (word_of x) (word_of y)"
    "\<And>m. length (m_stack m) < dataStackCapacity \<Longrightarrow> 1 < m_gas m \<Longrightarrow>
       f x y m = (m\<lparr> m_stack := z # m_stack m, m_gas := m_gas m - 1 \<rparr>, Ok Next)"
    using assms(1,3,4) unfolding computes_def by blast
  have "pop2 f m = (m\<lparr> m_stack := z # st, m_gas := m_gas m - 3 \<rparr>, Ok Next)"
    using assms(5) by (intro binary_op [where f = f and z = z, OF assms(2) assms(6)] z(3)) (simp_all add: assms(2))
  with z(1,2) show ?thesis by blast
qed

lemma alu_dispatch:
  "op_exec V 0x01 = pop2 (\<lambda>x y. push_big (SetBytes x + SetBytes y))"
  "op_exec V 0x02 = pop2 (\<lambda>x y. push_big (SetBytes x * SetBytes y))"
  "op_exec V 0x03 = pop2 (\<lambda>x y. push_big (SetBytes x - SetBytes y))"
  "op_exec V 0x04 = pop2 (\<lambda>x y. unless_zero y (big_Div (SetBytes x) (SetBytes y)))"
  "op_exec V 0x06 = pop2 (\<lambda>x y. unless_zero y (big_Mod (SetBytes x) (SetBytes y)))"
  "op_exec V 0x0A = pop2 (\<lambda>x y. push_big (SetBytes x ^ nat (SetBytes y)))"
  "op_exec V 0x10 = pop2 (\<lambda>x y. push_bool (SetBytes x < SetBytes y))"
  "op_exec V 0x11 = pop2 (\<lambda>x y. push_bool (SetBytes x > SetBytes y))"
  "op_exec V 0x12 = pop2 (\<lambda>x y. push_bool (S256 (SetBytes x) < S256 (SetBytes y)))"
  "op_exec V 0x13 = pop2 (\<lambda>x y. push_bool (S256 (SetBytes x) > S256 (SetBytes y)))"
  "op_exec V 0x14 = pop2 (\<lambda>x y. push_bool (x = y))"
  "op_exec V 0x16 = pop2 (\<lambda>x y. push_next (map2 (AND) x y))"
  "op_exec V 0x17 = pop2 (\<lambda>x y. push_next (map2 (OR) x y))"
  "op_exec V 0x18 = pop2 (\<lambda>x y. push_next (map2 (XOR) x y))"
  by (simp_all add: op_exec_def op_arith_def op_compare_def)

lemma alu_exI: "op_exec V op = pop2 f \<Longrightarrow> computes f g \<Longrightarrow> \<exists>f. op_exec V op = pop2 f \<and> computes f g"
  by blast

lemmas alu_rules =
  alu_exI [OF alu_dispatch(1) computes_ring(1)] alu_exI [OF alu_dispatch(2) computes_ring(2)]
  alu_exI [OF alu_dispatch(3) computes_ring(3)] alu_exI [OF alu_dispatch(4) computes_division(1)]
  alu_exI [OF alu_dispatch(5) computes_division(2)] alu_exI [OF alu_dispatch(6) computes_power]
  alu_exI [OF alu_dispatch(7) computes_compare(1)] alu_exI [OF alu_dispatch(8) computes_compare(2)]
  alu_exI [OF alu_dispatch(9) computes_compare(3)] alu_exI [OF alu_dispatch(10) computes_compare(4)]
  alu_exI [OF alu_dispatch(11) computes_compare(5)] alu_exI [OF alu_dispatch(12) computes_bits(1)]
  alu_exI [OF alu_dispatch(13) computes_bits(2)] alu_exI [OF alu_dispatch(14) computes_bits(3)]

lemma alu_cases: "alu2 op = Some g \<Longrightarrow> \<exists>f. op_exec V op = pop2 f \<and> computes f g"
  unfolding alu2_def map_of.simps by (auto simp only: fst_conv snd_conv fun_upd_apply option.inject
    option.distinct intro: alu_rules split: if_split_asm)

text \<open>The instructions on one word and on three.\<close>

definition alu1 :: "byte \<Rightarrow> (256 word \<Rightarrow> 256 word) option" where
  "alu1 op = map_of [(0x15, \<lambda>x. of_bool (x = 0)), (0x19, \<lambda>x. NOT x)] op"

definition alu3 :: "byte \<Rightarrow> (256 word \<Rightarrow> 256 word \<Rightarrow> 256 word \<Rightarrow> 256 word) option" where
  "alu3 op =
     map_of [(0x08, \<lambda>x y z. if z = 0 then 0 else word_of_int ((uint x + uint y) mod uint z)),
             (0x09, \<lambda>x y z. if z = 0 then 0 else word_of_int ((uint x * uint y) mod uint z))] op"

lemma unary_computes:
  assumes "alu1 op = Some g" "m_stack m = x # st" "length x = 32" "length (m_stack m) \<le> dataStackCapacity" "2 < m_gas m"
  shows "\<exists>z. length z = 32 \<and> word_of z = g (word_of x) \<and>
     op_exec V op m = (m\<lparr> m_stack := z # st, m_gas := m_gas m - 2 \<rparr>, Ok Next)"
proof -
  have run: "ebind stack_Pop (\<lambda>x. push_next (h x)) m = (m\<lparr> m_stack := h x # st, m_gas := m_gas m - 2 \<rparr>, Ok Next)" for h
    using assms(2,4,5) by (simp add: ebind_def Pop_Cons push_next_room)
  consider "op = 0x15" "g = (\<lambda>x. of_bool (x = 0))" | "op = 0x19" "g = (\<lambda>x. NOT x)"
    using assms(1) by (auto simp: alu1_def split: if_splits)
  then show ?thesis
  proof cases
    case 1
    have "op_exec V op = ebind stack_Pop (\<lambda>x. push_next (if word_IsZero x then Int64ToWord256 1 else Zero256))"
      by (simp add: 1 op_exec_def op_compare_def push_bool_def)
    with 1 run assms(3) show ?thesis
      by (intro exI [of _ "if word_IsZero x then Int64ToWord256 1 else Zero256"]) (simp add: IsZero_word)
  next
    case 2
    have "op_exec V op = ebind stack_Pop (\<lambda>x. push_next (map NOT x))" by (simp add: 2 op_exec_def op_compare_def)
    with 2 run assms(3) show ?thesis by (intro exI [of _ "map NOT x"]) (simp add: word_of_NOT)
  qed
qed

lemma ternary_computes:
  assumes "alu3 op = Some g" "m_stack m = x # y # z # st" "length x = 32" "length y = 32" "length z = 32"
    "length (m_stack m) \<le> dataStackCapacity" "4 < m_gas m"
  shows "\<exists>w. length w = 32 \<and> word_of w = g (word_of x) (word_of y) (word_of z) \<and>
     op_exec V op m = (m\<lparr> m_stack := w # st, m_gas := m_gas m - 4 \<rparr>, Ok Next)"
proof -
  have run: "\<exists>w. length w = 32 \<and> word_of w = (if word_of z = 0 then 0 else word_of_int (k x y mod uint (word_of z))) \<and>
      pop2 (\<lambda>x y. ebind stack_Pop (\<lambda>z. unless_zero z (big_Mod (k x y) (SetBytes z)))) m =
        (m\<lparr> m_stack := w # st, m_gas := m_gas m - 4 \<rparr>, Ok Next)" for k
  proof (cases "word_of z = 0")
    case True
    then show ?thesis
      using assms(2,5-7)
      by (intro exI [of _ Zero256]) (simp add: pop2_def ebind_def Pop_Cons unless_zero_def IsZero_word push_next_room)
  next
    case False
    obtain w where w: "big_word (big_Mod (k x y) (SetBytes z)) = Ok w" using big_word_Ok by blast
    have "0 \<le> SetBytes z" using SetBytes_bounds by blast
    then have "word_of w = word_of_int (k x y mod uint (word_of z))"
      using word_of_big [OF w] by (simp add: big_Mod_def uint_word_of assms(5))
    with False show ?thesis
      using assms(2,5-7) word_of_big [OF w]
      by (intro exI [of _ w]) (simp add: pop2_def ebind_def Pop_Cons unless_zero_def IsZero_word push_big_room [OF w])
  qed
  consider "op = 0x08" "g = (\<lambda>x y z. if z = 0 then 0 else word_of_int ((uint x + uint y) mod uint z))"
    | "op = 0x09" "g = (\<lambda>x y z. if z = 0 then 0 else word_of_int ((uint x * uint y) mod uint z))"
    using assms(1) by (auto simp: alu3_def split: if_splits)
  then show ?thesis
  proof cases
    case 1
    have code: "op_exec V op = pop2 (\<lambda>x y. ebind stack_Pop (\<lambda>z. unless_zero z (big_Mod (SetBytes x + SetBytes y) (SetBytes z))))"
      by (simp add: 1 op_exec_def op_arith_def)
    have word: "g (word_of x) (word_of y) (word_of z) =
        (if word_of z = 0 then 0 else word_of_int ((SetBytes x + SetBytes y) mod uint (word_of z)))"
      by (simp add: 1 uint_word_of assms(3,4))
    show ?thesis unfolding code word by (rule run)
  next
    case 2
    have code: "op_exec V op = pop2 (\<lambda>x y. ebind stack_Pop (\<lambda>z. unless_zero z (big_Mod (SetBytes x * SetBytes y) (SetBytes z))))"
      by (simp add: 2 op_exec_def op_arith_def)
    have word: "g (word_of x) (word_of y) (word_of z) =
        (if word_of z = 0 then 0 else word_of_int ((SetBytes x * SetBytes y) mod uint (word_of z)))"
      by (simp add: 2 uint_word_of assms(3,4))
    show ?thesis unfolding code word by (rule run)
  qed
qed

text \<open>All of them, with the number of words they take.\<close>

definition alu :: "byte \<Rightarrow> (nat \<times> (256 word list \<Rightarrow> 256 word)) option" where
  "alu op =
     (case alu1 op of
        Some g \<Rightarrow> Some (1, \<lambda>xs. g (xs ! 0))
      | None \<Rightarrow>
          (case alu2 op of
             Some g \<Rightarrow> Some (2, \<lambda>xs. g (xs ! 0) (xs ! 1))
           | None \<Rightarrow> map_option (\<lambda>g. (3, \<lambda>xs. g (xs ! 0) (xs ! 1) (xs ! 2))) (alu3 op)))"

lemma alu_computes:
  assumes "alu op = Some (n, g)" "m_stack m = xs @ st" "length xs = n" "\<forall>x\<in>set xs. length x = 32"
    "length (m_stack m) \<le> dataStackCapacity" "int n + 1 < m_gas m"
  shows "\<exists>z. length z = 32 \<and> word_of z = g (map word_of xs) \<and>
     op_exec V op m = (m\<lparr> m_stack := z # st, m_gas := m_gas m - (int n + 1) \<rparr>, Ok Next)"
proof -
  consider g1 where "alu1 op = Some g1" "n = 1" "g = (\<lambda>xs. g1 (xs ! 0))"
    | g2 where "alu2 op = Some g2" "n = 2" "g = (\<lambda>xs. g2 (xs ! 0) (xs ! 1))"
    | g3 where "alu3 op = Some g3" "n = 3" "g = (\<lambda>xs. g3 (xs ! 0) (xs ! 1) (xs ! 2))"
    using assms(1) by (auto simp: alu_def split: option.splits)
  then show ?thesis
  proof cases
    case 1
    then obtain x where "xs = [x]" using assms(3) by (cases xs) auto
    with 1 assms show ?thesis using unary_computes [OF 1(1), of m x st V] by simp
  next
    case 2
    then obtain x y where xs: "xs = [x, y]" using assms(3) by (auto simp: numeral_2_eq_2 length_Suc_conv)
    obtain f where f: "op_exec V op = pop2 f" "computes f g2" using alu_cases [OF 2(1)] by blast
    from 2 xs assms show ?thesis using pop2_computes [OF f(2), of m x y st] f(1) by simp
  next
    case 3
    then obtain x y z where "xs = [x, y, z]" using assms(3) by (auto simp: numeral_3_eq_3 length_Suc_conv)
    with 3 assms show ?thesis using ternary_computes [OF 3(1), of m x y z st V] by simp
  qed
qed

text \<open>The instructions of the table.\<close>

lemma alu_table:
  "alu op \<noteq> None \<longleftrightarrow> op \<in> {0x01, 0x02, 0x03, 0x04, 0x06, 0x08, 0x09, 0x0A, 0x10, 0x11, 0x12, 0x13, 0x14, 0x15,
     0x16, 0x17, 0x18, 0x19}"
proof -
  have "alu op \<noteq> None \<longleftrightarrow> alu1 op \<noteq> None \<or> alu2 op \<noteq> None \<or> alu3 op \<noteq> None"
    by (auto simp: alu_def split: option.split)
  also have "\<dots> \<longleftrightarrow> op \<in> {0x15, 0x19} \<or> op \<in> {0x01, 0x02, 0x03, 0x04, 0x06, 0x0A, 0x10, 0x11, 0x12, 0x13, 0x14, 0x16,
      0x17, 0x18} \<or> op \<in> {0x08, 0x09}"
    unfolding alu1_def alu2_def alu3_def by (simp only: map_of_eq_None_iff list.set image_insert image_empty fst_conv not_not)
  finally show ?thesis by blast
qed

end
