(* ===== verification/Evm_Runs.thy ===== *)
theory Evm_Runs
  imports Evm_Alu
begin

text \<open>
  Properties of whole runs of the contract machine, good and bad: what every state of a run
  satisfies, which runs never end, which end the node, and how money moves, appears and disappears.
\<close>

section \<open>A ledger with a caller, a contract and a third account\<close>

definition evm_addr :: "byte \<Rightarrow> bytes" where
  "evm_addr b = replicate 19 0 @ [b]"

definition evm_account :: "byte \<Rightarrow> int \<Rightarrow> Account" where
  "evm_account b n =
     \<lparr> acc_Address = evm_addr b, acc_PubKey = None, acc_Sequence = 0, acc_Balance = n, acc_Code = [],
       acc_StorageRoot = [], acc_Permissions = DefaultAccountPermissions \<rparr>"

definition evm_ledger :: BlockCache where
  "evm_ledger =
     NewBlockCache (sample_validators\<lparr> st_accounts :=
       [(evm_addr 10, evm_account 10 100), (evm_addr 11, evm_account 11 50), (evm_addr 12, evm_account 12 5)] \<rparr>)"

definition evm_object :: "byte \<Rightarrow> int \<Rightarrow> VMAccount" where
  "evm_object b n =
     \<lparr> vm_Address = replicate 31 0 @ [b], vm_Balance = n, vm_Code = [], vm_Nonce = 0,
       vm_Other = StateOther None [], vm_Permissions = DefaultAccountPermissions \<rparr>"

definition evm_cache :: TxCache where
  "evm_cache =
     \<lparr> tc_backend = evm_ledger,
       tc_accounts = [(replicate 31 0 @ [10], \<lparr> va_account = Some 0, va_removed = False \<rparr>),
                      (replicate 31 0 @ [11], \<lparr> va_account = Some 1, va_removed = False \<rparr>)],
       tc_storages = [], tc_heap = [evm_object 10 100, evm_object 11 50] \<rparr>"

definition evm_wire :: wire_env where
  "evm_wire =
     \<lparr> jsonEscape = (\<lambda>s. s), JSON_PubKey = (\<lambda>_. []), JSON_PermArgs = (\<lambda>_. []), MakePublicKey = (\<lambda>s. s),
       PubKey_Address = (\<lambda>k. take 20 k), ed25519_Sign = (\<lambda>_ _. []), ed25519_Verify = (\<lambda>_ _ _. True),
       BinaryRipemd160 = (\<lambda>_. []), Ripemd160 = (\<lambda>bs. take 20 bs) \<rparr>"

definition evm_env :: vm_env where
  "evm_env =
     \<lparr> ve_wire = evm_wire,
       ve_hash = \<lparr> Sha3 = (\<lambda>_. Zero256), Sha256 = (\<lambda>_. Zero256), hash_Ripemd160 = (\<lambda>_. Zero256) \<rparr>,
       ve_params = \<lparr> vm_BlockHeight = 1, BlockHash = Zero256, BlockTime = 0, GasLimit = 1000 \<rparr>,
       ve_origin = replicate 31 0 @ [10], ve_txid = [], ve_evc = False \<rparr>"

section \<open>Every state of a run\<close>


definition evm_start :: "bytes \<Rightarrow> mach" where
  "evm_start code =
     start_frame 0 1 code [] 0
       \<lparr> m_caller = 0, m_callee = 1, m_code = [], m_input = [], m_value = 0, m_pc = 0, m_stack = [],
         m_mem = (\<lambda>_. 0), m_err = None, m_gas = 1000, m_cache = evm_cache, m_events = [] \<rparr>"

lemma evm_start_pushes:
  "vm_step (vm_loop 0 evm_env) evm_env (evm_start [0x60, 7]) =
     Some ((evm_start [0x60, 7])\<lparr> m_pc := 1, m_stack := [replicate 31 0 @ [7]], m_gas := 999 \<rparr>, Ok Next)"
  by (simp add: vm_step_def vm_op_def ebind_def elift_def eread_def echange_def useGasNegative_def evm_start_def
      start_frame_def GasBaseOp_def codeGetOp_def op_exec_def op_push_def data_part_def subslice_def
      subslice_bounds_def int64_simps LeftPadWord256_def stack_Push_def stack_useGas_def GasStackOp_def
      dataStackCapacity_def)


text \<open>
  C17: Eighteen instructions compute the operations of 256-bit machine words: \<open>ADD\<close>, \<open>MUL\<close>, \<open>SUB\<close>, \<open>DIV\<close>, \<open>MOD\<close>,
  \<open>ADDMOD\<close>, \<open>MULMOD\<close>, \<open>EXP\<close>, \<open>LT\<close>, \<open>GT\<close>, \<open>SLT\<close>, \<open>SGT\<close>, \<open>EQ\<close>, \<open>ISZERO\<close>, \<open>AND\<close>, \<open>OR\<close>, \<open>XOR\<close> and \<open>NOT\<close>. Given enough gas, each
  takes its words from the stack and leaves the result, for one unit of gas per word taken and one for
  the word left: the byte loops and the big integers of the code are equivalent to the word operations.
\<close>

theorem alu_is_word_arithmetic:
  assumes "codeGetOp (m_code m) (m_pc m) = Ok op" "alu op = Some (n, g)"
    "m_stack m = xs @ st" "length xs = n" "\<forall>x\<in>set xs. length x = 32" "length (m_stack m) \<le> 1024" "int n + 1 < m_gas m"
  shows "\<exists>z. length z = 32 \<and> word_of z = g (map word_of xs) \<and>
     vm_op V m = (m\<lparr> m_stack := z # st, m_gas := m_gas m - (int n + 1) \<rparr>, Ok Next)"
proof -
  have "vm_op V m = op_exec V op m"
    using assms(1,7) by (simp add: vm_op_def ebind_def elift_def eread_def echange_def useGasNegative_def GasBaseOp_def)
  with alu_computes [OF assms(2-5), of V] assms(6,7) show ?thesis by (simp add: dataStackCapacity_def)
qed

theorem alu_is_word_arithmetic_witness:
  "let m = (evm_start [0x08])\<lparr> m_stack := [replicate 32 255, replicate 31 0 @ [1], replicate 31 0 @ [10]] \<rparr> in
   \<exists>z. length z = 32 \<and> word_of z = 6 \<and> vm_op evm_env m = (m\<lparr> m_stack := [z], m_gas := 996 \<rparr>, Ok Next)"
proof -
  define x y z :: word256 where "x = replicate 32 255" and "y = replicate 31 0 @ [1]" and "z = replicate 31 0 @ [10]"
  have len: "length x = 32" "length y = 32" "length z = 32" by (simp_all add: x_def y_def z_def)
  have "SetBytes x = 2 ^ 256 - 1" "SetBytes y = 1" "SetBytes z = 10" unfolding x_def y_def z_def by code_simp+
  then have words: "uint (word_of x) = 2 ^ 256 - 1" "uint (word_of y) = 1" "uint (word_of z) = 10"
    using len by (simp_all add: uint_word_of)
  define m where "m = (evm_start [0x08])\<lparr> m_stack := [x, y, z] \<rparr>"
  define g :: "256 word list \<Rightarrow> 256 word"
    where "g = (\<lambda>ws. if ws ! 2 = 0 then 0 else word_of_int ((uint (ws ! 0) + uint (ws ! 1)) mod uint (ws ! 2)))"
  have alu: "alu 0x08 = Some (3, g)" by (simp add: alu_def alu1_def alu2_def alu3_def g_def fun_eq_iff)
  have m: "codeGetOp (m_code m) (m_pc m) = Ok 0x08" "m_stack m = [x, y, z] @ []" "m_gas m = 1000"
    by (simp_all add: m_def evm_start_def start_frame_def codeGetOp_def)
  have "word_of z \<noteq> 0" using words(3) by auto
  then have "g (map word_of [x, y, z]) = word_of_int ((2 ^ 256 - 1 + 1) mod 10)" by (simp add: g_def words)
  also have "\<dots> = 6" by simp
  finally have "g (map word_of [x, y, z]) = 6" .
  with alu_is_word_arithmetic [OF m(1) alu m(2), of evm_env] len m show ?thesis
    by (simp add: m_def x_def y_def z_def)
qed

section \<open>Runs without end\<close>

text \<open>The program \<open>JUMPDEST PUSH1 0 JUMP\<close>.\<close>

definition spin :: bytes where
  "spin = [0x5B, 0x60, 0x00, 0x56]"

definition spinning :: "mach \<Rightarrow> bool" where
  "spinning m \<longleftrightarrow> m_code m = spin \<and> 0 \<le> m_gas m \<and>
     ((m_pc m = 0 \<or> m_pc m = 1) \<and> m_stack m = [] \<or> m_pc m = 3 \<and> m_stack m = [Zero256])"

lemma Int64_Zero [simp]: "Int64FromWord256 Zero256 = 0"
  by code_simp

lemma op_at: "codeGetOp (m_code m) (m_pc m) = Ok op \<Longrightarrow> 0 \<le> m_gas m \<Longrightarrow> vm_op V m = op_exec V op m"
  by (simp add: vm_op_def ebind_def elift_def eread_def echange_def useGasNegative_def GasBaseOp_def)

lemma useGas_fields:
  "m_stack (stack_useGas g m) = m_stack m" "m_code (stack_useGas g m) = m_code m" "m_pc (stack_useGas g m) = m_pc m"
  "0 \<le> m_gas m \<Longrightarrow> 0 \<le> g \<Longrightarrow> 0 \<le> m_gas (stack_useGas g m)"
  by (auto simp: stack_useGas_def setErr_def)

lemma spin_push: "subslice spin 2 1 = Ok (Some [0])" "LeftPadWord256 [0] = Ok Zero256"
  by code_simp+

lemma spin_step:
  assumes "spinning m"
  shows "\<exists>m' s. vm_step loop V m = Some (m', Ok s) \<and>
     (s = Jumped \<and> spinning m' \<or> s = Next \<and> spinning (m'\<lparr> m_pc := m_pc m' + 1 \<rparr>))"
proof -
  have code: "m_code m = spin" "0 \<le> m_gas m" using assms by (auto simp: spinning_def)
  consider "m_pc m = 0" "m_stack m = []" | "m_pc m = 1" "m_stack m = []" | "m_pc m = 3" "m_stack m = [Zero256]"
    using assms by (auto simp: spinning_def)
  then show ?thesis
  proof cases
    case 1
    then have "vm_op V m = op_exec V 0x5B m"
      using code by (intro op_at) (simp_all add: codeGetOp_def spin_def)
    also have "\<dots> = (m, Ok Next)" by (simp add: op_exec_def op_flow_def elift_def)
    finally show ?thesis using 1 code by (simp add: vm_step_def spinning_def)
  next
    case 2
    then have "vm_op V m = op_exec V 0x60 m"
      using code by (intro op_at) (simp_all add: codeGetOp_def spin_def)
    also have "\<dots> = ((stack_useGas 1 m)\<lparr> m_stack := [Zero256], m_pc := 2 \<rparr>, Ok Next)"
      using 2 code
      by (simp add: op_exec_def op_push_def ebind_def elift_def eread_def echange_def data_part_def spin_push
          stack_Push_def GasStackOp_def Let_def useGas_fields dataStackCapacity_def)
    finally show ?thesis using code by (simp add: vm_step_def spinning_def useGas_fields)
  next
    case 3
    then have "vm_op V m = op_exec V 0x56 m"
      using code by (intro op_at) (simp_all add: codeGetOp_def spin_def)
    also have "\<dots> = ((stack_useGas 1 m)\<lparr> m_stack := [], m_pc := 0, m_err := None \<rparr>, Ok Jumped)"
      using 3 code
      by (simp add: op_exec_def op_flow_def ebind_def elift_def eread_def echange_def Pop64_def stack_Pop_def ecall_def
          GasStackOp_def useGas_fields jump_def codeGetOp_def spin_def)
    finally show ?thesis using code by (simp add: vm_step_def spinning_def useGas_fields)
  qed
qed

lemma spin_loop: "spinning m \<Longrightarrow> vm_loop n V m = None"
proof (induction n arbitrary: m)
  case 0 show ?case by simp
next
  case (Suc n)
  obtain m' s where "vm_step (vm_loop n V) V m = Some (m', Ok s)"
    "s = Jumped \<and> spinning m' \<or> s = Next \<and> spinning (m'\<lparr> m_pc := m_pc m' + 1 \<rparr>)"
    using spin_step [OF Suc.prems] by blast
  then show ?case using Suc.IH by auto
qed

text \<open>
  C35: Gas does not bound the execution: a contract of four bytes runs forever, whatever gas it is
  given and whatever fuel the model has. Using up the gas only sets an error that the loop never looks
  at, and a jump clears it.
\<close>

theorem gas_does_not_bound_execution:
  assumes "0 \<le> gas" "v \<le> vm_Balance (tc_obj c caller)"
  shows "evm_Call n V caller callee spin input v gas c = None"
proof -
  obtain c' where c': "transfer caller callee v c = Ok c'"
    using assms(2) by (simp add: transfer_def Let_def)
  have "vm_loop n V (start_frame caller callee spin input v m) = None" if "0 \<le> m_gas m" for m
    using that by (intro spin_loop) (simp add: spinning_def start_frame_def)
  then show ?thesis
    using c' assms(1) by (simp add: evm_Call_def vm_Call_def spin_def)
qed

theorem gas_does_not_bound_execution_witness:
  "\<forall>n. evm_Call n evm_env 0 1 spin [] 5 3 evm_cache = None"
  using gas_does_not_bound_execution [of 3 5 evm_cache 0 _ evm_env 1 "[]"]
  by (simp add: evm_cache_def tc_obj_def evm_object_def)

section \<open>Runs that end the node\<close>

text \<open>The program \<open>PUSH1 0 NOT MLOAD\<close>.\<close>

definition crash :: bytes where
  "crash = [0x60, 0x00, 0x19, 0x51]"

lemma crash_eval:
  "subslice crash 1 1 = Ok (Some [0])" "map NOT Zero256 = replicate 32 255"
  "Int64FromWord256 (replicate 32 255) = -1"
  "subslice_bounds memoryCapacity (-1) 32 = Panic ''slice bounds out of range''"
  by code_simp+

lemma crash_push:
  assumes "m_code m = crash" "0 \<le> m_gas m" "m_pc m = 0" "m_stack m = []"
  shows "vm_op V m = ((stack_useGas 1 m)\<lparr> m_stack := [Zero256], m_pc := 1 \<rparr>, Ok Next)"
proof -
  have "vm_op V m = op_exec V 0x60 m"
    using assms by (intro op_at) (simp_all add: codeGetOp_def crash_def)
  then show ?thesis
    using assms by (simp add: op_exec_def op_push_def ebind_def elift_def eread_def echange_def data_part_def
        spin_push crash_eval stack_Push_def GasStackOp_def Let_def useGas_fields dataStackCapacity_def)
qed

lemma crash_not:
  assumes "m_code m = crash" "0 \<le> m_gas m" "m_pc m = 2" "m_stack m = [Zero256]"
  shows "vm_op V m = ((stack_useGas 1 (stack_useGas 1 m))\<lparr> m_stack := [replicate 32 255] \<rparr>, Ok Next)"
proof -
  have "vm_op V m = op_exec V 0x19 m"
    using assms by (intro op_at) (simp_all add: codeGetOp_def crash_def)
  then show ?thesis
    using assms by (simp add: op_exec_def op_compare_def ebind_def elift_def echange_def stack_Pop_def ecall_def
        push_next_def crash_eval stack_Push_def GasStackOp_def Let_def useGas_fields dataStackCapacity_def)
      (simp add: stack_useGas_def setErr_def)
qed

lemma crash_load:
  assumes "m_code m = crash" "0 \<le> m_gas m" "m_pc m = 3" "m_stack m = [replicate 32 255]"
  shows "\<exists>m'. vm_op V m = (m', Panic ''slice bounds out of range'')"
proof -
  have "vm_op V m = op_exec V 0x51 m"
    using assms by (intro op_at) (simp_all add: codeGetOp_def crash_def)
  then show ?thesis
    using assms by (simp add: op_exec_def op_storage_def ebind_def elift_def Pop64_def stack_Pop_def ecall_def
        GasStackOp_def useGas_fields mem_read_def mem_part_def crash_eval)
qed

lemma loop_next:
  "vm_op V m = (m1, Ok Next) \<Longrightarrow> vm_loop (Suc n) V m = vm_loop n V (m1\<lparr> m_pc := m_pc m1 + 1 \<rparr>)"
  by (simp add: vm_step_def)

lemma loop_panic: "vm_op V m = (m1, Panic e) \<Longrightarrow> vm_loop (Suc n) V m = Some (m1, Panic e)"
  by (simp add: vm_step_def)

lemma crash_loop:
  assumes "m_code m = crash" "0 \<le> m_gas m" "m_pc m = 0" "m_stack m = []"
  shows "\<exists>m'. vm_loop 3 V m = Some (m', Panic ''slice bounds out of range'')"
proof -
  define m1 where "m1 = (stack_useGas 1 m)\<lparr> m_stack := [Zero256], m_pc := 2 \<rparr>"
  define m2 where "m2 = (stack_useGas 1 (stack_useGas 1 m1))\<lparr> m_stack := [replicate 32 255], m_pc := 3 \<rparr>"
  have 1: "vm_loop 3 V m = vm_loop 2 V m1"
    using loop_next [OF crash_push [OF assms], of 2] by (simp add: m1_def numeral_3_eq_3)
  have m1: "m_code m1 = crash" "0 \<le> m_gas m1" "m_pc m1 = 2" "m_stack m1 = [Zero256]"
    using assms by (simp_all add: m1_def useGas_fields)
  have 2: "vm_loop 2 V m1 = vm_loop 1 V m2"
    using loop_next [OF crash_not [OF m1], of 1] m1 by (simp add: m2_def numeral_2_eq_2 useGas_fields)
  have m2: "m_code m2 = crash" "0 \<le> m_gas m2" "m_pc m2 = 3" "m_stack m2 = [replicate 32 255]"
    using m1 by (simp_all add: m2_def useGas_fields)
  obtain m3 where "vm_op V m2 = (m3, Panic ''slice bounds out of range'')"
    using crash_load [OF m2] by blast
  then show ?thesis using 1 2 loop_panic [of V m2 m3 _ 0] by simp
qed

text \<open>
  A contract ends the node: the offset of a memory access is read as a signed number and a
  negative one is not refused, so a four-byte program makes the slice expression panic, for every
  caller, value and gas, in the goroutine that executes the block on every node.
\<close>

theorem contract_panics_node:
  assumes "0 \<le> gas" "v \<le> vm_Balance (tc_obj c caller)" "3 \<le> n"
  shows "\<exists>m. evm_Call n V caller callee crash input v gas c = Some (m, Panic ''slice bounds out of range'')"
proof -
  obtain c' where c': "transfer caller callee v c = Ok c'"
    using assms(2) by (simp add: transfer_def Let_def)
  have "\<exists>m'. vm_loop n V (start_frame caller callee crash input v m) = Some (m', Panic ''slice bounds out of range'')"
    if "0 \<le> m_gas m" for m
  proof -
    have "\<exists>m'. vm_loop 3 V (start_frame caller callee crash input v m) = Some (m', Panic ''slice bounds out of range'')"
      using that by (intro crash_loop) (simp_all add: start_frame_def)
    then show ?thesis using loop_mono [OF assms(3), of V] unfolding loop_le_def by blast
  qed
  then obtain m' where "vm_loop n V (start_frame caller callee crash input v
      \<lparr> m_caller = caller, m_callee = callee, m_code = [], m_input = [], m_value = 0, m_pc = 0, m_stack = [],
        m_mem = (\<lambda>_. 0), m_err = None, m_gas = gas, m_cache = c', m_events = [] \<rparr>) =
      Some (m', Panic ''slice bounds out of range'')"
    using assms(1) by fastforce
  then show ?thesis using c' by (simp add: evm_Call_def vm_Call_def crash_def Let_def)
qed

theorem contract_panics_node_witness:
  "\<exists>m. evm_Call 3 evm_env 0 1 crash [] 5 0 evm_cache = Some (m, Panic ''slice bounds out of range'')"
  using contract_panics_node [of 0 5 evm_cache 0 3 evm_env 1 "[]"]
  by (simp add: evm_cache_def tc_obj_def evm_object_def)

text \<open>
  A contract that passes on the value it was sent and then fails ends the node too: the value cannot
  be returned to the caller.
\<close>

lemma failed_forward_panics:
  assumes "transfer caller callee v (m_cache m) = Ok c" "code \<noteq> []"
    "loop (start_frame caller callee code input v (m\<lparr> m_cache := c \<rparr>)) = Some (m', Err e)"
    "vm_Balance (tc_obj (m_cache m') callee) < v"
  shows "vm_Call loop V caller callee code input v m =
     Some (leave_frame m' m, Panic ''Could not return value to caller'')"
proof -
  have "transfer callee caller v (m_cache m') = Err ErrInsufficientBalance"
    using assms(4) by (simp add: transfer_def)
  with assms(1-3) show ?thesis by (simp add: vm_Call_def Let_def)
qed

section \<open>Money\<close>

lemma obj_modify:
  "r < length (tc_heap c) \<Longrightarrow> tc_obj (tc_modify r f c) r' = (if r' = r then f (tc_obj c r) else tc_obj c r')"
  by (simp add: tc_obj_def tc_modify_def)

text \<open>
  A call with a negative value takes money from the account that is called: the value is read from
  the stack as a signed number, and a transfer of a negative amount is not refused.
\<close>

theorem negative_value_call_steals:
  assumes "v < 0" "caller \<noteq> callee" "caller < length (tc_heap (m_cache m))" "callee < length (tc_heap (m_cache m))"
    "0 \<le> vm_Balance (tc_obj (m_cache m) caller)" "vm_Balance (tc_obj (m_cache m) caller) - v \<le> MaxInt64"
    "vm_Balance (tc_obj (m_cache m) callee) \<le> MaxInt64" "MinInt64 \<le> vm_Balance (tc_obj (m_cache m) callee) + v"
  shows "\<exists>m'. vm_Call loop V caller callee [] input v m = Some (m', Ok []) \<and>
     vm_Balance (tc_obj (m_cache m') caller) = vm_Balance (tc_obj (m_cache m) caller) + \<bar>v\<bar> \<and>
     vm_Balance (tc_obj (m_cache m') callee) = vm_Balance (tc_obj (m_cache m) callee) - \<bar>v\<bar>"
proof -
  have w: "wrap64 (vm_Balance (tc_obj (m_cache m) caller) - v) = vm_Balance (tc_obj (m_cache m) caller) - v"
    "wrap64 (vm_Balance (tc_obj (m_cache m) callee) + v) = vm_Balance (tc_obj (m_cache m) callee) + v"
    using assms by (auto intro!: wrap64_id simp: int64_simps)
  have len: "length (tc_heap (tc_modify caller f (m_cache m))) = length (tc_heap (m_cache m))" for f
    by (simp add: tc_modify_def)
  show ?thesis
    using assms w len
    by (simp add: vm_Call_def transfer_def Let_def fireCallEvent_def obj_modify)
qed

theorem negative_value_call_steals_witness:
  "\<exists>m'. vm_Call (vm_loop 0 evm_env) evm_env 1 0 [] [] (-30) (evm_start []) = Some (m', Ok []) \<and>
     vm_Balance (tc_obj (m_cache m') 1) = 80 \<and> vm_Balance (tc_obj (m_cache m') 0) = 70"
  using negative_value_call_steals [of "-30" 1 0 "evm_start []" "vm_loop 0 evm_env" evm_env "[]"]
  by (simp add: evm_start_def start_frame_def evm_cache_def tc_obj_def evm_object_def int64_simps)

text \<open>The instruction CALL with such a value on the stack and the caller's address.\<close>

lemma stealing_instruction:
  "case vm_step (vm_loop 0 evm_env) evm_env ((evm_start [0xF1])\<lparr> m_stack :=
         [Zero256, replicate 31 0 @ [10], replicate 31 255 @ [226], Zero256, Zero256, Zero256, Zero256] \<rparr>) of
     Some (m, Ok Next) \<Rightarrow> vm_Balance (tc_obj (m_cache m) 0) = 70 \<and> vm_Balance (tc_obj (m_cache m) 1) = 80 | _ \<Rightarrow> False"
  by code_simp

lemma each_cong:
  "(\<And>k v s. (k, v) \<in> set xs \<Longrightarrow> f k v s = g k v s) \<Longrightarrow> each f xs s = each g xs s"
proof (induction xs arbitrary: s)
  case Nil show ?case by simp
next
  case (Cons x xs)
  then have "each f xs = each g xs" by (intro ext) simp
  with Cons.prems show ?case by (cases x) simp
qed

definition heap_ok :: "TxCache \<Rightarrow> bool" where
  "heap_ok c \<longleftrightarrow> (\<forall>(addr, info) \<in> set (tc_accounts c). \<forall>r. va_account info = Some r \<longrightarrow> r < length (tc_heap c))"

lemma Sync_unshared:
  assumes "\<forall>(addr, info) \<in> set (tc_accounts c). va_account info \<noteq> Some r"
  shows "tc_Sync (tc_modify r f c) = tc_Sync c"
proof -
  let ?h = "(tc_heap c)[r := f (tc_heap c ! r)]"
  have "sync_vm_account ?h addr info b = sync_vm_account (tc_heap c) addr info b"
    if "(addr, info) \<in> set (tc_accounts c)" for addr info b
  proof -
    have "va_account info \<noteq> Some r" using assms that by auto
    then show ?thesis
      by (cases "va_account info") (simp_all add: sync_vm_account_def deref_def)
  qed
  then have "each (sync_vm_account ?h) (tc_accounts c) = each (sync_vm_account (tc_heap c)) (tc_accounts c)"
    by (intro ext each_cong)
  then show ?thesis by (simp add: tc_Sync_def tc_modify_def)
qed

lemma get_uncached:
  assumes "map_of (tc_accounts c) addr = None" "bc_view (tc_backend c) (Postfix20 addr) = Some acc"
    "state_toVMAccount acc = Ok vacc"
  shows "\<exists>b. tc_GetAccount addr c =
     Ok (Some (length (tc_heap c)), c\<lparr> tc_backend := b, tc_heap := tc_heap c @ [vacc] \<rparr>)"
proof -
  obtain b where "bc_GetAccount (Postfix20 addr) (tc_backend c) = (Some acc, b)"
    using assms(2) by (metis GetAccount_view prod.collapse)
  then show ?thesis
    using assms by (intro exI [of _ b]) (simp add: tc_GetAccount_def vm_info_def tc_new_def Let_def)
qed

text \<open>
  Money that a contract sends to an existing account is lost when the account was not used before in
  the same transaction: \<open>GetAccount\<close> makes a new object that the cache does not remember, the value is
  added to that object, and \<open>Sync\<close> writes the same ledger as if only the sender had been charged.
\<close>

theorem value_to_uncached_account_is_lost:
  assumes "map_of (tc_accounts c) addr = None" "bc_view (tc_backend c) (Postfix20 addr) = Some acc"
    "length (acc_Address acc) = 20" "heap_ok c" "sender < length (tc_heap c)" "v \<le> vm_Balance (tc_obj c sender)"
  shows "\<exists>r c1 c2. tc_GetAccount addr c = Ok (Some r, c1) \<and> transfer sender r v c1 = Ok c2 \<and>
     tc_Sync c2 = tc_Sync (tc_modify sender (\<lambda>a. a\<lparr> vm_Balance := wrap64 (vm_Balance a - v) \<rparr>) c1)"
proof -
  obtain vacc where v: "state_toVMAccount acc = Ok vacc"
    using assms(3) by (simp add: state_toVMAccount_def LeftPadWord256_def)
  obtain b where g: "tc_GetAccount addr c =
      Ok (Some (length (tc_heap c)), c\<lparr> tc_backend := b, tc_heap := tc_heap c @ [vacc] \<rparr>)"
    using get_uncached [OF assms(1,2) v] by blast
  let ?c1 = "c\<lparr> tc_backend := b, tc_heap := tc_heap c @ [vacc] \<rparr>"
  let ?c2 = "tc_modify sender (\<lambda>a. a\<lparr> vm_Balance := wrap64 (vm_Balance a - v) \<rparr>) ?c1"
  have "tc_obj ?c1 sender = tc_obj c sender" using assms(5) by (simp add: tc_obj_def nth_append)
  then have "transfer sender (length (tc_heap c)) v ?c1 =
      Ok (tc_modify (length (tc_heap c)) (\<lambda>a. a\<lparr> vm_Balance := wrap64 (vm_Balance a + v) \<rparr>) ?c2)"
    using assms(6) by (simp add: transfer_def Let_def)
  moreover have "\<forall>(addr, info) \<in> set (tc_accounts ?c2). va_account info \<noteq> Some (length (tc_heap c))"
    using assms(4) by (auto simp: tc_modify_def heap_ok_def)
  ultimately show ?thesis using g Sync_unshared by blast
qed

theorem value_to_uncached_account_is_lost_witness:
  "\<exists>r c1 c2. tc_GetAccount (replicate 31 0 @ [12]) evm_cache = Ok (Some r, c1) \<and> transfer 1 r 20 c1 = Ok c2 \<and>
     tc_Sync c2 = tc_Sync (tc_modify 1 (\<lambda>a. a\<lparr> vm_Balance := wrap64 (vm_Balance a - 20) \<rparr>) c1)"
proof (rule value_to_uncached_account_is_lost)
  show "map_of (tc_accounts evm_cache) (replicate 31 0 @ [12]) = None" by (simp add: evm_cache_def)
  have "Postfix20 (replicate 31 0 @ [12]) = evm_addr 12" by code_simp
  then show "bc_view (tc_backend evm_cache) (Postfix20 (replicate 31 0 @ [12])) = Some (evm_account 12 5)"
    by (simp add: evm_cache_def evm_ledger_def view_New State_GetAccount_def evm_addr_def)
qed (simp_all add: evm_account_def evm_addr_def heap_ok_def evm_cache_def tc_obj_def evm_object_def)

text \<open>
  A contract can make its beneficiary forget a change of its balance: when the address given to
  SUICIDE has bytes before the last twenty that are not zero, the cache does not find the account, the
  balance is added to a copy of the account as the block cache shows it, and the copy replaces the
  cached account. A caller that sent money to the contract gets it back twice.
\<close>

theorem suicide_forgets_cached_balance:
  assumes "m_stack m = w # st" "2 \<le> m_gas m"
    and uncached: "map_of (tc_accounts (m_cache m)) w = None"
    and acc: "bc_view (tc_backend (m_cache m)) (Postfix20 w) = Some acc" "length (acc_Address acc) = 20"
    and clean: "LeftPadWord256 (acc_Address acc) = Ok addr" "\<not> va_removed (vm_info (m_cache m) addr)"
    and callee: "m_callee m < length (tc_heap (m_cache m))" "vm_Address (tc_obj (m_cache m) (m_callee m)) \<noteq> addr"
      "\<not> va_removed (vm_info (m_cache m) (vm_Address (tc_obj (m_cache m) (m_callee m))))"
  shows "\<exists>m' r. op_suicide m = (m', Ok (Return [])) \<and> va_account (vm_info (m_cache m') addr) = Some r \<and>
     vm_Balance (tc_obj (m_cache m') r) = wrap64 (acc_Balance acc + vm_Balance (tc_obj (m_cache m) (m_callee m)))"
proof -
  let ?c = "m_cache m"
  let ?r = "length (tc_heap ?c)"
  obtain vacc where v: "state_toVMAccount acc = Ok vacc" "vm_Address vacc = addr" "vm_Balance vacc = acc_Balance acc"
    using clean(1) by (simp add: state_toVMAccount_def)
  obtain b where g: "tc_GetAccount w ?c = Ok (Some ?r, ?c\<lparr> tc_backend := b, tc_heap := tc_heap ?c @ [vacc] \<rparr>)"
    using get_uncached [OF uncached acc(1) v(1)] by blast
  show ?thesis
    using assms(1,2) g v clean callee
    by (simp add: op_suicide_def ebind_def elift_def echange_def eread_def ecall_def etry_def stack_Pop_def
        stack_useGas_def GasStackOp_def charged_account_def useGasNegative_def GasGetAccount_def on_cache_def
        vm_GetAccount_def read_acc_def tc_modify_def tc_UpdateAccount_def tc_RemoveAccount_def tc_obj_def
        nth_append vm_info_def set_vm_info_def Let_def)
qed

theorem suicide_forgets_cached_balance_witness:
  "let m = (evm_start [])\<lparr> m_stack := [1 # replicate 30 0 @ [10]],
              m_cache := evm_cache\<lparr> tc_heap := [evm_object 10 93, evm_object 11 57] \<rparr> \<rparr> in
   \<exists>m' r. op_suicide m = (m', Ok (Return [])) \<and>
     va_account (vm_info (m_cache m') (replicate 31 0 @ [10])) = Some r \<and> vm_Balance (tc_obj (m_cache m') r) = 157"
proof -
  let ?m = "(evm_start [])\<lparr> m_stack := [1 # replicate 30 0 @ [10]],
              m_cache := evm_cache\<lparr> tc_heap := [evm_object 10 93, evm_object 11 57] \<rparr> \<rparr>"
  have "Postfix20 (1 # replicate 30 0 @ [10]) = evm_addr 10" by code_simp
  then have "bc_view (tc_backend (m_cache ?m)) (Postfix20 (1 # replicate 30 0 @ [10])) = Some (evm_account 10 100)"
    by (simp add: evm_cache_def evm_ledger_def view_New State_GetAccount_def evm_addr_def)
  moreover have "LeftPadWord256 (evm_addr 10) = Ok (replicate 31 0 @ [10])" by code_simp
  moreover have "(1 :: byte) # replicate 30 0 @ [10] \<noteq> replicate 31 0 @ [11]"
    "(1 :: byte) # replicate 30 0 @ [10] \<noteq> replicate 31 0 @ [10]" by code_simp+
  ultimately show ?thesis
    using suicide_forgets_cached_balance [of ?m "1 # replicate 30 0 @ [10]" "[]" "evm_account 10 100" "replicate 31 0 @ [10]"]
    by (simp add: evm_start_def start_frame_def evm_cache_def evm_account_def evm_object_def tc_obj_def vm_info_def
        evm_addr_def int64_simps)
qed

section \<open>The permissions contract\<close>

text \<open>
  The permissions contract does something only for a caller that has the permission of the function
  it calls, with arguments of the right size.
\<close>

theorem permissions_contract_guarded:
  assumes "permissionsContract caller args c = (c', Ok out)"
  shows "\<exists>d c1. map_of PermsMap (EncodeToString (take 4 args)) = Some d \<and>
     vm_HasPermission caller (sn_PermFlag d) c = (c1, Ok True) \<and>
     length args = 4 + 32 * sn_NArgs d \<and> run_snative (sn_F d) (drop 4 args) c1 = (c', Ok out)"
  using assms
  by (auto simp: permissionsContract_def Let_def exec_eqs split: option.splits)

text \<open>Asking for the permission to call, of an account with the default permissions.\<close>

definition has_base_args :: bytes where
  "has_base_args = [0xBB, 0x37, 0x73, 0x7A] @ replicate 31 0 @ [10] @ replicate 31 0 @ [4]"

lemma has_base_runs:
  "case permissionsContract 1 has_base_args evm_cache of (c, Ok out) \<Rightarrow> out = bool_word True | _ \<Rightarrow> False"
  by code_simp

theorem permissions_contract_guarded_witness:
  "\<exists>c1. vm_HasPermission 1 Perm_HasBase evm_cache = (c1, Ok True)"
proof -
  obtain c' out where run: "permissionsContract 1 has_base_args evm_cache = (c', Ok out)"
    using has_base_runs by (auto split: prod.splits outcome.splits)
  have "map_of PermsMap (EncodeToString (take 4 has_base_args)) =
    Some \<lparr> sn_Name = ''has_base'', sn_NArgs = 2, sn_PermFlag = Perm_HasBase, sn_F = has_base \<rparr>"
    by code_simp
  with permissions_contract_guarded [OF run] show ?thesis by auto
qed

lemma perm_Get_Set: "perm_Set b ty v = Ok b' \<Longrightarrow> perm_Get b' ty = PermValue v"
proof -
  assume a: "perm_Set b ty v = Ok b'"
  have "(x OR ty) AND ty = ty" "(x AND NOT ty) AND ty = 0" for x
    by (simp_all add: bit_eq_iff bit_simps)
  then show ?thesis
    using a by (auto simp: perm_Set_def perm_Get_def word_gt_0 split: if_splits)
qed

text \<open>
  A base permission that a contract set is the permission the contract reads afterwards, when the
  address it gives is the account's own: \<open>has_base\<close> after \<open>set_base\<close> answers with the value.
\<close>

theorem has_base_after_set_base:
  assumes run: "run_set_base args c = (c', Ok out)"
    and get: "tc_GetAccount (arg256 0 args) c = Ok (Some r, c1)"
    and addr: "vm_Address (tc_obj c1 r) = arg256 0 args" "r < length (tc_heap c1)"
  shows "run_has_base args c' = (c', Ok (bool_word (\<not> word_IsZero (arg256 2 args))))"
proof -
  let ?v = "\<not> word_IsZero (arg256 2 args)"
  obtain permN b c2 where p: "valid_perm (arg256 1 args) = eret permN"
    and b: "perm_Set (Base (vm_Permissions (tc_obj c1 r))) permN ?v = Ok b"
    and c2: "c2 = tc_modify r (\<lambda>a. a\<lparr> vm_Permissions := (vm_Permissions a)\<lparr> Base := b \<rparr> \<rparr>) c1"
    and c': "tc_UpdateAccount r c2 = Ok c'"
    using run get
    by (auto simp: run_set_base_def known_account_def change_base_def exec_eqs vm_GetAccount_def Let_def valid_perm_def
        split: option.splits outcome.splits prod.splits if_splits)
  have obj: "tc_obj c' r = (tc_obj c1 r)\<lparr> vm_Permissions := (vm_Permissions (tc_obj c1 r))\<lparr> Base := b \<rparr> \<rparr>"
    using c' c2 addr(2) by (auto simp: tc_UpdateAccount_def Let_def set_vm_info_def tc_obj_def tc_modify_def split: if_splits)
  have "tc_GetAccount (arg256 0 args) c' = Ok (Some r, c')"
    using c' c2 addr
    by (auto simp: tc_UpdateAccount_def Let_def set_vm_info_def tc_obj_def tc_modify_def tc_GetAccount_def vm_info_def
        split: if_splits)
  moreover have "perm_Get (Base (vm_Permissions (tc_obj c' r))) permN = PermValue ?v"
    using perm_Get_Set [OF b] obj by simp
  ultimately show ?thesis
    using p
    by (simp add: run_has_base_def known_account_def vm_GetAccount_def ebind_def elift_def vm_HasPermission_def eread_def
        fun_eq_iff)
qed

definition set_base_args :: bytes where
  "set_base_args = replicate 31 0 @ [10] @ replicate 31 0 @ [4] @ replicate 32 0"

lemma set_base_runs: "case run_set_base set_base_args evm_cache of (c, Ok out) \<Rightarrow> True | _ \<Rightarrow> False"
  by code_simp

theorem has_base_after_set_base_witness:
  "\<exists>c'. run_has_base set_base_args c' = (c', Ok (bool_word False))"
proof -
  obtain c' out where run: "run_set_base set_base_args evm_cache = (c', Ok out)"
    using set_base_runs by (auto split: prod.splits outcome.splits)
  have a: "arg256 0 set_base_args = replicate 31 0 @ [10]" "word_IsZero (arg256 2 set_base_args)" by code_simp+
  then have "tc_GetAccount (arg256 0 set_base_args) evm_cache = Ok (Some 0, evm_cache)"
    by (simp add: tc_GetAccount_def vm_info_def evm_cache_def)
  from has_base_after_set_base [OF run this] a show ?thesis
    by (intro exI [of _ c']) (simp add: evm_cache_def tc_obj_def evm_object_def)
qed

end
