(* ===== verification/Call_Effects.thy ===== *)
theory Call_Effects
  imports Send_Effects Evm_Runs
begin

text \<open>
  What call and name transactions do to the ledger that a block cache shows. They begin with the same
  checks of a single input. A call runs the contract machine; the laws the transaction needs of the
  machine are the locale \<open>contract_machine\<close>, which the model of the machine satisfies.
\<close>

section \<open>A single input\<close>

lemma preserves_same_view:
  "preserves (same_view c) (HasPermission bc_GetAccount acc perm)"
  by (rule preserves_HasPermission) (metis GetAccount_same_view same_view_trans)

lemma single_permission_rules:
  "preserves (same_view c) (hasNamePermission bc_GetAccount acc)"
  "preserves (same_view c) (hasCallPermission bc_GetAccount acc)"
  "preserves (same_view c) (hasCreateContractPermission bc_GetAccount acc)"
  by (simp_all add: hasNamePermission_def hasCallPermission_def hasCreateContractPermission_def preserves_same_view)

lemma check_single_eq_Ok:
  assumes "check_single X input permission denied tx c = (c1, Ok (inp, inAcc))"
    and perm: "\<And>acc. preserves (same_view c) (permission acc)"
  shows "\<exists>i acc0 sb. input = Some i \<and> in_core inp = in_core i \<and> bc_view c (in_Address i) = Some acc0 \<and>
     keyed (ex_wire X) acc0 inAcc \<and> bc_view c1 = (bc_view c)(in_Address i \<mapsto> inAcc) \<and> name_view c1 = name_view c \<and>
     bc_backend c1 = bc_backend c \<and> SignBytes (ex_wire X) (ChainID (bc_backend c)) (tx inp) = Ok sb \<and>
     signed_input (ex_wire X) sb acc0 inAcc i"
proof -
  from assms(1) obtain i acc0 c0 sb where i: "input = Some i" "bc_view c (in_Address i) = Some acc0"
    and p: "permission acc0 (snd (bc_GetAccount (in_Address i) c)) = (c0, Ok True)"
    and k: "checkInputPubKey (ex_wire X) acc0 i = Ok (inAcc, inp)" "c1 = poke (in_Address inp) inAcc c0"
    and s: "SignBytes (ex_wire X) (ChainID (bc_backend c1)) (tx inp) = Ok sb"
      "validateInput (ex_wire X) inAcc sb inp = Ok ()"
    by (auto simp: check_single_def exec_eqs deref_def cache_getter.ecall_get check_pub_key_def split: option.splits)
  have v: "same_view c c0" using preservesD [OF perm p] GetAccount_same_view by blast
  note key = checkInputPubKey_eq_Ok [OF k(1)]
  have a: "in_Address inp = in_Address i" using in_core_eq(1) [OF key(2)] .
  have "bc_view c1 = (bc_view c)(in_Address i \<mapsto> inAcc)" "name_view c1 = name_view c" "bc_backend c1 = bc_backend c"
    using poke_view [of c0 "in_Address i" inAcc] v i(2) k(2) a by (simp_all add: same_view_def)
  with i key s validateInput_signed [OF s(2) key] show ?thesis by auto
qed

text \<open>Writing a loaded account whose storage root stays: no storage word and no pending write changes.\<close>

definition same_storage :: "BlockCache \<Rightarrow> BlockCache \<Rightarrow> bool" where
  "same_storage c c' \<longleftrightarrow> storage_view c' = storage_view c \<and> pending_write c' = pending_write c"

lemma set_account_same_storage:
  assumes "bc_view c a = Some old" "ai_account (account_info c a) \<noteq> None" "acc_StorageRoot acc = acc_StorageRoot old"
    "ai_account info = Some acc" "ai_storage info = ai_storage (account_info c a)" "\<not> ai_removed info"
  shows "same_storage c (set_account_info a info c)"
proof -
  let ?c = "set_account_info a info c"
  have "bc_view ?c = (bc_view c)(a \<mapsto> acc)"
    using assms by (auto simp: bc_view_def Let_def fun_eq_iff split: option.split)
  moreover have "account_tree ?c b acc' = account_tree c b acc'" for b acc'
    using assms by (auto simp: account_tree_def Let_def split: option.split)
  moreover have "account_tree c a acc = account_tree c a old" unfolding account_tree_def assms(3) ..
  ultimately have "storage_view ?c b k = storage_view c b k" for b k
    using assms(1) by (auto simp: storage_view_def split: option.split)
  then show ?thesis by (simp add: same_storage_def fun_eq_iff pending_write_def)
qed

lemma keyed_root: "keyed W acc acc' \<Longrightarrow> acc_StorageRoot acc' = acc_StorageRoot acc"
  unfolding keyed_def by (elim exE conjE) simp

lemma check_single_same_storage:
  assumes "check_single X (Some i) permission denied tx c = (c1, Ok (inp, inAcc))"
    and perm: "\<And>acc. preserves (same_view (snd (bc_GetAccount (in_Address i) c))) (permission acc)"
  shows "same_storage c c1 \<and> ai_account (account_info c1 (in_Address i)) \<noteq> None"
proof -
  let ?c = "snd (bc_GetAccount (in_Address i) c)"
  from assms(1) obtain acc0 c0 where i: "bc_view c (in_Address i) = Some acc0"
    and p: "permission acc0 ?c = (c0, Ok True)"
    and k: "checkInputPubKey (ex_wire X) acc0 i = Ok (inAcc, inp)" "c1 = poke (in_Address inp) inAcc c0"
    by (auto simp: check_single_def exec_eqs deref_def cache_getter.ecall_get check_pub_key_def split: option.splits)
  have v: "same_view ?c c0" "same_view c ?c" using preservesD [OF perm p] GetAccount_same_view by simp_all
  note key = checkInputPubKey_eq_Ok [OF k(1)]
  have a: "in_Address inp = in_Address i" using in_core_eq(1) [OF key(2)] .
  have "ai_account (account_info ?c (in_Address i)) \<noteq> None"
    using i by (auto simp: bc_GetAccount_def bc_view_def Let_def split: if_splits option.splits)
  then have loaded: "ai_account (account_info c0 (in_Address i)) \<noteq> None" using v(1) by (simp add: same_view_def)
  have view: "bc_view c0 (in_Address i) = Some acc0" using v i by (simp add: same_view_def)
  then have live: "\<not> ai_removed (account_info c0 (in_Address i))" by (auto simp: bc_view_def Let_def split: if_splits)
  have "acc_StorageRoot inAcc = acc_StorageRoot acc0" using key(1) keyed_root by blast
  then have "same_storage c0 c1"
    unfolding k(2) a poke_def by (rule set_account_same_storage [OF view loaded]) (simp_all add: live)
  moreover have "same_storage c c0" using v by (simp add: same_view_def same_storage_def)
  ultimately show ?thesis using k(2) a by (simp add: same_storage_def poke_def)
qed

section \<open>Failed calls\<close>

type_synonym vm_runner = "vm_Params \<Rightarrow> word256 \<Rightarrow> bytes \<Rightarrow> bool \<Rightarrow> acc_ref \<Rightarrow> acc_ref \<Rightarrow> bytes \<Rightarrow> bytes \<Rightarrow>
  int \<Rightarrow> int \<Rightarrow> TxCache \<Rightarrow> TxCache \<times> fired \<times> bytes outcome"

lemma call_setup_keeps:
  assumes "call_setup X tx caller outAcc t = Ok (callee, code, t')"
  shows "same_view (tc_backend t) (tc_backend t')"
proof -
  have create: "same_view (tc_backend t) (tc_backend t1)" if "tc_CreateAccount W caller t = Ok (r, t1)" for W r t1
    using ledger_inv.Q_Create [OF same_view_refl that] .
  have update: "tc_backend t2 = tc_backend t1" if "tc_UpdateAccount r t1 = Ok t2" for r t1 t2
    using that by (auto simp: tc_UpdateAccount_def set_vm_info_def Let_def split: if_splits)
  show ?thesis
    using assms
    by (auto simp: call_setup_def obind_eq_Ok tc_new_def dest!: update create split: if_splits)
qed

locale contract_machine =
  fixes run :: vm_runner
  assumes run_keeps: "run params origin txid evc caller callee code input v gas t = (t', evs, r) \<Longrightarrow>
    same_view (tc_backend t) (tc_backend t')"
begin

lemma failed_run_keeps:
  assumes "run_call X evc tx val inAcc outAcc c = (c', Ok (evs, ret, exception))" "vm_Run X = run" "exception \<noteq> []"
  shows "same_view c c'"
proof -
  have started: "same_view c (tc_backend t')"
    if "call_setup X tx r outAcc (c1\<lparr> tc_heap := h \<rparr>) = Ok (callee, code, t)" "c1 = NewTxCache c"
      "run params origin txid evc r callee code (call_Data tx) val (call_GasLimit tx) t = (t', evs', res)"
    for r c1 h callee code t params origin txid t' evs' res
    using call_setup_keeps [OF that(1)] run_keeps [OF that(3)] that(2)
    by (auto simp: NewTxCache_def intro: same_view_trans)
  show ?thesis
    using assms
    by (auto simp: run_call_def tc_new_def obind_eq_Ok Let_def intro: started
        split: outcome.splits prod.splits if_splits)
qed

end

text \<open>The machine of the node, given \<open>n\<close> units of fuel.\<close>

definition evm_Run :: "nat \<Rightarrow> wire_env \<Rightarrow> hash_env \<Rightarrow> vm_runner" where
  "evm_Run n W H params origin txid evc caller callee code input v gas t =
     (case evm_Call n \<lparr> ve_wire = W, ve_hash = H, ve_params = params, ve_origin = origin, ve_txid = txid, ve_evc = evc \<rparr>
             caller callee code input v gas t of
        Some (m, r) \<Rightarrow> (m_cache m, m_events m, r)
      | None \<Rightarrow> (t, [], Panic ''the machine did not stop''))"

interpretation node_machine: contract_machine "evm_Run n W H" for n W H
proof unfold_locales
  fix params origin txid evc caller callee code input v gas t t' evs r
  assume run: "evm_Run n W H params origin txid evc caller callee code input v gas t = (t', evs, r)"
  have "machine_ok (tc_backend t) m" if "evm_Call n V caller callee code input v gas t = Some (m, r')" for V m r'
    using that unfolding evm_Call_def
    by (rule ledger_inv.P_Call [OF ledger_inv.P_loop, rotated -1]) (simp_all add: machine_ok_def)
  with run show "same_view (tc_backend t) (tc_backend t')"
    by (auto simp: evm_Run_def machine_ok_def split: option.splits prod.splits)
qed

lemma same_view_fields:
  "same_view b b' \<Longrightarrow> bc_view b' = bc_view b" "same_view b b' \<Longrightarrow> name_view b' = name_view b"
  "same_view b b' \<Longrightarrow> bc_backend b' = bc_backend b"
  by (simp_all add: same_view_def)

lemma updated_storage:
  assumes "bc_view c (acc_Address acc) = Some old" "ai_account (account_info c (acc_Address acc)) \<noteq> None"
    "acc_StorageRoot acc = acc_StorageRoot old" "bc_UpdateAccount acc c = Ok c'"
  shows "same_storage c c'"
  using assms(4) set_account_same_storage [OF assms(1-3)] by (auto simp: bc_UpdateAccount_def Let_def split: if_splits)

lemma updated_view:
  assumes "bc_view c (acc_Address acc) \<noteq> None" "bc_UpdateAccount acc c = Ok c'"
  shows "bc_view c' = (bc_view c)(acc_Address acc \<mapsto> acc)" "name_view c' = name_view c" "bc_backend c' = bc_backend c"
proof -
  have "\<not> ai_removed (account_info c (acc_Address acc))"
    using assms(1) by (auto simp: bc_view_def Let_def split: if_splits)
  then show "bc_view c' = (bc_view c)(acc_Address acc \<mapsto> acc)" "name_view c' = name_view c" "bc_backend c' = bc_backend c"
    using UpdateAccount_view [of c acc] assms(2) by auto
qed

lemma checked_call_failed:
  assumes run: "exec_checked_call X True True tx inp inAcc c = (c', Ok (tx', evs))"
    and "vm_Run X = evm_Run n (ex_wire X) H" "bc_view c (acc_Address inAcc) = Some inAcc"
    and loaded: "ai_account (account_info c (acc_Address inAcc)) \<noteq> None"
    and "evs \<noteq> []" "last evs = (ident, EvTx ev)" "edt_Exception ev \<noteq> []"
  shows "bc_view c' = (bc_view c)(acc_Address inAcc \<mapsto> inAcc\<lparr> acc_Sequence := wrap64 (acc_Sequence inAcc + 1),
      acc_Balance := wrap64 (acc_Balance inAcc - call_Fee tx) \<rparr>) \<and> name_view c' = name_view c \<and> same_storage c c' \<and>
      bc_backend c' = bc_backend c"
proof -
  let ?acc = "inAcc\<lparr> acc_Sequence := wrap64 (acc_Sequence inAcc + 1),
      acc_Balance := wrap64 (acc_Balance inAcc - call_Fee tx) \<rparr>"
  obtain c2 c3 outAcc amount oa evs1 ret exception
    where out: "(if call_Address tx = [] then eret None else ecall (bc_GetAccount (call_Address tx))) c = (c2, Ok outAcc)"
      and upd: "bc_UpdateAccount ?acc c2 = Ok c3"
      and call: "run_call X True tx amount ?acc oa c3 = (c', Ok (evs1, ret, exception))"
      and ev: "evs = evs1 @ [(EventStringAccInput (in_Address inp), EvTx \<lparr> edt_Tx = TxCall tx, edt_Return = ret, edt_Exception = exception \<rparr>),
        (EventStringAccOutput (call_Address tx), EvTx \<lparr> edt_Tx = TxCall tx, edt_Return = ret, edt_Exception = exception \<rparr>)]"
    using run unfolding exec_checked_call_def Let_def fire_def if_True exec_eqs
    by (elim exE conjE) (simp split: prod.splits, blast)
  have c2: "same_view c c2"
    using out GetAccount_same_view [of c "call_Address tx"] by (auto split: if_splits)
  have view2: "bc_view c2 (acc_Address ?acc) = Some inAcc" using assms(3) c2 by (simp add: same_view_fields)
  have "ai_account (account_info c2 (acc_Address ?acc)) \<noteq> None" using loaded c2 by (simp add: same_view_def)
  then have st3: "same_storage c2 c3" using upd by (intro updated_storage [OF view2]) simp_all
  have "bc_view c2 (acc_Address ?acc) \<noteq> None" using view2 by simp
  note c3 = updated_view [OF this upd]
  have "same_view c3 c'"
    using node_machine.failed_run_keeps [OF call assms(2)] assms(5-7) ev by auto
  moreover have "same_storage c c'"
    using c2 st3 calculation by (simp add: same_view_def same_storage_def)
  ultimately show ?thesis using c2 c3 by (simp add: same_view_fields)
qed


definition call_exec :: "nat \<Rightarrow> exec_env" where
  "call_exec n = sample_exec\<lparr> vm_Run := evm_Run n sample_keys (ve_hash evm_env) \<rparr>"

definition call_ledger :: "bytes \<Rightarrow> BlockCache" where
  "call_ledger code =
     NewBlockCache (sample_validators\<lparr> LastBlockHash := [], st_accounts :=
       [(addr20 1, rich_account 1 10), (addr20 2, (rich_account 2 10)\<lparr> acc_Code := code \<rparr>)] \<rparr>)"

definition sample_call :: CallTx where
  "sample_call = \<lparr> call_Input = Some (sample_input 1 5), call_Address = addr20 2, call_GasLimit = 10, call_Fee = 1,
     call_Data = [] \<rparr>"

definition exception_of :: "EventData \<Rightarrow> string" where
  "exception_of e = (case e of EvTx ev \<Rightarrow> edt_Exception ev | _ \<Rightarrow> [])"

lemma failing_call_runs:
  "case exec_CallTx (call_exec 1) True True sample_call (call_ledger [0xFE]) of
     (c, Ok r) \<Rightarrow> snd r \<noteq> [] \<and> exception_of (snd (last (snd r))) \<noteq> [] | _ \<Rightarrow> False"
  by code_simp


section \<open>Names\<close>

lemma write_entry_eq_Ok:
  assumes "write_entry old new c = Ok c'" "name_view c name = old" "\<And>e. old = Some e \<Longrightarrow> nre_Name e = name"
    "\<And>e. new = Some e \<Longrightarrow> nre_Name e = name"
  shows "bc_view c' = bc_view c \<and> name_view c' = (name_view c)(name := new) \<and> bc_backend c' = bc_backend c"
proof (cases new)
  case (Some e)
  then show ?thesis using assms(1,4) UpdateNameRegEntry_view [of e c] by (auto simp: write_entry_def)
next
  case None
  then obtain e where "old = Some e" "bc_RemoveNameRegEntry (nre_Name e) c = Ok c'"
    using assms(1) by (auto simp: write_entry_def obind_eq_Ok deref_def split: option.splits)
  then show ?thesis using None RemoveNameRegEntry_view [of "nre_Name e" c c'] assms(3) by auto
qed

lemma next_entry_name:
  assumes "next_entry tx owner amount h old = Ok (Some e)" "\<And>e. old = Some e \<Longrightarrow> nre_Name e = name_Name tx"
  shows "nre_Name e = name_Name tx"
  using assms by (auto simp: next_entry_def Let_def split: option.splits if_splits)

lemma next_entry_owner:
  assumes "next_entry tx owner amount h (Some old) = Ok new" "nre_Expires old > h"
  shows "nre_Owner old = owner"
  using assms by (auto simp: next_entry_def Let_def split: if_splits)

text \<open>Entries are stored under their names.\<close>

definition names_ok :: "BlockCache \<Rightarrow> bool" where
  "names_ok c \<longleftrightarrow> (\<forall>name e. name_view c name = Some e \<longrightarrow> nre_Name e = name)"

lemma exec_NameTx_eq_Ok:
  assumes "view_ok c" "names_ok c" and run: "exec_NameTx X evc tx c = (c', Ok r)"
  shows "\<exists>i acc0 acc sb tx' new. name_Input tx = Some i \<and> bc_view c (in_Address i) = Some acc0 \<and>
     signed_input (ex_wire X) sb acc0 acc i \<and> SignBytes (ex_wire X) (ChainID (bc_backend c)) (TxName tx') = Ok sb \<and>
     next_entry tx' (in_Address i) (wrap64 (in_Amount i - name_Fee tx)) (LastBlockHeight (bc_backend c))
       (name_view c (name_Name tx)) = Ok new \<and> name_Name tx' = name_Name tx \<and>
     name_view c' = (name_view c)(name_Name tx := new) \<and>
     bc_view c' = (bc_view c)(in_Address i \<mapsto> debit (wrap64 (in_Amount i - name_Fee tx)) acc)"
proof -
  obtain c1 inp inAcc c3 new
    where chk: "check_single X (name_Input tx) (hasNamePermission bc_GetAccount)
        (\<lambda>a. ''Account '' @ fmt_X a @ '' does not have Name permission'')
        (\<lambda>inp. TxName (tx\<lparr> name_Input := Some inp \<rparr>)) c = (c1, Ok (inp, inAcc))"
      and nxt: "next_entry (tx\<lparr> name_Input := Some inp \<rparr>) (in_Address inp) (wrap64 (in_Amount inp - name_Fee tx))
        (LastBlockHeight (bc_backend c1)) (name_view c1 (name_Name tx)) = Ok new"
      and wr: "write_entry (name_view c1 (name_Name tx)) new (snd (bc_GetNameRegEntry (name_Name tx) c1)) = Ok c3"
      and upd: "bc_UpdateAccount (debit (wrap64 (in_Amount inp - name_Fee tx)) inAcc) c3 = Ok c'"
    using run by (auto simp: exec_NameTx_def exec_eqs Let_def) (metis GetNameRegEntry_view fst_conv snd_conv)
  obtain i acc0 sb where i: "name_Input tx = Some i" "in_core inp = in_core i" "bc_view c (in_Address i) = Some acc0"
    "keyed (ex_wire X) acc0 inAcc" "bc_view c1 = (bc_view c)(in_Address i \<mapsto> inAcc)" "name_view c1 = name_view c"
    "bc_backend c1 = bc_backend c"
    "SignBytes (ex_wire X) (ChainID (bc_backend c)) (TxName (tx\<lparr> name_Input := Some inp \<rparr>)) = Ok sb"
    "signed_input (ex_wire X) sb acc0 inAcc i"
    using check_single_eq_Ok [OF chk single_permission_rules(1)] by blast
  have core: "in_Address inp = in_Address i" "in_Amount inp = in_Amount i" using in_core_eq [OF i(2)] by simp_all
  have named: "nre_Name e = name_Name tx" if "name_view c1 (name_Name tx) = Some e" for e
    using that assms(2) i(6) by (simp add: names_ok_def)
  have named': "nre_Name e = name_Name tx" if "new = Some e" for e
    using next_entry_name [of "tx\<lparr> name_Input := Some inp \<rparr>"] nxt that named by auto
  have w: "bc_view c3 = bc_view c1" "name_view c3 = (name_view c1)(name_Name tx := new)" "bc_backend c3 = bc_backend c1"
    using write_entry_eq_Ok [OF wr _ named named'] by simp_all
  have addr: "acc_Address inAcc = in_Address i" using i(3,4) assms(1) by (simp add: view_ok_def)
  then have "bc_view c3 (acc_Address (debit (wrap64 (in_Amount inp - name_Fee tx)) inAcc)) \<noteq> None"
    using w(1) i(5) by (simp add: debit_def)
  note u = updated_view [OF this upd]
  have a: "acc_Address (debit v inAcc) = in_Address i" for v using addr by (simp add: debit_def)
  show ?thesis
    by (rule exI [of _ i], rule exI [of _ acc0], rule exI [of _ inAcc], rule exI [of _ sb],
        rule exI [of _ "tx\<lparr> name_Input := Some inp \<rparr>"], rule exI [of _ new])
      (use i core nxt u w a in \<open>simp add: fun_upd_twist\<close>)
qed

text \<open>
  C33: A name that has not expired is changed or removed only by its owner: when a name transaction
  succeeds and the entry of such a name is not what it was, the transaction names it, its input is the
  owner's address, and the owner's key signed it.
\<close>

theorem name_changed_only_by_owner:
  assumes "view_ok c" "names_ok c" "exec_NameTx X evc tx c = (c', Ok r)"
    "name_view c name = Some e" "nre_Expires e > LastBlockHeight (bc_backend c)" "name_view c' name \<noteq> Some e"
  shows "name = name_Name tx \<and> (\<exists>i acc0 acc sb. name_Input tx = Some i \<and> in_Address i = nre_Owner e \<and>
     bc_view c (nre_Owner e) = Some acc0 \<and> signed_input (ex_wire X) sb acc0 acc i)"
proof -
  obtain i acc0 acc sb tx' new where i: "name_Input tx = Some i" "bc_view c (in_Address i) = Some acc0"
    "signed_input (ex_wire X) sb acc0 acc i"
    "next_entry tx' (in_Address i) (wrap64 (in_Amount i - name_Fee tx)) (LastBlockHeight (bc_backend c))
       (name_view c (name_Name tx)) = Ok new"
    "name_view c' = (name_view c)(name_Name tx := new)"
    using exec_NameTx_eq_Ok [OF assms(1-3)] by blast
  have n: "name = name_Name tx" using assms(4,6) i(5) by (auto split: if_splits)
  have "nre_Owner e = in_Address i"
    using next_entry_owner [of tx' "in_Address i"] i(4) assms(4,5) n by auto
  with i n show ?thesis by auto
qed

definition sample_entry :: NameRegEntry where
  "sample_entry = \<lparr> nre_Name = ''n'', nre_Owner = addr20 1, nre_Data = ''d'', nre_Expires = 100 \<rparr>"

definition name_ledger :: BlockCache where
  "name_ledger =
     NewBlockCache (sample_validators\<lparr> st_accounts := [(addr20 1, rich_account 1 10)], st_nameReg := [(''n'', sample_entry)] \<rparr>)"

definition sample_name_tx :: NameTx where
  "sample_name_tx = \<lparr> name_Input = Some (sample_input 1 1), name_Name = ''n'', name_Data = [], name_Fee = 1 \<rparr>"

lemma removing_name_runs:
  "case exec_NameTx sample_exec False sample_name_tx name_ledger of (c, Ok r) \<Rightarrow> name_view c ''n'' = None | _ \<Rightarrow> False"
  by code_simp

theorem name_changed_only_by_owner_witness:
  "\<exists>c' r. exec_NameTx sample_exec False sample_name_tx name_ledger = (c', Ok r) \<and> name_view c' ''n'' = None \<and>
     (\<exists>i acc0 acc sb. name_Input sample_name_tx = Some i \<and> in_Address i = addr20 1 \<and>
        signed_input sample_keys sb acc0 acc i)"
proof -
  obtain c' r where run: "exec_NameTx sample_exec False sample_name_tx name_ledger = (c', Ok r)" "name_view c' ''n'' = None"
    using removing_name_runs by (auto split: prod.split_asm outcome.split_asm)
  have view: "bc_view name_ledger = [addr20 1 \<mapsto> rich_account 1 10]" "name_view name_ledger = [''n'' \<mapsto> sample_entry]"
    "bc_backend name_ledger = sample_validators\<lparr> st_accounts := [(addr20 1, rich_account 1 10)], st_nameReg := [(''n'', sample_entry)] \<rparr>"
    by (simp_all add: name_ledger_def view_New State_GetAccount_def [abs_def] State_GetNameRegEntry_def [abs_def] fun_eq_iff)
      (simp add: NewBlockCache_def)
  have ok: "view_ok name_ledger" "names_ok name_ledger"
    by (auto simp: view_ok_def names_ok_def view rich_account_def sample_entry_def split: if_splits)
  have "\<exists>i acc0 acc sb. name_Input sample_name_tx = Some i \<and> in_Address i = nre_Owner sample_entry \<and>
      bc_view name_ledger (nre_Owner sample_entry) = Some acc0 \<and> signed_input (ex_wire sample_exec) sb acc0 acc i"
    using name_changed_only_by_owner [OF ok run(1), of "''n''" sample_entry] run(2)
    by (simp add: view sample_entry_def sample_validators_def)
  with run show ?thesis by (auto simp: sample_entry_def sample_exec_def)
qed

end
