(* ===== verification/Mempool.thy ===== *)
theory Mempool
  imports Send_Effects
begin

text \<open>
  The mempool (the vendored \<open>mempool/mempool.go\<close>): a block cache over the last state, on which new
  transactions are tried without running code, and the transactions that were accepted. After a block
  the cache starts afresh and the transactions that are still valid stay.
\<close>

section \<open>Data\<close>

text \<open>\<open>mem.state\<close> is the state behind the cache.\<close>

record Mempool =
  mem_cache :: BlockCache
  mem_txs :: "Tx list"

definition NewMempool :: "State \<Rightarrow> Mempool" where
  "NewMempool st = \<lparr> mem_cache = NewBlockCache st, mem_txs = [] \<rparr>"

definition mem_GetHeight :: "Mempool \<Rightarrow> int" where
  "mem_GetHeight mem = LastBlockHeight (bc_backend (mem_cache mem))"

definition AddTx :: "exec_env \<Rightarrow> Tx \<Rightarrow> Mempool \<Rightarrow> Mempool \<times> unit outcome" where
  "AddTx X tx mem =
     (case ExecTx X False False tx (mem_cache mem) of
        (cache, Err e) \<Rightarrow> (mem\<lparr> mem_cache := cache \<rparr>, Err e)
      | (cache, Panic e) \<Rightarrow> (mem\<lparr> mem_cache := cache \<rparr>, Panic e)
      | (cache, Ok (tx', _)) \<Rightarrow> (mem\<lparr> mem_cache := cache, mem_txs := mem_txs mem @ [tx'] \<rparr>, Ok ()))"

definition GetProposalTxs :: "Mempool \<Rightarrow> Tx list" where
  "GetProposalTxs mem = mem_txs mem"

section \<open>After a block\<close>

record Range =
  Start :: int
  Length :: int

record ResetInfo =
  ri_Height :: int
  Included :: "Range list"
  Invalid :: "Range list"

definition startRange :: "int \<Rightarrow> int \<Rightarrow> int" where
  "startRange start i = (if start < 0 then i else start)"

definition endRange :: "int \<Rightarrow> int \<Rightarrow> Range list \<Rightarrow> int \<times> Range list" where
  "endRange start i ranger =
     (if 0 \<le> start then (- 1, ranger @ [\<lparr> Start = start, Length = i - start \<rparr>]) else (start, ranger))"

record reset_loop =
  rl_cache :: BlockCache
  rl_valid :: "Tx list"
  rl_included :: "int \<times> Range list"
  rl_invalid :: "int \<times> Range list"

definition reset_step :: "exec_env \<Rightarrow> string \<Rightarrow> bytes list \<Rightarrow> int \<Rightarrow> Tx \<Rightarrow> reset_loop \<Rightarrow> reset_loop outcome" where
  "reset_step X chainID blockTxs i tx l =
     obind (TxID (ex_wire X) chainID tx) (\<lambda>txID.
     if txID \<in> set blockTxs then
       Ok (l\<lparr> rl_included := (startRange (fst (rl_included l)) i, snd (rl_included l)),
              rl_invalid := endRange (fst (rl_invalid l)) i (snd (rl_invalid l)) \<rparr>)
     else
       (let l = l\<lparr> rl_included := endRange (fst (rl_included l)) i (snd (rl_included l)) \<rparr> in
        case ExecTx X False False tx (rl_cache l) of
          (cache, Panic e) \<Rightarrow> Panic e
        | (cache, Err e) \<Rightarrow>
            Ok (l\<lparr> rl_cache := cache, rl_invalid := (startRange (fst (rl_invalid l)) i, snd (rl_invalid l)) \<rparr>)
        | (cache, Ok (tx', _)) \<Rightarrow>
            Ok (l\<lparr> rl_cache := cache, rl_valid := rl_valid l @ [tx'],
                   rl_invalid := endRange (fst (rl_invalid l)) i (snd (rl_invalid l)) \<rparr>)))"

fun reset_loop_from :: "exec_env \<Rightarrow> string \<Rightarrow> bytes list \<Rightarrow> int \<Rightarrow> Tx list \<Rightarrow> reset_loop \<Rightarrow> reset_loop outcome" where
  "reset_loop_from X chainID blockTxs i [] l = Ok l"
| "reset_loop_from X chainID blockTxs i (tx # txs) l =
     obind (reset_step X chainID blockTxs i tx l) (reset_loop_from X chainID blockTxs (i + 1) txs)"

text \<open>The height and the transactions of the block, and the state after it.\<close>

definition ResetForBlockAndState ::
  "exec_env \<Rightarrow> int \<Rightarrow> Tx list \<Rightarrow> State \<Rightarrow> Mempool \<Rightarrow> (Mempool \<times> ResetInfo) outcome" where
  "ResetForBlockAndState X height blockTxs st mem =
     obind (sequence_outcome (map (TxID (ex_wire X) (ChainID st)) blockTxs)) (\<lambda>ids.
     obind (reset_loop_from X (ChainID st) ids 0 (mem_txs mem)
              \<lparr> rl_cache = NewBlockCache st, rl_valid = [], rl_included = (- 1, []), rl_invalid = (- 1, []) \<rparr>) (\<lambda>l.
     let last = int (length (mem_txs mem)) - 1 in
     Ok (\<lparr> mem_cache = rl_cache l, mem_txs = rl_valid l \<rparr>,
         \<lparr> ri_Height = height,
           Included = snd (endRange (fst (rl_included l)) last (snd (rl_included l))),
           Invalid = snd (endRange (fst (rl_invalid l)) last (snd (rl_invalid l))) \<rparr>)))"

section \<open>Facts\<close>

lemma AddTx_txs:
  "AddTx X tx mem = (mem', r) \<Longrightarrow>
     (case r of Ok _ \<Rightarrow> \<exists>tx' evs. ExecTx X False False tx (mem_cache mem) = (mem_cache mem', Ok (tx', evs)) \<and>
                            mem_txs mem' = mem_txs mem @ [tx']
              | _ \<Rightarrow> mem_txs mem' = mem_txs mem)"
  by (auto simp: AddTx_def split: prod.splits outcome.splits)

text \<open>What stays, without the bookkeeping of ranges.\<close>

fun still_valid :: "exec_env \<Rightarrow> string \<Rightarrow> bytes list \<Rightarrow> BlockCache \<Rightarrow> Tx list \<Rightarrow> BlockCache \<times> Tx list" where
  "still_valid X chainID ids c [] = (c, [])"
| "still_valid X chainID ids c (tx # txs) =
     (if \<exists>id\<in>set ids. TxID (ex_wire X) chainID tx = Ok id then still_valid X chainID ids c txs
      else case ExecTx X False False tx c of
        (c', Ok (tx', _)) \<Rightarrow> map_prod id ((#) tx') (still_valid X chainID ids c' txs)
      | (c', _) \<Rightarrow> still_valid X chainID ids c' txs)"

lemma reset_loop_valid:
  "reset_loop_from X chainID ids i txs l = Ok l' \<Longrightarrow>
     (rl_cache l', rl_valid l') = map_prod id ((@) (rl_valid l)) (still_valid X chainID ids (rl_cache l) txs)"
proof (induction txs arbitrary: i l)
  case (Cons tx txs)
  then obtain l1 where l1: "reset_step X chainID ids i tx l = Ok l1" "reset_loop_from X chainID ids (i + 1) txs l1 = Ok l'"
    by (auto simp: obind_eq_Ok)
  then obtain id where id: "TxID (ex_wire X) chainID tx = Ok id" by (auto simp: reset_step_def obind_eq_Ok)
  show ?case
  proof (cases "id \<in> set ids")
    case True
    then show ?thesis using id l1(1) Cons.IH [OF l1(2)] by (auto simp: reset_step_def)
  next
    case False
    then show ?thesis
      using id l1(1) Cons.IH [OF l1(2)]
      by (cases "still_valid X chainID ids (rl_cache l1) txs")
         (auto simp: reset_step_def Let_def split: prod.splits outcome.splits)
  qed
qed simp

text \<open>
  C19: After a block the mempool holds, in their order, exactly the transactions that are not in the
  block and that the new state accepts when they are executed one after the other, and its cache is
  the one they leave.
\<close>

theorem Reset_keeps_still_valid:
  assumes "ResetForBlockAndState X height blockTxs st mem = Ok (mem', ri)"
    "sequence_outcome (map (TxID (ex_wire X) (ChainID st)) blockTxs) = Ok ids"
  shows "(mem_cache mem', mem_txs mem') = still_valid X (ChainID st) ids (NewBlockCache st) (mem_txs mem)"
proof -
  obtain l where l: "reset_loop_from X (ChainID st) ids 0 (mem_txs mem)
      \<lparr> rl_cache = NewBlockCache st, rl_valid = [], rl_included = (- 1, []), rl_invalid = (- 1, []) \<rparr> = Ok l"
    "mem' = \<lparr> mem_cache = rl_cache l, mem_txs = rl_valid l \<rparr>"
    using assms by (auto simp: ResetForBlockAndState_def obind_eq_Ok Let_def)
  from reset_loop_valid [OF l(1)] show ?thesis
    using l(2) by (cases "still_valid X (ChainID st) ids (NewBlockCache st) (mem_txs mem)") simp
qed

definition sample_mempool :: Mempool where
  "sample_mempool = \<lparr> mem_cache = sample_ledger, mem_txs = [TxSend (sample_send 9 4 3), TxSend (sample_send 9 4 3)] \<rparr>"

theorem Reset_keeps_still_valid_witness:
  "\<exists>mem' ri. ResetForBlockAndState sample_exec 1 [] (bc_backend sample_ledger) sample_mempool = Ok (mem', ri) \<and>
     length (mem_txs mem') = 1 \<and>
     (mem_cache mem', mem_txs mem') =
       still_valid sample_exec (ChainID (bc_backend sample_ledger)) [] (NewBlockCache (bc_backend sample_ledger))
         (mem_txs sample_mempool)"
proof -
  have "case ResetForBlockAndState sample_exec 1 [] (bc_backend sample_ledger) sample_mempool of
      Ok (mem', ri) \<Rightarrow> length (mem_txs mem') = 1 | _ \<Rightarrow> False"
    by code_simp
  then obtain mem' ri where r: "ResetForBlockAndState sample_exec 1 [] (bc_backend sample_ledger) sample_mempool = Ok (mem', ri)"
    "length (mem_txs mem') = 1"
    by (auto split: outcome.splits prod.splits)
  then show ?thesis using Reset_keeps_still_valid [OF r(1), of "[]"] by simp
qed

text \<open>
  The ranges reported to the peers are one short at the end: when the whole mempool is in the
  block, the reported range leaves out the last transaction.
\<close>

theorem Reset_range_misses_last:
  assumes "list_all (\<lambda>tx. \<exists>id\<in>set ids. TxID (ex_wire X) (ChainID st) tx = Ok id) (mem_txs mem)"
    "sequence_outcome (map (TxID (ex_wire X) (ChainID st)) blockTxs) = Ok ids" "mem_txs mem \<noteq> []"
  shows "ResetForBlockAndState X height blockTxs st mem =
     Ok (NewMempool st, \<lparr> ri_Height = height, Included = [\<lparr> Start = 0, Length = int (length (mem_txs mem)) - 1 \<rparr>],
                          Invalid = [] \<rparr>)"
proof -
  have loop: "list_all (\<lambda>tx. \<exists>id\<in>set ids. TxID (ex_wire X) (ChainID st) tx = Ok id) txs \<Longrightarrow> 0 \<le> i \<Longrightarrow> 0 \<le> s \<Longrightarrow>
      reset_loop_from X (ChainID st) ids i txs
        \<lparr> rl_cache = c, rl_valid = [], rl_included = (s, []), rl_invalid = (- 1, []) \<rparr> =
      Ok \<lparr> rl_cache = c, rl_valid = [], rl_included = (s, []), rl_invalid = (- 1, []) \<rparr>" for txs i s c
    by (induction txs arbitrary: i) (auto simp: reset_step_def startRange_def endRange_def obind_eq_Ok)
  obtain tx txs where txs: "mem_txs mem = tx # txs" using assms(3) by (cases "mem_txs mem") auto
  show ?thesis
    using assms(1,2) loop [of txs 1 0 "NewBlockCache st"]
    by (auto simp: ResetForBlockAndState_def txs reset_step_def startRange_def endRange_def NewMempool_def Let_def)
qed

theorem Reset_range_misses_last_witness:
  "\<exists>ri. ResetForBlockAndState sample_exec 1 [TxSend (sample_send 9 4 3)] (bc_backend sample_ledger) sample_mempool =
     Ok (NewMempool (bc_backend sample_ledger), ri) \<and> Included ri = [\<lparr> Start = 0, Length = 1 \<rparr>]"
proof -
  obtain id where id: "TxID (ex_wire sample_exec) (ChainID (bc_backend sample_ledger)) (TxSend (sample_send 9 4 3)) = Ok id"
    by (auto simp: TxID_def SendTx_WriteSignBytes_def write_list_def sample_send_def deref_def)
  then show ?thesis
    using Reset_range_misses_last [of "[id]" sample_exec "bc_backend sample_ledger" sample_mempool "[TxSend (sample_send 9 4 3)]" 1]
    by (simp add: sample_mempool_def)
qed

text \<open>A transaction that punishes a validator has no sign bytes: the next reset after its block panics.\<close>

lemma Reset_dupeout_panics:
  "\<exists>e. ResetForBlockAndState X height [TxDupeout tx] st mem = Panic e"
  by (simp add: ResetForBlockAndState_def TxID_def)

end
