(* ===== verification/Wire.thy ===== *)
theory Wire
  imports Word256
begin

text \<open>
  The binary encoding of the vendored \<open>wire\<close> package (\<open>int.go\<close>, \<open>byteslice.go\<close>, \<open>string.go\<close>,
  \<open>time.go\<close>, \<open>codec.go\<close>). A writer is modelled by the bytes it appends: the code writes into byte
  buffers and hash states, whose \<open>Write\<close> never fails. A reader passes on the state that the code
  keeps in its three arguments: the input that is left, the counter \<open>n\<close> and the first error.
\<close>

section \<open>Writers\<close>

text \<open>The lowest \<open>k\<close> bytes of a number, the highest first.\<close>

primrec be_bytes :: "nat \<Rightarrow> int \<Rightarrow> bytes" where
  "be_bytes 0 x = []"
| "be_bytes (Suc k) x = be_bytes k (x div 256) @ [word_of_int x]"

definition WriteByte :: "byte \<Rightarrow> bytes" where
  "WriteByte b = [b]"

definition WriteInt8 :: "int \<Rightarrow> bytes" where
  "WriteInt8 i = WriteByte (word_of_int i)"

definition WriteInt16 :: "int \<Rightarrow> bytes" where
  "WriteInt16 i = be_bytes 2 i"

definition WriteInt32 :: "int \<Rightarrow> bytes" where
  "WriteInt32 i = be_bytes 4 i"

definition WriteInt64 :: "int \<Rightarrow> bytes" where
  "WriteInt64 i = be_bytes 8 i"

definition uvarintSize :: "int \<Rightarrow> nat" where
  "uvarintSize i =
     (if i = 0 then 0
      else if i < 2 ^ 8 then 1
      else if i < 2 ^ 16 then 2
      else if i < 2 ^ 24 then 3
      else if i < 2 ^ 32 then 4
      else if i < 2 ^ 40 then 5
      else if i < 2 ^ 48 then 6
      else if i < 2 ^ 56 then 7
      else 8)"

definition to_uint64 :: "int \<Rightarrow> int" where
  "to_uint64 i = i mod 2 ^ 64"

definition WriteVarint :: "int \<Rightarrow> bytes" where
  "WriteVarint i =
     (let negate = i < 0;
          a = to_uint64 (if negate then wrap64 (- i) else i);
          sz = uvarintSize a
      in WriteByte (word_of_int (if negate then int sz + 0xF0 else int sz)) @
         (if sz > 0 then drop (8 - sz) (be_bytes 8 a) else []))"

definition WriteUvarint :: "int \<Rightarrow> bytes" where
  "WriteUvarint i =
     (let sz = uvarintSize (to_uint64 i)
      in WriteByte (word_of_int (int sz)) @ (if sz > 0 then drop (8 - sz) (be_bytes 8 i) else []))"

definition WriteByteSlice :: "bytes \<Rightarrow> bytes" where
  "WriteByteSlice bz = WriteVarint (int (length bz)) @ bz"

definition WriteByteSlices :: "bytes list \<Rightarrow> bytes" where
  "WriteByteSlices bzz = WriteVarint (int (length bzz)) @ concat (map WriteByteSlice bzz)"

text \<open>Division of \<open>int64\<close> in Go rounds towards zero.\<close>

definition go_div :: "int \<Rightarrow> int \<Rightarrow> int" where
  "go_div a b = sgn a * sgn b * (\<bar>a\<bar> div \<bar>b\<bar>)"

definition go_rem :: "int \<Rightarrow> int \<Rightarrow> int" where
  "go_rem a b = a - go_div a b * b"

definition WriteTime :: "int \<Rightarrow> bytes" where
  "WriteTime nanosecs = WriteInt64 (go_div nanosecs 1000000 * 1000000)"

section \<open>Readers\<close>

record reader =
  r_in :: bytes
  r_n :: int
  r_err :: "string option"

definition reader_of :: "bytes \<Rightarrow> reader" where
  "reader_of bs = \<lparr> r_in = bs, r_n = 0, r_err = None \<rparr>"

definition setFirstErr :: "string \<Rightarrow> reader \<Rightarrow> reader" where
  "setFirstErr e r = (if r_err r = None then r\<lparr> r_err := Some e \<rparr> else r)"

text \<open>
  \<open>io.ReadFull\<close> fills a buffer of \<open>k\<close> zero bytes: what is missing at the end of the input stays zero,
  and the error tells whether anything was read.
\<close>

definition ReadFull :: "nat \<Rightarrow> reader \<Rightarrow> bytes \<times> reader" where
  "ReadFull k r =
     (if r_err r \<noteq> None then (replicate k 0, r)
      else if k \<le> length (r_in r) then
        (take k (r_in r), r\<lparr> r_in := drop k (r_in r), r_n := wrap64 (r_n r + int k) \<rparr>)
      else
        (r_in r @ replicate (k - length (r_in r)) 0,
         r\<lparr> r_in := [], r_n := wrap64 (r_n r + int (length (r_in r))),
            r_err := Some (if r_in r = [] then ''EOF'' else ''unexpected EOF'') \<rparr>))"

definition ReadByte :: "reader \<Rightarrow> byte \<times> reader" where
  "ReadByte r = (let (buf, r1) = ReadFull 1 r in (hd buf, r1))"

definition ReadInt8 :: "reader \<Rightarrow> int \<times> reader" where
  "ReadInt8 r = (let (b, r1) = ReadByte r in (sint b, r1))"

definition ReadUint16 :: "reader \<Rightarrow> int \<times> reader" where
  "ReadUint16 r = (let (buf, r1) = ReadFull 2 r in (SetBytes buf, r1))"

definition ReadInt16 :: "reader \<Rightarrow> int \<times> reader" where
  "ReadInt16 r = (let (buf, r1) = ReadFull 2 r in (sint (word_of_int (SetBytes buf) :: 16 word), r1))"

definition ReadUint32 :: "reader \<Rightarrow> int \<times> reader" where
  "ReadUint32 r = (let (buf, r1) = ReadFull 4 r in (SetBytes buf, r1))"

definition ReadInt32 :: "reader \<Rightarrow> int \<times> reader" where
  "ReadInt32 r = (let (buf, r1) = ReadFull 4 r in (sint (word_of_int (SetBytes buf) :: 32 word), r1))"

definition ReadUint64 :: "reader \<Rightarrow> int \<times> reader" where
  "ReadUint64 r = (let (buf, r1) = ReadFull 8 r in (SetBytes buf, r1))"

definition ReadInt64 :: "reader \<Rightarrow> int \<times> reader" where
  "ReadInt64 r = (let (buf, r1) = ReadFull 8 r in (wrap64 (SetBytes buf), r1))"

definition ReadVarint :: "reader \<Rightarrow> int \<times> reader" where
  "ReadVarint r =
     (let (b, r1) = ReadByte r;
          negate = drop_bit 4 b = 0xF;
          sz = unat (if negate then b AND 0x0F else b)
      in if sz > 8 then (0, setFirstErr ''Varint overflow'' r1)
         else if sz = 0 then
           (0, if negate then setFirstErr ''Varint does not allow negative zero'' r1 else r1)
         else
           (let (buf, r2) = ReadFull sz r1;
                i = wrap64 (SetBytes (replicate (8 - sz) 0 @ buf));
                r3 = r2\<lparr> r_n := wrap64 (r_n r2 + int (1 + sz)) \<rparr>
            in (if negate then wrap64 (- i) else i, r3)))"

definition ReadUvarint :: "reader \<Rightarrow> int \<times> reader" where
  "ReadUvarint r =
     (let (b, r1) = ReadByte r; sz = unat b
      in if sz > 8 then (0, setFirstErr ''Uvarint overflow'' r1)
         else if sz = 0 then (0, r1)
         else
           (let (buf, r2) = ReadFull sz r1;
                r3 = r2\<lparr> r_n := wrap64 (r_n r2 + int (1 + sz)) \<rparr>
            in (SetBytes (replicate (8 - sz) 0 @ buf), r3)))"

definition MaxBinaryReadSize :: int where
  "MaxBinaryReadSize = 21 * 1024 * 1024"

definition ErrBinaryReadSizeOverflow :: string where
  "ErrBinaryReadSizeOverflow = ''Error: binary read size overflow''"

definition ErrBinaryReadSizeUnderflow :: string where
  "ErrBinaryReadSizeUnderflow = ''Error: binary read size underflow''"

text \<open>The length prefix of slices and strings, with the checks on it.\<close>

definition read_length :: "reader \<Rightarrow> nat option \<times> reader" where
  "read_length r =
     (let (l, r1) = ReadVarint r
      in if r_err r1 \<noteq> None then (None, r1)
         else if l < 0 then (None, r1\<lparr> r_err := Some ErrBinaryReadSizeUnderflow \<rparr>)
         else if MaxBinaryReadSize < max l (wrap64 (r_n r1 + l)) then
           (None, r1\<lparr> r_err := Some ErrBinaryReadSizeOverflow \<rparr>)
         else (Some (nat l), r1))"

definition ReadByteSlice :: "reader \<Rightarrow> bytes \<times> reader" where
  "ReadByteSlice r =
     (case read_length r of (None, r1) \<Rightarrow> ([], r1) | (Some l, r1) \<Rightarrow> ReadFull l r1)"

primrec read_slices :: "nat \<Rightarrow> reader \<Rightarrow> bytes list \<times> reader" where
  "read_slices 0 r = ([], r)"
| "read_slices (Suc k) r =
     (let (bz, r1) = ReadByteSlice r
      in if r_err r1 \<noteq> None then ([], r1)
         else (let (bzz, r2) = read_slices k r1 in if r_err r2 \<noteq> None then ([], r2) else (bz # bzz, r2)))"

definition ReadByteSlices :: "reader \<Rightarrow> bytes list \<times> reader" where
  "ReadByteSlices r =
     (case read_length r of (None, r1) \<Rightarrow> ([], r1) | (Some l, r1) \<Rightarrow> read_slices l r1)"

definition ReadTime :: "reader \<Rightarrow> (int \<times> reader) outcome" where
  "ReadTime r =
     (let (t, r1) = ReadInt64 r
      in if go_rem t 1000000 \<noteq> 0 then Panic ''Time cannot have sub-millisecond precision'' else Ok (t, r1))"

section \<open>Laws of the encodings\<close>

lemma length_be_bytes [simp]: "length (be_bytes k x) = k"
  by (induction k arbitrary: x) auto

lemma SetBytes_be_bytes: "SetBytes (be_bytes k x) = x mod 256 ^ k"
proof (induction k arbitrary: x)
  case (Suc k)
  have "x mod (256 * 256 ^ k) = 256 * (x div 256 mod 256 ^ k) + x mod 256"
    by (rule zmod_zmult2_eq) simp
  then show ?case
    using Suc by (simp add: SetBytes_append uint_word_of_int take_bit_eq_mod)
qed (simp add: SetBytes_def)

lemma be_bytes_drop: "k \<le> n \<Longrightarrow> drop (n - k) (be_bytes n x) = be_bytes k x"
proof (induction n arbitrary: k x)
  case (Suc n)
  then show ?case by (cases k) auto
qed simp

lemma uvarintSize_bound: "0 \<le> a \<Longrightarrow> a < 2 ^ 64 \<Longrightarrow> a < 256 ^ uvarintSize a \<and> uvarintSize a \<le> 8"
  by (simp add: uvarintSize_def)

lemma ReadFull_exact:
  "r_err r = None \<Longrightarrow> r_in r = bs @ rest \<Longrightarrow>
     ReadFull (length bs) r = (bs, r\<lparr> r_in := rest, r_n := wrap64 (r_n r + int (length bs)) \<rparr>)"
  by (simp add: ReadFull_def)

lemma ReadByte_exact:
  "r_err r = None \<Longrightarrow> r_in r = b # rest \<Longrightarrow> ReadByte r = (b, r\<lparr> r_in := rest, r_n := wrap64 (r_n r + 1) \<rparr>)"
  using ReadFull_exact [of r "[b]" rest] by (simp add: ReadByte_def)

text \<open>The first byte of a varint tells the sign and the number of bytes that follow.\<close>

lemma varint_prefix:
  assumes "sz \<le> 8"
  defines "pos \<equiv> word_of_int (int sz) :: byte" and "neg \<equiv> word_of_int (int sz + 0xF0) :: byte"
  shows "drop_bit 4 pos \<noteq> 0xF \<and> unat pos = sz \<and> drop_bit 4 neg = 0xF \<and> unat (neg AND 0x0F) = sz"
proof -
  have "sz \<in> {0, 1, 2, 3, 4, 5, 6, 7, 8}" using assms(1) by auto
  then show ?thesis unfolding pos_def neg_def by (elim insertE emptyE) (simp_all add: drop_bit_eq_div)
qed

lemma ReadVarint_bytes:
  assumes "r_err r = None" "r_in r = word_of_int (if negate then int sz + 0xF0 else int sz) # be_bytes sz a @ rest"
    "0 < sz" "sz \<le> 8" "0 \<le> a" "a < 256 ^ sz"
  shows "ReadVarint r = (if negate then wrap64 (- wrap64 a) else wrap64 a,
    r\<lparr> r_in := rest, r_n := wrap64 (wrap64 (wrap64 (r_n r + 1) + int sz) + int (1 + sz)) \<rparr>)"
proof -
  let ?b = "word_of_int (if negate then int sz + 0xF0 else int sz) :: byte"
  let ?r1 = "r\<lparr> r_in := be_bytes sz a @ rest, r_n := wrap64 (r_n r + 1) \<rparr>"
  have b: "ReadByte r = (?b, ?r1)" using ReadByte_exact [OF assms(1,2)] by simp
  have f: "ReadFull sz ?r1 = (be_bytes sz a, ?r1\<lparr> r_in := rest, r_n := wrap64 (r_n ?r1 + int sz) \<rparr>)"
    using ReadFull_exact [of ?r1 "be_bytes sz a" rest] assms(1) by simp
  have s: "SetBytes (replicate (8 - sz) 0 @ be_bytes sz a) = a"
    using assms(5,6) by (simp add: SetBytes_zeros SetBytes_be_bytes)
  show ?thesis
    using varint_prefix [OF assms(4)] assms(3,4)
    by (cases negate) (simp_all add: ReadVarint_def b f s Let_def)
qed

lemma wrap64_to_uint64: "wrap64 (to_uint64 x) = wrap64 x"
  by (simp add: wrap64_def to_uint64_def mod_add_left_eq)

lemma wrap64_minus: "in_int64 i \<Longrightarrow> wrap64 (- wrap64 (- i)) = i"
  by (cases "i = MinInt64") (auto simp: wrap64_def int64_simps)

lemma ReadVarint_WriteVarint:
  assumes "r_err r = None" "r_in r = WriteVarint i @ rest" "in_int64 i"
  shows "\<exists>n'. ReadVarint r = (i, r\<lparr> r_in := rest, r_n := n' \<rparr>) \<and>
    (0 \<le> r_n r \<and> r_n r < 2 ^ 62 \<longrightarrow> r_n r \<le> n' \<and> n' \<le> r_n r + 18)"
proof -
  define a where "a = to_uint64 (if i < 0 then wrap64 (- i) else i)"
  have a: "0 \<le> a" "a < 2 ^ 64" by (simp_all add: a_def to_uint64_def)
  note sz = uvarintSize_bound [OF a]
  have w: "WriteVarint i = word_of_int (if i < 0 then int (uvarintSize a) + 0xF0 else int (uvarintSize a)) #
      be_bytes (uvarintSize a) a"
    using sz be_bytes_drop [of "uvarintSize a" 8 a] by (simp add: WriteVarint_def a_def Let_def WriteByte_def)
  have val: "(if i < 0 then wrap64 (- wrap64 a) else wrap64 a) = i"
    using assms(3) wrap64_minus [OF assms(3)] by (auto simp: a_def wrap64_to_uint64)
  show ?thesis
  proof (cases "uvarintSize a = 0")
    case True
    then have "a = 0" by (simp add: uvarintSize_def split: if_splits)
    then have "i = 0" using val by (auto simp: wrap64_def split: if_splits)
    moreover have "WriteVarint 0 = [0]"
      by (simp add: WriteVarint_def to_uint64_def uvarintSize_def WriteByte_def)
    ultimately have "ReadByte r = (0, r\<lparr> r_in := rest, r_n := wrap64 (r_n r + 1) \<rparr>)"
      using assms(1,2) ReadByte_exact [OF assms(1), of 0 rest] by simp
    then show ?thesis using \<open>i = 0\<close>
      by (intro exI [of _ "wrap64 (r_n r + 1)"]) (simp add: ReadVarint_def int64_simps)
  next
    case False
    then show ?thesis
      using ReadVarint_bytes [of r "i < 0" "uvarintSize a" a rest] assms(1,2) sz a val
      by (intro exI [of _ "wrap64 (wrap64 (wrap64 (r_n r + 1) + int (uvarintSize a)) + int (1 + uvarintSize a))"])
        (simp add: w int64_simps)
  qed
qed

section \<open>Encodings that can be read back\<close>

text \<open>
  What the users of an encoding rely on: a value that was written is read back, whatever follows it.
  It follows that no encoding is a prefix of another one, which makes a sequence of encoded values
  unambiguous, in particular inside a hash.
\<close>

locale wire_codec =
  fixes wr :: "'v \<Rightarrow> bytes"
    and rd :: "reader \<Rightarrow> 'v \<times> reader"
    and wf :: "'v \<Rightarrow> bool"
    and room :: "int \<Rightarrow> 'v \<Rightarrow> bool"
  assumes read_back: "wf v \<Longrightarrow> room (r_n r) v \<Longrightarrow> r_err r = None \<Longrightarrow> r_in r = wr v @ rest \<Longrightarrow>
    \<exists>n'. rd r = (v, r\<lparr> r_in := rest, r_n := n' \<rparr>)"
begin

lemma prefix_free:
  assumes "wf v" "wf w" "room 0 v" "room 0 w" "wr v @ xs = wr w @ ys"
  shows "v = w \<and> xs = ys"
proof -
  have r: "r_n (reader_of bs) = 0" "r_err (reader_of bs) = None" "r_in (reader_of bs) = bs" for bs
    by (simp_all add: reader_of_def)
  obtain n1 where n1: "rd (reader_of (wr v @ xs)) = (v, (reader_of (wr v @ xs))\<lparr> r_in := xs, r_n := n1 \<rparr>)"
    using read_back [of v "reader_of (wr v @ xs)" xs] assms(1,3) by (auto simp: r)
  obtain n2 where n2: "rd (reader_of (wr w @ ys)) = (w, (reader_of (wr w @ ys))\<lparr> r_in := ys, r_n := n2 \<rparr>)"
    using read_back [of w "reader_of (wr w @ ys)" ys] assms(2,4) by (auto simp: r)
  from n1 n2 have "v = w" and "r_in ((reader_of (wr w @ ys))\<lparr> r_in := xs, r_n := n1 \<rparr>) =
      r_in ((reader_of (wr w @ ys))\<lparr> r_in := ys, r_n := n2 \<rparr>)"
    unfolding assms(5) by (metis prod.inject)+
  then show ?thesis by simp
qed

lemma injective: "wf v \<Longrightarrow> wf w \<Longrightarrow> room 0 v \<Longrightarrow> room 0 w \<Longrightarrow> wr v = wr w \<Longrightarrow> v = w"
  using prefix_free [of v w "[]" "[]"] by simp

end

interpretation varint: wire_codec WriteVarint ReadVarint in_int64 "\<lambda>_ _. True"
  by unfold_locales (use ReadVarint_WriteVarint in blast)

lemma ReadByteSlice_WriteByteSlice:
  assumes "0 \<le> r_n r" "r_n r + int (length bz) + 18 \<le> MaxBinaryReadSize" "r_err r = None"
    "r_in r = WriteByteSlice bz @ rest"
  shows "\<exists>n'. ReadByteSlice r = (bz, r\<lparr> r_in := rest, r_n := n' \<rparr>) \<and>
    r_n r \<le> n' \<and> n' \<le> r_n r + int (length bz) + 18"
proof -
  obtain n' where v: "ReadVarint r = (int (length bz), r\<lparr> r_in := bz @ rest, r_n := n' \<rparr>)"
    "r_n r \<le> n'" "n' \<le> r_n r + 18"
    using ReadVarint_WriteVarint [of r "int (length bz)" "bz @ rest"] assms
    by (auto simp: WriteByteSlice_def MaxBinaryReadSize_def int64_simps)
  let ?r1 = "r\<lparr> r_in := bz @ rest, r_n := n' \<rparr>"
  have n: "wrap64 (n' + int (length bz)) = n' + int (length bz)"
    using v assms(1,2) by (simp add: MaxBinaryReadSize_def int64_simps)
  have l: "read_length r = (Some (length bz), ?r1)"
    using v n assms by (simp add: read_length_def)
  have "ReadFull (length bz) ?r1 = (bz, ?r1\<lparr> r_in := rest, r_n := n' + int (length bz) \<rparr>)"
    using ReadFull_exact [of ?r1 bz rest] assms(3) n by simp
  with l show ?thesis using v(2,3)
    by (intro exI [of _ "n' + int (length bz)"]) (simp add: ReadByteSlice_def)
qed

interpretation byteslice: wire_codec WriteByteSlice ReadByteSlice "\<lambda>_. True"
  "\<lambda>n bz. 0 \<le> n \<and> n + int (length bz) + 18 \<le> MaxBinaryReadSize"
  by unfold_locales (use ReadByteSlice_WriteByteSlice in blast)

lemma sint_byte: "-128 \<le> i \<Longrightarrow> i < 128 \<Longrightarrow> sint (word_of_int i :: byte) = i"
  by (simp add: sint_sbintrunc' signed_take_bit_int_eq_self)

interpretation int8: wire_codec WriteInt8 ReadInt8 "\<lambda>i. -128 \<le> i \<and> i < 128" "\<lambda>_ _. True"
  by unfold_locales (auto simp: WriteInt8_def WriteByte_def ReadInt8_def ReadByte_exact sint_byte)

text \<open>The encoding of a slice is unambiguous whatever its length; no bound of the reader is needed.\<close>

lemma WriteByteSlice_prefix_free:
  assumes "WriteByteSlice a @ xs = WriteByteSlice b @ ys"
    "int (length a) \<le> MaxInt64" "int (length b) \<le> MaxInt64"
  shows "a = b \<and> xs = ys"
proof -
  have "int (length a) = int (length b) \<and> a @ xs = b @ ys"
    using varint.prefix_free [of "int (length a)" "int (length b)" "a @ xs" "b @ ys"] assms
    by (simp add: WriteByteSlice_def int64_simps)
  then show ?thesis by auto
qed

section \<open>The codec of basic values\<close>

text \<open>The dynamic types that \<open>BasicCodec\<close> supports; a string is given by its bytes, a time in nanoseconds.\<close>

datatype basic =
    VByte byte | VInt8 int | VInt16 int | VUint16 int | VInt32 int | VUint32 int
  | VInt64 int | VUint64 int | VInt int | VUint int | VString bytes | VBytes bytes | VTime int

fun BasicCodecEncoder :: "basic \<Rightarrow> bytes" where
  "BasicCodecEncoder (VByte b) = WriteByte 0x01 @ WriteByte b"
| "BasicCodecEncoder (VInt8 i) = WriteByte 0x02 @ WriteInt8 i"
| "BasicCodecEncoder (VInt16 i) = WriteByte 0x04 @ WriteInt16 i"
| "BasicCodecEncoder (VUint16 i) = WriteByte 0x05 @ WriteInt16 i"
| "BasicCodecEncoder (VInt32 i) = WriteByte 0x06 @ WriteInt32 i"
| "BasicCodecEncoder (VUint32 i) = WriteByte 0x07 @ WriteInt32 i"
| "BasicCodecEncoder (VInt64 i) = WriteByte 0x08 @ WriteInt64 i"
| "BasicCodecEncoder (VUint64 i) = WriteByte 0x09 @ WriteInt64 i"
| "BasicCodecEncoder (VInt i) = WriteByte 0x0A @ WriteVarint i"
| "BasicCodecEncoder (VUint i) = WriteByte 0x0B @ WriteUvarint i"
| "BasicCodecEncoder (VString s) = WriteByte 0x10 @ WriteByteSlice s"
| "BasicCodecEncoder (VBytes bz) = WriteByte 0x11 @ WriteByteSlice bz"
| "BasicCodecEncoder (VTime t) = WriteByte 0x20 @ WriteTime t"

definition tag :: "('a \<Rightarrow> basic) \<Rightarrow> 'a \<times> reader \<Rightarrow> (basic option \<times> reader) outcome" where
  "tag c p = Ok (Some (c (fst p)), snd p)"

definition decode_payload :: "byte \<Rightarrow> reader \<Rightarrow> (basic option \<times> reader) outcome" where
  "decode_payload ty r =
     (if ty = 0x01 then tag VByte (ReadByte r)
      else if ty = 0x02 then tag VInt8 (ReadInt8 r)
      else if ty = 0x04 then tag VInt16 (ReadInt16 r)
      else if ty = 0x05 then tag VUint16 (ReadUint16 r)
      else if ty = 0x06 then tag VInt32 (ReadInt32 r)
      else if ty = 0x07 then tag VUint32 (ReadUint32 r)
      else if ty = 0x08 then tag VInt64 (ReadInt64 r)
      else if ty = 0x09 then tag VUint64 (ReadUint64 r)
      else if ty = 0x0A then tag VInt (ReadVarint r)
      else if ty = 0x0B then tag VUint (ReadUvarint r)
      else if ty = 0x10 then tag VString (ReadByteSlice r)
      else if ty = 0x11 then tag VBytes (ReadByteSlice r)
      else if ty = 0x20 then obind (ReadTime r) (tag VTime)
      else Ok (None, r\<lparr> r_err := Some (''Unsupported type byte: '' @ fmt_X [ty]) \<rparr>))"

definition BasicCodecDecoder :: "reader \<Rightarrow> (basic option \<times> reader) outcome" where
  "BasicCodecDecoder r =
     (let (ty, r1) = ReadByte r in if r_err r1 \<noteq> None then Ok (None, r1) else decode_payload ty r1)"

text \<open>
  The comparison subtracts: the difference of two unsigned values is unsigned, and only its value is
  converted to \<open>int\<close>.
\<close>

fun bytes_Compare :: "bytes \<Rightarrow> bytes \<Rightarrow> int" where
  "bytes_Compare [] [] = 0"
| "bytes_Compare [] (b # bs) = -1"
| "bytes_Compare (a # as) [] = 1"
| "bytes_Compare (a # as) (b # bs) = (if a < b then -1 else if b < a then 1 else bytes_Compare as bs)"

definition wrap_signed :: "nat \<Rightarrow> int \<Rightarrow> int" where
  "wrap_signed w x = (x + 2 ^ (w - 1)) mod 2 ^ w - 2 ^ (w - 1)"

definition BasicCodecComparator :: "basic \<Rightarrow> basic \<Rightarrow> int outcome" where
  "BasicCodecComparator o1 o2 =
     (case o1 of
        VByte x \<Rightarrow> (case o2 of VByte y \<Rightarrow> Ok (uint (x - y)) | _ \<Rightarrow> Panic ''interface conversion'')
      | VInt8 x \<Rightarrow> (case o2 of VInt8 y \<Rightarrow> Ok (wrap_signed 8 (x - y)) | _ \<Rightarrow> Panic ''interface conversion'')
      | VInt16 x \<Rightarrow> (case o2 of VInt16 y \<Rightarrow> Ok (wrap_signed 16 (x - y)) | _ \<Rightarrow> Panic ''interface conversion'')
      | VUint16 x \<Rightarrow> (case o2 of VUint16 y \<Rightarrow> Ok ((x - y) mod 2 ^ 16) | _ \<Rightarrow> Panic ''interface conversion'')
      | VInt32 x \<Rightarrow> (case o2 of VInt32 y \<Rightarrow> Ok (wrap_signed 32 (x - y)) | _ \<Rightarrow> Panic ''interface conversion'')
      | VUint32 x \<Rightarrow> (case o2 of VUint32 y \<Rightarrow> Ok ((x - y) mod 2 ^ 32) | _ \<Rightarrow> Panic ''interface conversion'')
      | VInt64 x \<Rightarrow> (case o2 of VInt64 y \<Rightarrow> Ok (wrap64 (x - y)) | _ \<Rightarrow> Panic ''interface conversion'')
      | VUint64 x \<Rightarrow> (case o2 of VUint64 y \<Rightarrow> Ok (wrap64 (x - y)) | _ \<Rightarrow> Panic ''interface conversion'')
      | VInt x \<Rightarrow> (case o2 of VInt y \<Rightarrow> Ok (wrap64 (x - y)) | _ \<Rightarrow> Panic ''interface conversion'')
      | VUint x \<Rightarrow> (case o2 of VUint y \<Rightarrow> Ok (wrap64 (x - y)) | _ \<Rightarrow> Panic ''interface conversion'')
      | VString x \<Rightarrow> (case o2 of VString y \<Rightarrow> Ok (bytes_Compare x y) | _ \<Rightarrow> Panic ''interface conversion'')
      | VBytes x \<Rightarrow> (case o2 of VBytes y \<Rightarrow> Ok (bytes_Compare x y) | _ \<Rightarrow> Panic ''interface conversion'')
      | VTime x \<Rightarrow> (case o2 of VTime y \<Rightarrow> Ok (wrap64 (x - y)) | _ \<Rightarrow> Panic ''interface conversion''))"

fun basic_ok :: "basic \<Rightarrow> bool" where
  "basic_ok (VByte b) \<longleftrightarrow> True"
| "basic_ok (VInt8 i) \<longleftrightarrow> - (2 ^ 7) \<le> i \<and> i < 2 ^ 7"
| "basic_ok (VInt16 i) \<longleftrightarrow> - (2 ^ 15) \<le> i \<and> i < 2 ^ 15"
| "basic_ok (VUint16 i) \<longleftrightarrow> 0 \<le> i \<and> i < 2 ^ 16"
| "basic_ok (VInt32 i) \<longleftrightarrow> - (2 ^ 31) \<le> i \<and> i < 2 ^ 31"
| "basic_ok (VUint32 i) \<longleftrightarrow> 0 \<le> i \<and> i < 2 ^ 32"
| "basic_ok (VInt64 i) \<longleftrightarrow> in_int64 i"
| "basic_ok (VUint64 i) \<longleftrightarrow> 0 \<le> i \<and> i < 2 ^ 64"
| "basic_ok (VInt i) \<longleftrightarrow> in_int64 i"
| "basic_ok (VUint i) \<longleftrightarrow> 0 \<le> i \<and> i < 2 ^ 64"
| "basic_ok (VString s) \<longleftrightarrow> int (length s) + 19 \<le> MaxBinaryReadSize"
| "basic_ok (VBytes bz) \<longleftrightarrow> int (length bz) + 19 \<le> MaxBinaryReadSize"
| "basic_ok (VTime t) \<longleftrightarrow> in_int64 t \<and> 1000000 dvd t"

lemma sint_word16: "- (2 ^ 15) \<le> i \<Longrightarrow> i < 2 ^ 15 \<Longrightarrow> sint (word_of_int i :: 16 word) = i"
  by (simp add: sint_sbintrunc' signed_take_bit_int_eq_self)

lemma sint_word32: "- (2 ^ 31) \<le> i \<Longrightarrow> i < 2 ^ 31 \<Longrightarrow> sint (word_of_int i :: 32 word) = i"
  by (simp add: sint_sbintrunc' signed_take_bit_int_eq_self)

lemma word_of_int_mod_power: "word_of_int (i mod 2 ^ LENGTH('a)) = (word_of_int i :: 'a::len word)"
  by (simp add: word_uint_eq_iff uint_word_of_int take_bit_eq_mod)

lemma ReadFull_be_bytes:
  "r_err r = None \<Longrightarrow> r_in r = be_bytes k x @ rest \<Longrightarrow>
     \<exists>n'. ReadFull k r = (be_bytes k x, r\<lparr> r_in := rest, r_n := n' \<rparr>)"
  using ReadFull_exact [of r "be_bytes k x" rest] by auto

lemma ReadUvarint_WriteUvarint:
  assumes "r_err r = None" "r_in r = WriteUvarint i @ rest" "0 \<le> i" "i < 2 ^ 64"
  shows "\<exists>n'. ReadUvarint r = (i, r\<lparr> r_in := rest, r_n := n' \<rparr>)"
proof -
  define sz where "sz = uvarintSize i"
  note bnd = uvarintSize_bound [OF assms(3,4), folded sz_def]
  have w: "WriteUvarint i = word_of_int (int sz) # be_bytes sz i"
    using bnd be_bytes_drop [of sz 8 i] assms(3,4)
    by (simp add: WriteUvarint_def to_uint64_def Let_def WriteByte_def sz_def)
  have u: "unat (word_of_int (int sz) :: byte) = sz" using varint_prefix [of sz] bnd by simp
  let ?r1 = "r\<lparr> r_in := be_bytes sz i @ rest, r_n := wrap64 (r_n r + 1) \<rparr>"
  have b: "ReadByte r = (word_of_int (int sz), ?r1)"
    using ReadByte_exact [OF assms(1)] assms(2) by (simp add: w)
  obtain n' where f: "ReadFull sz ?r1 = (be_bytes sz i, ?r1\<lparr> r_in := rest, r_n := n' \<rparr>)"
    using ReadFull_be_bytes [of ?r1 sz i rest] assms(1) by auto
  have s: "SetBytes (replicate (8 - sz) 0 @ be_bytes sz i) = i"
    using assms(3) bnd by (simp add: SetBytes_zeros SetBytes_be_bytes)
  show ?thesis
  proof (cases "sz = 0")
    case True
    then have "i = 0" by (simp add: sz_def uvarintSize_def split: if_splits)
    then show ?thesis using True b by (auto simp: ReadUvarint_def)
  next
    case False
    then show ?thesis using bnd unfolding ReadUvarint_def b f u s Let_def prod.case by auto
  qed
qed

lemma go_rem_dvd: "0 < b \<Longrightarrow> b dvd a \<Longrightarrow> go_rem a b = 0"
  by (auto simp: go_rem_def go_div_def sgn_mult abs_mult sgn_if elim!: dvdE)

lemma be_bytes_wrap: "in_int64 i \<Longrightarrow> wrap64 (i mod 2 ^ 64) = i"
  using wrap64_to_uint64 [of i] by (simp add: to_uint64_def)

lemma ReadTime_WriteTime:
  assumes "r_err r = None" "r_in r = WriteTime t @ rest" "in_int64 t" "1000000 dvd t"
  shows "\<exists>n'. ReadTime r = Ok (t, r\<lparr> r_in := rest, r_n := n' \<rparr>)"
proof -
  have t: "go_div t 1000000 * 1000000 = t"
    using go_rem_dvd [OF _ assms(4)] by (simp add: go_rem_def)
  obtain n' where f: "ReadFull 8 r = (be_bytes 8 t, r\<lparr> r_in := rest, r_n := n' \<rparr>)"
    using ReadFull_be_bytes [of r 8 t rest] assms(1,2) by (auto simp: WriteTime_def WriteInt64_def t)
  have "wrap64 (SetBytes (be_bytes 8 t)) = t"
    using be_bytes_wrap [OF assms(3)] by (simp only: SetBytes_be_bytes) simp
  then show ?thesis using go_rem_dvd [OF _ assms(4)] by (auto simp: ReadTime_def ReadInt64_def f)
qed

text \<open>Reading what a fixed-width writer wrote.\<close>

lemma fixed_width_read:
  assumes "r_err r = None"
  shows "r_in r = be_bytes 2 i @ rest \<Longrightarrow> 0 \<le> i \<Longrightarrow> i < 2 ^ 16 \<Longrightarrow>
      \<exists>n'. ReadUint16 r = (i, r\<lparr> r_in := rest, r_n := n' \<rparr>)"
    and "r_in r = be_bytes 2 i @ rest \<Longrightarrow> - (2 ^ 15) \<le> i \<Longrightarrow> i < 2 ^ 15 \<Longrightarrow>
      \<exists>n'. ReadInt16 r = (i, r\<lparr> r_in := rest, r_n := n' \<rparr>)"
    and "r_in r = be_bytes 4 i @ rest \<Longrightarrow> 0 \<le> i \<Longrightarrow> i < 2 ^ 32 \<Longrightarrow>
      \<exists>n'. ReadUint32 r = (i, r\<lparr> r_in := rest, r_n := n' \<rparr>)"
    and "r_in r = be_bytes 4 i @ rest \<Longrightarrow> - (2 ^ 31) \<le> i \<Longrightarrow> i < 2 ^ 31 \<Longrightarrow>
      \<exists>n'. ReadInt32 r = (i, r\<lparr> r_in := rest, r_n := n' \<rparr>)"
    and "r_in r = be_bytes 8 i @ rest \<Longrightarrow> 0 \<le> i \<Longrightarrow> i < 2 ^ 64 \<Longrightarrow>
      \<exists>n'. ReadUint64 r = (i, r\<lparr> r_in := rest, r_n := n' \<rparr>)"
    and "r_in r = be_bytes 8 i @ rest \<Longrightarrow> in_int64 i \<Longrightarrow>
      \<exists>n'. ReadInt64 r = (i, r\<lparr> r_in := rest, r_n := n' \<rparr>)"
proof -
  note f = ReadFull_be_bytes [OF assms]
  have w16: "word_of_int (i mod 65536) = (word_of_int i :: 16 word)"
    using word_of_int_mod_power [of i, where 'a = 16] by simp
  have w32: "word_of_int (i mod 4294967296) = (word_of_int i :: 32 word)"
    using word_of_int_mod_power [of i, where 'a = 32] by simp
  show "r_in r = be_bytes 2 i @ rest \<Longrightarrow> 0 \<le> i \<Longrightarrow> i < 2 ^ 16 \<Longrightarrow>
      \<exists>n'. ReadUint16 r = (i, r\<lparr> r_in := rest, r_n := n' \<rparr>)"
    using f [of 2 i rest] by (auto simp: ReadUint16_def SetBytes_be_bytes)
  show "r_in r = be_bytes 2 i @ rest \<Longrightarrow> - (2 ^ 15) \<le> i \<Longrightarrow> i < 2 ^ 15 \<Longrightarrow>
      \<exists>n'. ReadInt16 r = (i, r\<lparr> r_in := rest, r_n := n' \<rparr>)"
    using f [of 2 i rest] sint_word16 [of i] w16 by (auto simp: ReadInt16_def SetBytes_be_bytes)
  show "r_in r = be_bytes 4 i @ rest \<Longrightarrow> 0 \<le> i \<Longrightarrow> i < 2 ^ 32 \<Longrightarrow>
      \<exists>n'. ReadUint32 r = (i, r\<lparr> r_in := rest, r_n := n' \<rparr>)"
    using f [of 4 i rest] by (auto simp: ReadUint32_def SetBytes_be_bytes)
  show "r_in r = be_bytes 4 i @ rest \<Longrightarrow> - (2 ^ 31) \<le> i \<Longrightarrow> i < 2 ^ 31 \<Longrightarrow>
      \<exists>n'. ReadInt32 r = (i, r\<lparr> r_in := rest, r_n := n' \<rparr>)"
    using f [of 4 i rest] sint_word32 [of i] w32 by (auto simp: ReadInt32_def SetBytes_be_bytes)
  show "r_in r = be_bytes 8 i @ rest \<Longrightarrow> 0 \<le> i \<Longrightarrow> i < 2 ^ 64 \<Longrightarrow>
      \<exists>n'. ReadUint64 r = (i, r\<lparr> r_in := rest, r_n := n' \<rparr>)"
    using f [of 8 i rest] by (auto simp: ReadUint64_def SetBytes_be_bytes)
  show "r_in r = be_bytes 8 i @ rest \<Longrightarrow> in_int64 i \<Longrightarrow>
      \<exists>n'. ReadInt64 r = (i, r\<lparr> r_in := rest, r_n := n' \<rparr>)"
    using f [of 8 i rest] be_bytes_wrap [of i] by (auto simp: ReadInt64_def SetBytes_be_bytes)
qed

text \<open>
  A basic value that was encoded is decoded to the same value, whatever follows it in the
  input, and exactly its bytes are consumed. The values are those of the types' ranges, slices and
  strings below the reading limit, and times in whole milliseconds.
\<close>

theorem basic_codec_round_trip:
  assumes "basic_ok v"
  shows "\<exists>n'. BasicCodecDecoder (reader_of (BasicCodecEncoder v @ rest)) =
    Ok (Some v, \<lparr> r_in = rest, r_n = n', r_err = None \<rparr>)"
proof -
  define payload where "payload = tl (BasicCodecEncoder v)"
  define r where "r = \<lparr> r_in = payload @ rest, r_n = 1, r_err = None \<rparr>"
  obtain ty where enc: "BasicCodecEncoder v = ty # payload"
    by (cases v) (simp_all add: payload_def WriteByte_def)
  have "ReadByte (reader_of (ty # payload @ rest)) = (ty, r)"
    using ReadByte_exact [of "reader_of (ty # payload @ rest)" ty "payload @ rest"]
    by (simp add: reader_of_def r_def int64_simps)
  then have "BasicCodecDecoder (reader_of (BasicCodecEncoder v @ rest)) = decode_payload ty r"
    by (simp add: enc BasicCodecDecoder_def r_def)
  then have dec: "BasicCodecDecoder (reader_of (BasicCodecEncoder v @ rest)) = decode_payload (hd (BasicCodecEncoder v)) r"
    by (simp add: enc)
  have r: "r_err r = None" "r_in r = payload @ rest" "r_n r = 1" by (simp_all add: r_def)
  have fin: "r\<lparr> r_in := rest, r_n := n' \<rparr> = \<lparr> r_in = rest, r_n = n', r_err = None \<rparr>" for n'
    by (simp add: r_def)
  note defs = decode_payload_def tag_def payload_def WriteByte_def fin
  have "\<exists>n'. decode_payload (hd (BasicCodecEncoder v)) r = Ok (Some v, \<lparr> r_in = rest, r_n = n', r_err = None \<rparr>)"
  proof (cases v)
    case (VByte b)
    then show ?thesis using r ReadByte_exact [of r b rest]
      by (simp add: defs)
  next
    case (VInt8 i)
    then show ?thesis using r int8.read_back [of i r rest] assms
      by (auto simp: defs)
  next
    case (VInt16 i)
    then show ?thesis using r fixed_width_read(2) [of r i rest] assms
      by (auto simp: defs WriteInt16_def)
  next
    case (VUint16 i)
    then show ?thesis using r fixed_width_read(1) [of r i rest] assms
      by (auto simp: defs WriteInt16_def)
  next
    case (VInt32 i)
    then show ?thesis using r fixed_width_read(4) [of r i rest] assms
      by (auto simp: defs WriteInt32_def)
  next
    case (VUint32 i)
    then show ?thesis using r fixed_width_read(3) [of r i rest] assms
      by (auto simp: defs WriteInt32_def)
  next
    case (VInt64 i)
    then show ?thesis using r fixed_width_read(6) [of r i rest] assms
      by (auto simp: defs WriteInt64_def)
  next
    case (VUint64 i)
    then show ?thesis using r fixed_width_read(5) [of r i rest] assms
      by (auto simp: defs WriteInt64_def)
  next
    case (VInt i)
    then show ?thesis using r varint.read_back [of i r rest] assms
      by (auto simp: defs)
  next
    case (VUint i)
    then show ?thesis using r ReadUvarint_WriteUvarint [of r i rest] assms
      by (auto simp: defs)
  next
    case (VString s)
    then show ?thesis using r byteslice.read_back [where v = s and r = r and rest = rest] assms
      by (auto simp: defs)
  next
    case (VBytes bz)
    then show ?thesis using r byteslice.read_back [where v = bz and r = r and rest = rest] assms
      by (auto simp: defs)
  next
    case (VTime t)
    then show ?thesis using r ReadTime_WriteTime [of r t rest] assms
      by (auto simp: defs)
  qed
  then show ?thesis by (simp add: dec)
qed

theorem basic_codec_round_trip_witness:
  "\<exists>n'. BasicCodecDecoder (reader_of (BasicCodecEncoder (VInt (- 300)) @ [7])) =
     Ok (Some (VInt (- 300)), \<lparr> r_in = [7], r_n = n', r_err = None \<rparr>)"
  by (rule basic_codec_round_trip) (simp add: int64_simps)

text \<open>
  The comparison of strings and byte slices is lexicographic and total; that of unsigned numbers
  never says that one is smaller.
\<close>

lemma bytes_Compare_less: "bytes_Compare a b < 0 \<longleftrightarrow> a < b"
  by (induction a b rule: bytes_Compare.induct) auto

lemma bytes_Compare_eq: "bytes_Compare a b = 0 \<longleftrightarrow> a = b"
  by (induction a b rule: bytes_Compare.induct) auto

lemma unsigned_never_smaller:
  "BasicCodecComparator (VByte a) (VByte b) = Ok c \<Longrightarrow> 0 \<le> c"
  "BasicCodecComparator (VUint16 i) (VUint16 j) = Ok c \<Longrightarrow> 0 \<le> c"
  "BasicCodecComparator (VUint32 i) (VUint32 j) = Ok c \<Longrightarrow> 0 \<le> c"
  by (auto simp: BasicCodecComparator_def)

end
