(* ===== verification/Iavl.thy ===== *)
theory Iavl
  imports Ledger_State
begin

text \<open>
  The balanced Merkle tree of the ledger (the vendored \<open>merkle/iavl_node.go\<close> and
  \<open>merkle/iavl_tree.go\<close>). A node is a leaf with a key and a value, or an inner node with the key,
  the height and the size that the code stores in it; the test \<open>node.height == 0\<close> of the code is
  the distinction of the two constructors (an inner node of a tree that satisfies the invariant
  below has a positive height). A child that is only known by its hash is the node that
  \<open>ndb.GetNode\<close> returns for it: nodes are never changed once they are saved, and every operation
  builds new nodes on its path, so the model passes them as values.
\<close>

datatype ('k, 'v) IAVLNode =
    Leaf 'k 'v
  | Inner 'k int int "('k, 'v) IAVLNode" "('k, 'v) IAVLNode"

definition wrap8 :: "int \<Rightarrow> int" where
  "wrap8 x = (x + 128) mod 256 - 128"

primrec node_height :: "('k, 'v) IAVLNode \<Rightarrow> int" where
  "node_height (Leaf k v) = 0"
| "node_height (Inner k h s l r) = h"

primrec node_size :: "('k, 'v) IAVLNode \<Rightarrow> int" where
  "node_size (Leaf k v) = 1"
| "node_size (Inner k h s l r) = s"

section \<open>Nodes\<close>

primrec node_has :: "('k::linorder, 'v) IAVLNode \<Rightarrow> 'k \<Rightarrow> bool" where
  "node_has (Leaf k v) key \<longleftrightarrow> k = key"
| "node_has (Inner k h s l r) key \<longleftrightarrow>
     (if k = key then True else if key < k then node_has l key else node_has r key)"

primrec node_get :: "('k::linorder, 'v) IAVLNode \<Rightarrow> 'k \<Rightarrow> int \<times> 'v option" where
  "node_get (Leaf k v) key = (if k = key then (0, Some v) else (0, None))"
| "node_get (Inner k h s l r) key =
     (if key < k then node_get l key
      else (let (index, val) = node_get r key in (wrap64 (index + wrap64 (s - node_size r)), val)))"

primrec node_getByIndex :: "('k, 'v) IAVLNode \<Rightarrow> int \<Rightarrow> ('k \<times> 'v) outcome" where
  "node_getByIndex (Leaf k v) index =
     (if index = 0 then Ok (k, v) else Panic ''getByIndex asked for invalid index'')"
| "node_getByIndex (Inner k h s l r) index =
     (if index < node_size l then node_getByIndex l index
      else node_getByIndex r (wrap64 (index - node_size l)))"

definition calcHeightAndSize ::
  "'k \<Rightarrow> ('k, 'v) IAVLNode \<Rightarrow> ('k, 'v) IAVLNode \<Rightarrow> ('k, 'v) IAVLNode" where
  "calcHeightAndSize k l r =
     Inner k (wrap8 (max (node_height l) (node_height r) + 1)) (wrap64 (node_size l + node_size r)) l r"

text \<open>The children of a leaf are asked from the database by an empty hash, which has no node.\<close>

primrec calcBalance :: "('k, 'v) IAVLNode \<Rightarrow> int outcome" where
  "calcBalance (Leaf k v) = Panic ''Value missing for key''"
| "calcBalance (Inner k h s l r) = Ok (node_height l - node_height r)"

fun rotateRight :: "('k, 'v) IAVLNode \<Rightarrow> ('k, 'v) IAVLNode outcome" where
  "rotateRight (Inner k h s (Inner k' h' s' ll lr) r) =
     Ok (calcHeightAndSize k' ll (calcHeightAndSize k lr r))"
| "rotateRight n = Panic ''Why are you copying a value node?''"

fun rotateLeft :: "('k, 'v) IAVLNode \<Rightarrow> ('k, 'v) IAVLNode outcome" where
  "rotateLeft (Inner k h s l (Inner k' h' s' rl rr)) =
     Ok (calcHeightAndSize k' (calcHeightAndSize k l rl) rr)"
| "rotateLeft n = Panic ''Why are you copying a value node?''"

primrec balance :: "('k, 'v) IAVLNode \<Rightarrow> ('k, 'v) IAVLNode outcome" where
  "balance (Leaf k v) = Panic ''Value missing for key''"
| "balance (Inner k h s l r) =
     obind (calcBalance (Inner k h s l r)) (\<lambda>b.
       if b > 1 then
         obind (calcBalance l) (\<lambda>bl.
           if bl \<ge> 0 then rotateRight (Inner k h s l r)
           else obind (rotateLeft l) (\<lambda>l'. rotateRight (Inner k h s l' r)))
       else if b < -1 then
         obind (calcBalance r) (\<lambda>br.
           if br \<le> 0 then rotateLeft (Inner k h s l r)
           else obind (rotateRight r) (\<lambda>r'. rotateLeft (Inner k h s l r')))
       else Ok (Inner k h s l r))"

primrec node_set ::
  "'k::linorder \<Rightarrow> 'v \<Rightarrow> ('k, 'v) IAVLNode \<Rightarrow> (('k, 'v) IAVLNode \<times> bool) outcome" where
  "node_set key val (Leaf k v) =
     Ok (if key < k then (Inner k 1 2 (Leaf key val) (Leaf k v), False)
         else if key = k then (Leaf key val, True)
         else (Inner key 1 2 (Leaf k v) (Leaf key val), False))"
| "node_set key val (Inner k h s l r) =
     (if key < k then
        obind (node_set key val l) (\<lambda>(l', updated).
          if updated then Ok (Inner k h s l' r, True)
          else obind (balance (calcHeightAndSize k l' r)) (\<lambda>n. Ok (n, False)))
      else
        obind (node_set key val r) (\<lambda>(r', updated).
          if updated then Ok (Inner k h s l r', True)
          else obind (balance (calcHeightAndSize k l r')) (\<lambda>n. Ok (n, False))))"

text \<open>
  The new node (none when the node held the value), the new leftmost key if it changed, the value
  that was removed, and whether one was.
\<close>

type_synonym ('k, 'v) removal = "('k, 'v) IAVLNode option \<times> 'k option \<times> 'v option \<times> bool"

primrec node_remove :: "'k::linorder \<Rightarrow> ('k, 'v) IAVLNode \<Rightarrow> ('k, 'v) removal outcome" where
  "node_remove key (Leaf k v) =
     Ok (if key = k then (None, None, Some v, True) else (Some (Leaf k v), None, None, False))"
| "node_remove key (Inner k h s l r) =
     (if key < k then
        obind (node_remove key l) (\<lambda>(newLeft, newKey, val, removed).
          if \<not> removed then Ok (Some (Inner k h s l r), None, val, False)
          else (case newLeft of
              None \<Rightarrow> Ok (Some r, Some k, val, True)
            | Some l' \<Rightarrow> obind (balance (calcHeightAndSize k l' r)) (\<lambda>n. Ok (Some n, newKey, val, True))))
      else
        obind (node_remove key r) (\<lambda>(newRight, newKey, val, removed).
          if \<not> removed then Ok (Some (Inner k h s l r), None, val, False)
          else (case newRight of
              None \<Rightarrow> Ok (Some l, None, val, True)
            | Some r' \<Rightarrow>
                obind (balance (calcHeightAndSize (case newKey of None \<Rightarrow> k | Some k' \<Rightarrow> k') l r'))
                  (\<lambda>n. Ok (Some n, None, val, True)))))"

text \<open>
  The traversal calls a function on every node, parents first, until it asks to stop; the function
  keeps its results in a state.
\<close>

primrec traverse :: "(('k, 'v) IAVLNode \<Rightarrow> 's \<Rightarrow> bool \<times> 's) \<Rightarrow> ('k, 'v) IAVLNode \<Rightarrow> 's \<Rightarrow> bool \<times> 's" where
  "traverse cb (Leaf k v) st = (let (stop, st1) = cb (Leaf k v) st in if stop then (stop, st1) else (False, st1))"
| "traverse cb (Inner k h s l r) st =
     (let (stop, st1) = cb (Inner k h s l r) st in
      if stop then (stop, st1)
      else if h > 0 then
        (let (stop, st2) = traverse cb l st1 in
         if stop then (stop, st2)
         else (let (stop, st3) = traverse cb r st2 in if stop then (stop, st3) else (False, st3)))
      else (False, st1))"

section \<open>Trees\<close>

type_synonym ('k, 'v) IAVLTree = "('k, 'v) IAVLNode option"

definition iavl_Size :: "('k, 'v) IAVLTree \<Rightarrow> int" where
  "iavl_Size t = (case t of None \<Rightarrow> 0 | Some root \<Rightarrow> node_size root)"

definition iavl_Height :: "('k, 'v) IAVLTree \<Rightarrow> int" where
  "iavl_Height t = (case t of None \<Rightarrow> 0 | Some root \<Rightarrow> node_height root)"

definition iavl_Has :: "('k::linorder, 'v) IAVLTree \<Rightarrow> 'k \<Rightarrow> bool" where
  "iavl_Has t key = (case t of None \<Rightarrow> False | Some root \<Rightarrow> node_has root key)"

definition iavl_Set :: "'k::linorder \<Rightarrow> 'v \<Rightarrow> ('k, 'v) IAVLTree \<Rightarrow> (('k, 'v) IAVLTree \<times> bool) outcome" where
  "iavl_Set key val t =
     (case t of
        None \<Rightarrow> Ok (Some (Leaf key val), False)
      | Some root \<Rightarrow> obind (node_set key val root) (\<lambda>(n, updated). Ok (Some n, updated)))"

definition iavl_Get :: "('k::linorder, 'v) IAVLTree \<Rightarrow> 'k \<Rightarrow> int \<times> 'v option" where
  "iavl_Get t key = (case t of None \<Rightarrow> (0, None) | Some root \<Rightarrow> node_get root key)"

definition iavl_GetByIndex :: "('k, 'v) IAVLTree \<Rightarrow> int \<Rightarrow> ('k \<times> 'v) option outcome" where
  "iavl_GetByIndex t index =
     (case t of None \<Rightarrow> Ok None | Some root \<Rightarrow> obind (node_getByIndex root index) (\<lambda>kv. Ok (Some kv)))"

definition iavl_Remove ::
  "'k::linorder \<Rightarrow> ('k, 'v) IAVLTree \<Rightarrow> (('k, 'v) IAVLTree \<times> 'v option \<times> bool) outcome" where
  "iavl_Remove key t =
     (case t of
        None \<Rightarrow> Ok (None, None, False)
      | Some root \<Rightarrow> obind (node_remove key root) (\<lambda>(newRoot, newKey, val, removed).
          if removed then Ok (newRoot, val, True) else Ok (t, None, False)))"

definition iavl_Iterate ::
  "('k \<Rightarrow> 'v \<Rightarrow> 's \<Rightarrow> bool \<times> 's) \<Rightarrow> ('k, 'v) IAVLTree \<Rightarrow> 's \<Rightarrow> bool \<times> 's" where
  "iavl_Iterate f t st =
     (case t of
        None \<Rightarrow> (False, st)
      | Some root \<Rightarrow>
          traverse (\<lambda>n st. case n of Leaf k v \<Rightarrow> f k v st | Inner k h s l r \<Rightarrow> (False, st)) root st)"

section \<open>The invariant\<close>

primrec node_entries :: "('k, 'v) IAVLNode \<Rightarrow> ('k, 'v) gomap" where
  "node_entries (Leaf k v) = [(k, v)]"
| "node_entries (Inner k h s l r) = node_entries l @ node_entries r"

primrec first_key :: "('k, 'v) IAVLNode \<Rightarrow> 'k" where
  "first_key (Leaf k v) = k"
| "first_key (Inner k h s l r) = first_key l"

primrec balanced :: "('k, 'v) IAVLNode \<Rightarrow> bool" where
  "balanced (Leaf k v) \<longleftrightarrow> True"
| "balanced (Inner k h s l r) \<longleftrightarrow>
     balanced l \<and> balanced r \<and> k = first_key r \<and>
     h = max (node_height l) (node_height r) + 1 \<and> s = node_size l + node_size r \<and>
     \<bar>node_height l - node_height r\<bar> \<le> 1"

definition small :: "('k, 'v) IAVLNode \<Rightarrow> bool" where
  "small n \<longleftrightarrow> length (node_entries n) < 2 ^ 63"

lemma node_size_length: "balanced n \<Longrightarrow> node_size n = int (length (node_entries n))"
  by (induction n) auto

lemma node_entries_hd: "\<exists>v es. node_entries n = (first_key n, v) # es"
  by (induction n) auto

lemma node_entries_not_Nil [simp]: "node_entries n \<noteq> []"
  using node_entries_hd [of n] by auto

lemma node_height_nonneg: "balanced n \<Longrightarrow> 0 \<le> node_height n"
  by (induction n) auto

lemma inner_height_pos: "balanced (Inner k h s l r) \<Longrightarrow> 0 < h"
  using node_height_nonneg [of l] by auto

text \<open>An AVL tree of height \<open>h\<close> has at least \<open>2 ^ (h / 2)\<close> leaves.\<close>

lemma height_size_bound: "balanced n \<Longrightarrow> 2 ^ nat (node_height n div 2) \<le> length (node_entries n)"
proof (induction n)
  case (Inner k h s l r)
  define m where "m = min (node_height l) (node_height r)"
  have m: "0 \<le> m" "m \<le> node_height l" "m \<le> node_height r" "h \<le> m + 2"
    using Inner.prems node_height_nonneg [of l] node_height_nonneg [of r] by (auto simp: m_def)
  have IH: "2 ^ nat (m div 2) \<le> length (node_entries l)" "2 ^ nat (m div 2) \<le> length (node_entries r)"
  proof -
    have "nat (m div 2) \<le> nat (node_height l div 2)" "nat (m div 2) \<le> nat (node_height r div 2)"
      using m by (auto intro!: nat_mono zdiv_mono1)
    then have "(2 :: nat) ^ nat (m div 2) \<le> 2 ^ nat (node_height l div 2)"
      "(2 :: nat) ^ nat (m div 2) \<le> 2 ^ nat (node_height r div 2)"
      by (simp_all only: power_increasing one_le_numeral)
    moreover have "2 ^ nat (node_height l div 2) \<le> length (node_entries l)"
      "2 ^ nat (node_height r div 2) \<le> length (node_entries r)"
      using Inner by simp_all
    ultimately show "2 ^ nat (m div 2) \<le> length (node_entries l)"
      "2 ^ nat (m div 2) \<le> length (node_entries r)" by (blast intro: order_trans)+
  qed
  have "nat (h div 2) \<le> Suc (nat (m div 2))" using m by linarith
  then have "(2 :: nat) ^ nat (h div 2) \<le> 2 * 2 ^ nat (m div 2)"
    by (metis power_Suc power_increasing one_le_numeral)
  with IH show ?case by simp
qed simp

lemma small_height: "balanced n \<Longrightarrow> small n \<Longrightarrow> node_height n < 126"
proof (rule ccontr)
  assume n: "balanced n" "small n" "\<not> node_height n < 126"
  then have "(63 :: nat) \<le> nat (node_height n div 2)" by linarith
  then have "(2 :: nat) ^ 63 \<le> 2 ^ nat (node_height n div 2)" by (simp only: power_increasing one_le_numeral)
  with height_size_bound [OF n(1)] n(2) show False by (simp add: small_def)
qed

section \<open>Balancing\<close>

lemma calcHeightAndSize_eq:
  assumes "balanced l" "balanced r" "length (node_entries l) + length (node_entries r) < 2 ^ 63"
  shows "calcHeightAndSize k l r =
    Inner k (max (node_height l) (node_height r) + 1) (node_size l + node_size r) l r"
proof -
  have h: "node_height l < 126" "node_height r < 126"
    using assms small_height [of l] small_height [of r] by (auto simp: small_def)
  have "0 \<le> node_height l" "0 \<le> node_height r" using assms by (simp_all add: node_height_nonneg)
  with h have "wrap8 (max (node_height l) (node_height r) + 1) = max (node_height l) (node_height r) + 1"
    by (simp add: wrap8_def)
  moreover have "in_int64 (node_size l + node_size r)"
    using assms by (simp add: node_size_length int64_simps)
  ultimately show ?thesis by (simp add: calcHeightAndSize_def)
qed

lemma balanced_calcHeightAndSize:
  assumes "balanced l" "balanced r" "length (node_entries l) + length (node_entries r) < 2 ^ 63"
    "k = first_key r" "\<bar>node_height l - node_height r\<bar> \<le> 1"
  shows "balanced (calcHeightAndSize k l r)"
  using assms by (simp add: calcHeightAndSize_eq)

text \<open>
  Two subtrees whose heights differ by at most two are joined to a balanced tree with the same
  entries, and the height is that of the higher one or one more.
\<close>

lemma balance_join:
  assumes "balanced l" "balanced r" "length (node_entries l) + length (node_entries r) < 2 ^ 63"
    "k = first_key r" "\<bar>node_height l - node_height r\<bar> \<le> 2"
  shows "\<exists>n. balance (calcHeightAndSize k l r) = Ok n \<and> balanced n \<and>
    node_entries n = node_entries l @ node_entries r \<and> first_key n = first_key l \<and>
    node_height n \<in> {max (node_height l) (node_height r), max (node_height l) (node_height r) + 1} \<and>
    (\<bar>node_height l - node_height r\<bar> \<le> 1 \<longrightarrow> node_height n = max (node_height l) (node_height r) + 1)"
proof -
  consider "\<bar>node_height l - node_height r\<bar> \<le> 1" | "node_height l = node_height r + 2"
    | "node_height r = node_height l + 2"
    using assms(5) by linarith
  then show ?thesis
  proof cases
    case 1
    then have "\<not> 1 < node_height l - node_height r" "\<not> node_height l - node_height r < - 1" by linarith+
    then show ?thesis using assms 1 by (simp add: calcHeightAndSize_eq)
  next
    case 2
    then obtain lk lh ls ll lr where l: "l = Inner lk lh ls ll lr"
      using assms(2) node_height_nonneg [of r] by (cases l) auto
    show ?thesis
    proof (cases "node_height ll \<ge> node_height lr")
      case True
      then show ?thesis using assms 2 by (simp add: l calcHeightAndSize_eq) arith
    next
      case False
      then obtain mk mh ms ml mr where lr: "lr = Inner mk mh ms ml mr"
        using assms(1) node_height_nonneg [of ll] by (cases lr) (auto simp: l)
      show ?thesis using assms 2 False by (auto simp: l lr calcHeightAndSize_eq)
    qed
  next
    case 3
    then obtain rk rh rs rl rr where r: "r = Inner rk rh rs rl rr"
      using assms(1) node_height_nonneg [of l] by (cases r) auto
    show ?thesis
    proof (cases "node_height rl \<le> node_height rr")
      case True
      then show ?thesis using assms 3 by (simp add: r calcHeightAndSize_eq) arith
    next
      case False
      then obtain mk mh ms ml mr where rl: "rl = Inner mk mh ms ml mr"
        using assms(2) node_height_nonneg [of rr] by (cases rl) (auto simp: r)
      show ?thesis using assms 3 False by (auto simp: r rl calcHeightAndSize_eq)
    qed
  qed
qed

section \<open>Refinement of a sorted association list\<close>

definition node_ok :: "('k::linorder, 'v) IAVLNode \<Rightarrow> bool" where
  "node_ok n \<longleftrightarrow> balanced n \<and> tree_ok (node_entries n)"

lemma tree_ok_append:
  "tree_ok (xs @ ys) \<longleftrightarrow> tree_ok xs \<and> tree_ok ys \<and> (\<forall>x\<in>set xs. \<forall>y\<in>set ys. fst x < fst y)"
  by (auto simp: tree_ok_def sorted_wrt_append)

lemma first_key_least: "tree_ok (node_entries n) \<Longrightarrow> x \<in> set (node_entries n) \<Longrightarrow> first_key n \<le> fst x"
  using node_entries_hd [of n] by (fastforce simp: tree_ok_def)

lemma first_key_in: "\<exists>v. (first_key n, v) \<in> set (node_entries n)"
  using node_entries_hd [of n] by auto

text \<open>The key of an inner node separates its subtrees.\<close>

lemma node_ok_Inner:
  "node_ok (Inner k h s l r) \<Longrightarrow>
     node_ok l \<and> node_ok r \<and> k = first_key r \<and>
     (\<forall>x\<in>set (node_entries l). fst x < k) \<and> (\<forall>y\<in>set (node_entries r). k \<le> fst y)"
  using first_key_in [of r] first_key_least [of r] by (fastforce simp: node_ok_def tree_ok_append)

lemma tree_Set_append_left:
  "\<forall>y\<in>set ys. k < fst y \<Longrightarrow> tree_Set k v (xs @ ys) = tree_Set k v xs @ ys"
  by (induction k v xs rule: tree_Set.induct) (cases ys, auto)

lemma tree_Set_append_right:
  "\<forall>x\<in>set xs. fst x < k \<Longrightarrow> tree_Set k v (xs @ ys) = xs @ tree_Set k v ys"
  by (induction k v xs rule: tree_Set.induct) auto

lemma tree_Set_length: "length (tree_Set k v m) \<le> Suc (length m)"
  by (induction k v m rule: tree_Set.induct) auto

lemma tree_Set_hd:
  "m \<noteq> [] \<Longrightarrow> fst (hd (tree_Set k v m)) = (if k < fst (hd m) then k else fst (hd m))"
  by (cases m) auto

lemma first_key_hd: "first_key n = fst (hd (node_entries n))"
  using node_entries_hd [of n] by auto

lemma map_of_none_if: "\<forall>x\<in>set m. fst x \<noteq> k \<Longrightarrow> map_of m k = None"
  by (auto simp: map_of_eq_None_iff)

text \<open>
  Setting a key in a node: the entries change as those of a sorted list, the result is balanced and
  at most one higher.
\<close>

lemma node_set_correct:
  assumes "node_ok n" "length (node_entries n) < 2 ^ 63 - 1"
  shows "\<exists>n' updated. node_set key val n = Ok (n', updated) \<and> balanced n' \<and>
    node_entries n' = tree_Set key val (node_entries n) \<and>
    (updated \<longleftrightarrow> map_of (node_entries n) key \<noteq> None) \<and>
    (updated \<longrightarrow> node_height n' = node_height n \<and> node_size n' = node_size n) \<and>
    node_height n' \<in> {node_height n, node_height n + 1}"
  using assms
proof (induction n)
  case (Inner k h s l r)
  note ok = node_ok_Inner [OF Inner.prems(1)]
  have b: "balanced l" "balanced r" "h = max (node_height l) (node_height r) + 1"
    "s = node_size l + node_size r" "\<bar>node_height l - node_height r\<bar> \<le> 1"
    using Inner.prems(1) by (auto simp: node_ok_def)
  show ?case
  proof (cases "key < k")
    case True
    then have key: "\<forall>y\<in>set (node_entries r). key < fst y" using ok by fastforce
    have mo: "map_of (node_entries r) key = None" using key by (intro map_of_none_if) auto
    obtain l' u where l': "node_set key val l = Ok (l', u)" "balanced l'"
      "node_entries l' = tree_Set key val (node_entries l)" "u \<longleftrightarrow> map_of (node_entries l) key \<noteq> None"
      "u \<longrightarrow> node_height l' = node_height l \<and> node_size l' = node_size l"
      "node_height l' \<in> {node_height l, node_height l + 1}"
      using Inner.IH(1) ok Inner.prems(2) by auto
    have len: "length (node_entries l') + length (node_entries r) < 2 ^ 63"
      using tree_Set_length [of key val "node_entries l"] Inner.prems(2) by (simp add: l'(3))
    show ?thesis
    proof (cases u)
      case True
      then show ?thesis using l' \<open>key < k\<close> b ok mo by (auto simp: tree_Set_append_left [OF key] map_add_def)
    next
      case False
      have "\<bar>node_height l' - node_height r\<bar> \<le> 2" using l'(6) b(5) by auto
      from balance_join [OF l'(2) b(2) len conjunct1 [OF conjunct2 [OF conjunct2 [OF ok]]] this]
      obtain n' where n': "balance (calcHeightAndSize k l' r) = Ok n'" "balanced n'"
        "node_entries n' = node_entries l' @ node_entries r"
        "node_height n' \<in> {max (node_height l') (node_height r), max (node_height l') (node_height r) + 1}"
        "\<bar>node_height l' - node_height r\<bar> \<le> 1 \<longrightarrow> node_height n' = max (node_height l') (node_height r) + 1"
        by blast
      have "node_height n' = h \<or> node_height n' = h + 1"
        using n'(4,5) l'(6) b(3,5) by (auto simp: max_def split: if_splits)
      then show ?thesis using l'(1,3,4) n'(1-3) False \<open>key < k\<close> mo
        by (auto simp: tree_Set_append_left [OF key] map_add_def)
    qed
  next
    case False
    then have key: "\<forall>x\<in>set (node_entries l). fst x < key" using ok by fastforce
    have mo: "map_of (node_entries l) key = None" using key by (intro map_of_none_if) auto
    obtain r' u where r': "node_set key val r = Ok (r', u)" "balanced r'"
      "node_entries r' = tree_Set key val (node_entries r)" "u \<longleftrightarrow> map_of (node_entries r) key \<noteq> None"
      "u \<longrightarrow> node_height r' = node_height r \<and> node_size r' = node_size r"
      "node_height r' \<in> {node_height r, node_height r + 1}"
      using Inner.IH(2) ok Inner.prems(2) by auto
    have len: "length (node_entries l) + length (node_entries r') < 2 ^ 63"
      using tree_Set_length [of key val "node_entries r"] Inner.prems(2) by (simp add: r'(3))
    have k: "k = first_key r'"
      using ok False by (simp add: first_key_hd r'(3) tree_Set_hd)
    show ?thesis
    proof (cases u)
      case True
      then show ?thesis using r' False b k mo by (auto simp: tree_Set_append_right [OF key] map_add_def)
    next
      case u: False
      have "\<bar>node_height l - node_height r'\<bar> \<le> 2" using r'(6) b(5) by auto
      from balance_join [OF b(1) r'(2) len k this]
      obtain n' where n': "balance (calcHeightAndSize k l r') = Ok n'" "balanced n'"
        "node_entries n' = node_entries l @ node_entries r'"
        "node_height n' \<in> {max (node_height l) (node_height r'), max (node_height l) (node_height r') + 1}"
        "\<bar>node_height l - node_height r'\<bar> \<le> 1 \<longrightarrow> node_height n' = max (node_height l) (node_height r') + 1"
        by blast
      have "node_height n' = h \<or> node_height n' = h + 1"
        using n'(4,5) r'(6) b(3,5) by (auto simp: max_def split: if_splits)
      then show ?thesis using r'(1,3,4) n'(1-3) u False mo
        by (auto simp: tree_Set_append_right [OF key] map_add_def)
    qed
  qed
qed auto

lemma delete_append: "AList.delete k (xs @ ys) = AList.delete k xs @ AList.delete k ys"
  by (simp add: AList.delete_eq)

lemma delete_absent: "\<forall>x\<in>set m. fst x \<noteq> k \<Longrightarrow> AList.delete k m = m"
  by (induction m) auto

lemma delete_hd: "m \<noteq> [] \<Longrightarrow> fst (hd m) \<noteq> k \<Longrightarrow> fst (hd (AList.delete k m)) = fst (hd m)"
  by (cases m) auto

lemma length_delete: "length (AList.delete k m) \<le> length m"
  by (induction m) auto

text \<open>What a removal did to a node.\<close>

definition removal_ok :: "'k::linorder \<Rightarrow> ('k, 'v) IAVLNode \<Rightarrow> ('k, 'v) removal \<Rightarrow> bool" where
  "removal_ok key n res =
     (case res of (new, newKey, val, removed) \<Rightarrow>
        (removed \<longleftrightarrow> map_of (node_entries n) key \<noteq> None) \<and> val = map_of (node_entries n) key \<and>
        (removed \<longrightarrow>
          (case new of
             None \<Rightarrow> \<exists>v. n = Leaf key v
           | Some n' \<Rightarrow> balanced n' \<and> node_entries n' = AList.delete key (node_entries n) \<and>
               newKey = (if key = first_key n then Some (first_key n') else None) \<and>
               node_height n' \<in> {node_height n - 1, node_height n})))"

lemma removal_okD:
  assumes "removal_ok key n (new, newKey, val, removed)"
  shows "removed \<longleftrightarrow> map_of (node_entries n) key \<noteq> None" "val = map_of (node_entries n) key"
    "removed \<Longrightarrow> new = None \<Longrightarrow> \<exists>v. n = Leaf key v"
    "removed \<Longrightarrow> new = Some n' \<Longrightarrow> balanced n' \<and> node_entries n' = AList.delete key (node_entries n) \<and>
       newKey = (if key = first_key n then Some (first_key n') else None) \<and>
       node_height n' \<in> {node_height n - 1, node_height n}"
  using assms by (auto simp: removal_ok_def)

text \<open>A subtree that became at most one lower is joined with the other one.\<close>

lemma rejoin:
  assumes "balanced l" "balanced r" "length (node_entries l) + length (node_entries r) < 2 ^ 63"
    "k = first_key r" "\<bar>hl - hr\<bar> \<le> 1"
    "node_height l = hl - 1 \<and> node_height r = hr \<or> node_height l = hl \<and> node_height r = hr - 1 \<or>
     node_height l = hl \<and> node_height r = hr"
  shows "\<exists>n. balance (calcHeightAndSize k l r) = Ok n \<and> balanced n \<and>
    node_entries n = node_entries l @ node_entries r \<and> first_key n = first_key l \<and>
    node_height n \<in> {max hl hr, max hl hr + 1}"
proof -
  have "\<bar>node_height l - node_height r\<bar> \<le> 2" using assms(5,6) by auto
  from balance_join [OF assms(1-4) this] obtain n where n:
    "balance (calcHeightAndSize k l r) = Ok n" "balanced n"
    "node_entries n = node_entries l @ node_entries r" "first_key n = first_key l"
    "node_height n \<in> {max (node_height l) (node_height r), max (node_height l) (node_height r) + 1}"
    "\<bar>node_height l - node_height r\<bar> \<le> 1 \<longrightarrow> node_height n = max (node_height l) (node_height r) + 1"
    by blast
  have "node_height n \<in> {max hl hr, max hl hr + 1}"
    using n(5,6) assms(5,6) by (auto simp: max_def split: if_splits)
  with n show ?thesis by blast
qed

lemma node_remove_correct:
  assumes "node_ok n" "length (node_entries n) < 2 ^ 63"
  shows "\<exists>res. node_remove key n = Ok res \<and> removal_ok key n res"
  using assms
proof (induction n)
  case (Leaf k v)
  then show ?case by (auto simp: removal_ok_def)
next
  case (Inner k h s l r)
  note ok = node_ok_Inner [OF Inner.prems(1)]
  have b: "balanced l" "balanced r" "h = max (node_height l) (node_height r) + 1"
    "\<bar>node_height l - node_height r\<bar> \<le> 1"
    using Inner.prems(1) by (auto simp: node_ok_def)
  show ?case
  proof (cases "key < k")
    case True
    have key: "\<forall>y\<in>set (node_entries r). fst y \<noteq> key" using ok True by fastforce
    then have r: "map_of (node_entries r) key = None" "AList.delete key (node_entries r) = node_entries r"
      by (auto intro: map_of_none_if delete_absent)
    obtain new newKey val removed where res: "node_remove key l = Ok (new, newKey, val, removed)"
      "removal_ok key l (new, newKey, val, removed)"
      using Inner ok by fastforce
    note d = removal_okD [OF res(2)]
    show ?thesis
    proof (cases "removed \<and> new \<noteq> None")
      case True
      then obtain l' where l': "new = Some l'" by auto
      note d' = d(4) [OF conjunct1 [OF True] l']
      have "length (node_entries l') + length (node_entries r) < 2 ^ 63"
        using d' length_delete [of key "node_entries l"] Inner.prems(2) by simp
      from rejoin [OF conjunct1 [OF d'] b(2) this _ b(4), of k] obtain n where
        "balance (calcHeightAndSize k l' r) = Ok n" "balanced n"
        "node_entries n = node_entries l' @ node_entries r" "first_key n = first_key l'"
        "node_height n \<in> {h - 1, h}"
        using ok d' b(3) by auto
      then show ?thesis
        using \<open>key < k\<close> True res(1) l' d' d(1,2) r
        by (auto simp: removal_ok_def map_add_def delete_append)
    next
      case False
      then show ?thesis
        using \<open>key < k\<close> res(1) d(1-3) r ok b node_height_nonneg [OF b(1)] node_height_nonneg [OF b(2)] by (auto simp: removal_ok_def map_add_def)
    qed
  next
    case False
    have key: "\<forall>x\<in>set (node_entries l). fst x \<noteq> key" using ok False by fastforce
    then have l: "map_of (node_entries l) key = None" "AList.delete key (node_entries l) = node_entries l"
      "first_key l \<noteq> key"
      using first_key_in [of l] by (auto intro: map_of_none_if delete_absent)
    obtain new newKey val removed where res: "node_remove key r = Ok (new, newKey, val, removed)"
      "removal_ok key r (new, newKey, val, removed)"
      using Inner ok by fastforce
    note d = removal_okD [OF res(2)]
    show ?thesis
    proof (cases "removed \<and> new \<noteq> None")
      case True
      then obtain r' where r': "new = Some r'" by auto
      note d' = d(4) [OF conjunct1 [OF True] r']
      have len: "length (node_entries l) + length (node_entries r') < 2 ^ 63"
        using d' length_delete [of key "node_entries r"] Inner.prems(2) by simp
      have k: "(case newKey of None \<Rightarrow> k | Some k' \<Rightarrow> k') = first_key r'"
        using d' ok by (auto simp: first_key_hd delete_hd)
      from rejoin [OF b(1) conjunct1 [OF d'] len k b(4)] obtain n where
        "balance (calcHeightAndSize (case newKey of None \<Rightarrow> k | Some k' \<Rightarrow> k') l r') = Ok n" "balanced n"
        "node_entries n = node_entries l @ node_entries r'" "first_key n = first_key l"
        "node_height n \<in> {h - 1, h}"
        using d' b(3) by auto
      then show ?thesis
        using False True res(1) r' d' d(1,2) l
        by (auto simp: removal_ok_def map_add_def delete_append)
    next
      case False
      then show ?thesis
        using \<open>\<not> key < k\<close> res(1) d(1-3) l ok b node_height_nonneg [OF b(1)] node_height_nonneg [OF b(2)]
        by (auto simp: removal_ok_def map_add_def delete_append)
    qed
  qed
qed

section \<open>Lookups\<close>

lemma node_has_correct: "node_ok n \<Longrightarrow> node_has n key \<longleftrightarrow> map_of (node_entries n) key \<noteq> None"
proof (induction n)
  case (Inner k h s l r)
  note ok = node_ok_Inner [OF Inner.prems]
  have "map_of (node_entries r) key = None" if "key < k"
    using ok that by (intro map_of_none_if) fastforce
  moreover have "map_of (node_entries l) key = None" if "\<not> key < k"
    using ok that by (intro map_of_none_if) fastforce
  moreover have "map_of (node_entries r) k \<noteq> None"
    using ok first_key_in [of r] by (auto simp: map_of_eq_None_iff intro: rev_image_eqI)
  ultimately show ?case using Inner.IH ok by (auto simp: map_add_def split: option.splits)
qed auto

lemma node_get_correct:
  assumes "node_ok n" "small n"
  shows "\<exists>i. node_get n key = (int i, map_of (node_entries n) key) \<and> i < length (node_entries n) \<and>
    (\<forall>v. map_of (node_entries n) key = Some v \<longrightarrow> node_entries n ! i = (key, v))"
  using assms
proof (induction n)
  case (Inner k h s l r)
  note ok = node_ok_Inner [OF Inner.prems(1)]
  have sm: "small l" "small r" using Inner.prems(2) by (auto simp: small_def)
  have s: "s = int (length (node_entries l) + length (node_entries r))" "node_size r = int (length (node_entries r))"
    using Inner.prems(1) by (auto simp: node_ok_def node_size_length)
  show ?case
  proof (cases "key < k")
    case True
    then have "map_of (node_entries r) key = None" using ok by (intro map_of_none_if) fastforce
    moreover obtain i where "node_get l key = (int i, map_of (node_entries l) key)" "i < length (node_entries l)"
      "\<forall>v. map_of (node_entries l) key = Some v \<longrightarrow> node_entries l ! i = (key, v)"
      using Inner.IH(1) ok sm by blast
    ultimately show ?thesis using True by (intro exI [of _ i]) (simp add: map_add_def nth_append split: option.splits)
  next
    case False
    then have l: "map_of (node_entries l) key = None" using ok by (intro map_of_none_if) fastforce
    obtain i where i: "node_get r key = (int i, map_of (node_entries r) key)" "i < length (node_entries r)"
      "\<forall>v. map_of (node_entries r) key = Some v \<longrightarrow> node_entries r ! i = (key, v)"
      using Inner.IH(2) ok sm by blast
    have "wrap64 (int i + wrap64 (s - node_size r)) = int (length (node_entries l) + i)"
      using i(2) Inner.prems(2) by (simp add: s small_def int64_simps)
    then show ?thesis
      using False i l by (intro exI [of _ "length (node_entries l) + i"]) (auto simp: map_add_def nth_append split: option.splits)
  qed
qed auto

lemma node_getByIndex_correct:
  assumes "balanced n" "small n" "in_int64 i"
  shows "node_getByIndex n i =
    (if 0 \<le> i \<and> i < int (length (node_entries n)) then Ok (node_entries n ! nat i)
     else Panic ''getByIndex asked for invalid index'')"
  using assms
proof (induction n arbitrary: i)
  case (Inner k h s l r)
  have sm: "small l" "small r" "balanced l" "balanced r" using Inner.prems by (auto simp: small_def)
  have sz: "node_size l = int (length (node_entries l))" using sm by (simp add: node_size_length)
  show ?case
  proof (cases "i < node_size l")
    case True
    then show ?thesis using Inner.IH(1) [OF sm(3,1) Inner.prems(3)] by (auto simp: sz nth_append)
  next
    case False
    then have i: "in_int64 (i - node_size l)"
      using Inner.prems(3) by (auto simp: sz int64_simps)
    then show ?thesis using False Inner.IH(2) [OF sm(4,2) i]
      by (auto simp: sz nth_append nat_diff_distrib)
  qed
qed auto

fun visit :: "('k \<Rightarrow> 'v \<Rightarrow> 's \<Rightarrow> bool \<times> 's) \<Rightarrow> ('k, 'v) gomap \<Rightarrow> 's \<Rightarrow> bool \<times> 's" where
  "visit f [] st = (False, st)"
| "visit f ((k, v) # m) st = (let (stop, st1) = f k v st in if stop then (True, st1) else visit f m st1)"

lemma visit_append:
  "visit f (xs @ ys) st = (let (stop, st1) = visit f xs st in if stop then (True, st1) else visit f ys st1)"
  by (induction f xs st rule: visit.induct) (auto split: prod.splits)

lemma traverse_visit:
  "balanced n \<Longrightarrow>
     traverse (\<lambda>n st. case n of Leaf k v \<Rightarrow> f k v st | Inner k h s l r \<Rightarrow> (False, st)) n st =
     visit f (node_entries n) st"
proof (induction n arbitrary: st)
  case (Inner k h s l r)
  then show ?case using inner_height_pos [OF Inner.prems]
    by (auto simp: visit_append split: prod.splits)
qed (auto split: prod.splits)

section \<open>The interface the ledger uses\<close>

text \<open>
  A tree of the ledger: writing and removing a key, and the entries in the order of their keys. Any
  sequence of these operations behaves as on a sorted association list as long as the number of
  entries fits in an \<open>int\<close>.
\<close>

datatype ('k, 'v) tree_op = SetOp 'k 'v | RemoveOp 'k

fun list_op :: "('k::linorder, 'v) tree_op \<Rightarrow> ('k, 'v) gomap \<Rightarrow> ('k, 'v) gomap" where
  "list_op (SetOp k v) m = tree_Set k v m"
| "list_op (RemoveOp k) m = snd (tree_Remove k m)"

fun list_reply :: "('k::linorder, 'v) tree_op \<Rightarrow> ('k, 'v) gomap \<Rightarrow> bool \<times> 'v option" where
  "list_reply (SetOp k v) m = (map_of m k \<noteq> None, None)"
| "list_reply (RemoveOp k) m = (fst (tree_Remove k m), map_of m k)"

primrec run_ops ::
  "(('k, 'v) tree_op \<Rightarrow> 't \<Rightarrow> ('t \<times> bool \<times> 'v option) outcome) \<Rightarrow> ('k, 'v) tree_op list \<Rightarrow> 't
     \<Rightarrow> ('t \<times> (bool \<times> 'v option) list) outcome" where
  "run_ops run_op [] t = Ok (t, [])"
| "run_ops run_op (opn # opns) t =
     obind (run_op opn t) (\<lambda>(t', reply).
     obind (run_ops run_op opns t') (\<lambda>(t'', replies). Ok (t'', reply # replies)))"

primrec list_replies :: "('k::linorder, 'v) tree_op list \<Rightarrow> ('k, 'v) gomap \<Rightarrow> (bool \<times> 'v option) list" where
  "list_replies [] m = []"
| "list_replies (opn # opns) m = list_reply opn m # list_replies opns (list_op opn m)"

lemma list_op_length: "length (list_op opn m) \<le> Suc (length m)"
  using length_delete [of _ m] by (cases opn) (auto simp: tree_Set_length tree_Remove_def intro: le_SucI)

lemma list_ops_length: "length (fold list_op opns m) \<le> length m + length opns"
proof (induction opns arbitrary: m)
  case (Cons opn opns)
  show ?case using Cons [of "list_op opn m"] list_op_length [of opn m] by simp
qed simp

locale ledger_tree =
  fixes t_ok :: "'t \<Rightarrow> bool"
    and t_entries :: "'t \<Rightarrow> ('k::linorder, 'v) gomap"
    and t_new :: 't
    and t_op :: "('k, 'v) tree_op \<Rightarrow> 't \<Rightarrow> ('t \<times> bool \<times> 'v option) outcome"
  assumes new_ok: "t_ok t_new" and new_entries: "t_entries t_new = []"
    and op_refines: "t_ok t \<Longrightarrow> length (t_entries t) < 2 ^ 63 - 1 \<Longrightarrow>
      \<exists>t'. t_op opn t = Ok (t', list_reply opn (t_entries t)) \<and> t_ok t' \<and>
        t_entries t' = list_op opn (t_entries t)"
begin

lemma run_refines:
  "t_ok t \<Longrightarrow> length (t_entries t) + length opns < 2 ^ 63 \<Longrightarrow>
     \<exists>t'. run_ops t_op opns t = Ok (t', list_replies opns (t_entries t)) \<and> t_ok t' \<and>
       t_entries t' = fold list_op opns (t_entries t)"
proof (induction opns arbitrary: t)
  case (Cons opn opns)
  then obtain t' where t': "t_op opn t = Ok (t', list_reply opn (t_entries t))" "t_ok t'"
    "t_entries t' = list_op opn (t_entries t)"
    using op_refines [of t opn] by auto
  moreover have "length (t_entries t') + length opns < 2 ^ 63"
    using Cons.prems list_op_length [of opn "t_entries t"] t'(3) by simp
  ultimately show ?case using Cons.IH [of t'] by auto
qed simp

lemma run_from_new:
  "length opns < 2 ^ 63 \<Longrightarrow>
     \<exists>t. run_ops t_op opns t_new = Ok (t, list_replies opns []) \<and> t_ok t \<and> t_entries t = fold list_op opns []"
  using run_refines [of t_new opns] by (simp add: new_ok new_entries)

end

definition tree_entries :: "('k, 'v) IAVLTree \<Rightarrow> ('k, 'v) gomap" where
  "tree_entries t = (case t of None \<Rightarrow> [] | Some root \<Rightarrow> node_entries root)"

definition iavl_ok :: "('k::linorder, 'v) IAVLTree \<Rightarrow> bool" where
  "iavl_ok t = (case t of None \<Rightarrow> True | Some root \<Rightarrow> node_ok root)"

fun iavl_op :: "('k::linorder, 'v) tree_op \<Rightarrow> ('k, 'v) IAVLTree \<Rightarrow> (('k, 'v) IAVLTree \<times> bool \<times> 'v option) outcome" where
  "iavl_op (SetOp k v) t = obind (iavl_Set k v t) (\<lambda>(t', updated). Ok (t', updated, None))"
| "iavl_op (RemoveOp k) t = obind (iavl_Remove k t) (\<lambda>(t', val, removed). Ok (t', removed, val))"

lemma iavl_Set_refines:
  assumes "iavl_ok t" "length (tree_entries t) < 2 ^ 63 - 1"
  shows "\<exists>t'. iavl_Set k v t = Ok (t', map_of (tree_entries t) k \<noteq> None) \<and> iavl_ok t' \<and>
    tree_entries t' = tree_Set k v (tree_entries t)"
proof (cases t)
  case None
  then show ?thesis by (simp add: iavl_Set_def iavl_ok_def tree_entries_def node_ok_def tree_ok_def)
next
  case (Some n)
  then obtain n' u where n: "node_set k v n = Ok (n', u)" "balanced n'"
    "node_entries n' = tree_Set k v (node_entries n)" "u \<longleftrightarrow> map_of (node_entries n) k \<noteq> None"
    using node_set_correct [of n k v] assms by (auto simp: iavl_ok_def tree_entries_def)
  moreover have "tree_ok (node_entries n')"
    unfolding n(3) using assms Some by (intro tree_ok_Set) (simp add: iavl_ok_def node_ok_def)
  ultimately show ?thesis using Some by (simp add: iavl_Set_def iavl_ok_def tree_entries_def node_ok_def)
qed

lemma iavl_Remove_refines:
  assumes "iavl_ok t" "length (tree_entries t) < 2 ^ 63"
  shows "\<exists>t'. iavl_Remove k t = Ok (t', map_of (tree_entries t) k, map_of (tree_entries t) k \<noteq> None) \<and>
    iavl_ok t' \<and> tree_entries t' = snd (tree_Remove k (tree_entries t))"
proof (cases t)
  case None
  then show ?thesis by (simp add: iavl_Remove_def iavl_ok_def tree_entries_def tree_Remove_def)
next
  case (Some n)
  have n: "node_ok n" "length (node_entries n) < 2 ^ 63"
    using assms Some by (auto simp: iavl_ok_def tree_entries_def)
  obtain new nk val removed where r: "node_remove k n = Ok (new, nk, val, removed)"
    "removal_ok k n (new, nk, val, removed)"
    using node_remove_correct [OF n, of k] by auto
  note d = removal_okD [OF r(2)]
  show ?thesis
  proof (cases "removed \<and> new \<noteq> None")
    case True
    then obtain n' where n': "new = Some n'" by auto
    note d' = d(4) [OF conjunct1 [OF True] n']
    moreover have "tree_ok (node_entries n')"
      using d' tree_ok_Remove [of "node_entries n" k] n(1) by (simp add: node_ok_def tree_Remove_def)
    ultimately show ?thesis using Some r(1) n' True d(1,2)
      by (simp add: iavl_Remove_def iavl_ok_def tree_entries_def tree_Remove_def node_ok_def)
  next
    case False
    have "removed \<Longrightarrow> AList.delete k (node_entries n) = []" using False d(3) by auto
    moreover have "\<not> removed \<Longrightarrow> AList.delete k (node_entries n) = node_entries n"
      using d(1) by (intro delete_absent) (auto simp: map_of_eq_None_iff)
    ultimately show ?thesis using Some False r(1) d(1,2) n(1)
      by (cases removed) (auto simp: iavl_Remove_def iavl_ok_def tree_entries_def tree_Remove_def)
  qed
qed

interpretation iavl: ledger_tree iavl_ok tree_entries None iavl_op
proof unfold_locales
  fix t :: "('a, 'b) IAVLTree" and opn
  assume t: "iavl_ok t" "length (tree_entries t) < 2 ^ 63 - 1"
  then have t': "length (tree_entries t) < 2 ^ 63" by simp
  show "\<exists>t'. iavl_op opn t = Ok (t', list_reply opn (tree_entries t)) \<and> iavl_ok t' \<and>
      tree_entries t' = list_op opn (tree_entries t)"
  proof (cases opn)
    case (SetOp k v)
    with iavl_Set_refines [OF t, of k v] show ?thesis by auto
  next
    case (RemoveOp k)
    with iavl_Remove_refines [OF t(1) t', of k] show ?thesis by (auto simp: tree_Remove_def)
  qed
qed (simp_all add: iavl_ok_def tree_entries_def)

interpretation sorted_list: ledger_tree tree_ok "\<lambda>m. m" "[]" "\<lambda>opn m. Ok (list_op opn m, list_reply opn m)"
proof unfold_locales
  fix m :: "('a, 'b) gomap" and opn
  assume "tree_ok m"
  then show "\<exists>m'. Ok (list_op opn m, list_reply opn m) = Ok (m', list_reply opn m) \<and> tree_ok m' \<and> m' = list_op opn m"
    by (cases opn) (auto intro: tree_ok_Set tree_ok_Remove)
qed (simp_all add: tree_ok_def)

section \<open>The tree as a map\<close>

lemma iavl_lookups:
  assumes "iavl_ok t" "length (tree_entries t) < 2 ^ 63"
  shows "iavl_Has t k \<longleftrightarrow> map_of (tree_entries t) k \<noteq> None"
    and "snd (iavl_Get t k) = map_of (tree_entries t) k"
    and "map_of (tree_entries t) k = Some v \<Longrightarrow> iavl_GetByIndex t (fst (iavl_Get t k)) = Ok (Some (k, v))"
    and "iavl_Iterate f t st = visit f (tree_entries t) st"
    and "iavl_Size t = int (length (tree_entries t))"
    and "t \<noteq> None \<Longrightarrow> 2 ^ nat (iavl_Height t div 2) \<le> length (tree_entries t)"
proof -
  show "iavl_Has t k \<longleftrightarrow> map_of (tree_entries t) k \<noteq> None"
    using assms by (auto simp: iavl_Has_def iavl_ok_def tree_entries_def node_has_correct split: option.splits)
  show "iavl_Iterate f t st = visit f (tree_entries t) st"
    using assms traverse_visit by (auto simp: iavl_Iterate_def iavl_ok_def node_ok_def tree_entries_def split: option.splits)
  show "iavl_Size t = int (length (tree_entries t))"
    using assms by (auto simp: iavl_Size_def tree_entries_def iavl_ok_def node_ok_def node_size_length split: option.splits)
  show "t \<noteq> None \<Longrightarrow> 2 ^ nat (iavl_Height t div 2) \<le> length (tree_entries t)"
    using assms height_size_bound
    by (auto simp: iavl_Height_def tree_entries_def iavl_ok_def node_ok_def split: option.splits)
  show "snd (iavl_Get t k) = map_of (tree_entries t) k"
    and "map_of (tree_entries t) k = Some v \<Longrightarrow> iavl_GetByIndex t (fst (iavl_Get t k)) = Ok (Some (k, v))"
  proof (atomize (full), cases t)
    case (Some n)
    then have n: "node_ok n" "small n" using assms by (auto simp: iavl_ok_def tree_entries_def small_def)
    from node_get_correct [OF this, of k] obtain i where i:
      "node_get n k = (int i, map_of (node_entries n) k)" "i < length (node_entries n)"
      "\<forall>v. map_of (node_entries n) k = Some v \<longrightarrow> node_entries n ! i = (k, v)" by blast
    moreover have "in_int64 (int i)" using i(2) n(2) by (simp add: small_def int64_simps)
    ultimately show "snd (iavl_Get t k) = map_of (tree_entries t) k \<and>
      (map_of (tree_entries t) k = Some v \<longrightarrow> iavl_GetByIndex t (fst (iavl_Get t k)) = Ok (Some (k, v)))"
      using Some n by (auto simp: iavl_Get_def iavl_GetByIndex_def tree_entries_def node_ok_def node_getByIndex_correct)
  qed (simp add: iavl_Get_def tree_entries_def)
qed

text \<open>
  C11: Every tree that operations build is a sorted association list in another form: whatever
  keys were written and removed, in whatever order, no operation panicked, each one reported what
  the sorted list of the ledger model reports, and the tree holds the entries of that list. Lookups
  by key and by position, the iteration and the size agree with the list, and the height is
  logarithmic in the number of entries.
\<close>

theorem iavl_tree_refines_sorted_list:
  fixes opns :: "('k::linorder, 'v) tree_op list"
  assumes "length opns < 2 ^ 63"
  shows "\<exists>t m. m = fold list_op opns [] \<and> run_ops iavl_op opns None = Ok (t, list_replies opns []) \<and>
    tree_entries t = m \<and>
    (\<forall>k. iavl_Has t k = (map_of m k \<noteq> None) \<and> snd (iavl_Get t k) = map_of m k) \<and>
    (\<forall>k v. map_of m k = Some v \<longrightarrow> iavl_GetByIndex t (fst (iavl_Get t k)) = Ok (Some (k, v))) \<and>
    (\<forall>f (st :: 's). iavl_Iterate f t st = visit f m st) \<and> iavl_Size t = int (length m) \<and>
    (m \<noteq> [] \<longrightarrow> 2 ^ nat (iavl_Height t div 2) \<le> length m)"
proof -
  obtain t m where t: "m = fold list_op opns []" "run_ops iavl_op opns None = Ok (t, list_replies opns [])"
    "iavl_ok t" "tree_entries t = m"
    using iavl.run_from_new [OF assms] by blast
  have "length (tree_entries t) < 2 ^ 63"
    using assms t(1,4) list_ops_length [of opns "[]"] by simp
  note l = iavl_lookups [OF t(3) this, unfolded t(4)]
  have "m \<noteq> [] \<Longrightarrow> t \<noteq> None" using t(4) by (cases t) (auto simp: tree_entries_def)
  with t l show ?thesis by blast
qed

theorem iavl_tree_refines_sorted_list_witness:
  "\<exists>t. run_ops iavl_op [SetOp (2 :: int) CHR ''b'', SetOp 1 CHR ''a'', RemoveOp 2, RemoveOp 7] None =
      Ok (t, [(False, None), (False, None), (True, Some CHR ''b''), (False, None)]) \<and>
    tree_entries t = [(1, CHR ''a'')] \<and> snd (iavl_Get t 1) = Some CHR ''a'' \<and> iavl_Size t = 1"
  using iavl_tree_refines_sorted_list
    [of "[SetOp (2 :: int) CHR ''b'', SetOp 1 CHR ''a'', RemoveOp 2, RemoveOp 7]", where 's = unit]
  by (auto simp: tree_Remove_def)

end
