(* ===== verification/Iavl_Proof.thy ===== *)
theory Iavl_Proof
  imports Iavl Wire
begin

text \<open>
  Hashes of the balanced tree and proofs that a key is in it (the vendored \<open>merkle/iavl_node.go\<close> and
  \<open>merkle/iavl_proof.go\<close>). RIPEMD-160 and the codecs of keys and values are parameters. A node caches
  its hash; as nodes are never changed after they were hashed, the model computes it where it is asked
  for.
\<close>

section \<open>Hashes\<close>

primrec writeHashBytes :: "(bytes \<Rightarrow> bytes) \<Rightarrow> ('k \<Rightarrow> bytes) \<Rightarrow> ('v \<Rightarrow> bytes) \<Rightarrow> ('k, 'v) IAVLNode \<Rightarrow> bytes" where
  "writeHashBytes H ke ve (Leaf k v) =
     WriteInt8 0 @ WriteVarint 1 @ WriteByteSlice (ke k) @ WriteByteSlice (ve v)"
| "writeHashBytes H ke ve (Inner k h s l r) =
     WriteInt8 h @ WriteVarint s @
     WriteByteSlice (H (writeHashBytes H ke ve l)) @ WriteByteSlice (H (writeHashBytes H ke ve r))"

definition hashWithCount :: "(bytes \<Rightarrow> bytes) \<Rightarrow> ('k \<Rightarrow> bytes) \<Rightarrow> ('v \<Rightarrow> bytes) \<Rightarrow> ('k, 'v) IAVLNode \<Rightarrow> bytes" where
  "hashWithCount H ke ve n = H (writeHashBytes H ke ve n)"

definition iavl_Hash :: "(bytes \<Rightarrow> bytes) \<Rightarrow> ('k \<Rightarrow> bytes) \<Rightarrow> ('v \<Rightarrow> bytes) \<Rightarrow> ('k, 'v) IAVLTree \<Rightarrow> bytes" where
  "iavl_Hash H ke ve t = (case t of None \<Rightarrow> [] | Some root \<Rightarrow> hashWithCount H ke ve root)"

section \<open>Proofs\<close>

record IAVLProofInnerNode =
  pi_Height :: int
  pi_Size :: int
  pi_Left :: bytes
  pi_Right :: bytes

record IAVLProofLeafNode =
  KeyBytes :: bytes
  ValueBytes :: bytes

record IAVLProof =
  LeafNode :: IAVLProofLeafNode
  InnerNodes :: "IAVLProofInnerNode list"
  RootHash :: bytes

definition branch_bytes :: "IAVLProofInnerNode \<Rightarrow> bytes \<Rightarrow> bytes" where
  "branch_bytes branch childHash =
     WriteInt8 (pi_Height branch) @ WriteVarint (pi_Size branch) @
     (if pi_Left branch = [] then WriteByteSlice childHash @ WriteByteSlice (pi_Right branch)
      else WriteByteSlice (pi_Left branch) @ WriteByteSlice childHash)"

definition branch_Hash :: "(bytes \<Rightarrow> bytes) \<Rightarrow> IAVLProofInnerNode \<Rightarrow> bytes \<Rightarrow> bytes" where
  "branch_Hash H branch childHash = H (branch_bytes branch childHash)"

definition leaf_bytes :: "IAVLProofLeafNode \<Rightarrow> bytes" where
  "leaf_bytes leaf =
     WriteInt8 0 @ WriteVarint 1 @ WriteByteSlice (KeyBytes leaf) @ WriteByteSlice (ValueBytes leaf)"

definition leaf_Hash :: "(bytes \<Rightarrow> bytes) \<Rightarrow> IAVLProofLeafNode \<Rightarrow> bytes" where
  "leaf_Hash H leaf = H (leaf_bytes leaf)"

definition proof_hash :: "(bytes \<Rightarrow> bytes) \<Rightarrow> IAVLProofLeafNode \<Rightarrow> IAVLProofInnerNode list \<Rightarrow> bytes" where
  "proof_hash H leaf branches = foldl (\<lambda>hash branch. branch_Hash H branch hash) (leaf_Hash H leaf) branches"

definition proof_Verify :: "(bytes \<Rightarrow> bytes) \<Rightarrow> IAVLProof \<Rightarrow> bytes \<Rightarrow> bytes \<Rightarrow> bytes \<Rightarrow> bool" where
  "proof_Verify H p keyBytes valueBytes rootHash =
     (if keyBytes \<noteq> KeyBytes (LeafNode p) then False
      else if valueBytes \<noteq> ValueBytes (LeafNode p) then False
      else if rootHash \<noteq> RootHash p then False
      else RootHash p = proof_hash H (LeafNode p) (InnerNodes p))"

primrec constructProof ::
  "(bytes \<Rightarrow> bytes) \<Rightarrow> ('k::linorder \<Rightarrow> bytes) \<Rightarrow> ('v \<Rightarrow> bytes) \<Rightarrow> ('k, 'v) IAVLNode \<Rightarrow> 'k \<Rightarrow> IAVLProof
     \<Rightarrow> bool \<times> IAVLProof" where
  "constructProof H ke ve (Leaf k v) key p =
     (if k = key then (True, p\<lparr> LeafNode := \<lparr> KeyBytes = ke k, ValueBytes = ve v \<rparr> \<rparr>) else (False, p))"
| "constructProof H ke ve (Inner k h s l r) key p =
     (if key < k then
        (let (found, p1) = constructProof H ke ve l key p in
         if \<not> found then (False, p1)
         else (True, p1\<lparr> InnerNodes := InnerNodes p1 @
           [\<lparr> pi_Height = h, pi_Size = s, pi_Left = [], pi_Right = hashWithCount H ke ve r \<rparr>] \<rparr>))
      else
        (let (found, p1) = constructProof H ke ve r key p in
         if \<not> found then (False, p1)
         else (True, p1\<lparr> InnerNodes := InnerNodes p1 @
           [\<lparr> pi_Height = h, pi_Size = s, pi_Left = hashWithCount H ke ve l, pi_Right = [] \<rparr>] \<rparr>)))"

definition ConstructProof ::
  "(bytes \<Rightarrow> bytes) \<Rightarrow> ('k::linorder \<Rightarrow> bytes) \<Rightarrow> ('v \<Rightarrow> bytes) \<Rightarrow> ('k, 'v) IAVLTree \<Rightarrow> 'k \<Rightarrow> IAVLProof option" where
  "ConstructProof H ke ve t key =
     (case t of
        None \<Rightarrow> None
      | Some root \<Rightarrow>
          Some (snd (constructProof H ke ve root key
            \<lparr> LeafNode = \<lparr> KeyBytes = [], ValueBytes = [] \<rparr>, InnerNodes = [],
              RootHash = hashWithCount H ke ve root \<rparr>)))"

section \<open>Completeness\<close>

lemma constructProof_found:
  assumes "node_ok n" "map_of (node_entries n) key = Some v" "\<And>x. H x \<noteq> []"
  shows "\<exists>branches. constructProof H ke ve n key p =
      (True, p\<lparr> LeafNode := \<lparr> KeyBytes = ke key, ValueBytes = ve v \<rparr>, InnerNodes := InnerNodes p @ branches \<rparr>) \<and>
    proof_hash H \<lparr> KeyBytes = ke key, ValueBytes = ve v \<rparr> branches = hashWithCount H ke ve n"
  using assms(1,2)
proof (induction n)
  case (Leaf k w)
  then show ?case
    by (intro exI [of _ "[]"]) (auto simp: proof_hash_def leaf_Hash_def leaf_bytes_def hashWithCount_def split: if_splits)
next
  case (Inner k h s l r)
  note ok = node_ok_Inner [OF Inner.prems(1)]
  show ?case
  proof (cases "key < k")
    case True
    then have "map_of (node_entries r) key = None" using ok by (intro map_of_none_if) fastforce
    then have "map_of (node_entries l) key = Some v"
      using Inner.prems(2) by (auto simp: map_add_def split: option.splits)
    with Inner.IH(1) ok obtain branches where
      "constructProof H ke ve l key p =
        (True, p\<lparr> LeafNode := \<lparr> KeyBytes = ke key, ValueBytes = ve v \<rparr>, InnerNodes := InnerNodes p @ branches \<rparr>)"
      "proof_hash H \<lparr> KeyBytes = ke key, ValueBytes = ve v \<rparr> branches = hashWithCount H ke ve l"
      by blast
    then show ?thesis using True
      by (intro exI [of _ "branches @ [\<lparr> pi_Height = h, pi_Size = s, pi_Left = [], pi_Right = hashWithCount H ke ve r \<rparr>]"])
        (simp add: proof_hash_def branch_Hash_def branch_bytes_def hashWithCount_def)
  next
    case False
    then have "map_of (node_entries l) key = None" using ok by (intro map_of_none_if) fastforce
    then have "map_of (node_entries r) key = Some v"
      using Inner.prems(2) by (auto simp: map_add_def split: option.splits)
    with Inner.IH(2) ok obtain branches where
      "constructProof H ke ve r key p =
        (True, p\<lparr> LeafNode := \<lparr> KeyBytes = ke key, ValueBytes = ve v \<rparr>, InnerNodes := InnerNodes p @ branches \<rparr>)"
      "proof_hash H \<lparr> KeyBytes = ke key, ValueBytes = ve v \<rparr> branches = hashWithCount H ke ve r"
      by blast
    then show ?thesis using False assms(3)
      by (intro exI [of _ "branches @ [\<lparr> pi_Height = h, pi_Size = s, pi_Left = hashWithCount H ke ve l, pi_Right = [] \<rparr>]"])
        (simp add: proof_hash_def branch_Hash_def branch_bytes_def hashWithCount_def)
  qed
qed

section \<open>Soundness\<close>

text \<open>The byte strings that are hashed for a tree, and those that are hashed to check a proof.\<close>

primrec tree_inputs :: "(bytes \<Rightarrow> bytes) \<Rightarrow> ('k \<Rightarrow> bytes) \<Rightarrow> ('v \<Rightarrow> bytes) \<Rightarrow> ('k, 'v) IAVLNode \<Rightarrow> bytes set" where
  "tree_inputs H ke ve (Leaf k v) = {writeHashBytes H ke ve (Leaf k v)}"
| "tree_inputs H ke ve (Inner k h s l r) =
     insert (writeHashBytes H ke ve (Inner k h s l r)) (tree_inputs H ke ve l \<union> tree_inputs H ke ve r)"

fun chain_inputs :: "(bytes \<Rightarrow> bytes) \<Rightarrow> bytes \<Rightarrow> IAVLProofInnerNode list \<Rightarrow> bytes set" where
  "chain_inputs H hash [] = {}"
| "chain_inputs H hash (b # bs) = insert (branch_bytes b hash) (chain_inputs H (branch_Hash H b hash) bs)"

definition proof_inputs :: "(bytes \<Rightarrow> bytes) \<Rightarrow> IAVLProof \<Rightarrow> bytes set" where
  "proof_inputs H p = insert (leaf_bytes (LeafNode p)) (chain_inputs H (leaf_Hash H (LeafNode p)) (InnerNodes p))"

text \<open>Values that fit the machine types of the encoded fields.\<close>

definition branch_fits :: "IAVLProofInnerNode \<Rightarrow> bool" where
  "branch_fits b \<longleftrightarrow> -128 \<le> pi_Height b \<and> pi_Height b < 128 \<and> in_int64 (pi_Size b) \<and>
     int (length (pi_Left b)) \<le> MaxInt64 \<and> int (length (pi_Right b)) \<le> MaxInt64"

definition fits :: "bytes \<Rightarrow> bool" where
  "fits bs \<longleftrightarrow> int (length bs) \<le> MaxInt64"

lemma fields_eq:
  assumes "WriteInt8 h @ WriteVarint s @ WriteByteSlice a @ WriteByteSlice b =
      WriteInt8 h' @ WriteVarint s' @ WriteByteSlice a' @ WriteByteSlice b'"
    "-128 \<le> h" "h < 128" "-128 \<le> h'" "h' < 128" "in_int64 s" "in_int64 s'" "fits a" "fits a'" "fits b" "fits b'"
  shows "h = h' \<and> s = s' \<and> a = a' \<and> b = b'"
proof -
  have 1: "h = h' \<and> WriteVarint s @ WriteByteSlice a @ WriteByteSlice b = WriteVarint s' @ WriteByteSlice a' @ WriteByteSlice b'"
    using int8.prefix_free [of h h'] assms by blast
  then have 2: "s = s' \<and> WriteByteSlice a @ WriteByteSlice b = WriteByteSlice a' @ WriteByteSlice b'"
    using varint.prefix_free [of s s'] assms by blast
  then have "a = a' \<and> WriteByteSlice b = WriteByteSlice b'"
    using WriteByteSlice_prefix_free [of a "WriteByteSlice b" a' "WriteByteSlice b'"] assms(8,9) by (simp add: fits_def)
  then show ?thesis using 1 2 WriteByteSlice_prefix_free [of b "[]" b' "[]"] assms(10,11) by (simp add: fits_def)
qed

lemma fits_1: "in_int64 1"
  by (simp add: int64_simps)

lemma balanced_fits:
  "balanced (Inner k h s l r) \<Longrightarrow> small (Inner k h s l r) \<Longrightarrow> 0 < h \<and> h < 128 \<and> in_int64 s"
  using small_height [of "Inner k h s l r"] inner_height_pos [of k h s l r] node_size_length [of "Inner k h s l r"]
  by (auto simp: small_def int64_simps)

lemma chain_inputs_append:
  "chain_inputs H hash (bs @ [b]) =
     insert (branch_bytes b (foldl (\<lambda>hash branch. branch_Hash H branch hash) hash bs)) (chain_inputs H hash bs)"
  by (induction bs arbitrary: hash) auto

lemma proof_chain_sound:
  assumes "balanced n" "small n" "\<forall>(k, v) \<in> set (node_entries n). fits (ke k) \<and> fits (ve v)" "\<And>x. fits (H x)"
    "fits (KeyBytes leaf)" "fits (ValueBytes leaf)" "\<forall>b \<in> set bs. branch_fits b \<and> pi_Height b \<noteq> 0"
    "\<forall>x \<in> tree_inputs H ke ve n. \<forall>y \<in> insert (leaf_bytes leaf) (chain_inputs H (leaf_Hash H leaf) bs). H x = H y \<longrightarrow> x = y"
    "proof_hash H leaf bs = hashWithCount H ke ve n"
  shows "\<exists>(k, v) \<in> set (node_entries n). ke k = KeyBytes leaf \<and> ve v = ValueBytes leaf"
  using assms
proof (induction bs arbitrary: n rule: rev_induct)
  case Nil
  have in_t: "writeHashBytes H ke ve n \<in> tree_inputs H ke ve n" by (cases n) auto
  have eq: "writeHashBytes H ke ve n = leaf_bytes leaf"
    using Nil.prems(8,9) in_t by (auto simp: proof_hash_def leaf_Hash_def hashWithCount_def)
  show ?case
  proof (cases n)
    case (Leaf k v)
    with eq Nil.prems(3,5,6) show ?thesis
      using fields_eq [of 0 1 "ke k" "ve v" 0 1 "KeyBytes leaf" "ValueBytes leaf"] fits_1
      by (simp add: leaf_bytes_def)
  next
    case (Inner k h s l r)
    then have "h = 0"
      using eq fields_eq [of h s "H (writeHashBytes H ke ve l)" "H (writeHashBytes H ke ve r)" 0 1 "KeyBytes leaf" "ValueBytes leaf"]
        balanced_fits [of k h s l r] Nil.prems(1,2,4,5,6) fits_1
      by (simp add: leaf_bytes_def)
    then show ?thesis using balanced_fits [of k h s l r] Nil.prems(1,2) Inner by simp
  qed
next
  case (snoc b bs)
  define c where "c = proof_hash H leaf bs"
  have b: "branch_fits b" "pi_Height b \<noteq> 0" using snoc.prems(7) by auto
  have fc: "fits c"
    using snoc.prems(4) by (cases bs rule: rev_cases) (auto simp: c_def proof_hash_def leaf_Hash_def branch_Hash_def)
  have in_t: "writeHashBytes H ke ve n \<in> tree_inputs H ke ve n" by (cases n) auto
  have eq: "writeHashBytes H ke ve n = branch_bytes b c"
    using snoc.prems(8,9) in_t
    by (auto simp: proof_hash_def branch_Hash_def hashWithCount_def chain_inputs_append c_def)
  have fb: "fits (pi_Left b)" "fits (pi_Right b)" "-128 \<le> pi_Height b" "pi_Height b < 128" "in_int64 (pi_Size b)"
    using b(1) by (auto simp: branch_fits_def fits_def)
  show ?case
  proof (cases n)
    case (Leaf k v)
    then have "0 = pi_Height b"
      using eq fb fc snoc.prems(3) fits_1
        fields_eq [of 0 1 "ke k" "ve v" "pi_Height b" "pi_Size b" c "pi_Right b"]
        fields_eq [of 0 1 "ke k" "ve v" "pi_Height b" "pi_Size b" "pi_Left b" c]
      by (auto simp: branch_bytes_def split: if_splits)
    with b(2) show ?thesis by simp
  next
    case (Inner k h s l r)
    have sub: "balanced l" "balanced r" "small l" "small r"
      using Inner snoc.prems(1,2) by (auto simp: small_def)
    have cases: "c = hashWithCount H ke ve l \<or> c = hashWithCount H ke ve r"
      using eq fb fc snoc.prems(1,2,4) balanced_fits [of k h s l r] Inner
        fields_eq [of h s "H (writeHashBytes H ke ve l)" "H (writeHashBytes H ke ve r)" "pi_Height b" "pi_Size b" c "pi_Right b"]
        fields_eq [of h s "H (writeHashBytes H ke ve l)" "H (writeHashBytes H ke ve r)" "pi_Height b" "pi_Size b" "pi_Left b" c]
      by (auto simp: branch_bytes_def hashWithCount_def split: if_splits)
    have bs: "\<forall>b \<in> set bs. branch_fits b \<and> pi_Height b \<noteq> 0" using snoc.prems(7) by simp
    have no: "\<forall>x \<in> tree_inputs H ke ve m. \<forall>y \<in> insert (leaf_bytes leaf) (chain_inputs H (leaf_Hash H leaf) bs).
        H x = H y \<longrightarrow> x = y" if "m = l \<or> m = r" for m
      using snoc.prems(8) that unfolding Inner chain_inputs_append by fastforce
    have ent: "\<forall>(k, v) \<in> set (node_entries m). fits (ke k) \<and> fits (ve v)"
      "set (node_entries m) \<subseteq> set (node_entries n)" if "m = l \<or> m = r" for m
      using snoc.prems(3) that unfolding Inner by auto
    from cases show ?thesis
    proof
      assume "c = hashWithCount H ke ve l"
      then have "proof_hash H leaf bs = hashWithCount H ke ve l" by (simp add: c_def)
      from snoc.IH [OF sub(1,3) ent(1) snoc.prems(4-6) bs no this]
      show ?thesis using ent(2) [of l] by auto
    next
      assume "c = hashWithCount H ke ve r"
      then have "proof_hash H leaf bs = hashWithCount H ke ve r" by (simp add: c_def)
      from snoc.IH [OF sub(2,4) ent(1) snoc.prems(4-6) bs no this]
      show ?thesis using ent(2) [of r] by auto
    qed
  qed
qed

section \<open>What proofs show\<close>

text \<open>
  For every key that is in the tree \<open>ConstructProof\<close> returns a proof, and the proof verifies
  against the hash of the tree with the encoded key and value. The hash function only has to return
  no empty hash.
\<close>

theorem constructed_proof_verifies:
  assumes "iavl_ok t" "map_of (tree_entries t) key = Some v" "\<And>x. H x \<noteq> []"
  shows "\<exists>p. ConstructProof H ke ve t key = Some p \<and> proof_Verify H p (ke key) (ve v) (iavl_Hash H ke ve t)"
proof -
  obtain n where t: "t = Some n" using assms(2) by (cases t) (auto simp: tree_entries_def)
  then have n: "node_ok n" "map_of (node_entries n) key = Some v"
    using assms(1,2) by (auto simp: iavl_ok_def tree_entries_def)
  let ?p0 = "\<lparr> LeafNode = \<lparr> KeyBytes = [], ValueBytes = [] \<rparr>, InnerNodes = [],
    RootHash = hashWithCount H ke ve n \<rparr>"
  from constructProof_found [where H = H and ke = ke and ve = ve and p = ?p0, OF n assms(3)] obtain branches where
    "constructProof H ke ve n key ?p0 =
      (True, ?p0\<lparr> LeafNode := \<lparr> KeyBytes = ke key, ValueBytes = ve v \<rparr>, InnerNodes := InnerNodes ?p0 @ branches \<rparr>)"
    "proof_hash H \<lparr> KeyBytes = ke key, ValueBytes = ve v \<rparr> branches = hashWithCount H ke ve n"
    by blast
  then show ?thesis by (simp add: t ConstructProof_def proof_Verify_def iavl_Hash_def)
qed

definition sample_hash :: "bytes \<Rightarrow> bytes" where
  "sample_hash bs = 1 # take 19 bs"

definition sample_tree :: "(int, byte) IAVLTree" where
  "sample_tree = Some (Inner 5 1 2 (Leaf 3 7) (Leaf 5 9))"

theorem constructed_proof_verifies_witness:
  "\<exists>p. ConstructProof sample_hash (\<lambda>k. [word_of_int k]) (\<lambda>v. [v]) sample_tree 3 = Some p \<and>
     proof_Verify sample_hash p [3] [7] (iavl_Hash sample_hash (\<lambda>k. [word_of_int k]) (\<lambda>v. [v]) sample_tree)"
  using constructed_proof_verifies [of sample_tree 3 7 sample_hash "\<lambda>k. [word_of_int k]" "\<lambda>v. [v]"]
  by (simp add: sample_tree_def sample_hash_def iavl_ok_def node_ok_def tree_ok_def tree_entries_def)

text \<open>
  C12: A proof that verifies against the hash of a tree shows that the key and the value are in the
  tree, unless two different byte strings among the ones hashed for the tree and for the proof have
  the same hash, provided that no inner node of the proof claims the height 0. (\<open>Verify\<close> itself does
  not look at the heights.)
\<close>

theorem verified_proof_is_membership:
  assumes "node_ok n" "small n" "\<forall>(k, v) \<in> set (node_entries n). fits (ke k) \<and> fits (ve v)" "\<And>x. fits (H x)"
    and "fits (KeyBytes (LeafNode p))" "fits (ValueBytes (LeafNode p))"
    and "\<forall>b \<in> set (InnerNodes p). branch_fits b \<and> pi_Height b \<noteq> 0"
    and "\<forall>x \<in> tree_inputs H ke ve n. \<forall>y \<in> proof_inputs H p. H x = H y \<longrightarrow> x = y"
    and "proof_Verify H p keyBytes valueBytes (iavl_Hash H ke ve (Some n))"
  shows "\<exists>(k, v) \<in> set (node_entries n). ke k = keyBytes \<and> ve v = valueBytes"
  using proof_chain_sound [of n ke ve H "LeafNode p" "InnerNodes p"] assms
  by (auto simp: node_ok_def proof_inputs_def proof_Verify_def iavl_Hash_def split: if_splits)

definition sample_proof :: IAVLProof where
  "sample_proof =
     \<lparr> LeafNode = \<lparr> KeyBytes = [3], ValueBytes = [7] \<rparr>, InnerNodes = [],
       RootHash = [1, 0, 1, 1, 1, 1, 3, 1, 1, 7] \<rparr>"

theorem verified_proof_is_membership_witness:
  "\<exists>(k, v) \<in> set (node_entries (Leaf (3 :: int) (7 :: byte))). [word_of_int k] = [3 :: byte] \<and> [v] = [7]"
proof (rule verified_proof_is_membership [where H = sample_hash and p = sample_proof])
  have one: "WriteByteSlice [b] = [1, 1, b]" for b
    by (simp add: WriteByteSlice_def WriteVarint_def to_uint64_def uvarintSize_def WriteByte_def numeral_eq_Suc)
  have l: "WriteInt8 0 @ WriteVarint 1 = [0, 1, 1]"
    by (simp add: WriteInt8_def WriteVarint_def to_uint64_def uvarintSize_def WriteByte_def numeral_eq_Suc)
  show "proof_Verify sample_hash sample_proof [3] [7]
      (iavl_Hash sample_hash (\<lambda>k. [word_of_int k]) (\<lambda>v. [v]) (Some (Leaf 3 7)))"
    using l by (simp add: proof_Verify_def sample_proof_def sample_hash_def iavl_Hash_def hashWithCount_def proof_hash_def
      leaf_Hash_def leaf_bytes_def one flip: append_assoc)
  show "\<forall>x \<in> tree_inputs sample_hash (\<lambda>k. [word_of_int k]) (\<lambda>v. [v]) (Leaf 3 7).
      \<forall>y \<in> proof_inputs sample_hash sample_proof. sample_hash x = sample_hash y \<longrightarrow> x = y"
    by (simp add: proof_inputs_def sample_proof_def leaf_bytes_def)
qed (simp_all add: node_ok_def tree_ok_def small_def fits_def sample_proof_def sample_hash_def int64_simps)

text \<open>
  \<open>Verify\<close> accepts proofs of keys that are not in the tree: when the tree stores, under any
  key, a value whose encoding is the hash of a leaf, that leaf is proved to be in the tree with a
  branch of height 0, because such a branch is hashed as the stored leaf is. Whoever may store a value
  can so prove any key and value.
\<close>

theorem forged_membership_proof:
  assumes "node_ok n" "map_of (node_entries n) key = Some v" "\<And>x. H x \<noteq> []" "ke key \<noteq> []"
    and "ve v = leaf_Hash H \<lparr> KeyBytes = keyBytes, ValueBytes = valueBytes \<rparr>"
  shows "\<exists>p. proof_Verify H p keyBytes valueBytes (iavl_Hash H ke ve (Some n))"
proof -
  obtain branches where b:
    "proof_hash H \<lparr> KeyBytes = ke key, ValueBytes = ve v \<rparr> branches = hashWithCount H ke ve n"
    using constructProof_found [where H = H and ke = ke and ve = ve, OF assms(1,2,3)] by blast
  let ?fake = "\<lparr> pi_Height = 0, pi_Size = 1, pi_Left = ke key, pi_Right = [] \<rparr>"
  have "proof_hash H \<lparr> KeyBytes = keyBytes, ValueBytes = valueBytes \<rparr> (?fake # branches) = hashWithCount H ke ve n"
    using b assms(4) by (simp add: proof_hash_def branch_Hash_def branch_bytes_def leaf_Hash_def leaf_bytes_def assms(5))
  then show ?thesis
    by (intro exI [of _ "\<lparr> LeafNode = \<lparr> KeyBytes = keyBytes, ValueBytes = valueBytes \<rparr>,
        InnerNodes = ?fake # branches, RootHash = hashWithCount H ke ve n \<rparr>"])
      (simp add: proof_Verify_def iavl_Hash_def)
qed

theorem forged_membership_proof_witness:
  "\<exists>p. proof_Verify sample_hash p [8] [9]
     (iavl_Hash sample_hash (\<lambda>k. [word_of_int k]) id
       (Some (Leaf (3 :: int) (leaf_Hash sample_hash \<lparr> KeyBytes = [8], ValueBytes = [9] \<rparr>))))"
  by (rule forged_membership_proof [of _ 3]) (simp_all add: node_ok_def tree_ok_def sample_hash_def)

end
