(* ===== verification/Iavl_Store.thy ===== *)
theory Iavl_Store
  imports Iavl_Proof
begin

text \<open>
  Saving the balanced tree to the database and reading it back (the vendored \<open>merkle/iavl_node.go\<close>,
  \<open>merkle/iavl_tree.go\<close>). The database is a map from hashes to byte strings. \<open>GetNode\<close>'s cache is left
  out: it returns the node that was read or written under the same hash. Which nodes carry the flag
  \<open>persisted\<close> is an argument of \<open>node_save\<close>. The codecs of keys and values are parameters, a decoder
  returning \<open>None\<close> for an error.
\<close>

section \<open>Nodes as bytes\<close>

primrec writePersistBytes :: "(bytes \<Rightarrow> bytes) \<Rightarrow> ('k \<Rightarrow> bytes) \<Rightarrow> ('v \<Rightarrow> bytes) \<Rightarrow> ('k, 'v) IAVLNode \<Rightarrow> bytes" where
  "writePersistBytes H ke ve (Leaf k v) =
     WriteInt8 0 @ WriteVarint 1 @ WriteByteSlice (ke k) @ WriteByteSlice (ve v)"
| "writePersistBytes H ke ve (Inner k h s l r) =
     WriteInt8 h @ WriteVarint s @ WriteByteSlice (ke k) @
     WriteByteSlice (hashWithCount H ke ve l) @ WriteByteSlice (hashWithCount H ke ve r)"

text \<open>A node as it is read: the children are known by their hashes only.\<close>

record ('k, 'v) read_node =
  rn_height :: int
  rn_size :: int
  rn_key :: "'k option"
  rn_value :: "'v option"
  rn_leftHash :: bytes
  rn_rightHash :: bytes

definition decodeByteSlice :: "(bytes \<Rightarrow> 'a option) \<Rightarrow> reader \<Rightarrow> 'a option \<times> reader" where
  "decodeByteSlice dec r =
     (let (bytez, r1) = ReadByteSlice r
      in if r_err r1 \<noteq> None then (None, r1)
         else (case dec bytez of None \<Rightarrow> (None, r1\<lparr> r_err := Some ''decode'' \<rparr>) | Some a \<Rightarrow> (Some a, r1)))"

definition ReadIAVLNode ::
  "(bytes \<Rightarrow> 'k option) \<Rightarrow> (bytes \<Rightarrow> 'v option) \<Rightarrow> reader \<Rightarrow> ('k, 'v) read_node \<times> reader" where
  "ReadIAVLNode kd vd r =
     (let (height, r1) = ReadInt8 r;
          (sz, r2) = ReadVarint r1;
          (key, r3) = decodeByteSlice kd r2
      in if height = 0 then
           (let (val, r4) = decodeByteSlice vd r3
            in (\<lparr> rn_height = height, rn_size = sz, rn_key = key, rn_value = val, rn_leftHash = [], rn_rightHash = [] \<rparr>, r4))
         else
           (let (leftHash, r4) = ReadByteSlice r3; (rightHash, r5) = ReadByteSlice r4
            in (\<lparr> rn_height = height, rn_size = sz, rn_key = key, rn_value = None,
                  rn_leftHash = leftHash, rn_rightHash = rightHash \<rparr>, r5)))"

section \<open>The database\<close>

definition GetNode ::
  "(bytes \<Rightarrow> 'k option) \<Rightarrow> (bytes \<Rightarrow> 'v option) \<Rightarrow> (bytes, bytes) gomap \<Rightarrow> bytes \<Rightarrow> ('k, 'v) read_node outcome" where
  "GetNode kd vd db hash =
     (let buf = (case map_of db hash of None \<Rightarrow> [] | Some b \<Rightarrow> b)
      in if buf = [] then Panic ''Value missing for key''
         else (let (n, r) = ReadIAVLNode kd vd (reader_of buf)
               in if r_err r \<noteq> None then Panic ''Error reading IAVLNode'' else Ok n))"

definition SaveNode ::
  "(bytes \<Rightarrow> bytes) \<Rightarrow> ('k \<Rightarrow> bytes) \<Rightarrow> ('v \<Rightarrow> bytes) \<Rightarrow> ('k, 'v) IAVLNode \<Rightarrow> (bytes, bytes) gomap \<Rightarrow> (bytes, bytes) gomap" where
  "SaveNode H ke ve n db = AList.update (hashWithCount H ke ve n) (writePersistBytes H ke ve n) db"

primrec node_save ::
  "(('k, 'v) IAVLNode \<Rightarrow> bool) \<Rightarrow> (bytes \<Rightarrow> bytes) \<Rightarrow> ('k \<Rightarrow> bytes) \<Rightarrow> ('v \<Rightarrow> bytes) \<Rightarrow> ('k, 'v) IAVLNode
     \<Rightarrow> (bytes, bytes) gomap \<Rightarrow> (bytes, bytes) gomap" where
  "node_save persisted H ke ve (Leaf k v) db =
     (if persisted (Leaf k v) then db else SaveNode H ke ve (Leaf k v) db)"
| "node_save persisted H ke ve (Inner k h s l r) db =
     (if persisted (Inner k h s l r) then db
      else SaveNode H ke ve (Inner k h s l r)
             (node_save persisted H ke ve r (node_save persisted H ke ve l db)))"

text \<open>
  The nodes that can be reached from a hash, read one by one as \<open>getLeftNode\<close> and \<open>getRightNode\<close> do.
\<close>

fun load_node ::
  "nat \<Rightarrow> (bytes \<Rightarrow> 'k option) \<Rightarrow> (bytes \<Rightarrow> 'v option) \<Rightarrow> (bytes, bytes) gomap \<Rightarrow> bytes \<Rightarrow> ('k, 'v) IAVLNode outcome" where
  "load_node 0 kd vd db hash = Panic ''out of fuel''"
| "load_node (Suc fuel) kd vd db hash =
     obind (GetNode kd vd db hash) (\<lambda>n.
       if rn_height n = 0 then
         (case (rn_key n, rn_value n) of
            (Some k, Some v) \<Rightarrow> Ok (Leaf k v)
          | _ \<Rightarrow> Panic ''nil key'')
       else
         obind (load_node fuel kd vd db (rn_leftHash n)) (\<lambda>l.
         obind (load_node fuel kd vd db (rn_rightHash n)) (\<lambda>r.
           case rn_key n of
             Some k \<Rightarrow> Ok (Inner k (rn_height n) (rn_size n) l r)
           | None \<Rightarrow> Panic ''nil key'')))"

section \<open>Reading what was written\<close>

text \<open>What the code relies on of the codecs and the hash function, with sizes below the reading limit.\<close>

definition codec_ok :: "(bytes \<Rightarrow> 'a option) \<Rightarrow> ('a \<Rightarrow> bytes) \<Rightarrow> bool" where
  "codec_ok dec enc \<longleftrightarrow> (\<forall>a. dec (enc a) = Some a)"

definition slice_limit :: nat where
  "slice_limit = 7000000"

definition node_fits :: "(bytes \<Rightarrow> bytes) \<Rightarrow> ('k \<Rightarrow> bytes) \<Rightarrow> ('v \<Rightarrow> bytes) \<Rightarrow> ('k, 'v) IAVLNode \<Rightarrow> bool" where
  "node_fits H ke ve n \<longleftrightarrow>
     (\<forall>(k, v) \<in> set (node_entries n). length (ke k) \<le> slice_limit \<and> length (ve v) \<le> slice_limit) \<and>
     (\<forall>x. length (H x) \<le> slice_limit)"

lemma ReadInt8_write:
  assumes "r_err r = None" "r_in r = WriteInt8 i @ rest" "-128 \<le> i" "i < 128" "r_n r = 0"
  shows "ReadInt8 r = (i, r\<lparr> r_in := rest, r_n := 1 \<rparr>)"
  using assms ReadByte_exact [of r "word_of_int i" rest]
  by (simp add: ReadInt8_def WriteInt8_def WriteByte_def sint_byte int64_simps)

lemma decodeByteSlice_write:
  assumes "codec_ok dec enc" "0 \<le> r_n r" "r_n r \<le> 7000055" "length (enc a) \<le> slice_limit" "r_err r = None"
    "r_in r = WriteByteSlice (enc a) @ rest"
  shows "\<exists>n'. decodeByteSlice dec r = (Some a, r\<lparr> r_in := rest, r_n := n' \<rparr>) \<and>
    r_n r \<le> n' \<and> n' \<le> r_n r + 7000018"
  using ReadByteSlice_WriteByteSlice [of r "enc a" rest] assms
  by (fastforce simp: decodeByteSlice_def codec_ok_def slice_limit_def MaxBinaryReadSize_def)

text \<open>The header and the key, which leaves and inner nodes have in common.\<close>

lemma read_header:
  assumes "codec_ok kd ke" "-128 \<le> h" "h < 128" "in_int64 s" "length (ke k) \<le> slice_limit"
  shows "\<exists>n1 n2 n3. ReadInt8 (reader_of (WriteInt8 h @ WriteVarint s @ WriteByteSlice (ke k) @ rest)) =
      (h, \<lparr> r_in = WriteVarint s @ WriteByteSlice (ke k) @ rest, r_n = n1, r_err = None \<rparr>) \<and>
    ReadVarint \<lparr> r_in = WriteVarint s @ WriteByteSlice (ke k) @ rest, r_n = n1, r_err = None \<rparr> =
      (s, \<lparr> r_in = WriteByteSlice (ke k) @ rest, r_n = n2, r_err = None \<rparr>) \<and>
    decodeByteSlice kd \<lparr> r_in = WriteByteSlice (ke k) @ rest, r_n = n2, r_err = None \<rparr> =
      (Some k, \<lparr> r_in = rest, r_n = n3, r_err = None \<rparr>) \<and> 0 \<le> n3 \<and> n3 \<le> 7000037"
proof -
  let ?r1 = "\<lparr> r_in = WriteVarint s @ WriteByteSlice (ke k) @ rest, r_n = 1, r_err = None \<rparr>"
  have 1: "ReadInt8 (reader_of (WriteInt8 h @ WriteVarint s @ WriteByteSlice (ke k) @ rest)) = (h, ?r1)"
    using ReadInt8_write [of "reader_of (WriteInt8 h @ WriteVarint s @ WriteByteSlice (ke k) @ rest)"] assms(2,3)
    by (simp add: reader_of_def)
  obtain n2 where 2: "ReadVarint ?r1 = (s, \<lparr> r_in = WriteByteSlice (ke k) @ rest, r_n = n2, r_err = None \<rparr>)"
    "1 \<le> n2" "n2 \<le> 19"
    using ReadVarint_WriteVarint [of ?r1 s "WriteByteSlice (ke k) @ rest"] assms(4) by auto
  obtain n3 where "decodeByteSlice kd \<lparr> r_in = WriteByteSlice (ke k) @ rest, r_n = n2, r_err = None \<rparr> =
      (Some k, \<lparr> r_in = rest, r_n = n3, r_err = None \<rparr>)" "n2 \<le> n3" "n3 \<le> n2 + 7000018"
    using decodeByteSlice_write [OF assms(1), of "\<lparr> r_in = WriteByteSlice (ke k) @ rest, r_n = n2, r_err = None \<rparr>" k rest]
      assms(5) 2 by auto
  with 1 2 show ?thesis by auto
qed

lemma read_leaf:
  assumes "codec_ok kd ke" "codec_ok vd ve" "length (ke k) \<le> slice_limit" "length (ve v) \<le> slice_limit"
  shows "\<exists>r. ReadIAVLNode kd vd (reader_of (writePersistBytes H ke ve (Leaf k v))) =
    (\<lparr> rn_height = 0, rn_size = 1, rn_key = Some k, rn_value = Some v, rn_leftHash = [], rn_rightHash = [] \<rparr>, r) \<and>
    r_err r = None"
proof -
  obtain n1 n2 n3 where h: "ReadInt8 (reader_of (writePersistBytes H ke ve (Leaf k v))) =
      (0, \<lparr> r_in = WriteVarint 1 @ WriteByteSlice (ke k) @ WriteByteSlice (ve v), r_n = n1, r_err = None \<rparr>)"
    "ReadVarint \<lparr> r_in = WriteVarint 1 @ WriteByteSlice (ke k) @ WriteByteSlice (ve v), r_n = n1, r_err = None \<rparr> =
      (1, \<lparr> r_in = WriteByteSlice (ke k) @ WriteByteSlice (ve v), r_n = n2, r_err = None \<rparr>)"
    "decodeByteSlice kd \<lparr> r_in = WriteByteSlice (ke k) @ WriteByteSlice (ve v), r_n = n2, r_err = None \<rparr> =
      (Some k, \<lparr> r_in = WriteByteSlice (ve v), r_n = n3, r_err = None \<rparr>)" "0 \<le> n3" "n3 \<le> 7000037"
    using read_header [OF assms(1), of 0 1 k "WriteByteSlice (ve v)"] assms(3) fits_1 by auto
  obtain n4 where "decodeByteSlice vd \<lparr> r_in = WriteByteSlice (ve v), r_n = n3, r_err = None \<rparr> =
      (Some v, \<lparr> r_in = [], r_n = n4, r_err = None \<rparr>)"
    using decodeByteSlice_write [OF assms(2), of "\<lparr> r_in = WriteByteSlice (ve v), r_n = n3, r_err = None \<rparr>" v "[]"]
      assms(4) h(4,5) by auto
  with h(1-3) show ?thesis by (simp add: ReadIAVLNode_def)
qed

lemma read_inner:
  assumes "codec_ok kd ke" "0 < h" "h < 128" "in_int64 s" "length (ke k) \<le> slice_limit" "\<And>x. length (H x) \<le> slice_limit"
  shows "\<exists>r'. ReadIAVLNode kd vd (reader_of (writePersistBytes H ke ve (Inner k h s l r))) =
    (\<lparr> rn_height = h, rn_size = s, rn_key = Some k, rn_value = None, rn_leftHash = hashWithCount H ke ve l,
       rn_rightHash = hashWithCount H ke ve r \<rparr>, r') \<and> r_err r' = None"
proof -
  let ?hl = "hashWithCount H ke ve l" and ?hr = "hashWithCount H ke ve r"
  have len: "length ?hl \<le> slice_limit" "length ?hr \<le> slice_limit" using assms(6) by (simp_all add: hashWithCount_def)
  obtain n1 n2 n3 where h: "ReadInt8 (reader_of (writePersistBytes H ke ve (Inner k h s l r))) =
      (h, \<lparr> r_in = WriteVarint s @ WriteByteSlice (ke k) @ WriteByteSlice ?hl @ WriteByteSlice ?hr, r_n = n1, r_err = None \<rparr>)"
    "ReadVarint \<lparr> r_in = WriteVarint s @ WriteByteSlice (ke k) @ WriteByteSlice ?hl @ WriteByteSlice ?hr, r_n = n1, r_err = None \<rparr> =
      (s, \<lparr> r_in = WriteByteSlice (ke k) @ WriteByteSlice ?hl @ WriteByteSlice ?hr, r_n = n2, r_err = None \<rparr>)"
    "decodeByteSlice kd \<lparr> r_in = WriteByteSlice (ke k) @ WriteByteSlice ?hl @ WriteByteSlice ?hr, r_n = n2, r_err = None \<rparr> =
      (Some k, \<lparr> r_in = WriteByteSlice ?hl @ WriteByteSlice ?hr, r_n = n3, r_err = None \<rparr>)" "0 \<le> n3" "n3 \<le> 7000037"
    using read_header [OF assms(1), of h s k "WriteByteSlice ?hl @ WriteByteSlice ?hr"] assms(2-5) by auto
  obtain n4 where l: "ReadByteSlice \<lparr> r_in = WriteByteSlice ?hl @ WriteByteSlice ?hr, r_n = n3, r_err = None \<rparr> =
      (?hl, \<lparr> r_in = WriteByteSlice ?hr, r_n = n4, r_err = None \<rparr>)" "0 \<le> n4" "n4 \<le> 14000055"
    using ReadByteSlice_WriteByteSlice [of "\<lparr> r_in = WriteByteSlice ?hl @ WriteByteSlice ?hr, r_n = n3, r_err = None \<rparr>" ?hl "WriteByteSlice ?hr"]
      h(4,5) len by (auto simp: slice_limit_def MaxBinaryReadSize_def)
  obtain n5 where "ReadByteSlice \<lparr> r_in = WriteByteSlice ?hr, r_n = n4, r_err = None \<rparr> =
      (?hr, \<lparr> r_in = [], r_n = n5, r_err = None \<rparr>)"
    using ReadByteSlice_WriteByteSlice [of "\<lparr> r_in = WriteByteSlice ?hr, r_n = n4, r_err = None \<rparr>" ?hr "[]"]
      l(2,3) len by (auto simp: slice_limit_def MaxBinaryReadSize_def)
  with h(1-3) l(1) assms(2) show ?thesis by (simp add: ReadIAVLNode_def)
qed

section \<open>Stored trees\<close>

text \<open>Every node of the tree is in the database under its hash.\<close>

primrec stored :: "(bytes \<Rightarrow> bytes) \<Rightarrow> ('k \<Rightarrow> bytes) \<Rightarrow> ('v \<Rightarrow> bytes) \<Rightarrow> (bytes, bytes) gomap \<Rightarrow> ('k, 'v) IAVLNode \<Rightarrow> bool" where
  "stored H ke ve db (Leaf k v) \<longleftrightarrow>
     map_of db (hashWithCount H ke ve (Leaf k v)) = Some (writePersistBytes H ke ve (Leaf k v))"
| "stored H ke ve db (Inner k h s l r) \<longleftrightarrow>
     map_of db (hashWithCount H ke ve (Inner k h s l r)) = Some (writePersistBytes H ke ve (Inner k h s l r)) \<and>
     stored H ke ve db l \<and> stored H ke ve db r"

primrec subnodes :: "('k, 'v) IAVLNode \<Rightarrow> ('k, 'v) IAVLNode set" where
  "subnodes (Leaf k v) = {Leaf k v}"
| "subnodes (Inner k h s l r) = insert (Inner k h s l r) (subnodes l \<union> subnodes r)"

lemma subnodes_self [simp]: "n \<in> subnodes n"
  by (cases n) auto

lemma stored_iff:
  "stored H ke ve db n \<longleftrightarrow> (\<forall>m \<in> subnodes n. map_of db (hashWithCount H ke ve m) = Some (writePersistBytes H ke ve m))"
  by (induction n) auto

lemma first_key_fits:
  "node_fits H ke ve n \<Longrightarrow> length (ke (first_key n)) \<le> slice_limit"
  using first_key_in [of n] by (auto simp: node_fits_def)

lemma writePersistBytes_not_Nil: "writePersistBytes H ke ve n \<noteq> []"
  by (cases n) (simp_all add: WriteInt8_def WriteByte_def)

text \<open>The height bounds the number of nested reads, so it is fuel enough.\<close>

lemma load_stored:
  assumes "balanced n" "small n" "node_fits H ke ve n" "codec_ok kd ke" "codec_ok vd ve" "stored H ke ve db n"
    "nat (node_height n) < fuel"
  shows "load_node fuel kd vd db (hashWithCount H ke ve n) = Ok n"
  using assms
proof (induction n arbitrary: fuel)
  case (Leaf k v)
  then obtain fuel' where fuel: "fuel = Suc fuel'" by (cases fuel) auto
  obtain r where "ReadIAVLNode kd vd (reader_of (writePersistBytes H ke ve (Leaf k v))) =
      (\<lparr> rn_height = 0, rn_size = 1, rn_key = Some k, rn_value = Some v, rn_leftHash = [], rn_rightHash = [] \<rparr>, r)"
    "r_err r = None"
    using read_leaf [OF Leaf.prems(4,5), of k v H] Leaf.prems(3) by (auto simp: node_fits_def)
  then show ?case using Leaf.prems(6) writePersistBytes_not_Nil [of H ke ve "Leaf k v"]
    by (simp add: fuel GetNode_def del: writePersistBytes.simps)
next
  case (Inner k h s l r)
  then obtain fuel' where fuel: "fuel = Suc fuel'" by (cases fuel) auto
  note bf = balanced_fits [OF Inner.prems(1,2)]
  have sub: "balanced l" "balanced r" "small l" "small r" "node_fits H ke ve l" "node_fits H ke ve r"
    "stored H ke ve db l" "stored H ke ve db r" "k = first_key r"
    "nat (node_height l) < fuel'" "nat (node_height r) < fuel'"
    using Inner.prems node_height_nonneg [of l] node_height_nonneg [of r]
    by (auto simp: small_def node_fits_def fuel)
  obtain r' where "ReadIAVLNode kd vd (reader_of (writePersistBytes H ke ve (Inner k h s l r))) =
      (\<lparr> rn_height = h, rn_size = s, rn_key = Some k, rn_value = None, rn_leftHash = hashWithCount H ke ve l,
         rn_rightHash = hashWithCount H ke ve r \<rparr>, r')" "r_err r' = None"
    using read_inner [OF Inner.prems(4), of h s k H vd ve l r] bf first_key_fits [OF sub(6)] sub(9) Inner.prems(3)
    by (auto simp: node_fits_def)
  then have "GetNode kd vd db (hashWithCount H ke ve (Inner k h s l r)) =
      Ok \<lparr> rn_height = h, rn_size = s, rn_key = Some k, rn_value = None, rn_leftHash = hashWithCount H ke ve l,
         rn_rightHash = hashWithCount H ke ve r \<rparr>"
    using Inner.prems(6) writePersistBytes_not_Nil [of H ke ve "Inner k h s l r"]
    by (simp add: GetNode_def del: writePersistBytes.simps)
  then show ?case
    using Inner.IH(1) [OF sub(1,3,5) Inner.prems(4,5) sub(7,10)] Inner.IH(2) [OF sub(2,4,6) Inner.prems(4,5) sub(8,11)] bf
    by (simp add: fuel)
qed

section \<open>A hash determines its node\<close>

lemma codec_inj: "codec_ok dec enc \<Longrightarrow> enc a = enc b \<Longrightarrow> a = b"
  unfolding codec_ok_def by (metis option.inject)

lemma node_fits_fits:
  "node_fits H ke ve n \<Longrightarrow> (k, v) \<in> set (node_entries n) \<Longrightarrow> fits (ke k) \<and> fits (ve v)"
  "node_fits H ke ve n \<Longrightarrow> fits (H x)"
proof -
  show "node_fits H ke ve n \<Longrightarrow> (k, v) \<in> set (node_entries n) \<Longrightarrow> fits (ke k) \<and> fits (ve v)"
    by (fastforce simp: node_fits_def fits_def slice_limit_def int64_simps)
  assume "node_fits H ke ve n"
  then have "length (H x) \<le> slice_limit" by (simp add: node_fits_def)
  then show "fits (H x)" by (simp add: fits_def slice_limit_def int64_simps)
qed

lemma hash_determines_node:
  assumes "codec_ok kd ke" "codec_ok vd ve"
    and "balanced m" "small m" "node_fits H ke ve m" "balanced m'" "small m'" "node_fits H ke ve m'"
    and "\<forall>x \<in> tree_inputs H ke ve m. \<forall>y \<in> tree_inputs H ke ve m'. H x = H y \<longrightarrow> x = y"
    and "hashWithCount H ke ve m = hashWithCount H ke ve m'"
  shows "m = m'"
  using assms(3-)
proof (induction m arbitrary: m')
  case (Leaf k v)
  note f = node_fits_fits [OF Leaf.prems(3)] node_fits_fits [OF Leaf.prems(6)]
  have "writeHashBytes H ke ve (Leaf k v) = writeHashBytes H ke ve m'"
    using Leaf.prems(7,8) by (cases m') (auto simp: hashWithCount_def)
  then show ?case
  proof (cases m')
    case [simp]: (Leaf k' v')
    show ?thesis
      using fields_eq [of 0 1 "ke k" "ve v" 0 1 "ke k'" "ve v'"] f fits_1 \<open>writeHashBytes H ke ve _ = _\<close>
        codec_inj [OF assms(1)] codec_inj [OF assms(2)] by simp
  next
    case [simp]: (Inner k' h' s' l' r')
    show ?thesis
      using fields_eq [of 0 1 "ke k" "ve v" h' s' "H (writeHashBytes H ke ve l')" "H (writeHashBytes H ke ve r')"]
        f fits_1 balanced_fits [of k' h' s' l' r'] Leaf.prems(4,5) \<open>writeHashBytes H ke ve _ = _\<close> by simp
  qed
next
  case (Inner k h s l r)
  note f = node_fits_fits [OF Inner.prems(3)] node_fits_fits [OF Inner.prems(6)]
  note bf = balanced_fits [OF Inner.prems(1,2)]
  have eq: "writeHashBytes H ke ve (Inner k h s l r) = writeHashBytes H ke ve m'"
    using Inner.prems(7,8) by (cases m') (auto simp: hashWithCount_def)
  then show ?case
  proof (cases m')
    case [simp]: (Leaf k' v')
    show ?thesis
      using fields_eq [of h s "H (writeHashBytes H ke ve l)" "H (writeHashBytes H ke ve r)" 0 1 "ke k'" "ve v'"]
        f fits_1 bf eq by simp
  next
    case [simp]: (Inner k' h' s' l' r')
    have e: "h = h'" "s = s'" "hashWithCount H ke ve l = hashWithCount H ke ve l'"
      "hashWithCount H ke ve r = hashWithCount H ke ve r'"
      using fields_eq [of h s "H (writeHashBytes H ke ve l)" "H (writeHashBytes H ke ve r)"
          h' s' "H (writeHashBytes H ke ve l')" "H (writeHashBytes H ke ve r')"]
        f bf balanced_fits [of k' h' s' l' r'] Inner.prems(4,5) eq by (simp_all add: hashWithCount_def)
    have sub: "balanced l" "small l" "node_fits H ke ve l" "balanced l'" "small l'" "node_fits H ke ve l'"
      "balanced r" "small r" "node_fits H ke ve r" "balanced r'" "small r'" "node_fits H ke ve r'"
      using Inner.prems(1-6) by (auto simp: small_def node_fits_def)
    have no: "\<forall>x \<in> tree_inputs H ke ve l. \<forall>y \<in> tree_inputs H ke ve l'. H x = H y \<longrightarrow> x = y"
      "\<forall>x \<in> tree_inputs H ke ve r. \<forall>y \<in> tree_inputs H ke ve r'. H x = H y \<longrightarrow> x = y"
      using Inner.prems(7) by simp_all
    have "l = l'" "r = r'" using Inner.IH(1) [OF sub(1-6) no(1) e(3)] Inner.IH(2) [OF sub(7-12) no(2) e(4)] by auto
    with e Inner.prems(1,4) show ?thesis by simp
  qed
qed

section \<open>Saving\<close>

lemma subnodes_prop:
  "m \<in> subnodes n \<Longrightarrow> balanced n \<and> small n \<and> node_fits H ke ve n \<Longrightarrow>
     balanced m \<and> small m \<and> node_fits H ke ve m \<and> tree_inputs H ke ve m \<subseteq> tree_inputs H ke ve n"
proof (induction n)
  case (Inner k h s l r)
  then have "balanced l \<and> small l \<and> node_fits H ke ve l" "balanced r \<and> small r \<and> node_fits H ke ve r"
    by (auto simp: small_def node_fits_def)
  with Inner show ?case by auto
qed auto

text \<open>Saving a node keeps what is stored under the hashes of a set of nodes whose hashes do not collide.\<close>

lemma node_save_keeps:
  assumes "\<forall>m \<in> S. \<forall>m' \<in> S. hashWithCount H ke ve m = hashWithCount H ke ve m' \<longrightarrow> m = m'" "subnodes n \<subseteq> S" "m \<in> S"
    "map_of db (hashWithCount H ke ve m) = Some (writePersistBytes H ke ve m)"
  shows "map_of (node_save persisted H ke ve n db) (hashWithCount H ke ve m) = Some (writePersistBytes H ke ve m)"
  using assms(2-4)
proof (induction n arbitrary: db)
  case (Leaf k v)
  then show ?case using assms(1) by (auto simp: SaveNode_def simp del: writePersistBytes.simps)
next
  case (Inner k h s l r)
  have "map_of (node_save persisted H ke ve l db) (hashWithCount H ke ve m) = Some (writePersistBytes H ke ve m)"
    using Inner.IH(1) Inner.prems by simp
  then have "map_of (node_save persisted H ke ve r (node_save persisted H ke ve l db)) (hashWithCount H ke ve m) =
      Some (writePersistBytes H ke ve m)"
    using Inner.IH(2) Inner.prems by simp
  then show ?case using Inner.prems assms(1) by (auto simp: SaveNode_def simp del: writePersistBytes.simps)
qed

lemma node_save_stores:
  assumes "\<forall>m \<in> S. \<forall>m' \<in> S. hashWithCount H ke ve m = hashWithCount H ke ve m' \<longrightarrow> m = m'" "subnodes n \<subseteq> S"
    "\<forall>m \<in> subnodes n. persisted m \<longrightarrow> stored H ke ve db m"
  shows "stored H ke ve (node_save persisted H ke ve n db) n"
  using assms(2,3)
proof (induction n arbitrary: db)
  case (Leaf k v)
  then show ?case by (simp add: SaveNode_def)
next
  case (Inner k h s l r)
  let ?n = "Inner k h s l r"
  let ?db1 = "node_save persisted H ke ve l db"
  let ?db2 = "node_save persisted H ke ve r ?db1"
  note keep = node_save_keeps [OF assms(1)]
  show ?case
  proof (cases "persisted ?n")
    case True
    then show ?thesis using Inner.prems by simp
  next
    case False
    have l: "stored H ke ve ?db1 l" using Inner.IH(1) Inner.prems by simp
    have "\<forall>m \<in> subnodes r. persisted m \<longrightarrow> stored H ke ve ?db1 m"
    proof (intro ballI impI)
      fix m assume m: "m \<in> subnodes r" "persisted m"
      then have "stored H ke ve db m" using Inner.prems(2) by simp
      moreover have "subnodes m \<subseteq> S"
      proof -
        have "a \<in> subnodes m \<Longrightarrow> m \<in> subnodes r \<Longrightarrow> a \<in> subnodes r" for a
          by (induction r) auto
        then show ?thesis using m(1) Inner.prems(1) by auto
      qed
      ultimately show "stored H ke ve ?db1 m"
        using keep [of l _ db] Inner.prems(1) by (auto simp: stored_iff)
    qed
    then have r: "stored H ke ve ?db2 r" using Inner.IH(2) Inner.prems by simp
    have l2: "stored H ke ve ?db2 l"
      using l keep [of r _ ?db1] Inner.prems(1) by (auto simp: stored_iff)
    have "stored H ke ve (SaveNode H ke ve ?n ?db2) m" if "stored H ke ve ?db2 m" "subnodes m \<subseteq> S" for m
      using that assms(1) Inner.prems(1) by (auto simp: stored_iff SaveNode_def simp del: writePersistBytes.simps)
    then show ?thesis using False l2 r Inner.prems(1) by (simp add: SaveNode_def)
  qed
qed

text \<open>
  C13: A saved tree is read back from the database unchanged: after \<open>save\<close>, reading the nodes from
  the root's hash gives the tree, whatever was in the database, as long as the nodes that were marked as
  persisted are there. The codecs have to decode what they encode, keys and values have to be below a
  third of the reading limit, and no two different byte strings hashed for the tree may have the same
  hash.
\<close>

theorem saved_tree_loads:
  assumes "node_ok n" "small n" "node_fits H ke ve n" "codec_ok kd ke" "codec_ok vd ve"
    and "\<forall>x \<in> tree_inputs H ke ve n. \<forall>y \<in> tree_inputs H ke ve n. H x = H y \<longrightarrow> x = y"
    and "\<forall>m \<in> subnodes n. persisted m \<longrightarrow> stored H ke ve db m"
  shows "load_node (Suc (nat (node_height n))) kd vd (node_save persisted H ke ve n db) (hashWithCount H ke ve n) = Ok n"
proof -
  have n: "balanced n" using assms(1) by (simp add: node_ok_def)
  have "m = m'" if "m \<in> subnodes n" "m' \<in> subnodes n" "hashWithCount H ke ve m = hashWithCount H ke ve m'" for m m'
    using subnodes_prop [OF that(1), of H ke ve] subnodes_prop [OF that(2), of H ke ve] n assms(2,3,6) that(3)
    by (intro hash_determines_node [OF assms(4,5)]) auto
  then have "stored H ke ve (node_save persisted H ke ve n db) n"
    using assms(7) by (intro node_save_stores [of "subnodes n"]) auto
  then show ?thesis by (rule load_stored [OF n assms(2-5)]) simp
qed

definition sample_node :: "(byte, byte) IAVLNode" where
  "sample_node = Inner 5 1 2 (Leaf 3 7) (Leaf 5 9)"

lemma sample_writes:
  "WriteByteSlice [b] = [1, 1, b]" "WriteInt8 0 = [0]" "WriteInt8 1 = [1]" "WriteVarint 1 = [1, 1]" "WriteVarint 2 = [1, 2]"
  by (simp_all add: WriteByteSlice_def WriteInt8_def WriteVarint_def to_uint64_def uvarintSize_def WriteByte_def numeral_eq_Suc)

lemma sample_facts:
  "node_ok sample_node" "small sample_node" "node_fits sample_hash (\<lambda>k. [k]) (\<lambda>v. [v]) sample_node"
  "codec_ok (\<lambda>bs. Some (hd bs)) (\<lambda>k. [k :: byte])"
  "\<forall>x \<in> tree_inputs sample_hash (\<lambda>k. [k]) (\<lambda>v. [v]) sample_node.
     \<forall>y \<in> tree_inputs sample_hash (\<lambda>k. [k]) (\<lambda>v. [v]) sample_node. sample_hash x = sample_hash y \<longrightarrow> x = y"
  by (simp_all add: node_ok_def sample_node_def small_def tree_ok_def node_fits_def sample_hash_def slice_limit_def
      codec_ok_def sample_writes min.coboundedI2)

theorem saved_tree_loads_witness:
  "load_node 2 (\<lambda>bs. Some (hd bs)) (\<lambda>bs. Some (hd bs))
     (node_save (\<lambda>n. False) sample_hash (\<lambda>k. [k]) (\<lambda>v. [v]) sample_node [([4], [4])])
     (hashWithCount sample_hash (\<lambda>k. [k]) (\<lambda>v. [v]) sample_node) = Ok sample_node"
  using saved_tree_loads [OF sample_facts(1-4) sample_facts(4,5), of "\<lambda>n. False" "[([4], [4])]"]
  by (simp add: sample_node_def numeral_2_eq_2)

text \<open>
  C14: The hash of a tree determines what it holds: two trees with the same hash have the same
  entries, unless two different byte strings among the ones hashed for them have the same hash. So
  nodes that agree on the state hash of a block agree on the accounts and names.
\<close>

theorem root_hash_determines_entries:
  assumes "iavl_ok (Some m)" "iavl_ok (Some n)" "small m" "small n" "node_fits H ke ve m" "node_fits H ke ve n"
    and "codec_ok kd ke" "codec_ok vd ve"
    and "\<forall>x \<in> tree_inputs H ke ve m. \<forall>y \<in> tree_inputs H ke ve n. H x = H y \<longrightarrow> x = y"
    and "iavl_Hash H ke ve (Some m) = iavl_Hash H ke ve (Some n)"
  shows "tree_entries (Some m) = tree_entries (Some n)"
proof -
  have b: "balanced m" "balanced n" using assms(1,2) by (simp_all add: iavl_ok_def node_ok_def)
  have "hashWithCount H ke ve m = hashWithCount H ke ve n" using assms(10) by (simp add: iavl_Hash_def)
  then have "m = n" by (rule hash_determines_node [OF assms(7,8) b(1) assms(3,5) b(2) assms(4,6,9)])
  then show ?thesis by simp
qed

theorem root_hash_determines_entries_witness:
  "tree_entries (Some sample_node) = tree_entries (Some (Inner 5 1 2 (Leaf 3 7) (Leaf 5 9)))"
proof -
  have ok: "iavl_ok (Some sample_node)" using sample_facts(1) by (simp add: iavl_ok_def)
  have "tree_entries (Some sample_node) = tree_entries (Some sample_node)"
    by (rule root_hash_determines_entries [OF ok ok sample_facts(2,2,3,3,4) sample_facts(4,5) refl])
  then show ?thesis by (simp add: sample_node_def)
qed

end
