(* ===== verification/Bit_Array.thy ===== *)
theory Bit_Array
  imports Wire
begin

unbundle bit_operations_syntax

text \<open>
  Bit arrays (the vendored \<open>common/bit_array.go\<close>): which votes and which parts of a block are known.
  The nil pointer is \<open>None\<close>. The random numbers that \<open>PickRandom\<close> draws are arguments: the first word
  to look at and, for each word, the first bit.
\<close>

record BitArray =
  Bits :: int
  Elems :: "uint list"

definition words_for :: "int \<Rightarrow> nat outcome" where
  "words_for bits =
     (let n = go_div (wrap64 (bits + 63)) 64 in
      if n < 0 then Panic ''makeslice: len out of range'' else Ok (nat n))"

definition NewBitArray :: "int \<Rightarrow> BitArray option outcome" where
  "NewBitArray bits =
     (if bits = 0 then Ok None
      else obind (words_for bits) (\<lambda>n. Ok (Some \<lparr> Bits = bits, Elems = replicate n 0 \<rparr>)))"

definition ba_Size :: "BitArray option \<Rightarrow> int" where
  "ba_Size bA = (case bA of None \<Rightarrow> 0 | Some a \<Rightarrow> Bits a)"

text \<open>
  The word and the mask of a position: a negative shift count is a huge unsigned one, so the mask is
  zero; a negative index of a word panics.
\<close>

definition bit_mask :: "int \<Rightarrow> uint" where
  "bit_mask i = (let k = go_rem i 64 in if k < 0 then 0 else push_bit (nat k) 1)"

definition elem_at :: "BitArray \<Rightarrow> int \<Rightarrow> nat outcome" where
  "elem_at a i =
     (let w = go_div i 64 in
      if w < 0 \<or> int (length (Elems a)) \<le> w then Panic ''index out of range'' else Ok (nat w))"

definition ba_getIndex :: "BitArray \<Rightarrow> int \<Rightarrow> bool outcome" where
  "ba_getIndex a i =
     (if i \<ge> Bits a then Ok False
      else obind (elem_at a i) (\<lambda>w. Ok ((Elems a ! w) AND bit_mask i > 0)))"

definition ba_GetIndex :: "BitArray option \<Rightarrow> int \<Rightarrow> bool outcome" where
  "ba_GetIndex bA i = (case bA of None \<Rightarrow> Ok False | Some a \<Rightarrow> ba_getIndex a i)"

definition ba_setIndex :: "BitArray \<Rightarrow> int \<Rightarrow> bool \<Rightarrow> (BitArray \<times> bool) outcome" where
  "ba_setIndex a i v =
     (if i \<ge> Bits a then Ok (a, False)
      else obind (elem_at a i) (\<lambda>w.
        Ok (a\<lparr> Elems := (Elems a)[w := if v then (Elems a ! w) OR bit_mask i else (Elems a ! w) AND NOT (bit_mask i)] \<rparr>,
            True)))"

definition ba_SetIndex :: "BitArray option \<Rightarrow> int \<Rightarrow> bool \<Rightarrow> (BitArray option \<times> bool) outcome" where
  "ba_SetIndex bA i v =
     (case bA of
        None \<Rightarrow> Ok (None, False)
      | Some a \<Rightarrow> obind (ba_setIndex a i v) (\<lambda>(a', was_set). Ok (Some a', was_set)))"

definition copyBits :: "BitArray \<Rightarrow> int \<Rightarrow> BitArray outcome" where
  "copyBits a bits =
     obind (words_for bits) (\<lambda>n. Ok \<lparr> Bits = bits, Elems = take n (Elems a @ replicate n 0) \<rparr>)"

definition ba_and :: "BitArray \<Rightarrow> BitArray option \<Rightarrow> BitArray outcome" where
  "ba_and a ob =
     (case ob of
        None \<Rightarrow> Panic ''nil pointer dereference''
      | Some b \<Rightarrow> obind (copyBits a (min (Bits a) (Bits b))) (\<lambda>c.
          if length (Elems b) < length (Elems c) then Panic ''index out of range''
          else Ok (c\<lparr> Elems := map2 (AND) (Elems c) (Elems b) \<rparr>)))"

definition ba_And :: "BitArray option \<Rightarrow> BitArray option \<Rightarrow> BitArray option outcome" where
  "ba_And bA ob = (case bA of None \<Rightarrow> Ok None | Some a \<Rightarrow> obind (ba_and a ob) (\<lambda>c. Ok (Some c)))"

definition ba_Or :: "BitArray option \<Rightarrow> BitArray option \<Rightarrow> BitArray option outcome" where
  "ba_Or bA ob =
     (case (bA, ob) of
        (Some a, Some b) \<Rightarrow> obind (copyBits a (max (Bits a) (Bits b))) (\<lambda>c.
          if length (Elems b) < length (Elems c) then Panic ''index out of range''
          else Ok (Some (c\<lparr> Elems := map2 (OR) (Elems c) (Elems b) \<rparr>)))
      | _ \<Rightarrow> Panic ''nil pointer dereference'')"

definition ba_Not :: "BitArray option \<Rightarrow> BitArray option" where
  "ba_Not bA = (case bA of None \<Rightarrow> None | Some a \<Rightarrow> Some (a\<lparr> Elems := map NOT (Elems a) \<rparr>))"

text \<open>The loop of \<open>Sub\<close> over the bits of the last word.\<close>

primrec sub_bits :: "nat \<Rightarrow> int \<Rightarrow> BitArray \<Rightarrow> BitArray \<Rightarrow> BitArray outcome" where
  "sub_bits 0 idx b c = Ok c"
| "sub_bits (Suc k) idx b c =
     obind (ba_getIndex c idx) (\<lambda>x.
     obind (if x then ba_getIndex b idx else Ok False) (\<lambda>y.
     obind (ba_setIndex c idx (x \<and> \<not> y)) (\<lambda>(c', was_set). sub_bits k (idx + 1) b c')))"

definition ba_Sub :: "BitArray option \<Rightarrow> BitArray option \<Rightarrow> BitArray option outcome" where
  "ba_Sub bA ob =
     (case bA of
        None \<Rightarrow> Ok None
      | Some a \<Rightarrow>
          (case ob of
             None \<Rightarrow> Panic ''nil pointer dereference''
           | Some b \<Rightarrow>
               if Bits a > Bits b then
                 (let n = length (Elems b) - 1;
                      c = a\<lparr> Elems := map (\<lambda>e. e AND NOT e) (take n (Elems a)) @ drop n (Elems a) \<rparr>
                  in if length (Elems a) < n then Panic ''index out of range''
                     else if Elems b = [] then Ok (Some c)
                     else obind (sub_bits (nat (Bits b - int n * 64)) (int n * 64) b c) (\<lambda>c'. Ok (Some c')))
               else obind (ba_and a (ba_Not ob)) (\<lambda>c. Ok (Some c))))"

definition ba_IsFull :: "BitArray option \<Rightarrow> bool outcome" where
  "ba_IsFull bA =
     (case bA of
        None \<Rightarrow> Ok True
      | Some a \<Rightarrow>
          if Elems a = [] then Panic ''slice bounds out of range''
          else if \<exists>e \<in> set (butlast (Elems a)). NOT e \<noteq> 0 then Ok False
          else (let lastElemBits = go_rem (wrap64 (Bits a + 63)) 64 + 1
                in Ok ((last (Elems a) + 1) AND (push_bit (nat lastElemBits) 1 - 1) = 0)))"

text \<open>The first set bit of a word among \<open>k\<close> bits, beginning with the bit \<open>start\<close>.\<close>

definition find_bit :: "uint \<Rightarrow> nat \<Rightarrow> nat \<Rightarrow> nat option" where
  "find_bit w k start = find (\<lambda>j. w AND push_bit j 1 > 0) (map (\<lambda>j. (j + start) mod k) [0..<k])"

text \<open>
  The words are visited cyclically. The loop over a word that is not the last one is entered for a
  nonzero word only and ends with a set bit or panics; in the last word the bits beyond the size are
  left out.
\<close>

fun pick_words :: "(nat \<Rightarrow> nat) \<Rightarrow> BitArray \<Rightarrow> nat list \<Rightarrow> (int \<times> bool) outcome" where
  "pick_words rnd a [] = Ok (0, False)"
| "pick_words rnd a (w # ws) =
     (if w < length (Elems a) - 1 then
        (if Elems a ! w > 0 then
           (case find_bit (Elems a ! w) 64 (rnd w) of
              Some j \<Rightarrow> Ok (64 * int w + int j, True)
            | None \<Rightarrow> Panic ''should not happen'')
         else pick_words rnd a ws)
      else
        (let elemBits = (let m = go_rem (Bits a) 64 in if m = 0 then 64 else m)
         in if elemBits < 0 then Panic ''invalid argument to Intn''
            else (case find_bit (Elems a ! w) (nat elemBits) (rnd w) of
                    Some j \<Rightarrow> Ok (64 * int w + int j, True)
                  | None \<Rightarrow> pick_words rnd a ws)))"

definition ba_PickRandom :: "nat \<Rightarrow> (nat \<Rightarrow> nat) \<Rightarrow> BitArray option \<Rightarrow> (int \<times> bool) outcome" where
  "ba_PickRandom start rnd bA =
     (case bA of
        None \<Rightarrow> Ok (0, False)
      | Some a \<Rightarrow>
          (let n = length (Elems a) in
           if n = 0 then Ok (0, False) else pick_words rnd a (map (\<lambda>i. (i + start) mod n) [0..<n])))"

section \<open>A bit array is a set of positions\<close>

definition ba_ok :: "BitArray \<Rightarrow> bool" where
  "ba_ok a \<longleftrightarrow> 0 < Bits a \<and> Bits a < 2 ^ 62 \<and> int (length (Elems a)) = (Bits a + 63) div 64"

definition bits_of :: "BitArray \<Rightarrow> nat set" where
  "bits_of a = {i. int i < Bits a \<and> bit (Elems a ! (i div 64)) (i mod 64)}"

lemma go_div_nonneg: "0 \<le> i \<Longrightarrow> go_div i 64 = i div 64"
  by (auto simp: go_div_def sgn_if)

lemma go_rem_nonneg: "0 \<le> i \<Longrightarrow> go_rem i 64 = i mod 64"
  by (simp add: go_rem_def go_div_nonneg minus_div_mult_eq_mod)

lemma bit_mask_nat: "bit_mask (int i) = 2 ^ (i mod 64)"
  by (simp add: bit_mask_def go_rem_nonneg nat_mod_distrib Let_def)

lemma and_mask_pos: "(w :: uint) AND 2 ^ k > 0 \<longleftrightarrow> bit w k"
  by (simp add: bit_iff_and_push_bit_not_eq_0 word_gt_0)

lemma words_for_pos: "0 \<le> bits \<Longrightarrow> bits < 2 ^ 62 \<Longrightarrow> words_for bits = Ok (nat ((bits + 63) div 64))"
  by (simp add: words_for_def int64_simps go_div_nonneg Let_def)

lemma elem_at_nat: "ba_ok a \<Longrightarrow> int i < Bits a \<Longrightarrow> elem_at a (int i) = Ok (i div 64)"
  by (auto simp: elem_at_def go_div_nonneg ba_ok_def nat_div_distrib Let_def)

lemma word_index: "ba_ok a \<Longrightarrow> int i < Bits a \<Longrightarrow> i div 64 < length (Elems a)"
  by (auto simp: ba_ok_def)

lemma getIndex_bits: "ba_ok a \<Longrightarrow> ba_getIndex a (int i) = Ok (i \<in> bits_of a)"
  by (auto simp: ba_getIndex_def elem_at_nat bits_of_def bit_mask_nat and_mask_pos)

lemma setIndex_bits:
  assumes "ba_ok a" "int i < Bits a"
  shows "\<exists>a'. ba_setIndex a (int i) v = Ok (a', True) \<and> ba_ok a' \<and> Bits a' = Bits a \<and>
    bits_of a' = (if v then insert i (bits_of a) else bits_of a - {i})"
proof -
  let ?w = "i div 64"
  let ?e = "if v then (Elems a ! ?w) OR 2 ^ (i mod 64) else (Elems a ! ?w) AND NOT (2 ^ (i mod 64))"
  define a' where "a' = a\<lparr> Elems := (Elems a)[?w := ?e] \<rparr>"
  have w: "?w < length (Elems a)" by (rule word_index [OF assms])
  have e: "bit ?e k \<longleftrightarrow> (if k = i mod 64 then v else bit (Elems a ! ?w) k)" if "k < 64" for k
    using that by (auto simp: bit_simps possible_bit_def)
  have b: "bit (Elems a' ! (j div 64)) (j mod 64) \<longleftrightarrow> (if j = i then v else bit (Elems a ! (j div 64)) (j mod 64))" for j
  proof (cases "j div 64 = ?w")
    case True
    then have "j = i \<longleftrightarrow> j mod 64 = i mod 64" by (metis div_mult_mod_eq)
    then show ?thesis using True w e [of "j mod 64"] by (simp add: a'_def)
  qed (auto simp: a'_def)
  have "ba_setIndex a (int i) v = Ok (a', True)"
    using assms by (simp add: ba_setIndex_def elem_at_nat bit_mask_nat a'_def)
  moreover have "bits_of a' = (if v then insert i (bits_of a) else bits_of a - {i})"
    using assms(2) b by (auto simp: bits_of_def a'_def)
  moreover have "ba_ok a'" "Bits a' = Bits a" using assms(1) by (auto simp: a'_def ba_ok_def)
  ultimately show ?thesis by blast
qed

lemma and_bits:
  assumes "ba_ok a" "ba_ok b" "Bits a \<le> Bits b"
  shows "\<exists>c. ba_and a (Some b) = Ok c \<and> ba_ok c \<and> Bits c = Bits a \<and> bits_of c = bits_of a \<inter> bits_of b"
proof -
  have l: "length (Elems a) \<le> length (Elems b)"
    using assms by (auto simp: ba_ok_def)
  have "words_for (Bits a) = Ok (length (Elems a))"
    using assms(1) words_for_pos [of "Bits a"] by (auto simp: ba_ok_def)
  then have eq: "ba_and a (Some b) = Ok (a\<lparr> Elems := map2 (AND) (Elems a) (Elems b) \<rparr>)"
    using l assms(3) by (simp add: ba_and_def copyBits_def)
  have "bits_of (a\<lparr> Elems := map2 (AND) (Elems a) (Elems b) \<rparr>) = bits_of a \<inter> bits_of b"
    using assms l word_index [OF assms(1)] word_index [OF assms(2)] by (auto simp: bits_of_def bit_simps)
  then show ?thesis using eq l assms(1) by (simp add: ba_ok_def)
qed

lemma not_bits:
  assumes "ba_ok a"
  shows "\<exists>c. ba_Not (Some a) = Some c \<and> ba_ok c \<and> Bits c = Bits a \<and> bits_of c = {i. int i < Bits a} - bits_of a"
  using assms word_index [OF assms] by (auto simp: ba_Not_def ba_ok_def bits_of_def bit_simps)

lemma sub_bits_set:
  assumes "ba_ok a" "ba_ok b" "Bits a \<le> Bits b"
  shows "\<exists>c. ba_Sub (Some a) (Some b) = Ok (Some c) \<and> ba_ok c \<and> Bits c = Bits a \<and> bits_of c = bits_of a - bits_of b"
proof -
  obtain nb where nb: "ba_Not (Some b) = Some nb" "ba_ok nb" "Bits nb = Bits b"
    "bits_of nb = {i. int i < Bits b} - bits_of b"
    using not_bits [OF assms(2)] by blast
  obtain c where "ba_and a (Some nb) = Ok c" "ba_ok c" "Bits c = Bits a" "bits_of c = bits_of a \<inter> bits_of nb"
    using and_bits [OF assms(1) nb(2)] assms(3) nb(3) by auto
  moreover have "i \<in> bits_of a \<Longrightarrow> int i < Bits b" for i using assms(3) by (auto simp: bits_of_def)
  then have "bits_of a \<inter> bits_of nb = bits_of a - bits_of b" unfolding nb(4) by auto
  ultimately show ?thesis using nb(1) assms(3) by (simp add: ba_Sub_def)
qed

text \<open>The test of the last word: adding one clears its lower bits exactly if they were all set.\<close>

lemma low_bits_full:
  assumes "0 < n" "n \<le> 64"
  shows "((w :: uint) + 1) AND (push_bit n 1 - 1) = 0 \<longleftrightarrow> (\<forall>k < n. bit w k)"
proof -
  have d: "(2 :: int) ^ n dvd 2 ^ 64" using assms(2) by (rule le_imp_power_dvd)
  have m: "push_bit n 1 - 1 = (mask n :: uint)"
    by (simp add: mask_eq_exp_minus_1)
  have "(w + 1) AND mask n = 0 \<longleftrightarrow> take_bit n (uint (w + 1)) = 0"
    by (simp add: word_uint_eq_iff uint_and uint_mask_eq take_bit_eq_mask assms(2) min_absorb2)
  also have "take_bit n (uint (w + 1)) = (uint w + 1) mod 2 ^ n"
    using mod_mod_cancel [OF d, of "uint w + 1"] by (simp add: uint_word_ariths take_bit_eq_mod)
  also have "(uint w + 1) mod 2 ^ n = 0 \<longleftrightarrow> uint w mod 2 ^ n = 2 ^ n - 1"
  proof -
    define r where "r = uint w mod 2 ^ n"
    have r: "0 \<le> r" "r < 2 ^ n" by (simp_all add: r_def)
    have "(uint w + 1) mod 2 ^ n = (r + 1) mod 2 ^ n" by (simp add: r_def mod_add_left_eq)
    moreover have "(r + 1) mod 2 ^ n = 0 \<longleftrightarrow> r = 2 ^ n - 1"
    proof (cases "r + 1 = 2 ^ n")
      case False
      then have "(r + 1) mod 2 ^ n = r + 1" using r by (intro mod_pos_pos_trivial) auto
      then show ?thesis using False r by auto
    qed auto
    ultimately show ?thesis by (simp add: r_def)
  qed
  also have "\<dots> \<longleftrightarrow> (\<forall>k < n. bit w k)"
  proof -
    have "uint w mod 2 ^ n = 2 ^ n - 1 \<longleftrightarrow> take_bit n (uint w) = mask n"
      by (simp add: take_bit_eq_mod mask_eq_exp_minus_1)
    also have "\<dots> \<longleftrightarrow> (\<forall>k < n. bit w k)"
      using assms(2) by (auto simp: bit_eq_iff bit_take_bit_iff bit_mask_iff bit_uint_iff possible_bit_def)
    finally show ?thesis .
  qed
  finally show ?thesis unfolding m .
qed

text \<open>All words but the last are used in full, the last one up to \<open>k\<close> bits.\<close>

lemma ba_shape:
  assumes "ba_ok a"
  obtains n k where "length (Elems a) = Suc n" "Bits a = 64 * int n + int k" "0 < k" "k \<le> 64"
    "nat (go_rem (wrap64 (Bits a + 63)) 64 + 1) = k" "(if go_rem (Bits a) 64 = 0 then 64 else go_rem (Bits a) 64) = int k"
proof -
  define n where "n = length (Elems a) - 1"
  define k where "k = nat ((Bits a - 1) mod 64 + 1)"
  have "Elems a \<noteq> []" using assms by (auto simp: ba_ok_def)
  then have len: "length (Elems a) = Suc n" by (simp add: n_def)
  have shift: "(Bits a + 63) div 64 = (Bits a - 1) div 64 + 1" "(Bits a + 63) mod 64 = (Bits a - 1) mod 64"
    using div_mult_self1 [of 64 "Bits a - 1" 1] mod_add_self2 [of "Bits a - 1" 64] by (simp_all add: algebra_simps)
  have "int (Suc n) = (Bits a + 63) div 64" using assms unfolding len [symmetric] ba_ok_def by blast
  then have n: "int n = (Bits a - 1) div 64" using shift(1) by simp
  have k: "int k = (Bits a - 1) mod 64 + 1" by (simp add: k_def)
  then have bits: "Bits a = 64 * int n + int k" using n mult_div_mod_eq [of 64 "Bits a - 1"] by linarith
  have k64: "0 < k" "k \<le> 64" using k pos_mod_bound [of 64 "Bits a - 1"] pos_mod_sign [of 64 "Bits a - 1"] by linarith+
  have "wrap64 (Bits a + 63) = Bits a + 63" using assms by (simp add: ba_ok_def int64_simps)
  then have 1: "nat (go_rem (wrap64 (Bits a + 63)) 64 + 1) = k"
    using assms shift(2) by (simp add: k_def ba_ok_def go_rem_nonneg)
  have "Bits a mod 64 = int k mod 64" by (simp add: bits)
  then have 2: "(if go_rem (Bits a) 64 = 0 then 64 else go_rem (Bits a) 64) = int k"
    using assms k64 by (cases "k = 64") (auto simp: ba_ok_def go_rem_nonneg)
  show thesis by (rule that [OF len bits k64 1 2])
qed

lemma below_iff: "k \<le> (64 :: nat) \<Longrightarrow> i < 64 * n + k \<longleftrightarrow> i div 64 < n \<or> i div 64 = n \<and> i mod 64 < k"
proof -
  assume k: "k \<le> 64"
  have i: "i = 64 * (i div 64) + i mod 64" "i mod 64 < 64" by simp_all
  show ?thesis
  proof (cases "i div 64 < n")
    case True
    then have "64 * (i div 64) + 64 \<le> 64 * n" by simp
    then show ?thesis using i True by linarith
  next
    case False
    show ?thesis
    proof (cases "i div 64 = n")
      case eq: True
      then show ?thesis using i by linarith
    next
      case neq: False
      then have "64 * n + 64 \<le> 64 * (i div 64)" using False by simp
      then show ?thesis using i k False neq by linarith
    qed
  qed
qed

lemma in_bits_iff:
  assumes "length (Elems a) = Suc n" "Bits a = 64 * int n + int k" "k \<le> 64"
  shows "i \<in> bits_of a \<longleftrightarrow>
    bit (Elems a ! (i div 64)) (i mod 64) \<and> (i div 64 < n \<or> i div 64 = n \<and> i mod 64 < k)"
proof -
  have "int i < Bits a \<longleftrightarrow> i < 64 * n + k" using assms(2) by auto
  then show ?thesis using below_iff [OF assms(3), of i n] by (auto simp: bits_of_def)
qed

lemma isFull_bits:
  assumes "ba_ok a"
  shows "ba_IsFull (Some a) = Ok (bits_of a = {i. int i < Bits a})"
proof -
  obtain n k where s: "length (Elems a) = Suc n" "Bits a = 64 * int n + int k" "0 < k" "k \<le> 64"
    "nat (go_rem (wrap64 (Bits a + 63)) 64 + 1) = k"
    using ba_shape [OF assms] by metis
  have ne: "Elems a \<noteq> []" using s(1) by auto
  have "NOT e = 0 \<longleftrightarrow> (\<forall>j < 64. bit e j)" for e :: uint
    by (auto simp: bit_eq_iff bit_simps possible_bit_def)
  then have full: "(\<forall>e \<in> set (butlast (Elems a)). NOT e = 0) \<longleftrightarrow> (\<forall>w < n. \<forall>j < 64. bit (Elems a ! w) j)"
    using s(1) by (auto simp: all_set_conv_all_nth nth_butlast)
  have last: "(last (Elems a) + 1) AND (push_bit k 1 - 1) = 0 \<longleftrightarrow> (\<forall>j < k. bit (Elems a ! n) j)"
    using low_bits_full [OF s(3,4)] ne s(1) by (simp add: last_conv_nth)
  have lt: "int i < Bits a \<longleftrightarrow> i < 64 * n + k" for i using s(2) by auto
  have "bits_of a = {i. int i < Bits a} \<longleftrightarrow> (\<forall>w < n. \<forall>j < 64. bit (Elems a ! w) j) \<and> (\<forall>j < k. bit (Elems a ! n) j)"
  proof (intro iffI conjI allI impI)
    assume A: "bits_of a = {i. int i < Bits a}"
    show "bit (Elems a ! w) j" if "w < n" "j < 64" for w j
      using that A lt [of "64 * w + j"] in_bits_iff [OF s(1,2,4), of "64 * w + j"] by auto
    show "bit (Elems a ! n) j" if "j < k" for j
      using that A lt [of "64 * n + j"] in_bits_iff [OF s(1,2,4), of "64 * n + j"] s(4) by auto
  next
    assume A: "(\<forall>w < n. \<forall>j < 64. bit (Elems a ! w) j) \<and> (\<forall>j < k. bit (Elems a ! n) j)"
    show "bits_of a = {i. int i < Bits a}"
    proof (intro set_eqI)
      fix i
      show "i \<in> bits_of a \<longleftrightarrow> i \<in> {i. int i < Bits a}"
        using A in_bits_iff [OF s(1,2,4), of i] below_iff [OF s(4), of i n] lt [of i] by auto
    qed
  qed
  then show ?thesis using ne full last s(5)
    by (auto simp: ba_IsFull_def Let_def)
qed

section \<open>Picking a bit\<close>

lemma rotation_set: "0 < k \<Longrightarrow> set (map (\<lambda>j. (j + start) mod k) [0..<k]) = {0..<k}"
proof -
  assume k: "0 < k"
  have "j \<in> (\<lambda>j. (j + start) mod k) ` {0..<k}" if "j < k" for j
  proof
    show "j = ((j + (k - start mod k)) mod k + start) mod k"
    proof -
      have "((j + (k - start mod k)) mod k + start) mod k = (j + (k - start mod k) + start mod k) mod k"
        by (simp add: mod_add_left_eq mod_add_right_eq)
      also have "(j + (k - start mod k) + start mod k) = j + k"
        using mod_less_divisor [OF k, of start] by simp
      finally show ?thesis using that by simp
    qed
    show "(j + (k - start mod k)) mod k \<in> {0..<k}" using k by simp
  qed
  then show ?thesis using k by auto
qed

lemma find_bit_Some: "find_bit w k start = Some j \<Longrightarrow> j < k \<and> bit w j"
  using rotation_set [of k start] by (auto simp: find_bit_def find_Some_iff and_mask_pos)

lemma find_bit_None: "0 < k \<Longrightarrow> find_bit w k start = None \<longleftrightarrow> (\<forall>j < k. \<not> bit w j)"
  using rotation_set [of k start] by (auto simp: find_bit_def find_None_iff and_mask_pos)

lemma pick_words_bits:
  assumes "length (Elems a) = Suc n" "Bits a = 64 * int n + int k" "0 < k" "k \<le> 64"
    "(if go_rem (Bits a) 64 = 0 then 64 else go_rem (Bits a) 64) = int k" "set ws \<subseteq> {0..n}"
  shows "(\<exists>i \<in> bits_of a. pick_words rnd a ws = Ok (int i, True)) \<or>
    pick_words rnd a ws = Ok (0, False) \<and> (\<forall>i \<in> bits_of a. i div 64 \<notin> set ws)"
  using assms(6)
proof (induction ws)
  case (Cons w ws)
  note bits = in_bits_iff [OF assms(1,2,4)]
  have rest: "(\<exists>i \<in> bits_of a. pick_words rnd a ws = Ok (int i, True)) \<or>
      pick_words rnd a ws = Ok (0, False) \<and> (\<forall>i \<in> bits_of a. i div 64 \<notin> set ws)"
    using Cons by simp
  show ?case
  proof (cases "w < n")
    case True
    show ?thesis
    proof (cases "find_bit (Elems a ! w) 64 (rnd w)")
      case None
      then have none: "\<forall>j < 64. \<not> bit (Elems a ! w) j" by (simp add: find_bit_None)
      then have "Elems a ! w = 0" by (auto simp: bit_eq_iff possible_bit_def bit_imp_le_length dest: bit_imp_le_length)
      moreover have "\<forall>i \<in> bits_of a. i div 64 \<noteq> w" using none bits by auto
      ultimately show ?thesis using rest True by (auto simp: assms(1))
    next
      case (Some j)
      then have j: "j < 64" "bit (Elems a ! w) j" by (auto dest: find_bit_Some)
      then have "64 * w + j \<in> bits_of a" using bits [of "64 * w + j"] True by simp
      moreover have "Elems a ! w > 0" using j(2) by (auto simp: word_gt_0)
      ultimately show ?thesis using Some True by (intro disjI1 bexI [of _ "64 * w + j"]) (simp_all add: assms(1))
    qed
  next
    case False
    then have w: "w = n" using Cons.prems by simp
    have eb: "(let m = go_rem (Bits a) 64 in if m = 0 then 64 else m) = int k" using assms(5) by (simp add: Let_def)
    show ?thesis
    proof (cases "find_bit (Elems a ! w) k (rnd w)")
      case None
      then have "\<forall>i \<in> bits_of a. i div 64 \<noteq> w" using assms(3) bits w by (auto simp: find_bit_None)
      then show ?thesis using rest None False by (simp add: assms(1) eb)
    next
      case (Some j)
      then have j: "j < k" "bit (Elems a ! w) j" by (auto dest: find_bit_Some)
      then have "64 * w + j \<in> bits_of a" using bits [of "64 * w + j"] w assms(4) by simp
      then show ?thesis using Some False by (intro disjI1 bexI [of _ "64 * w + j"]) (simp_all add: assms(1) eb)
    qed
  qed
qed simp

lemma PickRandom_bits:
  assumes "ba_ok a"
  shows "(\<exists>i \<in> bits_of a. ba_PickRandom start rnd (Some a) = Ok (int i, True)) \<or>
    ba_PickRandom start rnd (Some a) = Ok (0, False) \<and> bits_of a = {}"
proof -
  obtain n k where s: "length (Elems a) = Suc n" "Bits a = 64 * int n + int k" "0 < k" "k \<le> 64"
    "(if go_rem (Bits a) 64 = 0 then 64 else go_rem (Bits a) 64) = int k"
    using ba_shape [OF assms] by metis
  let ?ws = "map (\<lambda>i. (i + start) mod Suc n) [0..<Suc n]"
  have ws: "set ?ws = {0..n}" using rotation_set [of "Suc n" start] by auto
  have eq: "ba_PickRandom start rnd (Some a) = pick_words rnd a ?ws"
    by (simp only: ba_PickRandom_def option.case s(1) Let_def) simp
  have "\<forall>i \<in> bits_of a. i div 64 \<in> set ?ws" using in_bits_iff [OF s(1,2,4)] ws by auto
  then show ?thesis
    using pick_words_bits [OF s, of ?ws rnd] ws unfolding eq by blast
qed

text \<open>
  A bit array is a finite set of positions: reading, setting and clearing a position,
  intersection, complement, difference with an array that is not shorter, the test whether all
  positions are set, and the random choice, which always finds a set position when there is one,
  whatever random numbers are drawn. No operation panics.
\<close>

theorem bit_array_is_set:
  assumes "ba_ok a" "ba_ok b" "Bits a \<le> Bits b" "int i < Bits a"
  shows "ba_GetIndex (Some a) (int i) = Ok (i \<in> bits_of a) \<and>
    (\<exists>c. ba_SetIndex (Some a) (int i) v = Ok (Some c, True) \<and> ba_ok c \<and>
      bits_of c = (if v then insert i (bits_of a) else bits_of a - {i})) \<and>
    (\<exists>c. ba_And (Some a) (Some b) = Ok (Some c) \<and> ba_ok c \<and> bits_of c = bits_of a \<inter> bits_of b) \<and>
    (\<exists>c. ba_Not (Some a) = Some c \<and> ba_ok c \<and> bits_of c = {i. int i < Bits a} - bits_of a) \<and>
    (\<exists>c. ba_Sub (Some a) (Some b) = Ok (Some c) \<and> ba_ok c \<and> bits_of c = bits_of a - bits_of b) \<and>
    ba_IsFull (Some a) = Ok (bits_of a = {i. int i < Bits a}) \<and>
    ((\<exists>j \<in> bits_of a. ba_PickRandom start rnd (Some a) = Ok (int j, True)) \<or>
      ba_PickRandom start rnd (Some a) = Ok (0, False) \<and> bits_of a = {})"
proof (intro conjI)
  show "ba_GetIndex (Some a) (int i) = Ok (i \<in> bits_of a)"
    using getIndex_bits [OF assms(1)] by (simp add: ba_GetIndex_def)
  show "\<exists>c. ba_SetIndex (Some a) (int i) v = Ok (Some c, True) \<and> ba_ok c \<and>
      bits_of c = (if v then insert i (bits_of a) else bits_of a - {i})"
    using setIndex_bits [OF assms(1,4), of v] by (auto simp: ba_SetIndex_def)
  show "\<exists>c. ba_And (Some a) (Some b) = Ok (Some c) \<and> ba_ok c \<and> bits_of c = bits_of a \<inter> bits_of b"
    using and_bits [OF assms(1-3)] by (auto simp: ba_And_def)
  show "\<exists>c. ba_Not (Some a) = Some c \<and> ba_ok c \<and> bits_of c = {i. int i < Bits a} - bits_of a"
    using not_bits [OF assms(1)] by blast
  show "\<exists>c. ba_Sub (Some a) (Some b) = Ok (Some c) \<and> ba_ok c \<and> bits_of c = bits_of a - bits_of b"
    using sub_bits_set [OF assms(1-3)] by blast
qed (rule isFull_bits [OF assms(1)] PickRandom_bits [OF assms(1)])+

definition sample_bits :: BitArray where
  "sample_bits = \<lparr> Bits = 70, Elems = [5, 1] \<rparr>"

theorem bit_array_is_set_witness:
  "ba_GetIndex (Some sample_bits) 64 = Ok (64 \<in> bits_of sample_bits) \<and>
   (\<exists>j \<in> bits_of sample_bits. ba_PickRandom 1 (\<lambda>w. 3) (Some sample_bits) = Ok (int j, True))"
proof -
  have ok: "ba_ok sample_bits" by (simp add: ba_ok_def sample_bits_def)
  have i: "int 64 < Bits sample_bits" by (simp add: sample_bits_def)
  have ne: "bits_of sample_bits \<noteq> {}"
  proof -
    have "64 \<in> bits_of sample_bits" by (simp add: bits_of_def sample_bits_def)
    then show ?thesis by blast
  qed
  show ?thesis
    using bit_array_is_set [OF ok ok order_refl i, of True 1 "\<lambda>w. 3"] ne by auto
qed

lemma sub_bits_loop:
  assumes "ba_ok b" "ba_ok c" "int idx + int k \<le> Bits c"
  shows "\<exists>c'. sub_bits k (int idx) b c = Ok c' \<and> ba_ok c' \<and> Bits c' = Bits c \<and>
    bits_of c' = bits_of c - (bits_of b \<inter> {idx..<idx + k})"
  using assms(2,3)
proof (induction k arbitrary: idx c)
  case (Suc k)
  have "int idx < Bits c" using Suc.prems(2) by simp
  from setIndex_bits [OF Suc.prems(1) this, of "idx \<in> bits_of c \<and> \<not> (idx \<in> bits_of c \<and> idx \<in> bits_of b)"]
  obtain c1 where c1: "ba_setIndex c (int idx) (idx \<in> bits_of c \<and> \<not> (idx \<in> bits_of c \<and> idx \<in> bits_of b)) = Ok (c1, True)"
    "ba_ok c1" "Bits c1 = Bits c" "bits_of c1 = bits_of c - (bits_of b \<inter> {idx})"
    by (cases "idx \<in> bits_of c"; cases "idx \<in> bits_of b") (auto simp: insert_absorb)
  obtain c2 where c2: "sub_bits k (int (Suc idx)) b c1 = Ok c2" "ba_ok c2" "Bits c2 = Bits c1"
    "bits_of c2 = bits_of c1 - (bits_of b \<inter> {Suc idx..<Suc idx + k})"
    using Suc.IH [OF c1(2), of "Suc idx"] Suc.prems(2) c1(3) by auto
  have "sub_bits (Suc k) (int idx) b c = Ok c2"
    using c1(1) c2(1) getIndex_bits [OF Suc.prems(1), of idx] getIndex_bits [OF assms(1), of idx]
    by (cases "idx \<in> bits_of c") (simp_all add: add.commute)
  moreover have "bits_of c2 = bits_of c - (bits_of b \<inter> {idx..<idx + Suc k})"
    unfolding c2(4) c1(4) by (auto simp: not_less_eq_eq Suc_le_eq le_less)
  ultimately show ?case using c2 c1(3) by auto
qed simp

text \<open>
  The difference with a shorter array is wrong: all positions below the last word of the
  shorter array are cleared, also those that the shorter array does not contain. (The loop clears
  \<open>c.Elems[i]\<close> with its own complement instead of the other array's.)
\<close>

theorem Sub_loses_bits:
  assumes "ba_ok a" "ba_ok b" "Bits b < Bits a"
  shows "\<exists>c. ba_Sub (Some a) (Some b) = Ok (Some c) \<and>
    bits_of c = {i \<in> bits_of a. 64 * (length (Elems b) - 1) \<le> i} - bits_of b"
proof -
  obtain n k where b: "length (Elems b) = Suc n" "Bits b = 64 * int n + int k" "k \<le> 64"
    using ba_shape [OF assms(2)] by metis
  have len: "n \<le> length (Elems a)" using assms b(1) by (auto simp: ba_ok_def)
  define c where "c = a\<lparr> Elems := map (\<lambda>e. e AND NOT e) (take n (Elems a)) @ drop n (Elems a) \<rparr>"
  have c: "ba_ok c" "Bits c = Bits a" using assms(1) len by (auto simp: c_def ba_ok_def)
  have "bit (Elems c ! w) j \<longleftrightarrow> n \<le> w \<and> bit (Elems a ! w) j" for w j
    using len by (cases "w < n") (auto simp: c_def nth_append bit_simps)
  moreover have "n \<le> i div 64 \<longleftrightarrow> 64 * n \<le> i" for i by auto
  ultimately have bits: "bits_of c = {i \<in> bits_of a. 64 * n \<le> i}" by (auto simp: bits_of_def c(2))
  obtain c' where c': "sub_bits k (int (64 * n)) b c = Ok c'" "bits_of c' = bits_of c - (bits_of b \<inter> {64 * n..<64 * n + k})"
    using sub_bits_loop [OF assms(2) c(1), of "64 * n" k] assms(3) b(2) c(2) by auto
  have "ba_Sub (Some a) (Some b) = Ok (Some c')"
    using assms(3) b len c'(1) by (auto simp: ba_Sub_def Let_def c_def mult.commute)
  moreover have "bits_of c' = {i \<in> bits_of a. 64 * n \<le> i} - bits_of b"
    unfolding c'(2) bits using b(2) by (auto simp: bits_of_def)
  ultimately show ?thesis using b(1) by auto
qed

theorem Sub_loses_bits_witness:
  "\<exists>c. ba_Sub (Some \<lparr> Bits = 130, Elems = [1, 0, 0] \<rparr>) (Some \<lparr> Bits = 70, Elems = [0, 0] \<rparr>) = Ok (Some c) \<and>
     0 \<in> bits_of \<lparr> Bits = 130, Elems = [1, 0, 0] \<rparr> \<and> 0 \<notin> bits_of \<lparr> Bits = 70, Elems = [0, 0] \<rparr> \<and> 0 \<notin> bits_of c"
proof -
  obtain c where c: "ba_Sub (Some \<lparr> Bits = 130, Elems = [1, 0, 0] \<rparr>) (Some \<lparr> Bits = 70, Elems = [0, 0] \<rparr>) = Ok (Some c)"
    "bits_of c = {i \<in> bits_of \<lparr> Bits = 130, Elems = [1, 0, 0] \<rparr>. 64 * (length (Elems \<lparr> Bits = 70, Elems = [0, 0] \<rparr>) - 1) \<le> i}
      - bits_of \<lparr> Bits = 70, Elems = [0, 0] \<rparr>"
    using Sub_loses_bits [of "\<lparr> Bits = 130, Elems = [1, 0, 0] \<rparr>" "\<lparr> Bits = 70, Elems = [0, 0] \<rparr>"]
    by (auto simp: ba_ok_def)
  have "0 \<notin> bits_of c" unfolding c(2) by simp
  then show ?thesis using c(1) by (auto simp: bits_of_def [of "\<lparr> Bits = _, Elems = _ \<rparr>"])
qed

end
