(* ===== verification/Simple_Merkle.thy ===== *)
theory Simple_Merkle
  imports Wire
begin

text \<open>
  The Merkle tree over a list (the vendored \<open>merkle/simple_tree.go\<close>), which the parts of a block are
  proved with. RIPEMD-160 is the parameter \<open>H\<close>.
\<close>

lemma half_less: "n \<noteq> 0 \<Longrightarrow> n \<noteq> Suc 0 \<Longrightarrow> Suc n div 2 < n"
  by arith

definition two_hashes :: "bytes \<Rightarrow> bytes \<Rightarrow> bytes" where
  "two_hashes l r = WriteByteSlice l @ WriteByteSlice r"

definition SimpleHashFromTwoHashes :: "(bytes \<Rightarrow> bytes) \<Rightarrow> bytes \<Rightarrow> bytes \<Rightarrow> bytes" where
  "SimpleHashFromTwoHashes H l r = H (two_hashes l r)"

function SimpleHashFromHashes :: "(bytes \<Rightarrow> bytes) \<Rightarrow> bytes list \<Rightarrow> bytes" where
  "SimpleHashFromHashes H hs =
     (if length hs = 0 then []
      else if length hs = 1 then hd hs
      else SimpleHashFromTwoHashes H
             (SimpleHashFromHashes H (take ((length hs + 1) div 2) hs))
             (SimpleHashFromHashes H (drop ((length hs + 1) div 2) hs)))"
  by pat_completeness auto
termination
  by (relation "measure (\<lambda>(H, hs). length hs)") (auto simp: half_less)

declare SimpleHashFromHashes.simps [simp del]

record SimpleProof =
  sp_Index :: int
  sp_Total :: int
  sp_LeafHash :: bytes
  sp_InnerHashes :: "bytes list"
  sp_RootHash :: bytes

text \<open>
  A trail is the hash of a leaf with the hashes that \<open>FlattenInnerHashes\<close> collects on the way to the
  root: at every level the root of one half gets the root of the other half as its sibling.
\<close>

type_synonym trail = "bytes \<times> bytes list"

definition add_sibling :: "bytes \<Rightarrow> trail \<Rightarrow> trail" where
  "add_sibling sibling t = (fst t, snd t @ [sibling])"

function trailsFromHashables :: "(bytes \<Rightarrow> bytes) \<Rightarrow> bytes list \<Rightarrow> trail list \<times> bytes" where
  "trailsFromHashables H hs =
     (if length hs = 0 then ([], [])
      else if length hs = 1 then ([(hd hs, [])], hd hs)
      else (let (lefts, leftRoot) = trailsFromHashables H (take ((length hs + 1) div 2) hs);
                (rights, rightRoot) = trailsFromHashables H (drop ((length hs + 1) div 2) hs)
            in (map (add_sibling rightRoot) lefts @ map (add_sibling leftRoot) rights,
                SimpleHashFromTwoHashes H leftRoot rightRoot)))"
  by pat_completeness auto
termination
  by (relation "measure (\<lambda>(H, hs). length hs)") (auto simp: half_less)

declare trailsFromHashables.simps [simp del]

definition SimpleProofsFromHashables :: "(bytes \<Rightarrow> bytes) \<Rightarrow> bytes list \<Rightarrow> SimpleProof list" where
  "SimpleProofsFromHashables H hs =
     (let (trails, root) = trailsFromHashables H hs in
      map (\<lambda>i. \<lparr> sp_Index = int i, sp_Total = int (length hs), sp_LeafHash = fst (trails ! i),
                sp_InnerHashes = snd (trails ! i), sp_RootHash = root \<rparr>) [0..<length trails])"

text \<open>
  \<open>None\<close> is the nil result; the total 0 panics when the index is negative. A leaf hash is not nil: it is
  a hash that \<open>Verify\<close> has compared with that of the part.
\<close>

function computeHashFromInnerHashes ::
  "(bytes \<Rightarrow> bytes) \<Rightarrow> int \<Rightarrow> int \<Rightarrow> bytes \<Rightarrow> bytes list \<Rightarrow> bytes option outcome" where
  "computeHashFromInnerHashes H index tot leafHash innerHashes =
     (if index \<ge> tot then Ok None
      else if tot = 0 then Panic ''Cannot call computeHashFromInnerHashes() with 0 total''
      else if tot = 1 then Ok (if innerHashes \<noteq> [] then None else Some leafHash)
      else if innerHashes = [] then Ok None
      else (let numLeft = go_div (wrap64 (tot + 1)) 2 in
        if index < numLeft then
          obind (computeHashFromInnerHashes H index numLeft leafHash (butlast innerHashes)) (\<lambda>r.
            Ok (case r of None \<Rightarrow> None
                | Some leftHash \<Rightarrow> Some (SimpleHashFromTwoHashes H leftHash (last innerHashes))))
        else
          obind (computeHashFromInnerHashes H (wrap64 (index - numLeft)) (wrap64 (tot - numLeft)) leafHash
                   (butlast innerHashes)) (\<lambda>r.
            Ok (case r of None \<Rightarrow> None
                | Some rightHash \<Rightarrow> Some (SimpleHashFromTwoHashes H (last innerHashes) rightHash)))))"
  by pat_completeness auto
termination
  by (relation "measure (\<lambda>(H, index, tot, leafHash, innerHashes). length innerHashes)") auto

declare computeHashFromInnerHashes.simps [simp del]

definition SimpleProof_Verify :: "(bytes \<Rightarrow> bytes) \<Rightarrow> SimpleProof \<Rightarrow> bytes \<Rightarrow> bytes \<Rightarrow> bool outcome" where
  "SimpleProof_Verify H sp leafHash rootHash =
     (if leafHash \<noteq> sp_LeafHash sp then Ok False
      else if rootHash \<noteq> sp_RootHash sp then Ok False
      else obind (computeHashFromInnerHashes H (sp_Index sp) (sp_Total sp) (sp_LeafHash sp) (sp_InnerHashes sp)) (\<lambda>r.
        Ok (case r of None \<Rightarrow> False | Some computedHash \<Rightarrow> computedHash = rootHash)))"

section \<open>The proofs that are made verify\<close>

lemma half_bounds: "2 \<le> n \<Longrightarrow> 0 < (n + 1) div 2 \<and> (n + 1) div 2 < (n :: nat)"
  by linarith

lemma numLeft_eq: "int n < 2 ^ 62 \<Longrightarrow> go_div (wrap64 (int n + 1)) 2 = int ((n + 1) div 2)"
  by (simp add: go_div_def int64_simps zdiv_int)

text \<open>One step of the computation, for the positions and totals of a list.\<close>

lemma compute_step:
  assumes "2 \<le> n" "int n < 2 ^ 62" "i < n" "m = (n + 1) div 2"
  shows "computeHashFromInnerHashes H (int i) (int n) leaf (xs @ [sibling]) =
    (if i < m then
       obind (computeHashFromInnerHashes H (int i) (int m) leaf xs) (\<lambda>r.
         Ok (map_option (\<lambda>h. SimpleHashFromTwoHashes H h sibling) r))
     else
       obind (computeHashFromInnerHashes H (int (i - m)) (int (n - m)) leaf xs) (\<lambda>r.
         Ok (map_option (\<lambda>h. SimpleHashFromTwoHashes H sibling h) r)))"
proof -
  have m: "m < n" using half_bounds [OF assms(1)] assms(4) by simp
  have nl: "go_div (wrap64 (int n + 1)) 2 = int m" using numLeft_eq [OF assms(2)] assms(4) by simp
  have w: "\<not> i < m \<Longrightarrow> wrap64 (int i - int m) = int (i - m)" "wrap64 (int n - int m) = int (n - m)"
    using assms(2,3) m by (simp_all add: of_nat_diff int64_simps)
  have "\<not> int n \<le> int i" "int n \<noteq> 0" "int n \<noteq> 1" "xs @ [sibling] \<noteq> []" using assms(1,3) by auto
  then show ?thesis
    using w by (subst computeHashFromInnerHashes.simps)
      (simp add: nl Let_def map_option_case butlast_snoc last_snoc del: of_nat_le_iff cong: option.case_cong)
qed

lemma trails_root: "snd (trailsFromHashables H hs) = SimpleHashFromHashes H hs"
proof (induction H hs rule: SimpleHashFromHashes.induct)
  case (1 H hs)
  then show ?case
    by (subst trailsFromHashables.simps, subst SimpleHashFromHashes.simps)
      (auto split: prod.splits simp: prod_eq_iff)
qed

lemma trails_length: "length (fst (trailsFromHashables H hs)) = length hs"
proof (induction H hs rule: trailsFromHashables.induct)
  case (1 H hs)
  then show ?case
    by (subst trailsFromHashables.simps) (auto split: prod.splits simp: prod_eq_iff)
qed

lemma trail_computes:
  assumes "i < length hs" "int (length hs) < 2 ^ 62"
  shows "fst (fst (trailsFromHashables H hs) ! i) = hs ! i \<and>
    computeHashFromInnerHashes H (int i) (int (length hs)) (hs ! i) (snd (fst (trailsFromHashables H hs) ! i)) =
      Ok (Some (SimpleHashFromHashes H hs))"
  using assms
proof (induction H hs arbitrary: i rule: SimpleHashFromHashes.induct)
  case (1 H hs)
  show ?case
  proof (cases "length hs = 1")
    case True
    then obtain h where h: "hs = [h]" by (cases hs) auto
    show ?thesis using 1(3)
      by (simp add: h trailsFromHashables.simps SimpleHashFromHashes.simps computeHashFromInnerHashes.simps)
  next
    case False
    then have n: "2 \<le> length hs" "length hs \<noteq> 0" "length hs \<noteq> 1" using 1(3) by linarith+
    let ?m = "(length hs + 1) div 2"
    let ?l = "take ?m hs" and ?r = "drop ?m hs"
    note m = half_bounds [OF n(1)]
    have numLeft: "go_div (wrap64 (int (length hs) + 1)) 2 = int ?m" by (rule numLeft_eq [OF 1(4)])
    have tr: "fst (trailsFromHashables H hs) =
        map (add_sibling (SimpleHashFromHashes H ?r)) (fst (trailsFromHashables H ?l)) @
        map (add_sibling (SimpleHashFromHashes H ?l)) (fst (trailsFromHashables H ?r))"
      using n by (subst trailsFromHashables.simps) (simp add: trails_root [symmetric] split: prod.splits)
    have root: "SimpleHashFromHashes H hs =
        SimpleHashFromTwoHashes H (SimpleHashFromHashes H ?l) (SimpleHashFromHashes H ?r)"
      using n by (subst SimpleHashFromHashes.simps) simp
    show ?thesis
    proof (cases "i < ?m")
      case True
      have IH: "fst (fst (trailsFromHashables H ?l) ! i) = ?l ! i \<and>
          computeHashFromInnerHashes H (int i) (int (length ?l)) (?l ! i) (snd (fst (trailsFromHashables H ?l) ! i)) =
            Ok (Some (SimpleHashFromHashes H ?l))"
        using 1(1) [OF n(2,3), of i] True m 1(4) by simp
      have len: "length ?l = ?m" using m by simp
      have nth: "fst (trailsFromHashables H hs) ! i = add_sibling (SimpleHashFromHashes H ?r) (fst (trailsFromHashables H ?l) ! i)"
        using True m by (simp add: tr nth_append trails_length)
      have "computeHashFromInnerHashes H (int i) (int (length hs)) (hs ! i)
          (snd (fst (trailsFromHashables H ?l) ! i) @ [SimpleHashFromHashes H ?r]) = Ok (Some (SimpleHashFromHashes H hs))"
        using True IH len unfolding compute_step [OF n(1) 1(4,3) refl] by (simp add: root)
      then show ?thesis using IH True by (simp add: nth add_sibling_def)
    next
      case False
      have ib: "i - ?m < length ?r" using False 1(3) by simp
      have IH: "fst (fst (trailsFromHashables H ?r) ! (i - ?m)) = ?r ! (i - ?m) \<and>
          computeHashFromInnerHashes H (int (i - ?m)) (int (length ?r)) (?r ! (i - ?m))
            (snd (fst (trailsFromHashables H ?r) ! (i - ?m))) = Ok (Some (SimpleHashFromHashes H ?r))"
        using 1(2) [OF n(2,3) ib] 1(4) by simp
      have at: "?r ! (i - ?m) = hs ! i" using False m by simp
      have nth: "fst (trailsFromHashables H hs) ! i = add_sibling (SimpleHashFromHashes H ?l) (fst (trailsFromHashables H ?r) ! (i - ?m))"
        using False m 1(3) by (simp add: tr nth_append trails_length)
      have len: "length ?r = length hs - ?m" by simp
      have "computeHashFromInnerHashes H (int i) (int (length hs)) (hs ! i)
          (snd (fst (trailsFromHashables H ?r) ! (i - ?m)) @ [SimpleHashFromHashes H ?l]) = Ok (Some (SimpleHashFromHashes H hs))"
        using False conjunct2 [OF IH] unfolding compute_step [OF n(1) 1(4,3) refl] len at root by simp
      then show ?thesis using IH at by (simp add: nth add_sibling_def)
    qed
  qed
qed

lemma proofs_verify:
  assumes "i < length hs" "int (length hs) < 2 ^ 62"
  shows "length (SimpleProofsFromHashables H hs) = length hs \<and>
    sp_Index (SimpleProofsFromHashables H hs ! i) = int i \<and> sp_Total (SimpleProofsFromHashables H hs ! i) = int (length hs) \<and>
    sp_RootHash (SimpleProofsFromHashables H hs ! i) = SimpleHashFromHashes H hs \<and>
    SimpleProof_Verify H (SimpleProofsFromHashables H hs ! i) (hs ! i) (SimpleHashFromHashes H hs) = Ok True"
  using trail_computes [OF assms, of H] assms(1) trails_root [of H hs] trails_length [of H hs]
  by (auto simp: SimpleProofsFromHashables_def SimpleProof_Verify_def split: prod.splits)

section \<open>A proof that verifies is for the leaf at its position\<close>

text \<open>The byte strings that are hashed for the list, and those that are hashed to check a proof.\<close>

function simple_inputs :: "(bytes \<Rightarrow> bytes) \<Rightarrow> bytes list \<Rightarrow> bytes set" where
  "simple_inputs H hs =
     (if length hs = 0 then {}
      else if length hs = 1 then {}
      else insert (two_hashes (SimpleHashFromHashes H (take ((length hs + 1) div 2) hs))
                              (SimpleHashFromHashes H (drop ((length hs + 1) div 2) hs)))
             (simple_inputs H (take ((length hs + 1) div 2) hs) \<union> simple_inputs H (drop ((length hs + 1) div 2) hs)))"
  by pat_completeness auto
termination
  by (relation "measure (\<lambda>(H, hs). length hs)") (auto simp: half_less)

declare simple_inputs.simps [simp del]

definition hash_fits :: "bytes \<Rightarrow> bool" where
  "hash_fits h \<longleftrightarrow> int (length h) \<le> MaxInt64"

lemma two_hashes_inject:
  assumes "two_hashes a b = two_hashes c d" "hash_fits a" "hash_fits b" "hash_fits c" "hash_fits d"
  shows "a = c \<and> b = d"
proof -
  have "a = c \<and> WriteByteSlice b = WriteByteSlice d"
    using WriteByteSlice_prefix_free [of a "WriteByteSlice b" c "WriteByteSlice d"] assms
    by (simp add: two_hashes_def hash_fits_def)
  then show ?thesis using WriteByteSlice_prefix_free [of b "[]" d "[]"] assms by (simp add: hash_fits_def)
qed

text \<open>The byte strings that checking a proof really hashes.\<close>

function proof_inputs_of :: "(bytes \<Rightarrow> bytes) \<Rightarrow> nat \<Rightarrow> nat \<Rightarrow> bytes \<Rightarrow> bytes list \<Rightarrow> bytes set" where
  "proof_inputs_of H i n leaf inner =
     (if n \<le> 1 \<or> n \<le> i \<or> inner = [] then {}
      else (let m = (n + 1) div 2 in
        if i < m then
          (case computeHashFromInnerHashes H (int i) (int m) leaf (butlast inner) of
             Ok (Some h) \<Rightarrow> insert (two_hashes h (last inner)) (proof_inputs_of H i m leaf (butlast inner))
           | _ \<Rightarrow> {})
        else
          (case computeHashFromInnerHashes H (int (i - m)) (int (n - m)) leaf (butlast inner) of
             Ok (Some h) \<Rightarrow> insert (two_hashes (last inner) h) (proof_inputs_of H (i - m) (n - m) leaf (butlast inner))
           | _ \<Rightarrow> {})))"
  by pat_completeness auto
termination
  by (relation "measure (\<lambda>(H, i, n, leaf, inner). length inner)") auto

declare proof_inputs_of.simps [simp del]

lemma compute_fits:
  assumes "\<And>x. hash_fits (H x)" "hash_fits leaf" "computeHashFromInnerHashes H i n leaf inner = Ok (Some h)"
  shows "hash_fits h"
  using assms(2,3)
  by (subst (asm) computeHashFromInnerHashes.simps)
    (auto simp: assms(1) SimpleHashFromTwoHashes_def obind_eq_Ok Let_def split: if_splits option.splits)

lemma root_fits:
  assumes "\<And>x. hash_fits (H x)" "\<forall>h \<in> set hs. hash_fits h"
  shows "hash_fits (SimpleHashFromHashes H hs)"
  using assms by (subst SimpleHashFromHashes.simps) (auto simp: SimpleHashFromTwoHashes_def hash_fits_def int64_simps)

lemma compute_sound:
  assumes "\<And>x. hash_fits (H x)" "hash_fits leaf" "\<forall>h \<in> set inner. hash_fits h" "\<forall>h \<in> set hs. hash_fits h"
    "i < length hs" "int (length hs) < 2 ^ 62"
    "\<forall>x \<in> simple_inputs H hs. \<forall>y \<in> proof_inputs_of H i (length hs) leaf inner. H x = H y \<longrightarrow> x = y"
    "computeHashFromInnerHashes H (int i) (int (length hs)) leaf inner = Ok (Some (SimpleHashFromHashes H hs))"
  shows "leaf = hs ! i"
  using assms(3-)
proof (induction "length hs" arbitrary: hs i inner rule: less_induct)
  case less
  note prems = less.prems
  show ?case
  proof (cases "length hs = 1")
    case True
    then obtain h where h: "hs = [h]" by (cases hs) auto
    show ?thesis using prems(3,6)
      by (simp add: h SimpleHashFromHashes.simps computeHashFromInnerHashes.simps split: if_splits)
  next
    case False
    then have n: "2 \<le> length hs" "length hs \<noteq> 0" "length hs \<noteq> 1" using prems(3) by linarith+
    define m where "m = (length hs + 1) div 2"
    define l r where "l = take m hs" and "r = drop m hs"
    have m: "0 < m" "m < length hs" using half_bounds [OF n(1)] by (auto simp: m_def)
    have len: "length l = m" "length r = length hs - m" using m by (auto simp: l_def r_def)
    have root: "SimpleHashFromHashes H hs = H (two_hashes (SimpleHashFromHashes H l) (SimpleHashFromHashes H r))"
      using n by (subst SimpleHashFromHashes.simps) (simp add: SimpleHashFromTwoHashes_def l_def r_def m_def)
    have inputs: "simple_inputs H hs = insert (two_hashes (SimpleHashFromHashes H l) (SimpleHashFromHashes H r))
        (simple_inputs H l \<union> simple_inputs H r)"
      using n by (subst simple_inputs.simps) (simp add: l_def r_def m_def)
    have sub: "\<forall>h \<in> set l. hash_fits h" "\<forall>h \<in> set r. hash_fits h"
      using prems(2) by (auto simp: l_def r_def dest: in_set_takeD in_set_dropD)
    note rf = root_fits [where H = H, OF assms(1) sub(1)] root_fits [where H = H, OF assms(1) sub(2)]
    have "inner \<noteq> []"
    proof
      assume "inner = []"
      then have "computeHashFromInnerHashes H (int i) (int (length hs)) leaf inner = Ok None"
        using n prems(3) by (subst computeHashFromInnerHashes.simps) auto
      then show False using prems(6) by simp
    qed
    then obtain xs s where inner: "inner = xs @ [s]" by (cases inner rule: rev_cases) auto
    have fs: "hash_fits s" "\<forall>h \<in> set xs. hash_fits h" using prems(1) by (auto simp: inner)
    note step = compute_step [OF n(1) prems(4,3) m_def, of H leaf xs s]
    have pin: "proof_inputs_of H i (length hs) leaf inner =
        (if i < m then
           (case computeHashFromInnerHashes H (int i) (int m) leaf xs of
              Ok (Some h) \<Rightarrow> insert (two_hashes h s) (proof_inputs_of H i m leaf xs) | _ \<Rightarrow> {})
         else
           (case computeHashFromInnerHashes H (int (i - m)) (int (length hs - m)) leaf xs of
              Ok (Some h) \<Rightarrow> insert (two_hashes s h) (proof_inputs_of H (i - m) (length hs - m) leaf xs) | _ \<Rightarrow> {}))"
      using n prems(3) by (subst proof_inputs_of.simps) (simp add: inner Let_def m_def cong: outcome.case_cong option.case_cong)
    show ?thesis
    proof (cases "i < m")
      case True
      obtain h where h: "computeHashFromInnerHashes H (int i) (int m) leaf xs = Ok (Some h)"
        "H (two_hashes h s) = H (two_hashes (SimpleHashFromHashes H l) (SimpleHashFromHashes H r))"
        using prems(6) True unfolding inner step root
        by (auto simp: obind_eq_Ok SimpleHashFromTwoHashes_def)
      have hf: "hash_fits h" by (rule compute_fits [where H = H, OF assms(1,2) h(1)])
      have "two_hashes h s = two_hashes (SimpleHashFromHashes H l) (SimpleHashFromHashes H r)"
        using prems(5) h True by (simp add: pin inputs)
      from two_hashes_inject [OF this hf fs(1) rf] have "h = SimpleHashFromHashes H l" ..
      moreover have "\<forall>x \<in> simple_inputs H l. \<forall>y \<in> proof_inputs_of H i (length l) leaf xs. H x = H y \<longrightarrow> x = y"
        using prems(5) h(1) True by (simp add: pin inputs len)
      ultimately have "leaf = l ! i"
        using less.hyps [of l xs i] m len fs(2) sub(1) True prems(4) h(1) by simp
      then show ?thesis using True by (simp add: l_def)
    next
      case False
      obtain h where h: "computeHashFromInnerHashes H (int (i - m)) (int (length hs - m)) leaf xs = Ok (Some h)"
        "H (two_hashes s h) = H (two_hashes (SimpleHashFromHashes H l) (SimpleHashFromHashes H r))"
        using prems(6) False unfolding inner step root
        by (auto simp: obind_eq_Ok SimpleHashFromTwoHashes_def)
      have hf: "hash_fits h" by (rule compute_fits [where H = H, OF assms(1,2) h(1)])
      have "two_hashes s h = two_hashes (SimpleHashFromHashes H l) (SimpleHashFromHashes H r)"
        using prems(5) h False by (simp add: pin inputs)
      from two_hashes_inject [OF this fs(1) hf rf] have "h = SimpleHashFromHashes H r" ..
      moreover have "\<forall>x \<in> simple_inputs H r. \<forall>y \<in> proof_inputs_of H (i - m) (length r) leaf xs. H x = H y \<longrightarrow> x = y"
        using prems(5) h(1) False by (simp add: pin inputs len)
      moreover have "length r < length hs" "i - m < length r" "int (length r) < 2 ^ 62"
        using m len(2) prems(3,4) False by (simp_all add: r_def)
      ultimately have "leaf = r ! (i - m)"
        using less.hyps [of r xs "i - m"] fs(2) sub(2) h(1) len(2) by simp
      then show ?thesis using False m by (simp add: r_def)
    qed
  qed
qed

end
