(* ===== verification/Part_Set.thy ===== *)
theory Part_Set
  imports Simple_Merkle Bit_Array Tendermint_Types
begin

text \<open>
  Blocks are sent in parts (the vendored \<open>types/part_set.go\<close>): the bytes are cut into pieces of 4 KB,
  each piece carries a Merkle proof, and the receiver collects the pieces that fit the hash of the
  proposal. The cached hash of a part is computed where it is asked for.
\<close>

definition partSize :: nat where
  "partSize = 4096"

definition ErrPartSetUnexpectedIndex :: string where
  "ErrPartSetUnexpectedIndex = ''Error part set unexpected index''"

definition ErrPartSetInvalidProof :: string where
  "ErrPartSetInvalidProof = ''Error part set invalid proof''"

record Part =
  part_Proof :: SimpleProof
  part_Bytes :: bytes

definition part_Hash :: "(bytes \<Rightarrow> bytes) \<Rightarrow> Part \<Rightarrow> bytes" where
  "part_Hash H part = H (part_Bytes part)"

record PartSet =
  ps_total :: int
  ps_hash :: bytes
  ps_parts :: "Part option list"
  ps_bits :: "BitArray option"
  ps_count :: int

definition chunk :: "bytes \<Rightarrow> nat \<Rightarrow> bytes" where
  "chunk data i = take partSize (drop (i * partSize) data)"

definition part_count :: "bytes \<Rightarrow> nat" where
  "part_count data = (length data + partSize - 1) div partSize"

primrec set_indices :: "nat list \<Rightarrow> BitArray option \<Rightarrow> BitArray option outcome" where
  "set_indices [] b = Ok b"
| "set_indices (i # is) b = obind (ba_SetIndex b (int i) True) (\<lambda>(b', was_set). set_indices is b')"

definition NewPartSetFromData :: "(bytes \<Rightarrow> bytes) \<Rightarrow> bytes \<Rightarrow> PartSet outcome" where
  "NewPartSetFromData H data =
     (let n = part_count data;
          proofs = SimpleProofsFromHashables H (map (\<lambda>i. H (chunk data i)) [0..<n])
      in obind (NewBitArray (int n)) (\<lambda>b.
         obind (set_indices [0..<n] b) (\<lambda>b'.
           if n = 0 then Panic ''index out of range''
           else Ok \<lparr> ps_total = int n, ps_hash = sp_RootHash (proofs ! 0),
                     ps_parts = map (\<lambda>i. Some \<lparr> part_Proof = proofs ! i, part_Bytes = chunk data i \<rparr>) [0..<n],
                     ps_bits = b', ps_count = int n \<rparr>)))"

definition NewPartSetFromHeader :: "PartSetHeader \<Rightarrow> PartSet outcome" where
  "NewPartSetFromHeader header =
     (if Total header < 0 then Panic ''makeslice: len out of range''
      else obind (NewBitArray (Total header)) (\<lambda>b.
        Ok \<lparr> ps_total = Total header, ps_hash = psh_Hash header, ps_parts = replicate (nat (Total header)) None,
             ps_bits = b, ps_count = 0 \<rparr>))"

definition ps_Header :: "PartSet \<Rightarrow> PartSetHeader" where
  "ps_Header ps = \<lparr> Total = ps_total ps, psh_Hash = ps_hash ps \<rparr>"

definition ps_HasHeader :: "PartSet option \<Rightarrow> PartSetHeader \<Rightarrow> bool" where
  "ps_HasHeader ops header =
     (case ops of None \<Rightarrow> False
      | Some ps \<Rightarrow> Total (ps_Header ps) = Total header \<and> psh_Hash (ps_Header ps) = psh_Hash header)"

definition AddPart :: "(bytes \<Rightarrow> bytes) \<Rightarrow> Part \<Rightarrow> PartSet \<Rightarrow> (PartSet \<times> bool) outcome" where
  "AddPart H part ps =
     (let i = sp_Index (part_Proof part) in
      if i \<ge> ps_total ps then Err ErrPartSetUnexpectedIndex
      else if i < 0 \<or> int (length (ps_parts ps)) \<le> i then Panic ''index out of range''
      else if ps_parts ps ! nat i \<noteq> None then Ok (ps, False)
      else obind (SimpleProof_Verify H (part_Proof part) (part_Hash H part) (ps_hash ps)) (\<lambda>valid.
        if \<not> valid then Err ErrPartSetInvalidProof
        else obind (ba_SetIndex (ps_bits ps) i True) (\<lambda>(b, was_set).
          Ok (ps\<lparr> ps_parts := (ps_parts ps)[nat i := Some part], ps_bits := b,
                  ps_count := wrap64 (ps_count ps + 1) \<rparr>, True))))"

definition GetPart :: "PartSet \<Rightarrow> int \<Rightarrow> Part option outcome" where
  "GetPart ps i =
     (if i < 0 \<or> int (length (ps_parts ps)) \<le> i then Panic ''index out of range'' else Ok (ps_parts ps ! nat i))"

definition IsComplete :: "PartSet \<Rightarrow> bool" where
  "IsComplete ps \<longleftrightarrow> ps_count ps = ps_total ps"

primrec join_parts :: "Part option list \<Rightarrow> bytes outcome" where
  "join_parts [] = Ok []"
| "join_parts (p # ps) =
     (case p of
        None \<Rightarrow> Panic ''nil pointer dereference''
      | Some part \<Rightarrow> obind (join_parts ps) (\<lambda>bs. Ok (part_Bytes part @ bs)))"

definition GetReader :: "PartSet \<Rightarrow> bytes outcome" where
  "GetReader ps =
     (if \<not> IsComplete ps then Panic ''Cannot GetReader() on incomplete PartSet'' else join_parts (ps_parts ps))"

section \<open>Collecting the parts\<close>

text \<open>Parts that arrive one after the other; an error leaves the set as it was.\<close>

primrec receive :: "(bytes \<Rightarrow> bytes) \<Rightarrow> Part list \<Rightarrow> PartSet \<Rightarrow> PartSet outcome" where
  "receive H [] ps = Ok ps"
| "receive H (p # parts) ps =
     (case AddPart H p ps of
        Ok (ps', added) \<Rightarrow> receive H parts ps'
      | Err e \<Rightarrow> receive H parts ps
      | Panic e \<Rightarrow> Panic e)"

definition leaf_hashes :: "(bytes \<Rightarrow> bytes) \<Rightarrow> bytes \<Rightarrow> bytes list" where
  "leaf_hashes H data = map (\<lambda>i. H (chunk data i)) [0..<part_count data]"

definition the_part :: "(bytes \<Rightarrow> bytes) \<Rightarrow> bytes \<Rightarrow> nat \<Rightarrow> Part" where
  "the_part H data i =
     \<lparr> part_Proof = SimpleProofsFromHashables H (leaf_hashes H data) ! i, part_Bytes = chunk data i \<rparr>"

text \<open>The set holds the parts of \<open>data\<close> at the positions \<open>S\<close>.\<close>

definition holds_parts :: "(bytes \<Rightarrow> bytes) \<Rightarrow> bytes \<Rightarrow> nat set \<Rightarrow> PartSet \<Rightarrow> bool" where
  "holds_parts H data S ps \<longleftrightarrow>
     ps_total ps = int (part_count data) \<and> ps_hash ps = SimpleHashFromHashes H (leaf_hashes H data) \<and>
     S \<subseteq> {0..<part_count data} \<and> ps_count ps = int (card S) \<and>
     ps_parts ps = map (\<lambda>i. if i \<in> S then Some (the_part H data i) else None) [0..<part_count data] \<and>
     (\<exists>b. ps_bits ps = Some b \<and> ba_ok b \<and> Bits b = int (part_count data) \<and> bits_of b = S)"

definition data_ok :: "bytes \<Rightarrow> bool" where
  "data_ok data \<longleftrightarrow> data \<noteq> [] \<and> int (part_count data) < 2 ^ 62"

lemma part_count_pos: "data \<noteq> [] \<Longrightarrow> 0 < part_count data"
  by (cases data) (auto simp: part_count_def partSize_def)

lemma leaf_hashes_length [simp]: "length (leaf_hashes H data) = part_count data"
  by (simp add: leaf_hashes_def)

lemma NewBitArray_pos:
  assumes "0 < n" "int n < 2 ^ 62"
  shows "\<exists>b. NewBitArray (int n) = Ok (Some b) \<and> ba_ok b \<and> Bits b = int n \<and> bits_of b = {}"
  using assms by (auto simp: NewBitArray_def words_for_pos ba_ok_def bits_of_def bit_simps nth_replicate
    intro!: exI [of _ "\<lparr> Bits = int n, Elems = replicate (nat ((int n + 63) div 64)) 0 \<rparr>"])

lemma holds_none:
  assumes "data_ok data"
  shows "\<exists>ps. NewPartSetFromHeader \<lparr> Total = int (part_count data), psh_Hash = SimpleHashFromHashes H (leaf_hashes H data) \<rparr> = Ok ps \<and>
    holds_parts H data {} ps"
  using NewBitArray_pos [of "part_count data"] assms part_count_pos [of data]
  by (auto simp: NewPartSetFromHeader_def holds_parts_def data_ok_def map_replicate_const)

lemma add_genuine:
  assumes "data_ok data" "holds_parts H data S ps" "i < part_count data"
  shows "\<exists>ps' added. AddPart H (the_part H data i) ps = Ok (ps', added) \<and> holds_parts H data (insert i S) ps'"
proof -
  note v = proofs_verify [of i "leaf_hashes H data" H, unfolded leaf_hashes_length, OF assms(3)]
  have nth: "leaf_hashes H data ! i = H (chunk data i)" using assms(3) by (simp add: leaf_hashes_def)
  obtain b where b: "ps_bits ps = Some b" "ba_ok b" "Bits b = int (part_count data)" "bits_of b = S"
    using assms(2) by (auto simp: holds_parts_def)
  show ?thesis
  proof (cases "i \<in> S")
    case True
    then have "AddPart H (the_part H data i) ps = Ok (ps, False)"
      using assms v by (simp add: AddPart_def the_part_def holds_parts_def data_ok_def)
    then show ?thesis using assms(2) True by (auto simp: insert_absorb)
  next
    case False
    obtain b' where b': "ba_setIndex b (int i) True = Ok (b', True)" "ba_ok b'" "Bits b' = Bits b" "bits_of b' = insert i S"
      using setIndex_bits [OF b(2), of i True] b(3,4) assms(3) by auto
    have fin: "finite S" using assms(2) by (auto simp: holds_parts_def intro: finite_subset)
    have "card S \<le> part_count data" using assms(2) card_mono [of "{0..<part_count data}" S] by (auto simp: holds_parts_def)
    then have c: "wrap64 (int (card S) + 1) = int (card (insert i S))"
      using assms(1) False fin by (simp add: data_ok_def int64_simps)
    let ?ps = "ps\<lparr> ps_parts := (ps_parts ps)[i := Some (the_part H data i)], ps_bits := Some b', ps_count := int (card (insert i S)) \<rparr>"
    have "AddPart H (the_part H data i) ps = Ok (?ps, True)"
      using assms v nth False b(1) b'(1) c
      by (simp add: AddPart_def the_part_def holds_parts_def data_ok_def part_Hash_def ba_SetIndex_def)
    moreover have "holds_parts H data (insert i S) ?ps"
      using assms(2,3) b' b(3) by (auto simp: holds_parts_def list_eq_iff_nth_eq nth_list_update)
    ultimately show ?thesis by blast
  qed
qed

lemma receive_genuine:
  assumes "data_ok data" "holds_parts H data S ps" "set is \<subseteq> {0..<part_count data}"
  shows "\<exists>ps'. receive H (map (the_part H data) is) ps = Ok ps' \<and> holds_parts H data (S \<union> set is) ps'"
  using assms(2,3)
proof (induction "is" arbitrary: S ps)
  case (Cons i "is")
  obtain ps1 added where "AddPart H (the_part H data i) ps = Ok (ps1, added)" "holds_parts H data (insert i S) ps1"
    using add_genuine [OF assms(1) Cons.prems(1), of i] Cons.prems(2) by auto
  with Cons.IH [of "insert i S" ps1] Cons.prems(2) show ?case by auto
qed auto

lemma concat_chunks: "concat (map (\<lambda>i. take k (drop (i * k) xs)) [0..<m]) = take (m * k) xs"
proof (induction m)
  case (Suc m)
  have "take (m * k) xs @ take k (drop (m * k) xs) = take (m * k + k) xs" by (rule take_add [symmetric])
  with Suc show ?case by (simp add: add.commute)
qed simp

lemma all_chunks: "concat (map (chunk data) [0..<part_count data]) = data"
proof -
  have "length data \<le> part_count data * partSize"
    by (simp add: part_count_def partSize_def)
  then show ?thesis using concat_chunks [of partSize data "part_count data"] by (simp add: chunk_def [abs_def])
qed

lemma join_all: "join_parts (map Some parts) = Ok (concat (map part_Bytes parts))"
  by (induction parts) auto

lemma complete_reader:
  assumes "data_ok data" "holds_parts H data {0..<part_count data} ps"
  shows "IsComplete ps \<and> GetReader ps = Ok data"
proof -
  have parts: "ps_parts ps = map Some (map (the_part H data) [0..<part_count data])"
    using assms(2) by (simp add: holds_parts_def)
  have bytes: "map part_Bytes (map (the_part H data) [0..<part_count data]) = map (chunk data) [0..<part_count data]"
    by (simp add: the_part_def)
  have c: "IsComplete ps" using assms(2) by (simp add: holds_parts_def IsComplete_def)
  then have "GetReader ps = Ok (concat (map (chunk data) [0..<part_count data]))"
    unfolding GetReader_def parts join_all bytes by simp
  then show ?thesis using c by (simp add: all_chunks)
qed

lemma set_indices_bits:
  assumes "ba_ok b" "\<forall>i \<in> set is. int i < Bits b"
  shows "\<exists>b'. set_indices is (Some b) = Ok (Some b') \<and> ba_ok b' \<and> Bits b' = Bits b \<and> bits_of b' = bits_of b \<union> set is"
  using assms
proof (induction "is" arbitrary: b)
  case (Cons i "is")
  obtain b1 where b1: "ba_setIndex b (int i) True = Ok (b1, True)" "ba_ok b1" "Bits b1 = Bits b"
    "bits_of b1 = insert i (bits_of b)"
    using setIndex_bits [OF Cons.prems(1), of i True] Cons.prems(2) by auto
  obtain b2 where "set_indices is (Some b1) = Ok (Some b2)" "ba_ok b2" "Bits b2 = Bits b1" "bits_of b2 = bits_of b1 \<union> set is"
    using Cons.IH [OF b1(2)] Cons.prems(2) b1(3) by auto
  with b1 show ?case by (simp add: ba_SetIndex_def)
qed simp

lemma holds_all:
  assumes "data_ok data"
  shows "\<exists>ps. NewPartSetFromData H data = Ok ps \<and> holds_parts H data {0..<part_count data} ps"
proof -
  have n: "0 < part_count data" "int (part_count data) < 2 ^ 62" using assms part_count_pos by (auto simp: data_ok_def)
  obtain b0 where b0: "NewBitArray (int (part_count data)) = Ok (Some b0)" "ba_ok b0" "Bits b0 = int (part_count data)" "bits_of b0 = {}"
    using NewBitArray_pos [OF n] by auto
  obtain b where b: "set_indices [0..<part_count data] (Some b0) = Ok (Some b)" "ba_ok b" "Bits b = Bits b0"
    "bits_of b = bits_of b0 \<union> set [0..<part_count data]"
    using set_indices_bits [OF b0(2), of "[0..<part_count data]"] b0(3) by auto
  note root = proofs_verify [of 0 "leaf_hashes H data" H, unfolded leaf_hashes_length, OF n]
  then show ?thesis using b0 b n
    by (auto simp: NewPartSetFromData_def Let_def holds_parts_def the_part_def leaf_hashes_def)
qed

text \<open>
  C29: A block that is cut into parts is put together again: a receiver that knows only the header
  of the set and gets the parts in any order, with repetitions, accepts them, is complete as soon as it
  has all of them and not before, and reads the bytes of the block.
\<close>

theorem parts_reassemble:
  assumes "data_ok data" "set is \<subseteq> {0..<part_count data}"
  shows "\<exists>ps ps0 ps1. NewPartSetFromData H data = Ok ps \<and> NewPartSetFromHeader (ps_Header ps) = Ok ps0 \<and>
    receive H (map (\<lambda>i. the (ps_parts ps ! i)) is) ps0 = Ok ps1 \<and>
    IsComplete ps1 = (set is = {0..<part_count data}) \<and> (IsComplete ps1 \<longrightarrow> GetReader ps1 = Ok data)"
proof -
  obtain ps where ps: "NewPartSetFromData H data = Ok ps" "holds_parts H data {0..<part_count data} ps"
    using holds_all [OF assms(1)] by blast
  have hdr: "ps_Header ps = \<lparr> Total = int (part_count data), psh_Hash = SimpleHashFromHashes H (leaf_hashes H data) \<rparr>"
    using ps(2) by (simp add: ps_Header_def holds_parts_def)
  obtain ps0 where ps0: "NewPartSetFromHeader (ps_Header ps) = Ok ps0" "holds_parts H data {} ps0"
    using holds_none [OF assms(1), of H] hdr by auto
  have sent: "map (\<lambda>i. the (ps_parts ps ! i)) is = map (the_part H data) is"
    using ps(2) assms(2) by (auto simp: holds_parts_def)
  obtain ps1 where ps1: "receive H (map (the_part H data) is) ps0 = Ok ps1" "holds_parts H data (set is) ps1"
    using receive_genuine [OF assms(1) ps0(2) assms(2)] by auto
  have "IsComplete ps1 \<longleftrightarrow> card (set is) = card {0..<part_count data}"
    using ps1(2) by (auto simp: holds_parts_def IsComplete_def)
  also have "\<dots> \<longleftrightarrow> set is = {0..<part_count data}"
    using assms(2) card_subset_eq [OF finite_atLeastLessThan assms(2)] by metis
  finally have complete: "IsComplete ps1 \<longleftrightarrow> set is = {0..<part_count data}" .
  then have "IsComplete ps1 \<longrightarrow> GetReader ps1 = Ok data"
    using ps1(2) complete_reader [OF assms(1), of H ps1] by metis
  moreover have "receive H (map (\<lambda>i. the (ps_parts ps ! i)) is) ps0 = Ok ps1" unfolding sent by (rule ps1(1))
  ultimately show ?thesis using ps(1) ps0(1) complete by blast
qed

definition xor_hash :: "bytes \<Rightarrow> bytes" where
  "xor_hash bs = [word_of_nat (length bs), foldl (XOR) 0 bs]"

definition long_block :: bytes where
  "long_block = replicate 5000 7"

lemma long_block_parts: "part_count long_block = 2" "long_block \<noteq> []"
proof -
  have l: "length long_block = 5000" unfolding long_block_def by (rule length_replicate)
  then show "part_count long_block = 2" by (simp add: part_count_def partSize_def)
  show "long_block \<noteq> []" using l by auto
qed

theorem parts_reassemble_witness:
  "\<exists>ps ps0 ps1. NewPartSetFromData xor_hash long_block = Ok ps \<and> NewPartSetFromHeader (ps_Header ps) = Ok ps0 \<and>
    receive xor_hash (map (\<lambda>i. the (ps_parts ps ! i)) [1, 0, 1]) ps0 = Ok ps1 \<and> IsComplete ps1 \<and>
    GetReader ps1 = Ok long_block"
proof -
  have "data_ok long_block" by (simp add: data_ok_def long_block_parts)
  moreover have all: "set [1, 0, 1] = {0..<part_count long_block}" by (auto simp: long_block_parts)
  ultimately obtain ps ps0 ps1 where "NewPartSetFromData xor_hash long_block = Ok ps" "NewPartSetFromHeader (ps_Header ps) = Ok ps0"
    "receive xor_hash (map (\<lambda>i. the (ps_parts ps ! i)) [1, 0, 1]) ps0 = Ok ps1"
    "IsComplete ps1 = (set [1, 0, 1] = {0..<part_count long_block})" "IsComplete ps1 \<longrightarrow> GetReader ps1 = Ok long_block"
    using parts_reassemble [of long_block "[1, 0, 1]" xor_hash] by blast
  then show ?thesis using all by blast
qed

section \<open>Parts from strangers\<close>

text \<open>
  C30: A part that is accepted and whose proof claims the total of the set is the part of the block
  at that position, unless two different byte strings among the ones hashed for the block and for the
  proof have the same hash.
\<close>

theorem accepted_part_is_genuine:
  assumes "data_ok data" "holds_parts H data S ps" "AddPart H part ps = Ok (ps', True)"
    "sp_Total (part_Proof part) = ps_total ps"
    and "\<And>x. hash_fits (H x)" "\<forall>h \<in> set (sp_InnerHashes (part_Proof part)). hash_fits h"
    and "\<forall>x \<in> simple_inputs H (leaf_hashes H data).
      \<forall>y \<in> proof_inputs_of H (nat (sp_Index (part_Proof part))) (part_count data) (part_Hash H part)
            (sp_InnerHashes (part_Proof part)). H x = H y \<longrightarrow> x = y"
    and "\<forall>i < part_count data. H (chunk data i) = H (part_Bytes part) \<longrightarrow> chunk data i = part_Bytes part"
  shows "part_Bytes part = chunk data (nat (sp_Index (part_Proof part)))"
proof -
  let ?p = "part_Proof part"
  let ?i = "nat (sp_Index ?p)"
  have i: "0 \<le> sp_Index ?p" "?i < part_count data" and v: "SimpleProof_Verify H ?p (part_Hash H part) (ps_hash ps) = Ok True"
    using assms(2,3) by (auto simp: AddPart_def holds_parts_def Let_def obind_eq_Ok split: if_splits)
  have c: "computeHashFromInnerHashes H (int ?i) (int (length (leaf_hashes H data))) (part_Hash H part) (sp_InnerHashes ?p) =
      Ok (Some (SimpleHashFromHashes H (leaf_hashes H data)))"
    using v i(1) assms(2,4)
    by (auto simp: SimpleProof_Verify_def holds_parts_def obind_eq_Ok split: if_splits option.splits)
  have f: "hash_fits (part_Hash H part)" "\<forall>h \<in> set (leaf_hashes H data). hash_fits h"
    using assms(5) by (auto simp: part_Hash_def leaf_hashes_def)
  have "part_Hash H part = leaf_hashes H data ! ?i"
    by (rule compute_sound [where H = H, OF assms(5) f(1) assms(6) f(2) _ _ _ c])
      (use i(2) assms(1,7) in \<open>simp_all add: data_ok_def\<close>)
  then have "H (chunk data ?i) = H (part_Bytes part)" using i(2) by (simp add: part_Hash_def leaf_hashes_def)
  then show ?thesis using assms(8) i(2) by auto
qed

definition short_block :: bytes where
  "short_block = [7]"

lemma short_block_facts:
  "data_ok short_block" "part_count short_block = 1" "leaf_hashes xor_hash short_block = [[1, 7]]" "chunk short_block 0 = [7]"
  by (simp_all add: data_ok_def short_block_def part_count_def partSize_def leaf_hashes_def chunk_def xor_hash_def)

theorem accepted_part_is_genuine_witness:
  "part_Bytes (the_part xor_hash short_block 0) = chunk short_block (nat (sp_Index (part_Proof (the_part xor_hash short_block 0))))"
proof -
  obtain ps where ps: "holds_parts xor_hash short_block {} ps" using holds_none [OF short_block_facts(1)] by blast
  note f = short_block_facts
  have v: "SimpleProof_Verify xor_hash (part_Proof (the_part xor_hash short_block 0)) [1, 7] [1, 7] = Ok True"
    "sp_Index (part_Proof (the_part xor_hash short_block 0)) = 0" "sp_Total (part_Proof (the_part xor_hash short_block 0)) = 1"
    using proofs_verify [of 0 "[[1, 7]]" xor_hash] by (simp_all add: the_part_def f SimpleHashFromHashes.simps)
  obtain b where b: "ps_bits ps = Some b" "ba_ok b" "Bits b = 1" using ps by (auto simp: holds_parts_def f)
  obtain b' where "ba_setIndex b 0 True = Ok (b', True)" using setIndex_bits [OF b(2), of 0 True] b(3) by auto
  then obtain ps' where add: "AddPart xor_hash (the_part xor_hash short_block 0) ps = Ok (ps', True)"
    using ps v b(1) by (simp add: AddPart_def holds_parts_def f SimpleHashFromHashes.simps part_Hash_def the_part_def
      ba_SetIndex_def xor_hash_def)
  show ?thesis
    by (rule accepted_part_is_genuine [OF f(1) ps add])
      (use ps v in \<open>simp_all add: f holds_parts_def simple_inputs.simps hash_fits_def xor_hash_def int64_simps
        the_part_def SimpleProofsFromHashables_def trailsFromHashables.simps\<close>)
qed

text \<open>
  A wrong part is accepted when its proof claims another total: in a set of four parts, the
  encoding of the hashes of the last two parts is accepted as the second part, with a proof for a list of
  two. The genuine second part is then refused as already known, so the block can no longer be
  completed. (\<open>AddPart\<close> does not compare \<open>Proof.Total\<close> with the total of the set.)
\<close>

theorem forged_part_accepted:
  assumes "data_ok data" "part_count data = 4" "holds_parts H data S ps" "1 \<notin> S"
  shows "\<exists>part ps'. AddPart H part ps = Ok (ps', True) \<and> sp_Index (part_Proof part) = 1 \<and>
    part_Bytes part = two_hashes (H (chunk data 2)) (H (chunk data 3)) \<and>
    AddPart H (the_part H data 1) ps' = Ok (ps', False)"
proof -
  let ?h = "\<lambda>i. H (chunk data i)"
  define part where "part = \<lparr> part_Proof = \<lparr> sp_Index = 1, sp_Total = 2, sp_LeafHash = H (two_hashes (?h 2) (?h 3)),
      sp_InnerHashes = [H (two_hashes (?h 0) (?h 1))], sp_RootHash = ps_hash ps \<rparr>,
      part_Bytes = two_hashes (?h 2) (?h 3) \<rparr>"
  have lh: "leaf_hashes H data = [?h 0, ?h 1, ?h 2, ?h 3]" by (simp add: leaf_hashes_def assms(2) upt_rec eval_nat_numeral)
  have root: "ps_hash ps = H (two_hashes (H (two_hashes (?h 0) (?h 1))) (H (two_hashes (?h 2) (?h 3))))"
    using assms(3) by (simp add: holds_parts_def lh SimpleHashFromHashes.simps SimpleHashFromTwoHashes_def)
  have c1: "computeHashFromInnerHashes H 0 1 leaf [] = Ok (Some leaf)" for leaf
    by (subst computeHashFromInnerHashes.simps) simp
  have "computeHashFromInnerHashes H 1 2 (H (two_hashes (?h 2) (?h 3))) [H (two_hashes (?h 0) (?h 1))] = Ok (Some (ps_hash ps))"
    using compute_step [of 2 1 1 H "H (two_hashes (?h 2) (?h 3))" "[]" "H (two_hashes (?h 0) (?h 1))"]
    by (simp add: c1 root SimpleHashFromTwoHashes_def)
  then have v: "SimpleProof_Verify H (part_Proof part) (part_Hash H part) (ps_hash ps) = Ok True"
    by (simp add: SimpleProof_Verify_def part_def part_Hash_def)
  obtain b where b: "ps_bits ps = Some b" "ba_ok b" "Bits b = 4" using assms(2,3) by (auto simp: holds_parts_def)
  obtain b' where b': "ba_setIndex b 1 True = Ok (b', True)" using setIndex_bits [OF b(2), of 1 True] b(3) by auto
  let ?ps = "ps\<lparr> ps_parts := (ps_parts ps)[1 := Some part], ps_bits := Some b', ps_count := wrap64 (ps_count ps + 1) \<rparr>"
  have "AddPart H part ps = Ok (?ps, True)"
    using assms(2-4) v b(1) b' by (simp add: AddPart_def holds_parts_def ba_SetIndex_def part_def upt_rec)
  moreover have "AddPart H (the_part H data 1) ?ps = Ok (?ps, False)"
    using assms(1-3) proofs_verify [of 1 "leaf_hashes H data" H]
    by (simp add: AddPart_def holds_parts_def the_part_def upt_rec)
  ultimately show ?thesis by (intro exI [of _ part] exI [of _ ?ps]) (simp add: part_def)
qed

definition quad_block :: bytes where
  "quad_block = replicate 13000 7"

lemma quad_block_parts: "part_count quad_block = 4" "quad_block \<noteq> []"
proof -
  have l: "length quad_block = 13000" unfolding quad_block_def by (rule length_replicate)
  then show "part_count quad_block = 4" by (simp add: part_count_def partSize_def)
  show "quad_block \<noteq> []" using l by auto
qed

theorem forged_part_accepted_witness:
  "\<exists>ps part ps'. holds_parts xor_hash quad_block {} ps \<and> AddPart xor_hash part ps = Ok (ps', True) \<and>
    AddPart xor_hash (the_part xor_hash quad_block 1) ps' = Ok (ps', False)"
proof -
  have ok: "data_ok quad_block" by (simp add: data_ok_def quad_block_parts)
  obtain ps where ps: "holds_parts xor_hash quad_block {} ps" using holds_none [OF ok] by blast
  show ?thesis using forged_part_accepted [OF ok quad_block_parts(1) ps] ps by blast
qed

text \<open>A part with a negative index ends the node.\<close>

lemma negative_index_panics:
  "0 \<le> ps_total ps \<Longrightarrow> sp_Index (part_Proof part) < 0 \<Longrightarrow> AddPart H part ps = Panic ''index out of range''"
  by (simp add: AddPart_def)

text \<open>So does an empty block.\<close>

lemma empty_data_panics: "NewPartSetFromData H [] = Panic ''index out of range''"
  by (simp add: NewPartSetFromData_def part_count_def partSize_def NewBitArray_def)

end
