(* ===== verification/Vote_Set.thy ===== *)
theory Vote_Set
  imports Validator_Set Part_Set
begin

text \<open>
  Collecting votes (the vendored \<open>types/vote_set.go\<close>): the votes of one height, round and type, one
  for each validator, the voting power each block has, and the block that has more than two thirds of it.
  A nil vote set, which the readers accept, is \<open>None\<close>.

  Go returns the error of an addition beside its other results, so an addition that ends returns \<open>Ok\<close>
  with the error as a value; \<open>Panic\<close> is what remains.
\<close>

datatype vote_error =
  ErrVoteUnexpectedStep
| ErrVoteInvalidAccount
| ErrVoteInvalidSignature
| ErrVoteConflictingSignature Vote Vote

record VoteSet =
  vos_height :: int
  vos_round :: int
  vos_type :: byte
  vos_valSet :: ValidatorSet
  vos_votes :: "Vote option list"
  vos_bits :: "BitArray option"
  vos_byBlock :: "(bytes, int) gomap"
  vos_total :: int
  vos_maj23Hash :: bytes
  vos_maj23Parts :: PartSetHeader
  vos_maj23Exists :: bool

abbreviation zero_header :: PartSetHeader where
  "zero_header \<equiv> \<lparr> Total = 0, psh_Hash = [] \<rparr>"

definition NewVoteSet :: "int \<Rightarrow> int \<Rightarrow> byte \<Rightarrow> ValidatorSet \<Rightarrow> VoteSet outcome" where
  "NewVoteSet height round ty valSet =
     (if height = 0 then Panic ''Cannot make VoteSet for height == 0, doesn't make sense.''
      else obind (NewBitArray (int (vs_Size valSet))) (\<lambda>bits.
        Ok \<lparr> vos_height = height, vos_round = round, vos_type = ty, vos_valSet = valSet,
             vos_votes = replicate (vs_Size valSet) None, vos_bits = bits, vos_byBlock = [],
             vos_total = 0, vos_maj23Hash = [], vos_maj23Parts = zero_header, vos_maj23Exists = False \<rparr>))"

definition vos_Height :: "VoteSet option \<Rightarrow> int" where
  "vos_Height s = (case s of None \<Rightarrow> 0 | Some s \<Rightarrow> vos_height s)"

definition vos_Round :: "VoteSet option \<Rightarrow> int" where
  "vos_Round s = (case s of None \<Rightarrow> -1 | Some s \<Rightarrow> vos_round s)"

definition vos_Type :: "VoteSet option \<Rightarrow> byte" where
  "vos_Type s = (case s of None \<Rightarrow> 0 | Some s \<Rightarrow> vos_type s)"

definition vos_Size :: "VoteSet option \<Rightarrow> nat" where
  "vos_Size s = (case s of None \<Rightarrow> 0 | Some s \<Rightarrow> vs_Size (vos_valSet s))"

text \<open>The binary encoding of a header: its fields in order, an \<open>int\<close> and a byte slice.\<close>

definition Header_BinaryBytes :: "PartSetHeader \<Rightarrow> bytes" where
  "Header_BinaryBytes psh = WriteVarint (Total psh) @ WriteByteSlice (psh_Hash psh)"

definition block_key :: "bytes \<Rightarrow> PartSetHeader \<Rightarrow> bytes" where
  "block_key hash parts = hash @ Header_BinaryBytes parts"

abbreviation vote_key :: "Vote \<Rightarrow> bytes" where
  "vote_key vote \<equiv> block_key (vote_BlockHash vote) (vote_BlockPartsHeader vote)"

definition two_thirds_power :: "ValidatorSet \<Rightarrow> int" where
  "two_thirds_power valSet = Validator_Set.go_div (wrap64 (fst (TotalVotingPower valSet) * 2)) 3"

definition block_votes :: "VoteSet \<Rightarrow> bytes \<Rightarrow> int" where
  "block_votes s key = (case map_of (vos_byBlock s) key of None \<Rightarrow> 0 | Some n \<Rightarrow> n)"

text \<open>The end of \<open>addVote\<close>: a vote of a validator that has not voted yet is counted.\<close>

definition count_vote :: "Validator \<Rightarrow> nat \<Rightarrow> Vote \<Rightarrow> BitArray option \<Rightarrow> VoteSet \<Rightarrow> VoteSet" where
  "count_vote val valIndex vote bits s =
     (let blockKey = vote_key vote;
          totalBlockHashVotes = wrap64 (block_votes s blockKey + val_VotingPower val);
          needed = two_thirds_power (vos_valSet s);
          s1 = s\<lparr> vos_votes := (vos_votes s)[valIndex := Some vote], vos_bits := bits,
                  vos_byBlock := AList.update blockKey totalBlockHashVotes (vos_byBlock s),
                  vos_total := wrap64 (vos_total s + val_VotingPower val),
                  vos_valSet := snd (TotalVotingPower (vos_valSet s)) \<rparr>
      in if totalBlockHashVotes > needed \<and> wrap64 (totalBlockHashVotes - val_VotingPower val) \<le> needed
         then s1\<lparr> vos_maj23Hash := vote_BlockHash vote, vos_maj23Parts := vote_BlockPartsHeader vote,
                  vos_maj23Exists := True \<rparr>
         else s1)"

definition addVote ::
  "wire_env \<Rightarrow> string \<Rightarrow> Validator \<Rightarrow> nat \<Rightarrow> Vote \<Rightarrow> VoteSet \<Rightarrow> (VoteSet \<times> bool \<times> nat \<times> vote_error option) outcome" where
  "addVote W chainID val valIndex vote s =
     (if vote_Height vote \<noteq> vos_height s \<or> vote_Round vote \<noteq> vos_round s \<or> vote_Type vote \<noteq> vos_type s
      then Ok (s, False, 0, Some ErrVoteUnexpectedStep)
      else if \<not> ed25519_Verify W (val_PubKey val) (Vote_SignBytes chainID vote) (vote_Signature vote)
      then Ok (s, False, 0, Some ErrVoteInvalidSignature)
      else if length (vos_votes s) \<le> valIndex then Panic ''index out of range''
      else case vos_votes s ! valIndex of
        Some existing \<Rightarrow>
          (if vote_BlockHash existing = vote_BlockHash vote then Ok (s, False, valIndex, None)
           else Ok (s, False, valIndex, Some (ErrVoteConflictingSignature existing vote)))
      | None \<Rightarrow>
          obind (ba_SetIndex (vos_bits s) (int valIndex) True) (\<lambda>(bits, _).
            Ok (count_vote val valIndex vote bits s, True, valIndex, None)))"

text \<open>The position is outside of the set: reading it panics before it could be \<open>nil\<close>.\<close>

definition vos_AddByIndex ::
  "wire_env \<Rightarrow> string \<Rightarrow> int \<Rightarrow> Vote \<Rightarrow> VoteSet \<Rightarrow> (VoteSet \<times> bool \<times> bytes \<times> vote_error option) outcome" where
  "vos_AddByIndex W chainID valIndex vote s =
     obind (Validator_Set.GetByIndex valIndex (vos_valSet s)) (\<lambda>(address, val).
     obind (addVote W chainID val (nat valIndex) vote s) (\<lambda>(s', added, _, e).
       Ok (s', added, address, e)))"

definition vos_AddByAddress ::
  "wire_env \<Rightarrow> string \<Rightarrow> bytes \<Rightarrow> Vote \<Rightarrow> VoteSet \<Rightarrow> (VoteSet \<times> bool \<times> nat \<times> vote_error option) outcome" where
  "vos_AddByAddress W chainID address vote s =
     (case Validator_Set.GetByAddress address (vos_valSet s) of
        None \<Rightarrow> Ok (s, False, 0, Some ErrVoteInvalidAccount)
      | Some (valIndex, val) \<Rightarrow> addVote W chainID val valIndex vote s)"

definition vos_BitArray :: "VoteSet option \<Rightarrow> BitArray option" where
  "vos_BitArray s = (case s of None \<Rightarrow> None | Some s \<Rightarrow> vos_bits s)"

definition vos_GetByIndex :: "int \<Rightarrow> VoteSet \<Rightarrow> Vote option outcome" where
  "vos_GetByIndex valIndex s =
     (if 0 \<le> valIndex \<and> valIndex < int (length (vos_votes s)) then Ok (vos_votes s ! nat valIndex)
      else Panic ''index out of range'')"

definition vos_GetByAddress :: "bytes \<Rightarrow> VoteSet \<Rightarrow> Vote option outcome" where
  "vos_GetByAddress address s =
     (case Validator_Set.GetByAddress address (vos_valSet s) of
        None \<Rightarrow> Panic ''GetByAddress(address) returned nil''
      | Some (valIndex, _) \<Rightarrow> vos_GetByIndex (int valIndex) s)"

definition HasTwoThirdsMajority :: "VoteSet option \<Rightarrow> bool" where
  "HasTwoThirdsMajority s = (case s of None \<Rightarrow> False | Some s \<Rightarrow> vos_maj23Exists s)"

definition IsCommit :: "VoteSet option \<Rightarrow> bool" where
  "IsCommit s = (case s of None \<Rightarrow> False | Some s \<Rightarrow> vos_type s = VoteTypePrecommit \<and> vos_maj23Hash s \<noteq> [])"

definition HasTwoThirdsAny :: "VoteSet option \<Rightarrow> bool" where
  "HasTwoThirdsAny s = (case s of None \<Rightarrow> False | Some s \<Rightarrow> vos_total s > two_thirds_power (vos_valSet s))"

definition TwoThirdsMajority :: "VoteSet \<Rightarrow> bytes \<times> PartSetHeader \<times> bool" where
  "TwoThirdsMajority s =
     (if vos_maj23Exists s then (vos_maj23Hash s, vos_maj23Parts s, True) else ([], zero_header, False))"

definition precommit_for :: "VoteSet \<Rightarrow> Vote option \<Rightarrow> Vote option" where
  "precommit_for s v =
     (case v of
        None \<Rightarrow> None
      | Some vote \<Rightarrow>
          if vote_BlockHash vote \<noteq> vos_maj23Hash s then None
          else if vote_BlockPartsHeader vote \<noteq> vos_maj23Parts s then None
          else Some vote)"

definition MakeValidation :: "VoteSet \<Rightarrow> Vote option list outcome" where
  "MakeValidation s =
     (if vos_type s \<noteq> VoteTypePrecommit
      then Panic ''Cannot MakeValidation() unless VoteSet.Type is VoteTypePrecommit''
      else if vos_maj23Hash s = [] then Panic ''Cannot MakeValidation() unless a blockhash has +2/3''
      else if length (vos_votes s) < vs_Size (vos_valSet s) then Panic ''index out of range''
      else Ok (map (\<lambda>i. precommit_for s (vos_votes s ! i)) [0..<vs_Size (vos_valSet s)]))"

section \<open>Counting\<close>

definition weight :: "(Vote \<Rightarrow> bool) \<Rightarrow> Validator \<Rightarrow> Vote option \<Rightarrow> int" where
  "weight P val p = (case p of None \<Rightarrow> 0 | Some v \<Rightarrow> if P v then val_VotingPower val else 0)"

abbreviation voted :: "(Vote \<Rightarrow> bool) \<Rightarrow> Validator list \<Rightarrow> Vote option list \<Rightarrow> int" where
  "voted P vals votes \<equiv> sum_list (map2 (weight P) vals votes)"

lemma weight_simps [simp]: "weight P val None = 0" "weight P val (Some v) = (if P v then val_VotingPower val else 0)"
  by (simp_all add: weight_def)

lemma contrib_weight: "contrib hash parts = weight (\<lambda>v. vote_BlockHash v = hash \<and> vote_BlockPartsHeader v = parts)"
  by (auto simp: fun_eq_iff contrib_def weight_def split: option.splits)

lemma voted_none: "voted P vals (replicate n None) = 0"
  by (induction vals arbitrary: n; case_tac n) auto

lemma voted_update:
  assumes "i < length votes" "length votes = length vals" "votes ! i = None"
  shows "voted P vals (votes[i := Some v]) = voted P vals votes + weight P (vals ! i) (Some v)"
  using assms
proof (induction vals votes arbitrary: i rule: list_induct2')
  case (4 val vals vote votes)
  then show ?case by (cases i) auto
qed auto

lemma some_update:
  "i < length xs \<Longrightarrow> xs ! i = None \<Longrightarrow> Some v \<in> set (xs[i := Some w]) \<longleftrightarrow> v = w \<or> Some v \<in> set xs"
proof (induction xs arbitrary: i)
  case (Cons x xs)
  then show ?case by (cases i) auto
qed simp

lemma voted_two:
  assumes "\<forall>v \<in> set vals. 0 \<le> val_VotingPower v" "\<And>v. \<not> (P v \<and> Q v)"
  shows "voted P vals votes + voted Q vals votes \<le> powers vals"
  using assms(1)
proof (induction vals votes rule: list_induct2')
  case (2 val vals)
  then show ?case using powers_nonneg [of "val # vals"] by simp
next
  case (4 val vals vote votes)
  then show ?case using assms(2) by (cases vote) fastforce+
qed auto

lemma voted_nonneg: "\<forall>v \<in> set vals. 0 \<le> val_VotingPower v \<Longrightarrow> 0 \<le> voted P vals votes"
  by (induction vals votes rule: list_induct2') (auto simp: weight_def split: option.splits)

lemma voted_le: "\<forall>v \<in> set vals. 0 \<le> val_VotingPower v \<Longrightarrow> voted P vals votes \<le> powers vals"
  using voted_two [of vals P "\<lambda>_. False" votes] voted_nonneg [of vals "\<lambda>_. False" votes] by fastforce

lemma voted_cong:
  assumes "\<And>v. Some v \<in> set votes \<Longrightarrow> P v = Q v"
  shows "voted P vals votes = voted Q vals votes"
  using assms by (induction vals votes rule: list_induct2') (auto simp: weight_def split: option.splits)

lemma two_thirds_iff: "0 \<le> (t :: int) \<Longrightarrow> Validator_Set.go_div (2 * t) 3 < x \<longleftrightarrow> 2 * t < 3 * x"
  by (cases "t = 0") (auto simp: Validator_Set.go_div_def sgn_if)

section \<open>The invariant\<close>

abbreviation vals_of :: "VoteSet \<Rightarrow> Validator list" where
  "vals_of s \<equiv> Validators (vos_valSet s)"

abbreviation power_for :: "VoteSet \<Rightarrow> bytes \<Rightarrow> int" where
  "power_for s key \<equiv> voted (\<lambda>v. vote_key v = key) (vals_of s) (vos_votes s)"

definition majority :: "VoteSet \<Rightarrow> bytes \<Rightarrow> bool" where
  "majority s key \<longleftrightarrow> 2 * powers (vals_of s) < 3 * power_for s key"

definition vals_ok :: "ValidatorSet \<Rightarrow> bool" where
  "vals_ok vs \<longleftrightarrow> powers_ok (Validators vs) \<and> vs_totalVotingPower vs \<in> {0, powers (Validators vs)} \<and>
     int (vs_Size vs) < 2 ^ 62"

definition bits_match :: "VoteSet \<Rightarrow> bool" where
  "bits_match s \<longleftrightarrow> (if vals_of s = [] then vos_bits s = None
     else \<exists>b. vos_bits s = Some b \<and> ba_ok b \<and> Bits b = int (length (vals_of s)) \<and>
            bits_of b = {i. i < length (vos_votes s) \<and> vos_votes s ! i \<noteq> None})"

definition votes_signed :: "wire_env \<Rightarrow> string \<Rightarrow> VoteSet \<Rightarrow> bool" where
  "votes_signed W chainID s \<longleftrightarrow> (\<forall>i v. i < length (vos_votes s) \<longrightarrow> vos_votes s ! i = Some v \<longrightarrow>
     vote_Height v = vos_height s \<and> vote_Round v = vos_round s \<and> vote_Type v = vos_type s \<and>
     ed25519_Verify W (val_PubKey (vals_of s ! i)) (Vote_SignBytes chainID v) (vote_Signature v))"

definition maj23_ok :: "VoteSet \<Rightarrow> bool" where
  "maj23_ok s \<longleftrightarrow>
     (if vos_maj23Exists s
      then majority s (block_key (vos_maj23Hash s) (vos_maj23Parts s)) \<and>
        (\<exists>v. Some v \<in> set (vos_votes s) \<and> vote_BlockHash v = vos_maj23Hash s \<and> vote_BlockPartsHeader v = vos_maj23Parts s)
      else vos_maj23Hash s = [] \<and> (\<forall>key. \<not> majority s key))"

definition vote_set_ok :: "wire_env \<Rightarrow> string \<Rightarrow> VoteSet \<Rightarrow> bool" where
  "vote_set_ok W chainID s \<longleftrightarrow> vals_ok (vos_valSet s) \<and> length (vos_votes s) = length (vals_of s) \<and>
     votes_signed W chainID s \<and> bits_match s \<and> (\<forall>key. block_votes s key = power_for s key) \<and>
     vos_total s = voted (\<lambda>_. True) (vals_of s) (vos_votes s) \<and> maj23_ok s"

lemma vals_ok_powers:
  assumes "vals_ok vs"
  shows "\<forall>v \<in> set (Validators vs). 0 \<le> val_VotingPower v" "0 \<le> powers (Validators vs)"
    "2 * powers (Validators vs) \<le> MaxInt64"
  using assms powers_nonneg by (auto simp: vals_ok_def powers_ok_def)

lemma total_power:
  assumes "vals_ok vs"
  shows "fst (TotalVotingPower vs) = powers (Validators vs)" "vals_ok (snd (TotalVotingPower vs))"
    "Validators (snd (TotalVotingPower vs)) = Validators vs"
proof -
  show t: "fst (TotalVotingPower vs) = powers (Validators vs)"
    using assms vals_ok_powers [OF assms] sum_power_eq [of "Validators vs" 0]
    by (auto simp: TotalVotingPower_def Let_def vals_ok_def)
  show v: "Validators (snd (TotalVotingPower vs)) = Validators vs"
    by (simp add: TotalVotingPower_def Let_def)
  have "vs_totalVotingPower (snd (TotalVotingPower vs)) = powers (Validators vs)"
    using t by (simp add: TotalVotingPower_def Let_def)
  then show "vals_ok (snd (TotalVotingPower vs))" using assms v by (auto simp: vals_ok_def vs_Size_def)
qed

lemma two_thirds_power_less:
  assumes "vals_ok vs"
  shows "two_thirds_power vs < x \<longleftrightarrow> 2 * powers (Validators vs) < 3 * x"
proof -
  have "wrap64 (powers (Validators vs) * 2) = 2 * powers (Validators vs)"
    using vals_ok_powers [OF assms] by (subst wrap64_id) (auto simp: int64_simps)
  then show ?thesis
    using two_thirds_iff [OF vals_ok_powers(2) [OF assms]] by (simp add: two_thirds_power_def total_power(1) [OF assms])
qed

lemma no_votes_no_majority:
  assumes "vos_votes s = replicate n None" "vals_ok (vos_valSet s)"
  shows "\<not> majority s key"
  using assms vals_ok_powers(2) [of "vos_valSet s"] by (simp add: majority_def voted_none)

lemma NewVoteSet_ok:
  assumes "vals_ok vs" "height \<noteq> 0"
  shows "\<exists>s. NewVoteSet height round ty vs = Ok s \<and> vote_set_ok W chainID s \<and> vos_valSet s = vs \<and> vos_type s = ty \<and>
    vos_height s = height \<and> vos_round s = round \<and> vos_votes s = replicate (vs_Size vs) None \<and> \<not> vos_maj23Exists s"
proof -
  obtain bits where bits: "NewBitArray (int (vs_Size vs)) = Ok bits"
    "if Validators vs = [] then bits = None
     else \<exists>b. bits = Some b \<and> ba_ok b \<and> Bits b = int (length (Validators vs)) \<and> bits_of b = {}"
    using NewBitArray_pos [of "vs_Size vs"] assms(1)
    by (cases "Validators vs") (auto simp: NewBitArray_def [of 0] vs_Size_def vals_ok_def)
  define s where "s = \<lparr> vos_height = height, vos_round = round, vos_type = ty, vos_valSet = vs,
      vos_votes = replicate (vs_Size vs) None, vos_bits = bits, vos_byBlock = [],
      vos_total = 0, vos_maj23Hash = [], vos_maj23Parts = zero_header, vos_maj23Exists = False \<rparr>"
  have "NewVoteSet height round ty vs = Ok s" using assms(2) bits(1) by (simp add: NewVoteSet_def s_def)
  moreover have "bits_match s" using bits(2) by (auto simp: bits_match_def s_def split: if_splits)
  moreover have "maj23_ok s" using no_votes_no_majority [of s "vs_Size vs"] assms(1) by (simp add: maj23_ok_def s_def)
  ultimately show ?thesis using assms(1)
    by (intro exI [of _ s])
      (simp add: vote_set_ok_def s_def votes_signed_def block_votes_def voted_none vs_Size_def)
qed

lemma majorities_meet:
  assumes "majority s key" "majority s key'" "vals_ok (vos_valSet s)"
  shows "key = key'"
proof (rule ccontr)
  assume "key \<noteq> key'"
  then have "power_for s key + power_for s key' \<le> powers (vals_of s)"
    using vals_ok_powers(1) [OF assms(3)] by (intro voted_two) auto
  then show False using assms vals_ok_powers(2) [OF assms(3)] by (simp add: majority_def)
qed

lemma count_vote_ok:
  assumes ok: "vote_set_ok W chainID s" and i: "i < length (vals_of s)" "vos_votes s ! i = None"
    and vote: "vote_Height vote = vos_height s" "vote_Round vote = vos_round s" "vote_Type vote = vos_type s"
      "ed25519_Verify W (val_PubKey (vals_of s ! i)) (Vote_SignBytes chainID vote) (vote_Signature vote)"
    and b: "vos_bits s = Some b" "ba_ok b'" "Bits b' = Bits b" "bits_of b' = insert i (bits_of b)"
  defines "s' \<equiv> count_vote (vals_of s ! i) i vote (Some b') s"
  shows "vote_set_ok W chainID s'" "vos_votes s' = (vos_votes s)[i := Some vote]" "vals_of s' = vals_of s"
    "vos_height s' = vos_height s" "vos_round s' = vos_round s" "vos_type s' = vos_type s"
    "vos_maj23Exists s \<Longrightarrow> vos_maj23Exists s' \<and> vos_maj23Hash s' = vos_maj23Hash s \<and> vos_maj23Parts s' = vos_maj23Parts s"
    "\<not> vos_maj23Exists s \<Longrightarrow> majority s' (vote_key vote) \<Longrightarrow>
       vos_maj23Exists s' \<and> vos_maj23Hash s' = vote_BlockHash vote \<and> vos_maj23Parts s' = vote_BlockPartsHeader vote"
proof -
  define k where "k = vote_key vote"
  define w where "w = val_VotingPower (vals_of s ! i)"
  have vok: "vals_ok (vos_valSet s)" and len: "length (vos_votes s) = length (vals_of s)"
    and byb: "\<And>key. block_votes s key = power_for s key"
    using ok by (auto simp: vote_set_ok_def)
  note p = vals_ok_powers [OF vok]
  show votes: "vos_votes s' = (vos_votes s)[i := Some vote]" and vals: "vals_of s' = vals_of s"
    and step: "vos_height s' = vos_height s" "vos_round s' = vos_round s" "vos_type s' = vos_type s"
    by (simp_all add: s'_def count_vote_def Let_def total_power(3) [OF vok])
  have vok': "vals_ok (vos_valSet s')"
    by (simp add: s'_def count_vote_def Let_def total_power(2) [OF vok])
  have upd: "voted P (vals_of s') (vos_votes s') = voted P (vals_of s) (vos_votes s) + (if P vote then w else 0)" for P
    using voted_update [of i "vos_votes s" "vals_of s" P vote] i len by (simp add: votes vals w_def)
  have w0: "0 \<le> w" using p(1) i(1) by (simp add: w_def)
  have fits: "wrap64 (voted P (vals_of s) (vos_votes s) + w) = voted P (vals_of s) (vos_votes s) + w" if "P vote" for P
    using voted_le [OF p(1), of P "vos_votes s'"] voted_nonneg [OF p(1), of P "vos_votes s"] upd [of P] that w0 p(2,3) vals
    by (intro wrap64_id) (auto simp: int64_simps)
  have less: "wrap64 (power_for s k + w - w) = power_for s k"
    using voted_le [OF p(1), of "\<lambda>v. vote_key v = k" "vos_votes s"] voted_nonneg [OF p(1), of "\<lambda>v. vote_key v = k" "vos_votes s"] p(2,3)
    by (simp add: int64_simps)
  have sum: "power_for s' key = (if key = k then power_for s k + w else power_for s key)" for key
    using upd [of "\<lambda>v. vote_key v = key"] by (auto simp: k_def)
  have maj_k: "majority s' k \<longleftrightarrow> two_thirds_power (vos_valSet s) < power_for s k + w"
    "majority s k \<longleftrightarrow> two_thirds_power (vos_valSet s) < power_for s k"
    using sum [of k] by (simp_all add: majority_def two_thirds_power_less [OF vok] vals)
  have maj_other: "majority s' key \<longleftrightarrow> majority s key" if "key \<noteq> k" for key
    using sum [of key] that by (simp add: majority_def vals)
  have mono: "majority s key \<Longrightarrow> majority s' key" for key
    using maj_other maj_k w0 by (cases "key = k") auto
  define nudged where "nudged \<longleftrightarrow> majority s' k \<and> \<not> majority s k"
  have byk: "block_votes s k = power_for s k" using byb .
  have m: "vos_maj23Exists s' = (nudged \<or> vos_maj23Exists s)"
    "vos_maj23Hash s' = (if nudged then vote_BlockHash vote else vos_maj23Hash s)"
    "vos_maj23Parts s' = (if nudged then vote_BlockPartsHeader vote else vos_maj23Parts s)"
    using fits [of "\<lambda>v. vote_key v = k"] less byk maj_k
    by (auto simp: s'_def count_vote_def Let_def nudged_def not_less simp flip: k_def w_def)
  have keep: "\<not> nudged" if "vos_maj23Exists s"
    using that ok mono majorities_meet [OF _ _ vok', of k "block_key (vos_maj23Hash s) (vos_maj23Parts s)"]
    by (auto simp: nudged_def vote_set_ok_def maj23_ok_def)
  then show "vos_maj23Exists s \<Longrightarrow> vos_maj23Exists s' \<and> vos_maj23Hash s' = vos_maj23Hash s \<and> vos_maj23Parts s' = vos_maj23Parts s"
    using m by simp
  have no: "\<not> majority s key" if "\<not> vos_maj23Exists s" for key
    using that ok by (simp add: vote_set_ok_def maj23_ok_def)
  then show "\<not> vos_maj23Exists s \<Longrightarrow> majority s' (vote_key vote) \<Longrightarrow>
       vos_maj23Exists s' \<and> vos_maj23Hash s' = vote_BlockHash vote \<and> vos_maj23Parts s' = vote_BlockPartsHeader vote"
    using m by (simp add: nudged_def flip: k_def)
  have set': "Some v \<in> set (vos_votes s') \<longleftrightarrow> v = vote \<or> Some v \<in> set (vos_votes s)" for v
    unfolding votes using i len by (intro some_update) simp_all
  have "maj23_ok s'"
  proof (cases "vos_maj23Exists s")
    case True
    then show ?thesis using m keep mono ok by (auto simp: maj23_ok_def vote_set_ok_def set')
  next
    case False
    have "\<not> majority s' key" if "\<not> nudged" for key
      using no [OF False] that maj_other [of key] by (cases "key = k") (auto simp: nudged_def)
    then show ?thesis using m False ok by (auto simp: maj23_ok_def vote_set_ok_def nudged_def k_def set')
  qed
  moreover have "votes_signed W chainID s'"
    using ok vote len i unfolding votes_signed_def votes vals step
    by (auto simp: nth_list_update vote_set_ok_def votes_signed_def split: if_splits)
  moreover have "bits_match s'"
  proof -
    have bits: "vos_bits s' = Some b'" by (simp add: s'_def count_vote_def Let_def)
    have "Bits b = int (length (vals_of s))" "bits_of b = {i. i < length (vos_votes s) \<and> vos_votes s ! i \<noteq> None}"
      using ok b(1) by (auto simp: vote_set_ok_def bits_match_def split: if_splits)
    then show ?thesis using i len b(2-4)
      by (auto simp: bits_match_def bits votes vals nth_list_update)
  qed
  moreover have "block_votes s' key = power_for s' key" for key
  proof -
    have "block_votes s' key = (if key = k then power_for s k + w else block_votes s key)"
      using fits [of "\<lambda>v. vote_key v = k"] byk
      by (auto simp: s'_def count_vote_def Let_def block_votes_def simp flip: k_def w_def)
    then show ?thesis using byb [of key] sum [of key] by simp
  qed
  moreover have "vos_total s' = voted (\<lambda>_. True) (vals_of s') (vos_votes s')"
    using fits [of "\<lambda>_. True"] ok upd [of "\<lambda>_. True"]
    by (simp add: s'_def count_vote_def Let_def vote_set_ok_def flip: w_def)
  ultimately show "vote_set_ok W chainID s'" using vok' len by (simp add: vote_set_ok_def votes vals)
qed

text \<open>Two states of a vote set between which nothing was lost.\<close>

definition grown :: "VoteSet \<Rightarrow> VoteSet \<Rightarrow> bool" where
  "grown s s' \<longleftrightarrow> vals_of s' = vals_of s \<and> vos_height s' = vos_height s \<and> vos_round s' = vos_round s \<and>
     vos_type s' = vos_type s \<and> length (vos_votes s') = length (vos_votes s) \<and>
     (\<forall>i < length (vos_votes s). vos_votes s ! i \<noteq> None \<longrightarrow> vos_votes s' ! i = vos_votes s ! i) \<and>
     (vos_maj23Exists s \<longrightarrow> TwoThirdsMajority s' = TwoThirdsMajority s)"

lemma grown_refl: "grown s s"
  by (simp add: grown_def)

lemma grown_trans: "grown s s' \<Longrightarrow> grown s' s'' \<Longrightarrow> grown s s''"
  by (auto simp: grown_def TwoThirdsMajority_def split: if_splits)

lemma addVote_new:
  assumes "vote_set_ok W chainID s" "i < length (vals_of s)" "vos_votes s ! i = None"
    and v: "vote_Height vote = vos_height s" "vote_Round vote = vos_round s" "vote_Type vote = vos_type s"
      "ed25519_Verify W (val_PubKey (vals_of s ! i)) (Vote_SignBytes chainID vote) (vote_Signature vote)"
  shows "\<exists>s'. addVote W chainID (vals_of s ! i) i vote s = Ok (s', True, i, None) \<and> vote_set_ok W chainID s' \<and> grown s s' \<and>
    vos_votes s' = (vos_votes s)[i := Some vote] \<and>
    (\<not> vos_maj23Exists s \<longrightarrow> majority s' (vote_key vote) \<longrightarrow>
       TwoThirdsMajority s' = (vote_BlockHash vote, vote_BlockPartsHeader vote, True))"
proof -
  have len: "length (vos_votes s) = length (vals_of s)" using assms(1) by (simp add: vote_set_ok_def)
  obtain b where b: "vos_bits s = Some b" "ba_ok b" "Bits b = int (length (vals_of s))"
    using assms(1,2) by (auto simp: vote_set_ok_def bits_match_def split: if_splits)
  obtain b' where b': "ba_setIndex b (int i) True = Ok (b', True)" "ba_ok b'" "Bits b' = Bits b" "bits_of b' = insert i (bits_of b)"
    using setIndex_bits [OF b(2), of i True] b(3) assms(2) by auto
  let ?s = "count_vote (vals_of s ! i) i vote (Some b') s"
  note c = count_vote_ok [OF assms b(1) b'(2-4)]
  have "addVote W chainID (vals_of s ! i) i vote s = Ok (?s, True, i, None)"
    using v b(1) b'(1) assms(2,3) len by (simp add: addVote_def ba_SetIndex_def)
  moreover have "grown s ?s"
    using c(2-7) assms(2,3) len by (auto simp: grown_def nth_list_update TwoThirdsMajority_def)
  moreover have "TwoThirdsMajority ?s = (vote_BlockHash vote, vote_BlockPartsHeader vote, True)"
    if "\<not> vos_maj23Exists s" "majority ?s (vote_key vote)"
    using c(8) [OF that] by (simp add: TwoThirdsMajority_def)
  ultimately show ?thesis using c(1,2) by blast
qed

lemma addVote_ok:
  assumes "vote_set_ok W chainID s" "i < length (vals_of s)"
  shows "\<exists>s' added j e. addVote W chainID (vals_of s ! i) i vote s = Ok (s', added, j, e) \<and>
    vote_set_ok W chainID s' \<and> grown s s' \<and> (\<not> added \<longrightarrow> s' = s)"
proof (cases "vote_Height vote = vos_height s \<and> vote_Round vote = vos_round s \<and> vote_Type vote = vos_type s \<and>
    ed25519_Verify W (val_PubKey (vals_of s ! i)) (Vote_SignBytes chainID vote) (vote_Signature vote) \<and> vos_votes s ! i = None")
  case True
  then show ?thesis using addVote_new [OF assms, of vote] by blast
next
  case False
  moreover have "length (vos_votes s) = length (vals_of s)" using assms(1) by (simp add: vote_set_ok_def)
  ultimately have "\<exists>j e. addVote W chainID (vals_of s ! i) i vote s = Ok (s, False, j, e)"
    using assms(2) by (auto simp: addVote_def split: option.splits)
  then show ?thesis using assms(1) grown_refl by blast
qed

lemma AddByIndex_ok:
  assumes "vote_set_ok W chainID s" "0 \<le> i" "i < int (length (vals_of s))"
  shows "\<exists>s' added a e. vos_AddByIndex W chainID i vote s = Ok (s', added, a, e) \<and>
    vote_set_ok W chainID s' \<and> grown s s' \<and> (\<not> added \<longrightarrow> s' = s)"
  using addVote_ok [OF assms(1), of "nat i" vote] assms(2,3)
  by (fastforce simp: vos_AddByIndex_def Validator_Set.GetByIndex_def Let_def)

lemma AddByIndex_outside:
  assumes "i < 0 \<or> int (length (vals_of s)) \<le> i"
  shows "vos_AddByIndex W chainID i vote s = Panic ''index out of range''"
  using assms by (auto simp: vos_AddByIndex_def Validator_Set.GetByIndex_def)

text \<open>A set after a sequence of votes, each given with its position.\<close>

fun add_votes :: "wire_env \<Rightarrow> string \<Rightarrow> (int \<times> Vote) list \<Rightarrow> VoteSet \<Rightarrow> VoteSet outcome" where
  "add_votes W chainID [] s = Ok s"
| "add_votes W chainID ((i, vote) # rest) s =
     obind (vos_AddByIndex W chainID i vote s) (\<lambda>(s', _). add_votes W chainID rest s')"

lemma add_votes_ok:
  assumes "add_votes W chainID votes s = Ok s'" "vote_set_ok W chainID s"
  shows "vote_set_ok W chainID s' \<and> grown s s'"
  using assms
proof (induction W chainID votes s rule: add_votes.induct)
  case (2 W chainID i vote rest s)
  have "0 \<le> i \<and> i < int (length (vals_of s))"
    using "2.prems"(1) AddByIndex_outside [of i s W chainID vote] by (cases "0 \<le> i \<and> i < int (length (vals_of s))") auto
  then obtain s1 a x e where s1: "vos_AddByIndex W chainID i vote s = Ok (s1, a, x, e)" "vote_set_ok W chainID s1" "grown s s1"
    using AddByIndex_ok [OF "2.prems"(2)] by blast
  then show ?case using "2.IH" [of s1] "2.prems" grown_trans [of s s1 s'] by (auto simp: obind_eq_Ok)
qed (simp add: grown_refl)

section \<open>Block keys\<close>

definition well_formed_vote :: "nat \<Rightarrow> Vote \<Rightarrow> bool" where
  "well_formed_vote n v \<longleftrightarrow> in_int64 (Total (vote_BlockPartsHeader v)) \<and>
     int (length (psh_Hash (vote_BlockPartsHeader v))) \<le> MaxInt64 \<and>
     (length (vote_BlockHash v) = n \<or> vote_BlockHash v = [] \<and> vote_BlockPartsHeader v = zero_header)"

lemma Header_length: "2 \<le> length (Header_BinaryBytes psh)"
proof -
  have v: "1 \<le> length (WriteVarint x)" for x by (simp add: WriteVarint_def Let_def WriteByte_def)
  have "1 \<le> length (WriteByteSlice x)" for x using v [of "int (length x)"] by (simp add: WriteByteSlice_def)
  with v show ?thesis by (simp add: Header_BinaryBytes_def) (metis One_nat_def add_le_mono one_add_one)
qed

lemma Header_injective:
  assumes "Header_BinaryBytes p = Header_BinaryBytes q" "in_int64 (Total p)" "in_int64 (Total q)"
    "int (length (psh_Hash p)) \<le> MaxInt64" "int (length (psh_Hash q)) \<le> MaxInt64"
  shows "p = q"
proof -
  have "Total p = Total q" "WriteByteSlice (psh_Hash p) = WriteByteSlice (psh_Hash q)"
    using varint.prefix_free [of "Total p" "Total q"] assms by (simp_all add: Header_BinaryBytes_def)
  then show ?thesis
    using WriteByteSlice_prefix_free [of "psh_Hash p" "[]" "psh_Hash q" "[]"] assms(4,5) by simp
qed

lemma well_formed_key:
  assumes "well_formed_vote n v" "well_formed_vote n u" "vote_key v = vote_key u" "vote_BlockHash v \<noteq> []"
  shows "vote_BlockHash u = vote_BlockHash v \<and> vote_BlockPartsHeader u = vote_BlockPartsHeader v"
proof -
  have n: "length (vote_BlockHash v) = n" using assms(1,4) by (auto simp: well_formed_vote_def)
  have "length (vote_BlockHash u) = n"
  proof (rule ccontr)
    assume "length (vote_BlockHash u) \<noteq> n"
    then have "vote_key u = Header_BinaryBytes zero_header"
      using assms(2) by (simp add: well_formed_vote_def block_key_def)
    then have "length (vote_key v) = 2" unfolding assms(3)
      by (simp add: Header_BinaryBytes_def WriteByteSlice_def WriteVarint_def uvarintSize_def WriteByte_def to_uint64_def)
    then show False using assms(4) Header_length [of "vote_BlockPartsHeader v"]
      by (cases "vote_BlockHash v") (simp_all add: block_key_def)
  qed
  then show ?thesis using assms(1-3) n Header_injective by (auto simp: block_key_def well_formed_vote_def)
qed

section \<open>Properties\<close>

text \<open>
  C8: Whatever votes are added to a new vote set, in whatever order, with repetitions and forgeries: it
  holds only votes of its height, round and type with the signature of the validator at their
  position; it reports a block exactly when the votes with one key have more than two thirds of the
  voting power, and the votes for the reported block are among them; and what it once
  reports it reports for ever.
\<close>

theorem majority_sound_and_final:
  assumes "vals_ok vs" "NewVoteSet height round ty vs = Ok s0" "add_votes W chainID xs s0 = Ok s"
    "add_votes W chainID ys s = Ok s'"
  shows "votes_signed W chainID s \<and> snd (snd (TwoThirdsMajority s)) = (\<exists>key. majority s key) \<and>
    (\<forall>hash parts. TwoThirdsMajority s = (hash, parts, True) \<longrightarrow>
       majority s (block_key hash parts) \<and> TwoThirdsMajority s' = (hash, parts, True))"
proof -
  have "height \<noteq> 0" using assms(2) by (auto simp: NewVoteSet_def)
  then obtain s1 where "NewVoteSet height round ty vs = Ok s1" "vote_set_ok W chainID s1"
    using NewVoteSet_ok [OF assms(1)] by blast
  then have "vote_set_ok W chainID s0" using assms(2) by simp
  then have s: "vote_set_ok W chainID s" using add_votes_ok [OF assms(3)] by blast
  then have g: "grown s s'" using add_votes_ok [OF assms(4)] by blast
  have m: "vos_maj23Exists s = (\<exists>key. majority s key)"
    "vos_maj23Exists s \<Longrightarrow> majority s (block_key (vos_maj23Hash s) (vos_maj23Parts s))"
    using s by (auto simp: vote_set_ok_def maj23_ok_def split: if_splits)
  have f: "TwoThirdsMajority s' = TwoThirdsMajority s" if "vos_maj23Exists s" using g that by (simp add: grown_def)
  show ?thesis
    using s m f by (cases "vos_maj23Exists s") (simp_all add: vote_set_ok_def TwoThirdsMajority_def)
qed

lemma sample_vals_ok: "vals_ok sample_set"
  by (simp add: vals_ok_def powers_ok_def sample_set_def sample_val_def int64_simps vs_Size_def)

lemma sample_decides:
  "\<exists>s0 s. NewVoteSet 1 0 VoteTypePrecommit sample_set = Ok s0 \<and> add_votes sample_keys ''c'' [(0, sample_vote)] s0 = Ok s \<and>
     TwoThirdsMajority s = ([9], \<lparr> Total = 1, psh_Hash = [] \<rparr>, True) \<and> IsCommit (Some s) \<and>
     vos_maj23Hash s = [9] \<and> vos_maj23Parts s = \<lparr> Total = 1, psh_Hash = [] \<rparr> \<and> vos_votes s = [Some sample_vote, None] \<and>
     (\<exists>s'. add_votes sample_keys ''c'' [(1, sample_vote\<lparr> vote_BlockHash := [8] \<rparr>)] s = Ok s')"
proof -
  note d = sample_set_def sample_val_def sample_keys_def sample_vote_def VoteTypePrecommit_def
  obtain s0 where s0: "NewVoteSet 1 0 VoteTypePrecommit sample_set = Ok s0" "vote_set_ok sample_keys ''c'' s0"
    "vos_valSet s0 = sample_set" "vos_type s0 = VoteTypePrecommit" "vos_height s0 = 1" "vos_round s0 = 0"
    "vos_votes s0 = [None, None]" "\<not> vos_maj23Exists s0"
    using NewVoteSet_ok [OF sample_vals_ok, of 1 0 VoteTypePrecommit sample_keys "''c''"] by (auto simp: vs_Size_def sample_set_def)
  have v: "vals_of s0 = [sample_val 1 5, sample_val 4 2]" using s0(3) by (simp add: sample_set_def)
  obtain s where s: "addVote sample_keys ''c'' (vals_of s0 ! 0) 0 sample_vote s0 = Ok (s, True, 0, None)"
    "vote_set_ok sample_keys ''c'' s" "grown s0 s" "vos_votes s = [Some sample_vote, None]"
    "majority s (vote_key sample_vote) \<longrightarrow> TwoThirdsMajority s = (vote_BlockHash sample_vote, vote_BlockPartsHeader sample_vote, True)"
    using addVote_new [OF s0(2), of 0 sample_vote] s0 v by (auto simp: d)
  have vals: "vals_of s = [sample_val 1 5, sample_val 4 2]" "vos_type s = VoteTypePrecommit" using s(3) v s0(4) by (auto simp: grown_def)
  have m: "TwoThirdsMajority s = ([9], \<lparr> Total = 1, psh_Hash = [] \<rparr>, True)"
    using s(5) by (simp add: majority_def vals s(4) sample_val_def) (simp add: sample_vote_def)
  have a: "add_votes sample_keys ''c'' [(0, sample_vote)] s0 = Ok s"
    using s(1) v by (simp add: vos_AddByIndex_def Validator_Set.GetByIndex_def Let_def)
  obtain s' where "add_votes sample_keys ''c'' [(1, sample_vote\<lparr> vote_BlockHash := [8] \<rparr>)] s = Ok s'"
    using AddByIndex_ok [OF s(2), of 1 "sample_vote\<lparr> vote_BlockHash := [8] \<rparr>"] vals(1) by auto
  then show ?thesis using s0(1) a m s(4) vals(2)
    by (intro exI [of _ s0] exI [of _ s]) (auto simp: IsCommit_def TwoThirdsMajority_def split: if_splits)
qed

theorem majority_sound_and_final_witness:
  "\<exists>s0 s s'. NewVoteSet 1 0 VoteTypePrecommit sample_set = Ok s0 \<and> add_votes sample_keys ''c'' [(0, sample_vote)] s0 = Ok s \<and>
     add_votes sample_keys ''c'' [(1, sample_vote\<lparr> vote_BlockHash := [8] \<rparr>)] s = Ok s' \<and>
     majority s (block_key [9] \<lparr> Total = 1, psh_Hash = [] \<rparr>) \<and>
     TwoThirdsMajority s' = ([9], \<lparr> Total = 1, psh_Hash = [] \<rparr>, True)"
proof -
  obtain s0 s s' where s: "NewVoteSet 1 0 VoteTypePrecommit sample_set = Ok s0"
    "add_votes sample_keys ''c'' [(0, sample_vote)] s0 = Ok s"
    "add_votes sample_keys ''c'' [(1, sample_vote\<lparr> vote_BlockHash := [8] \<rparr>)] s = Ok s'"
    "TwoThirdsMajority s = ([9], \<lparr> Total = 1, psh_Hash = [] \<rparr>, True)"
    using sample_decides by blast
  show ?thesis using majority_sound_and_final [OF sample_vals_ok s(1-3)] s by blast
qed

lemma tally_complete:
  assumes "idx + length ps = length (Validators vs)"
    and "list_all2 (signed_precommit W c h r) (drop idx (Validators vs)) ps"
    and "\<forall>v\<in>set (Validators vs). 0 \<le> val_VotingPower v" "0 \<le> t"
    and "t + powers (drop idx (Validators vs)) \<le> MaxInt64"
  shows "tally W c hash parts h r idx vs ps t = Ok (t + sum_list (map2 (contrib hash parts) (drop idx (Validators vs)) ps))"
  using assms
proof (induction ps arbitrary: idx t)
  case (Cons p ps)
  define val where "val = Validators vs ! idx"
  have idx: "idx < length (Validators vs)" using Cons.prems(1) by simp
  then have dr: "drop idx (Validators vs) = val # drop (Suc idx) (Validators vs)"
    by (simp add: val_def Cons_nth_drop_Suc)
  have pv: "0 \<le> val_VotingPower val" using Cons.prems(3) idx by (simp add: val_def)
  have rest: "0 \<le> powers (drop (Suc idx) (Validators vs))"
    using Cons.prems(3) by (intro powers_nonneg) (auto dest: in_set_dropD)
  show ?case
  proof (cases p)
    case None
    with Cons.IH [of "Suc idx" t] Cons.prems dr pv show ?thesis by (simp add: contrib_def)
  next
    case (Some v)
    have get: "Validator_Set.GetByIndex (int idx) vs = Ok (val_Address val, val)"
      using idx by (simp add: Validator_Set.GetByIndex_def val_def Let_def)
    have w: "wrap64 (t + val_VotingPower val) = t + val_VotingPower val"
      using Cons.prems(4,5) pv rest dr by (intro wrap64_id) (auto simp: int64_simps)
    define u where "u = (if vote_BlockHash v = hash \<and> vote_BlockPartsHeader v = parts then t + val_VotingPower val else t)"
    have "u + powers (drop (Suc idx) (Validators vs)) \<le> MaxInt64" "0 \<le> u" using Cons.prems(4,5) pv dr by (auto simp: u_def)
    then have "tally W c hash parts h r (Suc idx) vs ps u =
        Ok (u + sum_list (map2 (contrib hash parts) (drop (Suc idx) (Validators vs)) ps))"
      using Cons.IH [of "Suc idx" u] Cons.prems(1-3) dr by simp
    then show ?thesis using Cons.prems(2) Some get w dr
      by (auto simp: u_def contrib_def signed_precommit_def)
  qed
qed simp

lemma first_vote: "Some v \<in> set ps \<Longrightarrow> \<exists>f. find (\<lambda>p. p \<noteq> None) ps = Some (Some f) \<and> Some f \<in> set ps"
proof (induction ps)
  case (Cons p ps)
  then show ?case by (cases p) auto
qed simp

lemma VerifyValidation_complete:
  assumes "vals_ok vs" "list_all2 (signed_precommit W c height round) (Validators vs) ps"
    and "2 * powers (Validators vs) < 3 * sum_list (map2 (contrib hash parts) (Validators vs) ps)"
  shows "VerifyValidation W c hash parts height ps vs = Ok ()"
proof -
  note p = vals_ok_powers [OF assms(1)]
  have len: "length ps = length (Validators vs)" using assms(2) by (auto dest: list_all2_lengthD)
  have t: "tally W c hash parts height round 0 vs ps 0 = Ok (sum_list (map2 (contrib hash parts) (Validators vs) ps))"
    using tally_complete [of 0 ps vs W c height round 0 hash parts] assms(2) p len by simp
  obtain v where v: "Some v \<in> set ps"
  proof (rule ccontr)
    assume "\<not> thesis"
    then have "ps = replicate (length ps) None" using that by (metis not_None_eq replicate_length_same)
    then have "sum_list (map2 (contrib hash parts) (Validators vs) ps) = 0"
      unfolding contrib_weight by (metis voted_none)
    then show False using assms(3) p(2) by simp
  qed
  then obtain f where "find (\<lambda>p. p \<noteq> None) ps = Some (Some f)" "Some f \<in> set ps"
    using first_vote [of v ps] by blast
  then have f: "FirstPrecommit ps = Some f" "vote_Height f = height" "vote_Round f = round"
    using assms(2) by (auto simp: FirstPrecommit_def list_all2_conv_all_nth in_set_conv_nth signed_precommit_def split: option.splits)
  then have "ps \<noteq> []" by (auto simp: FirstPrecommit_def)
  then have "Validation_Height ps = Ok height" "Validation_Round ps = Ok round"
    using f by (simp_all add: Validation_Height_def Validation_Round_def deref_def)
  moreover have "Validator_Set.go_div (wrap64 (fst (TotalVotingPower vs) * 2)) 3 <
      sum_list (map2 (contrib hash parts) (Validators vs) ps)"
    using two_thirds_power_less [OF assms(1)] assms(3) by (simp add: two_thirds_power_def)
  ultimately show ?thesis using len t by (simp add: VerifyValidation_def vs_Size_def Let_def)
qed

text \<open>
  Votes are counted under a key made of the block's hash and the header of its parts. No two votes for
  different blocks share a key: this is so when they are for no block or for hashes of one length
  (\<open>well_formed_vote\<close>), which the code does not check.
\<close>

definition keys_tell_blocks :: "VoteSet \<Rightarrow> bool" where
  "keys_tell_blocks s \<longleftrightarrow>
     (\<forall>u v. Some u \<in> set (vos_votes s) \<longrightarrow> Some v \<in> set (vos_votes s) \<longrightarrow> vote_key u = vote_key v \<longrightarrow>
        vote_BlockHash u \<noteq> [] \<longrightarrow>
        vote_BlockHash u = vote_BlockHash v \<and> vote_BlockPartsHeader u = vote_BlockPartsHeader v)"

lemma well_formed_keys:
  "\<forall>v. Some v \<in> set (vos_votes s) \<longrightarrow> well_formed_vote n v \<Longrightarrow> keys_tell_blocks s"
  unfolding keys_tell_blocks_def by (metis well_formed_key)

text \<open>
  C10: When the precommits of a round have decided on a block, and no two of them that are for different
  blocks share a key, the commit made of them is accepted by every node that knows the validators:
  \<open>MakeValidation\<close> does not panic and \<open>VerifyValidation\<close> accepts its result for the reported block. The code
  does not ensure the condition; \<open>last_voter_names_majority\<close> shows what happens without it.
\<close>

theorem MakeValidation_verifies:
  assumes "vals_ok vs" "NewVoteSet height round VoteTypePrecommit vs = Ok s0" "add_votes W chainID xs s0 = Ok s"
    "IsCommit (Some s)" "keys_tell_blocks s"
  shows "\<exists>ps. MakeValidation s = Ok ps \<and>
    VerifyValidation W chainID (vos_maj23Hash s) (vos_maj23Parts s) height ps vs = Ok ()"
proof -
  let ?h = "vos_maj23Hash s" and ?p = "vos_maj23Parts s"
  have "height \<noteq> 0" using assms(2) by (auto simp: NewVoteSet_def)
  then have new: "vote_set_ok W chainID s0" "vos_valSet s0 = vs" "vos_height s0 = height" "vos_round s0 = round"
    using NewVoteSet_ok [OF assms(1), of height round VoteTypePrecommit W chainID] assms(2) by auto
  then have s: "vote_set_ok W chainID s" and g: "grown s0 s" using add_votes_ok [OF assms(3)] by auto
  then have vals: "vals_of s = Validators vs" "vos_height s = height" "vos_round s = round" using new by (auto simp: grown_def)
  have c: "vos_type s = VoteTypePrecommit" "?h \<noteq> []" "vos_maj23Exists s"
    using assms(4) s by (auto simp: IsCommit_def vote_set_ok_def maj23_ok_def split: if_splits)
  have len: "length (vos_votes s) = length (vals_of s)" using s by (simp add: vote_set_ok_def)
  define ps where "ps = map (precommit_for s) (vos_votes s)"
  have "map (\<lambda>i. precommit_for s (vos_votes s ! i)) [0..<length (vals_of s)] = ps"
    using len by (intro nth_equalityI) (simp_all add: ps_def)
  then have mk: "MakeValidation s = Ok ps" using c len by (simp add: MakeValidation_def vs_Size_def)
  have "signed_precommit W chainID height round (Validators vs ! i) (precommit_for s (vos_votes s ! i))"
    if "i < length (vos_votes s)" for i
    using s that c(1) vals
    by (cases "vos_votes s ! i") (simp_all add: precommit_for_def signed_precommit_def vote_set_ok_def votes_signed_def)
  then have sg: "list_all2 (signed_precommit W chainID height round) (Validators vs) ps"
    using len vals(1) by (simp add: list_all2_conv_all_nth ps_def)
  have "contrib ?h ?p val (precommit_for s p) = contrib ?h ?p val p" for val p
    by (auto simp: contrib_def precommit_for_def split: option.splits)
  then have same: "map2 (contrib ?h ?p) vals ps = map2 (contrib ?h ?p) vals (vos_votes s)" for vals
    by (simp add: ps_def zip_map2 case_prod_beta)
  have maj: "majority s (block_key ?h ?p)" using s c(3) by (simp add: vote_set_ok_def maj23_ok_def)
  then obtain v where v: "Some v \<in> set (vos_votes s)" "vote_BlockHash v = ?h" "vote_BlockPartsHeader v = ?p"
    using s c(3) by (auto simp: vote_set_ok_def maj23_ok_def)
  have "power_for s (block_key ?h ?p) = sum_list (map2 (contrib ?h ?p) (vals_of s) (vos_votes s))"
    unfolding contrib_weight using assms(5) [unfolded keys_tell_blocks_def] v c(2)
    by (intro voted_cong) (metis)
  then have "2 * powers (Validators vs) < 3 * sum_list (map2 (contrib ?h ?p) (Validators vs) ps)"
    using maj vals(1) same by (simp add: majority_def)
  then show ?thesis using mk VerifyValidation_complete [OF assms(1) sg] by blast
qed

theorem MakeValidation_verifies_witness:
  "\<exists>s0 s ps. NewVoteSet 1 0 VoteTypePrecommit sample_set = Ok s0 \<and> add_votes sample_keys ''c'' [(0, sample_vote)] s0 = Ok s \<and>
     MakeValidation s = Ok ps \<and> VerifyValidation sample_keys ''c'' [9] \<lparr> Total = 1, psh_Hash = [] \<rparr> 1 ps sample_set = Ok ()"
proof -
  obtain s0 s where s: "NewVoteSet 1 0 VoteTypePrecommit sample_set = Ok s0"
    "add_votes sample_keys ''c'' [(0, sample_vote)] s0 = Ok s" "IsCommit (Some s)"
    "vos_maj23Hash s = [9]" "vos_maj23Parts s = \<lparr> Total = 1, psh_Hash = [] \<rparr>" "vos_votes s = [Some sample_vote, None]"
    using sample_decides by blast
  have "\<forall>v. Some v \<in> set (vos_votes s) \<longrightarrow> well_formed_vote 1 v"
    by (simp add: s(6) well_formed_vote_def sample_vote_def int64_simps)
  note well_formed_keys [OF this]
  then show ?thesis using MakeValidation_verifies [OF sample_vals_ok s(1-3)] s(1,2,4,5) by metis
qed

text \<open>
  The key under which votes are counted is the hash of the block followed by the encoding of the
  header of its parts, and two different pairs can have the same key. The validator whose vote
  completes two thirds decides which of them is reported: a validator with a small part of the power can make
  the set report a block that nobody else voted for.
\<close>

theorem last_voter_names_majority:
  assumes "vote_set_ok W chainID s" "\<not> vos_maj23Exists s" "i < length (vals_of s)" "vos_votes s ! i = None"
    and "vote_Height vote = vos_height s" "vote_Round vote = vos_round s" "vote_Type vote = vos_type s"
      "ed25519_Verify W (val_PubKey (vals_of s ! i)) (Vote_SignBytes chainID vote) (vote_Signature vote)"
    and "\<forall>v. Some v \<in> set (vos_votes s) \<longrightarrow> vote_BlockHash v \<noteq> vote_BlockHash vote"
    and "2 * powers (vals_of s) < 3 * (power_for s (vote_key vote) + val_VotingPower (vals_of s ! i))"
  shows "\<exists>s' a. vos_AddByIndex W chainID (int i) vote s = Ok (s', True, a, None) \<and>
    TwoThirdsMajority s' = (vote_BlockHash vote, vote_BlockPartsHeader vote, True) \<and>
    voted (\<lambda>v. vote_BlockHash v = vote_BlockHash vote) (vals_of s') (vos_votes s') = val_VotingPower (vals_of s ! i)"
proof -
  have len: "length (vos_votes s) = length (vals_of s)" using assms(1) by (simp add: vote_set_ok_def)
  obtain s' where s': "addVote W chainID (vals_of s ! i) i vote s = Ok (s', True, i, None)" "grown s s'"
    "vos_votes s' = (vos_votes s)[i := Some vote]"
    "majority s' (vote_key vote) \<longrightarrow> TwoThirdsMajority s' = (vote_BlockHash vote, vote_BlockPartsHeader vote, True)"
    using addVote_new [OF assms(1,3-8)] assms(2) by blast
  have vals: "vals_of s' = vals_of s" using s'(2) by (simp add: grown_def)
  have upd: "voted P (vals_of s') (vos_votes s') = voted P (vals_of s) (vos_votes s) + weight P (vals_of s ! i) (Some vote)" for P
    unfolding vals s'(3) using voted_update [of i "vos_votes s" "vals_of s"] assms(3,4) len by simp
  have "majority s' (vote_key vote)" using assms(10) upd [of "\<lambda>v. vote_key v = vote_key vote"] by (simp add: majority_def vals)
  moreover have "voted (\<lambda>v. vote_BlockHash v = vote_BlockHash vote) (vals_of s) (vos_votes s) = voted (\<lambda>_. False) (vals_of s) (vos_votes s)"
    using assms(9) by (intro voted_cong) simp
  moreover have "voted (\<lambda>_. False) vals votes = 0" for vals votes
    by (induction vals votes rule: list_induct2') (auto simp: weight_def split: option.splits)
  ultimately show ?thesis
    using s'(1,4) upd [of "\<lambda>v. vote_BlockHash v = vote_BlockHash vote"] assms(3)
    by (simp add: vos_AddByIndex_def Validator_Set.GetByIndex_def Let_def)
qed

definition third_set :: ValidatorSet where
  "third_set = \<lparr> Validators = [sample_val 1 4, sample_val 4 2], vs_proposer = None, vs_totalVotingPower = 0 \<rparr>"

definition honest_vote :: Vote where
  "honest_vote = sample_vote\<lparr> vote_BlockPartsHeader := \<lparr> Total = 1, psh_Hash = [0, 0] \<rparr> \<rparr>"

definition odd_vote :: Vote where
  "odd_vote = sample_vote\<lparr> vote_BlockHash := [9, 1, 1, 1, 2], vote_BlockPartsHeader := zero_header \<rparr>"

lemma odd_vote_key: "vote_key odd_vote = vote_key honest_vote"
  by (simp add: odd_vote_def honest_vote_def sample_vote_def block_key_def Header_BinaryBytes_def WriteVarint_def uvarintSize_def
    WriteByteSlice_def WriteByte_def to_uint64_def be_bytes_def)

theorem last_voter_names_majority_witness:
  "\<exists>s s' a. vos_votes s = [Some honest_vote, None] \<and> vos_AddByIndex sample_keys ''c'' 1 odd_vote s = Ok (s', True, a, None) \<and>
    TwoThirdsMajority s' = ([9, 1, 1, 1, 2], zero_header, True)"
proof -
  have vok: "vals_ok third_set"
    by (simp add: vals_ok_def powers_ok_def third_set_def sample_val_def int64_simps vs_Size_def)
  obtain s0 where s0: "NewVoteSet 1 0 VoteTypePrecommit third_set = Ok s0" "vote_set_ok sample_keys ''c'' s0" "vos_valSet s0 = third_set"
    "vos_type s0 = VoteTypePrecommit" "vos_height s0 = 1" "vos_round s0 = 0" "vos_votes s0 = [None, None]" "\<not> vos_maj23Exists s0"
    using NewVoteSet_ok [OF vok, of 1 0 VoteTypePrecommit sample_keys "''c''"] by (auto simp: vs_Size_def third_set_def)
  note d = third_set_def sample_val_def sample_keys_def sample_vote_def VoteTypePrecommit_def
  obtain s where s: "vote_set_ok sample_keys ''c'' s" "grown s0 s" "vos_votes s = [Some honest_vote, None]"
    using addVote_new [OF s0(2), of 0 honest_vote] s0 by (auto simp: d honest_vote_def)
  have v: "vals_of s = [sample_val 1 4, sample_val 4 2]" "vos_height s = 1" "vos_round s = 0" "vos_type s = VoteTypePrecommit"
    using s(2) s0 by (auto simp: grown_def third_set_def)
  have "\<not> majority s key" for key by (simp add: majority_def v s(3) sample_val_def)
  then have m: "\<not> vos_maj23Exists s" using s(1) by (auto simp: vote_set_ok_def maj23_ok_def)
  have "\<exists>s' a. vos_AddByIndex sample_keys ''c'' (int 1) odd_vote s = Ok (s', True, a, None) \<and>
    TwoThirdsMajority s' = (vote_BlockHash odd_vote, vote_BlockPartsHeader odd_vote, True) \<and>
    voted (\<lambda>v. vote_BlockHash v = vote_BlockHash odd_vote) (vals_of s') (vos_votes s') = val_VotingPower (vals_of s ! 1)"
    by (rule last_voter_names_majority [OF s(1) m])
      (simp_all add: v s(3) odd_vote_key, simp_all add: d odd_vote_def honest_vote_def)
  then show ?thesis using s(3) by (auto simp: odd_vote_def)
qed

text \<open>A vote with a position outside of the set panics.\<close>

lemma outside_vote_panics: "vos_AddByIndex W chainID (int (length (vals_of s))) vote s = Panic ''index out of range''"
  by (simp add: AddByIndex_outside)

end
