(* ===== verification/Height_Vote_Set.thy ===== *)
theory Height_Vote_Set
  imports Vote_Set
begin

text \<open>
  The votes of one height (the vendored \<open>consensus/height_vote_set.go\<close>): a pair of vote sets for each
  round up to the current one, and for each peer one round beyond it. The counter of the loop in
  \<open>SetRound\<close> is taken not to wrap around, which it could only do after making \<open>2 ^ 63\<close> rounds.
\<close>

definition VoteTypePrevote :: byte where
  "VoteTypePrevote = 1"

record RoundVoteSet =
  rvs_Prevotes :: VoteSet
  rvs_Precommits :: VoteSet

record HeightVoteSet =
  hvs_height :: int
  hvs_valSet :: ValidatorSet
  hvs_round :: int
  hvs_roundVoteSets :: "(int, RoundVoteSet) gomap"
  hvs_peerCatchupRounds :: "(string, int) gomap"

definition addRound :: "int \<Rightarrow> HeightVoteSet \<Rightarrow> HeightVoteSet outcome" where
  "addRound round hvs =
     (if map_of (hvs_roundVoteSets hvs) round \<noteq> None then Panic ''addRound() for an existing round''
      else obind (NewVoteSet (hvs_height hvs) round VoteTypePrevote (hvs_valSet hvs)) (\<lambda>prevotes.
           obind (NewVoteSet (hvs_height hvs) round VoteTypePrecommit (hvs_valSet hvs)) (\<lambda>precommits.
             Ok (hvs\<lparr> hvs_roundVoteSets := AList.update round
                   \<lparr> rvs_Prevotes = prevotes, rvs_Precommits = precommits \<rparr> (hvs_roundVoteSets hvs) \<rparr>))))"

definition NewHeightVoteSet :: "int \<Rightarrow> ValidatorSet \<Rightarrow> HeightVoteSet outcome" where
  "NewHeightVoteSet height valSet =
     obind (addRound 0 \<lparr> hvs_height = height, hvs_valSet = valSet, hvs_round = 0, hvs_roundVoteSets = [],
                         hvs_peerCatchupRounds = [] \<rparr>)
       (\<lambda>hvs. Ok (hvs\<lparr> hvs_round := 0 \<rparr>))"

text \<open>A round may be there already because a peer asked for it.\<close>

primrec add_rounds :: "int list \<Rightarrow> HeightVoteSet \<Rightarrow> HeightVoteSet outcome" where
  "add_rounds [] hvs = Ok hvs"
| "add_rounds (r # rs) hvs =
     (if map_of (hvs_roundVoteSets hvs) r \<noteq> None then add_rounds rs hvs
      else obind (addRound r hvs) (add_rounds rs))"

definition SetRound :: "int \<Rightarrow> HeightVoteSet \<Rightarrow> HeightVoteSet outcome" where
  "SetRound round hvs =
     (if hvs_round hvs \<noteq> 0 \<and> round < wrap64 (hvs_round hvs + 1) then Panic ''SetRound() must increment hvs.round''
      else obind (add_rounds [wrap64 (hvs_round hvs + 1)..round] hvs) (\<lambda>hvs'. Ok (hvs'\<lparr> hvs_round := round \<rparr>)))"

text \<open>\<open>Ok None\<close> is the nil vote set of a round that is not there.\<close>

definition getVoteSet :: "int \<Rightarrow> byte \<Rightarrow> HeightVoteSet \<Rightarrow> VoteSet option outcome" where
  "getVoteSet round ty hvs =
     (case map_of (hvs_roundVoteSets hvs) round of
        None \<Rightarrow> Ok None
      | Some rvs \<Rightarrow>
          if ty = VoteTypePrevote then Ok (Some (rvs_Prevotes rvs))
          else if ty = VoteTypePrecommit then Ok (Some (rvs_Precommits rvs))
          else Panic (''Unexpected vote type '' @ (if ty < 16 then tl (fmt_X [ty]) else fmt_X [ty])))"

definition put_vote_set :: "int \<Rightarrow> byte \<Rightarrow> VoteSet \<Rightarrow> HeightVoteSet \<Rightarrow> HeightVoteSet" where
  "put_vote_set round ty voteSet hvs =
     (case map_of (hvs_roundVoteSets hvs) round of
        None \<Rightarrow> hvs
      | Some rvs \<Rightarrow> hvs\<lparr> hvs_roundVoteSets := AList.update round
          (if ty = VoteTypePrevote then rvs\<lparr> rvs_Prevotes := voteSet \<rparr> else rvs\<lparr> rvs_Precommits := voteSet \<rparr>)
          (hvs_roundVoteSets hvs) \<rparr>)"

definition hvs_AddByIndex ::
  "wire_env \<Rightarrow> string \<Rightarrow> int \<Rightarrow> Vote \<Rightarrow> string \<Rightarrow> HeightVoteSet \<Rightarrow> (HeightVoteSet \<times> bool \<times> bytes \<times> vote_error option) outcome" where
  "hvs_AddByIndex W chainID valIndex vote peerKey hvs =
     obind (getVoteSet (vote_Round vote) (vote_Type vote) hvs) (\<lambda>vs.
       case vs of
         None \<Rightarrow>
           (if map_of (hvs_peerCatchupRounds hvs) peerKey = None
            then obind (addRound (vote_Round vote) hvs) (\<lambda>hvs'.
                   Ok (hvs'\<lparr> hvs_peerCatchupRounds := AList.update peerKey (vote_Round vote) (hvs_peerCatchupRounds hvs') \<rparr>,
                       False, [], None))
            else Ok (hvs, False, [], None))
       | Some voteSet \<Rightarrow>
           obind (vos_AddByIndex W chainID valIndex vote voteSet) (\<lambda>(voteSet', added, address, e).
             Ok (put_vote_set (vote_Round vote) (vote_Type vote) voteSet' hvs, added, address, e)))"

definition hvs_Prevotes :: "int \<Rightarrow> HeightVoteSet \<Rightarrow> VoteSet option outcome" where
  "hvs_Prevotes round hvs = getVoteSet round VoteTypePrevote hvs"

definition hvs_Precommits :: "int \<Rightarrow> HeightVoteSet \<Rightarrow> VoteSet option outcome" where
  "hvs_Precommits round hvs = getVoteSet round VoteTypePrecommit hvs"

primrec pol_loop :: "int list \<Rightarrow> HeightVoteSet \<Rightarrow> int outcome" where
  "pol_loop [] hvs = Ok (-1)"
| "pol_loop (r # rs) hvs =
     obind (getVoteSet r VoteTypePrevote hvs) (\<lambda>vs. if HasTwoThirdsMajority vs then Ok r else pol_loop rs hvs)"

definition POLRound :: "HeightVoteSet \<Rightarrow> int outcome" where
  "POLRound hvs = pol_loop (rev [0..hvs_round hvs]) hvs"

section \<open>The invariant\<close>

definition round_ok :: "wire_env \<Rightarrow> string \<Rightarrow> HeightVoteSet \<Rightarrow> int \<Rightarrow> RoundVoteSet \<Rightarrow> bool" where
  "round_ok W chainID hvs r rvs \<longleftrightarrow>
     (\<forall>(vs, ty) \<in> {(rvs_Prevotes rvs, VoteTypePrevote), (rvs_Precommits rvs, VoteTypePrecommit)}.
        vote_set_ok W chainID vs \<and> vos_height vs = hvs_height hvs \<and> vos_round vs = r \<and> vos_type vs = ty \<and>
        vals_of vs = Validators (hvs_valSet hvs))"

definition hvs_ok :: "wire_env \<Rightarrow> string \<Rightarrow> HeightVoteSet \<Rightarrow> bool" where
  "hvs_ok W chainID hvs \<longleftrightarrow> hvs_height hvs \<noteq> 0 \<and> vals_ok (hvs_valSet hvs) \<and> 0 \<le> hvs_round hvs \<and> hvs_round hvs < MaxInt64 \<and>
     gomap_ok (hvs_roundVoteSets hvs) \<and> gomap_ok (hvs_peerCatchupRounds hvs) \<and>
     {0..hvs_round hvs} \<subseteq> keys (hvs_roundVoteSets hvs) \<and>
     keys (hvs_roundVoteSets hvs) \<subseteq> {0..hvs_round hvs} \<union> ran (map_of (hvs_peerCatchupRounds hvs)) \<and>
     (\<forall>r rvs. map_of (hvs_roundVoteSets hvs) r = Some rvs \<longrightarrow> round_ok W chainID hvs r rvs)"

text \<open>What rounds have, without the relation between rounds and peers.\<close>

definition rounds_ok :: "wire_env \<Rightarrow> string \<Rightarrow> HeightVoteSet \<Rightarrow> bool" where
  "rounds_ok W chainID hvs \<longleftrightarrow> hvs_height hvs \<noteq> 0 \<and> vals_ok (hvs_valSet hvs) \<and> gomap_ok (hvs_roundVoteSets hvs) \<and>
     (\<forall>r rvs. map_of (hvs_roundVoteSets hvs) r = Some rvs \<longrightarrow> round_ok W chainID hvs r rvs)"

lemma keys_map_of: "r \<in> keys m \<longleftrightarrow> map_of m r \<noteq> None"
  by (simp add: keys_def map_of_eq_None_iff)

lemma addRound_ok:
  assumes "rounds_ok W chainID hvs" "r \<notin> keys (hvs_roundVoteSets hvs)"
  shows "\<exists>rvs. addRound r hvs = Ok (hvs\<lparr> hvs_roundVoteSets := AList.update r rvs (hvs_roundVoteSets hvs) \<rparr>) \<and>
    rounds_ok W chainID (hvs\<lparr> hvs_roundVoteSets := AList.update r rvs (hvs_roundVoteSets hvs) \<rparr>) \<and>
    vos_votes (rvs_Prevotes rvs) = replicate (vs_Size (hvs_valSet hvs)) None \<and>
    vos_votes (rvs_Precommits rvs) = replicate (vs_Size (hvs_valSet hvs)) None"
proof -
  have h: "vals_ok (hvs_valSet hvs)" "hvs_height hvs \<noteq> 0" using assms(1) by (auto simp: rounds_ok_def)
  obtain p c where p: "NewVoteSet (hvs_height hvs) r VoteTypePrevote (hvs_valSet hvs) = Ok p"
      "vote_set_ok W chainID p" "vos_valSet p = hvs_valSet hvs" "vos_type p = VoteTypePrevote" "vos_height p = hvs_height hvs"
      "vos_round p = r" "vos_votes p = replicate (vs_Size (hvs_valSet hvs)) None"
    and c: "NewVoteSet (hvs_height hvs) r VoteTypePrecommit (hvs_valSet hvs) = Ok c"
      "vote_set_ok W chainID c" "vos_valSet c = hvs_valSet hvs" "vos_type c = VoteTypePrecommit" "vos_height c = hvs_height hvs"
      "vos_round c = r" "vos_votes c = replicate (vs_Size (hvs_valSet hvs)) None"
    using NewVoteSet_ok [OF h] by metis
  have "addRound r hvs = Ok (hvs\<lparr> hvs_roundVoteSets := AList.update r \<lparr> rvs_Prevotes = p, rvs_Precommits = c \<rparr> (hvs_roundVoteSets hvs) \<rparr>)"
    using assms(2) p(1) c(1) by (simp add: addRound_def keys_map_of)
  then show ?thesis using assms(1) p c
    by (intro exI [of _ "\<lparr> rvs_Prevotes = p, rvs_Precommits = c \<rparr>"]) (auto simp: rounds_ok_def round_ok_def)
qed

lemma add_rounds_ok:
  assumes "rounds_ok W chainID hvs"
  shows "\<exists>m. add_rounds rs hvs = Ok (hvs\<lparr> hvs_roundVoteSets := m \<rparr>) \<and> rounds_ok W chainID (hvs\<lparr> hvs_roundVoteSets := m \<rparr>) \<and>
    keys m = keys (hvs_roundVoteSets hvs) \<union> set rs"
  using assms
proof (induction rs arbitrary: hvs)
  case Nil
  then show ?case by (intro exI [of _ "hvs_roundVoteSets hvs"]) simp
next
  case (Cons r rs)
  show ?case
  proof (cases "r \<in> keys (hvs_roundVoteSets hvs)")
    case True
    then show ?thesis using Cons.IH [OF Cons.prems] by (auto simp: keys_map_of)
  next
    case False
    obtain rvs where a: "addRound r hvs = Ok (hvs\<lparr> hvs_roundVoteSets := AList.update r rvs (hvs_roundVoteSets hvs) \<rparr>)"
      "rounds_ok W chainID (hvs\<lparr> hvs_roundVoteSets := AList.update r rvs (hvs_roundVoteSets hvs) \<rparr>)"
      using addRound_ok [OF Cons.prems False] by blast
    then show ?thesis using Cons.IH [OF a(2)] False by (auto simp: keys_map_of)
  qed
qed

lemma rounds_of_hvs: "hvs_ok W chainID hvs \<Longrightarrow> rounds_ok W chainID hvs"
  by (simp add: hvs_ok_def rounds_ok_def)

lemma rounds_ok_round [simp]: "rounds_ok W chainID (hvs\<lparr> hvs_round := r \<rparr>) = rounds_ok W chainID hvs"
  by (simp add: rounds_ok_def round_ok_def)

lemma rounds_ok_peers [simp]: "rounds_ok W chainID (hvs\<lparr> hvs_peerCatchupRounds := m \<rparr>) = rounds_ok W chainID hvs"
  by (simp add: rounds_ok_def round_ok_def)

lemma hvs_okI:
  assumes "rounds_ok W chainID hvs" "0 \<le> hvs_round hvs" "hvs_round hvs < MaxInt64" "gomap_ok (hvs_peerCatchupRounds hvs)"
    "{0..hvs_round hvs} \<subseteq> keys (hvs_roundVoteSets hvs)"
    "keys (hvs_roundVoteSets hvs) \<subseteq> {0..hvs_round hvs} \<union> ran (map_of (hvs_peerCatchupRounds hvs))"
  shows "hvs_ok W chainID hvs"
  using assms by (auto simp: hvs_ok_def rounds_ok_def)

lemma NewHeightVoteSet_ok:
  assumes "height \<noteq> 0" "vals_ok vs"
  shows "\<exists>hvs. NewHeightVoteSet height vs = Ok hvs \<and> hvs_ok W chainID hvs \<and> hvs_round hvs = 0 \<and> hvs_peerCatchupRounds hvs = []"
proof -
  let ?h = "\<lparr> hvs_height = height, hvs_valSet = vs, hvs_round = 0, hvs_roundVoteSets = [], hvs_peerCatchupRounds = [] \<rparr>"
  have "rounds_ok W chainID ?h" using assms by (simp add: rounds_ok_def)
  then obtain rvs where a: "addRound 0 ?h = Ok (?h\<lparr> hvs_roundVoteSets := [(0, rvs)] \<rparr>)" "rounds_ok W chainID (?h\<lparr> hvs_roundVoteSets := [(0, rvs)] \<rparr>)"
    using addRound_ok [of W chainID ?h 0] by (auto simp: keys_def)
  have "hvs_ok W chainID (?h\<lparr> hvs_roundVoteSets := [(0, rvs)] \<rparr>)"
    by (rule hvs_okI) (use a(2) in \<open>simp_all add: keys_def int64_simps\<close>)
  with a(1) show ?thesis by (simp add: NewHeightVoteSet_def)
qed

lemma SetRound_ok:
  assumes "hvs_ok W chainID hvs" "hvs_round hvs < r \<or> hvs_round hvs = 0 \<and> 0 \<le> r" "r < MaxInt64"
  shows "\<exists>hvs'. SetRound r hvs = Ok hvs' \<and> hvs_ok W chainID hvs' \<and> hvs_round hvs' = r"
proof -
  have b: "0 \<le> hvs_round hvs" "hvs_round hvs < MaxInt64" using assms(1) by (auto simp: hvs_ok_def)
  then have w: "wrap64 (hvs_round hvs + 1) = hvs_round hvs + 1" by (simp add: int64_simps)
  obtain m where m: "add_rounds [hvs_round hvs + 1..r] hvs = Ok (hvs\<lparr> hvs_roundVoteSets := m \<rparr>)"
    "rounds_ok W chainID (hvs\<lparr> hvs_roundVoteSets := m \<rparr>)" "keys m = keys (hvs_roundVoteSets hvs) \<union> {hvs_round hvs + 1..r}"
    using add_rounds_ok [OF rounds_of_hvs [OF assms(1)], of "[hvs_round hvs + 1..r]"] by auto
  have k: "{0..hvs_round hvs} \<subseteq> keys (hvs_roundVoteSets hvs)"
    "keys (hvs_roundVoteSets hvs) \<subseteq> {0..hvs_round hvs} \<union> ran (map_of (hvs_peerCatchupRounds hvs))"
    using assms(1) by (simp_all add: hvs_ok_def)
  have "hvs_ok W chainID (hvs\<lparr> hvs_roundVoteSets := m, hvs_round := r \<rparr>)"
    by (rule hvs_okI) (use m k assms b in \<open>auto simp: hvs_ok_def\<close>)
  then show ?thesis using m(1) w assms(2) by (auto simp: SetRound_def)
qed

lemma put_vote_set_ok:
  assumes "hvs_ok W chainID hvs" "getVoteSet r ty hvs = Ok (Some vs)" "vote_set_ok W chainID vs'" "grown vs vs'"
  shows "hvs_ok W chainID (put_vote_set r ty vs' hvs)"
proof -
  obtain rvs where rvs: "map_of (hvs_roundVoteSets hvs) r = Some rvs"
    and ty: "ty = VoteTypePrevote \<and> vs = rvs_Prevotes rvs \<or> ty = VoteTypePrecommit \<and> vs = rvs_Precommits rvs"
    using assms(2) by (auto simp: getVoteSet_def split: option.splits if_splits)
  let ?rvs = "if ty = VoteTypePrevote then rvs\<lparr> rvs_Prevotes := vs' \<rparr> else rvs\<lparr> rvs_Precommits := vs' \<rparr>"
  have "round_ok W chainID hvs r rvs" using assms(1) rvs by (simp add: hvs_ok_def)
  then have "round_ok W chainID hvs r ?rvs"
    using ty assms(3,4) by (auto simp: round_ok_def grown_def VoteTypePrevote_def VoteTypePrecommit_def)
  then have "rounds_ok W chainID (hvs\<lparr> hvs_roundVoteSets := AList.update r ?rvs (hvs_roundVoteSets hvs) \<rparr>)"
    using rounds_of_hvs [OF assms(1)] by (auto simp: rounds_ok_def round_ok_def)
  moreover have "insert r (keys (hvs_roundVoteSets hvs)) = keys (hvs_roundVoteSets hvs)"
    using rvs by (auto simp: keys_map_of)
  ultimately have "hvs_ok W chainID (hvs\<lparr> hvs_roundVoteSets := AList.update r ?rvs (hvs_roundVoteSets hvs) \<rparr>)"
    by (intro hvs_okI) (use assms(1) in \<open>simp_all add: hvs_ok_def\<close>)
  then show ?thesis by (simp add: put_vote_set_def rvs)
qed

lemma AddByIndex_hvs_ok:
  assumes "hvs_ok W chainID hvs" "hvs_AddByIndex W chainID i vote peer hvs = Ok (hvs', res)"
  shows "hvs_ok W chainID hvs'"
proof -
  let ?r = "vote_Round vote"
  obtain vs where g: "getVoteSet ?r (vote_Type vote) hvs = Ok vs" using assms(2) by (auto simp: hvs_AddByIndex_def obind_eq_Ok)
  show ?thesis
  proof (cases vs)
    case (Some voteSet)
    then obtain voteSet' res' where add: "vos_AddByIndex W chainID i vote voteSet = Ok (voteSet', res')"
      and h: "hvs' = put_vote_set ?r (vote_Type vote) voteSet' hvs"
      using assms(2) g by (auto simp: hvs_AddByIndex_def obind_eq_Ok)
    have ok: "vote_set_ok W chainID voteSet"
      using g Some assms(1) by (fastforce simp: getVoteSet_def hvs_ok_def round_ok_def split: option.splits if_splits)
    have "0 \<le> i \<and> i < int (length (vals_of voteSet))"
      using add AddByIndex_outside [of i voteSet] by (cases "0 \<le> i \<and> i < int (length (vals_of voteSet))") auto
    then have "vote_set_ok W chainID voteSet'" "grown voteSet voteSet'" using AddByIndex_ok [OF ok, of i vote] add by auto
    then show ?thesis unfolding h using put_vote_set_ok [OF assms(1)] g Some by simp
  next
    case None
    then have r: "?r \<notin> keys (hvs_roundVoteSets hvs)"
      using g by (auto simp: getVoteSet_def keys_map_of split: option.splits if_splits)
    show ?thesis
    proof (cases "map_of (hvs_peerCatchupRounds hvs) peer")
      case (Some x)
      then show ?thesis using assms g None by (simp add: hvs_AddByIndex_def)
    next
      case fresh: None
      obtain rvs where a: "addRound ?r hvs = Ok (hvs\<lparr> hvs_roundVoteSets := AList.update ?r rvs (hvs_roundVoteSets hvs) \<rparr>)"
        "rounds_ok W chainID (hvs\<lparr> hvs_roundVoteSets := AList.update ?r rvs (hvs_roundVoteSets hvs) \<rparr>)"
        using addRound_ok [OF rounds_of_hvs [OF assms(1)] r] by blast
      let ?h = "hvs\<lparr> hvs_roundVoteSets := AList.update ?r rvs (hvs_roundVoteSets hvs),
          hvs_peerCatchupRounds := AList.update peer ?r (hvs_peerCatchupRounds hvs) \<rparr>"
      have "hvs_ok W chainID ?h"
        by (rule hvs_okI) (use a(2) assms(1) fresh in \<open>auto simp: hvs_ok_def ran_map_upd\<close>)
      then show ?thesis using assms(2) g None fresh a(1) by (simp add: hvs_AddByIndex_def)
    qed
  qed
qed

lemma tracked_round:
  assumes "hvs_ok W chainID hvs" "r \<in> {0..hvs_round hvs}"
  shows "\<exists>rvs. map_of (hvs_roundVoteSets hvs) r = Some rvs \<and> round_ok W chainID hvs r rvs"
proof -
  have "r \<in> keys (hvs_roundVoteSets hvs)" using assms by (auto simp: hvs_ok_def)
  then obtain rvs where "map_of (hvs_roundVoteSets hvs) r = Some rvs" by (auto simp: keys_map_of)
  then show ?thesis using assms(1) by (auto simp: hvs_ok_def)
qed

section \<open>Properties\<close>

inductive hvs_step :: "wire_env \<Rightarrow> string \<Rightarrow> HeightVoteSet \<Rightarrow> HeightVoteSet \<Rightarrow> bool" for W chainID where
  set_round: "SetRound r hvs = Ok hvs' \<Longrightarrow> 0 \<le> r \<Longrightarrow> r < MaxInt64 \<Longrightarrow> hvs_step W chainID hvs hvs'"
| add_vote: "hvs_AddByIndex W chainID i vote peer hvs = Ok (hvs', res) \<Longrightarrow> hvs_step W chainID hvs hvs'"

lemma hvs_step_ok: "hvs_step W chainID hvs hvs' \<Longrightarrow> hvs_ok W chainID hvs \<Longrightarrow> hvs_ok W chainID hvs'"
proof (induction rule: hvs_step.induct)
  case (set_round r hvs hvs')
  have "wrap64 (hvs_round hvs + 1) = hvs_round hvs + 1" using set_round.prems by (simp add: hvs_ok_def int64_simps)
  then have "hvs_round hvs < r \<or> hvs_round hvs = 0 \<and> 0 \<le> r"
    using set_round.hyps by (auto simp: SetRound_def split: if_splits)
  then show ?case using SetRound_ok [OF set_round.prems _ set_round.hyps(3)] set_round.hyps(1) by auto
qed (rule AddByIndex_hvs_ok)

lemma hvs_steps_ok: "(hvs_step W chainID)\<^sup>*\<^sup>* hvs hvs' \<Longrightarrow> hvs_ok W chainID hvs \<Longrightarrow> hvs_ok W chainID hvs'"
  by (induction rule: rtranclp_induct) (auto intro: hvs_step_ok)

text \<open>
  C34: However rounds advance and whatever votes peers send, the vote sets of all rounds up to the
  current one are there, each with votes of its own height, round and type that are signed by their validator,
  and beyond the current round there is at most one round for each peer that sent a vote.
\<close>

theorem tracked_rounds_bounded:
  assumes "vals_ok vs" "NewHeightVoteSet height vs = Ok h0" "(hvs_step W chainID)\<^sup>*\<^sup>* h0 hvs"
  shows "int (length (hvs_roundVoteSets hvs)) \<le> hvs_round hvs + 1 + int (length (hvs_peerCatchupRounds hvs)) \<and>
    (\<forall>r \<in> {0..hvs_round hvs}. \<exists>rvs. map_of (hvs_roundVoteSets hvs) r = Some rvs \<and> round_ok W chainID hvs r rvs)"
proof -
  have "height \<noteq> 0" using assms(2) by (auto simp: NewHeightVoteSet_def addRound_def NewVoteSet_def)
  then have "hvs_ok W chainID h0" using NewHeightVoteSet_ok [OF _ assms(1), of height W chainID] assms(2) by auto
  then have ok: "hvs_ok W chainID hvs" using hvs_steps_ok [OF assms(3)] by blast
  then have g: "gomap_ok (hvs_roundVoteSets hvs)" "gomap_ok (hvs_peerCatchupRounds hvs)" "0 \<le> hvs_round hvs"
    "keys (hvs_roundVoteSets hvs) \<subseteq> {0..hvs_round hvs} \<union> ran (map_of (hvs_peerCatchupRounds hvs))"
    by (simp_all add: hvs_ok_def)
  let ?peers = "map_of (hvs_peerCatchupRounds hvs)"
  have fin: "finite (ran ?peers)" by (rule finite_ran [OF finite_dom_map_of])
  have "ran ?peers = (\<lambda>p. the (?peers p)) ` dom ?peers" by (auto simp: ran_def dom_def image_iff) (metis option.sel)+
  then have "card (ran ?peers) \<le> card (dom ?peers)" by (metis card_image_le finite_dom_map_of)
  also have "\<dots> = length (hvs_peerCatchupRounds hvs)" using length_gomap [OF g(2)] by (simp add: keys_def dom_map_of_conv_image_fst)
  finally have p: "card (ran ?peers) \<le> length (hvs_peerCatchupRounds hvs)" .
  have "length (hvs_roundVoteSets hvs) = card (keys (hvs_roundVoteSets hvs))" using length_gomap [OF g(1)] .
  also have "\<dots> \<le> card ({0..hvs_round hvs} \<union> ran ?peers)" by (rule card_mono [OF _ g(4)]) (simp add: fin)
  also have "\<dots> \<le> card {0..hvs_round hvs} + card (ran ?peers)" by (rule card_Un_le)
  finally have "int (length (hvs_roundVoteSets hvs)) \<le> hvs_round hvs + 1 + int (length (hvs_peerCatchupRounds hvs))"
    using p g(3) by simp
  moreover have "\<exists>rvs. map_of (hvs_roundVoteSets hvs) r = Some rvs \<and> round_ok W chainID hvs r rvs" if "r \<in> {0..hvs_round hvs}" for r
    using tracked_round [OF ok that] .
  ultimately show ?thesis by blast
qed

theorem tracked_rounds_bounded_witness:
  "\<exists>h0 h1. NewHeightVoteSet 1 sample_set = Ok h0 \<and> SetRound 2 h0 = Ok h1 \<and> hvs_peerCatchupRounds h1 = [] \<and>
     length (hvs_roundVoteSets h1) \<le> 3 \<and> map_of (hvs_roundVoteSets h1) 1 \<noteq> None"
proof -
  obtain h0 where h0: "NewHeightVoteSet 1 sample_set = Ok h0" "hvs_ok sample_keys ''c'' h0" "hvs_round h0 = 0" "hvs_peerCatchupRounds h0 = []"
    using NewHeightVoteSet_ok [OF _ sample_vals_ok, of 1 sample_keys "''c''"] by auto
  obtain h1 where h1: "SetRound 2 h0 = Ok h1" "hvs_round h1 = 2" using SetRound_ok [OF h0(2), of 2] h0(3) by (auto simp: int64_simps)
  have peers: "hvs_peerCatchupRounds h' = hvs_peerCatchupRounds h" if "add_rounds rs h = Ok h'" for rs h h'
    using that by (induction rs arbitrary: h) (fastforce simp: addRound_def obind_eq_Ok split: if_splits)+
  have e: "hvs_peerCatchupRounds h1 = []"
    using h1(1) h0(4) peers by (fastforce simp: SetRound_def obind_eq_Ok split: if_splits)
  have "(hvs_step sample_keys ''c'')\<^sup>*\<^sup>* h0 h1"
    using h1(1) by (intro r_into_rtranclp set_round) (auto simp: int64_simps)
  from tracked_rounds_bounded [OF sample_vals_ok h0(1) this] show ?thesis
    using h0(1) h1 e by (intro exI [of _ h0] exI [of _ h1]) (fastforce simp: h1(2))
qed

definition prevote_majority :: "HeightVoteSet \<Rightarrow> int \<Rightarrow> bool" where
  "prevote_majority hvs r \<longleftrightarrow> (\<exists>rvs key. map_of (hvs_roundVoteSets hvs) r = Some rvs \<and> majority (rvs_Prevotes rvs) key)"

lemma has_majority_iff: "vote_set_ok W chainID s \<Longrightarrow> HasTwoThirdsMajority (Some s) \<longleftrightarrow> (\<exists>key. majority s key)"
  by (auto simp: HasTwoThirdsMajority_def vote_set_ok_def maj23_ok_def split: if_splits)

lemma prevotes_read:
  assumes "hvs_ok W chainID hvs"
  shows "\<exists>vs. getVoteSet r VoteTypePrevote hvs = Ok vs \<and> HasTwoThirdsMajority vs = prevote_majority hvs r"
proof (cases "map_of (hvs_roundVoteSets hvs) r")
  case None
  then show ?thesis by (simp add: getVoteSet_def prevote_majority_def HasTwoThirdsMajority_def)
next
  case (Some rvs)
  then have "vote_set_ok W chainID (rvs_Prevotes rvs)" using assms by (auto simp: hvs_ok_def round_ok_def)
  then show ?thesis using Some has_majority_iff by (simp add: getVoteSet_def prevote_majority_def)
qed

lemma pol_loop_first:
  assumes "hvs_ok W chainID hvs"
  shows "pol_loop rs hvs = Ok (case find (prevote_majority hvs) rs of None \<Rightarrow> -1 | Some r \<Rightarrow> r)"
proof (induction rs)
  case (Cons r rs)
  then show ?case using prevotes_read [OF assms, of r] by auto
qed simp

text \<open>
  \<open>POLRound\<close> returns the last round, up to the current one, in which prevotes for one key have
  more than two thirds of the voting power, and -1 when there is none.
\<close>

theorem POLRound_is_last_majority:
  assumes "hvs_ok W chainID hvs"
  shows "\<exists>r. POLRound hvs = Ok r \<and>
    (if \<exists>r' \<in> {0..hvs_round hvs}. prevote_majority hvs r'
     then r \<in> {0..hvs_round hvs} \<and> prevote_majority hvs r \<and> (\<forall>r' \<in> {r<..hvs_round hvs}. \<not> prevote_majority hvs r')
     else r = -1)"
proof -
  have dom: "set (rev [0..hvs_round hvs]) = {0..hvs_round hvs}" by simp
  have dec: "sorted_wrt (>) (rev [0..hvs_round hvs])" by (simp add: sorted_wrt_rev sorted_wrt_upto)
  show ?thesis
  proof (cases "find (prevote_majority hvs) (rev [0..hvs_round hvs])")
    case None
    then have "\<not> (\<exists>r' \<in> {0..hvs_round hvs}. prevote_majority hvs r')"
      using dom by (metis find_None_iff)
    then show ?thesis using None pol_loop_first [OF assms] by (simp add: POLRound_def)
  next
    case (Some r)
    let ?l = "rev [0..hvs_round hvs]"
    obtain i where i: "i < length ?l" "prevote_majority hvs (?l ! i)" "r = ?l ! i" "\<forall>j<i. \<not> prevote_majority hvs (?l ! j)"
      using Some unfolding find_Some_iff by blast
    have r: "r \<in> {0..hvs_round hvs}" using i(1,3) dom nth_mem [OF i(1)] by simp
    have "\<not> prevote_majority hvs r'" if "r' \<in> {r<..hvs_round hvs}" for r'
    proof -
      have "r' \<in> set ?l" using that r by auto
      then obtain j where j: "j < length ?l" "?l ! j = r'" unfolding in_set_conv_nth by blast
      have "j < i" using sorted_wrt_nth_less [OF dec, of i j] i(1,3) j that by (cases i j rule: linorder_cases) auto
      then show ?thesis using i(4) j(2) by auto
    qed
    then show ?thesis using Some pol_loop_first [OF assms] r i(2,3) by (auto simp: POLRound_def)
  qed
qed

text \<open>
  The first vote of a peer for a round that is not tracked is lost: the round is made, but the
  vote is not added to it, and the caller sees neither an addition nor an error. Nobody looks at the
  vote, so it need not be signed.
\<close>

theorem first_catchup_vote_lost:
  assumes "hvs_ok W chainID hvs" "vote_Round vote \<notin> keys (hvs_roundVoteSets hvs)" "map_of (hvs_peerCatchupRounds hvs) peer = None"
  shows "\<exists>hvs' vs ps. hvs_AddByIndex W chainID i vote peer hvs = Ok (hvs', False, [], None) \<and>
    hvs_Precommits (vote_Round vote) hvs' = Ok (Some vs) \<and> set (vos_votes vs) \<subseteq> {None} \<and>
    hvs_Prevotes (vote_Round vote) hvs' = Ok (Some ps) \<and> set (vos_votes ps) \<subseteq> {None}"
proof -
  let ?r = "vote_Round vote"
  obtain rvs where a: "addRound ?r hvs = Ok (hvs\<lparr> hvs_roundVoteSets := AList.update ?r rvs (hvs_roundVoteSets hvs) \<rparr>)"
    "vos_votes (rvs_Prevotes rvs) = replicate (vs_Size (hvs_valSet hvs)) None"
    "vos_votes (rvs_Precommits rvs) = replicate (vs_Size (hvs_valSet hvs)) None"
    using addRound_ok [OF rounds_of_hvs [OF assms(1)] assms(2)] by blast
  have "getVoteSet ?r (vote_Type vote) hvs = Ok None" using assms(2) by (simp add: getVoteSet_def keys_map_of)
  then show ?thesis using a assms(3)
    by (simp add: hvs_AddByIndex_def hvs_Precommits_def hvs_Prevotes_def getVoteSet_def VoteTypePrevote_def VoteTypePrecommit_def
      set_replicate_conv_if)
qed

theorem first_catchup_vote_lost_witness:
  "\<exists>h0 h1 vs. NewHeightVoteSet 1 sample_set = Ok h0 \<and>
     hvs_AddByIndex sample_keys ''c'' 0 (sample_vote\<lparr> vote_Round := 5 \<rparr>) ''peer'' h0 = Ok (h1, False, [], None) \<and>
     hvs_Precommits 5 h1 = Ok (Some vs) \<and> set (vos_votes vs) \<subseteq> {None}"
proof -
  obtain h0 where h0: "NewHeightVoteSet 1 sample_set = Ok h0" "hvs_ok sample_keys ''c'' h0" "hvs_round h0 = 0" "hvs_peerCatchupRounds h0 = []"
    using NewHeightVoteSet_ok [OF _ sample_vals_ok, of 1 sample_keys "''c''"] by auto
  have "5 \<notin> keys (hvs_roundVoteSets h0)" using h0(2-4) by (auto simp: hvs_ok_def)
  then show ?thesis using first_catchup_vote_lost [OF h0(2), of "sample_vote\<lparr> vote_Round := 5 \<rparr>" "''peer''" 0] h0(1,4) by auto
qed

theorem POLRound_is_last_majority_witness:
  "\<exists>h0. NewHeightVoteSet 1 sample_set = Ok h0 \<and> hvs_ok sample_keys ''c'' h0 \<and> (\<exists>r. POLRound h0 = Ok r \<and> r \<in> {-1, 0})"
proof -
  obtain h0 where h0: "NewHeightVoteSet 1 sample_set = Ok h0" "hvs_ok sample_keys ''c'' h0" "hvs_round h0 = 0"
    using NewHeightVoteSet_ok [OF _ sample_vals_ok, of 1 sample_keys "''c''"] by auto
  show ?thesis using POLRound_is_last_majority [OF h0(2)] h0 by (intro exI [of _ h0]) (auto split: if_splits)
qed

text \<open>A vote of an unknown type for a tracked round panics.\<close>

lemma unknown_type_panics:
  assumes "hvs_ok W chainID hvs" "vote_Round vote \<in> {0..hvs_round hvs}" "vote_Type vote \<notin> {VoteTypePrevote, VoteTypePrecommit}"
  shows "\<exists>msg. hvs_AddByIndex W chainID i vote peer hvs = Panic msg"
  using tracked_round [OF assms(1,2)] assms(3) by (auto simp: hvs_AddByIndex_def getVoteSet_def)

end
