(* ===== verification/Priv_Validator.thy ===== *)
theory Priv_Validator
  imports Validator_Set Height_Vote_Set
begin

text \<open>
  The signing key of a validator (the vendored \<open>types/priv_validator.go\<close>, with \<open>types/proposal.go\<close> and
  \<open>WriteFileAtomic\<close> of \<open>common/os.go\<close>). The height, round and step of the last signature are
  written to a file before each signature is given out, so that a restarted node does not sign against
  itself.

  A system call can fail or the process can die in it (\<open>fault\<close>), leaving a prefix of what was to be
  written; renaming a file is atomic. The signer and the JSON codec of the file are parameters.
\<close>

section \<open>Files\<close>

type_synonym file_disk = "string \<rightharpoonup> bytes"

datatype fault = Fine | Fails nat | Dies nat

datatype 'a run = Done 'a | Error string | Panics string | Died

definition os_WriteFile :: "fault \<Rightarrow> string \<Rightarrow> bytes \<Rightarrow> file_disk \<Rightarrow> file_disk \<times> unit run" where
  "os_WriteFile f path bs d =
     (case f of
        Fine \<Rightarrow> (d(path \<mapsto> bs), Done ())
      | Fails n \<Rightarrow> (if n = 0 then d else d(path \<mapsto> take (n - 1) bs), Error ''write error'')
      | Dies n \<Rightarrow> (if n = 0 then d else d(path \<mapsto> take (n - 1) bs), Died))"

definition os_Rename :: "fault \<Rightarrow> string \<Rightarrow> string \<Rightarrow> file_disk \<Rightarrow> file_disk \<times> unit run" where
  "os_Rename f old new d =
     (case f of
        Fine \<Rightarrow> (d(new := d old, old := None), Done ())
      | Fails n \<Rightarrow> (d, Error ''rename error'')
      | Dies n \<Rightarrow> (if n = 0 then d else d(new := d old, old := None), Died))"

definition then_run :: "file_disk \<times> unit run \<Rightarrow> (file_disk \<Rightarrow> file_disk \<times> 'a run) \<Rightarrow> file_disk \<times> 'a run" where
  "then_run r k =
     (case r of
        (d, Done _) \<Rightarrow> k d
      | (d, Error e) \<Rightarrow> (d, Error e)
      | (d, Panics e) \<Rightarrow> (d, Panics e)
      | (d, Died) \<Rightarrow> (d, Died))"

text \<open>
  The system calls of \<open>WriteFileAtomic\<close> are numbered: \<open>Stat\<close>, reading, writing the backup, writing the
  new file, renaming. A \<open>Stat\<close> that fails counts as a file that is there.
\<close>

definition backup_file :: "(nat \<Rightarrow> fault) \<Rightarrow> string \<Rightarrow> file_disk \<Rightarrow> file_disk \<times> unit run" where
  "backup_file f path d =
     (case f 0 of
        Dies _ \<Rightarrow> (d, Died)
      | st \<Rightarrow>
          if st = Fine \<and> d path = None then (d, Done ())
          else (case (f 1, d path) of
                  (Dies _, _) \<Rightarrow> (d, Died)
                | (Fine, Some bs) \<Rightarrow>
                    (case os_WriteFile (f 2) (path @ ''.bak'') bs d of
                       (d', Error e) \<Rightarrow> (d', Error (''Could not write file '' @ path @ ''.bak. '' @ e))
                     | r \<Rightarrow> r)
                | _ \<Rightarrow> (d, Error (''Could not read file '' @ path @ ''. ''))))"

definition WriteFileAtomic :: "(nat \<Rightarrow> fault) \<Rightarrow> string \<Rightarrow> bytes \<Rightarrow> file_disk \<Rightarrow> file_disk \<times> unit run" where
  "WriteFileAtomic f path newBytes d =
     then_run (backup_file f path d) (\<lambda>d1.
       then_run (case os_WriteFile (f 3) (path @ ''.new'') newBytes d1 of
                   (d', Error e) \<Rightarrow> (d', Error (''Could not write file '' @ path @ ''.new. '' @ e))
                 | r \<Rightarrow> r)
         (os_Rename (f 4) (path @ ''.new'') path))"

section \<open>The validator\<close>

definition stepNone :: int where "stepNone = 0"
definition stepPropose :: int where "stepPropose = 1"
definition stepPrevote :: int where "stepPrevote = 2"
definition stepPrecommit :: int where "stepPrecommit = 3"

definition voteToStep :: "Vote \<Rightarrow> int outcome" where
  "voteToStep vote =
     (if vote_Type vote = VoteTypePrevote then Ok stepPrevote
      else if vote_Type vote = VoteTypePrecommit then Ok stepPrecommit
      else Panic ''Unknown vote type'')"

record PrivValidator =
  pv_Address :: bytes
  pv_PubKey :: bytes
  pv_LastHeight :: int
  pv_LastRound :: int
  pv_LastStep :: int
  pv_PrivKey :: bytes
  pv_filePath :: string

record pv_env =
  pv_JSON :: "PrivValidator \<Rightarrow> bytes"
  pv_ReadJSON :: "bytes \<Rightarrow> PrivValidator option"
  pv_signer :: "PrivValidator \<Rightarrow> string \<Rightarrow> bytes"

definition GenPrivValidator :: "wire_env \<Rightarrow> bytes \<Rightarrow> PrivValidator" where
  "GenPrivValidator W seed =
     (let pub = MakePublicKey W seed in
      \<lparr> pv_Address = PubKey_Address W pub, pv_PubKey = pub, pv_LastHeight = 0, pv_LastRound = 0,
        pv_LastStep = stepNone, pv_PrivKey = seed @ pub, pv_filePath = [] \<rparr>)"

text \<open>An error ends the process; it is the error of the run.\<close>

definition LoadPrivValidator :: "pv_env \<Rightarrow> string \<Rightarrow> file_disk \<Rightarrow> PrivValidator run" where
  "LoadPrivValidator E path d =
     (case d path of
        None \<Rightarrow> Error ''no such file''
      | Some bs \<Rightarrow>
          (case pv_ReadJSON E bs of
             None \<Rightarrow> Error (''Error reading PrivValidator from '' @ path)
           | Some pv \<Rightarrow> Done (pv\<lparr> pv_filePath := path \<rparr>)))"

definition pv_SetFile :: "string \<Rightarrow> PrivValidator \<Rightarrow> PrivValidator" where
  "pv_SetFile path pv = pv\<lparr> pv_filePath := path \<rparr>"

definition pv_save :: "pv_env \<Rightarrow> (nat \<Rightarrow> fault) \<Rightarrow> PrivValidator \<Rightarrow> file_disk \<Rightarrow> file_disk \<times> unit run" where
  "pv_save E f pv d =
     (if pv_filePath pv = [] then (d, Panics ''Cannot save PrivValidator: filePath not set'')
      else case WriteFileAtomic f (pv_filePath pv) (pv_JSON E pv) d of
             (d', Error e) \<Rightarrow> (d', Panics e)
           | r \<Rightarrow> r)"

definition LoadOrGenPrivValidator ::
  "wire_env \<Rightarrow> pv_env \<Rightarrow> bytes \<Rightarrow> (nat \<Rightarrow> fault) \<Rightarrow> string \<Rightarrow> file_disk \<Rightarrow> file_disk \<times> PrivValidator run" where
  "LoadOrGenPrivValidator W E seed f path d =
     (if d path \<noteq> None then (d, LoadPrivValidator E path d)
      else let pv = pv_SetFile path (GenPrivValidator W seed) in
           then_run (pv_save E f pv d) (\<lambda>d'. (d', Done pv)))"

text \<open>
  Setting the three fields, saving and signing. The fields are set before the file is written and
  keep their values when that fails.
\<close>

definition save_and_sign ::
  "pv_env \<Rightarrow> (nat \<Rightarrow> fault) \<Rightarrow> int \<times> int \<times> int \<Rightarrow> string \<Rightarrow> PrivValidator \<Rightarrow> file_disk \<Rightarrow> PrivValidator \<times> file_disk \<times> bytes run" where
  "save_and_sign E f hrs msg pv d =
     (case hrs of (h, r, s) \<Rightarrow>
      let pv' = pv\<lparr> pv_LastHeight := h, pv_LastRound := r, pv_LastStep := s \<rparr> in
      case then_run (pv_save E f pv' d) (\<lambda>d'. (d', Done (pv_signer E pv' msg))) of (d', res) \<Rightarrow> (pv', d', res))"

definition SignVote ::
  "pv_env \<Rightarrow> (nat \<Rightarrow> fault) \<Rightarrow> string \<Rightarrow> Vote \<Rightarrow> PrivValidator \<Rightarrow> file_disk \<Rightarrow> PrivValidator \<times> file_disk \<times> Vote run" where
  "SignVote E f chainID vote pv d =
     (if pv_LastHeight pv > vote_Height vote then (pv, d, Error ''Height regression in SignVote'')
      else if pv_LastHeight pv = vote_Height vote \<and> pv_LastRound pv > vote_Round vote
      then (pv, d, Error ''Round regression in SignVote'')
      else case voteToStep vote of
        Ok step \<Rightarrow>
          if pv_LastHeight pv = vote_Height vote \<and> pv_LastRound pv = vote_Round vote \<and> pv_LastStep pv > step
          then (pv, d, Error ''Step regression in SignVote'')
          else (case save_and_sign E f (vote_Height vote, vote_Round vote, step) (Vote_SignBytes chainID vote) pv d of
                  (pv', d', Done sg) \<Rightarrow> (pv', d', Done (vote\<lparr> vote_Signature := sg \<rparr>))
                | (pv', d', Error e) \<Rightarrow> (pv', d', Error e)
                | (pv', d', Panics e) \<Rightarrow> (pv', d', Panics e)
                | (pv', d', Died) \<Rightarrow> (pv', d', Died))
      | Err e \<Rightarrow> (pv, d, Error e)
      | Panic e \<Rightarrow>
          ((if pv_LastHeight pv = vote_Height vote \<and> pv_LastRound pv = vote_Round vote then pv
            else pv\<lparr> pv_LastHeight := vote_Height vote, pv_LastRound := vote_Round vote \<rparr>), d, Panics e))"

definition NewProposal :: "int \<Rightarrow> int \<Rightarrow> PartSetHeader \<Rightarrow> int \<Rightarrow> Proposal" where
  "NewProposal height round header polRound =
     \<lparr> prop_Height = height, prop_Round = round, prop_BlockPartsHeader = header, prop_POLRound = polRound, prop_Signature = [] \<rparr>"

definition Header_WriteSignBytes :: "PartSetHeader \<Rightarrow> string" where
  "Header_WriteSignBytes psh =
     ''{'' @ field ''hash'' @ quote @ fmt_X (psh_Hash psh) @ quote @ '','' @ field ''total'' @ show_int (Total psh) @ ''}''"

definition Proposal_SignBytes :: "string \<Rightarrow> Proposal \<Rightarrow> string" where
  "Proposal_SignBytes chainID p =
     ''{'' @ field ''chain_id'' @ quote @ chainID @ quote @ '','' @ field ''proposal'' @ ''{'' @ field ''block_parts_header'' @
     Header_WriteSignBytes (prop_BlockPartsHeader p) @ '','' @ field ''height'' @ show_int (prop_Height p) @ '','' @
     field ''pol_round'' @ show_int (prop_POLRound p) @ '','' @ field ''round'' @ show_int (prop_Round p) @ ''}}''"

definition SignProposal ::
  "pv_env \<Rightarrow> (nat \<Rightarrow> fault) \<Rightarrow> string \<Rightarrow> Proposal \<Rightarrow> PrivValidator \<Rightarrow> file_disk \<Rightarrow> PrivValidator \<times> file_disk \<times> Proposal run" where
  "SignProposal E f chainID p pv d =
     (if pv_LastHeight pv < prop_Height p \<or> pv_LastHeight pv = prop_Height p \<and> pv_LastRound pv < prop_Round p \<or>
         pv_LastHeight pv = 0 \<and> pv_LastRound pv = 0 \<and> pv_LastStep pv = stepNone
      then (case save_and_sign E f (prop_Height p, prop_Round p, stepPropose) (Proposal_SignBytes chainID p) pv d of
              (pv', d', Done sg) \<Rightarrow> (pv', d', Done (p\<lparr> prop_Signature := sg \<rparr>))
            | (pv', d', Error e) \<Rightarrow> (pv', d', Error e)
            | (pv', d', Panics e) \<Rightarrow> (pv', d', Panics e)
            | (pv', d', Died) \<Rightarrow> (pv', d', Died))
      else (pv, d, Error (''Attempt of duplicate signing of proposal: Height '' @ show_int (prop_Height p) @
                          '', Round '' @ show_int (prop_Round p))))"

definition MaxInt32 :: int where "MaxInt32 = 2147483647"
definition MaxInt8 :: int where "MaxInt8 = 127"

definition SignRebondTx ::
  "wire_env \<Rightarrow> pv_env \<Rightarrow> (nat \<Rightarrow> fault) \<Rightarrow> string \<Rightarrow> RebondTx \<Rightarrow> PrivValidator \<Rightarrow> file_disk \<Rightarrow> PrivValidator \<times> file_disk \<times> RebondTx run" where
  "SignRebondTx W E f chainID tx pv d =
     (if pv_LastHeight pv < rebond_Height tx
      then (case save_and_sign E f (rebond_Height tx, MaxInt32, MaxInt8)
                   (height_sign_bytes W chainID 19 (rebond_Address tx) (rebond_Height tx)) pv d of
              (pv', d', Done sg) \<Rightarrow> (pv', d', Done (tx\<lparr> rebond_Signature := sg \<rparr>))
            | (pv', d', Error e) \<Rightarrow> (pv', d', Error e)
            | (pv', d', Panics e) \<Rightarrow> (pv', d', Panics e)
            | (pv', d', Died) \<Rightarrow> (pv', d', Died))
      else (pv, d, Error (''Attempt of duplicate signing of rebondTx: Height '' @ show_int (rebond_Height tx))))"

section \<open>A validator that crashes and restarts\<close>

datatype signed = SigVote Vote | SigProposal Proposal | SigRebond RebondTx

datatype pv_op =
  OpVote string Vote "nat \<Rightarrow> fault"
| OpProposal string Proposal "nat \<Rightarrow> fault"
| OpRebond string RebondTx "nat \<Rightarrow> fault"
| OpRestart

text \<open>
  The process (\<open>None\<close> when it died), the disk, and what was signed so far. A panic leaves the process
  as it is: it may be recovered, and otherwise a restart follows.
\<close>

type_synonym pv_node = "PrivValidator option \<times> file_disk \<times> signed list"

fun after_sign :: "('a \<Rightarrow> signed) \<Rightarrow> signed list \<Rightarrow> PrivValidator \<times> file_disk \<times> 'a run \<Rightarrow> pv_node" where
  "after_sign g rel (pv, d, Done x) = (Some pv, d, rel @ [g x])"
| "after_sign g rel (pv, d, Died) = (None, d, rel)"
| "after_sign g rel (pv, d, _) = (Some pv, d, rel)"

fun pv_step :: "wire_env \<Rightarrow> pv_env \<Rightarrow> string \<Rightarrow> pv_op \<Rightarrow> pv_node \<Rightarrow> pv_node" where
  "pv_step W E path OpRestart (p, d, rel) =
     (case LoadPrivValidator E path d of Done pv \<Rightarrow> (Some pv, d, rel) | _ \<Rightarrow> (None, d, rel))"
| "pv_step W E path opn (None, d, rel) = (None, d, rel)"
| "pv_step W E path (OpVote c v f) (Some pv, d, rel) = after_sign SigVote rel (SignVote E f c v pv d)"
| "pv_step W E path (OpProposal c p f) (Some pv, d, rel) = after_sign SigProposal rel (SignProposal E f c p pv d)"
| "pv_step W E path (OpRebond c t f) (Some pv, d, rel) = after_sign SigRebond rel (SignRebondTx W E f c t pv d)"

type_synonym hrs = "int \<times> int \<times> int"

fun hrs_le :: "hrs \<Rightarrow> hrs \<Rightarrow> bool" where
  "hrs_le (h, r, s) (h', r', s') \<longleftrightarrow> h < h' \<or> h = h' \<and> (r < r' \<or> r = r' \<and> s \<le> s')"

fun sig_hrs :: "signed \<Rightarrow> hrs" where
  "sig_hrs (SigVote v) = (vote_Height v, vote_Round v, if vote_Type v = VoteTypePrevote then stepPrevote else stepPrecommit)"
| "sig_hrs (SigProposal p) = (prop_Height p, prop_Round p, stepPropose)"
| "sig_hrs (SigRebond t) = (rebond_Height t, MaxInt32, MaxInt8)"

text \<open>What may be signed after something of an earlier height, round and step.\<close>

fun may_follow :: "hrs \<Rightarrow> signed \<Rightarrow> bool" where
  "may_follow a (SigVote v) \<longleftrightarrow> hrs_le a (sig_hrs (SigVote v))"
| "may_follow (h, r, s) (SigProposal p) \<longleftrightarrow> h < prop_Height p \<or> h = prop_Height p \<and> r < prop_Round p"
| "may_follow (h, r, s) (SigRebond t) \<longleftrightarrow> h < rebond_Height t"

lemma hrs_le_trans: "hrs_le a b \<Longrightarrow> hrs_le b c \<Longrightarrow> hrs_le a c"
  by (cases a; cases b; cases c) auto

lemma hrs_le_refl [simp]: "hrs_le a a"
  by (cases a) simp

lemma may_follow_le: "may_follow a g \<Longrightarrow> hrs_le a (sig_hrs g)"
  by (cases a; cases g) auto

lemma may_follow_trans: "hrs_le a b \<Longrightarrow> may_follow b g \<Longrightarrow> may_follow a g"
proof (cases g)
  case (SigVote v)
  then show "hrs_le a b \<Longrightarrow> may_follow b g \<Longrightarrow> may_follow a g" using hrs_le_trans [of a b "sig_hrs g"] by simp
qed (cases a; cases b; auto)+

lemma sig_step_pos: "snd (snd (sig_hrs g)) \<noteq> stepNone"
  by (cases g) (simp_all add: stepNone_def stepPropose_def stepPrevote_def stepPrecommit_def MaxInt8_def)

abbreviation pv_hrs :: "PrivValidator \<Rightarrow> hrs" where
  "pv_hrs pv \<equiv> (pv_LastHeight pv, pv_LastRound pv, pv_LastStep pv)"

definition json_ok :: "pv_env \<Rightarrow> bool" where
  "json_ok E \<longleftrightarrow> (\<forall>pv. pv_ReadJSON E (pv_JSON E pv) = Some (pv\<lparr> pv_filePath := [] \<rparr>))"

definition signed_in_order :: "signed list \<Rightarrow> bool" where
  "signed_in_order rel \<longleftrightarrow> sorted_wrt (\<lambda>a b. may_follow (sig_hrs a) b) rel"

definition file_holds :: "pv_env \<Rightarrow> string \<Rightarrow> file_disk \<Rightarrow> PrivValidator \<Rightarrow> signed list \<Rightarrow> bool" where
  "file_holds E path d saved rel \<longleftrightarrow> d path = Some (pv_JSON E saved) \<and>
     (rel \<noteq> [] \<longrightarrow> pv_LastStep saved \<noteq> stepNone \<and> (\<forall>g \<in> set rel. hrs_le (sig_hrs g) (pv_hrs saved)))"

definition ahead_of :: "string \<Rightarrow> PrivValidator \<Rightarrow> signed list \<Rightarrow> PrivValidator \<Rightarrow> bool" where
  "ahead_of path saved rel pv \<longleftrightarrow> pv_filePath pv = path \<and>
     (rel \<noteq> [] \<longrightarrow> pv_LastStep pv \<noteq> stepNone \<and> hrs_le (pv_hrs saved) (pv_hrs pv))"

definition pv_inv :: "pv_env \<Rightarrow> string \<Rightarrow> pv_node \<Rightarrow> bool" where
  "pv_inv E path nd \<longleftrightarrow>
     (case nd of (p, d, rel) \<Rightarrow> signed_in_order rel \<and>
        (\<exists>saved. file_holds E path d saved rel \<and> (\<forall>pv. p = Some pv \<longrightarrow> ahead_of path saved rel pv)))"

lemma os_WriteFile_other: "os_WriteFile f q bs d = (d', r) \<Longrightarrow> q \<noteq> path \<Longrightarrow> d' path = d path"
  by (auto simp: os_WriteFile_def split: fault.splits if_splits)

lemma os_WriteFile_Done: "os_WriteFile f q bs d = (d', Done u) \<Longrightarrow> d' q = Some bs"
  by (auto simp: os_WriteFile_def split: fault.splits)

lemma backup_file_other: "backup_file f path d = (d', r) \<Longrightarrow> d' path = d path"
  by (auto simp: backup_file_def split: fault.splits if_splits option.splits prod.splits run.splits dest: os_WriteFile_other [where path = path])

text \<open>
  Whatever happens in \<open>WriteFileAtomic\<close>, the file has its old or its new content, and the new one when
  it returns without an error.
\<close>

lemma WriteFileAtomic_atomic:
  assumes "WriteFileAtomic f path bs d = (d', r)"
  shows "(d' path = d path \<or> d' path = Some bs) \<and> (r = Done () \<longrightarrow> d' path = Some bs)"
proof -
  obtain d1 r1 where b: "backup_file f path d = (d1, r1)" by fastforce
  note d1 = backup_file_other [OF b]
  show ?thesis
  proof (cases "r1 = Done ()")
    case False
    then have "d' = d1 \<and> r \<noteq> Done ()" using assms b by (cases r1) (auto simp: WriteFileAtomic_def then_run_def)
    then show ?thesis using d1 by simp
  next
    case True
    obtain d2 r2 where w: "os_WriteFile (f 3) (path @ ''.new'') bs d1 = (d2, r2)" by fastforce
    have d2: "d2 path = d path" using os_WriteFile_other [OF w, of path] d1 by simp
    show ?thesis
    proof (cases "r2 = Done ()")
      case False
      then have "d' = d2 \<and> r \<noteq> Done ()" using assms b True w by (cases r2) (auto simp: WriteFileAtomic_def then_run_def)
      then show ?thesis using d2 by simp
    next
      case done2: True
      then have n: "d2 (path @ ''.new'') = Some bs" using os_WriteFile_Done w by blast
      have "os_Rename (f 4) (path @ ''.new'') path d2 = (d', r)"
        using assms b True w done2 by (simp add: WriteFileAtomic_def then_run_def)
      then show ?thesis using n d2 by (auto simp: os_Rename_def split: fault.splits if_splits)
    qed
  qed
qed

lemma pv_save_atomic:
  assumes "pv_save E f pv d = (d', r)" "pv_filePath pv = path"
  shows "(d' path = d path \<or> d' path = Some (pv_JSON E pv)) \<and> (r = Done () \<longrightarrow> d' path = Some (pv_JSON E pv))"
proof (cases "path = []")
  case False
  obtain d1 r1 where w: "WriteFileAtomic f path (pv_JSON E pv) d = (d1, r1)" by fastforce
  then have "d' = d1 \<and> (r = Done () \<longrightarrow> r1 = Done ())" using assms False by (cases r1) (auto simp: pv_save_def)
  then show ?thesis using WriteFileAtomic_atomic [OF w] by auto
qed (use assms in \<open>auto simp: pv_save_def\<close>)

lemma save_and_sign_atomic:
  assumes "save_and_sign E f (h, r, s) msg pv d = (pv', d', res)" "pv_filePath pv = path"
  shows "pv' = pv\<lparr> pv_LastHeight := h, pv_LastRound := r, pv_LastStep := s \<rparr> \<and>
    (d' path = d path \<or> d' path = Some (pv_JSON E pv')) \<and> (\<forall>sg. res = Done sg \<longrightarrow> d' path = Some (pv_JSON E pv'))"
proof -
  let ?pv = "pv\<lparr> pv_LastHeight := h, pv_LastRound := r, pv_LastStep := s \<rparr>"
  obtain d1 r1 where sv: "pv_save E f ?pv d = (d1, r1)" by fastforce
  then have "pv' = ?pv \<and> d' = d1 \<and> (\<forall>sg. res = Done sg \<longrightarrow> r1 = Done ())"
    using assms(1) by (cases r1) (auto simp: save_and_sign_def then_run_def Let_def)
  then show ?thesis using pv_save_atomic [OF sv, of path] assms(2) by auto
qed

lemma in_order_snoc:
  "signed_in_order (rel @ [g]) \<longleftrightarrow> signed_in_order rel \<and> (\<forall>a \<in> set rel. may_follow (sig_hrs a) g)"
  by (auto simp: signed_in_order_def sorted_wrt_append)

text \<open>One signature: the three values may follow those of the validator, or nothing was signed yet.\<close>

lemma sign_keeps_inv:
  assumes inv: "pv_inv E path (Some pv, d, rel)"
    and ss: "save_and_sign E f (sig_hrs g) msg pv d = (pv', d', res)"
    and ok: "rel = [] \<or> may_follow (pv_hrs pv) g"
  shows "pv_inv E path (Some pv', d', case res of Done _ \<Rightarrow> rel @ [g] | _ \<Rightarrow> rel)" "pv_inv E path (None, d', rel)"
proof -
  obtain saved where saved: "file_holds E path d saved rel" "ahead_of path saved rel pv" and ord: "signed_in_order rel"
    using inv by (auto simp: pv_inv_def)
  obtain h r st where g: "sig_hrs g = (h, r, st)" by (cases "sig_hrs g")
  then have st: "st \<noteq> stepNone" using sig_step_pos [of g] by simp
  have path: "pv_filePath pv = path" using saved(2) by (simp add: ahead_of_def)
  note at = save_and_sign_atomic [OF ss [unfolded g] path]
  have pv': "pv_hrs pv' = sig_hrs g" "pv_filePath pv' = path" using at path g by auto
  have follow: "may_follow (sig_hrs a) g" if "a \<in> set rel" for a
  proof -
    have "hrs_le (sig_hrs a) (pv_hrs saved)" "hrs_le (pv_hrs saved) (pv_hrs pv)"
      using that saved by (auto simp: file_holds_def ahead_of_def)
    then have "hrs_le (sig_hrs a) (pv_hrs pv)" by (rule hrs_le_trans)
    then show ?thesis using ok that may_follow_trans by (cases rel) auto
  qed
  have le: "hrs_le (sig_hrs a) (pv_hrs pv')" if "a \<in> set rel" for a
    using may_follow_le [OF follow [OF that]] by (simp add: pv'(1))
  have new: "file_holds E path d' pv' (rel @ [g]) \<and> ahead_of path pv' (rel @ [g]) pv'" if "d' path = Some (pv_JSON E pv')"
    using that st pv' g le by (auto simp: file_holds_def ahead_of_def)
  then have newer: "file_holds E path d' pv' rel \<and> ahead_of path pv' rel pv'" if "d' path = Some (pv_JSON E pv')"
    using that by (auto simp: file_holds_def ahead_of_def)
  have "hrs_le (pv_hrs saved) (pv_hrs pv')" if "rel \<noteq> []"
  proof -
    have "hrs_le (pv_hrs saved) (pv_hrs pv)" using that saved(2) by (simp add: ahead_of_def)
    moreover have "hrs_le (pv_hrs pv) (sig_hrs g)" using that ok may_follow_le by blast
    ultimately show ?thesis unfolding pv'(1) by (rule hrs_le_trans)
  qed
  then have older: "file_holds E path d' saved rel \<and> ahead_of path saved rel pv'" if "d' path = d path"
    using that saved st pv' g by (auto simp: file_holds_def ahead_of_def)
  have rest: "\<exists>fl. file_holds E path d' fl rel \<and> ahead_of path fl rel pv'" using at newer older by blast
  then show "pv_inv E path (None, d', rel)" using ord by (auto simp: pv_inv_def)
  show "pv_inv E path (Some pv', d', case res of Done _ \<Rightarrow> rel @ [g] | _ \<Rightarrow> rel)"
  proof (cases res)
    case (Done sg)
    then have "d' path = Some (pv_JSON E pv')" using at by blast
    then show ?thesis using new Done ord follow by (auto simp: pv_inv_def in_order_snoc)
  qed (use rest ord in \<open>auto simp: pv_inv_def\<close>)
qed

lemma after_sign_inv:
  assumes "pv_inv E path (Some pv', d', case res of Done _ \<Rightarrow> rel @ [g] | _ \<Rightarrow> rel)" "pv_inv E path (None, d', rel)"
    "\<And>sg. res = Done sg \<Longrightarrow> k sg = g"
  shows "pv_inv E path (after_sign k rel (pv', d', res))"
  using assms by (cases res) auto

lemma SignVote_keeps_inv:
  assumes inv: "pv_inv E path (Some pv, d, rel)"
  shows "pv_inv E path (after_sign SigVote rel (SignVote E f c v pv d))"
proof -
  have same: "pv_inv E path (after_sign SigVote rel (pv, d, Error e))" "pv_inv E path (after_sign SigVote rel (pv, d, Panics e))" for e
    using inv by simp_all
  show ?thesis
  proof (cases "pv_LastHeight pv > vote_Height v \<or> pv_LastHeight pv = vote_Height v \<and> pv_LastRound pv > vote_Round v")
    case True
    then show ?thesis using same by (auto simp: SignVote_def)
  next
    case reg: False
    show ?thesis
    proof (cases "voteToStep v")
      case (Ok step)
      then have g: "sig_hrs (SigVote (v\<lparr> vote_Signature := sg \<rparr>)) = (vote_Height v, vote_Round v, step)" for sg
        by (auto simp: voteToStep_def split: if_splits)
      show ?thesis
      proof (cases "pv_LastHeight pv = vote_Height v \<and> pv_LastRound pv = vote_Round v \<and> pv_LastStep pv > step")
        case True
        then show ?thesis using same(1) Ok by (auto simp: SignVote_def)
      next
        case False
        obtain pv' d' res where ss: "save_and_sign E f (vote_Height v, vote_Round v, step) (Vote_SignBytes c v) pv d = (pv', d', res)"
          by (cases "save_and_sign E f (vote_Height v, vote_Round v, step) (Vote_SignBytes c v) pv d")
        define g where "g = SigVote (case res of Done sg \<Rightarrow> v\<lparr> vote_Signature := sg \<rparr> | _ \<Rightarrow> v)"
        have gh: "sig_hrs g = (vote_Height v, vote_Round v, step)" using g [of "vote_Signature v"] g by (auto simp: g_def split: run.splits)
        have "may_follow (pv_hrs pv) g" using gh reg False by (auto simp: g_def)
        note k = sign_keeps_inv [OF inv ss [folded gh], of ] 
        have sv: "SignVote E f c v pv d = (case res of Done sg \<Rightarrow> (pv', d', Done (v\<lparr> vote_Signature := sg \<rparr>))
            | Error e \<Rightarrow> (pv', d', Error e) | Panics e \<Rightarrow> (pv', d', Panics e) | Died \<Rightarrow> (pv', d', Died))"
          using reg Ok False ss by (auto simp: SignVote_def split: run.splits)
        show ?thesis using k \<open>may_follow (pv_hrs pv) g\<close> by (cases res) (simp_all add: sv g_def)
      qed
    next
      case (Panic e)
      show ?thesis
      proof (cases "pv_LastHeight pv = vote_Height v \<and> pv_LastRound pv = vote_Round v")
        case True
        then show ?thesis using same(2) Panic by (auto simp: SignVote_def)
      next
        case False
        then have "hrs_le (pv_hrs pv) (vote_Height v, vote_Round v, pv_LastStep pv)" using reg by auto
        then have "pv_inv E path (Some (pv\<lparr> pv_LastHeight := vote_Height v, pv_LastRound := vote_Round v \<rparr>), d, rel)"
          using inv hrs_le_trans by (fastforce simp: pv_inv_def ahead_of_def)
        then show ?thesis using Panic reg False by (auto simp: SignVote_def)
      qed
    qed (simp add: voteToStep_def split: if_splits)
  qed
qed

lemma SignProposal_keeps_inv:
  assumes inv: "pv_inv E path (Some pv, d, rel)"
  shows "pv_inv E path (after_sign SigProposal rel (SignProposal E f c p pv d))"
proof (cases "pv_LastHeight pv < prop_Height p \<or> pv_LastHeight pv = prop_Height p \<and> pv_LastRound pv < prop_Round p \<or>
    pv_LastHeight pv = 0 \<and> pv_LastRound pv = 0 \<and> pv_LastStep pv = stepNone")
  case True
  let ?m = "Proposal_SignBytes c p"
  obtain pv' d' res where ss: "save_and_sign E f (prop_Height p, prop_Round p, stepPropose) ?m pv d = (pv', d', res)"
    by (cases "save_and_sign E f (prop_Height p, prop_Round p, stepPropose) ?m pv d")
  define g where "g = SigProposal (case res of Done sg \<Rightarrow> p\<lparr> prop_Signature := sg \<rparr> | _ \<Rightarrow> p)"
  have gh: "sig_hrs g = (prop_Height p, prop_Round p, stepPropose)" by (auto simp: g_def split: run.splits)
  have "rel = [] \<or> may_follow (pv_hrs pv) g"
    using True inv by (auto simp: g_def pv_inv_def ahead_of_def split: run.splits)
  note k = sign_keeps_inv [OF inv ss [folded gh] this]
  have "SignProposal E f c p pv d = (case res of Done sg \<Rightarrow> (pv', d', Done (p\<lparr> prop_Signature := sg \<rparr>))
      | Error e \<Rightarrow> (pv', d', Error e) | Panics e \<Rightarrow> (pv', d', Panics e) | Died \<Rightarrow> (pv', d', Died))"
    using True ss by (auto simp: SignProposal_def split: run.splits)
  then show ?thesis using k by (cases res) (simp_all add: g_def)
qed (use inv in \<open>auto simp: SignProposal_def\<close>)

lemma SignRebondTx_keeps_inv:
  assumes inv: "pv_inv E path (Some pv, d, rel)"
  shows "pv_inv E path (after_sign SigRebond rel (SignRebondTx W E f c t pv d))"
proof (cases "pv_LastHeight pv < rebond_Height t")
  case True
  let ?m = "height_sign_bytes W c 19 (rebond_Address t) (rebond_Height t)"
  obtain pv' d' res where ss: "save_and_sign E f (rebond_Height t, MaxInt32, MaxInt8) ?m pv d = (pv', d', res)"
    by (cases "save_and_sign E f (rebond_Height t, MaxInt32, MaxInt8) ?m pv d")
  define g where "g = SigRebond (case res of Done sg \<Rightarrow> t\<lparr> rebond_Signature := sg \<rparr> | _ \<Rightarrow> t)"
  have gh: "sig_hrs g = (rebond_Height t, MaxInt32, MaxInt8)" by (auto simp: g_def split: run.splits)
  have "rel = [] \<or> may_follow (pv_hrs pv) g" using True by (auto simp: g_def split: run.splits)
  note k = sign_keeps_inv [OF inv ss [folded gh] this]
  have "SignRebondTx W E f c t pv d = (case res of Done sg \<Rightarrow> (pv', d', Done (t\<lparr> rebond_Signature := sg \<rparr>))
      | Error e \<Rightarrow> (pv', d', Error e) | Panics e \<Rightarrow> (pv', d', Panics e) | Died \<Rightarrow> (pv', d', Died))"
    using True ss by (auto simp: SignRebondTx_def split: run.splits)
  then show ?thesis using k by (cases res) (simp_all add: g_def)
qed (use inv in \<open>simp add: SignRebondTx_def\<close>)

lemma restart_keeps_inv:
  assumes "json_ok E" "pv_inv E path (p, d, rel)"
  shows "\<exists>pv. LoadPrivValidator E path d = Done pv \<and> pv_inv E path (Some pv, d, rel)"
proof -
  obtain saved where s: "file_holds E path d saved rel" "signed_in_order rel" using assms(2) by (auto simp: pv_inv_def)
  then have "LoadPrivValidator E path d = Done (saved\<lparr> pv_filePath := path \<rparr>)"
    using assms(1) by (simp add: LoadPrivValidator_def file_holds_def json_ok_def)
  moreover have "ahead_of path saved rel (saved\<lparr> pv_filePath := path \<rparr>)"
    using s(1) by (auto simp: ahead_of_def file_holds_def)
  ultimately show ?thesis using s by (auto simp: pv_inv_def)
qed

lemma pv_step_inv:
  assumes "json_ok E" "pv_inv E path nd"
  shows "pv_inv E path (pv_step W E path opn nd)"
proof -
  obtain p d rel where nd: "nd = (p, d, rel)" by (cases nd)
  show ?thesis
  proof (cases opn)
    case OpRestart
    then show ?thesis using restart_keeps_inv [of E path p d rel] assms nd by auto
  qed (use assms nd in \<open>cases p; simp add: SignVote_keeps_inv SignProposal_keeps_inv SignRebondTx_keeps_inv\<close>)+
qed

lemma pv_run_inv: "json_ok E \<Longrightarrow> pv_inv E path nd \<Longrightarrow> pv_inv E path (foldl (\<lambda>nd opn. pv_step W E path opn nd) nd ops)"
proof (induction ops arbitrary: nd)
  case (Cons opn ops)
  then show ?case using pv_step_inv [of E path nd W opn] by simp
qed simp

section \<open>Properties\<close>

text \<open>
  C9: A validator never goes back. Start it with its file saved, and let it sign votes, proposals and
  rebonds, with system calls that fail, the process dying at any point of a write, and restarts, in any order: each
  signature is for a height, round and step not before those of every earlier one, a proposal for a
  later round than everything signed before, a rebond for a later height; and the file can
  always be loaded and records at least the last signature.
\<close>

theorem validator_never_goes_back:
  assumes "json_ok E" "pv_filePath pv = path" "d path = Some (pv_JSON E pv)"
    "foldl (\<lambda>nd opn. pv_step W E path opn nd) (Some pv, d, []) ops = (p', d', rel)"
  shows "sorted_wrt (\<lambda>a b. may_follow (sig_hrs a) b) rel \<and>
    (\<exists>pv'. LoadPrivValidator E path d' = Done pv' \<and> (\<forall>g \<in> set rel. hrs_le (sig_hrs g) (pv_hrs pv')))"
proof -
  have "pv_inv E path (Some pv, d, [])"
    using assms(2,3) by (auto simp: pv_inv_def file_holds_def ahead_of_def signed_in_order_def intro!: exI [of _ pv])
  then have inv: "pv_inv E path (p', d', rel)" using pv_run_inv [OF assms(1)] assms(4) by metis
  then obtain pv' where pv': "LoadPrivValidator E path d' = Done pv'" "pv_inv E path (Some pv', d', rel)"
    using restart_keeps_inv [OF assms(1)] by blast
  then obtain saved where s: "file_holds E path d' saved rel" "ahead_of path saved rel pv'" by (auto simp: pv_inv_def)
  have "hrs_le (sig_hrs g) (pv_hrs pv')" if "g \<in> set rel" for g
  proof -
    have "hrs_le (sig_hrs g) (pv_hrs saved)" "hrs_le (pv_hrs saved) (pv_hrs pv')"
      using s that by (auto simp: file_holds_def ahead_of_def)
    then show ?thesis by (rule hrs_le_trans)
  qed
  then show ?thesis using pv'(1) inv by (auto simp: pv_inv_def signed_in_order_def)
qed

text \<open>A codec for the witnesses.\<close>

fun put_bytes :: "bytes \<Rightarrow> bytes" where
  "put_bytes [] = [0]"
| "put_bytes (b # bs) = 1 # b # put_bytes bs"

fun get_bytes :: "bytes \<Rightarrow> bytes \<times> bytes" where
  "get_bytes (x # y # bs) = (if x = 0 then ([], y # bs) else case get_bytes bs of (r, rest) \<Rightarrow> (y # r, rest))"
| "get_bytes bs = ([], drop 1 bs)"

lemma get_put_bytes [simp]: "get_bytes (put_bytes bs @ rest) = (bs, rest)"
proof (induction bs)
  case Nil
  then show ?case by (cases rest) simp_all
qed simp

definition put_int :: "int \<Rightarrow> bytes" where
  "put_int i = (if i < 0 then 1 else 0) # put_bytes (replicate (nat \<bar>i\<bar>) 0)"

definition get_int :: "bytes \<Rightarrow> int \<times> bytes" where
  "get_int bs = (case get_bytes (tl bs) of (u, rest) \<Rightarrow> (if hd bs = 1 then - int (length u) else int (length u), rest))"

lemma get_put_int [simp]: "get_int (put_int i @ rest) = (i, rest)"
  by (simp add: get_int_def put_int_def)

definition simple_codec :: pv_env where
  "simple_codec =
     \<lparr> pv_JSON = (\<lambda>pv. put_bytes (pv_Address pv) @ put_bytes (pv_PubKey pv) @ put_bytes (pv_PrivKey pv) @
         put_int (pv_LastHeight pv) @ put_int (pv_LastRound pv) @ put_int (pv_LastStep pv) @ []),
       pv_ReadJSON = (\<lambda>bs.
         let (a, bs) = get_bytes bs; (k, bs) = get_bytes bs; (s, bs) = get_bytes bs;
             (h, bs) = get_int bs; (r, bs) = get_int bs; (st, bs) = get_int bs
         in Some \<lparr> pv_Address = a, pv_PubKey = k, pv_LastHeight = h, pv_LastRound = r, pv_LastStep = st,
                   pv_PrivKey = s, pv_filePath = [] \<rparr>),
       pv_signer = (\<lambda>pv msg. [word_of_nat (length msg)]) \<rparr>"

lemma simple_codec_ok: "json_ok simple_codec"
  unfolding json_ok_def
proof
  fix pv
  show "pv_ReadJSON simple_codec (pv_JSON simple_codec pv) = Some (pv\<lparr> pv_filePath := [] \<rparr>)"
    unfolding simple_codec_def by (simp only: pv_env.simps get_put_bytes get_put_int Let_def prod.case) simp
qed

definition sample_pv :: PrivValidator where
  "sample_pv = \<lparr> pv_Address = [1], pv_PubKey = [2], pv_LastHeight = 0, pv_LastRound = 0, pv_LastStep = 0, pv_PrivKey = [3],
     pv_filePath = ''pv'' \<rparr>"

lemma sign_Fine:
  assumes "pv_filePath pv \<noteq> []"
  shows "save_and_sign E (\<lambda>_. Fine) (h, r, s) msg pv d =
    (let pv' = pv\<lparr> pv_LastHeight := h, pv_LastRound := r, pv_LastStep := s \<rparr>; path = pv_filePath pv;
         d1 = (case d path of None \<Rightarrow> d | Some bs \<Rightarrow> d(path @ ''.bak'' \<mapsto> bs))
     in (pv', d1(path \<mapsto> pv_JSON E pv', path @ ''.new'' := None), Done (pv_signer E pv' msg)))"
  using assms by (cases "d (pv_filePath pv)")
    (simp_all add: save_and_sign_def pv_save_def WriteFileAtomic_def backup_file_def os_WriteFile_def os_Rename_def then_run_def Let_def
      fun_eq_iff)

theorem validator_never_goes_back_witness:
  "\<exists>p d rel. foldl (\<lambda>nd opn. pv_step sample_keys simple_codec ''pv'' opn nd) (Some sample_pv, [''pv'' \<mapsto> pv_JSON simple_codec sample_pv], [])
     [OpVote ''c'' sample_vote (\<lambda>_. Fine), OpVote ''c'' (sample_vote\<lparr> vote_Height := 2 \<rparr>) (\<lambda>i. if i = 3 then Dies 2 else Fine), OpRestart] =
     (p, d, rel) \<and> sorted_wrt (\<lambda>a b. may_follow (sig_hrs a) b) rel \<and> (\<exists>pv'. LoadPrivValidator simple_codec ''pv'' d = Done pv')"
proof -
  obtain p d rel where r: "foldl (\<lambda>nd opn. pv_step sample_keys simple_codec ''pv'' opn nd)
      (Some sample_pv, [''pv'' \<mapsto> pv_JSON simple_codec sample_pv], [])
     [OpVote ''c'' sample_vote (\<lambda>_. Fine), OpVote ''c'' (sample_vote\<lparr> vote_Height := 2 \<rparr>) (\<lambda>i. if i = 3 then Dies 2 else Fine), OpRestart] =
     (p, d, rel)"
    by (metis prod_cases3)
  have "sorted_wrt (\<lambda>a b. may_follow (sig_hrs a) b) rel \<and>
    (\<exists>pv'. LoadPrivValidator simple_codec ''pv'' d = Done pv' \<and> (\<forall>g \<in> set rel. hrs_le (sig_hrs g) (pv_hrs pv')))"
    by (rule validator_never_goes_back [OF simple_codec_ok _ _ r]) (simp_all add: sample_pv_def)
  then show ?thesis using r by blast
qed

text \<open>
  C37: The last step is only compared with \<open>>\<close>: a validator signs two votes for different blocks in the
  same step of the same round, which is what the dupeout transaction punishes.
\<close>

theorem SignVote_signs_conflicting_votes:
  assumes "pv_filePath pv \<noteq> []" "vote_Type v \<in> {VoteTypePrevote, VoteTypePrecommit}"
    "pv_LastHeight pv < vote_Height v"
    "vote_Height w = vote_Height v" "vote_Round w = vote_Round v" "vote_Type w = vote_Type v"
  shows "\<exists>pv1 d1 s1 pv2 d2 s2. SignVote E (\<lambda>_. Fine) c v pv d = (pv1, d1, Done (v\<lparr> vote_Signature := s1 \<rparr>)) \<and>
    SignVote E (\<lambda>_. Fine) c w pv1 d1 = (pv2, d2, Done (w\<lparr> vote_Signature := s2 \<rparr>)) \<and>
    s1 = pv_signer E pv1 (Vote_SignBytes c v) \<and> s2 = pv_signer E pv2 (Vote_SignBytes c w)"
proof -
  obtain step where st: "voteToStep v = Ok step" "voteToStep w = Ok step"
    using assms(2,6) by (auto simp: voteToStep_def VoteTypePrevote_def VoteTypePrecommit_def)
  let ?pv = "pv\<lparr> pv_LastHeight := vote_Height v, pv_LastRound := vote_Round v, pv_LastStep := step \<rparr>"
  obtain d1 where 1: "SignVote E (\<lambda>_. Fine) c v pv d = (?pv, d1, Done (v\<lparr> vote_Signature := pv_signer E ?pv (Vote_SignBytes c v) \<rparr>))"
    using assms(1,3) st(1) by (simp add: SignVote_def sign_Fine Let_def)
  obtain d2 where "SignVote E (\<lambda>_. Fine) c w ?pv d1 = (?pv, d2, Done (w\<lparr> vote_Signature := pv_signer E ?pv (Vote_SignBytes c w) \<rparr>))"
    using assms(1,4,5) st(2) by (simp add: SignVote_def sign_Fine Let_def)
  with 1 show ?thesis by blast
qed

theorem SignVote_signs_conflicting_votes_witness:
  "\<exists>pv1 d1 s1 pv2 d2 s2. SignVote simple_codec (\<lambda>_. Fine) ''c'' sample_vote sample_pv Map.empty = (pv1, d1, Done (sample_vote\<lparr> vote_Signature := s1 \<rparr>)) \<and>
    SignVote simple_codec (\<lambda>_. Fine) ''c'' (sample_vote\<lparr> vote_BlockHash := [8] \<rparr>) pv1 d1 =
      (pv2, d2, Done (sample_vote\<lparr> vote_BlockHash := [8], vote_Signature := s2 \<rparr>))"
  using SignVote_signs_conflicting_votes [of sample_pv sample_vote "sample_vote\<lparr> vote_BlockHash := [8] \<rparr>" simple_codec "''c''" Map.empty]
  by (auto simp: sample_pv_def sample_vote_def VoteTypePrecommit_def)

end
