(* ===== verification/Proposer.thy ===== *)
theory Proposer
  imports Vote_Set "HOL-Library.Multiset"
begin

text \<open>
  Choosing the proposer (\<open>IncrementAccum\<close> of the vendored \<open>types/validator_set.go\<close>, with the priority
  queue of \<open>common/heap.go\<close> on top of \<open>container/heap\<close>). The validators of a set are objects that the
  queue and the set share; here a queue holds their positions, with the priorities they were
  pushed with.

  Which of two equal children \<open>container/heap\<close> moves up is not part of its contract and has
  changed between releases: \<open>right\<close> says whether it is the right one.
\<close>

section \<open>The priority queue\<close>

type_synonym pq = "(nat \<times> int) list"

definition pq_Less :: "pq \<Rightarrow> nat \<Rightarrow> nat \<Rightarrow> bool" where
  "pq_Less q i j \<longleftrightarrow> snd (q ! i) > snd (q ! j)"

definition pq_Swap :: "nat \<Rightarrow> nat \<Rightarrow> pq \<Rightarrow> pq" where
  "pq_Swap i j q = q[i := q ! j, j := q ! i]"

function heap_up :: "pq \<Rightarrow> nat \<Rightarrow> pq" where
  "heap_up q j =
     (if j = 0 then q
      else let i = (j - 1) div 2 in
           if \<not> pq_Less q j i then q else heap_up (pq_Swap i j q) i)"
  by pat_completeness auto
termination by (relation "measure snd") auto

definition heap_child :: "bool \<Rightarrow> pq \<Rightarrow> nat \<Rightarrow> nat" where
  "heap_child right q i =
     (let j1 = 2 * i + 1; j2 = j1 + 1 in
      if j2 < length q \<and> (if right then \<not> pq_Less q j1 j2 else pq_Less q j2 j1) then j2 else j1)"

function heap_down :: "bool \<Rightarrow> pq \<Rightarrow> nat \<Rightarrow> pq" where
  "heap_down right q i =
     (if 2 * i + 1 \<ge> length q then q
      else let j = heap_child right q i in
           if \<not> pq_Less q j i then q else heap_down right (pq_Swap i j q) j)"
  by pat_completeness auto
termination
  by (relation "measure (\<lambda>(right, q, i). length q - i)")
    (auto simp: pq_Swap_def heap_child_def Let_def split: if_splits)

declare heap_up.simps [simp del] heap_down.simps [simp del]

definition heap_Push :: "nat \<Rightarrow> int \<Rightarrow> pq \<Rightarrow> pq" where
  "heap_Push x priority q = heap_up (q @ [(x, priority)]) (length q)"

text \<open>\<open>Update\<close> changes the item at the front.\<close>

definition heap_Update :: "bool \<Rightarrow> nat \<Rightarrow> int \<Rightarrow> pq \<Rightarrow> pq" where
  "heap_Update right x priority q = heap_down right (q[0 := (x, priority)]) 0"

section \<open>The proposer\<close>

definition accum_all :: "int \<Rightarrow> Validator list \<Rightarrow> Validator list" where
  "accum_all rounds vals =
     map (\<lambda>v. v\<lparr> val_Accum := wrap64 (val_Accum v + wrap64 (val_VotingPower v * rounds)) \<rparr>) vals"

definition push_all :: "Validator list \<Rightarrow> pq" where
  "push_all vals = foldl (\<lambda>q k. heap_Push k (val_Accum (vals ! k)) q) [] [0..<length vals]"

text \<open>The loop over \<open>times\<close>; the proposer is the front of the last round. Peeking into an empty queue gives nil.\<close>

primrec choose_loop :: "bool \<Rightarrow> nat \<Rightarrow> pq \<Rightarrow> ValidatorSet \<Rightarrow> nat option \<Rightarrow> (ValidatorSet \<times> nat option) outcome" where
  "choose_loop right 0 q vs p = Ok (vs, p)"
| "choose_loop right (Suc n) q vs p =
     (if q = [] then Panic ''interface conversion: interface is nil''
      else
        let k = fst (q ! 0); (tot, vs') = TotalVotingPower vs;
            mostest = Validators vs' ! k;
            mostest' = mostest\<lparr> val_Accum := wrap64 (val_Accum mostest - tot) \<rparr>;
            vs'' = vs'\<lparr> Validators := (Validators vs')[k := mostest'] \<rparr>
        in choose_loop right n (heap_Update right k (val_Accum mostest') q) vs'' (if n = 0 then Some k else p))"

definition IncrementAccum :: "bool \<Rightarrow> nat \<Rightarrow> ValidatorSet \<Rightarrow> ValidatorSet outcome" where
  "IncrementAccum right rounds vs =
     (let vs1 = vs\<lparr> Validators := accum_all (int rounds) (Validators vs) \<rparr> in
      obind (choose_loop right rounds (push_all (Validators vs1)) vs1 None) (\<lambda>(vs2, p).
        Ok (case p of None \<Rightarrow> vs2 | Some k \<Rightarrow> vs2\<lparr> vs_proposer := Some (Validators vs2 ! k) \<rparr>)))"

section \<open>Heaps\<close>

abbreviation parent :: "nat \<Rightarrow> nat" where
  "parent j \<equiv> (j - 1) div 2"

definition heap_ok :: "pq \<Rightarrow> bool" where
  "heap_ok q \<longleftrightarrow> (\<forall>j. 0 < j \<longrightarrow> j < length q \<longrightarrow> snd (q ! j) \<le> snd (q ! parent j))"

text \<open>A heap but for position \<open>j\<close> and its parent; the children of \<open>j\<close> are below that parent too.\<close>

definition heap_but :: "nat \<Rightarrow> pq \<Rightarrow> bool" where
  "heap_but j q \<longleftrightarrow> (\<forall>k. 0 < k \<longrightarrow> k < length q \<longrightarrow> k \<noteq> j \<longrightarrow> snd (q ! k) \<le> snd (q ! parent k)) \<and>
     (0 < j \<longrightarrow> (\<forall>k. 0 < k \<longrightarrow> k < length q \<longrightarrow> parent k = j \<longrightarrow> snd (q ! k) \<le> snd (q ! parent j)))"

text \<open>A heap but for position \<open>i\<close> and its children.\<close>

definition heap_above :: "nat \<Rightarrow> pq \<Rightarrow> bool" where
  "heap_above i q \<longleftrightarrow> (\<forall>k. 0 < k \<longrightarrow> k < length q \<longrightarrow> parent k \<noteq> i \<longrightarrow> snd (q ! k) \<le> snd (q ! parent k)) \<and>
     (0 < i \<longrightarrow> (\<forall>k. 0 < k \<longrightarrow> k < length q \<longrightarrow> parent k = i \<longrightarrow> snd (q ! k) \<le> snd (q ! parent i)))"

lemma length_Swap [simp]: "length (pq_Swap i j q) = length q"
  by (simp add: pq_Swap_def)

lemma nth_Swap: "i < length q \<Longrightarrow> j < length q \<Longrightarrow> pq_Swap i j q ! k = (if k = j then q ! i else if k = i then q ! j else q ! k)"
  by (auto simp: pq_Swap_def nth_list_update)

lemma mset_pq_Swap [simp]: "i < length q \<Longrightarrow> j < length q \<Longrightarrow> mset (pq_Swap i j q) = mset q"
  unfolding pq_Swap_def by (rule mset_swap)

lemma heap_up_ok: "j < length q \<Longrightarrow> heap_but j q \<Longrightarrow> heap_ok (heap_up q j) \<and> mset (heap_up q j) = mset q"
proof (induction q j rule: heap_up.induct)
  case (1 q j)
  show ?case
  proof (cases "j = 0 \<or> \<not> pq_Less q j (parent j)")
    case True
    then have "heap_up q j = q" by (subst heap_up.simps) (auto simp: Let_def)
    moreover have "heap_ok q"
      unfolding heap_ok_def
    proof (intro allI impI)
      fix k assume "0 < k" "k < length q"
      then show "snd (q ! k) \<le> snd (q ! parent k)"
        using True "1.prems"(2) by (cases "k = j") (auto simp: heap_but_def pq_Less_def)
    qed
    ultimately show ?thesis by simp
  next
    case False
    define i where "i = parent j"
    have j: "j \<noteq> 0" "pq_Less q j i" "i < j" "i < length q" using False "1.prems"(1) by (auto simp: i_def)
    have up: "heap_up q j = heap_up (pq_Swap i j q) i" using j by (subst heap_up.simps) (simp add: Let_def i_def)
    have less: "snd (q ! i) < snd (q ! j)" using j(2) by (simp add: pq_Less_def)
    have old: "snd (q ! k) \<le> snd (q ! parent k)" if "0 < k" "k < length q" "k \<noteq> j" for k
      using "1.prems"(2) that by (simp add: heap_but_def)
    have child: "snd (q ! k) \<le> snd (q ! i)" if "0 < k" "k < length q" "parent k = j" for k
      using "1.prems"(2) that j(1) by (simp add: heap_but_def i_def)
    have swap: "pq_Swap i j q ! k = (if k = j then q ! i else if k = i then q ! j else q ! k)" for k
      using nth_Swap j(4) "1.prems"(1) by simp
    have "heap_but i (pq_Swap i j q)"
      unfolding heap_but_def
    proof (intro conjI allI impI)
      fix k assume k: "0 < k" "k < length (pq_Swap i j q)" "k \<noteq> i"
      have len: "k < length q" using k(2) by simp
      define m where "m = parent k"
      have m: "m < k" using k(1) by (auto simp: m_def)
      consider "k = j" | "k \<noteq> j" "m = j" | "k \<noteq> j" "m = i" | "k \<noteq> j" "m \<noteq> j" "m \<noteq> i" by blast
      then have "snd (pq_Swap i j q ! k) \<le> snd (pq_Swap i j q ! m)"
      proof cases
        case 1
        then have "m = i" by (simp add: m_def i_def)
        then show ?thesis using 1 less j(3) by (simp add: swap)
      next
        case 2
        then have "snd (q ! k) \<le> snd (q ! i)" using child [of k] k(1) len by (simp add: m_def)
        then show ?thesis using 2 k(3) by (simp add: swap)
      next
        case 3
        then have "snd (q ! k) \<le> snd (q ! i)" using old [of k] k(1) len by (simp add: m_def)
        then show ?thesis using 3 k(3) less j(3) by (simp add: swap)
      next
        case 4
        then have "snd (q ! k) \<le> snd (q ! m)" using old [of k] k(1) len by (simp add: m_def)
        then show ?thesis using 4 k(3) by (simp add: swap)
      qed
      then show "snd (pq_Swap i j q ! k) \<le> snd (pq_Swap i j q ! parent k)" by (simp only: m_def)
    next
      fix k assume k: "0 < i" "0 < k" "k < length (pq_Swap i j q)" "parent k = i"
      define m where "m = parent i"
      have m: "m < i" using k(1) by (auto simp: m_def)
      have top: "snd (q ! i) \<le> snd (q ! m)" using old [of i] k(1) j(3,4) by (simp add: m_def)
      have "k \<noteq> i" using k(2,4) by auto
      moreover have "k \<noteq> j \<Longrightarrow> snd (q ! k) \<le> snd (q ! i)" using old [of k] k by simp
      ultimately have "snd (pq_Swap i j q ! k) \<le> snd (pq_Swap i j q ! m)" using top m j(3) by (cases "k = j") (simp_all add: swap)
      then show "snd (pq_Swap i j q ! k) \<le> snd (pq_Swap i j q ! parent i)" by (simp only: m_def)
    qed
    then show ?thesis using "1.IH" [OF j(1) i_def] j up "1.prems"(1) by simp
  qed
qed

lemma heap_child_max:
  fixes right :: bool
  assumes "2 * i + 1 < length q"
  defines "j \<equiv> heap_child right q i"
  shows "0 < j" "j < length q" "parent j = i" "i < j"
    "0 < k \<Longrightarrow> k < length q \<Longrightarrow> parent k = i \<Longrightarrow> snd (q ! k) \<le> snd (q ! j)"
proof -
  show "0 < j" "j < length q" "parent j = i" "i < j" using assms by (auto simp: heap_child_def Let_def)
  assume k: "0 < k" "k < length q" "parent k = i"
  then have "k = 2 * i + 1 \<or> k = 2 * i + 2" by (cases k) presburger+
  then show "snd (q ! k) \<le> snd (q ! j)" using k assms by (auto simp: heap_child_def Let_def pq_Less_def split: if_splits)
qed

lemma heap_down_ok: "i < length q \<Longrightarrow> heap_above i q \<Longrightarrow> heap_ok (heap_down right q i) \<and> mset (heap_down right q i) = mset q"
proof (induction right q i rule: heap_down.induct)
  case (1 right q i)
  define j where "j = heap_child right q i"
  have old: "snd (q ! k) \<le> snd (q ! parent k)" if "0 < k" "k < length q" "parent k \<noteq> i" for k
    using "1.prems"(2) that by (simp add: heap_above_def)
  show ?case
  proof (cases "2 * i + 1 \<ge> length q")
    case True
    then have "heap_down right q i = q" by (subst heap_down.simps) simp
    moreover have "parent k \<noteq> i" if "0 < k" "k < length q" for k using True that by (cases k) auto
    then have "heap_ok q" using old by (simp add: heap_ok_def)
    ultimately show ?thesis by simp
  next
    case False
    then have i: "2 * i + 1 < length q" by simp
    note c = heap_child_max(1-4) [OF i, of right, folded j_def] and max = heap_child_max(5) [OF i, of _ right, folded j_def]
    show ?thesis
    proof (cases "pq_Less q j i")
      case stop: False
      then have "heap_down right q i = q" using False by (subst heap_down.simps) (simp add: Let_def j_def)
      moreover have "heap_ok q"
        unfolding heap_ok_def
      proof (intro allI impI)
        fix k assume k: "0 < k" "k < length q"
        show "snd (q ! k) \<le> snd (q ! parent k)"
        proof (cases "parent k = i")
          case True
          then show ?thesis using max [OF k] stop by (simp add: pq_Less_def)
        qed (rule old [OF k])
      qed
      ultimately show ?thesis by simp
    next
      case True
      have down: "heap_down right q i = heap_down right (pq_Swap i j q) j"
        using False True by (subst heap_down.simps) (simp add: Let_def j_def)
      have less: "snd (q ! i) < snd (q ! j)" using True by (simp add: pq_Less_def)
      have swap: "pq_Swap i j q ! k = (if k = j then q ! i else if k = i then q ! j else q ! k)" for k
        using nth_Swap c(2) "1.prems"(1) by simp
      have "heap_above j (pq_Swap i j q)"
        unfolding heap_above_def
      proof (intro conjI allI impI)
        fix k assume k: "0 < k" "k < length (pq_Swap i j q)" "parent k \<noteq> j"
        have len: "k < length q" using k(2) by simp
        define m where "m = parent k"
        have m: "m < k" using k(1) by (auto simp: m_def)
        consider "k = i" | "k = j" | "k \<noteq> i" "k \<noteq> j" "m = i" | "k \<noteq> i" "k \<noteq> j" "m \<noteq> i" by blast
        then have "snd (pq_Swap i j q ! k) \<le> snd (pq_Swap i j q ! m)"
        proof cases
          case 1
          then have "snd (q ! j) \<le> snd (q ! m)" using "1.prems"(2) k(1) c(1-3) by (simp add: heap_above_def m_def)
          then show ?thesis using 1 m c(4) by (simp add: swap)
        next
          case 2
          then have "m = i" using c(3) by (simp add: m_def)
          then show ?thesis using 2 less c(4) by (simp add: swap)
        next
          case 3
          then have "snd (q ! k) \<le> snd (q ! j)" using max [OF k(1) len] by (simp add: m_def)
          then show ?thesis using 3 c(4) by (simp add: swap)
        next
          case 4
          then have "snd (q ! k) \<le> snd (q ! m)" using old [OF k(1) len] by (simp add: m_def)
          then show ?thesis using 4 k(3) by (simp add: swap m_def)
        qed
        then show "snd (pq_Swap i j q ! k) \<le> snd (pq_Swap i j q ! parent k)" by (simp only: m_def)
      next
        fix k assume k: "0 < j" "0 < k" "k < length (pq_Swap i j q)" "parent k = j"
        have kj: "k > j" using k(2,4) by auto
        have "snd (q ! k) \<le> snd (q ! j)" using old [of k] k c(4) by simp
        then show "snd (pq_Swap i j q ! k) \<le> snd (pq_Swap i j q ! parent j)" using kj c(4) unfolding c(3) by (simp add: swap)
      qed
      then show ?thesis using "1.IH" [OF False j_def] True c down "1.prems"(1) by simp
    qed
  qed
qed

lemma heap_front:
  assumes "heap_ok q" "j < length q"
  shows "snd (q ! j) \<le> snd (q ! 0)"
  using assms(2)
proof (induction j rule: less_induct)
  case (less j)
  show ?case
  proof (cases "j = 0")
    case False
    then have "snd (q ! j) \<le> snd (q ! parent j)" using assms(1) less.prems by (simp add: heap_ok_def)
    moreover have "snd (q ! parent j) \<le> snd (q ! 0)" using less.IH [of "parent j"] less.prems False by simp
    ultimately show ?thesis by simp
  qed simp
qed

lemma heap_Push_ok:
  assumes "heap_ok q"
  shows "heap_ok (heap_Push x p q)" "mset (heap_Push x p q) = add_mset (x, p) (mset q)"
proof -
  have "heap_but (length q) (q @ [(x, p)])"
    using assms by (auto simp: heap_but_def heap_ok_def nth_append)
  then show "heap_ok (heap_Push x p q)" "mset (heap_Push x p q) = add_mset (x, p) (mset q)"
    using heap_up_ok [of "length q" "q @ [(x, p)]"] by (simp_all add: heap_Push_def)
qed

lemma heap_Update_ok:
  assumes "heap_ok q" "q \<noteq> []"
  shows "heap_ok (heap_Update right x p q)" "mset (heap_Update right x p q) = add_mset (x, p) (mset q - {#q ! 0#})"
proof -
  have "heap_above 0 (q[0 := (x, p)])"
    unfolding heap_above_def
  proof (intro conjI allI impI)
    fix k assume k: "0 < k" "k < length (q[0 := (x, p)])" "parent k \<noteq> 0"
    then show "snd (q[0 := (x, p)] ! k) \<le> snd (q[0 := (x, p)] ! parent k)" using assms(1) by (simp add: heap_ok_def)
  qed simp
  then show "heap_ok (heap_Update right x p q)" "mset (heap_Update right x p q) = add_mset (x, p) (mset q - {#q ! 0#})"
    using heap_down_ok [of 0 "q[0 := (x, p)]" right] assms(2) by (simp_all add: heap_Update_def mset_update)
qed

section \<open>The queue follows the validators\<close>

definition entry_at :: "Validator list \<Rightarrow> nat \<Rightarrow> nat \<times> int" where
  "entry_at vals k = (k, val_Accum (vals ! k))"

definition tracks :: "pq \<Rightarrow> Validator list \<Rightarrow> bool" where
  "tracks q vals \<longleftrightarrow> heap_ok q \<and> mset q = mset (map (entry_at vals) [0..<length vals])"

lemma push_all_tracks: "tracks (push_all vals) vals"
proof -
  have "heap_ok (foldl (\<lambda>q k. heap_Push k (val_Accum (vals ! k)) q) q ks) \<and>
      mset (foldl (\<lambda>q k. heap_Push k (val_Accum (vals ! k)) q) q ks) = mset q + mset (map (entry_at vals) ks)"
    if "heap_ok q" for q ks
    using that
  proof (induction ks arbitrary: q)
    case (Cons k ks)
    then show ?case using heap_Push_ok [OF Cons.prems, of k "val_Accum (vals ! k)"] by (simp add: entry_at_def)
  qed simp
  from this [of "[]" "[0..<length vals]"] show ?thesis by (simp add: tracks_def push_all_def heap_ok_def)
qed

lemma tracks_front:
  assumes "tracks q vals" "vals \<noteq> []"
  shows "q \<noteq> []" "fst (q ! 0) < length vals" "q ! 0 = entry_at vals (fst (q ! 0))"
    "v \<in> set vals \<Longrightarrow> val_Accum v \<le> val_Accum (vals ! fst (q ! 0))"
proof -
  have "mset q = mset (map (entry_at vals) [0..<length vals])" using assms(1) by (simp add: tracks_def)
  then have set: "set q = entry_at vals ` {0..<length vals}" using mset_eq_setD by fastforce
  show ne: "q \<noteq> []" using set assms(2) by (auto simp: entry_at_def)
  then have "q ! 0 \<in> set q" by simp
  then show f: "fst (q ! 0) < length vals" "q ! 0 = entry_at vals (fst (q ! 0))" using set by (auto simp: entry_at_def)
  assume "v \<in> set vals"
  then obtain k where k: "k < length vals" "v = vals ! k" by (auto simp: in_set_conv_nth)
  then have "(k, val_Accum v) \<in> set q" using set by (auto simp: entry_at_def)
  then obtain j where "j < length q" "q ! j = (k, val_Accum v)" by (auto simp: in_set_conv_nth)
  moreover have "heap_ok q" using assms(1) by (simp add: tracks_def)
  ultimately have "val_Accum v \<le> snd (q ! 0)" using heap_front [of q j] by simp
  also have "snd (q ! 0) = val_Accum (vals ! fst (q ! 0))" using f(2) by (metis entry_at_def snd_conv)
  finally show "val_Accum v \<le> val_Accum (vals ! fst (q ! 0))" .
qed

lemma tracks_update:
  assumes "tracks q vals" "vals \<noteq> []" "k = fst (q ! 0)" "val_Accum v = a"
  shows "tracks (heap_Update right k a q) (vals[k := v])"
proof -
  note f = tracks_front [OF assms(1,2)]
  have ok: "heap_ok q" using assms(1) by (simp add: tracks_def)
  have k: "k < length vals" using f(2) assms(3) by simp
  have "map (entry_at (vals[k := v])) [0..<length vals] = (map (entry_at vals) [0..<length vals])[k := (k, a)]"
    using k assms(4) by (auto intro!: nth_equalityI simp: entry_at_def nth_list_update)
  then have "mset (map (entry_at (vals[k := v])) [0..<length vals]) =
      add_mset (k, a) (mset (map (entry_at vals) [0..<length vals]) - {#q ! 0#})"
    using k f(3) assms(3) by (simp add: mset_update)
  then show ?thesis
    using heap_Update_ok [OF ok f(1), of right k a] assms(1) by (simp add: tracks_def)
qed

section \<open>One round\<close>

definition accum_sum :: "ValidatorSet \<Rightarrow> int" where
  "accum_sum vs = sum_list (map val_Accum (Validators vs))"

text \<open>
  A set between two rounds: the accumulated power sums up to 0, none is as low as minus the total,
  and the numbers that occur fit.
\<close>

definition rotation_ok :: "ValidatorSet \<Rightarrow> bool" where
  "rotation_ok vs \<longleftrightarrow> vals_ok vs \<and> 0 < powers (Validators vs) \<and> accum_sum vs = 0 \<and>
     (\<forall>v \<in> set (Validators vs). - powers (Validators vs) < val_Accum v) \<and>
     (int (length (Validators vs)) + 2) * powers (Validators vs) \<le> MaxInt64"

lemma rotation_upper:
  assumes "rotation_ok vs" "v \<in> set (Validators vs)"
  shows "val_Accum v < int (length (Validators vs)) * powers (Validators vs)"
proof -
  define t where "t = powers (Validators vs)"
  obtain xs ys where split: "Validators vs = xs @ v # ys" using assms(2) by (auto dest: split_list)
  have low: "- t * int (length zs) \<le> sum_list (map val_Accum zs)" if "set zs \<subseteq> set (Validators vs)" for zs
    using that
  proof (induction zs)
    case (Cons z zs)
    then have "- t < val_Accum z" using assms(1) by (simp add: rotation_ok_def t_def)
    with Cons show ?case by (simp add: algebra_simps)
  qed simp
  have "sum_list (map val_Accum xs) + val_Accum v + sum_list (map val_Accum ys) = 0"
    using assms(1) split by (simp add: rotation_ok_def accum_sum_def)
  then have "val_Accum v \<le> t * (int (length xs) + int (length ys))"
    using low [of xs] low [of ys] split by (simp add: algebra_simps subset_insertI2)
  also have "\<dots> < int (length (Validators vs)) * t"
  proof -
    have "0 < t" using assms(1) by (simp add: rotation_ok_def t_def)
    then show ?thesis using split by (simp add: algebra_simps)
  qed
  finally show ?thesis by (simp only: t_def)
qed

definition with_accum :: "nat \<Rightarrow> Validator list \<Rightarrow> Validator list" where
  "with_accum k vals = map (\<lambda>i. let v = vals ! i in
     v\<lparr> val_Accum := val_Accum v + val_VotingPower v - (if i = k then powers vals else 0) \<rparr>) [0..<length vals]"

lemma length_with_accum [simp]: "length (with_accum k vals) = length vals"
  by (simp add: with_accum_def)

lemma nth_with_accum: "i < length vals \<Longrightarrow> with_accum k vals ! i =
    (vals ! i)\<lparr> val_Accum := val_Accum (vals ! i) + val_VotingPower (vals ! i) - (if i = k then powers vals else 0) \<rparr>"
  by (simp add: with_accum_def Let_def)

lemma map_power_with_accum: "map val_VotingPower (with_accum k vals) = map val_VotingPower vals"
  by (rule nth_equalityI) (simp_all add: nth_with_accum)

lemma powers_with_accum [simp]: "powers (with_accum k vals) = powers vals"
  by (simp add: map_power_with_accum)

lemma sum_list_upd: "k < length xs \<Longrightarrow> sum_list (xs[k := x]) = sum_list xs + x - (xs ! k :: int)"
proof (induction xs arbitrary: k)
  case (Cons y xs)
  then show ?case by (cases k) simp_all
qed simp

lemma sum_with_accum:
  assumes "k < length vals"
  shows "sum_list (map val_Accum (with_accum k vals)) = sum_list (map val_Accum vals)"
proof -
  have "map val_Accum (with_accum k vals) = (map (\<lambda>v. val_Accum v + val_VotingPower v) vals)
      [k := val_Accum (vals ! k) + val_VotingPower (vals ! k) - powers vals]"
    using assms by (intro nth_equalityI) (simp_all add: nth_with_accum nth_list_update)
  then show ?thesis using assms by (simp add: sum_list_upd sum_list_addf)
qed

lemma accum_one:
  assumes "rotation_ok vs" "v \<in> set (Validators vs)"
  shows "wrap64 (val_Accum v + wrap64 (val_VotingPower v * 1)) = val_Accum v + val_VotingPower v"
    "wrap64 (val_Accum v + val_VotingPower v - powers (Validators vs)) = val_Accum v + val_VotingPower v - powers (Validators vs)"
proof -
  define t where "t = powers (Validators vs)"
  define n where "n = int (length (Validators vs)) * t"
  have p: "0 \<le> val_VotingPower v" "val_VotingPower v \<le> t"
  proof -
    have nn: "\<forall>v \<in> set (Validators vs). 0 \<le> val_VotingPower v" using assms(1) by (simp add: rotation_ok_def vals_ok_def powers_ok_def)
    then show "0 \<le> val_VotingPower v" using assms(2) by blast
    obtain xs ys where "Validators vs = xs @ v # ys" using assms(2) by (auto dest: split_list)
    then show "val_VotingPower v \<le> t" using nn powers_nonneg [of xs] powers_nonneg [of ys] by (simp add: t_def)
  qed
  have "- t < val_Accum v" "val_Accum v < n" "n + 2 * t \<le> MaxInt64" "0 < t" "2 * t \<le> MaxInt64"
    using assms rotation_upper [OF assms] by (simp_all add: rotation_ok_def vals_ok_def powers_ok_def t_def n_def algebra_simps)
  then show "wrap64 (val_Accum v + wrap64 (val_VotingPower v * 1)) = val_Accum v + val_VotingPower v"
    "wrap64 (val_Accum v + val_VotingPower v - powers (Validators vs)) = val_Accum v + val_VotingPower v - powers (Validators vs)"
    using p assms(2) by (simp_all add: int64_simps flip: t_def)
qed

text \<open>
  One call of \<open>IncrementAccum\<close>: every validator gets its power, and one with the most then pays the
  total and is the proposer.
\<close>

lemma increment_once:
  assumes "rotation_ok vs"
  shows "\<exists>k vs'. IncrementAccum right 1 vs = Ok vs' \<and> k < length (Validators vs) \<and> Validators vs' = with_accum k (Validators vs) \<and>
    vs_proposer vs' = Some (Validators vs' ! k) \<and> rotation_ok vs' \<and>
    (\<forall>v \<in> set (Validators vs). val_Accum v + val_VotingPower v \<le>
       val_Accum (Validators vs ! k) + val_VotingPower (Validators vs ! k))"
proof -
  let ?vals = "Validators vs"
  have ne: "?vals \<noteq> []" using assms by (auto simp: rotation_ok_def)
  have vok: "vals_ok vs" using assms by (simp add: rotation_ok_def)
  define vals1 where "vals1 = accum_all 1 ?vals"
  have l1: "length vals1 = length ?vals" by (simp add: vals1_def accum_all_def)
  have n1: "vals1 ! i = (?vals ! i)\<lparr> val_Accum := val_Accum (?vals ! i) + val_VotingPower (?vals ! i) \<rparr>" if "i < length ?vals" for i
    using that accum_one(1) [OF assms, of "?vals ! i"] by (simp add: vals1_def accum_all_def)
  have same: "map val_VotingPower vals1 = map val_VotingPower ?vals" by (rule nth_equalityI) (simp_all add: l1 n1)
  then have p1: "powers vals1 = powers ?vals" by simp
  define vs1 where "vs1 = vs\<lparr> Validators := vals1 \<rparr>"
  have v1: "Validators vs1 = vals1" by (simp add: vs1_def)
  have "\<forall>p \<in> set (map val_VotingPower vals1). 0 \<le> p" unfolding same using vals_ok_powers(1) [OF vok] by simp
  then have pos: "\<forall>v \<in> set vals1. 0 \<le> val_VotingPower v" by simp
  then have vok1: "vals_ok vs1" using vok p1 l1 by (simp add: vals_ok_def vs1_def powers_ok_def vs_Size_def)
  let ?q = "push_all vals1"
  note tr = push_all_tracks [of vals1]
  define k where "k = fst (?q ! 0)"
  note f = tracks_front [OF tr, folded k_def]
  have vne: "vals1 \<noteq> []" using ne l1 by auto
  have k: "k < length ?vals" using f(2) [OF vne] l1 by simp
  define m where "m = (vals1 ! k)\<lparr> val_Accum := wrap64 (val_Accum (vals1 ! k) - powers ?vals) \<rparr>"
  have m: "m = with_accum k ?vals ! k"
    using k n1 [OF k] accum_one(2) [OF assms, of "?vals ! k"] by (simp add: m_def nth_with_accum)
  have tot: "fst (TotalVotingPower vs1) = powers ?vals" "Validators (snd (TotalVotingPower vs1)) = vals1" "vals_ok (snd (TotalVotingPower vs1))"
    using total_power [OF vok1] p1 by (simp_all add: vs1_def)
  define vs2 where "vs2 = (snd (TotalVotingPower vs1))\<lparr> Validators := vals1[k := m] \<rparr>"
  have vals2: "vals1[k := m] = with_accum k ?vals"
    using k l1 n1 m by (intro nth_equalityI) (auto simp: nth_list_update nth_with_accum)
  have run: "IncrementAccum right 1 vs = Ok (vs2\<lparr> vs_proposer := Some (Validators vs2 ! k) \<rparr>)"
    using f(1) [OF vne] tot v1
    by (simp add: IncrementAccum_def Let_def case_prod_beta vs2_def m_def flip: vals1_def vs1_def k_def)
  have acc2: "accum_sum vs2 = 0"
    using assms sum_with_accum [OF k] by (simp add: accum_sum_def vs2_def vals2 rotation_ok_def)
  have max: "val_Accum v + val_VotingPower v \<le> val_Accum (?vals ! k) + val_VotingPower (?vals ! k)" if mem: "v \<in> set ?vals" for v
  proof -
    obtain i where i: "i < length ?vals" "v = ?vals ! i" using mem by (auto simp: in_set_conv_nth)
    then have "vals1 ! i \<in> set vals1" using l1 by simp
    then show ?thesis using f(4) [OF vne, of "vals1 ! i"] n1 [OF i(1)] n1 [OF k] i(2) by simp
  qed
  have low: "- powers ?vals < val_Accum v" if mem: "v \<in> set (with_accum k ?vals)" for v
  proof -
    obtain i where i: "i < length ?vals" "v = with_accum k ?vals ! i" using mem by (auto simp: in_set_conv_nth)
    have "?vals ! i \<in> set ?vals" using i(1) by simp
    then have b: "- powers ?vals < val_Accum (?vals ! i)" "0 \<le> val_VotingPower (?vals ! i)"
      using assms by (auto simp: rotation_ok_def vals_ok_def powers_ok_def)
    have "0 < val_Accum (?vals ! k) + val_VotingPower (?vals ! k)"
    proof (rule ccontr)
      assume "\<not> 0 < val_Accum (?vals ! k) + val_VotingPower (?vals ! k)"
      then have "sum_list (map (\<lambda>v. val_Accum v + val_VotingPower v) ?vals) \<le> 0"
        using max by (intro sum_list_nonpos) fastforce
      then show False using assms by (simp add: sum_list_addf rotation_ok_def accum_sum_def)
    qed
    then show ?thesis using b i by (auto simp: nth_with_accum)
  qed
  have "\<forall>p \<in> set (map val_VotingPower (with_accum k ?vals)). 0 \<le> p"
    unfolding map_power_with_accum using vals_ok_powers(1) [OF vok] by simp
  then have pos2: "\<forall>v \<in> set (with_accum k ?vals). 0 \<le> val_VotingPower v" by simp
  have "rotation_ok (vs2\<lparr> vs_proposer := Some (Validators vs2 ! k) \<rparr>)"
    using assms acc2 low tot(3) pos2
    by (auto simp: rotation_ok_def vs2_def vals2 accum_sum_def vals_ok_def powers_ok_def vs_Size_def p1 tot(2) l1)
  with run k max vals2 show ?thesis by (intro exI [of _ k] exI [of _ "vs2\<lparr> vs_proposer := Some (Validators vs2 ! k) \<rparr>"]) (simp add: vs2_def)
qed

section \<open>Many rounds\<close>

text \<open>The sets and the proposers of a number of rounds.\<close>

primrec rotate_rounds :: "bool \<Rightarrow> nat \<Rightarrow> ValidatorSet \<Rightarrow> (ValidatorSet \<times> Validator list) outcome" where
  "rotate_rounds right 0 vs = Ok (vs, [])"
| "rotate_rounds right (Suc n) vs =
     obind (IncrementAccum right 1 vs) (\<lambda>vs'.
     obind (deref (vs_proposer vs')) (\<lambda>p.
     obind (rotate_rounds right n vs') (\<lambda>(vs'', ps). Ok (vs'', p # ps))))"

definition turns :: "Validator \<Rightarrow> Validator list \<Rightarrow> int" where
  "turns v ps = int (length (filter (\<lambda>p. val_Address p = val_Address v) ps))"

definition same_validators :: "Validator list \<Rightarrow> Validator list \<Rightarrow> bool" where
  "same_validators vals vals' \<longleftrightarrow> map val_Address vals' = map val_Address vals \<and> map val_VotingPower vals' = map val_VotingPower vals"

lemma same_with_accum: "same_validators vals (with_accum k vals)"
  unfolding same_validators_def by (auto intro!: nth_equalityI simp: nth_with_accum)

lemma rotate_rounds_accum:
  assumes "rotation_ok vs" "distinct (map val_Address (Validators vs))"
  shows "\<exists>vs' ps. rotate_rounds right n vs = Ok (vs', ps) \<and> length ps = n \<and> rotation_ok vs' \<and>
    same_validators (Validators vs) (Validators vs') \<and>
    (\<forall>i < length (Validators vs). val_Accum (Validators vs' ! i) = val_Accum (Validators vs ! i) +
       int n * val_VotingPower (Validators vs ! i) - powers (Validators vs) * turns (Validators vs ! i) ps)"
  using assms
proof (induction n arbitrary: vs)
  case 0
  then show ?case by (simp add: turns_def same_validators_def)
next
  case (Suc n)
  let ?vals = "Validators vs"
  obtain k vs1 where s1: "IncrementAccum right 1 vs = Ok vs1" "k < length ?vals" "Validators vs1 = with_accum k ?vals"
    "vs_proposer vs1 = Some (Validators vs1 ! k)" "rotation_ok vs1"
    using increment_once [OF Suc.prems(1), of right] by blast
  have addr: "map val_Address (with_accum k ?vals) = map val_Address ?vals"
    using same_with_accum [of ?vals k] by (simp add: same_validators_def)
  obtain vs' ps where r: "rotate_rounds right n vs1 = Ok (vs', ps)" "length ps = n" "rotation_ok vs'"
    "same_validators (Validators vs1) (Validators vs')"
    "\<forall>i < length ?vals. val_Accum (Validators vs' ! i) = val_Accum (with_accum k ?vals ! i) +
       int n * val_VotingPower (with_accum k ?vals ! i) - powers ?vals * turns (with_accum k ?vals ! i) ps"
    using Suc.IH [OF s1(5)] Suc.prems(2) addr s1(3) by auto
  let ?p = "Validators vs1 ! k"
  have t: "turns (?vals ! i) (?p # ps) = (if i = k then 1 else 0) + turns (with_accum k ?vals ! i) ps" if "i < length ?vals" for i
  proof -
    have "val_Address (?vals ! k) = val_Address (?vals ! i) \<longleftrightarrow> i = k"
      using Suc.prems(2) s1(2) that nth_eq_iff_index_eq [of "map val_Address ?vals" k i] by auto
    then show ?thesis using that s1(2,3) by (simp add: turns_def nth_with_accum)
  qed
  have "val_Accum (Validators vs' ! i) = val_Accum (?vals ! i) + int (Suc n) * val_VotingPower (?vals ! i) -
      powers ?vals * turns (?vals ! i) (?p # ps)" if "i < length ?vals" for i
    using r(5) t [OF that] that by (auto simp: nth_with_accum algebra_simps)
  moreover have "rotate_rounds right (Suc n) vs = Ok (vs', ?p # ps)" using s1(1,4) r(1) by (simp add: deref_def)
  moreover have "same_validators ?vals (Validators vs')"
    using r(4) s1(3) same_with_accum [of ?vals k] by (simp add: same_validators_def)
  ultimately show ?case using r(2,3) by auto
qed

section \<open>Properties\<close>

text \<open>
  C20: The choice of the proposer is fair and goes on for ever: from a new set no number of rounds panics or
  overflows, and in any number of rounds a validator is the proposer in proportion to its power, up
  to one turn too many and fewer turns too few than there are validators.
\<close>

theorem proposers_in_proportion:
  assumes "rotation_ok vs" "distinct (map val_Address (Validators vs))" "\<forall>v \<in> set (Validators vs). val_Accum v = 0"
  shows "\<exists>vs' ps. rotate_rounds right n vs = Ok (vs', ps) \<and> length ps = n \<and>
    (\<forall>v \<in> set (Validators vs).
       powers (Validators vs) * turns v ps < int n * val_VotingPower v + powers (Validators vs) \<and>
       int n * val_VotingPower v < powers (Validators vs) * (turns v ps + int (length (Validators vs))))"
proof -
  let ?vals = "Validators vs"
  obtain vs' ps where r: "rotate_rounds right n vs = Ok (vs', ps)" "length ps = n" "rotation_ok vs'"
    "same_validators ?vals (Validators vs')"
    "\<forall>i < length ?vals. val_Accum (Validators vs' ! i) = val_Accum (?vals ! i) +
       int n * val_VotingPower (?vals ! i) - powers ?vals * turns (?vals ! i) ps"
    using rotate_rounds_accum [OF assms(1,2)] by blast
  have same: "powers (Validators vs') = powers ?vals" "length (Validators vs') = length ?vals"
    using r(4) by (simp add: same_validators_def, metis length_map same_validators_def r(4))
  have "powers ?vals * turns v ps < int n * val_VotingPower v + powers ?vals \<and>
      int n * val_VotingPower v < powers ?vals * (turns v ps + int (length ?vals))" if mem: "v \<in> set ?vals" for v
  proof -
    obtain i where i: "i < length ?vals" "v = ?vals ! i" using mem by (auto simp: in_set_conv_nth)
    then have a: "val_Accum (Validators vs' ! i) = int n * val_VotingPower v - powers ?vals * turns v ps"
      using r(5) assms(3) by simp
    have m: "Validators vs' ! i \<in> set (Validators vs')" using i(1) same(2) by simp
    then have "- powers ?vals < val_Accum (Validators vs' ! i)" using r(3) same(1) by (simp add: rotation_ok_def)
    moreover have "val_Accum (Validators vs' ! i) < int (length ?vals) * powers ?vals"
      using rotation_upper [OF r(3) m] same by simp
    ultimately show ?thesis using a by (simp add: algebra_simps)
  qed
  then show ?thesis using r(1,2) by blast
qed

theorem proposers_in_proportion_witness:
  "\<exists>vs' ps. rotate_rounds False 700 sample_set = Ok (vs', ps) \<and> length ps = 700 \<and>
     498 \<le> turns (sample_val 1 5) ps \<and> turns (sample_val 1 5) ps \<le> 501"
proof -
  have "rotation_ok sample_set"
    using sample_vals_ok by (simp add: rotation_ok_def accum_sum_def sample_set_def sample_val_def int64_simps)
  from proposers_in_proportion [OF this, of False 700] show ?thesis
    by (auto simp: sample_set_def sample_val_def)
qed

text \<open>
  C38: The proposer is remembered in the set but not saved with it, and the one that is computed from
  the saved numbers is another one: the number of the proposer has been lowered already. A node that loads its state
  takes a different validator for the proposer than the nodes that went on.
\<close>

theorem loaded_set_other_proposer:
  "\<exists>vals vs' p p'. IncrementAccum right 1 (NewValidatorSet vals) = Ok vs' \<and>
    vs_Proposer vs' = Ok (Some p, vs') \<and> (\<exists>vs''. vs_Proposer (vs'\<lparr> vs_proposer := None, vs_totalVotingPower := 0 \<rparr>) = Ok (Some p', vs'')) \<and>
    val_Address p \<noteq> val_Address p'"
proof -
  let ?vals = "[sample_val 1 1, sample_val 4 1]"
  define vs where "vs = \<lparr> Validators = ?vals, vs_proposer = None, vs_totalVotingPower = 0 \<rparr>"
  have new: "NewValidatorSet ?vals = vs" by (simp add: NewValidatorSet_def vs_def sample_val_def list_le_def list_less_def)
  have ok: "rotation_ok vs"
    by (simp add: rotation_ok_def accum_sum_def vs_def vals_ok_def powers_ok_def sample_val_def int64_simps vs_Size_def)
  obtain k vs' where s: "IncrementAccum right 1 vs = Ok vs'" "k < 2" "Validators vs' = with_accum k ?vals" "vs_proposer vs' = Some (Validators vs' ! k)"
    using increment_once [OF ok, of right] by (auto simp: vs_def numeral_2_eq_2)
  have "k = 0 \<or> k = 1" using s(2) by auto
  then show ?thesis
  proof
    assume k: "k = 0"
    have v: "Validators vs' = [(sample_val 1 1)\<lparr> val_Accum := -1 \<rparr>, (sample_val 4 1)\<lparr> val_Accum := 1 \<rparr>]"
      using s(3) k by (simp add: with_accum_def sample_val_def upt_rec)
    show ?thesis using s(1,4) k v new
      by (intro exI [of _ ?vals] exI [of _ vs'] exI [of _ "(sample_val 1 1)\<lparr> val_Accum := -1 \<rparr>"] exI [of _ "(sample_val 4 1)\<lparr> val_Accum := 1 \<rparr>"])
        (simp add: vs_Proposer_def CompareAccum_def sample_val_def)
  next
    assume k: "k = 1"
    have v: "Validators vs' = [(sample_val 1 1)\<lparr> val_Accum := 1 \<rparr>, (sample_val 4 1)\<lparr> val_Accum := -1 \<rparr>]"
      using s(3) k by (simp add: with_accum_def sample_val_def upt_rec)
    show ?thesis using s(1,4) k v new
      by (intro exI [of _ ?vals] exI [of _ vs'] exI [of _ "(sample_val 4 1)\<lparr> val_Accum := -1 \<rparr>"] exI [of _ "(sample_val 1 1)\<lparr> val_Accum := 1 \<rparr>"])
        (simp add: vs_Proposer_def CompareAccum_def sample_val_def)
  qed
qed

end
