(* ===== verification/Block_Execution.thy ===== *)
theory Block_Execution
  imports Proposer Call_Effects Simple_Merkle
begin

text \<open>
  Executing a block (\<open>ExecBlock\<close> of the vendored \<open>state/execution.go\<close>, \<open>releaseValidator\<close> of
  \<open>state/state.go\<close>, the checks and hashes of \<open>types/block.go\<close>). The parameters are the ones of the
  transactions, the hash function, the encodings of a precommit and of a validator by the reflective
  encoder, and the hashes of the three trees. The hash of a tree depends on its shape, so it is given by
  the writes the tree got since the node started, in their order, and not by what the tree holds. The
  order in which \<open>releaseValidator\<close> walks over the accounts it pays, a Go map, is the parameter \<open>be_range\<close>:
  it may be another one for every validator, every state and every node.
\<close>

record block_env =
  be_exec :: exec_env
  be_tree_Save :: "storage_tree \<Rightarrow> bytes"
  be_Hash :: "bytes \<Rightarrow> bytes"
  be_Vote_Bytes :: "Vote option \<Rightarrow> bytes"
  be_Validator_Bytes :: "Validator \<Rightarrow> bytes"
  be_accounts_Hash :: "(bytes, Account) tree_writes \<Rightarrow> bytes"
  be_infos_Hash :: "(bytes, ValidatorInfo) tree_writes \<Rightarrow> bytes"
  be_names_Hash :: "(string, NameRegEntry) tree_writes \<Rightarrow> bytes"
  be_range :: "Validator \<Rightarrow> State \<Rightarrow> (bytes, Account) gomap \<Rightarrow> (bytes, Account) gomap"
  be_chain_id :: string
  be_evc :: bool
  be_right :: bool

section \<open>Hashes\<close>

definition string_bytes :: "string \<Rightarrow> bytes" where
  "string_bytes s = map (\<lambda>c. of_char c) s"

definition KVPair_Hash :: "(bytes \<Rightarrow> bytes) \<Rightarrow> string \<times> bytes \<Rightarrow> bytes" where
  "KVPair_Hash H kv = H (WriteByteSlice (string_bytes (fst kv)) @ snd kv)"

definition MakeSortedKVPairs :: "(string \<times> bytes) list \<Rightarrow> (string \<times> bytes) list" where
  "MakeSortedKVPairs m = sort_key fst m"

definition SimpleHashFromMap :: "(bytes \<Rightarrow> bytes) \<Rightarrow> (string \<times> bytes) list \<Rightarrow> bytes" where
  "SimpleHashFromMap H m = SimpleHashFromHashes H (map (KVPair_Hash H) (MakeSortedKVPairs m))"

definition Header_Hash :: "(bytes \<Rightarrow> bytes) \<Rightarrow> Header \<Rightarrow> bytes" where
  "Header_Hash H h =
     (if hdr_StateHash h = [] then []
      else SimpleHashFromMap H
        [(''ChainID'', WriteByteSlice (string_bytes (hdr_ChainID h))),
         (''Height'', WriteVarint (hdr_Height h)),
         (''Time'', WriteTime (hdr_Time h)),
         (''Fees'', WriteInt64 (hdr_Fees h)),
         (''NumTxs'', WriteVarint (hdr_NumTxs h)),
         (''LastBlock'', WriteByteSlice (hdr_LastBlockHash h)),
         (''LastBlockParts'', Header_BinaryBytes (hdr_LastBlockParts h)),
         (''LastValidation'', WriteByteSlice (hdr_LastValidationHash h)),
         (''Data'', WriteByteSlice (hdr_DataHash h)),
         (''State'', WriteByteSlice (hdr_StateHash h))])"

definition ValidatorSet_Hash :: "block_env \<Rightarrow> ValidatorSet \<Rightarrow> bytes" where
  "ValidatorSet_Hash B vs =
     (if Validators vs = [] then []
      else SimpleHashFromHashes (be_Hash B) (map (\<lambda>v. be_Hash B (be_Validator_Bytes B v)) (Validators vs)))"

definition State_Hash :: "block_env \<Rightarrow> State \<Rightarrow> bytes" where
  "State_Hash B s =
     SimpleHashFromMap (be_Hash B)
       [(''BondedValidators'', WriteByteSlice (ValidatorSet_Hash B (BondedValidators s))),
        (''UnbondingValidators'', WriteByteSlice (ValidatorSet_Hash B (UnbondingValidators s))),
        (''Accounts'', WriteByteSlice (be_accounts_Hash B (accounts_writes s))),
        (''ValidatorInfos'', WriteByteSlice (be_infos_Hash B (infos_writes s))),
        (''NameRegistry'', WriteByteSlice (be_names_Hash B (names_writes s)))]"

definition Validation_Hash :: "block_env \<Rightarrow> Vote option list \<Rightarrow> bytes" where
  "Validation_Hash B ps = SimpleHashFromHashes (be_Hash B) (map (\<lambda>p. be_Hash B (be_Vote_Bytes B p)) ps)"

text \<open>The transactions are encoded with the chain id of the configuration.\<close>

fun data_leaves :: "block_env \<Rightarrow> Tx list \<Rightarrow> bytes list outcome" where
  "data_leaves B [] = Ok []"
| "data_leaves B (tx # txs) =
     obind (SignBytes (ex_wire (be_exec B)) (be_chain_id B) tx) (\<lambda>sb.
     obind (data_leaves B txs) (\<lambda>hs. Ok (be_Hash B (WriteByteSlice (string_bytes sb)) # hs)))"

definition Data_Hash :: "block_env \<Rightarrow> Tx list \<Rightarrow> bytes outcome" where
  "Data_Hash B txs = obind (data_leaves B txs) (\<lambda>hs. Ok (SimpleHashFromHashes (be_Hash B) hs))"

text \<open>\<open>Hash\<close> fills the hashes of the header first.\<close>

definition Block_Hash :: "block_env \<Rightarrow> Block \<Rightarrow> bytes outcome" where
  "Block_Hash B b =
     obind (Data_Hash B (block_Txs b)) (\<lambda>dh.
       Ok (Header_Hash (be_Hash B) ((block_Header b)\<lparr> hdr_LastValidationHash := Validation_Hash B (block_Precommits b),
             hdr_DataHash := dh \<rparr>)))"

section \<open>Checks\<close>

definition Block_ValidateBasic ::
  "block_env \<Rightarrow> string \<Rightarrow> int \<Rightarrow> bytes \<Rightarrow> PartSetHeader \<Rightarrow> Block \<Rightarrow> unit outcome" where
  "Block_ValidateBasic B chainID lastHeight lastHash lastParts b =
     (let h = block_Header b in
      if hdr_ChainID h \<noteq> chainID
      then Err (''Wrong Block.Header.ChainID. Expected '' @ chainID @ '', got '' @ hdr_ChainID h)
      else if hdr_Height h \<noteq> wrap64 (lastHeight + 1)
      then Err (''Wrong Block.Header.Height. Expected '' @ show_int (wrap64 (lastHeight + 1)) @ '', got '' @ show_int (hdr_Height h))
      else if hdr_NumTxs h \<noteq> int (length (block_Txs b))
      then Err (''Wrong Block.Header.NumTxs. Expected '' @ show_nat (length (block_Txs b)) @ '', got '' @ show_int (hdr_NumTxs h))
      else if hdr_LastBlockHash h \<noteq> lastHash
      then Err (''Wrong Block.Header.LastBlockHash.  Expected '' @ fmt_X lastHash @ '', got '' @ fmt_X (hdr_LastBlockHash h))
      else if hdr_LastBlockParts h \<noteq> lastParts
      then Err (''Wrong Block.Header.LastBlockParts. Expected '' @ PartSetHeader_String lastParts @ '', got '' @
                PartSetHeader_String (hdr_LastBlockParts h))
      else if hdr_LastValidationHash h \<noteq> Validation_Hash B (block_Precommits b)
      then Err (''Wrong Block.Header.LastValidationHash.  Expected '' @ fmt_X (hdr_LastValidationHash h) @ '', got '' @
                fmt_X (Validation_Hash B (block_Precommits b)))
      else obind (if hdr_Height h \<noteq> 1 then Validation_ValidateBasic (block_Precommits b) else Ok ()) (\<lambda>_.
           obind (Data_Hash B (block_Txs b)) (\<lambda>dh.
             if hdr_DataHash h \<noteq> dh
             then Err (''Wrong Block.Header.DataHash.  Expected '' @ fmt_X (hdr_DataHash h) @ '', got '' @ fmt_X dh)
             else Ok ())))"

definition check_commit :: "block_env \<Rightarrow> Block \<Rightarrow> State \<Rightarrow> unit outcome" where
  "check_commit B b s =
     (if hdr_Height (block_Header b) = 1
      then if block_Precommits b \<noteq> []
           then Err ''Block at height 1 (first block) should have no LastValidation precommits'' else Ok ()
      else if length (block_Precommits b) \<noteq> vs_Size (LastBondedValidators s)
      then Err (''Invalid block validation size. Expected '' @ show_nat (vs_Size (LastBondedValidators s)) @ '', got '' @
                show_nat (length (block_Precommits b)))
      else VerifyValidation (ex_wire (be_exec B)) (ChainID s) (LastBlockHash s) (LastBlockParts s)
             (wrap64 (hdr_Height (block_Header b) - 1)) (block_Precommits b) (LastBondedValidators s))"

section \<open>Validators\<close>

definition unbondingPeriodBlocks :: int where
  "unbondingPeriodBlocks = 525600"

text \<open>A validator that signed the commit is remembered with its height.\<close>

definition touch_validator :: "int \<Rightarrow> bytes \<Rightarrow> State \<Rightarrow> State outcome" where
  "touch_validator height addr s =
     (case Validator_Set.GetByAddress addr (BondedValidators s) of
        Some (_, v) \<Rightarrow>
          (let (updated, vs) = vs_Update (v\<lparr> val_LastCommitHeight := wrap64 (height - 1) \<rparr>) (BondedValidators s) in
           if \<not> updated then Panic ''Failed to update bonded validator LastCommitHeight''
           else Ok (s\<lparr> BondedValidators := vs \<rparr>))
      | None \<Rightarrow>
          (case Validator_Set.GetByAddress addr (UnbondingValidators s) of
             Some (_, v) \<Rightarrow>
               (let (updated, vs) = vs_Update (v\<lparr> val_LastCommitHeight := wrap64 (height - 1) \<rparr>) (UnbondingValidators s) in
                if \<not> updated then Panic ''Failed to update unbonding validator LastCommitHeight''
                else Ok (s\<lparr> UnbondingValidators := vs \<rparr>))
           | None \<Rightarrow> Panic ''Could not find validator''))"

fun touch_validators :: "int \<Rightarrow> nat \<Rightarrow> Vote option list \<Rightarrow> State \<Rightarrow> State outcome" where
  "touch_validators height i [] s = Ok s"
| "touch_validators height i (None # ps) s = touch_validators height (Suc i) ps s"
| "touch_validators height i (Some _ # ps) s =
     obind (Validator_Set.GetByIndex (int i) (LastBondedValidators s)) (\<lambda>(_, val).
     obind (touch_validator height (val_Address val) s) (touch_validators height (Suc i) ps))"

text \<open>The accounts are written one after the other, in the order of the iteration.\<close>

definition update_accounts :: "(bytes, Account) gomap \<Rightarrow> State \<Rightarrow> State" where
  "update_accounts accs s = foldl (\<lambda>s (_, acc). State_UpdateAccount acc s) s accs"

definition releaseValidator :: "block_env \<Rightarrow> Validator \<Rightarrow> State \<Rightarrow> State outcome" where
  "releaseValidator B val s =
     (case GetValidatorInfo s (val_Address val) of
        None \<Rightarrow> Panic ''Couldn't find validatorInfo for release''
      | Some valInfo \<Rightarrow>
          (let s1 = SetValidatorInfo (valInfo\<lparr> vi_ReleasedHeight := next_height s \<rparr>) s in
           case getOrMakeOutputs State_getter False [] (vi_UnbondTo valInfo) s1 of
             (_, Err e) \<Rightarrow> Panic ''Couldn't get or make unbondTo accounts''
           | (_, Panic e) \<Rightarrow> Panic e
           | (s2, Ok accs) \<Rightarrow>
               obind (adjustByOutputs accs (vi_UnbondTo valInfo)) (\<lambda>accs'.
                 let s3 = update_accounts (be_range B val s2 accs') s2 in
                 case vs_Remove (val_Address val) (UnbondingValidators s3) of
                   (None, _) \<Rightarrow> Panic ''Couldn't remove validator for release''
                 | (Some _, unbonding) \<Rightarrow> Ok (s3\<lparr> UnbondingValidators := unbonding \<rparr>))))"

definition each_val :: "(Validator \<Rightarrow> State \<Rightarrow> State outcome) \<Rightarrow> Validator list \<Rightarrow> State \<Rightarrow> State outcome" where
  "each_val f vals s = foldl (\<lambda>r v. obind r (f v)) (Ok s) vals"

definition toRelease :: "int \<Rightarrow> State \<Rightarrow> Validator list" where
  "toRelease height s =
     filter (\<lambda>v. wrap64 (val_UnbondHeight v + unbondingPeriodBlocks) < height) (Validators (UnbondingValidators s))"

definition toTimeout :: "int \<Rightarrow> State \<Rightarrow> Validator list" where
  "toTimeout height s =
     filter (\<lambda>v. wrap64 (max (val_BondHeight v) (val_LastCommitHeight v) + validatorTimeoutBlocks) < height)
       (Validators (BondedValidators s))"

section \<open>Blocks\<close>

text \<open>
  The transactions of a block, as their execution changes them, and the events they fire. The first
  error ends the block; its message is given without the printed transaction.
\<close>

fun exec_txs :: "exec_env \<Rightarrow> bool \<Rightarrow> Tx list \<Rightarrow> BlockCache \<Rightarrow> (BlockCache \<times> Tx list \<times> fired) outcome" where
  "exec_txs X evc [] c = Ok (c, [], [])"
| "exec_txs X evc (tx # txs) c =
     (case ExecTx X True evc tx c of
        (c1, Ok (tx', evs)) \<Rightarrow> obind (exec_txs X evc txs c1) (\<lambda>(c2, txs', evs'). Ok (c2, tx' # txs', evs @ evs'))
      | (c1, Err e) \<Rightarrow> Err (''Invalid tx: reason: ['' @ e @ '']'')
      | (c1, Panic e) \<Rightarrow> Panic e)"

definition run_txs :: "block_env \<Rightarrow> Tx list \<Rightarrow> State \<Rightarrow> (State \<times> Tx list \<times> fired) outcome" where
  "run_txs B txs s =
     obind (exec_txs (be_exec B) (be_evc B) txs (NewBlockCache s)) (\<lambda>(c, txs', evs).
     obind (bc_Sync (be_tree_Save B) c) (\<lambda>s'. Ok (s', txs', evs)))"

definition end_block :: "block_env \<Rightarrow> int \<Rightarrow> State \<Rightarrow> State outcome" where
  "end_block B height s =
     obind (each_val (releaseValidator B) (toRelease height s) s) (\<lambda>s1.
     obind (each_val unbondValidator (toTimeout height s1) s1) (\<lambda>s2.
     obind (IncrementAccum (be_right B) 1 (BondedValidators s2)) (\<lambda>bonded.
       Ok (s2\<lparr> BondedValidators := bonded \<rparr>))))"

text \<open>
  The state after the block, the transactions as they were changed, and the events. The hash of the
  block is the one of its transactions before they were executed: \<open>Data\<close> remembers its hash.
\<close>

definition execBlock :: "block_env \<Rightarrow> Block \<Rightarrow> PartSetHeader \<Rightarrow> State \<Rightarrow> (State \<times> Tx list \<times> fired) outcome" where
  "execBlock B b parts s =
     (let height = hdr_Height (block_Header b) in
      obind (Block_ValidateBasic B (ChainID s) (LastBlockHeight s) (LastBlockHash s) (LastBlockParts s) b) (\<lambda>_.
      obind (check_commit B b s) (\<lambda>_.
      obind (touch_validators height 0 (block_Precommits b) s) (\<lambda>s1.
      obind (run_txs B (block_Txs b) (s1\<lparr> LastBondedValidators := BondedValidators s1 \<rparr>)) (\<lambda>(s2, txs, evs).
      obind (end_block B height s2) (\<lambda>s3.
      obind (Block_Hash B b) (\<lambda>hash.
        Ok (s3\<lparr> LastBlockHeight := height, LastBlockHash := hash, LastBlockParts := parts,
                 LastBlockTime := hdr_Time (block_Header b) \<rparr>, txs, evs))))))))"

definition ExecBlock :: "block_env \<Rightarrow> Block \<Rightarrow> PartSetHeader \<Rightarrow> State \<Rightarrow> (State \<times> Tx list \<times> fired) outcome" where
  "ExecBlock B b parts s =
     obind (execBlock B b parts s) (\<lambda>(s', txs, evs).
       if State_Hash B s' \<noteq> hdr_StateHash (block_Header b)
       then Err (''Invalid state hash. Expected '' @ fmt_X (State_Hash B s') @ '', got '' @ fmt_X (hdr_StateHash (block_Header b)))
       else Ok (s', txs, evs))"

text \<open>
  Making a block: it is executed on a copy of the state that has no event cache, which changes its
  transactions, and gets the hash of the state after it.
\<close>

definition ComputeBlockStateHash :: "block_env \<Rightarrow> Block \<Rightarrow> State \<Rightarrow> Block outcome" where
  "ComputeBlockStateHash B b s =
     obind (execBlock (B\<lparr> be_evc := False \<rparr>) b zero_header s) (\<lambda>(s', txs, _).
       Ok (b\<lparr> block_Txs := txs, block_Header := (block_Header b)\<lparr> hdr_StateHash := State_Hash B s' \<rparr> \<rparr>))"

section \<open>Chaining\<close>

lemma ValidateBasic_eq_Ok:
  assumes "Block_ValidateBasic B chainID lastHeight lastHash lastParts b = Ok ()"
  shows "hdr_ChainID (block_Header b) = chainID" "hdr_Height (block_Header b) = wrap64 (lastHeight + 1)"
    "hdr_NumTxs (block_Header b) = int (length (block_Txs b))" "hdr_LastBlockHash (block_Header b) = lastHash"
    "hdr_LastBlockParts (block_Header b) = lastParts"
    "hdr_LastValidationHash (block_Header b) = Validation_Hash B (block_Precommits b)"
    "Data_Hash B (block_Txs b) = Ok (hdr_DataHash (block_Header b))"
  using assms by (simp_all add: Block_ValidateBasic_def Let_def obind_eq_Ok split: if_splits)

lemma execBlock_eq_Ok:
  assumes "execBlock B b parts s = Ok (s', txs, evs)"
  obtains s1 s2 s3 hash where
    "Block_ValidateBasic B (ChainID s) (LastBlockHeight s) (LastBlockHash s) (LastBlockParts s) b = Ok ()"
    "check_commit B b s = Ok ()" "touch_validators (hdr_Height (block_Header b)) 0 (block_Precommits b) s = Ok s1"
    "run_txs B (block_Txs b) (s1\<lparr> LastBondedValidators := BondedValidators s1 \<rparr>) = Ok (s2, txs, evs)"
    "end_block B (hdr_Height (block_Header b)) s2 = Ok s3" "Block_Hash B b = Ok hash"
    "s' = s3\<lparr> LastBlockHeight := hdr_Height (block_Header b), LastBlockHash := hash, LastBlockParts := parts,
              LastBlockTime := hdr_Time (block_Header b) \<rparr>"
  using assms by (auto simp: execBlock_def Let_def obind_eq_Ok)

lemma ExecBlock_eq_Ok:
  "ExecBlock B b parts s = Ok (s', txs, evs) \<longleftrightarrow>
     execBlock B b parts s = Ok (s', txs, evs) \<and> State_Hash B s' = hdr_StateHash (block_Header b)"
  by (auto simp: ExecBlock_def obind_eq_Ok split: if_splits)

text \<open>
  C5: A block that \<open>ExecBlock\<close> accepts extends the chain: it has the next height and names the last block
  by its hash and its parts, its header covers its transactions and the commit of the last block,
  which validators of the last block signed, its state hash is the one of the state after it, and
  the state then names it as the last block.
\<close>

theorem ExecBlock_extends_chain:
  assumes "ExecBlock B b parts s = Ok (s', txs, evs)"
  shows "hdr_ChainID (block_Header b) = ChainID s \<and>
    hdr_Height (block_Header b) = next_height s \<and>
    hdr_LastBlockHash (block_Header b) = LastBlockHash s \<and> hdr_LastBlockParts (block_Header b) = LastBlockParts s \<and>
    Data_Hash B (block_Txs b) = Ok (hdr_DataHash (block_Header b)) \<and>
    Validation_Hash B (block_Precommits b) = hdr_LastValidationHash (block_Header b) \<and>
    (if next_height s = 1 then block_Precommits b = []
     else VerifyValidation (ex_wire (be_exec B)) (ChainID s) (LastBlockHash s) (LastBlockParts s)
            (wrap64 (next_height s - 1)) (block_Precommits b) (LastBondedValidators s) = Ok ()) \<and>
    State_Hash B s' = hdr_StateHash (block_Header b) \<and>
    LastBlockHeight s' = next_height s \<and> LastBlockParts s' = parts \<and>
    LastBlockHash s' = Header_Hash (be_Hash B) (block_Header b)"
proof -
  from assms have ex: "execBlock B b parts s = Ok (s', txs, evs)"
    and hash: "State_Hash B s' = hdr_StateHash (block_Header b)" by (simp_all add: ExecBlock_eq_Ok)
  from ex obtain s1 s2 s3 hs where
    basic: "Block_ValidateBasic B (ChainID s) (LastBlockHeight s) (LastBlockHash s) (LastBlockParts s) b = Ok ()"
    and commit: "check_commit B b s = Ok ()" and hs: "Block_Hash B b = Ok hs"
    and s': "s' = s3\<lparr> LastBlockHeight := hdr_Height (block_Header b), LastBlockHash := hs, LastBlockParts := parts,
      LastBlockTime := hdr_Time (block_Header b) \<rparr>"
    by (rule execBlock_eq_Ok)
  note v = ValidateBasic_eq_Ok [OF basic]
  have h: "hdr_Height (block_Header b) = next_height s" using v(2) by (simp add: next_height_def)
  have "hs = Header_Hash (be_Hash B) (block_Header b)"
    using hs v(7) by (auto simp: Block_Hash_def obind_eq_Ok v(6) [symmetric])
  moreover have "if next_height s = 1 then block_Precommits b = []
     else VerifyValidation (ex_wire (be_exec B)) (ChainID s) (LastBlockHash s) (LastBlockParts s)
            (wrap64 (next_height s - 1)) (block_Precommits b) (LastBondedValidators s) = Ok ()"
    using commit by (simp add: check_commit_def h split: if_splits)
  ultimately show ?thesis
    using v h hash s' by simp
qed

text \<open>The first block of a chain, with one payment; a hash function that tells nothing apart.\<close>

definition sample_env :: block_env where
  "sample_env = \<lparr> be_exec = sample_exec, be_tree_Save = (\<lambda>_. []), be_Hash = (\<lambda>_. [1]), be_Vote_Bytes = (\<lambda>_. []),
     be_Validator_Bytes = (\<lambda>_. []), be_accounts_Hash = (\<lambda>_. []), be_infos_Hash = (\<lambda>_. []), be_names_Hash = (\<lambda>_. []),
     be_range = (\<lambda>_ _ m. m),
     be_chain_id = ''c'', be_evc = True, be_right = True \<rparr>"

definition sample_block :: "Tx list \<Rightarrow> Block" where
  "sample_block txs = \<lparr> block_Header = \<lparr> hdr_ChainID = ''c'', hdr_Height = 1, hdr_Time = 5, hdr_Fees = 0,
       hdr_NumTxs = int (length txs), hdr_LastBlockHash = [], hdr_LastBlockParts = zero_header, hdr_LastValidationHash = [],
       hdr_DataHash = [1], hdr_StateHash = [1] \<rparr>, block_Txs = txs, block_Precommits = [] \<rparr>"

definition sample_genesis :: State where
  "sample_genesis = (bc_backend sample_ledger)\<lparr> LastBlockHeight := 0, LastBlockParts := zero_header \<rparr>"

lemma sample_block_runs:
  "case ExecBlock sample_env (sample_block [TxSend (sample_send 9 4 3)]) zero_header sample_genesis of Ok r \<Rightarrow> True | _ \<Rightarrow> False"
  by code_simp

theorem ExecBlock_extends_chain_witness:
  "\<exists>s' txs evs. ExecBlock sample_env (sample_block [TxSend (sample_send 9 4 3)]) zero_header sample_genesis = Ok (s', txs, evs) \<and>
     LastBlockHeight s' = 1 \<and> LastBlockHash s' = [1]"
proof -
  obtain s' txs evs where run:
    "ExecBlock sample_env (sample_block [TxSend (sample_send 9 4 3)]) zero_header sample_genesis = Ok (s', txs, evs)"
    using sample_block_runs by (auto split: outcome.splits)
  have "next_height sample_genesis = 1" by code_simp
  moreover have "Header_Hash (be_Hash sample_env) (block_Header (sample_block [TxSend (sample_send 9 4 3)])) = [1]"
    by code_simp
  ultimately show ?thesis
    using ExecBlock_extends_chain [OF run] run by auto
qed

section \<open>Evidence against a validator\<close>

lemma data_leaves_dupeout: "TxDupeout d \<in> set txs \<Longrightarrow> (\<forall>hs. data_leaves B txs \<noteq> Ok hs)"
  by (induction txs) (auto simp: obind_eq_Ok)

lemma Data_Hash_no_dupeout: "Data_Hash B txs = Ok dh \<Longrightarrow> TxDupeout d \<notin> set txs"
  using data_leaves_dupeout [of d txs B] by (auto simp: Data_Hash_def obind_eq_Ok)

lemma data_leaves_panic:
  assumes "list_all (\<lambda>tx. \<exists>sb. SignBytes (ex_wire (be_exec B)) (be_chain_id B) tx = Ok sb) pre"
  shows "data_leaves B (pre @ TxDupeout d # post) = Panic ''DupeoutTx has no sign bytes''"
  using assms by (induction pre) auto

text \<open>
  C39: Evidence of double signing cannot be put in a block. A duplicate-vote transaction has no sign bytes,
  and the hash of a block is made from the sign bytes of its transactions: the hash of a block with
  such a transaction panics, for the proposer that makes the block as for everyone who gets it, and
  no such block is ever accepted.
\<close>

theorem dupeout_block_panics:
  assumes "block_Txs b = pre @ TxDupeout d # post"
    "list_all (\<lambda>tx. \<exists>sb. SignBytes (ex_wire (be_exec B)) (be_chain_id B) tx = Ok sb) pre"
  shows "Block_Hash B b = Panic ''DupeoutTx has no sign bytes'' \<and> (\<forall>r. ExecBlock B b parts s \<noteq> Ok r)"
proof -
  have "Data_Hash B (block_Txs b) = Panic ''DupeoutTx has no sign bytes''"
    using data_leaves_panic [OF assms(2)] assms(1) by (simp add: Data_Hash_def)
  then show ?thesis
    by (auto simp: Block_Hash_def ExecBlock_def obind_eq_Ok dest: ValidateBasic_eq_Ok(7) elim!: execBlock_eq_Ok)
qed

definition sample_evidence :: DupeoutTx where
  "sample_evidence = \<lparr> dupe_Address = [1], VoteA = sample_vote, VoteB = sample_vote\<lparr> vote_BlockHash := [] \<rparr> \<rparr>"

theorem dupeout_block_panics_witness:
  "Block_Hash sample_env (sample_block [TxDupeout sample_evidence]) = Panic ''DupeoutTx has no sign bytes''"
  using dupeout_block_panics [of "sample_block [TxDupeout sample_evidence]" "[]" sample_evidence "[]" sample_env]
  by (simp add: sample_block_def)

end
