(* ===== verification/Block_Validators.thy ===== *)
theory Block_Validators
  imports Block_Execution
begin

text \<open>
  What a block does to the validators. The transactions of an accepted block bond, unbond and rebond
  them, its end releases and unbonds them; everything else leaves them alone. These are the steps of the relation
  \<open>validator_step\<close>. The invariant of the sets is shown for its steps, and holds after every block.
\<close>

section \<open>Caches leave the state alone\<close>

abbreviation (input) behind :: "(State \<Rightarrow> bool) \<Rightarrow> BlockCache \<Rightarrow> bool" where
  "behind P c \<equiv> P (bc_backend c)"

lemma backend_UpdateAccount: "bc_UpdateAccount acc c = Ok c' \<Longrightarrow> bc_backend c' = bc_backend c"
  by (auto simp: bc_UpdateAccount_def Let_def split: if_splits)

lemma backend_update_all: "update_all accs c = Ok c' \<Longrightarrow> bc_backend c' = bc_backend c"
  by (induction accs c rule: update_all.induct) (auto simp: obind_eq_Ok dest: backend_UpdateAccount)

lemma backend_write_entry: "write_entry old new c = Ok c' \<Longrightarrow> bc_backend c' = bc_backend c"
  by (auto simp: write_entry_def obind_eq_Ok bc_UpdateNameRegEntry_def bc_RemoveNameRegEntry_def
      split: option.splits if_splits)

lemma backend_poke [simp]: "bc_backend (poke a acc c) = bc_backend c"
  by (simp add: poke_def)

lemma backend_SetStorage: "bc_SetStorage a k w c = Ok c' \<Longrightarrow> bc_backend c' = bc_backend c"
  by (auto simp: bc_SetStorage_def split: if_splits)

lemma backend_RemoveAccount: "bc_RemoveAccount a c = Ok c' \<Longrightarrow> bc_backend c' = bc_backend c"
  by (auto simp: bc_RemoveAccount_def split: if_splits)

lemma backend_each:
  assumes "\<And>k v c c'. f k v c = Ok c' \<Longrightarrow> bc_backend c' = bc_backend c"
  shows "each f kvs c = Ok c' \<Longrightarrow> bc_backend c' = bc_backend c"
proof (induction kvs arbitrary: c)
  case (Cons kv kvs)
  then show ?case using assms by (cases kv) (fastforce simp: obind_eq_Ok)
qed simp

lemma backend_tc_Sync: "tc_Sync t = Ok c \<Longrightarrow> bc_backend c = bc_backend (tc_backend t)"
proof -
  have storage: "bc_backend c' = bc_backend c"
    if "each (\<lambda>(addr, key) value. bc_SetStorage addr key value) kvs c = Ok c'" for kvs c c'
    using that by (rule backend_each [rotated]) (auto dest: backend_SetStorage)
  have account: "bc_backend c' = bc_backend c" if "each (sync_vm_account h) kvs c = Ok c'" for h kvs c c'
    using that
    by (rule backend_each [rotated])
      (auto simp: sync_vm_account_def obind_eq_Ok dest: backend_UpdateAccount backend_RemoveAccount split: if_splits)
  show "tc_Sync t = Ok c \<Longrightarrow> bc_backend c = bc_backend (tc_backend t)"
    by (auto simp: tc_Sync_def obind_eq_Ok dest!: storage account)
qed

lemma preserves_check_pub_key: "preserves (behind P) (check_pub_key W acc inp)"
  unfolding check_pub_key_def by (auto intro!: preserves_intros)

lemma preserves_getInputs: "preserves (behind P) (getInputs W accs ins)"
  by (induction W accs ins rule: getInputs.induct)
    (auto intro!: preserves_intros preserves_check_pub_key split: option.split)

lemma preserves_unbond_to: "preserves (behind P) (check_unbond_to b outs)"
  by (induction b outs rule: check_unbond_to.induct) (auto intro!: preserves_intros)

lemma preserves_permission_rules:
  "preserves (behind P) (HasPermission bc_GetAccount oacc perm)"
  "preserves (behind P) (hasNamePermission bc_GetAccount acc)"
  "preserves (behind P) (hasCallPermission bc_GetAccount acc)"
  "preserves (behind P) (hasCreateContractPermission bc_GetAccount acc)"
  "preserves (behind P) (hasSendPermission bc_GetAccount accs)"
  "preserves (behind P) (hasCreateAccountPermission bc_GetAccount accs)"
  "preserves (behind P) (hasBondPermission bc_GetAccount oacc)"
  "preserves (behind P) (hasBondOrSendPermission bc_GetAccount accs)"
  "preserves (behind P) (getOrMakeOutputs bc_GetAccount b accs outs)"
  unfolding hasNamePermission_def hasCallPermission_def hasCreateContractPermission_def hasSendPermission_def
    hasCreateAccountPermission_def hasBondPermission_def
  by (rule preserves_intros; simp)+

lemma preserves_check_single:
  assumes "\<And>acc. preserves (behind P) (permission acc)"
  shows "preserves (behind P) (check_single X input permission denied tx)"
  unfolding check_single_def
  by (auto intro!: preserves_intros preserves_check_pub_key assms split: option.split)

lemmas cache_rules = preserves_intros preserves_check_pub_key preserves_getInputs preserves_unbond_to
  preserves_permission_rules preserves_check_single

lemmas cache_backends = backend_UpdateAccount backend_update_all backend_write_entry

lemma cache_kept:
  "behind P c \<Longrightarrow> update_all accs c = Ok c' \<Longrightarrow> behind P c'"
  "behind P c \<Longrightarrow> bc_UpdateAccount acc c = Ok c' \<Longrightarrow> behind P c'"
  "behind P c \<Longrightarrow> write_entry old new c = Ok c' \<Longrightarrow> behind P c'"
  by (simp_all add: cache_backends)

lemma cache_shown:
  "behind P c \<Longrightarrow> behind P (snd (bc_GetAccount a c))"
  "behind P c \<Longrightarrow> behind P (snd (bc_GetNameRegEntry n c))"
  "behind P c \<Longrightarrow> behind P (poke a acc c)"
  by simp_all

section \<open>Steps of the validators\<close>

text \<open>The steps; the last one is for the accounts and names, which \<open>Sync\<close> and the release of a bond write.\<close>

definition same_validators_state :: "State \<Rightarrow> State \<Rightarrow> bool" where
  "same_validators_state s s' \<longleftrightarrow> LastBlockHeight s' = LastBlockHeight s \<and> LastBondedValidators s' = LastBondedValidators s \<and>
     BondedValidators s' = BondedValidators s \<and> UnbondingValidators s' = UnbondingValidators s \<and>
     st_validatorInfos s' = st_validatorInfos s"

inductive validator_step :: "State \<Rightarrow> State \<Rightarrow> bool" where
  bond: "GetValidatorInfo s addr = None \<Longrightarrow> add_validator tx addr n s = Ok s' \<Longrightarrow> validator_step s s'"
| unbond: "unbondValidator v s = Ok s' \<Longrightarrow> validator_step s s'"
| rebond: "rebondValidator v s = Ok s' \<Longrightarrow> validator_step s s'"
| release: "vs_map (UnbondingValidators s) (val_Address v) = Some w \<Longrightarrow>
    wrap64 (val_UnbondHeight w + unbondingPeriodBlocks) < next_height s \<Longrightarrow> releaseValidator B v s = Ok s' \<Longrightarrow>
    validator_step s s'"
| outside: "same_validators_state s s' \<Longrightarrow> validator_step s s'"

text \<open>An operation on a cache in front of the state \<open>s\<close> makes at most one step.\<close>

definition one_step :: "State \<Rightarrow> (BlockCache, 'a) exec \<Rightarrow> bool" where
  "one_step s m \<longleftrightarrow> (\<forall>c. bc_backend c = s \<longrightarrow> bc_backend (fst (m c)) = s \<or> validator_step s (bc_backend (fst (m c))))"

lemma one_step_keeps: "preserves (behind (\<lambda>s'. s' = s)) m \<Longrightarrow> one_step s m"
  by (simp add: one_step_def preserves_def)

lemma one_step_ebind:
  assumes "preserves (behind (\<lambda>s'. s' = s)) m" "\<And>a. one_step s (f a)"
  shows "one_step s (ebind m f)"
  unfolding one_step_def
proof (intro allI impI)
  fix c :: BlockCache
  assume c: "bc_backend c = s"
  obtain c1 r where m: "m c = (c1, r)" by (cases "m c")
  then have "bc_backend c1 = s" using preservesD [OF assms(1) m] c by simp
  then show "bc_backend (fst (ebind m f c)) = s \<or> validator_step s (bc_backend (fst (ebind m f c)))"
    using assms(2) m by (cases r) (simp_all add: ebind_def one_step_def)
qed

lemma one_step_require: "(b \<Longrightarrow> one_step s (f ())) \<Longrightarrow> one_step s (ebind (require b e) f)"
  by (auto simp: one_step_def ebind_def require_def elift_def)

lemma one_step_eread: "one_step s (f (g s)) \<Longrightarrow> one_step s (ebind (eread (\<lambda>c. g (bc_backend c))) f)"
  by (auto simp: one_step_def ebind_def eread_def)

lemma one_step_prod: "(\<And>x y. r = (x, y) \<Longrightarrow> one_step s (f x y)) \<Longrightarrow> one_step s (case r of (x, y) \<Rightarrow> f x y)"
  by (cases r) auto

lemma one_step_on_state:
  "(\<And>s'. op s = Ok s' \<Longrightarrow> validator_step s s') \<Longrightarrow> one_step s (ebind (on_state op) (\<lambda>_. eret x))"
  by (auto simp: one_step_def ebind_def on_state_def etry_def elift_def obind_eq_Ok split: outcome.splits)

section \<open>Transactions\<close>

lemma step_SendTx: "one_step s (exec_SendTx X evc tx)"
  unfolding exec_SendTx_def Let_def
  by (rule one_step_keeps) ((rule cache_rules | erule cache_shown | erule (1) cache_kept)+)

lemma step_NameTx: "one_step s (exec_NameTx X evc tx)"
  unfolding exec_NameTx_def Let_def
  by (rule one_step_keeps) ((rule cache_rules | erule cache_shown | erule (1) cache_kept)+)

lemma preserves_slot: "preserves (behind P) (slot_account a)"
  by (simp add: preserves_def slot_account_def)

lemma step_PermissionsTx: "one_step s (exec_PermissionsTx X evc tx)"
  unfolding exec_PermissionsTx_def Let_def
  by (rule one_step_keeps) ((rule cache_rules preserves_slot | erule cache_shown | erule (1) cache_kept)+)

lemma step_BondTx: "one_step s (exec_BondTx X evc tx)"
  unfolding exec_BondTx_def Let_def
  by (rule one_step_eread, rule one_step_require)
    ((rule one_step_on_state one_step_require one_step_prod bond | assumption | rule one_step_ebind | rule cache_rules |
      erule cache_shown | erule (1) cache_kept)+)

lemma one_step_state: "one_step s (f s) \<Longrightarrow> one_step s (ebind (eread bc_backend) f)"
  using one_step_eread [of s f "\<lambda>s. s"] by simp

lemma one_step_option:
  "(r = None \<Longrightarrow> one_step s a) \<Longrightarrow> (\<And>x. r = Some x \<Longrightarrow> one_step s (b x)) \<Longrightarrow>
   one_step s (case r of None \<Rightarrow> a | Some x \<Rightarrow> b x)"
  by (cases r) auto

lemma one_step_elift: "one_step s (elift r)"
  by (simp add: one_step_def elift_def)

lemma step_UnbondTx: "one_step s (exec_UnbondTx X evc tx)"
  unfolding exec_UnbondTx_def Let_def
  by (rule one_step_state)
    ((rule one_step_option one_step_elift one_step_on_state one_step_require one_step_prod unbond | assumption |
      rule one_step_ebind | rule cache_rules)+)

lemma step_RebondTx: "one_step s (exec_RebondTx X evc tx)"
  unfolding exec_RebondTx_def Let_def
  by (rule one_step_state)
    ((rule one_step_option one_step_elift one_step_on_state one_step_require one_step_prod rebond | assumption |
      rule one_step_ebind | rule cache_rules)+)

lemma preserves_run_call:
  assumes "vm_Run X = evm_Run n W H"
  shows "preserves (behind P) (run_call X evc tx v inAcc outAcc)"
proof -
  have started: "bc_backend (tc_backend t') = bc_backend c"
    if "call_setup X tx r outAcc (NewTxCache c\<lparr> tc_heap := h \<rparr>) = Ok (callee, code, t)"
      "evm_Run n W H params origin txid evc r callee code (call_Data tx) v (call_GasLimit tx) t = (t', evs, res)"
    for c r h callee code t params origin txid t' evs res
    using same_view_fields(3) [OF call_setup_keeps [OF that(1)]] same_view_fields(3) [OF node_machine.run_keeps [OF that(2)]]
    by (simp add: NewTxCache_def)
  have same: "bc_backend (fst (run_call X evc tx v inAcc outAcc c)) = bc_backend c" for c
    by (auto simp: run_call_def tc_new_def tc_modify_def obind_eq_Ok Let_def assms dest!: backend_tc_Sync started
        split: outcome.splits prod.splits if_splits)
  then show ?thesis by (simp add: preserves_def)
qed

lemma preserves_call_permission:
  "preserves (behind P)
     ((if b then hasCreateContractPermission bc_GetAccount else hasCallPermission bc_GetAccount) acc)"
  by (simp add: preserves_permission_rules)

lemma step_CallTx: "vm_Run X = evm_Run n W H \<Longrightarrow> one_step s (exec_CallTx X runCall evc tx)"
  unfolding exec_CallTx_def exec_checked_call_def Let_def
  by (rule one_step_keeps)
    ((rule cache_rules preserves_run_call preserves_call_permission | assumption | erule cache_shown | erule (1) cache_kept)+)

lemma ExecTx_step:
  assumes "vm_Run X = evm_Run n W H" "\<nexists>d. tx = TxDupeout d"
  shows "one_step s (ExecTx X runCall evc tx)"
  using assms step_SendTx step_NameTx step_PermissionsTx step_BondTx step_UnbondTx step_RebondTx step_CallTx
  by (cases tx) simp_all

lemma exec_txs_steps:
  assumes "vm_Run X = evm_Run n W H"
  shows "exec_txs X evc txs c = Ok (c', txs', evs) \<Longrightarrow> \<forall>d. TxDupeout d \<notin> set txs \<Longrightarrow>
    validator_step\<^sup>*\<^sup>* (bc_backend c) (bc_backend c')"
proof (induction txs arbitrary: c txs' evs)
  case (Cons tx txs)
  obtain c1 tx1 evs1 txs2 evs2 where run: "ExecTx X True evc tx c = (c1, Ok (tx1, evs1))"
    and rest: "exec_txs X evc txs c1 = Ok (c', txs2, evs2)"
    using Cons.prems(1) by (auto simp: obind_eq_Ok split: prod.splits outcome.splits)
  have "one_step (bc_backend c) (ExecTx X True evc tx)"
    using assms Cons.prems(2) by (intro ExecTx_step) auto
  then have "validator_step\<^sup>=\<^sup>= (bc_backend c) (bc_backend c1)"
    using run by (force simp: one_step_def)
  moreover have "validator_step\<^sup>*\<^sup>* (bc_backend c1) (bc_backend c')"
    using Cons.IH [OF rest] Cons.prems(2) by simp
  ultimately show ?case by (auto intro: converse_rtranclp_into_rtranclp)
qed simp

section \<open>Sync and release write accounts\<close>

lemma same_state_refl [simp]: "same_validators_state s s"
  by (simp add: same_validators_state_def)

lemma same_state_trans: "same_validators_state s t \<Longrightarrow> same_validators_state t u \<Longrightarrow> same_validators_state s u"
  by (simp add: same_validators_state_def)

lemma same_state_writes [simp]:
  "same_validators_state s (State_UpdateAccount acc s)" "same_validators_state s (State_UpdateNameRegEntry e s)"
  "same_validators_state s (snd (State_RemoveAccount a s))" "same_validators_state s (snd (State_RemoveNameRegEntry n s))"
  "same_validators_state s (State_UpdateAccount acc (s\<lparr> LoadStorage := st \<rparr>))" "same_validators_state s (s\<lparr> LoadStorage := st \<rparr>)"
  by (simp_all add: same_validators_state_def State_UpdateAccount_def State_UpdateNameRegEntry_def State_RemoveAccount_def
      State_RemoveNameRegEntry_def tree_Remove_def Let_def)

lemma same_state_each:
  assumes "\<And>k v s s'. f k v s = Ok s' \<Longrightarrow> same_validators_state s s'"
  shows "each f kvs s = Ok s' \<Longrightarrow> same_validators_state s s'"
proof (induction kvs arbitrary: s)
  case (Cons kv kvs)
  then show ?case using assms same_state_trans by (cases kv) (simp add: obind_eq_Ok, blast)
qed simp

lemma sync_account_same: "sync_account save a info s = Ok s' \<Longrightarrow> same_validators_state s s'"
  using same_state_writes(3) [of s a]
  by (auto simp: sync_account_def Let_def case_prod_beta split: if_splits option.splits)

lemma sync_name_same: "sync_name n info s = Ok s' \<Longrightarrow> same_validators_state s s'"
  using same_state_writes(4) [of s n]
  by (auto simp: sync_name_def Let_def case_prod_beta split: if_splits option.splits)

lemma backend_sync_write: "bc_backend (snd (sync_write a k w cur c)) = bc_backend c"
  by (simp add: sync_write_def Let_def)

lemma backend_sync_storages: "sync_storages ws cur c = Ok c' \<Longrightarrow> bc_backend c' = bc_backend c"
proof (induction ws arbitrary: cur c)
  case (Cons w ws)
  obtain addr key info where w: "w = ((addr, key), info)" by (metis prod.collapse)
  from Cons.prems obtain cur1 where
    "(if cur_removed cur1 \<or> \<not> si_dirty info then sync_storages ws cur1 c
      else let (cur, c) = sync_write addr key (si_value info) cur1 c in sync_storages ws cur c) = Ok c'"
    by (auto simp: w obind_eq_Ok)
  with Cons.IH show ?case
    using backend_sync_write [of addr key "si_value info" cur1 c]
    by (auto simp: case_prod_beta split: if_splits)
qed simp

lemma Sync_same:
  assumes "bc_Sync save c = Ok s"
  shows "same_validators_state (bc_backend c) s"
proof -
  obtain c1 s1 where c1: "sync_storages (sort_key fst (bc_storages c)) start_cursor c = Ok c1"
    and s1: "each (sync_account save) (sort_key fst (bc_accounts c1)) (bc_backend c1) = Ok s1"
    and s: "each sync_name (sort_key fst (bc_names c1)) s1 = Ok s"
    using assms by (auto simp: bc_Sync_def obind_eq_Ok)
  show ?thesis
    using same_state_trans [OF same_state_each [OF sync_account_same s1] same_state_each [OF sync_name_same s]]
    by (simp add: backend_sync_storages [OF c1])
qed

lemma run_txs_steps:
  assumes "vm_Run (be_exec B) = evm_Run n W H" "run_txs B txs s = Ok (s', txs', evs)" "\<forall>d. TxDupeout d \<notin> set txs"
  shows "validator_step\<^sup>*\<^sup>* s s'"
  using assms(2,3) exec_txs_steps [OF assms(1), of "be_evc B" txs "NewBlockCache s"]
  by (auto simp: run_txs_def obind_eq_Ok NewBlockCache_def dest!: Sync_same intro: rtranclp.rtrancl_into_rtrancl outside)

section \<open>The invariant\<close>

text \<open>
  The two sets are sorted and disjoint, every validator has an info under its address, and nobody of
  the set \<open>L\<close> is lost: it is bonded, or has been unbonding since this block.
\<close>

abbreviation bonded :: "State \<Rightarrow> bytes \<Rightarrow> Validator option" where
  "bonded s \<equiv> vs_map (BondedValidators s)"

abbreviation unbonding :: "State \<Rightarrow> bytes \<Rightarrow> Validator option" where
  "unbonding s \<equiv> vs_map (UnbondingValidators s)"

definition infos_ok :: "State \<Rightarrow> bool" where
  "infos_ok s \<longleftrightarrow> (\<forall>a i. GetValidatorInfo s a = Some i \<longrightarrow> vi_Address i = a) \<and>
     (\<forall>a. bonded s a \<noteq> None \<or> unbonding s a \<noteq> None \<longrightarrow> GetValidatorInfo s a \<noteq> None)"

definition not_lost :: "bytes set \<Rightarrow> State \<Rightarrow> bool" where
  "not_lost L s \<longleftrightarrow>
     (\<forall>a\<in>L. bonded s a \<noteq> None \<or> (\<exists>v. unbonding s a = Some v \<and> val_UnbondHeight v = next_height s))"

definition validators_inv :: "bytes set \<Rightarrow> State \<Rightarrow> bool" where
  "validators_inv L s \<longleftrightarrow> validators_ok s \<and> infos_ok s \<and> not_lost L s \<and> 0 \<le> LastBlockHeight s \<and> LastBlockHeight s < 2 ^ 62"

lemma State_getter_outputs: "fst (getOrMakeOutputs State_getter b accs outs s) = s"
proof -
  have "preserves (\<lambda>t. t = s) (getOrMakeOutputs State_getter b accs outs)"
    by (rule preserves_getOrMakeOutputs) (simp add: State_getter_def)
  then show ?thesis by (simp add: preserves_def)
qed

lemma update_accounts_same: "same_validators_state s (update_accounts accs s)"
proof (induction accs arbitrary: s)
  case (Cons kv accs)
  then show ?case
    using same_state_trans [OF same_state_writes(1) Cons.IH] by (simp add: update_accounts_def case_prod_beta)
qed (simp add: update_accounts_def)

lemma releaseValidator_eq_Ok:
  assumes "releaseValidator B v s = Ok s'"
  obtains i where "GetValidatorInfo s (val_Address v) = Some i" "BondedValidators s' = BondedValidators s"
    "UnbondingValidators s' = snd (vs_Remove (val_Address v) (UnbondingValidators s))"
    "st_validatorInfos s' = tree_Set (vi_Address i) (i\<lparr> vi_ReleasedHeight := next_height s \<rparr>) (st_validatorInfos s)"
    "LastBlockHeight s' = LastBlockHeight s" "LastBondedValidators s' = LastBondedValidators s"
proof -
  obtain i where i: "GetValidatorInfo s (val_Address v) = Some i"
    using assms by (auto simp: releaseValidator_def split: option.splits)
  define s1 where "s1 = SetValidatorInfo (i\<lparr> vi_ReleasedHeight := next_height s \<rparr>) s"
  define r where "r = snd (getOrMakeOutputs State_getter False [] (vi_UnbondTo i) s1)"
  have go: "getOrMakeOutputs State_getter False [] (vi_UnbondTo i) s1 = (s1, r)"
    using State_getter_outputs [of False "[]" "vi_UnbondTo i" s1] by (simp add: r_def prod_eq_iff)
  obtain accs where r: "r = Ok accs"
    using assms by (cases r) (simp_all add: releaseValidator_def i Let_def go flip: s1_def)
  obtain accs' where s': "s' = (update_accounts accs' s1)\<lparr> UnbondingValidators :=
      snd (vs_Remove (val_Address v) (UnbondingValidators (update_accounts accs' s1))) \<rparr>"
    using assms
    by (auto simp: releaseValidator_def i Let_def go r obind_eq_Ok case_prod_beta simp flip: s1_def split: option.split_asm)
  then show thesis
    using that [OF i] update_accounts_same [of s1 accs']
    by (simp add: same_validators_state_def s1_def SetValidatorInfo_def)
qed

lemma add_validator_eq_Ok:
  assumes "add_validator tx addr n s = Ok s'"
  obtains v i where "val_Address v = addr" "vi_Address i = addr" "fst (vs_Add v (BondedValidators s))"
    "BondedValidators s' = snd (vs_Add v (BondedValidators s))" "UnbondingValidators s' = UnbondingValidators s"
    "st_validatorInfos s' = tree_Set addr i (st_validatorInfos s)"
    "LastBlockHeight s' = LastBlockHeight s" "LastBondedValidators s' = LastBondedValidators s"
proof -
  define v where "v = \<lparr> val_Address = addr, val_PubKey = bond_PubKey tx, val_BondHeight = next_height s, val_UnbondHeight = 0,
    val_LastCommitHeight = 0, val_VotingPower = n, val_Accum = 0 \<rparr>"
  define i where "i = \<lparr> vi_Address = addr, vi_PubKey = bond_PubKey tx, vi_UnbondTo = bond_UnbondTo tx,
    vi_FirstBondHeight = next_height s, vi_FirstBondAmount = n, vi_DestroyedHeight = 0, vi_DestroyedAmount = 0,
    vi_ReleasedHeight = 0 \<rparr>"
  have "fst (vs_Add v (BondedValidators s))"
    "s' = s\<lparr> st_validatorInfos := tree_Set addr i (st_validatorInfos s),
      infos_writes := infos_writes s @ [(addr, Some i)],
      BondedValidators := snd (vs_Add v (BondedValidators s)) \<rparr>"
    using assms
    by (simp_all add: add_validator_def SetValidatorInfo_def Let_def case_prod_beta flip: v_def i_def split: if_splits)
      (simp add: i_def)
  then show thesis using that [of v i] by (simp add: v_def i_def)
qed

definition kept_fields :: "State \<Rightarrow> State \<Rightarrow> bool" where
  "kept_fields s s' \<longleftrightarrow> LastBlockHeight s' = LastBlockHeight s \<and> LastBondedValidators s' = LastBondedValidators s"

lemma next_height_cong: "LastBlockHeight s' = LastBlockHeight s \<Longrightarrow> next_height s' = next_height s"
  by (simp add: next_height_def)

lemmas state_inv_defs = validators_inv_def validators_ok_def infos_ok_def not_lost_def GetValidatorInfo_def kept_fields_def

lemma inv_bond:
  assumes inv: "validators_inv L s" and none: "GetValidatorInfo s addr = None" and add: "add_validator tx addr n s = Ok s'"
  shows "validators_inv L s' \<and> kept_fields s s'"
proof -
  from add obtain v i where v: "val_Address v = addr" "vi_Address i = addr" "fst (vs_Add v (BondedValidators s))"
    and s': "BondedValidators s' = snd (vs_Add v (BondedValidators s))" "UnbondingValidators s' = UnbondingValidators s"
    "st_validatorInfos s' = tree_Set addr i (st_validatorInfos s)"
    "LastBlockHeight s' = LastBlockHeight s" "LastBondedValidators s' = LastBondedValidators s"
    by (rule add_validator_eq_Ok)
  have ok: "vs_ok (BondedValidators s)" using inv by (simp add: validators_inv_def validators_ok_def)
  have absent: "bonded s addr = None" "unbonding s addr = None"
    using inv none by (auto simp: validators_inv_def infos_ok_def)
  have b: "vs_ok (BondedValidators s')" "bonded s' = (bonded s)(addr \<mapsto> v)"
    using validators.add_inv [OF ok] validators.add_abs [OF ok, of v] absent(1) v(1) s'(1) by simp_all
  show ?thesis
    using inv s' b absent v(2) next_height_cong [OF s'(4)] by (auto simp: state_inv_defs)
qed

lemma inv_release:
  assumes inv: "validators_inv L s" and old: "unbonding s (val_Address v) = Some w"
    "wrap64 (val_UnbondHeight w + unbondingPeriodBlocks) < next_height s" and rel: "releaseValidator B v s = Ok s'"
  shows "validators_inv L s' \<and> kept_fields s s'"
proof -
  from rel obtain i where i: "GetValidatorInfo s (val_Address v) = Some i"
    and s': "BondedValidators s' = BondedValidators s"
    "UnbondingValidators s' = snd (vs_Remove (val_Address v) (UnbondingValidators s))"
    "st_validatorInfos s' = tree_Set (vi_Address i) (i\<lparr> vi_ReleasedHeight := next_height s \<rparr>) (st_validatorInfos s)"
    "LastBlockHeight s' = LastBlockHeight s" "LastBondedValidators s' = LastBondedValidators s"
    by (rule releaseValidator_eq_Ok)
  have ok: "vs_ok (UnbondingValidators s)" and h: "0 \<le> LastBlockHeight s" "LastBlockHeight s < 2 ^ 62"
    using inv by (simp_all add: validators_inv_def validators_ok_def)
  have u: "vs_ok (UnbondingValidators s')" "unbonding s' = (unbonding s)(val_Address v := None)"
    using validators.rem_inv [OF ok] validators.rem_abs [OF ok] s'(2) by simp_all
  have "val_UnbondHeight w \<noteq> next_height s"
  proof
    assume "val_UnbondHeight w = next_height s"
    with old(2) h show False by (simp add: next_height_def unbondingPeriodBlocks_def int64_simps)
  qed
  moreover have "bonded s (val_Address v) = None"
    using inv old(1) by (auto simp: validators_inv_def validators_ok_def)
  ultimately have "not_lost L s'"
    using inv old(1) s'(1) u(2) next_height_cong [OF s'(4)] by (auto simp: validators_inv_def not_lost_def)
  moreover have "vi_Address i = val_Address v" using inv i by (auto simp: validators_inv_def infos_ok_def)
  ultimately show ?thesis
    using inv s' u i by (auto simp: state_inv_defs)
qed

lemma unbond_only: "unbondValidator v s = Ok s' \<Longrightarrow> st_validatorInfos s' = st_validatorInfos s \<and> kept_fields s s'"
  by (auto simp: unbondValidator_def kept_fields_def case_prod_beta Let_def split: option.split_asm if_split_asm)

lemma rebond_only: "rebondValidator v s = Ok s' \<Longrightarrow> st_validatorInfos s' = st_validatorInfos s \<and> kept_fields s s'"
  by (auto simp: rebondValidator_def kept_fields_def case_prod_beta Let_def split: option.split_asm if_split_asm)

lemma inv_moved:
  assumes "validators_inv L s" "validators_ok s'" "st_validatorInfos s' = st_validatorInfos s \<and> kept_fields s s'"
    "not_lost L s'" "\<And>a. bonded s' a \<noteq> None \<or> unbonding s' a \<noteq> None \<Longrightarrow> bonded s a \<noteq> None \<or> unbonding s a \<noteq> None"
  shows "validators_inv L s' \<and> kept_fields s s'"
proof -
  have same: "GetValidatorInfo s' = GetValidatorInfo s" using assms(3) by (simp add: GetValidatorInfo_def fun_eq_iff)
  have "infos_ok s'"
    unfolding infos_ok_def same
  proof (intro conjI allI impI)
    fix a assume "bonded s' a \<noteq> None \<or> unbonding s' a \<noteq> None"
    from assms(5) [OF this] assms(1) show "GetValidatorInfo s a \<noteq> None" unfolding validators_inv_def infos_ok_def by blast
  qed (use assms(1) in \<open>simp add: validators_inv_def infos_ok_def\<close>)
  with assms show ?thesis by (simp add: validators_inv_def kept_fields_def)
qed

lemma inv_unbond:
  assumes inv: "validators_inv L s" and un: "unbondValidator v s = Ok s'"
  shows "validators_inv L s' \<and> kept_fields s s'"
proof -
  have ok: "validators_ok s" using inv by (simp add: validators_inv_def)
  have "fst (vs_Remove (val_Address v) (BondedValidators s)) \<noteq> None"
    using un by (auto simp: unbondValidator_def case_prod_beta split: option.split_asm)
  then obtain w where w: "bonded s (val_Address v) = Some w"
    using validators.rem_res [of "BondedValidators s"] ok by (auto simp: validators_ok_def)
  have s': "validators_ok s'" "bonded s' = (bonded s)(val_Address v := None)"
    "unbonding s' = (unbonding s)(val_Address v \<mapsto> w\<lparr> val_UnbondHeight := next_height s \<rparr>)"
    using conjunct1 [OF unbond_rebond_move [OF ok, of v]] unfolding w option.pred_inject un outcome.inject
    by (elim exE conjE; simp only:)+
  note u = unbond_only [OF un]
  then have "next_height s' = next_height s" by (intro next_height_cong) (simp add: kept_fields_def)
  then have "not_lost L s'" using inv s'(2,3) by (simp add: validators_inv_def not_lost_def)
  then show ?thesis by (rule inv_moved [OF inv s'(1) u]) (use s'(2,3) w in \<open>auto split: if_splits\<close>)
qed

lemma inv_rebond:
  assumes inv: "validators_inv L s" and re: "rebondValidator v s = Ok s'"
  shows "validators_inv L s' \<and> kept_fields s s'"
proof -
  have ok: "validators_ok s" using inv by (simp add: validators_inv_def)
  have "fst (vs_Remove (val_Address v) (UnbondingValidators s)) \<noteq> None"
    using re by (auto simp: rebondValidator_def case_prod_beta split: option.split_asm)
  then obtain w where w: "unbonding s (val_Address v) = Some w"
    using validators.rem_res [of "UnbondingValidators s"] ok by (auto simp: validators_ok_def)
  have s': "validators_ok s'" "unbonding s' = (unbonding s)(val_Address v := None)"
    "bonded s' = (bonded s)(val_Address v \<mapsto> w\<lparr> val_BondHeight := next_height s \<rparr>)"
    using conjunct2 [OF unbond_rebond_move [OF ok, of v]] unfolding w option.pred_inject re outcome.inject
    by (elim exE conjE; simp only:)+
  note u = rebond_only [OF re]
  then have "next_height s' = next_height s" by (intro next_height_cong) (simp add: kept_fields_def)
  then have "not_lost L s'" using inv s'(2,3) by (simp add: validators_inv_def not_lost_def)
  then show ?thesis by (rule inv_moved [OF inv s'(1) u]) (use s'(2,3) w in \<open>auto split: if_splits\<close>)
qed

lemma inv_outside: "validators_inv L s \<Longrightarrow> same_validators_state s s' \<Longrightarrow> validators_inv L s' \<and> kept_fields s s'"
  by (auto simp: state_inv_defs same_validators_state_def next_height_def)

lemma inv_step:
  "validator_step s s' \<Longrightarrow> validators_inv L s \<Longrightarrow> validators_inv L s' \<and> kept_fields s s'"
proof (induction rule: validator_step.induct)
  case bond from inv_bond [OF bond(3,1,2)] show ?case .
next
  case unbond from inv_unbond [OF unbond(2,1)] show ?case .
next
  case rebond from inv_rebond [OF rebond(2,1)] show ?case .
next
  case release from inv_release [OF release(4,1,2,3)] show ?case .
next
  case outside from inv_outside [OF outside(2,1)] show ?case .
qed

lemma inv_steps:
  "validator_step\<^sup>*\<^sup>* s s' \<Longrightarrow> validators_inv L s \<Longrightarrow> validators_inv L s' \<and> kept_fields s s'"
  by (induction rule: rtranclp_induct) (auto simp: kept_fields_def dest!: inv_step)

section \<open>The end of a block\<close>

lemma each_val_Nil [simp]: "each_val f [] s = Ok s"
  by (simp add: each_val_def)

lemma each_val_Cons: "each_val f (v # vs) s = obind (f v s) (each_val f vs)"
proof -
  have "foldl (\<lambda>r v. obind r (f v)) (Err e) vs = Err e" "foldl (\<lambda>r v. obind r (f v)) (Panic e) vs = Panic e" for e
    by (induction vs) simp_all
  then show ?thesis by (cases "f v s") (simp_all add: each_val_def)
qed

lemma each_unbond_steps: "each_val unbondValidator vals s = Ok s' \<Longrightarrow> validator_step\<^sup>*\<^sup>* s s'"
  by (induction vals arbitrary: s)
    (auto simp: each_val_Cons obind_eq_Ok intro: converse_rtranclp_into_rtranclp validator_step.unbond)

lemma each_release_steps:
  assumes "validators_inv L s" "each_val (releaseValidator B) vals s = Ok s'" "distinct (map val_Address vals)"
    "\<forall>v\<in>set vals. unbonding s (val_Address v) = Some v \<and> wrap64 (val_UnbondHeight v + unbondingPeriodBlocks) < next_height s"
  shows "validator_step\<^sup>*\<^sup>* s s'"
  using assms
proof (induction vals arbitrary: s)
  case (Cons v vals)
  from Cons.prems(2) obtain s1 where s1: "releaseValidator B v s = Ok s1" "each_val (releaseValidator B) vals s1 = Ok s'"
    by (auto simp: each_val_Cons obind_eq_Ok)
  have v: "unbonding s (val_Address v) = Some v" "wrap64 (val_UnbondHeight v + unbondingPeriodBlocks) < next_height s"
    using Cons.prems(4) by simp_all
  note step = validator_step.release [OF v s1(1)]
  note inv = inv_release [OF Cons.prems(1) v s1(1)]
  have "vs_ok (UnbondingValidators s)" using Cons.prems(1) by (simp add: validators_inv_def validators_ok_def)
  then have "unbonding s1 = (unbonding s)(val_Address v := None)"
    using s1(1) by (auto elim!: releaseValidator_eq_Ok simp: validators.rem_abs)
  moreover have "next_height s1 = next_height s" using inv by (intro next_height_cong) (simp add: kept_fields_def)
  moreover have "val_Address w \<noteq> val_Address v" if "w \<in> set vals" for w
    using Cons.prems(3) imageI [OF that, of val_Address] by (metis distinct.simps(2) list.simps(9) list.set_map)
  ultimately have "\<forall>w\<in>set vals. unbonding s1 (val_Address w) = Some w \<and>
      wrap64 (val_UnbondHeight w + unbondingPeriodBlocks) < next_height s1"
    using Cons.prems(4) by simp
  then have "validator_step\<^sup>*\<^sup>* s1 s'" using Cons.IH [of s1] inv s1(2) Cons.prems(3) by simp
  with step show ?case by (rule converse_rtranclp_into_rtranclp)
qed simp

lemma vs_ok_member: "vs_ok vs \<Longrightarrow> v \<in> set (Validators vs) \<Longrightarrow> vs_map vs (val_Address v) = Some v"
  and vs_ok_distinct: "vs_ok vs \<Longrightarrow> distinct (map val_Address (Validators vs))"
proof -
  have d: "by_address vals \<Longrightarrow> distinct (map val_Address vals)" for vals
    unfolding by_address_def by (induction vals) force+
  then show "vs_ok vs \<Longrightarrow> distinct (map val_Address (Validators vs))" by (simp add: vs_ok_def)
  show "vs_map vs (val_Address v) = Some v" if "vs_ok vs" "v \<in> set (Validators vs)"
    using that d [of "Validators vs"] unfolding vs_map_def vals_map_def vs_ok_def
    by (intro map_of_is_SomeI) (simp_all add: comp_def)
qed

lemma Increment_addresses:
  assumes "IncrementAccum right rounds vs = Ok vs'"
  shows "map val_Address (Validators vs') = map val_Address (Validators vs)"
proof -
  have loop: "map val_Address (Validators vs2) = map val_Address (Validators vs1)"
    if "choose_loop right n q vs1 p = Ok (vs2, p2)" for n q vs1 p vs2 p2
    using that
  proof (induction n arbitrary: q vs1 p)
    case (Suc n)
    have tot: "Validators (snd (TotalVotingPower vs1)) = Validators vs1"
      by (simp add: TotalVotingPower_def Let_def)
    have upd: "map val_Address (vals[k := (vals ! k)\<lparr> val_Accum := x \<rparr>]) = map val_Address vals" for k x and vals :: "Validator list"
      by (cases "k < length vals") (simp_all add: map_update list_update_same_conv list_update_beyond)
    from Suc.prems show ?case
      using Suc.IH by (auto simp: Let_def case_prod_beta tot upd split: if_splits)
  qed simp
  from assms show ?thesis
    by (auto simp: IncrementAccum_def obind_eq_Ok accum_all_def comp_def dest!: loop split: option.splits)
qed

lemma vs_map_defined: "vs_map vs a \<noteq> None \<longleftrightarrow> a \<in> set (map val_Address (Validators vs))"
  using vals_map_None [of "Validators vs" a] by (auto simp: vs_map_def)

lemma inv_addresses:
  assumes "validators_inv L s" "map val_Address (Validators vs') = map val_Address (Validators (BondedValidators s))"
  shows "validators_inv L (s\<lparr> BondedValidators := vs' \<rparr>)"
proof -
  have b: "vs_map vs' a \<noteq> None \<longleftrightarrow> bonded s a \<noteq> None" for a unfolding vs_map_defined assms(2) ..
  then have "dom (vs_map vs') = dom (bonded s)" unfolding dom_def by blast
  moreover have "vs_ok vs'"
    using assms by (simp add: validators_inv_def validators_ok_def vs_ok_def by_address_def flip: sorted_wrt_map)
  ultimately show ?thesis
    using assms(1) unfolding validators_inv_def validators_ok_def infos_ok_def not_lost_def GetValidatorInfo_def next_height_def
    by (simp add: b del: not_None_eq)
qed

lemma inv_end_block:
  assumes inv: "validators_inv L s" and fin: "end_block B (next_height s) s = Ok s'"
  shows "validators_inv L s' \<and> kept_fields s s'"
proof -
  from fin obtain s1 s2 vs' where s1: "each_val (releaseValidator B) (toRelease (next_height s) s) s = Ok s1"
    and s2: "each_val unbondValidator (toTimeout (next_height s) s1) s1 = Ok s2"
    and vs': "IncrementAccum (be_right B) 1 (BondedValidators s2) = Ok vs'" and s': "s' = s2\<lparr> BondedValidators := vs' \<rparr>"
    by (auto simp: end_block_def obind_eq_Ok)
  have ok: "vs_ok (UnbondingValidators s)" using inv by (simp add: validators_inv_def validators_ok_def)
  have "validator_step\<^sup>*\<^sup>* s s1"
  proof (rule each_release_steps [OF inv s1])
    show "distinct (map val_Address (toRelease (next_height s) s))"
      unfolding toRelease_def using vs_ok_distinct [OF ok] by (rule distinct_map_filter)
  qed (auto simp: toRelease_def vs_ok_member [OF ok])
  then have "validator_step\<^sup>*\<^sup>* s s2" using each_unbond_steps [OF s2] by simp
  from inv_steps [OF this inv] show ?thesis
    unfolding s' using inv_addresses [OF _ Increment_addresses [OF vs']] by (simp add: kept_fields_def)
qed

section \<open>The signers of a commit\<close>

definition touched_state :: "State \<Rightarrow> State \<Rightarrow> bool" where
  "touched_state s s' \<longleftrightarrow> validators_inv {} s' \<and> kept_fields s s' \<and>
     (\<forall>a. bonded s' a \<noteq> None \<longleftrightarrow> bonded s a \<noteq> None) \<and> (\<forall>a. unbonding s' a \<noteq> None \<longleftrightarrow> unbonding s a \<noteq> None)"

lemma touched_trans: "touched_state s t \<Longrightarrow> touched_state t u \<Longrightarrow> touched_state s u"
  by (simp add: touched_state_def kept_fields_def)

lemma touched_inv:
  assumes "validators_inv {} s" "validators_ok s'" "st_validatorInfos s' = st_validatorInfos s" "kept_fields s s'"
    "\<And>a. bonded s' a \<noteq> None \<longleftrightarrow> bonded s a \<noteq> None" "\<And>a. unbonding s' a \<noteq> None \<longleftrightarrow> unbonding s a \<noteq> None"
  shows "touched_state s s'"
proof -
  have "validators_inv {} s' \<and> kept_fields s s'"
    by (rule inv_moved [OF assms(1,2) conjI [OF assms(3,4)]]) (simp add: not_lost_def, simp only: assms(5,6))
  then show ?thesis unfolding touched_state_def using assms(5,6) by blast
qed

lemma vs_Update_member:
  assumes "vs_ok vs" "vs_map vs a = Some v" "val_Address w = a"
  shows "fst (vs_Update w vs)" "vs_ok (snd (vs_Update w vs))" "vs_map (snd (vs_Update w vs)) = (vs_map vs)(a \<mapsto> w)"
  using validators.upd_res [OF assms(1), of w] validators.upd_inv [OF assms(1), of w] validators.upd_abs [OF assms(1), of w] assms(2,3)
  by simp_all

lemma touch_known:
  assumes inv: "validators_inv {} s" and known: "bonded s a \<noteq> None \<or> unbonding s a \<noteq> None"
  shows "\<exists>s'. touch_validator h a s = Ok s' \<and> touched_state s s'"
proof -
  have ok: "vs_ok (BondedValidators s)" "vs_ok (UnbondingValidators s)" "dom (bonded s) \<inter> dom (unbonding s) = {}"
    using inv by (simp_all add: validators_inv_def validators_ok_def)
  have get: "map_option snd (GetByAddress a (BondedValidators s)) = bonded s a"
    "map_option snd (GetByAddress a (UnbondingValidators s)) = unbonding s a"
    using validators.get [OF ok(1)] validators.get [OF ok(2)] by (simp_all add: vs_get_def)
  show ?thesis
  proof (cases "bonded s a")
    case (Some v)
    define w where "w = v\<lparr> val_LastCommitHeight := wrap64 (h - 1) \<rparr>"
    have a: "val_Address w = a" using validators.key [OF ok(1) Some] by (simp add: w_def)
    note u = vs_Update_member [OF ok(1) Some a]
    define s' where "s' = s\<lparr> BondedValidators := snd (vs_Update w (BondedValidators s)) \<rparr>"
    have "touch_validator h a s = Ok s'"
      using get(1) Some u(1) by (auto simp: touch_validator_def case_prod_beta s'_def w_def)
    moreover have "touched_state s s'"
    proof (rule touched_inv [OF inv])
      show "validators_ok s'" using ok u(2,3) Some by (auto simp: validators_ok_def s'_def)
      show "bonded s' b \<noteq> None \<longleftrightarrow> bonded s b \<noteq> None" for b using u(3) Some by (simp add: s'_def)
    qed (simp_all add: s'_def kept_fields_def)
    ultimately show ?thesis by blast
  next
    case None
    then obtain v where Some: "unbonding s a = Some v" using known by auto
    define w where "w = v\<lparr> val_LastCommitHeight := wrap64 (h - 1) \<rparr>"
    have a: "val_Address w = a" using validators.key [OF ok(2) Some] by (simp add: w_def)
    note u = vs_Update_member [OF ok(2) Some a]
    define s' where "s' = s\<lparr> UnbondingValidators := snd (vs_Update w (UnbondingValidators s)) \<rparr>"
    have "touch_validator h a s = Ok s'"
      using get None Some u(1) by (auto simp: touch_validator_def case_prod_beta s'_def w_def)
    moreover have "touched_state s s'"
    proof (rule touched_inv [OF inv])
      show "validators_ok s'" using ok u(2,3) None by (auto simp: validators_ok_def s'_def)
      show "unbonding s' b \<noteq> None \<longleftrightarrow> unbonding s b \<noteq> None" for b using u(3) Some by (simp add: s'_def)
    qed (simp_all add: s'_def kept_fields_def)
    ultimately show ?thesis by blast
  qed
qed

definition signers_known :: "State \<Rightarrow> bool" where
  "signers_known s \<longleftrightarrow>
     (\<forall>a\<in>set (map val_Address (Validators (LastBondedValidators s))). bonded s a \<noteq> None \<or> unbonding s a \<noteq> None)"

lemma touch_all_known:
  "validators_inv {} s \<Longrightarrow> signers_known s \<Longrightarrow> i + length ps \<le> length (Validators (LastBondedValidators s)) \<Longrightarrow>
   \<exists>s'. touch_validators h i ps s = Ok s' \<and> touched_state s s'"
proof (induction h i ps s rule: touch_validators.induct)
  case (1 h i s)
  then show ?case by (simp add: touched_state_def kept_fields_def)
next
  case (2 h i ps s)
  then show ?case by simp
next
  case (3 h i vote ps s)
  define val where "val = Validators (LastBondedValidators s) ! i"
  have i: "i < length (Validators (LastBondedValidators s))" using "3.prems"(3) by simp
  then have get: "GetByIndex (int i) (LastBondedValidators s) = Ok (val_Address val, val)"
    by (simp add: GetByIndex_def Let_def val_def)
  have "val_Address val \<in> set (map val_Address (Validators (LastBondedValidators s)))" using i by (simp add: val_def)
  then obtain s1 where s1: "touch_validator h (val_Address val) s = Ok s1" "touched_state s s1"
    using touch_known [OF "3.prems"(1)] "3.prems"(2) unfolding signers_known_def by blast
  have same: "LastBondedValidators s1 = LastBondedValidators s" and inv: "validators_inv {} s1"
    using s1(2) by (simp_all add: touched_state_def kept_fields_def)
  have "signers_known s1" using s1(2) "3.prems"(2) unfolding signers_known_def touched_state_def same by blast
  then obtain s2 where "touch_validators h (Suc i) ps s1 = Ok s2" "touched_state s1 s2"
    using "3.IH" [of s1] inv "3.prems"(3) same by auto
  with s1 get show ?case by (auto intro: touched_trans)
qed

section \<open>Blocks\<close>

definition chain_ok :: "State \<Rightarrow> bool" where
  "chain_ok s \<longleftrightarrow> validators_inv {} s \<and> signers_known s"

lemma commit_touches:
  assumes "chain_ok s" "check_commit B b s = Ok ()"
  shows "\<exists>s1. touch_validators h 0 (block_Precommits b) s = Ok s1 \<and> touched_state s s1"
proof -
  have "length (block_Precommits b) \<le> length (Validators (LastBondedValidators s))"
    using assms(2) by (simp add: check_commit_def vs_Size_def split: if_splits)
  then show ?thesis using touch_all_known [of s 0 "block_Precommits b" h] assms(1) by (simp add: chain_ok_def)
qed

lemma execBlock_keeps:
  assumes vm: "vm_Run (be_exec B) = evm_Run n W H" and ok: "chain_ok s" and h: "next_height s < 2 ^ 62"
    and ex: "execBlock B b parts s = Ok (s', txs, evs)"
  shows "chain_ok s' \<and> (\<forall>a. a \<in> set (map val_Address (Validators (LastBondedValidators s'))) \<longleftrightarrow> bonded s a \<noteq> None)"
proof -
  from ex obtain s1 s2 s3 hs where
    basic: "Block_ValidateBasic B (ChainID s) (LastBlockHeight s) (LastBlockHash s) (LastBlockParts s) b = Ok ()"
    and commit: "check_commit B b s = Ok ()"
    and s1: "touch_validators (hdr_Height (block_Header b)) 0 (block_Precommits b) s = Ok s1"
    and s2: "run_txs B (block_Txs b) (s1\<lparr> LastBondedValidators := BondedValidators s1 \<rparr>) = Ok (s2, txs, evs)"
    and s3: "end_block B (hdr_Height (block_Header b)) s2 = Ok s3"
    and s': "s' = s3\<lparr> LastBlockHeight := hdr_Height (block_Header b), LastBlockHash := hs, LastBlockParts := parts,
      LastBlockTime := hdr_Time (block_Header b) \<rparr>"
    by (rule execBlock_eq_Ok)
  note basics = ValidateBasic_eq_Ok [OF basic]
  have height: "hdr_Height (block_Header b) = next_height s" using basics(2) by (simp add: next_height_def)
  have touched: "touched_state s s1" using commit_touches [OF ok commit, of "hdr_Height (block_Header b)"] s1 by auto
  define t where "t = s1\<lparr> LastBondedValidators := BondedValidators s1 \<rparr>"
  define L where "L = dom (bonded s1)"
  have inv1: "validators_inv L t"
    using touched unfolding touched_state_def validators_inv_def validators_ok_def infos_ok_def not_lost_def GetValidatorInfo_def
    by (auto simp: t_def L_def)
  have "validator_step\<^sup>*\<^sup>* t s2"
    using run_txs_steps [OF vm s2 [folded t_def]] Data_Hash_no_dupeout [OF basics(7)] by simp
  from inv_steps [OF this inv1] have inv2: "validators_inv L s2" "kept_fields t s2" by simp_all
  have heights: "next_height s2 = next_height s"
    using inv2(2) touched by (intro next_height_cong) (simp add: touched_state_def kept_fields_def t_def)
  have "end_block B (next_height s2) s2 = Ok s3" using s3 height heights by simp
  from inv_end_block [OF inv2(1) this] have inv3: "validators_inv L s3" "kept_fields s2 s3" by simp_all
  have last: "LastBondedValidators s' = BondedValidators s1"
    using inv2(2) inv3(2) s' by (simp add: kept_fields_def t_def)
  have members: "a \<in> set (map val_Address (Validators (LastBondedValidators s'))) \<longleftrightarrow> a \<in> L" for a
    unfolding last L_def vs_map_defined [symmetric] by (simp add: domIff)
  have "0 \<le> next_height s"
    using ok by (simp add: chain_ok_def validators_inv_def next_height_def int64_simps)
  then have "validators_inv {} s'"
    using inv3(1) h height by (simp add: s' validators_inv_def validators_ok_def infos_ok_def not_lost_def GetValidatorInfo_def)
  moreover have "signers_known s'"
    unfolding signers_known_def
  proof
    fix a assume "a \<in> set (map val_Address (Validators (LastBondedValidators s')))"
    then have "a \<in> L" by (simp only: members)
    then show "bonded s' a \<noteq> None \<or> unbonding s' a \<noteq> None"
      using inv3(1) by (auto simp: validators_inv_def not_lost_def s')
  qed
  moreover have "a \<in> L \<longleftrightarrow> bonded s a \<noteq> None" for a
    using touched unfolding touched_state_def L_def domIff by blast
  ultimately show ?thesis unfolding chain_ok_def members by blast
qed

text \<open>
  C6: The validators stay consistent from block to block. In a state where the bonded and the unbonding
  validators are sorted, disjoint and registered, and everyone who may have signed the last commit is
  in one of the two sets, the signers of any commit that passes the check are found, and after every block that
  is accepted this is so again: whoever was bonded before the block may sign its commit, and is still
  bonded or unbonding after it, whatever the transactions did and whoever timed out.
\<close>

theorem blocks_keep_validators:
  assumes "vm_Run (be_exec B) = evm_Run n W H" "chain_ok s" "next_height s < 2 ^ 62"
  shows "(check_commit B b s = Ok () \<longrightarrow> (\<exists>s1. touch_validators (next_height s) 0 (block_Precommits b) s = Ok s1)) \<and>
    (\<forall>s' txs evs. ExecBlock B b parts s = Ok (s', txs, evs) \<longrightarrow> chain_ok s' \<and>
       (\<forall>a. a \<in> set (map val_Address (Validators (LastBondedValidators s'))) \<longleftrightarrow> bonded s a \<noteq> None))"
proof (intro conjI allI impI)
  assume "check_commit B b s = Ok ()"
  from commit_touches [OF assms(2) this, of "next_height s"]
  show "\<exists>s1. touch_validators (next_height s) 0 (block_Precommits b) s = Ok s1" by blast
next
  fix s' txs evs a
  assume "ExecBlock B b parts s = Ok (s', txs, evs)"
  then have "execBlock B b parts s = Ok (s', txs, evs)" by (simp add: ExecBlock_eq_Ok)
  note kept = execBlock_keeps [OF assms this]
  then show "chain_ok s'" ..
  from kept show "a \<in> set (map val_Address (Validators (LastBondedValidators s'))) \<longleftrightarrow> bonded s a \<noteq> None" by blast
qed

definition sample_info :: "bytes \<Rightarrow> ValidatorInfo" where
  "sample_info a = \<lparr> vi_Address = a, vi_PubKey = a, vi_UnbondTo = [], vi_FirstBondHeight = 0, vi_FirstBondAmount = 1,
     vi_DestroyedHeight = 0, vi_DestroyedAmount = 0, vi_ReleasedHeight = 0 \<rparr>"

definition sample_chain :: State where
  "sample_chain = sample_genesis\<lparr> st_validatorInfos := map (\<lambda>v. (val_Address v, sample_info (val_Address v))) (Validators sample_set) \<rparr>"

definition sample_vm_env :: block_env where
  "sample_vm_env = sample_env\<lparr> be_exec := call_exec 1 \<rparr>"

definition empty_block :: Block where
  "empty_block = (sample_block [])\<lparr> block_Header := (block_Header (sample_block []))\<lparr> hdr_DataHash := [] \<rparr> \<rparr>"

lemma sample_chain_ok: "chain_ok sample_chain"
  by (simp add: chain_ok_def validators_inv_def validators_ok_def infos_ok_def not_lost_def signers_known_def GetValidatorInfo_def
      sample_chain_def sample_genesis_def sample_ledger_def NewBlockCache_def sample_validators_def sample_set_def sample_val_def
      sample_info_def vs_ok_def by_address_def vs_map_def list_less_def)

lemma empty_block_runs:
  "case ExecBlock sample_vm_env empty_block zero_header sample_chain of Ok r \<Rightarrow> True | _ \<Rightarrow> False"
  by code_simp

theorem blocks_keep_validators_witness:
  "\<exists>s' txs evs. ExecBlock sample_vm_env empty_block zero_header sample_chain = Ok (s', txs, evs) \<and> chain_ok s' \<and>
     val_Address (hd (Validators sample_set)) \<in> set (map val_Address (Validators (LastBondedValidators s')))"
proof -
  obtain s' txs evs where run: "ExecBlock sample_vm_env empty_block zero_header sample_chain = Ok (s', txs, evs)"
    using empty_block_runs by (auto split: outcome.splits)
  have vm: "vm_Run (be_exec sample_vm_env) = evm_Run 1 sample_keys (ve_hash evm_env)"
    by (simp add: sample_vm_env_def call_exec_def)
  have "next_height sample_chain < 2 ^ 62" by code_simp
  from blocks_keep_validators [OF vm sample_chain_ok this, of empty_block zero_header] run
  have "chain_ok s'" "\<forall>a. a \<in> set (map val_Address (Validators (LastBondedValidators s'))) \<longleftrightarrow> bonded sample_chain a \<noteq> None"
    by blast+
  moreover have "bonded sample_chain (val_Address (hd (Validators sample_set))) \<noteq> None"
    by (simp add: sample_chain_def sample_genesis_def sample_ledger_def NewBlockCache_def sample_validators_def sample_set_def vs_map_def)
  ultimately show ?thesis using run by blast
qed

section \<open>Bonds that cannot be released\<close>

definition ends_in :: "(BlockCache \<Rightarrow> bool) \<Rightarrow> (BlockCache, 'a) exec \<Rightarrow> bool" where
  "ends_in Q m \<longleftrightarrow> (\<forall>c c' r. m c = (c', Ok r) \<longrightarrow> Q c')"

lemma ends_in_ebind: "(\<And>a. ends_in Q (f a)) \<Longrightarrow> ends_in Q (ebind m f)"
  by (simp add: ends_in_def ebind_eq_Ok) blast

lemma ends_in_prod: "(\<And>x y. ends_in Q (f x y)) \<Longrightarrow> ends_in Q (case r of (x, y) \<Rightarrow> f x y)"
  by (cases r) simp

lemma ends_in_state:
  "(\<And>s s'. op s = Ok s' \<Longrightarrow> P' s') \<Longrightarrow> ends_in (behind P') (ebind (on_state op) (\<lambda>_. eret x))"
  by (auto simp: ends_in_def exec_eqs on_state_def obind_eq_Ok)

lemma BondTx_registers:
  assumes "exec_BondTx X evc tx c = (c', Ok r)"
  shows "\<exists>i. GetValidatorInfo (bc_backend c') (PubKey_Address (ex_wire X) (bond_PubKey tx)) = Some i \<and>
    vi_UnbondTo i = bond_UnbondTo tx"
proof -
  have "ends_in (behind (\<lambda>s. \<exists>i. GetValidatorInfo s (PubKey_Address (ex_wire X) (bond_PubKey tx)) = Some i \<and>
    vi_UnbondTo i = bond_UnbondTo tx)) (exec_BondTx X evc tx)"
    unfolding exec_BondTx_def Let_def
    by ((rule ends_in_state | rule ends_in_prod | rule ends_in_ebind)+)
      (auto simp: add_validator_def SetValidatorInfo_def GetValidatorInfo_def Let_def case_prod_beta split: if_splits)
  then show ?thesis using assms unfolding ends_in_def by blast
qed

text \<open>
  C40: A bond that names the same account twice to be paid back is accepted, and cannot be released: when
  the unbonding period of the validator is over, \<open>releaseValidator\<close> panics, in every node and in
  every attempt at that block.
\<close>

theorem duplicate_unbond_output_panics:
  assumes "exec_BondTx X evc tx c = (c', Ok r)"
    "bond_UnbondTo tx = map Some os" "\<not> distinct (map out_Address os)"
    "val_Address v = PubKey_Address (ex_wire X) (bond_PubKey tx)"
    "GetValidatorInfo s (val_Address v) = GetValidatorInfo (bc_backend c') (val_Address v)"
  shows "\<exists>e. releaseValidator B v s = Panic e"
proof -
  obtain i where i: "GetValidatorInfo s (val_Address v) = Some i" "vi_UnbondTo i = map Some os"
    using BondTx_registers [OF assms(1)] assms(2,4,5) by auto
  define s1 where "s1 = SetValidatorInfo (i\<lparr> vi_ReleasedHeight := next_height s \<rparr>) s"
  obtain s2 res where go: "getOrMakeOutputs State_getter False [] (map Some os) s1 = (s2, res)" by (rule prod.exhaust)
  have "\<nexists>accs. res = Ok accs"
    using state_getter.getOrMakeOutputs_eq_Ok [of False "[]" "map Some os" s1 s2] go assms(3)
    by (auto simp: comp_def dest: map_injective [OF _ inj_Some])
  then show ?thesis
    using i go by (cases res) (simp_all add: releaseValidator_def Let_def flip: s1_def)
qed

definition twice_outs :: "TxOutput list" where
  "twice_outs = [\<lparr> out_Address = addr20 2, out_Amount = 2 \<rparr>, \<lparr> out_Address = addr20 2, out_Amount = 1 \<rparr>]"

definition twice_bond :: BondTx where
  "twice_bond = \<lparr> bond_PubKey = addr20 1, bond_Signature = [], bond_Inputs = [Some (sample_input 1 5)],
     bond_UnbondTo = map Some twice_outs \<rparr>"

lemma twice_bond_runs:
  "case exec_BondTx sample_exec False twice_bond sample_ledger of (c, Ok r) \<Rightarrow> True | _ \<Rightarrow> False"
  by code_simp

theorem duplicate_unbond_output_panics_witness:
  "\<exists>c r e. exec_BondTx sample_exec False twice_bond sample_ledger = (c, Ok r) \<and>
     releaseValidator sample_env ((sample_val 1 1)\<lparr> val_Address := addr20 1 \<rparr>) (bc_backend c) = Panic e"
proof -
  obtain c r where run: "exec_BondTx sample_exec False twice_bond sample_ledger = (c, Ok r)"
    using twice_bond_runs by (auto split: prod.splits outcome.splits)
  have "bond_UnbondTo twice_bond = map Some twice_outs" "\<not> distinct (map out_Address twice_outs)"
    "val_Address ((sample_val 1 1)\<lparr> val_Address := addr20 1 \<rparr>) = PubKey_Address (ex_wire sample_exec) (bond_PubKey twice_bond)"
    by (simp_all add: twice_bond_def twice_outs_def sample_exec_def sample_keys_def)
  from duplicate_unbond_output_panics [OF run this refl]
  obtain e where "releaseValidator sample_env ((sample_val 1 1)\<lparr> val_Address := addr20 1 \<rparr>) (bc_backend c) = Panic e" ..
  with run show ?thesis by blast
qed

end
