(* ===== verification/Evm_Quiet.thy ===== *)
theory Evm_Quiet
  imports Call_Effects
begin

text \<open>
  Whether the machine has an event cache changes nothing but the events: two runs that differ in it
  agree in every other part of the machine and in their result.
\<close>

section \<open>Operations that do not look at the events\<close>

abbreviation heard :: "mach \<Rightarrow> fired \<Rightarrow> mach" where
  "heard m e \<equiv> m\<lparr> m_events := e \<rparr>"

lemma heard_commutes:
  "(heard m e)\<lparr> m_gas := g \<rparr> = heard (m\<lparr> m_gas := g \<rparr>) e" "(heard m e)\<lparr> m_stack := st \<rparr> = heard (m\<lparr> m_stack := st \<rparr>) e"
  "(heard m e)\<lparr> m_err := er \<rparr> = heard (m\<lparr> m_err := er \<rparr>) e" "(heard m e)\<lparr> m_mem := mem \<rparr> = heard (m\<lparr> m_mem := mem \<rparr>) e"
  "(heard m e)\<lparr> m_pc := pc \<rparr> = heard (m\<lparr> m_pc := pc \<rparr>) e" "(heard m e)\<lparr> m_cache := c \<rparr> = heard (m\<lparr> m_cache := c \<rparr>) e"
  by simp_all

definition alike :: "'a vmop \<Rightarrow> 'a vmop \<Rightarrow> bool" where
  "alike f g \<longleftrightarrow> (\<forall>m e. \<exists>e'. g (heard m e) = (heard (fst (f m)) e', snd (f m)))"

named_theorems alike_intros \<open>operations that do not depend on the events\<close>

lemma alike_elift [alike_intros]: "alike (elift r) (elift r)"
  by (auto simp: alike_def elift_def)

lemma alike_require [alike_intros]: "alike (require b e) (require b e)"
  by (simp add: require_def alike_intros)

lemma alike_ebind [alike_intros]:
  assumes "alike f f'" "\<And>a. alike (g a) (g' a)"
  shows "alike (ebind f g) (ebind f' g')"
  unfolding alike_def
proof (intro allI)
  fix m e
  obtain e1 where f': "f' (heard m e) = (heard (fst (f m)) e1, snd (f m))" using assms(1) by (auto simp: alike_def)
  obtain m1 r where f: "f m = (m1, r)" by (cases "f m")
  show "\<exists>e'. ebind f' g' (heard m e) = (heard (fst (ebind f g m)) e', snd (ebind f g m))"
    using f f' assms(2) by (cases r) (auto simp: ebind_def alike_def)
qed

lemma alike_eread: "(\<And>m e. h (heard m e) = h m) \<Longrightarrow> alike (eread h) (eread h)"
  by (auto simp: alike_def eread_def)

lemma alike_echange: "(\<And>m e. \<exists>e'. h' (heard m e) = heard (h m) e') \<Longrightarrow> alike (echange h) (echange h')"
  by (auto simp: alike_def echange_def)

lemma alike_fields [alike_intros]:
  "alike (eread m_stack) (eread m_stack)" "alike (eread m_err) (eread m_err)" "alike (eread m_gas) (eread m_gas)"
  "alike (eread m_mem) (eread m_mem)" "alike (eread m_code) (eread m_code)" "alike (eread m_pc) (eread m_pc)"
  "alike (eread m_value) (eread m_value)" "alike (eread m_input) (eread m_input)" "alike (eread m_callee) (eread m_callee)"
  "alike (eread m_caller) (eread m_caller)"
  by (simp_all add: alike_eread)

lemma alike_changes [alike_intros]:
  "alike (echange (\<lambda>m. m\<lparr> m_gas := g m \<rparr>)) (echange (\<lambda>m. m\<lparr> m_gas := g m \<rparr>))" if "\<And>m e. g (heard m e) = g m"
  using that by (auto intro!: alike_echange simp: heard_commutes)

lemma alike_if [alike_intros]: "alike a a' \<Longrightarrow> alike b b' \<Longrightarrow> alike (if P then a else b) (if P then a' else b')"
  by simp

lemma alike_option [alike_intros]:
  "alike a a' \<Longrightarrow> (\<And>x. alike (f x) (g x)) \<Longrightarrow>
   alike (case r of None \<Rightarrow> a | Some x \<Rightarrow> f x) (case r of None \<Rightarrow> a' | Some x \<Rightarrow> g x)"
  by (cases r) simp_all

lemma alike_prod [alike_intros]:
  "(\<And>x y. alike (f x y) (g x y)) \<Longrightarrow> alike (case r of (x, y) \<Rightarrow> f x y) (case r of (x, y) \<Rightarrow> g x y)"
  by (cases r) simp

lemma alike_outcome [alike_intros]:
  "(\<And>x. alike (a x) (a' x)) \<Longrightarrow> (\<And>x. alike (b x) (b' x)) \<Longrightarrow> (\<And>x. alike (c x) (c' x)) \<Longrightarrow>
   alike (case r of Ok x \<Rightarrow> a x | Err x \<Rightarrow> b x | Panic x \<Rightarrow> c x) (case r of Ok x \<Rightarrow> a' x | Err x \<Rightarrow> b' x | Panic x \<Rightarrow> c' x)"
  by (cases r) simp_all

lemma alike_on_cache [alike_intros]: "alike (on_cache f) (on_cache f)"
  by (auto simp: alike_def on_cache_def heard_commutes split: prod.splits)

lemma alike_read_acc: "alike (read_acc (\<lambda>_. r) f) (read_acc (\<lambda>_. r) f)" "alike (read_acc m_callee f) (read_acc m_callee f)"
  "alike (read_acc m_caller f) (read_acc m_caller f)"
  unfolding read_acc_def by (simp_all add: alike_eread)

lemma heard_useGas [simp]: "stack_useGas g (heard m e) = heard (stack_useGas g m) e"
  by (simp add: stack_useGas_def setErr_def heard_commutes)

lemma heard_setErr [simp]: "setErr x (heard m e) = heard (setErr x m) e"
  by (simp add: setErr_def heard_commutes)

lemma alike_Push: "alike (stack_Push d) (stack_Push d)"
  unfolding stack_Push_def by (rule alike_echange) (auto simp: Let_def heard_commutes)

lemma alike_Pop: "alike stack_Pop stack_Pop"
  by (auto simp: alike_def stack_Pop_def ecall_def Let_def heard_commutes split: list.splits)

lemma alike_Swap: "alike (stack_Swap n) (stack_Swap n)"
  unfolding stack_Swap_def by (rule alike_echange) (auto simp: Let_def heard_commutes)

lemma alike_Pop64: "alike Pop64 Pop64"
  unfolding Pop64_def by (intro alike_intros alike_Pop)

lemma alike_Dup: "alike (stack_Dup n) (stack_Dup n)"
  unfolding stack_Dup_def by (intro alike_intros alike_Push) (auto intro!: alike_echange)

lemma alike_PushBytes: "alike (PushBytes bz) (PushBytes bz)"
  unfolding PushBytes_def by (intro alike_intros alike_Push)

lemma alike_fail: "alike (fail_first e) (fail_first e)"
  unfolding fail_first_def by (intro alike_intros )

lemma alike_useGasNegative: "alike (useGasNegative g) (useGasNegative g)"
  unfolding useGasNegative_def by (intro alike_intros alike_fail) simp

lemma alike_mem_part: "alike (mem_part off len) (mem_part off len)"
  unfolding mem_part_def by (intro alike_intros alike_fail)

lemma alike_mem_read: "alike (mem_read off len) (mem_read off len)"
  unfolding mem_read_def by (intro alike_intros alike_mem_part)

lemma alike_mem_write: "alike (mem_write off len data) (mem_write off len data)"
  unfolding mem_write_def by (intro alike_intros alike_mem_part) (auto intro!: alike_echange simp: heard_commutes)

lemma alike_data_part: "alike (data_part e data off len) (data_part e data off len)"
  unfolding data_part_def by (intro alike_intros alike_fail)

lemma alike_jump: "alike (jump dst) (jump dst)"
  unfolding jump_def by (intro alike_intros ) (auto intro!: alike_echange simp: heard_commutes)

lemmas alike_stack = alike_Push alike_Pop alike_Pop64 alike_Swap alike_Dup alike_PushBytes alike_fail alike_useGasNegative
  alike_mem_part alike_mem_read alike_mem_write alike_data_part alike_jump alike_read_acc

section \<open>Instructions\<close>

lemma alike_push_next: "alike (push_next w) (push_next w)"
  unfolding push_next_def by (intro alike_intros alike_stack)

lemma alike_push_big: "alike (push_big x) (push_big x)"
  unfolding push_big_def by (intro alike_intros alike_stack)

lemma alike_push_bool: "alike (push_bool b) (push_bool b)"
  unfolding push_bool_def by (intro alike_intros alike_push_next)

lemma alike_unless_zero: "alike (unless_zero z x) (unless_zero z x)"
  unfolding unless_zero_def by (intro alike_intros alike_push_next alike_push_big)

lemma alike_pop2: "(\<And>x y. alike (f x y) (g x y)) \<Longrightarrow> alike (pop2 f) (pop2 g)"
  unfolding pop2_def by (intro alike_intros alike_stack)

lemmas alike_push = alike_push_next alike_push_big alike_push_bool alike_unless_zero alike_pop2

lemma alike_charged: "alike (charged_account addr) (charged_account addr)"
  unfolding charged_account_def by (intro alike_intros alike_stack)

lemma alike_copy: "alike (copy_to_memory e data) (copy_to_memory e data)"
  unfolding copy_to_memory_def by (intro alike_intros alike_stack)

lemma alike_arith: "alike (op_arith op) (op_arith op)"
  unfolding op_arith_def by (intro alike_intros alike_push alike_stack)

lemma alike_compare: "alike (op_compare op) (op_compare op)"
  unfolding op_compare_def by (intro alike_intros alike_push alike_stack)

lemma alike_storage: "alike (op_storage op) (op_storage op)"
  unfolding op_storage_def by (intro alike_intros alike_push alike_stack) (auto intro!: alike_echange simp: heard_commutes)

lemma alike_flow: "alike (op_flow op) (op_flow op)"
  unfolding op_flow_def by (intro alike_intros alike_push alike_stack)

lemma alike_op_push: "alike (op_push n) (op_push n)"
  unfolding op_push_def by (intro alike_intros alike_push alike_stack) (auto intro!: alike_echange simp: heard_commutes)

lemma alike_topics: "alike (pop_topics n) (pop_topics n)"
  by (induction n) (auto intro!: alike_intros alike_stack)

text \<open>Two environments that differ at most in the event cache.\<close>

abbreviation with_evc :: "vm_env \<Rightarrow> bool \<Rightarrow> vm_env" where
  "with_evc V evc \<equiv> V\<lparr> ve_evc := evc \<rparr>"

lemma env_fields:
  "ve_wire (with_evc V evc) = ve_wire V" "ve_hash (with_evc V evc) = ve_hash V" "ve_params (with_evc V evc) = ve_params V"
  "ve_origin (with_evc V evc) = ve_origin V"
  by simp_all

lemma alike_environment: "alike (op_environment V op) (op_environment (with_evc V evc) op)"
  unfolding op_environment_def env_fields by (intro alike_intros alike_push alike_stack alike_charged alike_copy)

lemma alike_log: "alike (op_log V n) (op_log (with_evc V evc) n)"
  unfolding op_log_def by (intro alike_intros alike_stack alike_topics) (auto intro!: alike_echange)

lemma alike_create: "alike (op_create V) (op_create (with_evc V evc))"
  unfolding op_create_def env_fields by (intro alike_intros alike_push alike_stack)

lemma alike_after_create: "alike (after_create acc r) (after_create acc r)"
  unfolding after_create_def by (intro alike_intros alike_push alike_stack) (auto intro!: alike_echange simp: heard_commutes)

lemma alike_after_call: "alike (after_call k r) (after_call k r)"
  unfolding after_call_def by (intro alike_intros alike_push alike_stack) (auto intro!: alike_echange simp: heard_commutes)

lemma heard_fire: "\<exists>e'. fireCallEvent (with_evc V evc) x out a b input v (heard m e) = heard (fireCallEvent V x out a b input v m) e'"
  by (auto simp: fireCallEvent_def)

lemma alike_call_native: "alike (call_native V f addr args v g) (call_native (with_evc V evc) f addr args v g)"
  unfolding alike_def
proof (intro allI)
  fix m :: mach and e
  obtain c g' r where f: "f (m_callee m) args g (m_cache m) = (c, g', r)" by (metis prod.exhaust)
  show "\<exists>e'. call_native (with_evc V evc) f addr args v g (heard m e) =
      (heard (fst (call_native V f addr args v g m)) e', snd (call_native V f addr args v g m))"
    using heard_fire [where V = V and evc = evc and b = addr and input = args and v = v and m = "m\<lparr> m_cache := c \<rparr>" and e = e]
    by (cases r) (auto simp: call_native_def f heard_commutes)
qed

lemma alike_new_account: "alike (new_account addr) (new_account addr)"
  unfolding new_account_def by (intro alike_intros alike_stack)

lemma alike_call_contract: "alike (call_contract V cc addr args v k) (call_contract (with_evc V evc) cc addr args v k)"
  unfolding call_contract_def by (intro alike_intros alike_stack alike_new_account) simp

lemma alike_call: "alike (op_call V cc) (op_call (with_evc V evc) cc)"
  unfolding op_call_def env_fields by (intro alike_intros alike_stack alike_call_contract alike_after_call alike_call_native) simp

lemma alike_suicide: "alike op_suicide op_suicide"
  unfolding op_suicide_def by (intro alike_intros alike_stack alike_charged) (auto intro!: alike_echange simp: heard_commutes)

lemma alike_exec: "alike (op_exec V op) (op_exec (with_evc V evc) op)"
  unfolding op_exec_def
  by (intro alike_intros alike_stack alike_arith alike_compare alike_environment alike_storage alike_flow alike_op_push alike_log
      alike_create alike_call alike_suicide)

lemma alike_op: "alike (vm_op V) (vm_op (with_evc V evc))"
  unfolding vm_op_def by (intro alike_intros alike_stack alike_exec)

section \<open>Runs\<close>

definition alike_run :: "'a vmrun \<Rightarrow> 'a vmrun \<Rightarrow> bool" where
  "alike_run f g \<longleftrightarrow> (\<forall>m e. \<exists>e'. g (heard m e) = map_option (\<lambda>(m', r). (heard m' e', r)) (f m))"

lemma alike_runD:
  "alike_run f g \<Longrightarrow> f m = None \<Longrightarrow> g (heard m e) = None"
  "alike_run f g \<Longrightarrow> f m = Some (m', r) \<Longrightarrow> \<exists>e'. g (heard m e) = Some (heard m' e', r)"
proof -
  assume "alike_run f g"
  then obtain e' where e': "g (heard m e) = map_option (\<lambda>(m', r). (heard m' e', r)) (f m)"
    unfolding alike_run_def by blast
  show "f m = None \<Longrightarrow> g (heard m e) = None" "f m = Some (m', r) \<Longrightarrow> \<exists>e'. g (heard m e) = Some (heard m' e', r)"
    using e' by auto
qed

lemma alikeD: "alike f g \<Longrightarrow> f m = (m', r) \<Longrightarrow> \<exists>e'. g (heard m e) = (heard m' e', r)"
  unfolding alike_def by (metis fst_conv snd_conv)

lemma heard_start: "start_frame a b code input v (heard m e) = heard (start_frame a b code input v m) e"
  by (simp add: start_frame_def)

lemma heard_leave: "leave_frame (heard m' e') (heard m e) = heard (leave_frame m' m) e'"
  by (simp add: leave_frame_def)

lemma alike_Call:
  assumes "alike_run loop loop'"
  shows "alike_run (vm_Call loop V a b code input v) (vm_Call loop' (with_evc V evc) a b code input v)"
  unfolding alike_run_def
proof (intro allI)
  fix m :: mach and e
  note fire = heard_fire [where V = V and evc = evc and input = input and v = v]
  show "\<exists>e'. vm_Call loop' (with_evc V evc) a b code input v (heard m e) =
      map_option (\<lambda>(m', r). (heard m' e', r)) (vm_Call loop V a b code input v m)"
  proof (cases "transfer a b v (m_cache m)")
    case (Ok c)
    let ?m = "start_frame a b code input v (m\<lparr> m_cache := c \<rparr>)"
    show ?thesis
    proof (cases "loop ?m")
      case None
      with Ok fire [where m = "m\<lparr> m_cache := c \<rparr>" and e = e] alike_runD(1) [OF assms None, of e] show ?thesis
        by (auto simp: vm_Call_def Let_def heard_commutes heard_start)
    next
      case (Some mr)
      obtain m1 r where mr: "loop ?m = Some (m1, r)" using Some by (cases mr) simp
      obtain e1 where e1: "loop' (heard ?m e) = Some (heard m1 e1, r)" using alike_runD(2) [OF assms mr, of e] by blast
      show ?thesis
        using Ok mr e1 fire [where m = "m\<lparr> m_cache := c \<rparr>" and e = e] fire [where m = "leave_frame m1 m" and e = e1]
          fire [where m = "(leave_frame m1 m)\<lparr> m_cache := c' \<rparr>" and e = e1 for c']
        by (cases r) (auto simp: vm_Call_def Let_def heard_commutes heard_start heard_leave split: outcome.splits)
    qed
  next
    case (Err x)
    then show ?thesis using fire [where m = m and e = e] by (auto simp: vm_Call_def Let_def)
  qed (auto simp: vm_Call_def)
qed

lemma alike_run_then:
  assumes "alike_run f g" "\<And>r. alike (k r) (k' r)"
  shows "\<exists>e'. (case g (heard m e) of None \<Rightarrow> None | Some (m2, r) \<Rightarrow> Some (k' r m2)) =
    map_option (\<lambda>(m', r). (heard m' e', r)) (case f m of None \<Rightarrow> None | Some (m2, r) \<Rightarrow> Some (k r m2))"
proof (cases "f m")
  case None
  then show ?thesis using alike_runD(1) [OF assms(1)] by simp
next
  case (Some mr)
  obtain m1 r where mr: "f m = Some (m1, r)" using Some by (cases mr) simp
  obtain e1 where e1: "g (heard m e) = Some (heard m1 e1, r)" using alike_runD(2) [OF assms(1) mr] by blast
  obtain e2 where "k' r (heard m1 e1) = (heard (fst (k r m1)) e2, snd (k r m1))"
    using assms(2) [of r] unfolding alike_def by blast
  then show ?thesis using mr e1 by (auto simp: case_prod_beta)
qed

lemma alike_step:
  assumes "alike_run loop loop'"
  shows "alike_run (vm_step loop V) (vm_step loop' (with_evc V evc))"
  unfolding alike_run_def
proof (intro allI)
  fix m :: mach and e
  obtain m1 r where op: "vm_op V m = (m1, r)" by (cases "vm_op V m")
  obtain e1 where op': "vm_op (with_evc V evc) (heard m e) = (heard m1 e1, r)" using alikeD [OF alike_op op] by blast
  show "\<exists>e'. vm_step loop' (with_evc V evc) (heard m e) = map_option (\<lambda>(m', r). (heard m' e', r)) (vm_step loop V m)"
  proof (cases r)
    case (Ok sig)
    show ?thesis
    proof (cases sig)
      case (Create acc input v)
      then show ?thesis
        using alike_run_then [OF alike_Call [OF assms, where V = V and evc = evc], where k = "after_create acc" and
            k' = "after_create acc" and m = m1 and e = e1]
          alike_after_create op op' Ok by (simp add: vm_step_def)
    next
      case (Invoke a c code args v k)
      then show ?thesis
        using alike_run_then [OF alike_Call [OF assms, where V = V and evc = evc], where k = "after_call k" and
            k' = "after_call k" and m = m1 and e = e1]
          alike_after_call op op' Ok by (simp add: vm_step_def)
    qed (use op op' Ok in \<open>auto simp: vm_step_def\<close>)
  qed (use op op' in \<open>auto simp: vm_step_def\<close>)
qed

lemma alike_loop: "alike_run (vm_loop n V) (vm_loop n (with_evc V evc))"
proof (induction n)
  case 0
  show ?case by (simp add: alike_run_def)
next
  case (Suc n)
  show ?case
    unfolding alike_run_def
  proof (intro allI)
    fix m :: mach and e
    show "\<exists>e'. vm_loop (Suc n) (with_evc V evc) (heard m e) = map_option (\<lambda>(m', r). (heard m' e', r)) (vm_loop (Suc n) V m)"
    proof (cases "vm_step (vm_loop n V) V m")
      case None
      then show ?thesis using alike_runD(1) [OF alike_step [OF Suc.IH] None] by simp
    next
      case (Some mr)
      obtain m1 r where mr: "vm_step (vm_loop n V) V m = Some (m1, r)" using Some by (cases mr) simp
      obtain e1 where e1: "vm_step (vm_loop n (with_evc V evc)) (with_evc V evc) (heard m e) = Some (heard m1 e1, r)"
        using alike_runD(2) [OF alike_step [OF Suc.IH] mr] by blast
      have step: "\<exists>e'. vm_loop n (with_evc V evc) (heard m2 e1) = map_option (\<lambda>(m', r). (heard m' e', r)) (vm_loop n V m2)" for m2
        using Suc.IH unfolding alike_run_def by blast
      show ?thesis
        using mr e1 step [of m1] step [of "m1\<lparr> m_pc := m_pc m1 + 1 \<rparr>"] by (cases r) (auto simp: heard_commutes split: signal.splits)
    qed
  qed
qed

lemma evm_Call_quiet:
  assumes "evm_Call n V a b code input v gas t = Some (m, r)"
  shows "\<exists>e. evm_Call n (with_evc V evc) a b code input v gas t = Some (heard m e, r)"
  using alike_runD(2) [OF alike_Call [OF alike_loop, where evc = evc] assms [unfolded evm_Call_def], where e = "[]"]
  by (simp add: evm_Call_def)

end
