(* ===== verification/Block_Proposal.thy ===== *)
theory Block_Proposal
  imports Block_Validators Evm_Quiet Iavl_Proof
begin

text \<open>
  A block that a proposer makes is executed twice: by the proposer, on a copy of its state and without
  an event cache, to find the state hash, and then by everyone. The first run changes the transactions
  of the block: it drops the public keys of inputs whose account has one. This theory shows that the
  second run does the same as the first, as long as every bond that the block returns goes to one account:
  with more of them, the order in which a Go map is walked decides the state hash.
\<close>

section \<open>The order of the accounts that a bond is returned to\<close>

text \<open>An iteration over a Go map visits every entry once, in any order.\<close>

definition range_ok :: "(Validator \<Rightarrow> State \<Rightarrow> (bytes, Account) gomap \<Rightarrow> (bytes, Account) gomap) \<Rightarrow> bool" where
  "range_ok r \<longleftrightarrow> (\<forall>v s m. mset (r v s m) = mset m)"

definition single_payout :: "State \<Rightarrow> Validator \<Rightarrow> bool" where
  "single_payout s v \<longleftrightarrow> pred_option (\<lambda>i. length (vi_UnbondTo i) \<le> 1) (GetValidatorInfo s (val_Address v))"

lemma range_single: "range_ok r \<Longrightarrow> length m \<le> 1 \<Longrightarrow> r v s m = m"
proof -
  assume r: "range_ok r" and m: "length m \<le> 1"
  have "mset (r v s m) = mset m" using r by (simp add: range_ok_def)
  with m show "r v s m = m" by (cases m) (auto simp: le_Suc_eq dest: arg_cong [of _ _ size])
qed

lemma paid_once:
  assumes "getOrMakeOutputs State_getter False [] outs s = (s', Ok accs)" "adjustByOutputs accs outs = Ok accs'" "length outs \<le> 1"
  shows "length accs' \<le> 1"
proof -
  obtain os where os: "outs = map Some os" "map fst accs = map out_Address os" "distinct (map out_Address os)"
    using state_getter.getOrMakeOutputs_eq_Ok [OF assms(1)] by (auto simp: comp_def)
  then have "map fst accs' = map fst accs" using adjustByOutputs_eq_Ok [of accs os accs'] assms(2) by simp
  then have "length accs' = length outs" using os by (metis length_map)
  then show ?thesis using assms(3) by simp
qed

lemma release_order:
  assumes "range_ok (be_range B)" "range_ok (be_range B')" "single_payout s v"
  shows "releaseValidator B v s = releaseValidator B' v s"
proof (cases "GetValidatorInfo s (val_Address v)")
  case (Some i)
  define s1 where "s1 = SetValidatorInfo (i\<lparr> vi_ReleasedHeight := next_height s \<rparr>) s"
  have outs: "length (vi_UnbondTo i) \<le> 1" using assms(3) Some by (simp add: single_payout_def)
  obtain s2 res where go: "getOrMakeOutputs State_getter False [] (vi_UnbondTo i) s1 = (s2, res)" by (rule prod.exhaust)
  show ?thesis
  proof (cases res)
    case (Ok accs)
    have "be_range B v s2 accs' = be_range B' v s2 accs'" if "adjustByOutputs accs (vi_UnbondTo i) = Ok accs'" for accs'
      using paid_once [OF go [unfolded Ok] that outs] assms(1,2) range_single by metis
    then show ?thesis
      by (cases "adjustByOutputs accs (vi_UnbondTo i)") (simp_all add: releaseValidator_def Some Let_def go Ok flip: s1_def split: prod.split option.split)
  qed (simp_all add: releaseValidator_def Some Let_def go flip: s1_def)
qed (simp add: releaseValidator_def)

lemma release_keeps_single:
  assumes "releaseValidator B v s = Ok s'" "single_payout s v" "single_payout s w"
  shows "single_payout s' w"
proof -
  obtain i where "GetValidatorInfo s (val_Address v) = Some i"
    "st_validatorInfos s' = tree_Set (vi_Address i) (i\<lparr> vi_ReleasedHeight := next_height s \<rparr>) (st_validatorInfos s)"
    using assms(1) by (rule releaseValidator_eq_Ok)
  with assms(2,3) show ?thesis by (simp add: single_payout_def GetValidatorInfo_def)
qed

lemma releases_order:
  assumes "range_ok (be_range B)" "range_ok (be_range B')"
  shows "\<forall>v\<in>set vals. single_payout s v \<Longrightarrow>
    each_val (releaseValidator B) vals s = each_val (releaseValidator B') vals s"
proof (induction vals arbitrary: s)
  case (Cons v vals)
  have same: "releaseValidator B v s = releaseValidator B' v s" using release_order [OF assms] Cons.prems by simp
  show ?case
  proof (cases "releaseValidator B' v s")
    case (Ok s1)
    then have "\<forall>w\<in>set vals. single_payout s1 w" using release_keeps_single [OF Ok] Cons.prems by simp
    with Cons.IH Ok same show ?thesis by (simp add: each_val_Cons)
  qed (simp_all add: each_val_Cons same)
qed simp

text \<open>The state in which a block releases validators, after its commit and its transactions.\<close>

definition before_release :: "block_env \<Rightarrow> Block \<Rightarrow> State \<Rightarrow> State outcome" where
  "before_release B b s =
     obind (touch_validators (hdr_Height (block_Header b)) 0 (block_Precommits b) s) (\<lambda>s1.
     obind (run_txs B (block_Txs b) (s1\<lparr> LastBondedValidators := BondedValidators s1 \<rparr>)) (\<lambda>(s2, _, _). Ok s2))"

definition single_payouts :: "block_env \<Rightarrow> Block \<Rightarrow> State \<Rightarrow> bool" where
  "single_payouts B b s \<longleftrightarrow>
     (case before_release (B\<lparr> be_evc := False \<rparr>) b s of
        Ok s2 \<Rightarrow> list_all (single_payout s2) (toRelease (hdr_Height (block_Header b)) s2)
      | _ \<Rightarrow> True)"

section \<open>Runs that differ in their events\<close>

definition agree :: "('a \<Rightarrow> 'b) \<Rightarrow> ('s, 'a) exec \<Rightarrow> ('s, 'a) exec \<Rightarrow> bool" where
  "agree h m m' \<longleftrightarrow> (\<forall>c c' r. m c = (c', Ok r) \<longrightarrow> (\<exists>r'. m' c = (c', Ok r') \<and> h r' = h r))"

named_theorems agree_intros \<open>runs that agree but for their events\<close>

lemma agreeD: "agree h m m' \<Longrightarrow> m c = (c', Ok r) \<Longrightarrow> \<exists>r'. m' c = (c', Ok r') \<and> h r' = h r"
  by (simp add: agree_def)

lemma agree_refl: "agree h m m"
  by (simp add: agree_def)

lemma agree_ebind [agree_intros]: "(\<And>a. agree h (f a) (g a)) \<Longrightarrow> agree h (ebind m f) (ebind m g)"
  unfolding agree_def ebind_eq_Ok by blast

lemma agree_ebind_results:
  "agree k m m' \<Longrightarrow> (\<And>a b. k b = k a \<Longrightarrow> agree h (f a) (g b)) \<Longrightarrow> agree h (ebind m f) (ebind m' g)"
  unfolding agree_def ebind_eq_Ok by blast

lemma agree_eret [agree_intros]: "agree fst (eret (t, e)) (eret (t, e'))"
  by (simp add: agree_def)

lemma agree_if [agree_intros]: "agree h a a' \<Longrightarrow> agree h b b' \<Longrightarrow> agree h (if P then a else b) (if P then a' else b')"
  by simp

lemma agree_prod [agree_intros]: "(\<And>x y. agree h (f x y) (g x y)) \<Longrightarrow> agree h (case r of (x, y) \<Rightarrow> f x y) (case r of (x, y) \<Rightarrow> g x y)"
  by (cases r) simp

lemma agree_option [agree_intros]:
  "agree h a a' \<Longrightarrow> (\<And>x. agree h (f x) (g x)) \<Longrightarrow>
   agree h (case r of None \<Rightarrow> a | Some x \<Rightarrow> f x) (case r of None \<Rightarrow> a' | Some x \<Rightarrow> g x)"
  by (cases r) simp_all

section \<open>Checking the inputs again\<close>

lemma checkInputPubKey_again:
  "checkInputPubKey W acc i = Ok (acc', j) \<Longrightarrow> checkInputPubKey W acc j = Ok (acc', j)"
  by (auto simp: checkInputPubKey_def split: option.splits if_splits)

lemma checked_core: "checkInputPubKey W acc i = Ok (acc', j) \<Longrightarrow> in_Address j = in_Address i \<and> sign_core j = sign_core i"
  by (auto simp: checkInputPubKey_def split: option.splits if_splits)

lemma check_pub_key_again:
  "check_pub_key W acc i c = (c', Ok (acc', j)) \<Longrightarrow>
   check_pub_key W acc j c = (c', Ok (acc', j)) \<and> in_Address j = in_Address i \<and> sign_core j = sign_core i"
  by (auto simp: check_pub_key_def exec_eqs dest: checkInputPubKey_again checked_core)

lemma getInputs_again:
  "getInputs W accs ps c = (c', Ok (ins, accs')) \<Longrightarrow>
   getInputs W accs ins c = (c', Ok (ins, accs')) \<and> map (map_option sign_core) ins = map (map_option sign_core) ps"
proof (induction ps arbitrary: accs c ins)
  case (Cons p ps)
  from Cons.prems obtain i acc acc1 c1 j ins' where i: "p = Some i" "map_of accs (in_Address i) = None"
    "bc_view c (in_Address i) = Some acc"
    "check_pub_key W acc i (snd (bc_GetAccount (in_Address i) c)) = (c1, Ok (acc1, j))"
    and ins: "ins = Some j # ins'"
    and rest: "getInputs W (accs @ [(in_Address j, acc1)]) ps c1 = (c', Ok (ins', accs'))"
    by (auto simp: exec_eqs deref_def cache_getter.ecall_get split: option.splits)
  note k = check_pub_key_again [OF i(4)]
  note IH = Cons.IH [OF rest]
  show ?case
    using i k IH ins by (auto simp: exec_eqs deref_def cache_getter.ecall_get)
qed (simp add: elift_def)

lemma check_single_again:
  assumes "check_single X input permission denied tx c = (c', Ok (inp, acc))"
  shows "check_single X (Some inp) permission denied tx c = (c', Ok (inp, acc)) \<and>
    map_option sign_core input = Some (sign_core inp)"
proof -
  from assms obtain i acc0 c0 sb where i: "input = Some i" "bc_view c (in_Address i) = Some acc0"
    and p: "permission acc0 (snd (bc_GetAccount (in_Address i) c)) = (c0, Ok True)"
    and k: "check_pub_key (ex_wire X) acc0 i c0 = (c', Ok (acc, inp))"
    and s: "SignBytes (ex_wire X) (ChainID (bc_backend c')) (tx inp) = Ok sb"
      "validateInput (ex_wire X) acc sb inp = Ok ()"
    by (auto simp: check_single_def exec_eqs deref_def cache_getter.ecall_get split: option.splits)
  note again = check_pub_key_again [OF k]
  show ?thesis
    using i p again s by (auto simp: check_single_def exec_eqs deref_def cache_getter.ecall_get)
qed

section \<open>Transactions again\<close>

definition returns :: "('a \<Rightarrow> bool) \<Rightarrow> ('s, 'a) exec \<Rightarrow> bool" where
  "returns Q m \<longleftrightarrow> (\<forall>c c' r. m c = (c', Ok r) \<longrightarrow> Q r)"

named_theorems returns_intros \<open>what a run returns\<close>

lemma returnsD: "returns Q m \<Longrightarrow> m c = (c', Ok r) \<Longrightarrow> Q r"
  by (simp add: returns_def)

lemma returns_ebind [returns_intros]: "(\<And>a. returns Q (f a)) \<Longrightarrow> returns Q (ebind m f)"
  by (simp add: returns_def ebind_eq_Ok) blast

lemma returns_eret [returns_intros]: "Q x \<Longrightarrow> returns Q (eret x)"
  by (simp add: returns_def)

lemma returns_Err [returns_intros]: "returns Q (elift (Err e))"
  by (simp add: returns_def)

lemma returns_if [returns_intros]: "returns Q a \<Longrightarrow> returns Q b \<Longrightarrow> returns Q (if P then a else b)"
  by simp

lemma returns_prod [returns_intros]: "(\<And>x y. returns Q (f x y)) \<Longrightarrow> returns Q (case r of (x, y) \<Rightarrow> f x y)"
  by (cases r) simp

lemma returns_option [returns_intros]:
  "returns Q a \<Longrightarrow> (\<And>x. returns Q (f x)) \<Longrightarrow> returns Q (case r of None \<Rightarrow> a | Some x \<Rightarrow> f x)"
  by (cases r) simp_all

text \<open>
  A transaction whose execution gave \<open>tx'\<close> can be executed again as \<open>tx'\<close>, with or without events, and has the same bytes
  to sign.
\<close>

definition replays :: "exec_env \<Rightarrow> bool \<Rightarrow> Tx \<Rightarrow> BlockCache \<Rightarrow> BlockCache \<Rightarrow> Tx \<Rightarrow> bool" where
  "replays X evc tx c c' tx' \<longleftrightarrow> (\<exists>evs. ExecTx X True evc tx' c = (c', Ok (tx', evs))) \<and>
     (\<forall>W chainID. SignBytes W chainID tx' = SignBytes W chainID tx)"

lemma agree_head:
  "ebind m f c = (c', Ok r) \<Longrightarrow> m c = (c1, Ok a) \<Longrightarrow> m' c = (c1, Ok a) \<Longrightarrow> agree h (f a) (g a) \<Longrightarrow>
   \<exists>r'. ebind m' g c = (c', Ok r') \<and> h r' = h r"
  by (simp add: ebind_Ok agree_def)

lemma returns_head: "ebind m f c = (c', Ok r) \<Longrightarrow> m c = (c1, Ok a) \<Longrightarrow> returns Q (f a) \<Longrightarrow> Q r"
  by (simp add: ebind_Ok returns_def)

lemma replay_SendTx:
  assumes "exec_SendTx X evc tx c = (c', Ok (tx', evs))"
  shows "replays X evc' (TxSend tx) c c' tx'"
proof -
  let ?get = "\<lambda>tx. getInputs (ex_wire X) [] (send_Inputs tx)"
  from assms obtain c1 ins accs where ins: "?get tx c = (c1, Ok (ins, accs))"
    unfolding exec_SendTx_def ebind_eq_Ok by auto
  note again = getInputs_again [OF ins]
  define tx1 where "tx1 = tx\<lparr> send_Inputs := ins \<rparr>"
  have get1: "?get tx1 c = (c1, Ok (ins, accs))" using again by (simp add: tx1_def)
  have "\<exists>r. exec_SendTx X evc' tx1 c = (c', Ok r) \<and> fst r = fst (tx', evs)"
    using assms unfolding exec_SendTx_def
    by (rule agree_head [where m = "?get tx" and m' = "?get tx1" and c = c, OF _ ins get1])
      (simp add: tx1_def Let_def, intro agree_intros)
  then obtain evs' where run: "exec_SendTx X evc' tx1 c = (c', Ok (tx', evs'))" by auto
  have "fst (tx', evs) = TxSend tx1"
    using assms unfolding exec_SendTx_def
    by (rule returns_head [where m = "?get tx" and c = c, OF _ ins]) (simp add: Let_def, intro returns_intros, simp add: tx1_def)
  with run show ?thesis
    using write_list_core [of ins "send_Inputs tx"] again by (auto simp: replays_def tx1_def SendTx_WriteSignBytes_def)
qed

lemma ebind_eread: "ebind (eread g) f c = f (g c) c"
  by (simp add: ebind_def eread_def)

lemma ebind_require: "ebind (require P e) f c = (if P then f () c else (c, Err e))"
  by (simp add: ebind_def require_def elift_def)

lemma replay_BondTx:
  assumes "exec_BondTx X evc tx c = (c', Ok (tx', evs))"
  shows "replays X evc' (TxBond tx) c c' tx'"
proof -
  let ?get = "\<lambda>tx. getInputs (ex_wire X) [] (bond_Inputs tx)"
  have new: "GetValidatorInfo (bc_backend c) (PubKey_Address (ex_wire X) (bond_PubKey tx)) = None"
    using assms by (simp add: exec_BondTx_def Let_def ebind_eread ebind_require split: if_splits)
  from assms obtain c1 ins accs where ins: "?get tx c = (c1, Ok (ins, accs))"
    unfolding exec_BondTx_def Let_def ebind_eread [where c = c] ebind_require [where c = c] if_P [OF new] ebind_eq_Ok [where m = "?get tx"] by auto
  note again = getInputs_again [OF ins]
  define tx1 where "tx1 = tx\<lparr> bond_Inputs := ins \<rparr>"
  have get1: "?get tx1 c = (c1, Ok (ins, accs))" using again by (simp add: tx1_def)
  have new1: "GetValidatorInfo (bc_backend c) (PubKey_Address (ex_wire X) (bond_PubKey tx1)) = None"
    using new by (simp add: tx1_def)
  have "\<exists>r. exec_BondTx X evc' tx1 c = (c', Ok r) \<and> fst r = fst (tx', evs)"
    using assms unfolding exec_BondTx_def Let_def ebind_eread [where c = c] ebind_require [where c = c] if_P [OF new] if_P [OF new1]
    by (rule agree_head [where m = "?get tx" and m' = "?get tx1" and c = c, OF _ ins get1])
      (simp add: tx1_def, intro agree_intros)
  then obtain evs' where run: "exec_BondTx X evc' tx1 c = (c', Ok (tx', evs'))" by auto
  have "fst (tx', evs) = TxBond tx1"
    using assms unfolding exec_BondTx_def Let_def ebind_eread [where c = c] ebind_require [where c = c] if_P [OF new]
    by (rule returns_head [where m = "?get tx" and c = c, OF _ ins]) (simp, intro returns_intros, simp add: tx1_def)
  with run show ?thesis
    using write_list_core [of ins "bond_Inputs tx"] again by (auto simp: replays_def tx1_def BondTx_WriteSignBytes_def)
qed

text \<open>Transactions with a single input.\<close>

lemma single_bytes:
  assumes "check_single X input permission denied tx c = (c', Ok (inp, acc))"
  shows "\<exists>i. input = Some i \<and> TxInput_WriteSignBytes inp = TxInput_WriteSignBytes i"
proof -
  obtain i where "input = Some i" "sign_core i = sign_core inp"
    using check_single_again [OF assms] by (cases input) simp_all
  then show ?thesis using TxInput_WriteSignBytes_core by metis
qed

lemma returns_unknown: "returns Q (elift (unknown_perm_account args a))"
  by (auto simp: returns_def unknown_perm_account_def split: PermArgs.splits)

lemma replay_NameTx:
  assumes "exec_NameTx X evc tx c = (c', Ok (tx', evs))"
  shows "replays X evc' (TxName tx) c c' tx'"
proof -
  let ?get = "\<lambda>tx. check_single X (name_Input tx) (hasNamePermission bc_GetAccount)
      (\<lambda>a. ''Account '' @ fmt_X a @ '' does not have Name permission'') (\<lambda>inp. TxName (tx\<lparr> name_Input := Some inp \<rparr>))"
  from assms obtain c1 inp acc where inp: "?get tx c = (c1, Ok (inp, acc))"
    unfolding exec_NameTx_def ebind_eq_Ok [where m = "?get tx"] by auto
  note again = check_single_again [OF inp]
  define tx1 where "tx1 = tx\<lparr> name_Input := Some inp \<rparr>"
  have get1: "?get tx1 c = (c1, Ok (inp, acc))" using again by (simp add: tx1_def)
  have "\<exists>r. exec_NameTx X evc' tx1 c = (c', Ok r) \<and> fst r = fst (tx', evs)"
    using assms unfolding exec_NameTx_def
    by (rule agree_head [where m = "?get tx" and m' = "?get tx1" and c = c, OF _ inp get1])
      (simp add: tx1_def Let_def, intro agree_intros)
  then obtain evs' where run: "exec_NameTx X evc' tx1 c = (c', Ok (tx', evs'))" by auto
  have "fst (tx', evs) = TxName tx1"
    using assms unfolding exec_NameTx_def
    by (rule returns_head [where m = "?get tx" and c = c, OF _ inp]) (simp add: Let_def, intro returns_intros, simp add: tx1_def)
  moreover obtain i where "name_Input tx = Some i" "TxInput_WriteSignBytes inp = TxInput_WriteSignBytes i"
    using single_bytes [OF inp] by blast
  ultimately show ?thesis
    using run by (auto simp: replays_def tx1_def NameTx_WriteSignBytes_def deref_def)
qed

declare show_bits.simps [simp del]

lemma replay_PermissionsTx:
  assumes "exec_PermissionsTx X evc tx c = (c', Ok (tx', evs))"
  shows "replays X evc' (TxPermissions tx) c c' tx'"
proof -
  define flag where "flag = PermFlag_of (perm_Args tx)"
  let ?get = "\<lambda>tx. check_single X (perm_Input tx) (\<lambda>acc. HasPermission bc_GetAccount (Some acc) flag)
      (\<lambda>a. ''Account '' @ fmt_X a @ '' does not have moderator permission '' @ PermFlagToString flag @
        '' ('' @ show_bits (unat flag) @ '')'')
      (\<lambda>inp. TxPermissions (tx\<lparr> perm_Input := Some inp \<rparr>))"
  from assms obtain c1 inp acc where inp: "?get tx c = (c1, Ok (inp, acc))"
    unfolding exec_PermissionsTx_def Let_def flag_def [symmetric] ebind_eq_Ok [where m = "?get tx"] by auto
  note again = check_single_again [OF inp]
  define tx1 where "tx1 = tx\<lparr> perm_Input := Some inp \<rparr>"
  have flag1: "PermFlag_of (perm_Args tx1) = flag" by (simp add: tx1_def flag_def)
  have get1: "?get tx1 c = (c1, Ok (inp, acc))" using again by (simp add: tx1_def)
  have "\<exists>r. exec_PermissionsTx X evc' tx1 c = (c', Ok r) \<and> fst r = fst (tx', evs)"
    using assms unfolding exec_PermissionsTx_def Let_def flag1 flag_def [symmetric]
    by (rule agree_head [where m = "?get tx" and m' = "?get tx1" and c = c, OF _ inp get1])
      (simp add: tx1_def, intro agree_intros agree_refl)
  then obtain evs' where run: "exec_PermissionsTx X evc' tx1 c = (c', Ok (tx', evs'))" by auto
  have "fst (tx', evs) = TxPermissions tx1"
    using assms unfolding exec_PermissionsTx_def Let_def flag_def [symmetric]
    by (rule returns_head [where m = "?get tx" and c = c, OF _ inp])
      (simp, intro returns_intros, simp_all add: tx1_def returns_unknown)
  moreover obtain i where "perm_Input tx = Some i" "TxInput_WriteSignBytes inp = TxInput_WriteSignBytes i"
    using single_bytes [OF inp] by blast
  ultimately show ?thesis
    using run by (auto simp: replays_def tx1_def PermissionsTx_WriteSignBytes_def deref_def)
qed

text \<open>Transactions without an input.\<close>

lemma replay_same:
  assumes "ExecTx X True evc tx c = (c', Ok (tx', evs))" "agree fst (ExecTx X True evc tx) (ExecTx X True evc' tx)"
    "returns (\<lambda>r. fst r = tx) (ExecTx X True evc tx)"
  shows "replays X evc' tx c c' tx'"
proof -
  have "tx' = tx" using returnsD [OF assms(3,1)] by simp
  moreover obtain r where "ExecTx X True evc' tx c = (c', Ok r)" "fst r = tx'" using agreeD [OF assms(2,1)] by auto
  ultimately show ?thesis by (cases r) (auto simp: replays_def)
qed

lemma agree_validator_txs:
  "agree fst (exec_UnbondTx X evc u) (exec_UnbondTx X evc' u)"
  "agree fst (exec_RebondTx X evc r) (exec_RebondTx X evc' r)"
  "agree fst (exec_DupeoutTx X evc d) (exec_DupeoutTx X evc' d)"
  unfolding exec_UnbondTx_def exec_RebondTx_def exec_DupeoutTx_def Let_def by (intro agree_intros agree_refl)+

lemma returns_validator_txs:
  "returns (\<lambda>r. fst r = TxUnbond u) (exec_UnbondTx X evc u)"
  "returns (\<lambda>x. fst x = TxRebond r) (exec_RebondTx X evc r)"
  "returns (\<lambda>r. fst r = TxDupeout d) (exec_DupeoutTx X evc d)"
  unfolding exec_UnbondTx_def exec_RebondTx_def exec_DupeoutTx_def Let_def by (intro returns_intros, simp)+

section \<open>Machines whose events change nothing\<close>

locale quiet_machine = contract_machine +
  assumes quiet: "run params origin txid evc caller callee code input v gas t = (t', evs, r) \<Longrightarrow>
    \<exists>evs'. run params origin txid evc' caller callee code input v gas t = (t', evs', r)"
begin

lemma quiet_call:
  assumes X: "vm_Run X = run"
  shows "agree snd (run_call X evc tx v inAcc outAcc) (run_call X evc' tx v inAcc outAcc)"
  unfolding agree_def
proof (intro allI impI)
  fix c c' r assume call: "run_call X evc tx v inAcc outAcc c = (c', Ok r)"
  obtain callerAcc params where start: "state_toVMAccount inAcc = Ok callerAcc" "call_params (bc_backend c) = Ok params"
    using call unfolding run_call_def
    by (cases "state_toVMAccount inAcc"; cases "call_params (bc_backend c)") simp_all
  show "\<exists>r'. run_call X evc' tx v inAcc outAcc c = (c', Ok r') \<and> snd r' = snd r"
  proof (cases "call_Address tx \<noteq> [] \<and> (case outAcc of None \<Rightarrow> True | Some acc \<Rightarrow> acc_Code acc = [])")
    case True
    then show ?thesis using call start by (simp add: run_call_def)
  next
    case False
    obtain caller t0 where new: "tc_new callerAcc (NewTxCache c) = (caller, t0)" by (rule prod.exhaust)
    obtain callee code t txid where prep: "call_setup X tx caller outAcc t0 = Ok (callee, code, t)"
      "TxID (ex_wire X) (ChainID (bc_backend c)) (TxCall tx) = Ok txid"
      using call start new unfolding run_call_def if_not_P [OF False]
      by (cases "call_setup X tx caller outAcc t0"; cases "TxID (ex_wire X) (ChainID (bc_backend c)) (TxCall tx)") auto
    obtain t1 evs res where run: "run params (vm_Address callerAcc) txid evc caller callee code (call_Data tx) v (call_GasLimit tx) t =
        (t1, evs, res)" by (metis prod.exhaust)
    from quiet [OF run] obtain evs' where
      "run params (vm_Address callerAcc) txid evc' caller callee code (call_Data tx) v (call_GasLimit tx) t = (t1, evs', res)" by blast
    then show ?thesis
      using call start new prep run False unfolding run_call_def if_not_P [OF False] X
      by (cases res) (auto split: outcome.splits if_splits)
  qed
qed

lemma replay_CallTx:
  assumes X: "vm_Run X = run" and ex: "exec_CallTx X True evc tx c = (c', Ok (tx', evs))"
  shows "replays X evc' (TxCall tx) c c' tx'"
proof -
  define fresh where "fresh \<longleftrightarrow> call_Address tx = []"
  let ?get = "\<lambda>tx. check_single X (call_Input tx)
      (if fresh then hasCreateContractPermission bc_GetAccount else hasCallPermission bc_GetAccount)
      (\<lambda>a. ''Account '' @ fmt_X a @ '' does not have '' @ (if fresh then ''CreateContract'' else ''Call'') @ '' permission'')
      (\<lambda>inp. TxCall (tx\<lparr> call_Input := Some inp \<rparr>))"
  from ex obtain c1 inp acc where inp: "?get tx c = (c1, Ok (inp, acc))"
    unfolding exec_CallTx_def Let_def fresh_def [symmetric] ebind_eq_Ok [where m = "?get tx"] by auto
  note again = check_single_again [OF inp]
  define tx1 where "tx1 = tx\<lparr> call_Input := Some inp \<rparr>"
  have fresh1: "(call_Address tx1 = []) = fresh" by (simp add: tx1_def fresh_def)
  have get1: "?get tx1 c = (c1, Ok (inp, acc))" using again by (simp add: tx1_def)
  have checked: "agree fst (exec_checked_call X True evc tx1 inp acc) (exec_checked_call X True evc' tx1 inp acc)"
    unfolding exec_checked_call_def Let_def if_True
    by (intro agree_ebind agree_ebind_results [OF quiet_call [OF X]]) (auto simp: case_prod_beta intro!: agree_eret)
  have "\<exists>r. exec_CallTx X True evc' tx1 c = (c', Ok r) \<and> fst r = fst (tx', evs)"
    using ex unfolding exec_CallTx_def Let_def fresh1 fresh_def [symmetric]
    by (rule agree_head [where m = "?get tx" and m' = "?get tx1" and c = c, OF _ inp get1])
      (use checked in \<open>simp add: tx1_def\<close>)
  then obtain evs' where run: "exec_CallTx X True evc' tx1 c = (c', Ok (tx', evs'))" by auto
  have result: "returns (\<lambda>r. fst r = TxCall tx1) (exec_checked_call X True evc tx1 inp acc)"
    unfolding exec_checked_call_def Let_def if_True by (intro returns_intros) simp
  have "fst (tx', evs) = TxCall tx1"
    using ex unfolding exec_CallTx_def Let_def fresh_def [symmetric]
    by (rule returns_head [where m = "?get tx" and c = c, OF _ inp])
      (use result in \<open>simp add: tx1_def\<close>)
  moreover obtain i where "call_Input tx = Some i" "TxInput_WriteSignBytes inp = TxInput_WriteSignBytes i"
    using single_bytes [OF inp] by blast
  ultimately show ?thesis
    using run by (auto simp: replays_def tx1_def CallTx_WriteSignBytes_def deref_def)
qed

lemma ExecTx_again:
  assumes "vm_Run X = run" "ExecTx X True evc tx c = (c', Ok (tx', evs))"
  shows "replays X evc' tx c c' tx'"
proof (cases tx)
  case (TxUnbond u)
  then show ?thesis using assms(2) by (intro replay_same) (simp_all add: agree_validator_txs returns_validator_txs)
next
  case (TxRebond u)
  then show ?thesis using assms(2) by (intro replay_same) (simp_all add: agree_validator_txs returns_validator_txs)
next
  case (TxDupeout u)
  then show ?thesis using assms(2) by (intro replay_same) (simp_all add: agree_validator_txs returns_validator_txs)
qed (use assms in \<open>simp_all add: replay_SendTx replay_CallTx replay_NameTx replay_BondTx replay_PermissionsTx\<close>)

lemma exec_txs_again:
  assumes "vm_Run (be_exec B) = run"
  shows "exec_txs (be_exec B) evc txs c = Ok (c', txs', evs) \<Longrightarrow>
    (\<exists>evs'. exec_txs (be_exec B) evc' txs' c = Ok (c', txs', evs')) \<and> data_leaves B txs' = data_leaves B txs \<and>
    length txs' = length txs"
proof (induction txs arbitrary: c txs' evs)
  case (Cons tx txs)
  from Cons.prems obtain c1 tx1 evs1 txs2 evs2 where first: "ExecTx (be_exec B) True evc tx c = (c1, Ok (tx1, evs1))"
    and rest: "exec_txs (be_exec B) evc txs c1 = Ok (c', txs2, evs2)" and txs': "txs' = tx1 # txs2"
    by (auto simp: obind_eq_Ok split: prod.splits outcome.splits)
  have r: "replays (be_exec B) evc' tx c c1 tx1" using ExecTx_again [OF assms first] .
  then obtain evs3 where again: "ExecTx (be_exec B) True evc' tx1 c = (c1, Ok (tx1, evs3))" by (auto simp: replays_def)
  obtain evs4 where "exec_txs (be_exec B) evc' txs2 c1 = Ok (c', txs2, evs4)" "data_leaves B txs2 = data_leaves B txs"
    "length txs2 = length txs"
    using Cons.IH [OF rest] by auto
  with again r show ?case by (simp add: txs' replays_def)
qed simp

lemma run_txs_again:
  assumes "vm_Run (be_exec B) = run" "run_txs (B\<lparr> be_evc := e \<rparr>) txs s = Ok (s', txs', evs)"
  shows "(\<exists>evs'. run_txs B txs' s = Ok (s', txs', evs')) \<and> data_leaves B txs' = data_leaves B txs \<and> length txs' = length txs"
proof -
  from assms(2) obtain c where c: "exec_txs (be_exec B) e txs (NewBlockCache s) = Ok (c, txs', evs)" "bc_Sync (be_tree_Save B) c = Ok s'"
    by (auto simp: run_txs_def obind_eq_Ok)
  from exec_txs_again [OF assms(1) c(1), of "be_evc B"] c(2) show ?thesis by (auto simp: run_txs_def obind_eq_Ok)
qed

lemma proposed_again:
  assumes "vm_Run (be_exec B) = run" "ComputeBlockStateHash B b s = Ok b'"
    and order: "range_ok (be_range B)" "range_ok r" "single_payouts B b s"
  shows "\<exists>s' evs. ExecBlock (B\<lparr> be_evc := evc, be_range := r \<rparr>) b' parts s = Ok (s', block_Txs b', evs)"
proof -
  define B0 where "B0 = B\<lparr> be_evc := False \<rparr>"
  define B1 where "B1 = B\<lparr> be_evc := evc, be_range := r \<rparr>"
  from assms(2) obtain s0 txs evs where ex: "execBlock B0 b zero_header s = Ok (s0, txs, evs)"
    and b': "b' = b\<lparr> block_Txs := txs, block_Header := (block_Header b)\<lparr> hdr_StateHash := State_Hash B s0 \<rparr> \<rparr>"
    by (auto simp: ComputeBlockStateHash_def obind_eq_Ok B0_def)
  from ex obtain s1 s2 s3 hs where
    basic: "Block_ValidateBasic B0 (ChainID s) (LastBlockHeight s) (LastBlockHash s) (LastBlockParts s) b = Ok ()"
    and commit: "check_commit B0 b s = Ok ()"
    and s1: "touch_validators (hdr_Height (block_Header b)) 0 (block_Precommits b) s = Ok s1"
    and s2: "run_txs B0 (block_Txs b) (s1\<lparr> LastBondedValidators := BondedValidators s1 \<rparr>) = Ok (s2, txs, evs)"
    and s3: "end_block B0 (hdr_Height (block_Header b)) s2 = Ok s3"
    and s0: "s0 = s3\<lparr> LastBlockHeight := hdr_Height (block_Header b), LastBlockHash := hs, LastBlockParts := zero_header,
      LastBlockTime := hdr_Time (block_Header b) \<rparr>"
    by (rule execBlock_eq_Ok)
  have vm: "vm_Run (be_exec B1) = run" using assms(1) by (simp add: B1_def)
  have "run_txs (B1\<lparr> be_evc := False \<rparr>) (block_Txs b) (s1\<lparr> LastBondedValidators := BondedValidators s1 \<rparr>) = Ok (s2, txs, evs)"
    using s2 by (simp add: run_txs_def B0_def B1_def)
  from run_txs_again [OF vm this] obtain evs' where
    run: "run_txs B1 txs (s1\<lparr> LastBondedValidators := BondedValidators s1 \<rparr>) = Ok (s2, txs, evs')"
    and leaves: "data_leaves B1 txs = data_leaves B1 (block_Txs b)" and len: "length txs = length (block_Txs b)" by auto
  have "before_release B0 b s = Ok s2" using s1 s2 by (simp add: before_release_def)
  then have "\<forall>v\<in>set (toRelease (hdr_Height (block_Header b)) s2). single_payout s2 v"
    using order(3) by (simp add: single_payouts_def list_all_iff flip: B0_def)
  then have released: "end_block B1 (hdr_Height (block_Header b)) s2 = Ok s3"
    using releases_order [of B0 B1] order(1,2) s3 by (simp add: end_block_def B0_def B1_def)
  have leaf: "data_leaves B0 ts = data_leaves B1 ts" for ts by (induction ts) (simp_all add: B0_def B1_def)
  have env: "Data_Hash B0 ts = Data_Hash B1 ts" "Validation_Hash B0 ps = Validation_Hash B1 ps"
    "check_commit B0 b s = check_commit B1 b s" "State_Hash B t = State_Hash B1 t" for ts ps t
    by (simp_all add: Data_Hash_def leaf Validation_Hash_def check_commit_def)
      (simp_all add: B0_def B1_def State_Hash_def ValidatorSet_Hash_def)
  have data: "Data_Hash B1 txs = Data_Hash B1 (block_Txs b)" by (simp add: Data_Hash_def leaves)
  have basic': "Block_ValidateBasic B1 (ChainID s) (LastBlockHeight s) (LastBlockHash s) (LastBlockParts s) b' = Ok ()"
  proof -
    have "Block_ValidateBasic B1 cid lh hs ps b' = Block_ValidateBasic B0 cid lh hs ps b" for cid lh hs ps
      by (simp add: Block_ValidateBasic_def Let_def env data len b' cong: if_cong)
    then show ?thesis using basic by simp
  qed
  note basics = ValidateBasic_eq_Ok [OF basic']
  define hash where "hash = Header_Hash (be_Hash B1) (block_Header b')"
  have hash: "Block_Hash B1 b' = Ok hash"
    using basics(7) by (simp add: Block_Hash_def hash_def basics(6) [symmetric])
  define s' where "s' = s0\<lparr> LastBlockHash := hash, LastBlockParts := parts \<rparr>"
  have hdr: "hdr_Height (block_Header b') = hdr_Height (block_Header b)" "hdr_Time (block_Header b') = hdr_Time (block_Header b)"
    "block_Precommits b' = block_Precommits b" "block_Txs b' = txs" "hdr_StateHash (block_Header b') = State_Hash B1 s0"
    by (simp_all add: b' env)
  have "check_commit B1 b' s = check_commit B1 b s" by (simp add: check_commit_def hdr)
  then have "check_commit B1 b' s = Ok ()" using commit env(3) by simp
  then have "execBlock B1 b' parts s = Ok (s', txs, evs')"
    using basic' s1 run released hash by (simp add: execBlock_def Let_def hdr s'_def s0)
  moreover have "State_Hash B1 s' = State_Hash B1 s0" by (simp add: State_Hash_def s'_def)
  ultimately show ?thesis unfolding B1_def [symmetric] by (simp add: ExecBlock_def hdr)
qed

end

interpretation node_quiet: quiet_machine "evm_Run n W H" for n W H
proof unfold_locales
  fix params origin txid evc caller callee code input v gas t t' evs r evc'
  let ?V = "\<lambda>evc. \<lparr> ve_wire = W, ve_hash = H, ve_params = params, ve_origin = origin, ve_txid = txid, ve_evc = evc \<rparr>"
  assume run: "evm_Run n W H params origin txid evc caller callee code input v gas t = (t', evs, r)"
  have quiet: "\<exists>e. evm_Call n (?V y) caller callee code input v gas t = Some (m\<lparr> m_events := e \<rparr>, res)"
    if "evm_Call n (?V x) caller callee code input v gas t = Some (m, res)" for x y m res
    using evm_Call_quiet [OF that, of y] by simp
  show "\<exists>evs'. evm_Run n W H params origin txid evc' caller callee code input v gas t = (t', evs', r)"
  proof (cases "evm_Call n (?V evc) caller callee code input v gas t")
    case None
    then have "evm_Call n (?V evc') caller callee code input v gas t = None"
      using quiet [of evc' _ _ evc] by (metis not_None_eq option.distinct(1) surj_pair)
    with None run show ?thesis by (simp add: evm_Run_def)
  next
    case (Some mr)
    obtain m res where mr: "evm_Call n (?V evc) caller callee code input v gas t = Some (m, res)" using Some by (cases mr) simp
    obtain e where "evm_Call n (?V evc') caller callee code input v gas t = Some (m\<lparr> m_events := e \<rparr>, res)" using quiet [OF mr] by blast
    with mr run show ?thesis by (simp add: evm_Run_def)
  qed
qed

section \<open>Proposed blocks\<close>


definition proposal_env :: block_env where
  "proposal_env = sample_env\<lparr> be_exec := call_exec 1 \<rparr>"

definition draft_block :: Block where
  "draft_block = (sample_block [TxSend (sample_send 9 4 3)])\<lparr>
     block_Header := (block_Header (sample_block [TxSend (sample_send 9 4 3)]))\<lparr> hdr_StateHash := [] \<rparr> \<rparr>"

lemma draft_block_runs:
  "case ComputeBlockStateHash proposal_env draft_block sample_genesis of Ok b \<Rightarrow> True | _ \<Rightarrow> False"
  by code_simp

lemma range_ok_orders: "range_ok (\<lambda>_ _ m. m)" "range_ok (\<lambda>_ _ m. rev m)"
  by (simp_all add: range_ok_def)


section \<open>Bonds returned to several accounts\<close>

text \<open>
  The accounts of a state as the tree of the ledger holds them: the writes, replayed on the tree that the
  node started from. The hash function and the codecs are parameters of the tree; here the hash function
  is the identity, so that its inputs cannot collide, and an account is encoded by its storage root.
\<close>

fun replay_writes :: "('k::linorder, 'v) tree_writes \<Rightarrow> ('k, 'v) IAVLTree \<Rightarrow> ('k, 'v) IAVLTree outcome" where
  "replay_writes [] t = Ok t"
| "replay_writes ((k, v) # ws) t =
     obind (iavl_op (case v of Some v \<Rightarrow> SetOp k v | None \<Rightarrow> RemoveOp k) t) (\<lambda>(t, _). replay_writes ws t)"

definition fork_state :: State where
  "fork_state = sample_genesis\<lparr> LastBlockHash := [9], st_accounts := [(addr20 1, rich_account 1 10)], LastBlockHeight := 600000,
     UnbondingValidators := \<lparr> Validators = [(sample_val 1 5)\<lparr> val_Address := addr20 1 \<rparr>], vs_proposer = None, vs_totalVotingPower = 0 \<rparr>,
     st_validatorInfos := [(addr20 1, (sample_info (addr20 1))\<lparr> vi_UnbondTo :=
       [Some \<lparr> out_Address = addr20 2, out_Amount = 2 \<rparr>, Some \<lparr> out_Address = addr20 3, out_Amount = 3 \<rparr>] \<rparr>)] \<rparr>"

definition fork_env :: "(Validator \<Rightarrow> State \<Rightarrow> (bytes, Account) gomap \<Rightarrow> (bytes, Account) gomap) \<Rightarrow> block_env" where
  "fork_env r = sample_env\<lparr> be_Hash := (\<lambda>bs. bs), be_range := r,
     be_accounts_Hash := (\<lambda>ws. case replay_writes ws (Some (Leaf (addr20 1) (rich_account 1 10))) of
       Ok t \<Rightarrow> iavl_Hash (\<lambda>bs. bs) (\<lambda>k. k) acc_StorageRoot t | _ \<Rightarrow> []) \<rparr>"


end
