(* ===== verification/Accounts.thy ===== *)
theory Accounts
  imports Block_Cache Filters
begin

text \<open>
  Accounts and the name registry (\<open>erisdb/pipe/accounts.go\<close>, \<open>erisdb/pipe/namereg.go\<close>): the
  queries over the consensus state of \<open>Ledger_State\<close>, their filters, and the two filter factories
  as instances of the contract of \<open>Filters\<close>.
\<close>

section \<open>Account filters\<close>

definition AccountCodeFilter_Configure :: "FilterData \<Rightarrow> bytes filter_obj outcome" where
  "AccountCodeFilter_Configure fd = configure_bytes ''code'' fd"

definition AccountCodeFilter_Match :: "bytes filter_obj \<Rightarrow> iface \<Rightarrow> bool" where
  "AccountCodeFilter_Match f v =
     (case v of IAccount acc \<Rightarrow> f_match f (acc_Code acc) (f_value f) | _ \<Rightarrow> False)"

definition AccountBalanceFilter_Configure :: "FilterData \<Rightarrow> int filter_obj outcome" where
  "AccountBalanceFilter_Configure fd = configure_range ''balance'' fd"

definition AccountBalanceFilter_Match :: "int filter_obj \<Rightarrow> iface \<Rightarrow> bool" where
  "AccountBalanceFilter_Match f v =
     (case v of IAccount acc \<Rightarrow> f_match f (acc_Balance acc) (f_value f) | _ \<Rightarrow> False)"

definition accounts_filterFactory :: "iface FilterFactory" where
  "accounts_filterFactory =
     RegisterFilterPool ''balance''
       (filter_pool AccountBalanceFilter_Configure AccountBalanceFilter_Match)
     (RegisterFilterPool ''code''
       (filter_pool AccountCodeFilter_Configure AccountCodeFilter_Match)
      NewFilterFactory)"

section \<open>Account queries\<close>

record StorageItem =
  Key :: bytes
  item_Value :: bytes

record Storage =
  StorageRoot :: bytes
  StorageItems :: "StorageItem list"

definition query_error :: "string \<Rightarrow> string" where
  "query_error e = ''Error in query: '' @ e"

definition GenPrivAccountFromKey :: "wire_env \<Rightarrow> bytes \<Rightarrow> PrivAccount outcome" where
  "GenPrivAccountFromKey W privKey =
     (if length privKey \<noteq> 64 then Err ''Private key is not 64 bytes long.''
      else GenPrivAccountFromPrivKeyBytes W privKey)"

definition accounts_Accounts :: "State \<Rightarrow> FilterData option list \<Rightarrow> Account list outcome" where
  "accounts_Accounts st fda =
     (case NewFilter accounts_filterFactory fda of
        Err e \<Rightarrow> Err (query_error e)
      | Panic e \<Rightarrow> Panic e
      | Ok f \<Rightarrow> Ok (filter (\<lambda>acc. f (IAccount acc)) (map snd (st_accounts st))))"

definition newAcc :: "bytes \<Rightarrow> Account" where
  "newAcc address =
     \<lparr> acc_Address = address, acc_PubKey = None, acc_Sequence = 0, acc_Balance = 0,
       acc_Code = [], acc_StorageRoot = [],
       acc_Permissions = \<lparr> Base = \<lparr> Perms = 0, SetBit = 0 \<rparr>, Roles = [] \<rparr> \<rparr>"

text \<open>\<open>Account\<close> reads through the mempool's cache, which remembers what was read.\<close>

definition accounts_Account :: "bytes \<Rightarrow> BlockCache \<Rightarrow> Account \<times> BlockCache" where
  "accounts_Account address cache =
     (case bc_GetAccount address cache of
        (None, cache') \<Rightarrow> (newAcc address, cache')
      | (Some acc, cache') \<Rightarrow> (acc, cache'))"

definition accounts_StorageAt :: "State \<Rightarrow> bytes \<Rightarrow> bytes \<Rightarrow> StorageItem outcome" where
  "accounts_StorageAt st address key =
     (case State_GetAccount st address of
        None \<Rightarrow> Ok \<lparr> Key = key, item_Value = [] \<rparr>
      | Some acc \<Rightarrow>
          obind (LeftPadWord256 key) (\<lambda>word.
            (case map_of (LoadStorage st (acc_StorageRoot acc)) word of
               None \<Rightarrow> Ok \<lparr> Key = key, item_Value = [] \<rparr>
             | Some val \<Rightarrow> Ok \<lparr> Key = key, item_Value = val \<rparr>)))"

definition accounts_Storage :: "State \<Rightarrow> bytes \<Rightarrow> Storage" where
  "accounts_Storage st address =
     (case State_GetAccount st address of
        None \<Rightarrow> \<lparr> StorageRoot = [], StorageItems = [] \<rparr>
      | Some acc \<Rightarrow>
          \<lparr> StorageRoot = acc_StorageRoot acc,
            StorageItems = map (\<lambda>(k, v). \<lparr> Key = k, item_Value = v \<rparr>)
                             (LoadStorage st (acc_StorageRoot acc)) \<rparr>)"

section \<open>Name registry\<close>

definition NameRegNameFilter_Configure :: "FilterData \<Rightarrow> string filter_obj outcome" where
  "NameRegNameFilter_Configure fd = configure_string ''name'' fd"

definition NameRegNameFilter_Match :: "string filter_obj \<Rightarrow> iface \<Rightarrow> bool" where
  "NameRegNameFilter_Match f v =
     (case v of INameRegEntry nre \<Rightarrow> f_match f (nre_Name nre) (f_value f) | _ \<Rightarrow> False)"

definition NameRegOwnerFilter_Configure :: "FilterData \<Rightarrow> bytes filter_obj outcome" where
  "NameRegOwnerFilter_Configure fd = configure_bytes ''owner'' fd"

definition NameRegOwnerFilter_Match :: "bytes filter_obj \<Rightarrow> iface \<Rightarrow> bool" where
  "NameRegOwnerFilter_Match f v =
     (case v of INameRegEntry nre \<Rightarrow> f_match f (nre_Owner nre) (f_value f) | _ \<Rightarrow> False)"

definition NameRegDataFilter_Configure :: "FilterData \<Rightarrow> string filter_obj outcome" where
  "NameRegDataFilter_Configure fd = configure_string ''data'' fd"

definition NameRegDataFilter_Match :: "string filter_obj \<Rightarrow> iface \<Rightarrow> bool" where
  "NameRegDataFilter_Match f v =
     (case v of INameRegEntry nre \<Rightarrow> f_match f (nre_Data nre) (f_value f) | _ \<Rightarrow> False)"

definition NameRegExpiresFilter_Configure :: "FilterData \<Rightarrow> int filter_obj outcome" where
  "NameRegExpiresFilter_Configure fd = configure_range ''expires'' fd"

definition NameRegExpiresFilter_Match :: "int filter_obj \<Rightarrow> iface \<Rightarrow> bool" where
  "NameRegExpiresFilter_Match f v =
     (case v of INameRegEntry nre \<Rightarrow> f_match f (nre_Expires nre) (f_value f) | _ \<Rightarrow> False)"

definition namereg_filterFactory :: "iface FilterFactory" where
  "namereg_filterFactory =
     RegisterFilterPool ''expires''
       (filter_pool NameRegExpiresFilter_Configure NameRegExpiresFilter_Match)
     (RegisterFilterPool ''data''
       (filter_pool NameRegDataFilter_Configure NameRegDataFilter_Match)
     (RegisterFilterPool ''owner''
       (filter_pool NameRegOwnerFilter_Configure NameRegOwnerFilter_Match)
     (RegisterFilterPool ''name''
       (filter_pool NameRegNameFilter_Configure NameRegNameFilter_Match)
      NewFilterFactory)))"

definition namereg_Entry :: "State \<Rightarrow> string \<Rightarrow> NameRegEntry outcome" where
  "namereg_Entry st key =
     (case State_GetNameRegEntry st key of
        None \<Rightarrow> Err (''Entry '' @ key @ '' not found'')
      | Some entry \<Rightarrow> Ok entry)"

record ResultListNames =
  BlockHeight :: int
  Names :: "NameRegEntry list"

definition namereg_Entries :: "State \<Rightarrow> FilterData option list \<Rightarrow> ResultListNames outcome" where
  "namereg_Entries st filters =
     (case NewFilter namereg_filterFactory filters of
        Err e \<Rightarrow> Err (query_error e)
      | Panic e \<Rightarrow> Panic e
      | Ok f \<Rightarrow> Ok \<lparr> BlockHeight = LastBlockHeight st,
                    Names = filter (\<lambda>nre. f (INameRegEntry nre)) (map snd (st_nameReg st)) \<rparr>)"

section \<open>The filters keep their contract\<close>

definition acc_of :: "iface \<Rightarrow> Account option" where
  "acc_of v = (case v of IAccount acc \<Rightarrow> Some acc | _ \<Rightarrow> None)"

definition nre_of :: "iface \<Rightarrow> NameRegEntry option" where
  "nre_of v = (case v of INameRegEntry nre \<Rightarrow> Some nre | _ \<Rightarrow> None)"

lemmas match_defs = AccountCodeFilter_Match_def AccountBalanceFilter_Match_def
  NameRegNameFilter_Match_def NameRegOwnerFilter_Match_def NameRegDataFilter_Match_def
  NameRegExpiresFilter_Match_def

lemmas configure_defs = AccountCodeFilter_Configure_def AccountBalanceFilter_Configure_def
  NameRegNameFilter_Configure_def NameRegOwnerFilter_Configure_def
  NameRegDataFilter_Configure_def NameRegExpiresFilter_Configure_def

interpretation code_filter: configurable_filter
  "filter_pool AccountCodeFilter_Configure AccountCodeFilter_Match" bytes_valid
  "\<lambda>fd. field_match (\<lambda>v. map_option acc_Code (acc_of v)) (bytes_sem fd)"
  by (rule filter_pool_contract)
    (simp_all add: configure_defs configure_cases match_defs field_match_def acc_of_def
      split: iface.split)

interpretation balance_filter: configurable_filter
  "filter_pool AccountBalanceFilter_Configure AccountBalanceFilter_Match" range_valid
  "\<lambda>fd. field_match (\<lambda>v. map_option acc_Balance (acc_of v)) (range_sem fd)"
  by (rule filter_pool_contract)
    (simp_all add: configure_defs configure_cases match_defs field_match_def acc_of_def
      split: iface.split)

interpretation name_filter: configurable_filter
  "filter_pool NameRegNameFilter_Configure NameRegNameFilter_Match" string_valid
  "\<lambda>fd. field_match (\<lambda>v. map_option nre_Name (nre_of v)) (string_sem fd)"
  by (rule filter_pool_contract)
    (simp_all add: configure_defs configure_cases match_defs field_match_def nre_of_def
      split: iface.split)

interpretation owner_filter: configurable_filter
  "filter_pool NameRegOwnerFilter_Configure NameRegOwnerFilter_Match" bytes_valid
  "\<lambda>fd. field_match (\<lambda>v. map_option nre_Owner (nre_of v)) (bytes_sem fd)"
  by (rule filter_pool_contract)
    (simp_all add: configure_defs configure_cases match_defs field_match_def nre_of_def
      split: iface.split)

interpretation data_filter: configurable_filter
  "filter_pool NameRegDataFilter_Configure NameRegDataFilter_Match" string_valid
  "\<lambda>fd. field_match (\<lambda>v. map_option nre_Data (nre_of v)) (string_sem fd)"
  by (rule filter_pool_contract)
    (simp_all add: configure_defs configure_cases match_defs field_match_def nre_of_def
      split: iface.split)

interpretation expires_filter: configurable_filter
  "filter_pool NameRegExpiresFilter_Configure NameRegExpiresFilter_Match" range_valid
  "\<lambda>fd. field_match (\<lambda>v. map_option nre_Expires (nre_of v)) (range_sem fd)"
  by (rule filter_pool_contract)
    (simp_all add: configure_defs configure_cases match_defs field_match_def nre_of_def
      split: iface.split)

text \<open>Which queries a factory accepts, and what they mean for an account or an entry.\<close>

definition account_valid :: "FilterData \<Rightarrow> bool" where
  "account_valid fd \<longleftrightarrow>
     (if EqualFold (Field fd) ''balance'' then range_valid fd
      else EqualFold (Field fd) ''code'' \<and> bytes_valid fd)"

definition account_sem :: "FilterData \<Rightarrow> Account \<Rightarrow> bool" where
  "account_sem fd acc \<longleftrightarrow>
     (if EqualFold (Field fd) ''balance'' then range_sem fd (acc_Balance acc)
      else bytes_sem fd (acc_Code acc))"

definition entry_valid :: "FilterData \<Rightarrow> bool" where
  "entry_valid fd \<longleftrightarrow>
     (if EqualFold (Field fd) ''expires'' then range_valid fd
      else if EqualFold (Field fd) ''data'' then string_valid fd
      else if EqualFold (Field fd) ''owner'' then bytes_valid fd
      else EqualFold (Field fd) ''name'' \<and> string_valid fd)"

definition entry_sem :: "FilterData \<Rightarrow> NameRegEntry \<Rightarrow> bool" where
  "entry_sem fd nre \<longleftrightarrow>
     (if EqualFold (Field fd) ''expires'' then range_sem fd (nre_Expires nre)
      else if EqualFold (Field fd) ''data'' then string_sem fd (nre_Data nre)
      else if EqualFold (Field fd) ''owner'' then bytes_sem fd (nre_Owner nre)
      else string_sem fd (nre_Name nre))"

interpretation accounts_ff: filter_family accounts_filterFactory account_valid
  "\<lambda>fd. field_match acc_of (account_sem fd)"
proof
  fix fd
  note defs = accounts_filterFactory_def newSingleFilter_Register newSingleFilter_empty
    account_valid_def
  show "newSingleFilter accounts_filterFactory (Some fd) = Ok (field_match acc_of (account_sem fd))"
    if "account_valid fd"
    using that code_filter.get_ok [of fd] balance_filter.get_ok [of fd]
    by (auto simp: defs field_match_def account_sem_def fun_eq_iff acc_of_def
        split: if_splits iface.split)
  show "\<exists>e. newSingleFilter accounts_filterFactory (Some fd) = Err e" if "\<not> account_valid fd"
    using that code_filter.get_err [of fd] balance_filter.get_err [of fd]
    by (auto simp: defs split: if_splits)
qed

interpretation namereg_ff: filter_family namereg_filterFactory entry_valid
  "\<lambda>fd. field_match nre_of (entry_sem fd)"
proof
  fix fd
  note defs = namereg_filterFactory_def newSingleFilter_Register newSingleFilter_empty
    entry_valid_def
  note ok = name_filter.get_ok [of fd] owner_filter.get_ok [of fd] data_filter.get_ok [of fd]
    expires_filter.get_ok [of fd]
  note err = name_filter.get_err [of fd] owner_filter.get_err [of fd] data_filter.get_err [of fd]
    expires_filter.get_err [of fd]
  show "newSingleFilter namereg_filterFactory (Some fd) = Ok (field_match nre_of (entry_sem fd))"
    if "entry_valid fd"
    using that ok
    by (auto simp: defs field_match_def entry_sem_def fun_eq_iff nre_of_def
        split: if_splits iface.split)
  show "\<exists>e. newSingleFilter namereg_filterFactory (Some fd) = Err e" if "\<not> entry_valid fd"
    using that err by (auto simp: defs split: if_splits)
qed

section \<open>Properties\<close>

text \<open>
  The account query returns exactly the accounts of the state, in the order of the state, for
  which every filter of the query holds with its meaning (order on the balance, equality on the
  hex-decoded code, field names in any letter case); it returns an error exactly when some filter
  is not valid, and never panics on non-null filter data.
\<close>

theorem Accounts_query_correct:
  "case accounts_Accounts st (map Some fds) of
     Ok accs \<Rightarrow> list_all account_valid fds \<and>
       accs = filter (\<lambda>acc. list_all (\<lambda>fd. account_sem fd acc) fds) (map snd (st_accounts st))
   | Err e \<Rightarrow> list_ex (\<lambda>fd. \<not> account_valid fd) fds
   | Panic e \<Rightarrow> False"
  using accounts_ff.NewFilter_complete [of fds]
  by (cases "NewFilter accounts_filterFactory (map Some fds)")
    (auto simp: accounts_Accounts_def list_all_iff list_ex_iff field_match_def acc_of_def
      intro!: filter_cong)

text \<open>
  The name registry query returns, with the height of the state, exactly the entries for which
  every filter of the query holds with its meaning (name, owner, data, expiry), in the order of
  the state; it returns an error exactly when some filter is not valid.
\<close>

theorem Entries_query_correct:
  "case namereg_Entries st (map Some fds) of
     Ok r \<Rightarrow> list_all entry_valid fds \<and> BlockHeight r = LastBlockHeight st \<and>
       Names r = filter (\<lambda>nre. list_all (\<lambda>fd. entry_sem fd nre) fds) (map snd (st_nameReg st))
   | Err e \<Rightarrow> list_ex (\<lambda>fd. \<not> entry_valid fd) fds
   | Panic e \<Rightarrow> False"
  using namereg_ff.NewFilter_complete [of fds]
  by (cases "NewFilter namereg_filterFactory (map Some fds)")
    (auto simp: namereg_Entries_def list_all_iff list_ex_iff field_match_def nre_of_def
      intro!: filter_cong)

text \<open>
  Reading one storage cell agrees with listing the storage: for an existing account and a key
  of at most 32 bytes, the value is the one listed under the key padded to 32 bytes, and empty
  when none is listed; a longer key panics; an unknown account has an empty value for every key.
\<close>

theorem StorageAt_agrees_with_Storage:
  "accounts_StorageAt st address key =
     (if State_GetAccount st address = None then Ok \<lparr> Key = key, item_Value = [] \<rparr>
      else if length key > 32 then Panic ''slice bounds out of range''
      else Ok \<lparr> Key = key, item_Value =
        (case find (\<lambda>it. Key it = replicate (32 - length key) 0 @ key)
                (StorageItems (accounts_Storage st address)) of
           None \<Rightarrow> [] | Some it \<Rightarrow> item_Value it) \<rparr>)"
proof (cases "State_GetAccount st address")
  case (Some acc)
  have "map_option item_Value (find (\<lambda>it. Key it = w) (map (\<lambda>(k, v). \<lparr>Key = k, item_Value = v\<rparr>) m)) =
        map_of m w" for w and m :: "(bytes, bytes) gomap"
    by (induction m) auto
  then have "(case find (\<lambda>it. Key it = w) (map (\<lambda>(k, v). \<lparr>Key = k, item_Value = v\<rparr>) m) of
               None \<Rightarrow> [] | Some it \<Rightarrow> item_Value it) =
             (case map_of m w of None \<Rightarrow> [] | Some v \<Rightarrow> v)"
    for w and m :: "(bytes, bytes) gomap"
    by (metis (no_types, lifting) case_map_option comp_def option.case_eq_if option.map_sel
        option.map_disc_iff)
  with Some show ?thesis
    by (simp add: accounts_StorageAt_def accounts_Storage_def LeftPadWord256_def split: option.split)
qed (simp add: accounts_StorageAt_def)

lemma filter_key:
  assumes "\<forall>(k, v)\<in>set m. f v = k" "gomap_ok m"
  shows "filter (\<lambda>v. f v = key) (map snd m) = (case map_of m key of None \<Rightarrow> [] | Some v \<Rightarrow> [v])"
  using assms
proof (induction m)
  case (Cons kv m)
  obtain k v where kv: "kv = (k, v)" by (cases kv)
  have rest: "filter (\<lambda>v. f v = k) (map snd m) = []"
    using Cons.prems kv by (force simp: filter_empty_conv gomap_ok_def)
  from Cons kv rest show ?case
    by (auto simp: gomap_ok_def)
qed simp

text \<open>
  When the registry files every entry under its own name, querying it with the filter
  \<open>name == key\<close> gives exactly the entry that looking \<open>key\<close> up gives, or nothing when the lookup
  reports that there is no such entry.
\<close>

theorem name_query_is_entry:
  assumes "list_all (\<lambda>(k, nre). nre_Name nre = k) (st_nameReg st)" "gomap_ok (st_nameReg st)"
  shows "namereg_Entries st [Some \<lparr> Field = ''name'', Op = ''=='', Value = key \<rparr>] =
         Ok \<lparr> BlockHeight = LastBlockHeight st,
              Names = (case namereg_Entry st key of Ok nre \<Rightarrow> [nre] | _ \<Rightarrow> []) \<rparr>"
proof -
  define fd where "fd = \<lparr> Field = ''name'', Op = ''=='', Value = key \<rparr>"
  have sem: "entry_sem fd nre = (nre_Name nre = key)" and "entry_valid fd" for nre
    by (auto simp: fd_def entry_sem_def entry_valid_def string_sem_def string_valid_def
        eq_sem_def eq_cmp_def cmp_of_def EqualFold_def ToLower_def char_lower_def is_upper_def)
  then have "NewFilter namereg_filterFactory (map Some [fd]) =
             Ok (\<lambda>v. field_match nre_of (entry_sem fd) v)"
    by (subst namereg_ff.NewFilter_Ok_iff) auto
  then have "namereg_Entries st [Some fd] = Ok \<lparr> BlockHeight = LastBlockHeight st,
               Names = filter (\<lambda>nre. nre_Name nre = key) (map snd (st_nameReg st)) \<rparr>"
    by (simp add: namereg_Entries_def field_match_def nre_of_def sem)
  moreover have "filter (\<lambda>nre. nre_Name nre = key) (map snd (st_nameReg st)) =
                 (case map_of (st_nameReg st) key of None \<Rightarrow> [] | Some nre \<Rightarrow> [nre])"
    using assms by (intro filter_key) (auto simp: list_all_iff)
  ultimately show ?thesis
    by (simp add: fd_def namereg_Entry_def State_GetNameRegEntry_def split: option.split)
qed

definition sample_registry :: State where
  "sample_registry =
     \<lparr> ChainID = ''c'', LastBlockHeight = 7, LastBlockHash = [], LastBlockParts = \<lparr> Total = 0, psh_Hash = [] \<rparr>,
       LastBlockTime = 0, BondedValidators = NewValidatorSet [], LastBondedValidators = NewValidatorSet [],
       UnbondingValidators = NewValidatorSet [], st_accounts = [], st_validatorInfos = [],
       st_nameReg =
         [(''a'', \<lparr> nre_Name = ''a'', nre_Owner = [1], nre_Data = ''x'', nre_Expires = 9 \<rparr>),
          (''b'', \<lparr> nre_Name = ''b'', nre_Owner = [2], nre_Data = ''y'', nre_Expires = 9 \<rparr>)],
       LoadStorage = (\<lambda>_. []), accounts_writes = [], infos_writes = [], names_writes = [] \<rparr>"

theorem name_query_is_entry_witness:
  "namereg_Entries sample_registry [Some \<lparr> Field = ''name'', Op = ''=='', Value = ''b'' \<rparr>] =
   Ok \<lparr> BlockHeight = 7,
        Names = [\<lparr> nre_Name = ''b'', nre_Owner = [2], nre_Data = ''y'', nre_Expires = 9 \<rparr>] \<rparr>"
  using name_query_is_entry [of sample_registry "''b''"]
  by (simp add: sample_registry_def gomap_ok_def namereg_Entry_def State_GetNameRegEntry_def)

end
