(* ===== verification/Blockchain.thy ===== *)
theory Blockchain
  imports Tendermint_Types Filters
begin

text \<open>
  Block queries (\<open>erisdb/pipe/blockchain.go\<close>). The block store is its height and its two load
  functions (\<open>nil\<close> for a height it does not have). \<open>getHeightMinMax\<close> is a loop that need not end,
  so it is a \<open>partial_function\<close> whose value \<open>None\<close> means that it runs forever.
\<close>

definition BLOCK_MAX :: int where
  "BLOCK_MAX = 50"

record BlockStore =
  bs_Height :: int
  LoadBlockMeta :: "int \<Rightarrow> BlockMeta option"
  LoadBlock :: "int \<Rightarrow> Block option"

record BlockchainInfo =
  info_ChainId :: string
  info_GenesisHash :: bytes
  info_LatestBlockHeight :: int
  info_LatestBlock :: "BlockMeta option"

record Blocks =
  MinHeight :: int
  MaxHeight :: int
  BlockMetas :: "BlockMeta option list"

text \<open>The chain id and the hash of the state made from the genesis file are arguments.\<close>

definition blockchain_Info :: "string \<Rightarrow> bytes \<Rightarrow> BlockStore \<Rightarrow> BlockchainInfo" where
  "blockchain_Info chainId genesisHash bs =
     \<lparr> info_ChainId = chainId, info_GenesisHash = genesisHash,
       info_LatestBlockHeight = bs_Height bs,
       info_LatestBlock = (if bs_Height bs \<noteq> 0 then LoadBlockMeta bs (bs_Height bs) else None) \<rparr>"

definition LatestBlockHeight :: "BlockStore \<Rightarrow> int" where
  "LatestBlockHeight bs = bs_Height bs"

definition blockchain_Block :: "BlockStore \<Rightarrow> int \<Rightarrow> Block option outcome" where
  "blockchain_Block bs height =
     (if height = 0 then Err ''height must be greater than 0''
      else if height > bs_Height bs
      then Err ''height must be less than the current blockchain height''
      else Ok (LoadBlock bs height))"

definition LatestBlock :: "BlockStore \<Rightarrow> Block option outcome" where
  "LatestBlock bs = blockchain_Block bs (bs_Height bs)"

section \<open>The height filter\<close>

definition BlockHeightFilter_Configure :: "FilterData \<Rightarrow> int filter_obj outcome" where
  "BlockHeightFilter_Configure fd =
     obind (if Value fd = ''min'' then Ok 0
            else if Value fd = ''max'' then Ok MaxInt32
            else case ParseInt (Value fd) of None \<Rightarrow> Err ''Wrong value type.'' | Some tv \<Rightarrow> Ok tv)
     (\<lambda>val.
      let done = (\<lambda>m. Ok \<lparr> f_op = Op fd, f_value = val, f_match = m \<rparr>) in
      if Op fd = ''=='' then done (\<lambda>a b. a = b)
      else if Op fd = ''!='' then done (\<lambda>a b. a \<noteq> b)
      else if Op fd = ''<='' then done (\<lambda>a b. a \<le> b)
      else if Op fd = ''>='' then done (\<lambda>a b. a \<ge> b)
      else if Op fd = ''<'' then done (\<lambda>a b. a < b)
      else if Op fd = ''>'' then done (\<lambda>a b. a > b)
      else Err (''Op:  is not supported for '' @ [CHR 0x27] @ ''height'' @ [CHR 0x27] @ '' filtering''))"

text \<open>
  On a nil \<open>*BlockMeta\<close> the method would dereference it; \<open>Blocks\<close> never configures this filter
  (\<open>getHeightMinMax\<close> ends only when no filter is left), so the value given here is never used.
\<close>

definition BlockHeightFilter_Match :: "int filter_obj \<Rightarrow> iface \<Rightarrow> bool" where
  "BlockHeightFilter_Match f v =
     (case v of
        IBlockMeta (Some bl) \<Rightarrow> f_match f (hdr_Height (meta_Header bl)) (f_value f)
      | _ \<Rightarrow> False)"

definition blockchain_filterFactory :: "iface FilterFactory" where
  "blockchain_filterFactory =
     RegisterFilterPool ''height'' (filter_pool BlockHeightFilter_Configure BlockHeightFilter_Match)
       NewFilterFactory"

section \<open>The height interval of a query\<close>

definition height_value :: "int \<Rightarrow> string \<Rightarrow> int outcome" where
  "height_value height s =
     (if s = ''min'' then Ok 0
      else if s = ''max'' then Ok height
      else case ParseInt s of None \<Rightarrow> Err ''Wrong value type'' | Some v \<Rightarrow> Ok v)"

text \<open>The \<open>switch\<close> on the operator: the new \<open>min\<close> and \<open>max\<close>.\<close>

definition height_switch :: "int \<Rightarrow> int \<Rightarrow> int \<Rightarrow> string \<Rightarrow> int \<Rightarrow> (int \<times> int) outcome" where
  "height_switch height mn mx op val =
     (if op = ''=='' then
        (if val > height \<or> val < 0
         then Err (''No such block: '' @ show_int val @ '' (chain height: '' @ show_int height @ [CHR 0x0A])
         else Ok (val, val))
      else if op = ''<'' then
        (let m = wrap64 (val - 1) in Ok (mn, if m > mn \<and> m < mx then m else mx))
      else if op = ''<='' then Ok (mn, if val > mn \<and> val < mx then val else mx)
      else if op = ''>'' then
        (let m = wrap64 (val + 1) in Ok (if m < mx \<and> m > mn then m else mn, mx))
      else if op = ''>='' then Ok (if val < mx \<and> val > mn then val else mn, mx)
      else Err ''Operator not supported'')"

definition height_step :: "int \<Rightarrow> int \<times> int \<Rightarrow> FilterData \<Rightarrow> (int \<times> int) outcome" where
  "height_step height b fd =
     obind (height_value height (Value fd)) (\<lambda>val. height_switch height (fst b) (snd b) (Op fd) val)"

text \<open>\<open>fda[0], fda = fda[len(fda)-1], fda[:len(fda)-1]\<close>\<close>

definition swap_out :: "'a list \<Rightarrow> 'a list" where
  "swap_out fda = butlast (fda[0 := last fda])"

partial_function (option) height_loop ::
  "int \<Rightarrow> int \<times> int \<Rightarrow> FilterData option list \<Rightarrow> (int \<times> int) outcome option" where
  "height_loop height b fda =
     (case fda of
        [] \<Rightarrow> Some (Ok b)
      | None # _ \<Rightarrow> Some (Panic ''nil pointer dereference'')
      | Some fd # _ \<Rightarrow>
          (if EqualFold (Field fd) ''height'' then
             (case height_step height b fd of
                Ok b' \<Rightarrow> height_loop height b' (swap_out fda)
              | Err e \<Rightarrow> Some (Err e)
              | Panic e \<Rightarrow> Some (Panic e))
           else height_loop height b fda))"

declare height_loop.simps [code]

text \<open>The remaining filters are empty when the loop ends, so the result is the interval alone.\<close>

definition getHeightMinMax :: "FilterData option list \<Rightarrow> int \<Rightarrow> (int \<times> int \<times> FilterData option list) outcome option" where
  "getHeightMinMax fda height =
     map_option (\<lambda>r. obind r (\<lambda>(mn, mx). Ok (mn, if mx < mn then mn else mx, [])))
       (height_loop height (0, height) fda)"

section \<open>Blocks\<close>

function blocks_loop ::
  "BlockStore \<Rightarrow> (iface \<Rightarrow> bool) \<Rightarrow> int \<Rightarrow> int \<Rightarrow> int \<Rightarrow> BlockMeta option list \<Rightarrow> BlockMeta option list" where
  "blocks_loop bs f mn mx h metas =
     (if h \<ge> mn \<and> mx - h > BLOCK_MAX then
        let m = LoadBlockMeta bs h in
        blocks_loop bs f mn mx (h - 1) (if f (IBlockMeta m) then metas @ [m] else metas)
      else metas)"
  by pat_completeness auto
termination
  by (relation "measure (\<lambda>(bs, f, mn, mx, h, metas). nat (h - mn + 1))") auto

declare blocks_loop.simps [simp del]

definition blockchain_Blocks :: "BlockStore \<Rightarrow> FilterData option list \<Rightarrow> Blocks outcome option" where
  "blockchain_Blocks bs fda =
     (let height = bs_Height bs in
      if height = 0 then Some (Ok \<lparr> MinHeight = 0, MaxHeight = 0, BlockMetas = [] \<rparr>)
      else
        (case (if fda = [] then Some (Ok (0, height, fda)) else getHeightMinMax fda height) of
           None \<Rightarrow> None
         | Some (Err e) \<Rightarrow> Some (Err (''Error in query: '' @ e))
         | Some (Panic e) \<Rightarrow> Some (Panic e)
         | Some (Ok (minHeight, maxHeight, newFda)) \<Rightarrow>
             (case NewFilter blockchain_filterFactory newFda of
                Err e \<Rightarrow> Some (Err (''Fel i f'' @ [CHR 0xC3, CHR 0xB6] @ ''rfr'' @
                  [CHR 0xC3, CHR 0xA5] @ ''gan. Helskumt...: '' @ e))
              | Panic e \<Rightarrow> Some (Panic e)
              | Ok f \<Rightarrow> Some (Ok
                  \<lparr> MinHeight = maxHeight, MaxHeight = minHeight,
                    BlockMetas = blocks_loop bs f minHeight maxHeight maxHeight [] \<rparr>))))"

definition go_min :: "int \<Rightarrow> int \<Rightarrow> int" where
  "go_min x y = (if x > y then y else x)"

section \<open>The filter's contract\<close>

definition height_number :: "string \<Rightarrow> int option" where
  "height_number s = (if s = ''min'' then Some 0 else if s = ''max'' then Some MaxInt32 else ParseInt s)"

definition height_valid :: "FilterData \<Rightarrow> bool" where
  "height_valid fd \<longleftrightarrow> height_number (Value fd) \<noteq> None \<and> cmp_of (Op fd) \<noteq> None"

definition height_sem :: "FilterData \<Rightarrow> int \<Rightarrow> bool" where
  "height_sem fd x \<longleftrightarrow> cmp_sem (the (cmp_of (Op fd))) x (the (height_number (Value fd)))"

definition height_of :: "iface \<Rightarrow> int option" where
  "height_of v = (case v of IBlockMeta (Some bl) \<Rightarrow> Some (hdr_Height (meta_Header bl)) | _ \<Rightarrow> None)"

lemma BlockHeightFilter_Configure_cases:
  "case BlockHeightFilter_Configure fd of
     Ok f \<Rightarrow> height_valid fd \<and> (\<forall>x. f_match f x (f_value f) = height_sem fd x)
   | Err e \<Rightarrow> \<not> height_valid fd
   | Panic e \<Rightarrow> False"
  by (cases "height_number (Value fd)")
    (auto simp: BlockHeightFilter_Configure_def height_valid_def height_sem_def height_number_def
      cmp_of_def Let_def split: option.splits if_splits)

interpretation height_filter: configurable_filter
  "filter_pool BlockHeightFilter_Configure BlockHeightFilter_Match" height_valid
  "\<lambda>fd. field_match height_of (height_sem fd)"
  by (rule filter_pool_contract)
    (auto simp: BlockHeightFilter_Configure_cases BlockHeightFilter_Match_def field_match_def
      height_of_def split: iface.split option.split)

section \<open>The interval is found and misses no block\<close>

definition interval_ok :: "int \<Rightarrow> int \<times> int \<Rightarrow> bool" where
  "interval_ok height b \<longleftrightarrow> 0 \<le> fst b \<and> fst b \<le> snd b \<and> snd b \<le> height"

definition on_height :: "FilterData \<Rightarrow> bool" where
  "on_height fd \<longleftrightarrow> EqualFold (Field fd) ''height''"

lemma height_step_interval:
  assumes "interval_ok height b"
  shows "case height_step height b fd of
           Ok b' \<Rightarrow> interval_ok height b' | Err e \<Rightarrow> True | Panic e \<Rightarrow> False"
  using assms
  by (auto simp: height_step_def height_value_def height_switch_def interval_ok_def Let_def
      split: option.splits)

lemma swap_out_map: "fds \<noteq> [] \<Longrightarrow> swap_out (map f fds) = map f (swap_out fds)"
  by (simp add: swap_out_def map_butlast map_update last_map)

lemma length_swap_out: "length (swap_out fds) = length fds - 1"
  by (simp add: swap_out_def)

lemma set_swap_out: "set (swap_out fds) \<subseteq> set fds"
proof (cases "fds = []")
  case False
  then have "set (fds[0 := last fds]) \<subseteq> set fds"
    by (meson last_in_set set_update_subsetI subset_refl)
  then show ?thesis
    by (auto simp: swap_out_def dest: in_set_butlastD)
qed (simp add: swap_out_def)

text \<open>Every filter of the query is either processed or was processed: none is lost.\<close>

lemma set_swap_out_hd: "fds \<noteq> [] \<Longrightarrow> insert (hd fds) (set (swap_out fds)) = set fds"
proof -
  assume "fds \<noteq> []"
  then obtain x xs where fds: "fds = x # xs" by (cases fds) auto
  show ?thesis
  proof (cases xs rule: rev_cases)
    case Nil
    then show ?thesis by (simp add: fds swap_out_def)
  next
    case (snoc ys y)
    then have "swap_out fds = y # ys" by (simp add: fds swap_out_def)
    then show ?thesis by (auto simp: fds snoc)
  qed
qed

lemma height_loop_total:
  assumes "\<forall>fd\<in>set fds. on_height fd" "interval_ok height b"
  shows "\<exists>r. height_loop height b (map Some fds) = Some r \<and>
           (case r of Ok b' \<Rightarrow> interval_ok height b' | Err e \<Rightarrow> True | Panic e \<Rightarrow> False)"
  using assms
proof (induction "length fds" arbitrary: fds b)
  case 0
  then show ?case by (simp add: height_loop.simps)
next
  case (Suc n)
  then obtain fd rest where fds: "fds = fd # rest" by (cases fds) auto
  have IH: "\<exists>r. height_loop height b' (map Some (swap_out fds)) = Some r \<and>
           (case r of Ok b' \<Rightarrow> interval_ok height b' | Err e \<Rightarrow> True | Panic e \<Rightarrow> False)"
    if "interval_ok height b'" for b'
    using Suc.hyps(2) Suc.prems(1) set_swap_out [of fds] that
    by (intro Suc.hyps(1)) (auto simp: length_swap_out)
  have "height_loop height b (map Some fds) =
          (case height_step height b fd of
             Ok b' \<Rightarrow> height_loop height b' (map Some (swap_out fds))
           | Err e \<Rightarrow> Some (Err e) | Panic e \<Rightarrow> Some (Panic e))"
    using Suc.prems(1) swap_out_map [of fds Some]
    by (subst height_loop.simps) (simp add: fds on_height_def split: outcome.split)
  with IH height_step_interval [OF Suc.prems(2), of fd] show ?case
    by (cases "height_step height b fd") simp_all
qed

text \<open>
  What a filter says about a block of height \<open>h\<close>; \<open>max\<close> is the height of the chain, and the
  operator \<open>!=\<close>, which the interval cannot express, is not supported.
\<close>

definition interval_sem :: "int \<Rightarrow> int \<Rightarrow> FilterData \<Rightarrow> bool" where
  "interval_sem height h fd \<longleftrightarrow>
     (case (height_value height (Value fd), cmp_of (Op fd)) of
        (Ok val, Some c) \<Rightarrow> c \<noteq> CNe \<and> cmp_sem c h val
      | _ \<Rightarrow> False)"

lemma height_value_in_int64:
  "height_value height s = Ok v \<Longrightarrow> 0 \<le> height \<Longrightarrow> height \<le> MaxInt64 \<Longrightarrow> in_int64 v"
  using ParseInt_in_range [of s]
  by (auto simp: height_value_def int64_simps split: if_splits option.splits)

lemma cmp_of_Some:
  "cmp_of op = Some c \<Longrightarrow>
     op = (case c of CEq \<Rightarrow> ''=='' | CNe \<Rightarrow> ''!='' | CLe \<Rightarrow> ''<='' | CGe \<Rightarrow> ''>='' | CLt \<Rightarrow> ''<'' | CGt \<Rightarrow> ''>'')"
  by (auto simp: cmp_of_def split: if_splits)

lemma wrap64_pred: "in_int64 v \<Longrightarrow> MinInt64 < v \<Longrightarrow> wrap64 (v - 1) = v - 1"
  by (rule wrap64_id) (auto simp: int64_simps)

lemma wrap64_succ: "in_int64 v \<Longrightarrow> v < MaxInt64 \<Longrightarrow> wrap64 (v + 1) = v + 1"
  by (rule wrap64_id) (auto simp: int64_simps)

lemma height_step_sound:
  assumes sem: "interval_sem height h fd" and h: "0 \<le> h" "h \<le> height" "height \<le> MaxInt64"
    and b: "fst b \<le> h" "h \<le> snd b"
  shows "\<exists>b'. height_step height b fd = Ok b' \<and> fst b' \<le> h \<and> h \<le> snd b'"
proof -
  obtain val c where val: "height_value height (Value fd) = Ok val"
    and c: "cmp_of (Op fd) = Some c" "c \<noteq> CNe" "cmp_sem c h val"
    using sem by (auto simp: interval_sem_def split: outcome.splits option.splits)
  have r: "in_int64 val"
    using height_value_in_int64 [OF val] h by simp
  have lt: "wrap64 (val - 1) = val - 1" if "c = CLt"
    using that c(3) h r by (intro wrap64_pred) (auto simp: int64_simps)
  have gt: "wrap64 (val + 1) = val + 1" if "c = CGt"
    using that c(3) h r by (intro wrap64_succ) (auto simp: int64_simps)
  show ?thesis
    using cmp_of_Some [OF c(1)] c(2,3) h b lt gt
    by (cases c) (auto simp: height_step_def val height_switch_def Let_def)
qed

lemma height_loop_sound:
  assumes "\<forall>fd\<in>set fds. on_height fd \<and> interval_sem height h fd"
    and "0 \<le> h" "h \<le> height" "height \<le> MaxInt64" "fst b \<le> h" "h \<le> snd b"
  shows "\<exists>b'. height_loop height b (map Some fds) = Some (Ok b') \<and> fst b' \<le> h \<and> h \<le> snd b'"
  using assms
proof (induction "length fds" arbitrary: fds b)
  case 0
  then show ?case by (simp add: height_loop.simps)
next
  case (Suc n)
  then obtain fd rest where fds: "fds = fd # rest" by (cases fds) auto
  with Suc.prems obtain b' where b': "height_step height b fd = Ok b'" "fst b' \<le> h" "h \<le> snd b'"
    using height_step_sound [of height h fd b] by auto
  have "height_loop height b (map Some fds) = height_loop height b' (map Some (swap_out fds))"
    using Suc.prems(1) b'(1) swap_out_map [of fds Some]
    by (subst height_loop.simps) (simp add: fds on_height_def)
  moreover have "\<exists>b''. height_loop height b' (map Some (swap_out fds)) = Some (Ok b'') \<and>
                   fst b'' \<le> h \<and> h \<le> snd b''"
    using Suc.hyps(2) Suc.prems set_swap_out [of fds] b'
    by (intro Suc.hyps(1)) (auto simp: length_swap_out)
  ultimately show ?case by simp
qed

section \<open>Properties\<close>

text \<open>
  C32: For a query whose filters are all on the height, the interval search ends, with an error or
  with an interval inside the chain and no filter left over.
\<close>

theorem getHeightMinMax_terminates:
  assumes "list_all on_height fds" "0 \<le> height"
  shows "\<exists>r. getHeightMinMax (map Some fds) height = Some r \<and>
           (case r of
              Ok (mn, mx, rest) \<Rightarrow> 0 \<le> mn \<and> mn \<le> mx \<and> mx \<le> height \<and> rest = []
            | Err e \<Rightarrow> True
            | Panic e \<Rightarrow> False)"
proof -
  obtain r where "height_loop height (0, height) (map Some fds) = Some r"
    and "case r of Ok b' \<Rightarrow> interval_ok height b' | Err e \<Rightarrow> True | Panic e \<Rightarrow> False"
    using height_loop_total [of fds height "(0, height)"] assms
    by (auto simp: list_all_iff interval_ok_def)
  then show ?thesis
    by (cases r) (auto simp: getHeightMinMax_def interval_ok_def)
qed

theorem getHeightMinMax_terminates_witness:
  "getHeightMinMax [Some \<lparr> Field = ''Height'', Op = ''>'', Value = ''3'' \<rparr>] 10 = Some (Ok (4, 10, []))
   \<and> (\<exists>r. getHeightMinMax (map Some [\<lparr> Field = ''Height'', Op = ''>'', Value = ''3'' \<rparr>]) 10 = Some r)"
proof
  show "\<exists>r. getHeightMinMax (map Some [\<lparr> Field = ''Height'', Op = ''>'', Value = ''3'' \<rparr>]) 10 = Some r"
  proof -
    have "list_all on_height [\<lparr> Field = ''Height'', Op = ''>'', Value = ''3'' \<rparr>]"
      by code_simp
    with getHeightMinMax_terminates [of "[\<lparr> Field = ''Height'', Op = ''>'', Value = ''3'' \<rparr>]" 10]
    show ?thesis by auto
  qed
qed code_simp

text \<open>
  The interval misses no block: a height that satisfies every filter of the query lies in the
  interval that is computed, whatever the order and the number of the filters, also where the
  bounds computed from the values wrap around.
\<close>

theorem getHeightMinMax_sound:
  assumes "list_all on_height fds" "list_all (interval_sem height h) fds"
    and "0 \<le> h" "h \<le> height" "height \<le> MaxInt64"
  shows "\<exists>mn mx. getHeightMinMax (map Some fds) height = Some (Ok (mn, mx, [])) \<and> mn \<le> h \<and> h \<le> mx"
proof -
  obtain b where "height_loop height (0, height) (map Some fds) = Some (Ok b)"
    and "fst b \<le> h" "h \<le> snd b"
    using height_loop_sound [of fds height h "(0, height)"] assms by (auto simp: list_all_iff)
  then show ?thesis
    by (cases b) (auto simp: getHeightMinMax_def)
qed

theorem getHeightMinMax_sound_witness:
  "\<exists>mn mx. getHeightMinMax (map Some [\<lparr> Field = ''height'', Op = ''<='', Value = ''8'' \<rparr>,
       \<lparr> Field = ''height'', Op = ''>'', Value = ''min'' \<rparr>]) 10 = Some (Ok (mn, mx, [])) \<and> mn \<le> 5 \<and> 5 \<le> mx"
  by (rule getHeightMinMax_sound)
    (simp_all add: on_height_def EqualFold_refl interval_sem_def cmp_of_def height_value_def
      ParseInt_def parse_unsigned_def digit_val_def int64_simps)

text \<open>
  A range \<open>lo..hi\<close> strictly inside the chain gives exactly the interval from \<open>lo\<close> to \<open>hi\<close>, except
  that a range of one block, \<open>lo = hi\<close>, loses its upper bound and reaches to the end of the chain.
\<close>

theorem getHeightMinMax_range:
  assumes "0 < lo" "lo \<le> hi" "hi < height" "height \<le> MaxInt64"
  shows "getHeightMinMax [Some \<lparr> Field = ''height'', Op = ''>='', Value = show_int lo \<rparr>,
                          Some \<lparr> Field = ''height'', Op = ''<='', Value = show_int hi \<rparr>] height =
         Some (Ok (lo, if lo < hi then hi else height, []))"
proof -
  have v: "height_value height (show_int i) = Ok i" if "0 < i" "i < height" for i
  proof -
    have "ParseInt (show_int i) = Some i"
      using that assms by (intro ParseInt_show_int) (auto simp: int64_simps)
    then show ?thesis
      using wildcards_not_numbers by (auto simp: height_value_def)
  qed
  have "height_value height (show_int lo) = Ok lo" "height_value height (show_int hi) = Ok hi"
    using assms by (auto intro: v)
  then show ?thesis
    using assms
    by (simp add: getHeightMinMax_def height_loop.simps EqualFold_refl height_step_def
        height_switch_def swap_out_def)
qed

theorem getHeightMinMax_range_witness:
  "getHeightMinMax [Some \<lparr> Field = ''height'', Op = ''>='', Value = show_int 3 \<rparr>,
                    Some \<lparr> Field = ''height'', Op = ''<='', Value = show_int 3 \<rparr>] 10 =
     Some (Ok (3, 10, []))"
  using getHeightMinMax_range [of 3 3 10] by (simp add: int64_simps)

lemma height_loop_Some_fields:
  assumes "height_loop height b fda = Some r"
  shows "\<forall>fd rest. fda = Some fd # rest \<longrightarrow> on_height fd"
  by (rule height_loop.raw_induct [OF _ assms])
    (auto simp: on_height_def split: list.splits option.splits if_splits)

text \<open>
  A block query whose first filter is on any other field than the height never returns: the
  loop of \<open>getHeightMinMax\<close> only advances for height filters.
\<close>

theorem Blocks_hangs_on_other_field:
  assumes "bs_Height bs \<noteq> 0" "\<not> EqualFold (Field fd) ''height''"
  shows "blockchain_Blocks bs (Some fd # rest) = None"
proof -
  have "height_loop (bs_Height bs) (0, bs_Height bs) (Some fd # rest) = None"
    using height_loop_Some_fields [of "bs_Height bs" "(0, bs_Height bs)" "Some fd # rest"] assms(2)
    by (cases "height_loop (bs_Height bs) (0, bs_Height bs) (Some fd # rest)")
      (auto simp: on_height_def)
  with assms(1) show ?thesis
    by (simp add: blockchain_Blocks_def getHeightMinMax_def)
qed

theorem Blocks_hangs_on_other_field_witness:
  "blockchain_Blocks \<lparr> bs_Height = 1, LoadBlockMeta = (\<lambda>_. None), LoadBlock = (\<lambda>_. None) \<rparr>
     [Some \<lparr> Field = ''foo'', Op = ''=='', Value = ''1'' \<rparr>] = None"
  by (rule Blocks_hangs_on_other_field)
    (simp_all add: EqualFold_def ToLower_def char_lower_def is_upper_def)

lemma blocks_loop_empty: "blocks_loop bs f mn mx mx metas = metas"
  by (subst blocks_loop.simps) (simp add: BLOCK_MAX_def)

text \<open>
  No block query ever lists a block: whenever \<open>Blocks\<close> returns, its list of block metas is
  empty, because the loop asks for the distance to the top to exceed the maximum and starts at
  the top.
\<close>

theorem Blocks_lists_nothing:
  "pred_option (\<lambda>r. case r of Ok bl \<Rightarrow> BlockMetas bl = [] | _ \<Rightarrow> True) (blockchain_Blocks bs fda)"
  by (auto simp: blockchain_Blocks_def Let_def blocks_loop_empty
      split: option.splits outcome.splits prod.splits if_splits)

text \<open>
  The fields of the answer are exchanged: on a non-empty chain a query without filters answers
  with the height of the chain as \<open>MinHeight\<close> and zero as \<open>MaxHeight\<close>.
\<close>

theorem Blocks_bounds_swapped:
  assumes "bs_Height bs \<noteq> 0"
  shows "blockchain_Blocks bs [] =
         Some (Ok \<lparr> MinHeight = bs_Height bs, MaxHeight = 0, BlockMetas = [] \<rparr>)"
  using assms by (simp add: blockchain_Blocks_def NewFilter_def blocks_loop_empty)

theorem Blocks_bounds_swapped_witness:
  "blockchain_Blocks \<lparr> bs_Height = 12, LoadBlockMeta = (\<lambda>_. None), LoadBlock = (\<lambda>_. None) \<rparr> [] =
     Some (Ok \<lparr> MinHeight = 12, MaxHeight = 0, BlockMetas = [] \<rparr>)"
  using Blocks_bounds_swapped [of "\<lparr> bs_Height = 12, LoadBlockMeta = (\<lambda>_. None), LoadBlock = (\<lambda>_. None) \<rparr>"]
  by simp

text \<open>
  A block is loaded for every height up to the height of the chain except zero, for a larger
  height the query returns an error; the latest block of an empty chain is an error. Negative
  heights are not rejected, they reach the store.
\<close>

theorem Block_by_height:
  "blockchain_Block bs h =
     (if h \<noteq> 0 \<and> h \<le> bs_Height bs then Ok (LoadBlock bs h)
      else if h = 0 then Err ''height must be greater than 0''
      else Err ''height must be less than the current blockchain height'') \<and>
   LatestBlock bs =
     (if bs_Height bs = 0 then Err ''height must be greater than 0''
      else Ok (LoadBlock bs (bs_Height bs)))"
  by (simp add: blockchain_Block_def LatestBlock_def)

end
