(* ===== verification/Event_Switch.thy ===== *)
theory Event_Switch
  imports Tendermint_Types
begin

text \<open>
  The event switch of the node (the vendored \<open>events/events.go\<close>) and the emitter eris-db puts in
  front of it (\<open>erisdb/pipe/events.go\<close>). A listener is registered for an event with a callback;
  the switch keeps a cell of callbacks per event and, per listener, the events it asked for, so
  that one call can remove the listener everywhere. Callbacks are the closures the program
  registers, identified by what they write to: the cache of a polled subscription or a websocket
  session, or a channel a transaction waits on. The switch is modelled from \<open>OnStart\<close> on.

  The locale \<open>event_emitter\<close> is the contract of \<open>EventEmitter\<close> (\<open>erisdb/pipe/pipe.go\<close>); it is
  interpreted on the switch at the end.
\<close>

datatype callback = ToCache nat | ToSession nat string | ToChan nat

section \<open>Cells and listeners\<close>

type_synonym eventCell = "(string, callback) gomap"

record eventListener =
  removed :: bool
  events :: "string list"

record EventSwitch =
  eventCells :: "(string, eventCell) gomap"
  listeners :: "(string, eventListener) gomap"

definition EventSwitch_OnStart :: EventSwitch where
  "EventSwitch_OnStart = \<lparr> eventCells = [], listeners = [] \<rparr>"

definition cell_AddListener :: "string \<Rightarrow> callback \<Rightarrow> eventCell \<Rightarrow> eventCell" where
  "cell_AddListener listenerID cb cell = AList.update listenerID cb cell"

definition cell_RemoveListener :: "string \<Rightarrow> eventCell \<Rightarrow> eventCell \<times> nat" where
  "cell_RemoveListener listenerID cell =
     (let cell' = AList.delete listenerID cell in (cell', length cell'))"

definition newEventListener :: eventListener where
  "newEventListener = \<lparr> removed = False, events = [] \<rparr>"

definition AddEvent :: "string \<Rightarrow> eventListener \<Rightarrow> eventListener" where
  "AddEvent event l = (if removed l then l else l\<lparr> events := events l @ [event] \<rparr>)"

definition GetEvents :: "eventListener \<Rightarrow> string list" where
  "GetEvents l = events l"

section \<open>The switch\<close>

definition AddListenerForEvent :: "string \<Rightarrow> string \<Rightarrow> callback \<Rightarrow> EventSwitch \<Rightarrow> EventSwitch" where
  "AddListenerForEvent listenerID event cb evsw =
     (let cell = (case map_of (eventCells evsw) event of None \<Rightarrow> [] | Some c \<Rightarrow> c);
          listener = (case map_of (listeners evsw) listenerID of
                        None \<Rightarrow> newEventListener | Some l \<Rightarrow> l)
      in \<lparr> eventCells = AList.update event (cell_AddListener listenerID cb cell) (eventCells evsw),
           listeners = AList.update listenerID (AddEvent event listener) (listeners evsw) \<rparr>)"

definition RemoveListenerForEvent :: "string \<Rightarrow> string \<Rightarrow> EventSwitch \<Rightarrow> EventSwitch" where
  "RemoveListenerForEvent event listenerID evsw =
     (case map_of (eventCells evsw) event of
        None \<Rightarrow> evsw
      | Some cell \<Rightarrow>
          (let (cell', numListeners) = cell_RemoveListener listenerID cell in
           if numListeners = 0
           then evsw\<lparr> eventCells := AList.delete event (eventCells evsw) \<rparr>
           else evsw\<lparr> eventCells := AList.update event cell' (eventCells evsw) \<rparr>))"

definition RemoveListener :: "string \<Rightarrow> EventSwitch \<Rightarrow> EventSwitch" where
  "RemoveListener listenerID evsw =
     (case map_of (listeners evsw) listenerID of
        None \<Rightarrow> evsw
      | Some listener \<Rightarrow>
          fold (\<lambda>event. RemoveListenerForEvent event listenerID) (GetEvents listener)
            (evsw\<lparr> listeners := AList.delete listenerID (listeners evsw) \<rparr>))"

text \<open>The callbacks that \<open>FireEvent\<close> calls, in the iteration order of the cell.\<close>

definition FireEvent :: "string \<Rightarrow> EventSwitch \<Rightarrow> callback list" where
  "FireEvent event evsw =
     (case map_of (eventCells evsw) event of None \<Rightarrow> [] | Some cell \<Rightarrow> map snd cell)"

section \<open>The emitter of the pipe\<close>

record 's EventEmitter =
  Subscribe :: "string \<Rightarrow> string \<Rightarrow> callback \<Rightarrow> 's \<Rightarrow> 's \<times> bool outcome"
  Unsubscribe :: "string \<Rightarrow> 's \<Rightarrow> 's \<times> bool outcome"

definition events_Subscribe ::
  "string \<Rightarrow> string \<Rightarrow> callback \<Rightarrow> EventSwitch \<Rightarrow> EventSwitch \<times> bool outcome" where
  "events_Subscribe subId event cb evsw = (AddListenerForEvent subId event cb evsw, Ok True)"

definition events_Unsubscribe :: "string \<Rightarrow> EventSwitch \<Rightarrow> EventSwitch \<times> bool outcome" where
  "events_Unsubscribe subId evsw = (RemoveListener subId evsw, Ok True)"

definition newEvents :: "EventSwitch EventEmitter" where
  "newEvents = \<lparr> Subscribe = events_Subscribe, Unsubscribe = events_Unsubscribe \<rparr>"

section \<open>The contract of an emitter\<close>

text \<open>
  \<open>view s event\<close> lists the listeners of an event with their callbacks: subscribing stores the
  callback for one event, unsubscribing removes the listener from every event.
\<close>

locale event_emitter =
  fixes E :: "'s EventEmitter"
    and view :: "'s \<Rightarrow> string \<Rightarrow> (string, callback) gomap"
    and inv :: "'s \<Rightarrow> bool"
  assumes view_ok: "inv s \<Longrightarrow> gomap_ok (view s ev)"
    and subscribe_inv: "inv s \<Longrightarrow> inv (fst (Subscribe E lid ev cb s))"
    and unsubscribe_inv: "inv s \<Longrightarrow> inv (fst (Unsubscribe E lid s))"
    and subscribe_view: "inv s \<Longrightarrow> map_of (view (fst (Subscribe E lid ev cb s)) ev') =
           (if ev' = ev then (map_of (view s ev))(lid \<mapsto> cb) else map_of (view s ev'))"
    and unsubscribe_view: "inv s \<Longrightarrow>
           map_of (view (fst (Unsubscribe E lid s)) ev) = (map_of (view s ev))(lid := None)"
begin

lemma unsubscribe_subscribe:
  assumes "inv s"
  shows "map_of (view (fst (Unsubscribe E lid (fst (Subscribe E lid ev cb s)))) ev') =
         (map_of (view s ev'))(lid := None)"
  using assms by (simp add: unsubscribe_view subscribe_view subscribe_inv)

lemma unsubscribe_silent:
  assumes "inv s" "\<And>lid'. map_of (view s ev) lid' = Some cb \<Longrightarrow> lid' = lid"
  shows "cb \<notin> set (map snd (view (fst (Unsubscribe E lid s)) ev))"
proof
  assume "cb \<in> set (map snd (view (fst (Unsubscribe E lid s)) ev))"
  then obtain lid' where "(lid', cb) \<in> set (view (fst (Unsubscribe E lid s)) ev)"
    by auto
  then have "map_of (view (fst (Unsubscribe E lid s)) ev) lid' = Some cb"
    using view_ok [OF unsubscribe_inv [OF assms(1)]] by (simp add: gomap_ok_def)
  with assms show False
    by (auto simp: unsubscribe_view split: if_splits)
qed

end

section \<open>The switch keeps the contract\<close>

definition switch_view :: "EventSwitch \<Rightarrow> string \<Rightarrow> (string, callback) gomap" where
  "switch_view evsw ev = (case map_of (eventCells evsw) ev of None \<Rightarrow> [] | Some c \<Rightarrow> c)"

definition switch_inv :: "EventSwitch \<Rightarrow> bool" where
  "switch_inv evsw \<longleftrightarrow>
     (\<forall>ev. gomap_ok (switch_view evsw ev)) \<and>
     (\<forall>lid l. map_of (listeners evsw) lid = Some l \<longrightarrow> \<not> removed l) \<and>
     (\<forall>ev lid cb. map_of (switch_view evsw ev) lid = Some cb \<longrightarrow>
        (\<exists>l. map_of (listeners evsw) lid = Some l \<and> ev \<in> set (events l)))"

lemma FireEvent_view: "FireEvent ev s = map snd (switch_view s ev)"
  by (simp add: FireEvent_def switch_view_def split: option.split)

lemma view_AddListener:
  "switch_view (AddListenerForEvent lid ev cb s) ev' =
     (if ev' = ev then AList.update lid cb (switch_view s ev) else switch_view s ev')"
  by (simp add: switch_view_def AddListenerForEvent_def Let_def cell_AddListener_def)

lemma view_RemoveListenerForEvent:
  "switch_view (RemoveListenerForEvent ev lid s) ev' =
     (if ev' = ev then AList.delete lid (switch_view s ev) else switch_view s ev')"
  by (simp add: switch_view_def RemoveListenerForEvent_def cell_RemoveListener_def Let_def
      split: option.split)

lemma listeners_RemoveListenerForEvent [simp]:
  "listeners (RemoveListenerForEvent ev lid s) = listeners s"
  by (simp add: RemoveListenerForEvent_def cell_RemoveListener_def Let_def split: option.split)

lemma listeners_fold_Remove [simp]:
  "listeners (fold (\<lambda>ev. RemoveListenerForEvent ev lid) evs s) = listeners s"
  by (induction evs arbitrary: s) auto

lemma delete_twice [simp]: "AList.delete k (AList.delete k m) = AList.delete k m"
  by (simp add: delete_idem)

lemma view_fold_Remove:
  "switch_view (fold (\<lambda>ev. RemoveListenerForEvent ev lid) evs s) ev' =
     (if ev' \<in> set evs then AList.delete lid (switch_view s ev') else switch_view s ev')"
  by (induction evs arbitrary: s) (auto simp: view_RemoveListenerForEvent)

lemma switch_inv_listener:
  assumes "switch_inv s" "map_of (switch_view s ev) lid = Some cb"
  shows "\<exists>l. map_of (listeners s) lid = Some l \<and> ev \<in> set (events l)"
  using assms by (simp add: switch_inv_def)

lemma view_listeners_update [simp]: "switch_view (s\<lparr>listeners := ls\<rparr>) ev = switch_view s ev"
  by (simp add: switch_view_def)

lemma view_RemoveListener:
  assumes "switch_inv s"
  shows "map_of (switch_view (RemoveListener lid s) ev) = (map_of (switch_view s ev))(lid := None)"
proof (cases "map_of (listeners s) lid")
  case None
  then have "map_of (switch_view s ev) lid = None"
    using switch_inv_listener [OF assms, of ev lid]
    by (cases "map_of (switch_view s ev) lid") auto
  with None show ?thesis by (auto simp: RemoveListener_def fun_eq_iff)
next
  case (Some l)
  then have "map_of (switch_view s ev) lid = None" if "ev \<notin> set (events l)"
    using switch_inv_listener [OF assms, of ev lid] that
    by (cases "map_of (switch_view s ev) lid") auto
  with Some show ?thesis
    by (auto simp: RemoveListener_def view_fold_Remove GetEvents_def fun_eq_iff)
qed

lemma gomap_ok_view_RemoveListener:
  "gomap_ok (switch_view s ev) \<Longrightarrow> gomap_ok (switch_view (RemoveListener lid s) ev)"
  by (simp add: RemoveListener_def view_fold_Remove split: option.split)

lemma switch_inv_Add [inv_intros]:
  assumes "switch_inv s"
  shows "switch_inv (AddListenerForEvent lid ev cb s)"
proof -
  have l: "listeners (AddListenerForEvent lid ev cb s) =
             AList.update lid (AddEvent ev (case map_of (listeners s) lid of
               None \<Rightarrow> newEventListener | Some l \<Rightarrow> l)) (listeners s)"
    by (simp add: AddListenerForEvent_def Let_def)
  show ?thesis
    using assms unfolding switch_inv_def view_AddListener l
    by (fastforce simp: AddEvent_def newEventListener_def split: option.splits if_splits)
qed

lemma switch_inv_Remove [inv_intros]:
  assumes "switch_inv s"
  shows "switch_inv (RemoveListener lid s)"
proof -
  have "listeners (RemoveListener lid s) = AList.delete lid (listeners s)"
  proof (cases "map_of (listeners s) lid")
    case None
    then have "AList.delete lid (listeners s) = listeners s"
      by (auto intro!: delete_idem simp: map_of_eq_None_iff)
    with None show ?thesis by (simp add: RemoveListener_def)
  qed (simp add: RemoveListener_def)
  then show ?thesis
    using assms unfolding switch_inv_def view_RemoveListener [OF assms]
    by (auto intro!: gomap_ok_view_RemoveListener split: if_splits)
qed

lemma switch_inv_OnStart [simp]: "switch_inv EventSwitch_OnStart"
  by (simp add: switch_inv_def switch_view_def EventSwitch_OnStart_def)

interpretation evsw: event_emitter newEvents switch_view switch_inv
  by unfold_locales
    (auto simp: newEvents_def events_Subscribe_def events_Unsubscribe_def switch_inv_def [symmetric]
      view_AddListener view_RemoveListener switch_inv_Add switch_inv_Remove
      intro: switch_inv_def [THEN iffD1, THEN conjunct1, rule_format])

end
