(* ===== verification/Event_Cache.thy ===== *)
theory Event_Cache
  imports Event_Switch
begin

text \<open>
  Polled event subscriptions (\<open>erisdb/event_cache.go\<close>): a client subscribes to an event, the
  closure registered with the emitter appends every event to a cache, and the client polls the
  cache by the id it was given; a reaper drops subscriptions that are not polled. The caches live
  in a heap, since the closure keeps its cache when the subscription is gone. Times are
  nanoseconds; the emitter is an argument, as it is in the code.
\<close>

definition reaperTimeout :: int where
  "reaperTimeout = 5 * 10 ^ 9"

definition reaperThreshold :: int where
  "reaperThreshold = 10 * 10 ^ 9"

record EventCache =
  ec_events :: "EventData list"
  ec_ts :: int
  ec_subId :: string

record 's EventSubscriptions =
  eventEmitter :: 's
  heap :: "EventCache list"
  subs :: "(string, nat) gomap"

definition newEventCache :: "int \<Rightarrow> EventCache" where
  "newEventCache now = \<lparr> ec_events = [], ec_ts = now, ec_subId = [] \<rparr>"

definition cache_poll :: "int \<Rightarrow> EventCache \<Rightarrow> EventCache \<times> EventData list" where
  "cache_poll now c =
     (if length (ec_events c) > 0
      then (c\<lparr> ec_events := [], ec_ts := now \<rparr>, ec_events c)
      else (c\<lparr> ec_ts := now \<rparr>, []))"

definition NewEventSubscriptions :: "'s \<Rightarrow> 's EventSubscriptions" where
  "NewEventSubscriptions em = \<lparr> eventEmitter = em, heap = [], subs = [] \<rparr>"

text \<open>
  \<open>generateSubId\<close> of \<open>erisdb/methods.go\<close>: 32 random bytes in upper-case hexadecimal; reading
  them may fail.
\<close>

definition generateSubId :: "bytes outcome \<Rightarrow> string outcome" where
  "generateSubId rand = obind rand (\<lambda>b. Ok (ToUpper (EncodeToString b)))"

definition es_add ::
  "'s EventEmitter \<Rightarrow> int \<Rightarrow> bytes outcome \<Rightarrow> string \<Rightarrow> 's EventSubscriptions \<Rightarrow>
   's EventSubscriptions \<times> string outcome" where
  "es_add E now rand eventId es =
     (case generateSubId rand of
        Err e \<Rightarrow> (es, Err e)
      | Panic e \<Rightarrow> (es, Panic e)
      | Ok subId \<Rightarrow>
          (let r = length (heap es);
               (em, ret) = Subscribe E subId eventId (ToCache r) (eventEmitter es);
               es' = es\<lparr> eventEmitter := em,
                         heap := heap es @ [(newEventCache now)\<lparr> ec_subId := subId \<rparr>],
                         subs := AList.update subId r (subs es) \<rparr>
           in case ret of
                Ok _ \<Rightarrow> (es', Ok subId)
              | Err e \<Rightarrow> (es', Err e)
              | Panic e \<Rightarrow> (es', Panic e)))"

definition not_active :: "string \<Rightarrow> string" where
  "not_active subId = ''Subscription not active. ID: '' @ subId"

definition es_poll ::
  "int \<Rightarrow> string \<Rightarrow> 's EventSubscriptions \<Rightarrow> 's EventSubscriptions \<times> EventData list outcome" where
  "es_poll now subId es =
     (case map_of (subs es) subId of
        None \<Rightarrow> (es, Err (not_active subId))
      | Some r \<Rightarrow>
          (let (c, evts) = cache_poll now (heap es ! r)
           in (es\<lparr> heap := (heap es)[r := c] \<rparr>, Ok evts)))"

definition es_remove ::
  "string \<Rightarrow> 's EventSubscriptions \<Rightarrow> 's EventSubscriptions \<times> string option" where
  "es_remove subId es =
     (case map_of (subs es) subId of
        None \<Rightarrow> (es, Some (not_active subId))
      | Some r \<Rightarrow> (es\<lparr> subs := AList.delete subId (subs es) \<rparr>, None))"

text \<open>One round of the reaper, which holds the lock of the subscriptions.\<close>

definition reap_one ::
  "'s EventEmitter \<Rightarrow> int \<Rightarrow> string \<times> nat \<Rightarrow> 's EventSubscriptions \<Rightarrow> 's EventSubscriptions" where
  "reap_one E now sub es =
     (if now - ec_ts (heap es ! snd sub) > reaperThreshold
      then es\<lparr> subs := AList.delete (fst sub) (subs es),
               eventEmitter := fst (Unsubscribe E (fst sub) (eventEmitter es)) \<rparr>
      else es)"

definition es_reap :: "'s EventEmitter \<Rightarrow> int \<Rightarrow> 's EventSubscriptions \<Rightarrow> 's EventSubscriptions" where
  "es_reap E now es = fold (reap_one E now) (subs es) es"

text \<open>The emitter fires an event: each closure appends it to its cache.\<close>

definition deliver :: "EventData \<Rightarrow> callback \<Rightarrow> EventCache list \<Rightarrow> EventCache list" where
  "deliver d cb h =
     (case cb of
        ToCache r \<Rightarrow> h[r := (h ! r)\<lparr> ec_events := ec_events (h ! r) @ [d] \<rparr>]
      | _ \<Rightarrow> h)"

definition es_fire ::
  "(string \<Rightarrow> 's \<Rightarrow> callback list) \<Rightarrow> string \<Rightarrow> EventData \<Rightarrow> 's EventSubscriptions \<Rightarrow> 's EventSubscriptions" where
  "es_fire fire ev d es = es\<lparr> heap := fold (deliver d) (fire ev (eventEmitter es)) (heap es) \<rparr>"

section \<open>Runs\<close>

datatype es_op =
    OpAdd int "bytes outcome" string
  | OpFire string EventData
  | OpPoll int string
  | OpRemove string
  | OpReap int

definition es_do ::
  "'s EventEmitter \<Rightarrow> (string \<Rightarrow> 's \<Rightarrow> callback list) \<Rightarrow> es_op \<Rightarrow> 's EventSubscriptions \<Rightarrow>
   's EventSubscriptions \<times> EventData list" where
  "es_do E fire op es =
     (case op of
        OpAdd now rand ev \<Rightarrow> (fst (es_add E now rand ev es), [])
      | OpFire ev d \<Rightarrow> (es_fire fire ev d es, [])
      | OpPoll now subId \<Rightarrow>
          (case es_poll now subId es of
             (es', Ok evts) \<Rightarrow> (es', evts)
           | (es', Err e) \<Rightarrow> (es', [])
           | (es', Panic e) \<Rightarrow> (es', []))
      | OpRemove subId \<Rightarrow> (fst (es_remove subId es), [])
      | OpReap now \<Rightarrow> (es_reap E now es, []))"

fun es_run ::
  "'s EventEmitter \<Rightarrow> (string \<Rightarrow> 's \<Rightarrow> callback list) \<Rightarrow> es_op list \<Rightarrow> 's EventSubscriptions \<Rightarrow>
   's EventSubscriptions \<times> (es_op \<times> EventData list) list" where
  "es_run E fire [] es = (es, [])"
| "es_run E fire (op # ops) es =
     (let (es1, out) = es_do E fire op es; (es2, outs) = es_run E fire ops es1
      in (es2, (op, out) # outs))"

text \<open>What a client of one subscription got from its polls, and what was fired for its event.\<close>

fun polled_by :: "string \<Rightarrow> (es_op \<times> EventData list) list \<Rightarrow> EventData list" where
  "polled_by subId [] = []"
| "polled_by subId ((op, out) # outs) =
     (case op of OpPoll now i \<Rightarrow> if i = subId then out else [] | _ \<Rightarrow> []) @ polled_by subId outs"

fun fired :: "string \<Rightarrow> es_op list \<Rightarrow> EventData list" where
  "fired ev [] = []"
| "fired ev (op # ops) = (case op of OpFire e d \<Rightarrow> if e = ev then [d] else [] | _ \<Rightarrow> []) @ fired ev ops"

text \<open>
  Operations that do not end or replace the subscription \<open>subId\<close>, which was polled or made at \<open>ts\<close>: a
  round of the reaper ends it when that is longer ago than the threshold.
\<close>

fun leaves_alone :: "string \<Rightarrow> int \<Rightarrow> es_op \<Rightarrow> bool" where
  "leaves_alone subId ts (OpAdd now rand ev) = (generateSubId rand \<noteq> Ok subId)"
| "leaves_alone subId ts (OpFire ev d) = True"
| "leaves_alone subId ts (OpPoll now i) = True"
| "leaves_alone subId ts (OpRemove i) = (i \<noteq> subId)"
| "leaves_alone subId ts (OpReap now) = (now - ts \<le> reaperThreshold)"

definition polled_at :: "string \<Rightarrow> int \<Rightarrow> es_op \<Rightarrow> int" where
  "polled_at subId ts op = (case op of OpPoll now i \<Rightarrow> if i = subId then now else ts | _ \<Rightarrow> ts)"

fun kept_alive :: "string \<Rightarrow> int \<Rightarrow> es_op list \<Rightarrow> bool" where
  "kept_alive subId ts [] = True"
| "kept_alive subId ts (op # ops) = (leaves_alone subId ts op \<and> kept_alive subId (polled_at subId ts op) ops)"

definition pending :: "string \<Rightarrow> 's EventSubscriptions \<Rightarrow> EventData list" where
  "pending subId es =
     (case map_of (subs es) subId of None \<Rightarrow> [] | Some r \<Rightarrow> ec_events (heap es ! r))"

section \<open>Delivery\<close>

lemma length_fold_deliver [simp]: "length (fold (deliver d) cbs h) = length h"
  by (induction cbs arbitrary: h) (auto simp: deliver_def split: callback.split)

lemma deliver_events:
  "r < length h \<Longrightarrow> ec_events (deliver d cb h ! r) = ec_events (h ! r) @ (if cb = ToCache r then [d] else [])"
  by (auto simp: deliver_def nth_list_update split: callback.split)

lemma fold_deliver_events:
  "r < length h \<Longrightarrow>
   ec_events (fold (deliver d) cbs h ! r) = ec_events (h ! r) @ replicate (count_list cbs (ToCache r)) d"
proof (induction cbs arbitrary: h)
  case (Cons cb cbs)
  then have "r < length (deliver d cb h)"
    by (simp add: deliver_def split: callback.split)
  with Cons show ?case
    by (auto simp: deliver_events)
qed simp

lemma count_list_view:
  assumes "gomap_ok m"
  shows "count_list (map snd m) v = card {k. map_of m k = Some v}"
  using assms
proof (induction m)
  case (Cons kv m)
  obtain k w where kv: "kv = (k, w)" by (cases kv)
  have fin: "finite {k. map_of m k = Some v}"
    by (rule finite_subset [of _ "dom (map_of m)"]) (auto simp: finite_dom_map_of)
  have k: "map_of m k = None"
    using Cons.prems by (simp add: kv gomap_ok_def map_of_eq_None_iff)
  have "{k'. map_of (kv # m) k' = Some v} =
        (if w = v then insert k {k. map_of m k = Some v} else {k. map_of m k = Some v})"
    using k by (auto simp: kv)
  moreover have "gomap_ok m" using Cons.prems by (simp add: kv gomap_ok_def)
  ultimately show ?case
    using Cons.IH k fin by (simp add: kv)
qed simp

lemma es_add_state:
  "generateSubId rand = Ok subId \<Longrightarrow>
   fst (es_add E now rand ev es) =
     es\<lparr> eventEmitter := fst (Subscribe E subId ev (ToCache (length (heap es))) (eventEmitter es)),
         heap := heap es @ [(newEventCache now)\<lparr> ec_subId := subId \<rparr>],
         subs := AList.update subId (length (heap es)) (subs es) \<rparr>"
  by (simp add: es_add_def Let_def split: prod.split outcome.split)

lemma es_add_fail: "\<nexists>subId. generateSubId rand = Ok subId \<Longrightarrow> fst (es_add E now rand ev es) = es"
  by (simp add: es_add_def split: outcome.split)

lemma cache_poll_eq:
  "cache_poll now c = (c\<lparr> ec_events := [], ec_ts := now \<rparr>, ec_events c)"
  by (cases c) (simp add: cache_poll_def)

lemma es_poll_state:
  "es_poll now subId es =
     (case map_of (subs es) subId of
        None \<Rightarrow> (es, Err (not_active subId))
      | Some r \<Rightarrow> (es\<lparr> heap := (heap es)[r := (heap es ! r)\<lparr> ec_events := [], ec_ts := now \<rparr>] \<rparr>,
                   Ok (ec_events (heap es ! r))))"
  by (simp add: es_poll_def cache_poll_eq split: option.split)

lemma reap_one_heap [simp]: "heap (reap_one E now sub es) = heap es"
  by (simp add: reap_one_def)

lemma fold_reap_heap [simp]: "heap (fold (reap_one E now) xs es) = heap es"
  by (induction xs arbitrary: es) auto

context event_emitter
begin

abbreviation fire_view :: "string \<Rightarrow> 's \<Rightarrow> callback list" where
  "fire_view ev s \<equiv> map snd (view s ev)"

definition es_ok :: "'s EventSubscriptions \<Rightarrow> bool" where
  "es_ok es \<longleftrightarrow> inv (eventEmitter es) \<and> gomap_ok (subs es) \<and>
     (\<forall>ev lid r. map_of (view (eventEmitter es) ev) lid = Some (ToCache r) \<longrightarrow> r < length (heap es)) \<and>
     (\<forall>subId r. map_of (subs es) subId = Some r \<longrightarrow> r < length (heap es))"

definition wired :: "string \<Rightarrow> string \<Rightarrow> nat \<Rightarrow> 's EventSubscriptions \<Rightarrow> bool" where
  "wired subId ev r es \<longleftrightarrow>
     map_of (subs es) subId = Some r \<and>
     (\<forall>ev' lid. map_of (view (eventEmitter es) ev') lid = Some (ToCache r) \<longleftrightarrow> ev' = ev \<and> lid = subId) \<and>
     (\<forall>i. map_of (subs es) i = Some r \<longrightarrow> i = subId)"

lemma wired_sub: "wired subId ev r es \<Longrightarrow> map_of (subs es) subId = Some r"
  by (simp add: wired_def)

lemma wired_only: "wired subId ev r es \<Longrightarrow> map_of (subs es) i = Some r \<Longrightarrow> i = subId"
  by (simp add: wired_def)

lemma es_ok_sub: "es_ok es \<Longrightarrow> map_of (subs es) i = Some r \<Longrightarrow> r < length (heap es)"
  by (simp add: es_ok_def)

lemma wired_bound: "wired subId ev r es \<Longrightarrow> es_ok es \<Longrightarrow> r < length (heap es)"
  using es_ok_sub wired_sub by blast

lemma wired_count:
  assumes "wired subId ev r es" "es_ok es"
  shows "count_list (fire_view ev' (eventEmitter es)) (ToCache r) = (if ev' = ev then 1 else 0)"
proof -
  have "{k. map_of (view (eventEmitter es) ev') k = Some (ToCache r)} =
        (if ev' = ev then {subId} else {})"
    using assms(1) by (auto simp: wired_def)
  then show ?thesis
    using assms(2) by (simp add: count_list_view view_ok es_ok_def)
qed

lemma es_ok_add: "es_ok es \<Longrightarrow> es_ok (fst (es_add E now rand ev es))"
proof (cases "\<exists>subId. generateSubId rand = Ok subId")
  case True
  then obtain subId where "generateSubId rand = Ok subId" ..
  then show "es_ok es \<Longrightarrow> ?thesis"
    by (auto simp: es_add_state es_ok_def subscribe_inv subscribe_view less_Suc_eq split: if_splits)
qed (simp add: es_add_fail)

lemma es_ok_reap_one: "es_ok es \<Longrightarrow> es_ok (reap_one E now sub es)"
  by (auto simp: reap_one_def es_ok_def unsubscribe_inv unsubscribe_view split: if_splits)

lemma es_ok_fold_reap: "es_ok es \<Longrightarrow> es_ok (fold (reap_one E now) xs es)"
  by (induction xs arbitrary: es) (auto simp: es_ok_reap_one)

lemma es_ok_do: "es_ok es \<Longrightarrow> es_ok (fst (es_do E fire op es))"
  by (cases op)
    (auto simp: es_do_def es_ok_add es_reap_def es_ok_fold_reap,
      auto simp: es_ok_def es_fire_def es_poll_state es_remove_def split: option.splits if_splits)

lemma es_ok_run: "es_ok es \<Longrightarrow> es_ok (fst (es_run E fire ops es))"
  by (induction ops arbitrary: es) (simp_all add: Let_def case_prod_beta es_ok_do)

lemma wired_add:
  assumes "es_ok es" "generateSubId rand = Ok subId"
  shows "wired subId ev (length (heap es)) (fst (es_add E now rand ev es))"
proof -
  let ?r = "length (heap es)"
  have "map_of (view (eventEmitter es) ev') lid \<noteq> Some (ToCache ?r)" for ev' lid
    using assms(1) by (auto simp: es_ok_def)
  moreover have "map_of (subs es) i \<noteq> Some ?r" for i
    using assms(1) by (auto simp: es_ok_def)
  ultimately show ?thesis
    using assms by (auto simp: wired_def es_add_state es_ok_def subscribe_view)
qed

lemma wired_heap: "wired subId ev r (es\<lparr> heap := h \<rparr>) = wired subId ev r es"
  by (simp add: wired_def)

lemma wired_add_other:
  assumes "wired subId ev r es" "es_ok es" "generateSubId rand \<noteq> Ok subId"
  shows "wired subId ev r (fst (es_add E now rand ev' es))"
proof (cases "\<exists>i. generateSubId rand = Ok i")
  case True
  then obtain i where i: "generateSubId rand = Ok i" ..
  have "r \<noteq> length (heap es)"
    using wired_bound [OF assms(1,2)] by simp
  moreover have "i \<noteq> subId" using assms(3) i by auto
  moreover have "inv (eventEmitter es)" using assms(2) by (simp add: es_ok_def)
  moreover have "map_of (view (eventEmitter es) ev') i \<noteq> Some (ToCache r)"
    using assms(1) calculation by (simp add: wired_def)
  ultimately have "map_of (view (fst (Subscribe E i ev' (ToCache (length (heap es))) (eventEmitter es))) e) lid
      = Some (ToCache r) \<longleftrightarrow> map_of (view (eventEmitter es) e) lid = Some (ToCache r)" for e lid
    by (cases "e = ev' \<and> lid = i") (auto simp: subscribe_view)
  with assms(1) \<open>i \<noteq> subId\<close> \<open>r \<noteq> length (heap es)\<close> show ?thesis
    by (simp add: wired_def es_add_state i)
qed (simp add: es_add_fail assms)

text \<open>A round of the reaper ends exactly the stale subscriptions, in the map and in the emitter.\<close>

definition old_ref :: "int \<Rightarrow> 's EventSubscriptions \<Rightarrow> nat \<Rightarrow> bool" where
  "old_ref now es r \<longleftrightarrow> now - ec_ts (heap es ! r) > reaperThreshold"

lemma fold_reap_subs:
  "map_of (subs (fold (reap_one E now) xs es)) i =
     (if \<exists>r. (i, r) \<in> set xs \<and> old_ref now es r then None else map_of (subs es) i)"
proof (induction xs arbitrary: es)
  case (Cons x xs)
  have "old_ref now (reap_one E now x es) r = old_ref now es r" for r
    by (simp add: old_ref_def)
  with Cons show ?case
    by (cases x) (auto simp: reap_one_def old_ref_def)
qed simp

lemma fold_reap_view:
  "inv (eventEmitter es) \<Longrightarrow>
   map_of (view (eventEmitter (fold (reap_one E now) xs es)) ev) i =
     (if \<exists>r. (i, r) \<in> set xs \<and> old_ref now es r then None
      else map_of (view (eventEmitter es) ev) i)"
proof (induction xs arbitrary: es)
  case (Cons x xs)
  have "old_ref now (reap_one E now x es) r = old_ref now es r" for r
    by (simp add: old_ref_def)
  moreover have "inv (eventEmitter (reap_one E now x es))"
    using Cons.prems by (simp add: reap_one_def unsubscribe_inv)
  moreover have "map_of (view (eventEmitter (reap_one E now x es)) ev) i =
      (if i = fst x \<and> old_ref now es (snd x) then None else map_of (view (eventEmitter es) ev) i)"
    using Cons.prems by (simp add: reap_one_def old_ref_def unsubscribe_view)
  ultimately show ?case
    using Cons.IH [of "reap_one E now x es"] by (cases x) auto
qed simp

lemma reap_exact:
  assumes "es_ok es"
  shows "map_of (subs (es_reap E now es)) i =
           (case map_of (subs es) i of None \<Rightarrow> None | Some r \<Rightarrow> if old_ref now es r then None else Some r)"
    and "map_of (view (eventEmitter (es_reap E now es)) ev) i =
           (case map_of (subs es) i of
              None \<Rightarrow> map_of (view (eventEmitter es) ev) i
            | Some r \<Rightarrow> if old_ref now es r then None else map_of (view (eventEmitter es) ev) i)"
proof -
  have "(\<exists>r. (i, r) \<in> set (subs es) \<and> old_ref now es r) \<longleftrightarrow>
        (case map_of (subs es) i of None \<Rightarrow> False | Some r \<Rightarrow> old_ref now es r)"
    using assms by (auto simp: es_ok_def gomap_ok_def map_of_eq_None_iff image_iff
        split: option.split) (metis map_of_eq_Some_iff option.inject)+
  moreover have "inv (eventEmitter es)" using assms by (simp add: es_ok_def)
  ultimately show "map_of (subs (es_reap E now es)) i =
           (case map_of (subs es) i of None \<Rightarrow> None | Some r \<Rightarrow> if old_ref now es r then None else Some r)"
    and "map_of (view (eventEmitter (es_reap E now es)) ev) i =
           (case map_of (subs es) i of
              None \<Rightarrow> map_of (view (eventEmitter es) ev) i
            | Some r \<Rightarrow> if old_ref now es r then None else map_of (view (eventEmitter es) ev) i)"
    by (simp_all add: es_reap_def fold_reap_subs fold_reap_view split: option.split)
qed

lemma wired_reap:
  assumes w: "wired subId ev r es" and ok: "es_ok es" and fresh: "\<not> old_ref now es r"
  shows "wired subId ev r (es_reap E now es)"
  unfolding wired_def
proof (intro conjI allI impI)
  show "map_of (subs (es_reap E now es)) subId = Some r"
    using wired_sub [OF w] fresh by (simp add: reap_exact(1) [OF ok])
  show "i = subId" if "map_of (subs (es_reap E now es)) i = Some r" for i
    using that wired_only [OF w, of i] by (auto simp: reap_exact(1) [OF ok] split: option.splits if_splits)
  show "map_of (view (eventEmitter (es_reap E now es)) ev') lid = Some (ToCache r) \<longleftrightarrow> ev' = ev \<and> lid = subId" for ev' lid
  proof (cases "lid = subId")
    case True
    then have "map_of (view (eventEmitter (es_reap E now es)) ev') lid = map_of (view (eventEmitter es) ev') lid"
      using wired_sub [OF w] fresh by (simp add: reap_exact(2) [OF ok])
    then show ?thesis using w by (simp add: wired_def)
  next
    case False
    then have "map_of (view (eventEmitter es) ev') lid \<noteq> Some (ToCache r)" using w by (simp add: wired_def)
    with False show ?thesis by (auto simp: reap_exact(2) [OF ok] split: option.splits)
  qed
qed

lemma fold_deliver_ts: "r < length h \<Longrightarrow> ec_ts (fold (deliver d) cbs h ! r) = ec_ts (h ! r)"
proof (induction cbs arbitrary: h)
  case (Cons cb cbs)
  have "ec_ts (h[k := (h ! k)\<lparr> ec_events := ec_events (h ! k) @ [d] \<rparr>] ! r) = ec_ts (h ! r)" for k
    using Cons.prems by (cases "k = r") simp_all
  then have "ec_ts (deliver d cb h ! r) = ec_ts (h ! r)" "length (deliver d cb h) = length h"
    by (simp_all add: deliver_def split: callback.split)
  with Cons show ?case by simp
qed simp

text \<open>One operation hands over or keeps exactly what it fires for the subscription.\<close>

lemma do_conserves:
  assumes w: "wired subId ev r es" and ok: "es_ok es" and l: "leaves_alone subId (ec_ts (heap es ! r)) op"
    and d: "es_do E fire_view op es = (es', out)"
  shows "wired subId ev r es' \<and> ec_ts (heap es' ! r) = polled_at subId (ec_ts (heap es ! r)) op \<and>
         polled_by subId [(op, out)] @ ec_events (heap es' ! r) =
         ec_events (heap es ! r) @ fired ev [op]"
proof -
  have r: "r < length (heap es)"
    using w ok by (rule wired_bound)
  show ?thesis
  proof (cases op)
    case (OpAdd now rand ev')
    then have es': "es' = fst (es_add E now rand ev' es)"
      using d by (simp add: es_do_def)
    have "heap es' ! r = heap es ! r"
      using r by (cases "\<exists>i. generateSubId rand = Ok i")
        (auto simp: es' es_add_state es_add_fail nth_append)
    with wired_add_other [OF w ok] l show ?thesis
      by (simp add: OpAdd es' polled_at_def)
  next
    case (OpFire e dat)
    then have "es' = es_fire fire_view e dat es"
      using d by (simp add: es_do_def)
    then show ?thesis
      using w r wired_count [OF w ok, of e]
      by (simp add: OpFire es_fire_def wired_heap fold_deliver_events fold_deliver_ts polled_at_def)
  next
    case (OpPoll now i)
    show ?thesis
    proof (cases "map_of (subs es) i")
      case None
      with d have "i \<noteq> subId" "es' = es"
        using wired_sub [OF w] by (auto simp: OpPoll es_do_def es_poll_state)
      with w show ?thesis by (simp add: OpPoll polled_at_def)
    next
      case (Some r')
      then have es': "es' = es\<lparr> heap := (heap es)[r' := (heap es ! r')\<lparr> ec_events := [], ec_ts := now \<rparr>] \<rparr>"
        and out: "out = ec_events (heap es ! r')"
        using d by (auto simp: OpPoll es_do_def es_poll_state)
      have "i = subId \<longleftrightarrow> r' = r"
        using wired_sub [OF w] wired_only [OF w, of i] Some by auto
      with w r show ?thesis
        by (auto simp: OpPoll es' out wired_heap nth_list_update polled_at_def)
    qed
  next
    case (OpRemove i)
    then have es': "es' = fst (es_remove i es)" and i: "i \<noteq> subId"
      using d l by (simp_all add: es_do_def)
    have "wired subId ev r (es\<lparr> subs := AList.delete i (subs es) \<rparr>)"
      using w i by (simp add: wired_def)
    with w show ?thesis
      by (cases "map_of (subs es) i") (simp_all add: OpRemove es' es_remove_def polled_at_def)
  next
    case (OpReap now)
    then have es': "es' = es_reap E now es" using d by (simp add: es_do_def)
    have "\<not> old_ref now es r" using l OpReap by (simp add: old_ref_def)
    with wired_reap [OF w ok] show ?thesis by (simp add: OpReap es' es_reap_def polled_at_def)
  qed
qed

lemma run_conserves:
  assumes "wired subId ev r es" "es_ok es" "kept_alive subId (ec_ts (heap es ! r)) ops"
    and "es_run E fire_view ops es = (es', outs)"
  shows "wired subId ev r es' \<and>
         polled_by subId outs @ ec_events (heap es' ! r) = ec_events (heap es ! r) @ fired ev ops"
  using assms
proof (induction ops arbitrary: es outs)
  case (Cons op ops)
  obtain es1 out where d: "es_do E fire_view op es = (es1, out)" by fastforce
  obtain outs' where r: "es_run E fire_view ops es1 = (es', outs')" and outs: "outs = (op, out) # outs'"
    using Cons.prems(4) d by (auto simp: Let_def split: prod.splits)
  have one: "wired subId ev r es1" "ec_ts (heap es1 ! r) = polled_at subId (ec_ts (heap es ! r)) op"
    "polled_by subId [(op, out)] @ ec_events (heap es1 ! r) = ec_events (heap es ! r) @ fired ev [op]"
    using do_conserves [OF Cons.prems(1,2) _ d] Cons.prems(3) by auto
  have alive: "kept_alive subId (ec_ts (heap es1 ! r)) ops" using Cons.prems(3) one(2) by simp
  have rest: "wired subId ev r es'"
    "polled_by subId outs' @ ec_events (heap es' ! r) = ec_events (heap es1 ! r) @ fired ev ops"
    using Cons.IH [OF one(1) _ alive r] es_ok_do [OF Cons.prems(2), of fire_view op] d
    by auto
  have "polled_by subId outs @ ec_events (heap es' ! r) =
        polled_by subId [(op, out)] @ polled_by subId outs' @ ec_events (heap es' ! r)"
    by (simp add: outs)
  also have "\<dots> = ec_events (heap es ! r) @ fired ev (op # ops)"
    using one(3) rest(2) by (metis append.assoc append_Nil2 fired.simps)
  finally show ?case using rest(1) by blast
qed simp

end

section \<open>Subscriptions on the node's event switch\<close>

definition es_after :: "es_op list \<Rightarrow> EventSwitch EventSubscriptions" where
  "es_after ops = fst (es_run newEvents FireEvent ops (NewEventSubscriptions EventSwitch_OnStart))"

lemma FireEvent_is_view: "FireEvent = (\<lambda>ev s. map snd (switch_view s ev))"
  by (simp add: fun_eq_iff FireEvent_view)

lemma es_ok_after: "evsw.es_ok (es_after ops)"
  unfolding es_after_def
  by (rule evsw.es_ok_run)
    (simp add: evsw.es_ok_def NewEventSubscriptions_def switch_view_def EventSwitch_OnStart_def
      switch_inv_OnStart [unfolded EventSwitch_OnStart_def])

text \<open>
  C24: Events are delivered once and in order while a subscription lasts: whatever happened before, from
  the moment a client subscribes to an event, and as long as the subscription is not removed and every
  round of the reaper comes at most the threshold after its last poll (so that it is not reaped), the events
  its polls returned followed by those still waiting in its cache are exactly the events fired for it, in
  the order they were fired. Other subscriptions, their polls, their removal and their reaping make no
  difference.
\<close>

theorem events_delivered_once:
  assumes "generateSubId rand = Ok subId" "kept_alive subId now ops"
  shows "let es1 = fst (es_add newEvents now rand ev (es_after ops0));
             (es2, outs) = es_run newEvents FireEvent ops es1
         in polled_by subId outs @ pending subId es2 = fired ev ops"
proof -
  define es where "es = es_after ops0"
  define es1 where "es1 = fst (es_add newEvents now rand ev es)"
  obtain es2 outs where run: "es_run newEvents FireEvent ops es1 = (es2, outs)" by fastforce
  have w: "evsw.wired subId ev (length (heap es)) es1" and ok: "evsw.es_ok es1"
    using evsw.wired_add [OF es_ok_after assms(1)] evsw.es_ok_add [OF es_ok_after]
    by (simp_all add: es1_def es_def)
  have "heap es1 ! length (heap es) = (newEventCache now)\<lparr> ec_subId := subId \<rparr>"
    using assms(1) by (simp add: es1_def es_add_state)
  then have e: "ec_events (heap es1 ! length (heap es)) = []" "ec_ts (heap es1 ! length (heap es)) = now"
    by (simp_all add: newEventCache_def)
  have alive: "kept_alive subId (ec_ts (heap es1 ! length (heap es))) ops" using assms(2) e(2) by simp
  have "evsw.wired subId ev (length (heap es)) es2"
    "polled_by subId outs @ ec_events (heap es2 ! length (heap es)) = fired ev ops"
    using evsw.run_conserves [OF w ok alive run [unfolded FireEvent_is_view]] e(1)
    by auto
  then show ?thesis
    using evsw.wired_sub [of subId ev "length (heap es)" es2]
    by (simp add: run pending_def flip: es_def es1_def)
qed

theorem events_delivered_once_witness:
  "let es1 = fst (es_add newEvents 0 (Ok [1]) ''NewBlock'' (es_after []));
       (es2, outs) = es_run newEvents FireEvent
         [OpFire ''NewBlock'' (EvNewBlock None), OpReap 5000000000, OpPoll 9000000000 ''01'', OpReap 12000000000,
          OpFire ''Bond'' (EvNewBlock None), OpFire ''NewBlock'' (EvNewBlock None)] es1
   in polled_by ''01'' outs @ pending ''01'' es2 = [EvNewBlock None, EvNewBlock None]"
proof -
  have "generateSubId (Ok [1]) = Ok ''01''"
    by code_simp
  from events_delivered_once [OF this, of 0
      "[OpFire ''NewBlock'' (EvNewBlock None), OpReap 5000000000, OpPoll 9000000000 ''01'', OpReap 12000000000,
        OpFire ''Bond'' (EvNewBlock None), OpFire ''NewBlock'' (EvNewBlock None)]" "''NewBlock''" "[]"]
  show ?thesis by (simp add: polled_at_def reaperThreshold_def)
qed

text \<open>
  A round of the reaper ends exactly the subscriptions that have not been polled for longer
  than the threshold: they disappear from the map and their listeners from the event switch, and
  every other subscription and listener stays as it was.
\<close>

theorem reap_ends_stale_subscriptions:
  "let es = es_after ops;
       stale = (\<lambda>i. case map_of (subs es) i of
                      None \<Rightarrow> False
                    | Some r \<Rightarrow> now - ec_ts (heap es ! r) > reaperThreshold)
   in map_of (subs (es_reap newEvents now es)) i = (if stale i then None else map_of (subs es) i) \<and>
      map_of (switch_view (eventEmitter (es_reap newEvents now es)) ev) i =
        (if stale i then None else map_of (switch_view (eventEmitter es) ev) i) \<and>
      heap (es_reap newEvents now es) = heap es"
  using evsw.reap_exact(1) [OF es_ok_after [of ops], of now i]
    evsw.reap_exact(2) [OF es_ok_after [of ops], of now ev i]
  by (auto simp: Let_def evsw.old_ref_def es_reap_def split: option.splits)

text \<open>
  Removing a subscription leaves its listener behind: the client is told that the subscription
  is not active, but the event switch still calls its closure for every event, and no later round
  of the reaper takes it out, so the cache it appends to grows for ever.
\<close>

theorem remove_leaves_listener:
  assumes "generateSubId rand = Ok subId"
  shows "let es = es_after ops;
             es1 = fst (es_add newEvents now rand ev es);
             es2 = fst (es_remove subId es1)
         in snd (es_poll now' subId es2) = Err (not_active subId) \<and>
            ToCache (length (heap es)) \<in> set (FireEvent ev (eventEmitter (es_reap newEvents now' es2)))"
proof -
  define es where "es = es_after ops"
  define es1 where "es1 = fst (es_add newEvents now rand ev es)"
  define es2 where "es2 = fst (es_remove subId es1)"
  have ok1: "evsw.es_ok es1" and w: "evsw.wired subId ev (length (heap es)) es1"
    using evsw.wired_add [OF es_ok_after assms] evsw.es_ok_add [OF es_ok_after]
    by (simp_all add: es1_def es_def)
  have es2: "es2 = es1\<lparr> subs := AList.delete subId (subs es1) \<rparr>"
    using evsw.wired_sub [OF w] by (simp add: es2_def es_remove_def)
  have "evsw.es_ok es2"
    using ok1 by (auto simp: evsw.es_ok_def es2 split: if_splits)
  from evsw.reap_exact(2) [OF this, of now' ev subId] w
  have "map_of (switch_view (eventEmitter (es_reap newEvents now' es2)) ev) subId =
        Some (ToCache (length (heap es)))"
    by (simp add: es2 evsw.wired_def)
  then have "ToCache (length (heap es)) \<in> set (FireEvent ev (eventEmitter (es_reap newEvents now' es2)))"
    by (force simp: FireEvent_view dest: map_of_SomeD)
  moreover have "snd (es_poll now' subId es2) = Err (not_active subId)"
    by (simp add: es2 es_poll_def)
  ultimately show ?thesis
    by (simp add: Let_def flip: es_def es1_def es2_def)
qed

theorem remove_leaves_listener_witness:
  "let es = es_after [];
       es1 = fst (es_add newEvents 0 (Ok [1]) ''NewBlock'' es);
       es2 = fst (es_remove ''01'' es1)
   in snd (es_poll 5 ''01'' es2) = Err (not_active ''01'') \<and>
      ToCache (length (heap es)) \<in> set (FireEvent ''NewBlock'' (eventEmitter (es_reap newEvents 5 es2)))"
  by (rule remove_leaves_listener) code_simp

text \<open>Subscription ids are upper-case hexadecimal, twice as long as the random bytes, and as unique.\<close>

lemma generateSubId_fmt_X: "generateSubId (Ok b) = Ok (fmt_X b)"
  by (simp add: generateSubId_def fmt_X_def)

lemma generateSubId_inject: "generateSubId (Ok a) = generateSubId (Ok b) \<Longrightarrow> a = b"
  by (metis generateSubId_fmt_X DecodeString_fmt_X option.inject outcome.inject(1))

end
