(* ===== verification/Transactor.thy ===== *)
theory Transactor
  imports Accounts Mempool Event_Switch
begin

text \<open>
  Making, signing and broadcasting transactions (\<open>erisdb/pipe/transactor.go\<close>). The environment
  \<open>tx_env\<close> collects what the transactor is given: the codecs, keys and virtual machine of the ledger
  and the chain id of the configuration. The state is the mempool, and the event switch for the
  operations that wait. The mutex \<open>txMtx\<close> makes each operation on the mempool one step.
\<close>

section \<open>Data\<close>

record tx_env =
  te_exec :: exec_env
  chain_id :: string

abbreviation wire :: "tx_env \<Rightarrow> wire_env" where
  "wire T \<equiv> ex_wire (te_exec T)"

record Receipt =
  TxHash :: bytes
  CreatesContract :: byte
  ContractAddr :: bytes

record Call =
  Return :: string
  GasUsed :: int

definition key_length_error :: "bytes \<Rightarrow> string" where
  "key_length_error privKey =
     ''Private key is not of the right length: '' @ show_nat (length privKey) @ [CHR 0x0A]"

section \<open>Running code without a transaction\<close>

definition toVMAccount :: "Account \<Rightarrow> VMAccount outcome" where
  "toVMAccount acc =
     obind (LeftPadWord256 (acc_Address acc)) (\<lambda>addr.
     Ok \<lparr> vm_Address = addr, vm_Balance = acc_Balance acc, vm_Code = acc_Code acc,
          vm_Nonce = acc_Sequence acc, vm_Other = PubKeyOther (acc_PubKey acc),
          vm_Permissions = ZeroAccountPermissions \<rparr>)"

definition bare_account :: "bytes \<Rightarrow> VMAccount outcome" where
  "bare_account address =
     obind (LeftPadWord256 address) (\<lambda>addr.
     Ok \<lparr> vm_Address = addr, vm_Balance = 0, vm_Code = [], vm_Nonce = 0, vm_Other = NoOther,
          vm_Permissions = ZeroAccountPermissions \<rparr>)"

definition block_params :: "State \<Rightarrow> vm_Params outcome" where
  "block_params st =
     obind (LeftPadWord256 (LastBlockHash st)) (\<lambda>h.
     Ok \<lparr> vm_BlockHeight = LastBlockHeight st, BlockHash = h, BlockTime = Unix (LastBlockTime st),
          GasLimit = 10000000 \<rparr>)"

text \<open>
  \<open>Call\<close> gives the machine the event switch, so the events of the run are part of its result;
  \<open>CallCode\<close> gives it none, so it fires nothing. \<open>Call\<close> runs on a new cache over the consensus state;
  \<open>CallCode\<close> runs on the mempool's cache, which remembers what was read.
\<close>

definition call_result :: "bytes outcome \<Rightarrow> Call outcome" where
  "call_result r = obind r (\<lambda>ret. Ok \<lparr> Return = EncodeToString ret, GasUsed = 0 \<rparr>)"

definition transactor_Call ::
  "tx_env \<Rightarrow> State \<Rightarrow> bytes \<Rightarrow> bytes \<Rightarrow> bytes \<Rightarrow> fired \<times> Call outcome" where
  "transactor_Call T st fromAddress toAddress data =
     (case bc_GetAccount toAddress (NewBlockCache st) of
        (None, cache) \<Rightarrow> ([], Err (''Account '' @ fmt_X toAddress @ '' does not exist''))
      | (Some outAcc, cache) \<Rightarrow>
          (case obind (toVMAccount outAcc) (\<lambda>callee.
                obind (bare_account fromAddress) (\<lambda>caller.
                obind (block_params st) (\<lambda>params. Ok (callee, caller, params)))) of
             Ok (callee, caller, params) \<Rightarrow>
               (let (r1, t) = tc_new callee (NewTxCache cache); (r2, t) = tc_new caller t in
                map_prod (\<lambda>evs. evs) call_result
                  (snd (vm_Run (te_exec T) params (vm_Address caller) [] True r2 r1 (vm_Code callee) data
                          0 1000000000 t)))
           | Err e \<Rightarrow> ([], Err e)
           | Panic e \<Rightarrow> ([], Panic e)))"

definition CallCode ::
  "tx_env \<Rightarrow> State \<Rightarrow> Mempool \<Rightarrow> bytes \<Rightarrow> bytes \<Rightarrow> bytes \<Rightarrow> Mempool \<times> Call outcome" where
  "CallCode T st mem fromAddress code data =
     (case obind (bare_account fromAddress) (\<lambda>callee.
           obind (bare_account fromAddress) (\<lambda>caller.
           obind (block_params st) (\<lambda>params. Ok (callee, caller, params)))) of
        Ok (callee, caller, params) \<Rightarrow>
          (let (r1, t) = tc_new callee (NewTxCache (mem_cache mem)); (r2, t) = tc_new caller t in
           case vm_Run (te_exec T) params (vm_Address caller) [] False r2 r1 code data 0 1000000000 t of
             (t, _, r) \<Rightarrow> (mem\<lparr> mem_cache := tc_backend t \<rparr>, call_result r))
      | Err e \<Rightarrow> (mem, Err e)
      | Panic e \<Rightarrow> (mem, Panic e))"

section \<open>Signing\<close>

fun check_privs :: "nat \<Rightarrow> PrivAccount option list \<Rightarrow> PrivAccount list outcome" where
  "check_privs i [] = Ok []"
| "check_privs i (p # ps) =
     (case p of
        None \<Rightarrow> Err (''Invalid (empty) privAccount @'' @ show_nat i)
      | Some pa \<Rightarrow>
          (if pa_PrivKey pa = None then Err (''Invalid (empty) privAccount @'' @ show_nat i)
           else obind (check_privs (Suc i) ps) (\<lambda>pas. Ok (pa # pas))))"

definition nth_priv :: "PrivAccount list \<Rightarrow> nat \<Rightarrow> PrivAccount outcome" where
  "nth_priv pas i = (if i < length pas then Ok (pas ! i) else Panic ''index out of range'')"

text \<open>Set the public key of input \<open>i\<close>, sign the transaction as it then is, store the signature.\<close>

definition set_key :: "PrivAccount \<Rightarrow> TxInput \<Rightarrow> TxInput" where
  "set_key pa input = input\<lparr> in_PubKey := pa_PubKey pa \<rparr>"

definition sign_input ::
  "wire_env \<Rightarrow> string \<Rightarrow> PrivAccount list \<Rightarrow> nat \<Rightarrow> ('t \<Rightarrow> TxInput option list) \<Rightarrow>
   (TxInput option list \<Rightarrow> 't \<Rightarrow> 't) \<Rightarrow> ('t \<Rightarrow> Tx) \<Rightarrow> nat \<Rightarrow> 't \<Rightarrow> 't outcome" where
  "sign_input W chainId pas off ins set_ins wrap i tx =
     obind (deref (ins tx ! i)) (\<lambda>input.
     obind (nth_priv pas (i + off)) (\<lambda>pa.
       let tx1 = set_ins ((ins tx)[i := Some (set_key pa input)]) tx in
       obind (PrivAccount_Sign W chainId pa (wrap tx1)) (\<lambda>sig.
       Ok (set_ins ((ins tx)[i := Some ((set_key pa input)\<lparr> in_Signature := Some sig \<rparr>)]) tx))))"

fun sign_loop :: "(nat \<Rightarrow> 't \<Rightarrow> 't outcome) \<Rightarrow> nat list \<Rightarrow> 't \<Rightarrow> 't outcome" where
  "sign_loop f [] tx = Ok tx"
| "sign_loop f (i # is) tx = obind (f i tx) (sign_loop f is)"

definition sign_single ::
  "wire_env \<Rightarrow> string \<Rightarrow> PrivAccount list \<Rightarrow> TxInput option \<Rightarrow> (TxInput \<Rightarrow> Tx) \<Rightarrow> Tx outcome" where
  "sign_single W chainId pas input rebuild =
     obind (deref input) (\<lambda>inp.
     obind (nth_priv pas 0) (\<lambda>pa.
     obind (PrivAccount_Sign W chainId pa (rebuild (set_key pa inp))) (\<lambda>sig.
     Ok (rebuild ((set_key pa inp)\<lparr> in_Signature := Some sig \<rparr>)))))"

definition SignTx :: "wire_env \<Rightarrow> string \<Rightarrow> Tx \<Rightarrow> PrivAccount option list \<Rightarrow> Tx outcome" where
  "SignTx W chainId tx privAccounts =
     obind (check_privs 0 privAccounts) (\<lambda>pas.
       (case tx of
          TxName t \<Rightarrow> sign_single W chainId pas (name_Input t) (\<lambda>i. TxName (t\<lparr> name_Input := Some i \<rparr>))
        | TxSend t \<Rightarrow>
            obind (sign_loop
                (sign_input W chainId pas 0 send_Inputs (\<lambda>ins t. t\<lparr> send_Inputs := ins \<rparr>) TxSend)
                [0..<length (send_Inputs t)] t)
              (\<lambda>t'. Ok (TxSend t'))
        | TxCall t \<Rightarrow> sign_single W chainId pas (call_Input t) (\<lambda>i. TxCall (t\<lparr> call_Input := Some i \<rparr>))
        | TxBond t \<Rightarrow>
            obind (nth_priv pas 0) (\<lambda>pa.
            obind (PrivAccount_Sign W chainId pa tx) (\<lambda>sig.
            obind (sign_loop
                (sign_input W chainId pas 1 bond_Inputs (\<lambda>ins t. t\<lparr> bond_Inputs := ins \<rparr>) TxBond)
                [0..<length (bond_Inputs t)] (t\<lparr> bond_Signature := sig \<rparr>))
              (\<lambda>t'. Ok (TxBond t'))))
        | TxUnbond t \<Rightarrow>
            obind (nth_priv pas 0) (\<lambda>pa.
            obind (PrivAccount_Sign W chainId pa tx) (\<lambda>sig. Ok (TxUnbond (t\<lparr> unbond_Signature := sig \<rparr>))))
        | TxRebond t \<Rightarrow>
            obind (nth_priv pas 0) (\<lambda>pa.
            obind (PrivAccount_Sign W chainId pa tx) (\<lambda>sig. Ok (TxRebond (t\<lparr> rebond_Signature := sig \<rparr>))))
        | TxDupeout t \<Rightarrow> Err ''Object is not a proper transaction''
        | TxPermissions t \<Rightarrow> Err ''Object is not a proper transaction''))"

section \<open>Broadcasting\<close>

definition contract_of :: "wire_env \<Rightarrow> Tx \<Rightarrow> (byte \<times> bytes) outcome" where
  "contract_of W tx =
     (case tx of
        TxCall t \<Rightarrow>
          (if length (call_Address t) = 0
           then obind (deref (call_Input t)) (\<lambda>i.
                  Ok (1, NewContractAddress W (in_Address i) (in_Sequence i)))
           else Ok (0, []))
      | _ \<Rightarrow> Ok (0, []))"

definition BroadcastTx :: "tx_env \<Rightarrow> Tx \<Rightarrow> Mempool \<Rightarrow> Mempool \<times> Receipt outcome" where
  "BroadcastTx T tx mem =
     (case AddTx (te_exec T) tx mem of
        (mem', Err e) \<Rightarrow> (mem', Err (''Error broadcasting transaction: '' @ e))
      | (mem', Panic e) \<Rightarrow> (mem', Panic e)
      | (mem', Ok _) \<Rightarrow>
          (mem', obind (TxID (wire T) (chain_id T) tx) (\<lambda>txHash.
                 obind (contract_of (wire T) tx) (\<lambda>(creates, addr).
                 Ok \<lparr> TxHash = txHash, CreatesContract = creates, ContractAddr = addr \<rparr>))))"

definition UnconfirmedTxs :: "Mempool \<Rightarrow> Tx list" where
  "UnconfirmedTxs mem = GetProposalTxs mem"

definition sign_and_broadcast ::
  "tx_env \<Rightarrow> PrivAccount \<Rightarrow> Tx \<Rightarrow> Mempool \<Rightarrow> Mempool \<times> Receipt outcome" where
  "sign_and_broadcast T pa tx mem =
     (case SignTx (wire T) (chain_id T) tx [Some pa] of
        Err e \<Rightarrow> (mem, Err e)
      | Panic e \<Rightarrow> (mem, Panic e)
      | Ok txS \<Rightarrow> BroadcastTx T txS mem)"

definition next_sequence :: "bytes \<Rightarrow> Mempool \<Rightarrow> int \<times> Mempool" where
  "next_sequence address mem =
     (case bc_GetAccount address (mem_cache mem) of
        (None, cache) \<Rightarrow> (1, mem\<lparr> mem_cache := cache \<rparr>)
      | (Some acc, cache) \<Rightarrow> (wrap64 (acc_Sequence acc + 1), mem\<lparr> mem_cache := cache \<rparr>))"

definition with_account ::
  "tx_env \<Rightarrow> bytes \<Rightarrow> Mempool \<Rightarrow> (PrivAccount \<Rightarrow> Mempool \<times> 'r outcome) \<Rightarrow>
   Mempool \<times> 'r outcome" where
  "with_account T privKey mem k =
     (case GenPrivAccountFromPrivKeyBytes (wire T) privKey of
        Ok pa \<Rightarrow> k pa
      | Err e \<Rightarrow> (mem, Err e)
      | Panic e \<Rightarrow> (mem, Panic e))"

definition Transact ::
  "tx_env \<Rightarrow> bytes \<Rightarrow> bytes \<Rightarrow> bytes \<Rightarrow> int \<Rightarrow> int \<Rightarrow> Mempool \<Rightarrow> Mempool \<times> Receipt outcome" where
  "Transact T privKey address data gasLimit fee mem =
     (if length address \<noteq> 0 \<and> length address \<noteq> 20
      then (mem, Err (''Address is not of the right length: '' @ show_nat (length address) @ [CHR 0x0A]))
      else if length privKey \<noteq> 64 then (mem, Err (key_length_error privKey))
      else with_account T privKey mem (\<lambda>pa.
        let (seq, mem) = next_sequence (pa_Address pa) mem in
        sign_and_broadcast T pa
          (TxCall \<lparr> call_Input = Some \<lparr> in_Address = pa_Address pa, in_Amount = 1,
                      in_Sequence = seq, in_Signature = None,
                      in_PubKey = pa_PubKey pa \<rparr>,
                    call_Address = address, call_GasLimit = gasLimit, call_Fee = fee,
                    call_Data = data \<rparr>) mem))"

definition Send :: "tx_env \<Rightarrow> bytes \<Rightarrow> bytes \<Rightarrow> int \<Rightarrow> Mempool \<Rightarrow> Mempool \<times> Receipt outcome" where
  "Send T privKey toAddress amount mem =
     (if length toAddress \<noteq> 0 \<and> length toAddress \<noteq> 20
      then (mem, Err (''To-address is not of the right length: '' @ show_nat (length toAddress) @ [CHR 0x0A]))
      else if length privKey \<noteq> 64 then (mem, Err (key_length_error privKey))
      else with_account T privKey mem (\<lambda>pa.
        let (seq, mem) = next_sequence (pa_Address pa) mem in
        sign_and_broadcast T pa
          (TxSend \<lparr> send_Inputs = [Some \<lparr> in_Address = pa_Address pa, in_Amount = amount,
                      in_Sequence = seq, in_Signature = None,
                      in_PubKey = pa_PubKey pa \<rparr>],
                    send_Outputs = [Some \<lparr> out_Address = toAddress, out_Amount = amount \<rparr>] \<rparr>) mem))"

definition TransactNameReg ::
  "tx_env \<Rightarrow> bytes \<Rightarrow> string \<Rightarrow> string \<Rightarrow> int \<Rightarrow> int \<Rightarrow> Mempool \<Rightarrow> Mempool \<times> Receipt outcome" where
  "TransactNameReg T privKey name data amount fee mem =
     (if length privKey \<noteq> 64 then (mem, Err (key_length_error privKey))
      else with_account T privKey mem (\<lambda>pa.
        (case pa_PubKey pa of
           None \<Rightarrow> (mem, Panic ''nil pointer dereference'')
         | Some pub \<Rightarrow>
             (let (seq, mem) = next_sequence (pa_Address pa) mem in
              sign_and_broadcast T pa (TxName (NewNameTxWithNonce (wire T) pub name data amount fee seq)) mem))))"

section \<open>Waiting for the transaction\<close>

text \<open>
  The waiting operations subscribe to an event of an account and wait for the channel that the
  callback sends on, or for a timer of 300 seconds. \<open>arrivals\<close> are the events fired for that
  subscription before the timer; an event of another type makes the callback panic.
\<close>

fun first_call :: "bytes \<Rightarrow> EventData list \<Rightarrow> EventDataCall option outcome" where
  "first_call txHash [] = Ok None"
| "first_call txHash (EvCall e # es) = (if edc_TxID e = txHash then Ok (Some e) else first_call txHash es)"
| "first_call txHash (EvNewBlock b # es) = Panic ''interface conversion''"
| "first_call txHash (EvRoundState r # es) = Panic ''interface conversion''"
| "first_call txHash (EvTx t # es) = Panic ''interface conversion''"
| "first_call txHash (EvLog l # es) = Panic ''interface conversion''"
| "first_call txHash (EvVote v # es) = Panic ''interface conversion''"

definition TransactAndHold ::
  "tx_env \<Rightarrow> nat \<Rightarrow> EventData list \<Rightarrow> bytes \<Rightarrow> bytes \<Rightarrow> bytes \<Rightarrow> int \<Rightarrow> int \<Rightarrow>
   Mempool \<times> EventSwitch \<Rightarrow> (Mempool \<times> EventSwitch) \<times> EventDataCall outcome" where
  "TransactAndHold T wc arrivals privKey address data gasLimit fee st =
     (case Transact T privKey address data gasLimit fee (fst st) of
        (mem, Err e) \<Rightarrow> ((mem, snd st), Err e)
      | (mem, Panic e) \<Rightarrow> ((mem, snd st), Panic e)
      | (mem, Ok rec) \<Rightarrow>
          (let addr = (if CreatesContract rec = 1 then ContractAddr rec else address);
               subId = fmt_X (TxHash rec);
               evsw = fst (events_Subscribe subId (EventStringAccCall addr) (ToChan wc) (snd st));
               res = (case first_call (TxHash rec) arrivals of
                        Ok None \<Rightarrow> Err (''Transaction timed out. Hash: '' @ subId)
                      | Ok (Some e) \<Rightarrow>
                          (if edc_Exception e \<noteq> [] then Err (''Error when transacting: '' @ edc_Exception e)
                           else Ok e)
                      | Err e \<Rightarrow> Err e
                      | Panic e \<Rightarrow> Panic e)
           in ((mem, fst (events_Unsubscribe subId evsw)), res)))"

fun first_send :: "EventData list \<Rightarrow> SendTx option outcome" where
  "first_send [] = Ok None"
| "first_send (EvTx e # es) =
     (case edt_Tx e of TxSend t \<Rightarrow> Ok (Some t) | _ \<Rightarrow> Panic ''interface conversion'')"
| "first_send (EvNewBlock b # es) = Panic ''interface conversion''"
| "first_send (EvRoundState r # es) = Panic ''interface conversion''"
| "first_send (EvCall c # es) = Panic ''interface conversion''"
| "first_send (EvLog l # es) = Panic ''interface conversion''"
| "first_send (EvVote v # es) = Panic ''interface conversion''"

definition sent_by :: "bytes \<Rightarrow> int \<Rightarrow> SendTx \<Rightarrow> bool outcome" where
  "sent_by address amount t =
     (case send_Inputs t of
        [] \<Rightarrow> Panic ''index out of range''
      | p # _ \<Rightarrow> obind (deref p) (\<lambda>i. Ok (in_Address i = address \<and> in_Amount i = amount)))"

text \<open>A nil receipt with a nil error is \<open>Ok None\<close>.\<close>

definition SendAndHold ::
  "tx_env \<Rightarrow> nat \<Rightarrow> EventData list \<Rightarrow> bytes \<Rightarrow> bytes \<Rightarrow> int \<Rightarrow>
   Mempool \<times> EventSwitch \<Rightarrow> (Mempool \<times> EventSwitch) \<times> Receipt option outcome" where
  "SendAndHold T wc arrivals privKey toAddress amount st =
     (case Send T privKey toAddress amount (fst st) of
        (mem, Err e) \<Rightarrow> ((mem, snd st), Err e)
      | (mem, Panic e) \<Rightarrow> ((mem, snd st), Panic e)
      | (mem, Ok rec) \<Rightarrow>
          (let subId = fmt_X (TxHash rec);
               evsw = fst (events_Subscribe subId (EventStringAccOutput toAddress) (ToChan wc) (snd st))
           in case GenPrivAccountFromPrivKeyBytes (wire T) privKey of
                Err e \<Rightarrow> ((mem, evsw), Err e)
              | Panic e \<Rightarrow> ((mem, evsw), Panic e)
              | Ok pa \<Rightarrow>
                  (case first_send arrivals of
                     Ok None \<Rightarrow> ((mem, evsw), Err (''Transaction timed out. Hash: '' @ subId))
                   | Err e \<Rightarrow> ((mem, evsw), Err e)
                   | Panic e \<Rightarrow> ((mem, evsw), Panic e)
                   | Ok (Some t) \<Rightarrow>
                       (case sent_by (pa_Address pa) amount t of
                          Ok True \<Rightarrow> ((mem, fst (events_Unsubscribe subId evsw)), Ok (Some rec))
                        | Ok False \<Rightarrow> ((mem, evsw), Ok None)
                        | Err e \<Rightarrow> ((mem, evsw), Err e)
                        | Panic e \<Rightarrow> ((mem, evsw), Panic e)))))"

section \<open>What signing does\<close>

text \<open>
  The law of Ed25519 the program relies on, for private keys that hold their public key in the
  second half, as \<open>GenPrivAccountFromPrivKeyBytes\<close> makes them.
\<close>

definition ed25519_ok :: "wire_env \<Rightarrow> bool" where
  "ed25519_ok W \<longleftrightarrow>
     (\<forall>seed msg. length seed = 32 \<longrightarrow>
        ed25519_Verify W (MakePublicKey W seed) msg (ed25519_Sign W (seed @ MakePublicKey W seed) msg))"

definition key_pair :: "wire_env \<Rightarrow> PrivAccount \<Rightarrow> bool" where
  "key_pair W pa \<longleftrightarrow>
     (\<exists>seed. length seed = 32 \<and> pa_PubKey pa = Some (MakePublicKey W seed) \<and>
        pa_PrivKey pa = Some (seed @ MakePublicKey W seed))"

definition input_signed :: "wire_env \<Rightarrow> string \<Rightarrow> TxInput \<Rightarrow> bool" where
  "input_signed W s i \<longleftrightarrow>
     (case (in_PubKey i, in_Signature i) of
        (Some p, Some g) \<Rightarrow> ed25519_Verify W p s g
      | _ \<Rightarrow> False)"

lemma key_pair_generated: "GenPrivAccountFromPrivKeyBytes W key = Ok pa \<Longrightarrow> key_pair W pa"
  by (auto simp: GenPrivAccountFromPrivKeyBytes_def key_pair_def Let_def split: if_splits
      intro!: exI [of _ "take 32 key"])

text \<open>
  What signing does to an input: it gets the public key of the account and the account's signature of
  the bytes. When the keys of the account belong together, the signature verifies.
\<close>

definition signed_by :: "wire_env \<Rightarrow> string \<Rightarrow> PrivAccount \<Rightarrow> TxInput \<Rightarrow> TxInput \<Rightarrow> bool" where
  "signed_by W s pa old new \<longleftrightarrow>
     sign_core new = sign_core old \<and> in_PubKey new = pa_PubKey pa \<and>
     (\<exists>key. pa_PrivKey pa = Some key \<and> in_Signature new = Some (ed25519_Sign W key s))"

lemma signed_by_key:
  "PrivAccount_Sign W c pa tx = Ok sig \<Longrightarrow> SignBytes W c tx = Ok s \<Longrightarrow>
   signed_by W s pa i ((set_key pa i)\<lparr> in_Signature := Some sig \<rparr>)"
  by (auto simp: PrivAccount_Sign_def signed_by_def set_key_def sign_core_def deref_def obind_eq_Ok split: option.splits)

lemma signed_by_verifies: "signed_by W s pa j i \<Longrightarrow> key_pair W pa \<Longrightarrow> ed25519_ok W \<Longrightarrow> input_signed W s i"
  by (auto simp: signed_by_def input_signed_def key_pair_def ed25519_ok_def)

text \<open>Input \<open>i\<close> was signed by the account at \<open>i + off\<close>.\<close>

definition input_by :: "wire_env \<Rightarrow> string \<Rightarrow> PrivAccount list \<Rightarrow> nat \<Rightarrow> TxInput option list \<Rightarrow> TxInput option list \<Rightarrow> nat \<Rightarrow> bool" where
  "input_by W s pas off old new i \<longleftrightarrow>
     i + off < length pas \<and> (\<exists>j inp. old ! i = Some j \<and> new ! i = Some inp \<and> signed_by W s (pas ! (i + off)) j inp)"

text \<open>
  Transactions with a list of inputs: replacing inputs by inputs of the same address, amount and
  sequence does not change the signed bytes.
\<close>

locale signable_inputs =
  fixes ins :: "'t \<Rightarrow> TxInput option list"
    and set_ins :: "TxInput option list \<Rightarrow> 't \<Rightarrow> 't"
    and wrap :: "'t \<Rightarrow> Tx"
  assumes ins_set [simp]: "ins (set_ins xs t) = xs"
    and bytes_core: "map (map_option sign_core) xs = map (map_option sign_core) (ins t) \<Longrightarrow>
           SignBytes W c (wrap (set_ins xs t)) = SignBytes W c (wrap t)"
begin

lemma replaced_core:
  "ins t ! i = Some inp \<Longrightarrow> sign_core inp' = sign_core inp \<Longrightarrow>
   map (map_option sign_core) ((ins t)[i := Some inp']) = map (map_option sign_core) (ins t)"
  by (simp add: map_update list_update_same_conv)
    (metis list_update_id map_update option.map(2))

lemma sign_input_bytes:
  assumes "sign_input W c pas off ins set_ins wrap i t = Ok t'"
  shows "\<exists>s. SignBytes W c (wrap t) = Ok s"
proof -
  obtain inp pa sig where inp: "ins t ! i = Some inp"
    and sig: "PrivAccount_Sign W c pa (wrap (set_ins ((ins t)[i := Some (set_key pa inp)]) t)) = Ok sig"
    using assms by (auto simp: sign_input_def obind_eq_Ok Let_def deref_def split: option.splits)
  have "sign_core (set_key pa inp) = sign_core inp"
    by (simp add: set_key_def)
  with sig bytes_core [OF replaced_core [OF inp this]] show ?thesis
    by (auto simp: PrivAccount_Sign_def obind_eq_Ok)
qed

lemma sign_input_effect:
  assumes "sign_input W c pas off ins set_ins wrap i t = Ok t'" "SignBytes W c (wrap t) = Ok s"
  shows "SignBytes W c (wrap t') = Ok s \<and> i + off < length pas \<and>
         (\<exists>j inp. ins t ! i = Some j \<and> ins t' = (ins t)[i := Some inp] \<and> signed_by W s (pas ! (i + off)) j inp)"
proof -
  obtain inp pa sig where inp: "ins t ! i = Some inp" and pa: "nth_priv pas (i + off) = Ok pa"
    and sig: "PrivAccount_Sign W c pa (wrap (set_ins ((ins t)[i := Some (set_key pa inp)]) t)) = Ok sig"
    and t': "t' = set_ins ((ins t)[i := Some ((set_key pa inp)\<lparr> in_Signature := Some sig \<rparr>)]) t"
    using assms(1)
    by (auto simp: sign_input_def obind_eq_Ok Let_def deref_def split: option.splits)
  have core: "sign_core (set_key pa inp) = sign_core inp"
    "sign_core ((set_key pa inp)\<lparr> in_Signature := Some sig \<rparr>) = sign_core inp"
    by (simp_all add: set_key_def)
  have pas: "i + off < length pas" "pas ! (i + off) = pa" using pa by (auto simp: nth_priv_def split: if_splits)
  have "SignBytes W c (wrap (set_ins ((ins t)[i := Some (set_key pa inp)]) t)) = Ok s"
    using bytes_core [OF replaced_core [OF inp core(1)]] assms(2) by simp
  note signed_by_key [OF sig this, of inp]
  moreover have "SignBytes W c (wrap t') = Ok s"
    using bytes_core [OF replaced_core [OF inp core(2)]] assms(2) by (simp add: t')
  ultimately show ?thesis
    using inp pas by (auto simp: t')
qed

lemma sign_loop_effect:
  assumes "sign_loop (sign_input W c pas off ins set_ins wrap) is t = Ok t'"
    and "\<forall>i\<in>set is. i < length (ins t)" "distinct is" "SignBytes W c (wrap t) = Ok s"
  shows "SignBytes W c (wrap t') = Ok s \<and> length (ins t') = length (ins t) \<and>
         (\<forall>i. if i \<in> set is then input_by W s pas off (ins t) (ins t') i else ins t' ! i = ins t ! i)"
  using assms
proof (induction "is" arbitrary: t)
  case (Cons i "is")
  then obtain t1 where t1: "sign_input W c pas off ins set_ins wrap i t = Ok t1"
    and rest: "sign_loop (sign_input W c pas off ins set_ins wrap) is t1 = Ok t'"
    by (auto simp: obind_eq_Ok)
  obtain j inp where b: "SignBytes W c (wrap t1) = Ok s" and off: "i + off < length pas" and old: "ins t ! i = Some j"
    and new: "ins t1 = (ins t)[i := Some inp]" and by_: "signed_by W s (pas ! (i + off)) j inp"
    using sign_input_effect [OF t1 Cons.prems(4)] by auto
  have bounds: "\<forall>i\<in>set is. i < length (ins t1)" "distinct is" using Cons.prems(2,3) new by simp_all
  have IH: "SignBytes W c (wrap t') = Ok s" "length (ins t') = length (ins t1)"
    "\<And>k. if k \<in> set is then input_by W s pas off (ins t1) (ins t') k else ins t' ! k = ins t1 ! k"
    using Cons.IH [OF rest bounds b] by simp_all
  have "ins t' ! i = Some inp" using IH(3) [of i] Cons.prems(2,3) new by simp
  then have "input_by W s pas off (ins t) (ins t') i" using off old by_ by (simp add: input_by_def)
  moreover have "if k \<in> set is then input_by W s pas off (ins t) (ins t') k else ins t' ! k = ins t ! k" if "k \<noteq> i" for k
    using IH(3) [of k] that new by (auto simp: input_by_def split: if_splits)
  ultimately have "\<forall>k. if k \<in> set (i # is) then input_by W s pas off (ins t) (ins t') k else ins t' ! k = ins t ! k"
    by (metis set_ConsD list.set_intros)
  then show ?case
    using IH(1,2) new by simp
qed simp

lemma sign_loop_keeps:
  assumes "\<And>xs t. f (set_ins xs t) = f t"
  shows "sign_loop (sign_input W c pas off ins set_ins wrap) is t = Ok t' \<Longrightarrow> f t' = f t"
  using assms
  by (induction "is" arbitrary: t) (auto simp: obind_eq_Ok sign_input_def Let_def)

lemma sign_all_effect:
  assumes "sign_loop (sign_input W c pas off ins set_ins wrap) [0..<length (ins t)] t = Ok t'"
  shows "SignBytes W c (wrap t') = SignBytes W c (wrap t) \<and> length (ins t') = length (ins t) \<and>
         (\<forall>i<length (ins t). \<exists>s. SignBytes W c (wrap t) = Ok s \<and> input_by W s pas off (ins t) (ins t') i)"
proof (cases "ins t = []")
  case True
  then show ?thesis using assms by simp
next
  case False
  then have "[0..<length (ins t)] = 0 # [1..<length (ins t)]"
    by (simp add: upt_conv_Cons)
  then obtain t1 where "sign_input W c pas off ins set_ins wrap 0 t = Ok t1"
    using assms by (auto simp: obind_eq_Ok)
  then obtain s where s: "SignBytes W c (wrap t) = Ok s"
    using sign_input_bytes by blast
  from sign_loop_effect [OF assms _ _ s] s show ?thesis by auto
qed

end

lemma SendTx_core:
  assumes "map (map_option sign_core) xs = map (map_option sign_core) (send_Inputs t)"
  shows "SignBytes W c (TxSend (t\<lparr> send_Inputs := xs \<rparr>)) = SignBytes W c (TxSend t)"
  using write_list_core [OF assms] by (simp add: SendTx_WriteSignBytes_def)

lemma BondTx_core:
  assumes "map (map_option sign_core) xs = map (map_option sign_core) (bond_Inputs t)"
  shows "SignBytes W c (TxBond (t\<lparr> bond_Inputs := xs \<rparr>)) = SignBytes W c (TxBond t)"
  using write_list_core [OF assms] by (simp add: BondTx_WriteSignBytes_def)

interpretation send_inputs: signable_inputs send_Inputs "\<lambda>ins t. t\<lparr> send_Inputs := ins \<rparr>" TxSend
  by unfold_locales (simp, rule SendTx_core)

interpretation bond_inputs: signable_inputs bond_Inputs "\<lambda>ins t. t\<lparr> bond_Inputs := ins \<rparr>" TxBond
  by unfold_locales (simp, rule BondTx_core)

text \<open>The inputs of a transaction.\<close>

primrec tx_inputs :: "Tx \<Rightarrow> TxInput option list" where
  "tx_inputs (TxSend t) = send_Inputs t"
| "tx_inputs (TxCall t) = [call_Input t]"
| "tx_inputs (TxName t) = [name_Input t]"
| "tx_inputs (TxBond t) = bond_Inputs t"
| "tx_inputs (TxUnbond t) = []"
| "tx_inputs (TxRebond t) = []"
| "tx_inputs (TxDupeout t) = []"
| "tx_inputs (TxPermissions t) = [perm_Input t]"

definition all_signed :: "wire_env \<Rightarrow> string \<Rightarrow> Tx \<Rightarrow> bool" where
  "all_signed W s tx \<longleftrightarrow>
     list_all (\<lambda>p. case p of None \<Rightarrow> False | Some i \<Rightarrow> input_signed W s i) (tx_inputs tx)"

lemma check_privs_Some:
  "check_privs k (map Some pas) = Ok qas \<Longrightarrow> qas = pas"
  by (induction pas arbitrary: k qas) (auto simp: obind_eq_Ok split: if_splits)

text \<open>The first account of a bond signs the bond itself.\<close>

definition first_input_account :: "Tx \<Rightarrow> nat" where
  "first_input_account tx = (case tx of TxBond _ \<Rightarrow> 1 | _ \<Rightarrow> 0)"

primrec tx_signature :: "Tx \<Rightarrow> bytes option" where
  "tx_signature (TxSend t) = None"
| "tx_signature (TxCall t) = None"
| "tx_signature (TxName t) = None"
| "tx_signature (TxBond t) = Some (bond_Signature t)"
| "tx_signature (TxUnbond t) = Some (unbond_Signature t)"
| "tx_signature (TxRebond t) = Some (rebond_Signature t)"
| "tx_signature (TxDupeout t) = None"
| "tx_signature (TxPermissions t) = None"

definition signature_by :: "wire_env \<Rightarrow> string \<Rightarrow> PrivAccount list \<Rightarrow> bytes \<Rightarrow> bool" where
  "signature_by W s pas sg \<longleftrightarrow> pas \<noteq> [] \<and> (\<exists>key. pa_PrivKey (pas ! 0) = Some key \<and> sg = ed25519_Sign W key s)"

definition tx_signed :: "wire_env \<Rightarrow> string \<Rightarrow> PrivAccount list \<Rightarrow> Tx \<Rightarrow> Tx \<Rightarrow> bool" where
  "tx_signed W c pas tx tx' \<longleftrightarrow>
     SignBytes W c tx' = SignBytes W c tx \<and> length (tx_inputs tx') = length (tx_inputs tx) \<and>
     (\<forall>i<length (tx_inputs tx). \<exists>s. SignBytes W c tx = Ok s \<and>
        input_by W s pas (first_input_account tx) (tx_inputs tx) (tx_inputs tx') i) \<and>
     (\<forall>sg. tx_signature tx' = Some sg \<longrightarrow> (\<exists>s. SignBytes W c tx = Ok s \<and> signature_by W s pas sg))"

lemma sign_single_effect:
  assumes "sign_single W c pas input rebuild = Ok tx'"
    and core: "\<And>i j. sign_core i = sign_core j \<Longrightarrow> SignBytes W c (rebuild i) = SignBytes W c (rebuild j)"
    and inputs: "\<And>i. tx_inputs (rebuild i) = [Some i]" "tx_inputs tx = [input]" "\<And>i. tx_signature (rebuild i) = None"
    and orig: "\<And>i. input = Some i \<Longrightarrow> rebuild i = tx" "first_input_account tx = 0"
  shows "tx_signed W c pas tx tx'"
proof -
  obtain i pa sig where i: "input = Some i" and pa: "nth_priv pas 0 = Ok pa"
    and sig: "PrivAccount_Sign W c pa (rebuild (set_key pa i)) = Ok sig"
    and tx': "tx' = rebuild ((set_key pa i)\<lparr> in_Signature := Some sig \<rparr>)"
    using assms(1) by (auto simp: sign_single_def obind_eq_Ok deref_def split: option.splits)
  obtain s where s: "SignBytes W c (rebuild (set_key pa i)) = Ok s"
    using sig by (auto simp: PrivAccount_Sign_def obind_eq_Ok)
  have "SignBytes W c tx' = Ok s" "SignBytes W c (rebuild i) = Ok s"
    using s core [of "(set_key pa i)\<lparr> in_Signature := Some sig \<rparr>" "set_key pa i"] core [of i "set_key pa i"]
    by (simp_all add: tx' set_key_def)
  moreover have "0 < length pas" "pas ! 0 = pa" using pa by (auto simp: nth_priv_def split: if_splits)
  ultimately show ?thesis
    using signed_by_key [OF sig s, of i] orig(1) [OF i] orig(2) i inputs tx' by (simp add: tx_signed_def input_by_def)
qed

lemma SignTx_effect:
  assumes "SignTx W c tx (map Some pas) = Ok tx'"
  shows "tx_signed W c pas tx tx'"
proof -
  obtain qas where "check_privs 0 (map Some pas) = Ok qas"
    using assms by (auto simp: SignTx_def obind_eq_Ok)
  then have chk: "check_privs 0 (map Some pas) = Ok pas"
    using check_privs_Some by metis
  have own: "SignBytes W c u = Ok s \<and> signature_by W s pas sig" if "nth_priv pas 0 = Ok pa" "PrivAccount_Sign W c pa u = Ok sig"
    "SignBytes W c u = Ok s" for u pa sig s
    using that by (auto simp: PrivAccount_Sign_def nth_priv_def signature_by_def deref_def obind_eq_Ok split: option.splits if_splits)
  have bytes: "\<exists>s. SignBytes W c u = Ok s" if "PrivAccount_Sign W c pa u = Ok sig" for u pa sig
    using that by (auto simp: PrivAccount_Sign_def obind_eq_Ok)
  show ?thesis
  proof (cases tx)
    case (TxSend t)
    then obtain t' where l: "sign_loop
        (sign_input W c pas 0 send_Inputs (\<lambda>ins t. t\<lparr> send_Inputs := ins \<rparr>) TxSend)
        [0..<length (send_Inputs t)] t = Ok t'" and tx': "tx' = TxSend t'"
      using assms chk by (auto simp: SignTx_def obind_eq_Ok)
    from send_inputs.sign_all_effect [OF l] show ?thesis
      by (simp add: tx' TxSend tx_signed_def first_input_account_def del: SignBytes.simps)
  next
    case (TxBond t)
    then obtain pa sig t' where pa: "nth_priv pas 0 = Ok pa" "PrivAccount_Sign W c pa tx = Ok sig" and l: "sign_loop
        (sign_input W c pas 1 bond_Inputs (\<lambda>ins t. t\<lparr> bond_Inputs := ins \<rparr>) TxBond)
        [0..<length (bond_Inputs (t\<lparr> bond_Signature := sig \<rparr>))] (t\<lparr> bond_Signature := sig \<rparr>) = Ok t'"
      and tx': "tx' = TxBond t'"
      using assms chk by (auto simp: SignTx_def obind_eq_Ok)
    have same: "SignBytes W c (TxBond (t\<lparr> bond_Signature := sig \<rparr>)) = SignBytes W c (TxBond t)"
      by (simp add: BondTx_WriteSignBytes_def)
    have "bond_Signature t' = sig" using bond_inputs.sign_loop_keeps [OF _ l, of bond_Signature] by simp
    moreover obtain s where "SignBytes W c tx = Ok s" using bytes [OF pa(2)] by blast
    ultimately show ?thesis
      using bond_inputs.sign_all_effect [OF l] same own [OF pa]
      by (simp add: tx' TxBond tx_signed_def first_input_account_def del: SignBytes.simps)
  next
    case (TxCall t)
    let ?re = "\<lambda>i. TxCall (t\<lparr> call_Input := Some i \<rparr>)"
    have sg: "sign_single W c pas (call_Input t) ?re = Ok tx'"
      using assms chk by (simp add: SignTx_def TxCall)
    have core: "SignBytes W c (?re i) = SignBytes W c (?re j)" if "sign_core i = sign_core j" for i j
      using TxInput_WriteSignBytes_core [OF that] by (simp add: CallTx_WriteSignBytes_def deref_def)
    have orig: "?re i = tx" if "call_Input t = Some i" for i
      using that by (cases t) (simp add: TxCall)
    show ?thesis
      by (rule sign_single_effect [where rebuild = ?re, OF sg core _ _ _ orig]) (simp_all add: TxCall first_input_account_def)
  next
    case (TxName t)
    let ?re = "\<lambda>i. TxName (t\<lparr> name_Input := Some i \<rparr>)"
    have sg: "sign_single W c pas (name_Input t) ?re = Ok tx'"
      using assms chk by (simp add: SignTx_def TxName)
    have core: "SignBytes W c (?re i) = SignBytes W c (?re j)" if "sign_core i = sign_core j" for i j
      using TxInput_WriteSignBytes_core [OF that] by (simp add: NameTx_WriteSignBytes_def deref_def)
    have orig: "?re i = tx" if "name_Input t = Some i" for i
      using that by (cases t) (simp add: TxName)
    show ?thesis
      by (rule sign_single_effect [where rebuild = ?re, OF sg core _ _ _ orig]) (simp_all add: TxName first_input_account_def)
  next
    case (TxUnbond t)
    then obtain pa sig where pa: "nth_priv pas 0 = Ok pa" "PrivAccount_Sign W c pa tx = Ok sig"
      and tx': "tx' = TxUnbond (t\<lparr> unbond_Signature := sig \<rparr>)"
      using assms chk by (auto simp: SignTx_def obind_eq_Ok)
    obtain s where "SignBytes W c tx = Ok s" using bytes [OF pa(2)] by blast
    with own [OF pa this] show ?thesis
      by (simp add: tx' TxUnbond tx_signed_def)
  next
    case (TxRebond t)
    then obtain pa sig where pa: "nth_priv pas 0 = Ok pa" "PrivAccount_Sign W c pa tx = Ok sig"
      and tx': "tx' = TxRebond (t\<lparr> rebond_Signature := sig \<rparr>)"
      using assms chk by (auto simp: SignTx_def obind_eq_Ok)
    obtain s where "SignBytes W c tx = Ok s" using bytes [OF pa(2)] by blast
    with own [OF pa this] show ?thesis
      by (simp add: tx' TxRebond tx_signed_def)
  qed (use assms chk in \<open>simp_all add: SignTx_def\<close>)
qed

lemma SignTx_all_signed:
  assumes "SignTx W c tx (map Some pas) = Ok tx'" "list_all (key_pair W) pas" "ed25519_ok W" "SignBytes W c tx' = Ok s"
  shows "all_signed W s tx'"
  unfolding all_signed_def list_all_length
proof (intro allI impI)
  fix i assume "i < length (tx_inputs tx')"
  then have "input_by W s pas (first_input_account tx) (tx_inputs tx) (tx_inputs tx') i"
    using SignTx_effect [OF assms(1)] assms(4) by (auto simp: tx_signed_def)
  then obtain j inp pa where "tx_inputs tx' ! i = Some inp" "pa \<in> set pas" "signed_by W s pa j inp"
    unfolding input_by_def using nth_mem by blast
  then show "case tx_inputs tx' ! i of None \<Rightarrow> False | Some i \<Rightarrow> input_signed W s i"
    using assms(2,3) signed_by_verifies by (auto simp: list_all_iff)
qed

section \<open>Properties\<close>

text \<open>
  C27: Signing does not change the bytes that are signed, hence not the hash of the transaction. Afterwards
  input \<open>i\<close> keeps its address, amount and sequence number and carries the public key and the signature of
  account \<open>i\<close> (for a bond, of account \<open>i + 1\<close>; the bond itself, and an unbond and a rebond, are signed by
  the first account), over exactly these bytes. \<open>SignTx\<close> does not check that the two keys of an account belong
  together; when they do, the signature verifies (given Ed25519 verifies what it signs).
\<close>

theorem SignTx_verifies:
  assumes "SignTx W c tx (map Some pas) = Ok tx'" "ed25519_ok W"
  shows "SignBytes W c tx' = SignBytes W c tx \<and> TxID W c tx' = TxID W c tx \<and>
    length (tx_inputs tx') = length (tx_inputs tx) \<and>
    (\<forall>i<length (tx_inputs tx). \<exists>s old inp key. let pa = pas ! (i + first_input_account tx) in
       SignBytes W c tx = Ok s \<and> tx_inputs tx ! i = Some old \<and> tx_inputs tx' ! i = Some inp \<and>
       sign_core inp = sign_core old \<and> i + first_input_account tx < length pas \<and>
       in_PubKey inp = pa_PubKey pa \<and> pa_PrivKey pa = Some key \<and> in_Signature inp = Some (ed25519_Sign W key s) \<and>
       (key_pair W pa \<longrightarrow> input_signed W s inp)) \<and>
    (\<forall>sg. tx_signature tx' = Some sg \<longrightarrow> (\<exists>s. SignBytes W c tx = Ok s \<and> signature_by W s pas sg))"
proof -
  note signed = SignTx_effect [OF assms(1), unfolded tx_signed_def]
  have "\<exists>s old inp key. let pa = pas ! (i + first_input_account tx) in
       SignBytes W c tx = Ok s \<and> tx_inputs tx ! i = Some old \<and> tx_inputs tx' ! i = Some inp \<and>
       sign_core inp = sign_core old \<and> i + first_input_account tx < length pas \<and>
       in_PubKey inp = pa_PubKey pa \<and> pa_PrivKey pa = Some key \<and> in_Signature inp = Some (ed25519_Sign W key s) \<and>
       (key_pair W pa \<longrightarrow> input_signed W s inp)" if i: "i < length (tx_inputs tx)" for i
  proof -
    obtain s old inp where s: "SignBytes W c tx = Ok s" "i + first_input_account tx < length pas"
      "tx_inputs tx ! i = Some old" "tx_inputs tx' ! i = Some inp"
      and by_: "signed_by W s (pas ! (i + first_input_account tx)) old inp"
      using signed i unfolding input_by_def by blast
    with signed_by_verifies [OF by_ _ assms(2)] show ?thesis
      unfolding signed_by_def Let_def by blast
  qed
  then show ?thesis using signed by (simp add: TxID_def)
qed

text \<open>A concrete environment: the public key is the seed, and a signature is the key and the text.\<close>

definition sample_wire :: wire_env where
  "sample_wire =
     \<lparr> jsonEscape = (\<lambda>s. quote @ s @ quote), JSON_PubKey = EncodeToString, JSON_PermArgs = (\<lambda>_. []),
       MakePublicKey = (\<lambda>seed. seed), PubKey_Address = take 20,
       ed25519_Sign = (\<lambda>key msg. take 32 key @ map of_char msg),
       ed25519_Verify = (\<lambda>pub msg sig. sig = pub @ map of_char msg),
       BinaryRipemd160 = (\<lambda>s. map of_char (take 20 s)), Ripemd160 = take 20 \<rparr>"

definition sample_key :: bytes where
  "sample_key = replicate 64 7"

definition sample_priv :: PrivAccount where
  "sample_priv = \<lparr> pa_Address = replicate 20 7, pa_PubKey = Some (replicate 32 7),
                   pa_PrivKey = Some (replicate 64 7) \<rparr>"

lemma sample_ed25519_ok: "ed25519_ok sample_wire"
  by (simp add: ed25519_ok_def sample_wire_def)

text \<open>A transfer of two accounts.\<close>

definition key_account :: "byte \<Rightarrow> PrivAccount" where
  "key_account b = \<lparr> pa_Address = replicate 20 b, pa_PubKey = Some (replicate 32 b), pa_PrivKey = Some (replicate 64 b) \<rparr>"

definition joint_send :: SendTx where
  "joint_send = \<lparr> send_Inputs = map (\<lambda>b. Some \<lparr> in_Address = replicate 20 b, in_Amount = 1, in_Sequence = 1,
     in_Signature = None, in_PubKey = None \<rparr>) [7, 8], send_Outputs = [] \<rparr>"

theorem SignTx_verifies_witness:
  "\<exists>tx' s i0 i1. SignTx sample_wire ''c'' (TxSend joint_send) [Some (key_account 7), Some (key_account 8)] = Ok tx' \<and>
     SignBytes sample_wire ''c'' tx' = Ok s \<and> tx_inputs tx' = [Some i0, Some i1] \<and>
     in_PubKey i0 = Some (replicate 32 7) \<and> in_PubKey i1 = Some (replicate 32 8) \<and>
     input_signed sample_wire s i0 \<and> input_signed sample_wire s i1"
proof -
  let ?pas = "[key_account 7, key_account 8]"
  have "case SignTx sample_wire ''c'' (TxSend joint_send) (map Some ?pas) of Ok _ \<Rightarrow> True | _ \<Rightarrow> False"
    by code_simp
  then obtain tx' where run: "SignTx sample_wire ''c'' (TxSend joint_send) (map Some ?pas) = Ok tx'"
    by (auto split: outcome.splits)
  have pairs: "key_pair sample_wire (key_account b)" for b
    by (auto simp: key_pair_def sample_wire_def key_account_def replicate_add [symmetric] intro!: exI [of _ "replicate 32 b"])
  have len: "length (tx_inputs (TxSend joint_send)) = 2" by (simp add: joint_send_def)
  note v = SignTx_verifies [OF run sample_ed25519_ok]
  obtain s i0 i1 where i: "SignBytes sample_wire ''c'' (TxSend joint_send) = Ok s"
    "tx_inputs tx' ! 0 = Some i0" "in_PubKey i0 = Some (replicate 32 7)" "input_signed sample_wire s i0"
    "tx_inputs tx' ! 1 = Some i1" "in_PubKey i1 = Some (replicate 32 8)" "input_signed sample_wire s i1"
  proof -
    have all: "\<forall>i<2. \<exists>s inp. SignBytes sample_wire ''c'' (TxSend joint_send) = Ok s \<and> tx_inputs tx' ! i = Some inp \<and>
        in_PubKey inp = pa_PubKey (?pas ! i) \<and> input_signed sample_wire s inp"
      using v pairs unfolding len Let_def first_input_account_def Tx.case add_0_right
      by (metis One_nat_def less_2_cases nth_Cons_0 nth_Cons_Suc)
    from all [rule_format, of 0] all [rule_format, of 1] that show thesis by (auto simp: key_account_def)
  qed
  have "length (tx_inputs tx') = 2" using v len by simp
  then have "tx_inputs tx' = [Some i0, Some i1]" using i(2,5) by (auto simp: numeral_2_eq_2 length_Suc_conv)
  with run i v show ?thesis by auto
qed

lemma sign_and_broadcast_Ok:
  assumes "sign_and_broadcast T pa tx mem = (mem', Ok rec)"
  shows "\<exists>txS tx' evs. SignTx (wire T) (chain_id T) tx [Some pa] = Ok txS \<and>
           ExecTx (te_exec T) False False txS (mem_cache mem) = (mem_cache mem', Ok (tx', evs)) \<and>
           mem_txs mem' = mem_txs mem @ [tx'] \<and> TxID (wire T) (chain_id T) txS = Ok (TxHash rec) \<and>
           contract_of (wire T) txS = Ok (CreatesContract rec, ContractAddr rec)"
proof -
  obtain txS where txS: "SignTx (wire T) (chain_id T) tx [Some pa] = Ok txS"
    and b: "BroadcastTx T txS mem = (mem', Ok rec)"
    using assms by (auto simp: sign_and_broadcast_def split: outcome.splits)
  obtain r where a: "AddTx (te_exec T) txS mem = (mem', Ok r)"
    and "TxID (wire T) (chain_id T) txS = Ok (TxHash rec)"
    and "contract_of (wire T) txS = Ok (CreatesContract rec, ContractAddr rec)"
    using b by (auto simp: BroadcastTx_def obind_eq_Ok split: prod.splits outcome.splits)
  with AddTx_txs [OF a] txS show ?thesis by auto
qed

lemma next_sequence_keeps:
  "bc_view (mem_cache (snd (next_sequence a mem))) = bc_view (mem_cache mem)"
  "name_view (mem_cache (snd (next_sequence a mem))) = name_view (mem_cache mem)"
  "bc_backend (mem_cache (snd (next_sequence a mem))) = bc_backend (mem_cache mem)"
  "mem_txs (snd (next_sequence a mem)) = mem_txs mem"
  using GetAccount_keeps [of a "mem_cache mem"]
  by (cases "bc_GetAccount a (mem_cache mem)"; simp add: next_sequence_def split: option.split)+

lemma with_account_Ok:
  assumes "with_account T key mem k = (mem', Ok r)"
  shows "\<exists>pa. GenPrivAccountFromPrivKeyBytes (wire T) key = Ok pa \<and> k pa = (mem', Ok r)"
  using assms by (auto simp: with_account_def split: outcome.splits)

definition key_address :: "tx_env \<Rightarrow> bytes \<Rightarrow> bytes" where
  "key_address T privKey = PubKey_Address (wire T) (MakePublicKey (wire T) (take 32 privKey))"

text \<open>
  The transaction that \<open>Send\<close> makes for a key: what it says, that it is signed, that the mempool's
  execution accepted it, and where it went.
\<close>

definition send_submitted ::
  "tx_env \<Rightarrow> bytes \<Rightarrow> bytes \<Rightarrow> int \<Rightarrow> Mempool \<Rightarrow> Mempool \<Rightarrow> Receipt \<Rightarrow> bool" where
  "send_submitted T privKey toAddress amount mem mem' rec \<longleftrightarrow>
     (let a = key_address T privKey; (seq, mem1) = next_sequence a mem in
      \<exists>t s tx' evs.
        send_Outputs t = [Some \<lparr> out_Address = toAddress, out_Amount = amount \<rparr>] \<and>
        map (map_option sign_core) (send_Inputs t) = [Some (a, amount, seq)] \<and>
        SignBytes (wire T) (chain_id T) (TxSend t) = Ok s \<and> all_signed (wire T) s (TxSend t) \<and>
        TxHash rec = BinaryRipemd160 (wire T) s \<and>
        ExecTx (te_exec T) False False (TxSend t) (mem_cache mem1) = (mem_cache mem', Ok (tx', evs)) \<and>
        mem_txs mem' = mem_txs mem @ [tx'])"

lemma Send_submitted:
  assumes "Send T privKey toAddress amount mem = (mem', Ok rec)" "ed25519_ok (wire T)"
  shows "send_submitted T privKey toAddress amount mem mem' rec"
proof -
  let ?W = "wire T" and ?c = "chain_id T"
  obtain pa where pa: "GenPrivAccountFromPrivKeyBytes ?W privKey = Ok pa"
    and "(let (seq, mem) = next_sequence (pa_Address pa) mem in sign_and_broadcast T pa
      (TxSend \<lparr> send_Inputs = [Some \<lparr> in_Address = pa_Address pa, in_Amount = amount,
                      in_Sequence = seq, in_Signature = None, in_PubKey = pa_PubKey pa \<rparr>],
                 send_Outputs = [Some \<lparr> out_Address = toAddress, out_Amount = amount \<rparr>] \<rparr>) mem) =
      (mem', Ok rec)"
    using assms(1) with_account_Ok [of T privKey mem _ mem' rec]
    by (auto simp: Send_def split: if_splits)
  moreover obtain seq mem1 where n: "next_sequence (pa_Address pa) mem = (seq, mem1)" by force
  ultimately have b: "sign_and_broadcast T pa
      (TxSend \<lparr> send_Inputs = [Some \<lparr> in_Address = pa_Address pa, in_Amount = amount,
                      in_Sequence = seq, in_Signature = None, in_PubKey = pa_PubKey pa \<rparr>],
                 send_Outputs = [Some \<lparr> out_Address = toAddress, out_Amount = amount \<rparr>] \<rparr>) mem1 =
      (mem', Ok rec)" by simp
  have addr: "pa_Address pa = key_address T privKey"
    using pa by (auto simp: GenPrivAccountFromPrivKeyBytes_def key_address_def Let_def split: if_splits)
  from sign_and_broadcast_Ok [OF b] obtain txS tx' evs where sgn: "SignTx ?W ?c
      (TxSend \<lparr> send_Inputs = [Some \<lparr> in_Address = pa_Address pa, in_Amount = amount,
                      in_Sequence = seq, in_Signature = None, in_PubKey = pa_PubKey pa \<rparr>],
                 send_Outputs = [Some \<lparr> out_Address = toAddress, out_Amount = amount \<rparr>] \<rparr>) (map Some [pa]) =
      Ok txS"
    and ex: "ExecTx (te_exec T) False False txS (mem_cache mem1) = (mem_cache mem', Ok (tx', evs))"
    and mem': "mem_txs mem' = mem_txs mem1 @ [tx']" and hash: "TxID ?W ?c txS = Ok (TxHash rec)"
    by auto
  obtain t where t: "txS = TxSend t" "send_Outputs t = [Some \<lparr> out_Address = toAddress, out_Amount = amount \<rparr>]"
      "map (map_option sign_core) (send_Inputs t) = [Some (pa_Address pa, amount, seq)]"
    using sgn by (auto simp: SignTx_def obind_eq_Ok sign_input_def deref_def set_key_def sign_core_def Let_def
        split: if_splits)
  obtain s where s: "SignBytes ?W ?c txS = Ok s" "TxHash rec = BinaryRipemd160 ?W s"
    using hash by (auto simp: TxID_def obind_eq_Ok)
  have "all_signed ?W s txS"
    using SignTx_all_signed [OF sgn] key_pair_generated [OF pa] assms(2) s by auto
  moreover have "mem_txs mem1 = mem_txs mem" using next_sequence_keeps(4) [of "pa_Address pa" mem] n by simp
  ultimately have "send_Outputs t = [Some \<lparr> out_Address = toAddress, out_Amount = amount \<rparr>] \<and>
        map (map_option sign_core) (send_Inputs t) = [Some (key_address T privKey, amount, seq)] \<and>
        SignBytes ?W ?c (TxSend t) = Ok s \<and> all_signed ?W s (TxSend t) \<and> TxHash rec = BinaryRipemd160 ?W s \<and>
        ExecTx (te_exec T) False False (TxSend t) (mem_cache mem1) = (mem_cache mem', Ok (tx', evs)) \<and>
        mem_txs mem' = mem_txs mem @ [tx']"
    using mem' t s ex by (simp add: addr del: SignBytes.simps ExecTx.simps)
  moreover have "next_sequence (key_address T privKey) mem = (seq, mem1)" using n addr by simp
  ultimately show ?thesis
    unfolding send_submitted_def
    by - (simp only: Let_def prod.case, rule exI [of _ t], rule exI [of _ s], rule exI [of _ tx'], rule exI [of _ evs],
        simp del: SignBytes.simps ExecTx.simps)
qed

text \<open>
  A successful \<open>Send\<close> makes one transaction that moves the amount from the address of the key to
  the recipient, with the sequence number after the one the mempool's cache has for the sender. Its
  inputs verify, the receipt has its hash, the mempool's execution accepts it, and it is appended to
  the mempool's transactions, and no other.
\<close>

theorem Send_submits_signed_transaction:
  assumes "Send T privKey toAddress amount mem = (mem', Ok rec)" "ed25519_ok (wire T)"
  shows "send_submitted T privKey toAddress amount mem mem' rec"
  using assms by (rule Send_submitted)

text \<open>
  An environment without contracts, and a mempool over a ledger in which the sample key has an
  account with ten coins.
\<close>

definition sample_env :: tx_env where
  "sample_env =
     \<lparr> te_exec = \<lparr> ex_wire = sample_wire, vm_Run = (\<lambda>_ _ _ _ _ _ _ _ _ _ t. (t, [], Ok [])) \<rparr>, chain_id = ''c'' \<rparr>"

definition sample_pool :: Mempool where
  "sample_pool =
     NewMempool (sample_validators\<lparr> st_accounts := [(addr20 1, rich_account 1 0), (addr20 7, rich_account 7 10)] \<rparr>)"

lemma sample_Send:
  "\<exists>mem' rec. Send sample_env sample_key (addr20 1) 5 sample_pool = (mem', Ok rec)"
proof -
  have "case Send sample_env sample_key (addr20 1) 5 sample_pool of (mem', Ok rec) \<Rightarrow> True | _ \<Rightarrow> False"
    by code_simp
  then show ?thesis by (auto split: prod.splits outcome.splits)
qed

theorem Send_submits_signed_transaction_witness:
  "\<exists>mem' rec. Send sample_env sample_key (addr20 1) 5 sample_pool = (mem', Ok rec) \<and>
     send_submitted sample_env sample_key (addr20 1) 5 sample_pool mem' rec"
proof -
  obtain mem' rec where send: "Send sample_env sample_key (addr20 1) 5 sample_pool = (mem', Ok rec)"
    using sample_Send by blast
  have "ed25519_ok (wire sample_env)"
    by (simp add: sample_env_def sample_ed25519_ok)
  with Send_submits_signed_transaction [OF send] send show ?thesis by auto
qed

text \<open>
  Through all layers, a \<open>Send\<close> that answers with a receipt has moved the money in the ledger that
  the mempool shows: the account of the key has the amount less, the recipient the amount more, and
  every other account is what it was.
\<close>

theorem Send_moves_money:
  assumes "Send T privKey toAddress amount mem = (mem', Ok rec)" "ed25519_ok (wire T)"
    "view_ok (mem_cache mem)" "0 < amount" "in_int64 (bal (bc_view (mem_cache mem)) (key_address T privKey))"
    "0 \<le> bal (bc_view (mem_cache mem)) toAddress" "bal (bc_view (mem_cache mem)) toAddress + amount \<le> MaxInt64"
  shows "bal (bc_view (mem_cache mem')) (key_address T privKey) = bal (bc_view (mem_cache mem)) (key_address T privKey) - amount \<and>
    bal (bc_view (mem_cache mem')) toAddress = bal (bc_view (mem_cache mem)) toAddress + amount \<and>
    (\<forall>a. a \<in> {key_address T privKey, toAddress} \<or> bc_view (mem_cache mem') a = bc_view (mem_cache mem) a)"
proof -
  let ?mem = "snd (next_sequence (key_address T privKey) mem)"
  obtain t tx' evs where t: "exec_SendTx (te_exec T) False t (mem_cache ?mem) = (mem_cache mem', Ok (tx', evs))"
    "send_Outputs t = [Some \<lparr> out_Address = toAddress, out_Amount = amount \<rparr>]"
    "map (map_option sign_core) (send_Inputs t) =
       [Some (key_address T privKey, amount, fst (next_sequence (key_address T privKey) mem))]"
    using Send_submitted [OF assms(1,2)] by (auto simp: send_submitted_def Let_def)
  then obtain i where i: "send_Inputs t = [Some i]" "in_Address i = key_address T privKey" "in_Amount i = amount"
    by (auto simp: sign_core_def)
  have lists: "in_list t = [i]" "out_list t = [\<lparr> out_Address = toAddress, out_Amount = amount \<rparr>]"
    by (simp_all add: in_list_def out_list_def i(1) t(2))
  have "view_ok (mem_cache ?mem)"
    using assms(3) by (simp add: view_ok_def next_sequence_keeps)
  moreover have "amounts_ok (bc_view (mem_cache ?mem)) t"
    using assms(4-7) i by (simp add: amounts_ok_def lists next_sequence_keeps int64_simps)
  ultimately show ?thesis
    using exec_SendTx_money [OF t(1)] i by (auto simp: lists next_sequence_keeps touched_def)
qed

theorem Send_moves_money_witness:
  "\<exists>mem' rec. Send sample_env sample_key (addr20 1) 5 sample_pool = (mem', Ok rec) \<and>
     bal (bc_view (mem_cache mem')) (addr20 1) = 5"
proof -
  obtain mem' rec where send: "Send sample_env sample_key (addr20 1) 5 sample_pool = (mem', Ok rec)"
    using sample_Send by blast
  have v: "bc_view (mem_cache sample_pool) = [addr20 1 \<mapsto> rich_account 1 0, addr20 7 \<mapsto> rich_account 7 10]"
    by (simp add: sample_pool_def NewMempool_def view_New State_GetAccount_def [abs_def] fun_eq_iff)
  have "key_address sample_env sample_key = addr20 7"
    by (simp add: key_address_def sample_env_def sample_wire_def sample_key_def addr20_def)
  moreover have "view_ok (mem_cache sample_pool)"
    by (auto simp: view_ok_def v rich_account_def split: if_splits)
  moreover have "ed25519_ok (wire sample_env)" by (simp add: sample_env_def sample_ed25519_ok)
  ultimately show ?thesis
    using Send_moves_money [OF send] send by (simp add: v bal_def rich_account_def int64_simps)
qed

lemma TransactAndHold_switch:
  assumes "switch_inv evsw"
    and "TransactAndHold T wc arrivals privKey address data gasLimit fee (mem, evsw) = ((mem', evsw'), r)"
    and "Transact T privKey address data gasLimit fee mem = (mem', Ok rec)"
  shows "switch_inv evsw' \<and>
         map_of (switch_view evsw' ev) = (map_of (switch_view evsw ev))(fmt_X (TxHash rec) := None)"
proof -
  have "evsw' = fst (Unsubscribe newEvents (fmt_X (TxHash rec))
          (fst (Subscribe newEvents (fmt_X (TxHash rec))
            (EventStringAccCall (if CreatesContract rec = 1 then ContractAddr rec else address)) (ToChan wc) evsw)))"
    using assms(2,3) by (auto simp: TransactAndHold_def Let_def newEvents_def)
  with assms(1) show ?thesis
    by (simp add: evsw.unsubscribe_subscribe evsw.unsubscribe_inv evsw.subscribe_inv)
qed

text \<open>
  Whatever a waiting transaction ends with, the event, an exception or the time limit, its
  listener is gone from the event switch afterwards, and the listeners of every other
  subscription are what they were.
\<close>

theorem TransactAndHold_leaves_no_listener:
  assumes "switch_inv evsw"
    and "TransactAndHold T wc arrivals privKey address data gasLimit fee (mem, evsw) = ((mem', evsw'), r)"
    and "Transact T privKey address data gasLimit fee mem = (mem', Ok rec)"
  shows "map_of (switch_view evsw' ev) = (map_of (switch_view evsw ev))(fmt_X (TxHash rec) := None)"
  using TransactAndHold_switch [OF assms] by blast

lemma sample_Transact:
  "\<exists>mem' rec. Transact sample_env sample_key [] [1] 5 0 sample_pool = (mem', Ok rec)"
proof -
  have "case Transact sample_env sample_key [] [1] 5 0 sample_pool of (mem', Ok rec) \<Rightarrow> True | _ \<Rightarrow> False"
    by code_simp
  then show ?thesis by (auto split: prod.splits outcome.splits)
qed

theorem TransactAndHold_leaves_no_listener_witness:
  "\<exists>mem' evsw' r rec.
     TransactAndHold sample_env 0 [] sample_key [] [1] 5 0
       (sample_pool, EventSwitch_OnStart) = ((mem', evsw'), r) \<and>
     map_of (switch_view evsw' ''Bond'') = (map_of (switch_view EventSwitch_OnStart ''Bond''))(fmt_X (TxHash (rec :: Receipt)) := None)"
proof -
  obtain mem' rec where
    t: "Transact sample_env sample_key [] [1] 5 0 sample_pool = (mem', Ok rec)"
    using sample_Transact by blast
  then obtain evsw' r where h: "TransactAndHold sample_env 0 [] sample_key [] [1] 5 0
       (sample_pool, EventSwitch_OnStart) = ((mem', evsw'), r)"
    by (auto simp: TransactAndHold_def Let_def)
  with TransactAndHold_leaves_no_listener [OF switch_inv_OnStart h t] show ?thesis by blast
qed

text \<open>
  A waiting send that sees another transfer to its recipient first answers with neither a
  receipt nor an error, and leaves its listener in the event switch; so does one that times out.
\<close>

theorem SendAndHold_mismatch:
  assumes "switch_inv evsw" "Send T privKey toAddress amount mem = (mem', Ok rec)"
    and "edt_Tx e = TxSend t" "send_Inputs t = Some i # rest"
    and "in_Address i \<noteq> PubKey_Address (wire T) (MakePublicKey (wire T) (take 32 privKey))"
  shows "\<exists>evsw'. SendAndHold T wc (EvTx e # arrivals) privKey toAddress amount (mem, evsw) =
             ((mem', evsw'), Ok None) \<and>
           map_of (switch_view evsw' (EventStringAccOutput toAddress)) (fmt_X (TxHash rec)) = Some (ToChan wc)"
proof -
  have "length privKey = 64"
    using assms(2) by (auto simp: Send_def split: if_splits)
  then obtain pa where pa: "GenPrivAccountFromPrivKeyBytes (wire T) privKey = Ok pa"
    and "pa_Address pa = PubKey_Address (wire T) (MakePublicKey (wire T) (take 32 privKey))"
    by (simp add: GenPrivAccountFromPrivKeyBytes_def Let_def)
  then have "sent_by (pa_Address pa) amount t = Ok False"
    using assms(4,5) by (simp add: sent_by_def deref_def)
  then show ?thesis
    using assms(2,3) pa
    by (simp add: SendAndHold_def Let_def events_Subscribe_def view_AddListener)
qed

theorem SendAndHold_mismatch_witness:
  "\<exists>mem' evsw'. SendAndHold sample_env 0
     [EvTx \<lparr> edt_Tx = TxSend \<lparr> send_Inputs = [Some \<lparr> in_Address = [9], in_Amount = 5, in_Sequence = 1,
                in_Signature = None, in_PubKey = None \<rparr>], send_Outputs = [] \<rparr>,
             edt_Return = [], edt_Exception = [] \<rparr>]
     sample_key (addr20 1) 5 (sample_pool, EventSwitch_OnStart) =
     ((mem', evsw'), Ok None)"
proof -
  obtain mem' rec where
    s: "Send sample_env sample_key (addr20 1) 5 sample_pool = (mem', Ok rec)"
    using sample_Send by blast
  have "[9] \<noteq> PubKey_Address (wire sample_env) (MakePublicKey (wire sample_env) (take 32 sample_key))"
    by (simp add: sample_env_def sample_wire_def sample_key_def numeral_eq_Suc)
  with SendAndHold_mismatch [OF switch_inv_OnStart s, of
      "\<lparr> edt_Tx = TxSend \<lparr> send_Inputs = [Some \<lparr> in_Address = [9], in_Amount = 5, in_Sequence = 1,
                in_Signature = None, in_PubKey = None \<rparr>], send_Outputs = [] \<rparr>,
             edt_Return = [], edt_Exception = [] \<rparr>"
      "\<lparr> send_Inputs = [Some \<lparr> in_Address = [9], in_Amount = 5, in_Sequence = 1,
                in_Signature = None, in_PubKey = None \<rparr>], send_Outputs = [] \<rparr>"
      "\<lparr> in_Address = [9], in_Amount = 5, in_Sequence = 1, in_Signature = None, in_PubKey = None \<rparr>"
      "[]" 0 "[]"]
  show ?thesis by auto
qed

end
