(* ===== verification/Node_Info.thy ===== *)
theory Node_Info
  imports Accounts Blockchain
begin

text \<open>
  The parts of the pipe that report on the node: \<open>erisdb/pipe/consensus.go\<close>,
  \<open>erisdb/pipe/net.go\<close> and \<open>FromRoundState\<close> of \<open>erisdb/pipe/types.go\<close>. The consensus round and
  the peer-to-peer switch are records of what is read of them; times are given by their printed
  form.
\<close>

record Versions =
  Revision :: string
  Tendermint :: string
  P2P :: string
  ver_RPC :: string
  Wire :: string

record NodeInfo =
  ni_PubKey :: bytes
  ni_Moniker :: string
  ni_ChainID :: string
  ni_Host :: string
  ni_P2PPort :: uint16
  ni_RPCPort :: uint16
  ni_Version :: Versions

record p2p_Peer =
  peer_Key :: string
  peer_NodeInfo :: NodeInfo
  peer_IsOutbound :: bool
  peer_RoundState :: "string option"

record p2p_Switch =
  IsListening :: bool
  sw_Listeners :: "string list"
  sw_Peers :: "p2p_Peer list"

record RoundState =
  rnd_Height :: int
  rnd_Round :: int
  rnd_Step :: byte
  rnd_StartTime :: string
  rnd_CommitTime :: string
  rnd_Validators :: ValidatorSet
  rnd_Proposal :: "Proposal option"

section \<open>Consensus\<close>

record ConsensusState =
  cs_Height :: int
  cs_Round :: int
  cs_Step :: byte
  cs_StartTime :: string
  cs_CommitTime :: string
  cs_Validators :: "Validator list"
  cs_Proposal :: "Proposal option"

definition FromRoundState :: "RoundState \<Rightarrow> ConsensusState" where
  "FromRoundState rs =
     \<lparr> cs_Height = rnd_Height rs, cs_Round = rnd_Round rs, cs_Step = rnd_Step rs,
       cs_StartTime = rnd_StartTime rs, cs_CommitTime = rnd_CommitTime rs,
       cs_Validators = Validators (rnd_Validators rs), cs_Proposal = rnd_Proposal rs \<rparr>"

text \<open>
  The states of the peers are collected and thrown away, but a peer that has none yet makes the
  type assertion panic.
\<close>

definition consensus_State :: "RoundState \<Rightarrow> p2p_Switch \<Rightarrow> ConsensusState outcome" where
  "consensus_State rs sw =
     (if \<exists>p\<in>set (sw_Peers sw). peer_RoundState p = None then Panic ''interface conversion''
      else Ok (FromRoundState rs))"

record ValidatorList =
  vl_BlockHeight :: int
  vl_BondedValidators :: "Validator list"
  vl_UnbondingValidators :: "Validator list"

definition consensus_Validators :: "State \<Rightarrow> ValidatorList" where
  "consensus_Validators s =
     \<lparr> vl_BlockHeight = LastBlockHeight s, vl_BondedValidators = Validators (BondedValidators s),
       vl_UnbondingValidators = Validators (UnbondingValidators s) \<rparr>"

section \<open>Network\<close>

record Peer =
  nodeInfo :: NodeInfo
  IsOutbound :: bool

record NetworkInfo =
  ClientVersion :: string
  Moniker :: string
  Listening :: bool
  Listeners :: "string list"
  Peers :: "Peer list"

definition to_Peer :: "p2p_Peer \<Rightarrow> Peer" where
  "to_Peer p = \<lparr> nodeInfo = peer_NodeInfo p, IsOutbound = peer_IsOutbound p \<rparr>"

definition net_Listeners :: "p2p_Switch \<Rightarrow> string list" where
  "net_Listeners sw = sw_Listeners sw"

definition net_Peers :: "p2p_Switch \<Rightarrow> Peer list" where
  "net_Peers sw = map to_Peer (sw_Peers sw)"

definition net_Info :: "string \<Rightarrow> string \<Rightarrow> p2p_Switch \<Rightarrow> NetworkInfo" where
  "net_Info version moniker sw =
     \<lparr> ClientVersion = version, Moniker = moniker, Listening = IsListening sw,
       Listeners = sw_Listeners sw, Peers = map to_Peer (sw_Peers sw) \<rparr>"

definition net_Peer :: "p2p_Switch \<Rightarrow> string \<Rightarrow> Peer outcome" where
  "net_Peer sw address =
     (case find (\<lambda>p. peer_Key p = address) (sw_Peers sw) of
        None \<Rightarrow> Panic ''nil pointer dereference''
      | Some p \<Rightarrow> Ok (to_Peer p))"

text \<open>The network report agrees with the single queries.\<close>

lemma net_Info_agrees:
  "Peers (net_Info v m sw) = net_Peers sw" "Listeners (net_Info v m sw) = net_Listeners sw"
  by (simp_all add: net_Info_def net_Peers_def net_Listeners_def)

lemma net_Peer_in_Peers:
  "net_Peer sw address = Ok p \<Longrightarrow> p \<in> set (net_Peers sw)"
  by (auto simp: net_Peer_def net_Peers_def find_Some_iff split: option.splits)

text \<open>Asking for a peer by an address that is not connected panics instead of returning an error.\<close>

lemma net_Peer_unknown:
  "address \<notin> peer_Key ` set (sw_Peers sw) \<Longrightarrow> net_Peer sw address = Panic ''nil pointer dereference''"
  by (auto simp: net_Peer_def find_None_iff split: option.splits)

end
