(* ===== verification/Rpc_Methods.thy ===== *)
theory Rpc_Methods
  imports Transactor Node_Info Event_Cache
begin

text \<open>
  The JSON-RPC methods (\<open>erisdb/methods.go\<close>, with the parameter types of \<open>erisdb/params.go\<close> and
  the message types of \<open>rpc/jsonrpc.go\<close>). A handler takes the node and the raw parameters and
  gives the new node with a result, an error code and message, or a panic; it gives \<open>None\<close> when
  it never returns. The codec (\<open>erisdb/codec.go\<close>, Tendermint's JSON) is the parameter
  \<open>rpc_codec\<close>, one decoder per parameter type; what a request meets from outside (the clock, the
  random source, a fresh key, the events evs while it waits) is the record \<open>req_env\<close>.
\<close>

section \<open>Messages\<close>

definition PARSE_ERROR :: int where "PARSE_ERROR = -32700"
definition INVALID_REQUEST :: int where "INVALID_REQUEST = -32600"
definition METHOD_NOT_FOUND :: int where "METHOD_NOT_FOUND = -32601"
definition INVALID_PARAMS :: int where "INVALID_PARAMS = -32602"
definition INTERNAL_ERROR :: int where "INTERNAL_ERROR = -32603"

lemmas rpc_codes = PARSE_ERROR_def INVALID_REQUEST_def METHOD_NOT_FOUND_def INVALID_PARAMS_def
  INTERNAL_ERROR_def

record RPCRequest =
  req_JSONRPC :: string
  req_Method :: string
  req_Params :: string
  req_Id :: string

datatype rpc_result =
    RPrivAccount PrivAccount | RAccount Account | RAccountList "Account list"
  | RStorage Storage | RStorageItem StorageItem
  | RBlockchainInfo BlockchainInfo | RChainId string | RGenesisHash bytes
  | RLatestBlockHeight int | RBlock "Block option" | RBlocks Blocks
  | RConsensusState ConsensusState | RValidatorList ValidatorList
  | RNetworkInfo NetworkInfo | RClientVersion string | RMoniker string | RListening bool
  | RListeners "string list" | RPeers "Peer list" | RPeer Peer
  | RCall Call | RReceipt "Receipt option" | RTx Tx | RUnconfirmedTxs "Tx list"
  | REventDataCall EventDataCall | REventData EventData
  | REntry NameRegEntry | RListNames ResultListNames
  | REventSub string | REventUnsub bool | RPollResponse "EventData list"

record RPCError =
  Code :: int
  Message :: string

record RPCResponse =
  Result :: "rpc_result option"
  Error :: "RPCError option"
  Id :: string
  JSONRPC :: string

text \<open>
  \<open>Result\<close> is an \<open>interface{}\<close>, which is not nil when it holds a nil pointer: a method that answers with a
  nil block or a nil receipt gives the result \<open>Some (RBlock None)\<close> or \<open>Some (RReceipt None)\<close>, which the
  encoder writes as \<open>null\<close>. Such a reply and that of an error differ for a client only in the member
  \<open>error\<close>; every reply has both members.
\<close>

definition NewRPCResponse :: "string \<Rightarrow> rpc_result \<Rightarrow> RPCResponse" where
  "NewRPCResponse rid res = \<lparr> Result = Some res, Error = None, Id = rid, JSONRPC = ''2.0'' \<rparr>"

definition NewRPCErrorResponse :: "string \<Rightarrow> int \<Rightarrow> string \<Rightarrow> RPCResponse" where
  "NewRPCErrorResponse rid code message =
     \<lparr> Result = None, Error = Some \<lparr> Code = code, Message = message \<rparr>, Id = rid, JSONRPC = ''2.0'' \<rparr>"

section \<open>Parameters\<close>

record StorageAtParam =
  sap_Address :: bytes
  sap_Key :: bytes

record CallParam =
  cp_Address :: bytes
  cp_From :: bytes
  cp_Data :: bytes

record CallCodeParam =
  ccp_From :: bytes
  ccp_Code :: bytes
  ccp_Data :: bytes

record SignTxParam =
  stp_Tx :: "CallTx option"
  stp_PrivAccounts :: "PrivAccount option list"

record TransactParam =
  tp_PrivKey :: bytes
  tp_Data :: bytes
  tp_Address :: bytes
  tp_Fee :: int
  tp_GasLimit :: int

record SendParam =
  sp_PrivKey :: bytes
  sp_ToAddress :: bytes
  sp_Amount :: int

record TransactNameRegParam =
  tnp_PrivKey :: bytes
  tnp_Name :: string
  tnp_Data :: string
  tnp_Fee :: int
  tnp_Amount :: int

text \<open>Parameter types of one field are that field.\<close>

record rpc_codec =
  dec_Request :: "string \<Rightarrow> RPCRequest outcome"
  dec_AddressParam :: "string \<Rightarrow> bytes outcome"
  dec_FilterListParam :: "string \<Rightarrow> FilterData option list outcome"
  dec_PrivKeyParam :: "string \<Rightarrow> bytes outcome"
  dec_StorageAtParam :: "string \<Rightarrow> StorageAtParam outcome"
  dec_HeightParam :: "string \<Rightarrow> int outcome"
  dec_EventIdParam :: "string \<Rightarrow> string outcome"
  dec_SubIdParam :: "string \<Rightarrow> string outcome"
  dec_PeerParam :: "string \<Rightarrow> string outcome"
  dec_CallParam :: "string \<Rightarrow> CallParam outcome"
  dec_CallCodeParam :: "string \<Rightarrow> CallCodeParam outcome"
  dec_SignTxParam :: "string \<Rightarrow> SignTxParam outcome"
  dec_TransactParam :: "string \<Rightarrow> TransactParam outcome"
  dec_SendParam :: "string \<Rightarrow> SendParam outcome"
  dec_NameRegEntryParam :: "string \<Rightarrow> string outcome"
  dec_TransactNameRegParam :: "string \<Rightarrow> TransactNameRegParam outcome"
  dec_Tx :: "string \<Rightarrow> Tx outcome"
  enc_Response :: "RPCResponse \<Rightarrow> string outcome"
  enc_partial :: "RPCResponse \<Rightarrow> string"

section \<open>The node behind the methods\<close>

record node =
  nd_env :: "tx_env"
  nd_state :: State
  nd_store :: BlockStore
  nd_mem :: "Mempool"
  nd_subs :: "EventSwitch EventSubscriptions"
  nd_round :: RoundState
  nd_switch :: p2p_Switch
  nd_genesis :: bytes
  nd_version :: string
  nd_moniker :: string

record req_env =
  re_now :: int
  re_rand :: "bytes outcome"
  re_newkey :: PrivAccount
  re_arrivals :: "EventData list"
  re_chan :: nat

datatype rpc_answer = ARes rpc_result | AErr int string | APanic string

type_synonym handler = "rpc_codec \<Rightarrow> req_env \<Rightarrow> node \<Rightarrow> string \<Rightarrow> (node \<times> rpc_answer) option"

text \<open>\<open>if errC != nil { return nil, rpc.INTERNAL_ERROR, errC }\<close>, then the result.\<close>

definition internal :: "('a \<Rightarrow> rpc_result) \<Rightarrow> 'a outcome \<Rightarrow> rpc_answer" where
  "internal f r = (case r of Ok x \<Rightarrow> ARes (f x) | Err e \<Rightarrow> AErr INTERNAL_ERROR e | Panic e \<Rightarrow> APanic e)"

text \<open>\<open>if err != nil { return nil, rpc.INVALID_PARAMS, err }\<close>, then the rest of the handler.\<close>

definition with_param ::
  "node \<Rightarrow> 'p outcome \<Rightarrow> ('p \<Rightarrow> (node \<times> rpc_answer) option) \<Rightarrow> (node \<times> rpc_answer) option" where
  "with_param nd d k =
     (case d of Ok p \<Rightarrow> k p | Err e \<Rightarrow> Some (nd, AErr INVALID_PARAMS e) | Panic e \<Rightarrow> Some (nd, APanic e))"

definition submit ::
  "node \<Rightarrow> ('a \<Rightarrow> rpc_result) \<Rightarrow> Mempool \<times> 'a outcome \<Rightarrow> (node \<times> rpc_answer) option" where
  "submit nd f r = Some (nd\<lparr> nd_mem := fst r \<rparr>, internal f (snd r))"

definition submit_hold ::
  "node \<Rightarrow> ('a \<Rightarrow> rpc_result) \<Rightarrow> (Mempool \<times> EventSwitch) \<times> 'a outcome \<Rightarrow>
   (node \<times> rpc_answer) option" where
  "submit_hold nd f r =
     Some (nd\<lparr> nd_mem := fst (fst r),
               nd_subs := (nd_subs nd)\<lparr> eventEmitter := snd (fst r) \<rparr> \<rparr>, internal f (snd r))"

text \<open>The events of a simulated call reach the subscriptions of the node.\<close>

definition fire_all :: "(string \<times> EventData) list \<Rightarrow> node \<Rightarrow> node" where
  "fire_all evs nd = nd\<lparr> nd_subs := fold (\<lambda>(ev, d). es_fire FireEvent ev d) evs (nd_subs nd) \<rparr>"

section \<open>Handlers\<close>

definition rpc_GenPrivAccount :: "handler" where
  "rpc_GenPrivAccount c e nd ps =
     Some (nd, ARes (RPrivAccount (re_newkey e)))"

definition rpc_GenPrivAccountFromKey :: "handler" where
  "rpc_GenPrivAccountFromKey c e nd ps =
     with_param nd (dec_PrivKeyParam c ps) (\<lambda>privKey.
       Some (nd, internal RPrivAccount (GenPrivAccountFromKey (wire (nd_env nd)) privKey)))"

definition rpc_Account :: "handler" where
  "rpc_Account c e nd ps =
     with_param nd (dec_AddressParam c ps) (\<lambda>address.
       let (acc, cache) = accounts_Account address (mem_cache (nd_mem nd))
       in Some (nd\<lparr> nd_mem := (nd_mem nd)\<lparr> mem_cache := cache \<rparr> \<rparr>, ARes (RAccount acc)))"

definition rpc_Accounts :: "handler" where
  "rpc_Accounts c e nd ps =
     with_param nd (dec_FilterListParam c ps) (\<lambda>filters.
       Some (nd, internal RAccountList (accounts_Accounts (nd_state nd) filters)))"

definition rpc_AccountStorage :: "handler" where
  "rpc_AccountStorage c e nd ps =
     with_param nd (dec_AddressParam c ps) (\<lambda>address.
       Some (nd, ARes (RStorage (accounts_Storage (nd_state nd) address))))"

definition rpc_AccountStorageAt :: "handler" where
  "rpc_AccountStorageAt c e nd ps =
     with_param nd (dec_StorageAtParam c ps) (\<lambda>p.
       Some (nd, internal RStorageItem (accounts_StorageAt (nd_state nd) (sap_Address p) (sap_Key p))))"

definition rpc_BlockchainInfo :: "handler" where
  "rpc_BlockchainInfo c e nd ps =
     Some (nd, ARes (RBlockchainInfo
       (blockchain_Info (chain_id (nd_env nd)) (nd_genesis nd) (nd_store nd))))"

definition rpc_ChainId :: "handler" where
  "rpc_ChainId c e nd ps =
     Some (nd, ARes (RChainId (chain_id (nd_env nd))))"

definition rpc_GenesisHash :: "handler" where
  "rpc_GenesisHash c e nd ps =
     Some (nd, ARes (RGenesisHash (nd_genesis nd)))"

definition rpc_LatestBlockHeight :: "handler" where
  "rpc_LatestBlockHeight c e nd ps =
     Some (nd, ARes (RLatestBlockHeight (LatestBlockHeight (nd_store nd))))"

definition rpc_LatestBlock :: "handler" where
  "rpc_LatestBlock c e nd ps =
     Some (nd, internal RBlock (LatestBlock (nd_store nd)))"

definition rpc_Blocks :: "handler" where
  "rpc_Blocks c e nd ps =
     with_param nd (dec_FilterListParam c ps) (\<lambda>filters.
       map_option (\<lambda>r. (nd, internal RBlocks r)) (blockchain_Blocks (nd_store nd) filters))"

definition rpc_Block :: "handler" where
  "rpc_Block c e nd ps =
     with_param nd (dec_HeightParam c ps) (\<lambda>height.
       Some (nd, internal RBlock (blockchain_Block (nd_store nd) height)))"

definition rpc_ConsensusState :: "handler" where
  "rpc_ConsensusState c e nd ps =
     Some (nd, internal RConsensusState (consensus_State (nd_round nd) (nd_switch nd)))"

definition rpc_Validators :: "handler" where
  "rpc_Validators c e nd ps =
     Some (nd, ARes (RValidatorList (consensus_Validators (nd_state nd))))"

definition rpc_NetworkInfo :: "handler" where
  "rpc_NetworkInfo c e nd ps =
     Some (nd, ARes (RNetworkInfo (net_Info (nd_version nd) (nd_moniker nd) (nd_switch nd))))"

definition rpc_ClientVersion :: "handler" where
  "rpc_ClientVersion c e nd ps =
     Some (nd, ARes (RClientVersion (nd_version nd)))"

definition rpc_Moniker :: "handler" where
  "rpc_Moniker c e nd ps =
     Some (nd, ARes (RMoniker (nd_moniker nd)))"

definition rpc_Listening :: "handler" where
  "rpc_Listening c e nd ps =
     Some (nd, ARes (RListening (IsListening (nd_switch nd))))"

definition rpc_Listeners :: "handler" where
  "rpc_Listeners c e nd ps =
     Some (nd, ARes (RListeners (net_Listeners (nd_switch nd))))"

definition rpc_Peers :: "handler" where
  "rpc_Peers c e nd ps =
     Some (nd, ARes (RPeers (net_Peers (nd_switch nd))))"

definition rpc_Peer :: "handler" where
  "rpc_Peer c e nd ps =
     with_param nd (dec_PeerParam c ps) (\<lambda>address.
       Some (nd, internal RPeer (net_Peer (nd_switch nd) address)))"

definition rpc_Call :: "handler" where
  "rpc_Call c e nd ps =
     with_param nd (dec_CallParam c ps) (\<lambda>p.
       let (evs, r) = transactor_Call (nd_env nd) (nd_state nd) (cp_From p) (cp_Address p) (cp_Data p)
       in Some (fire_all evs nd, internal RCall r))"

definition rpc_CallCode :: "handler" where
  "rpc_CallCode c e nd ps =
     with_param nd (dec_CallCodeParam c ps) (\<lambda>p.
       submit nd RCall
         (CallCode (nd_env nd) (nd_state nd) (nd_mem nd) (ccp_From p) (ccp_Code p) (ccp_Data p)))"

definition rpc_BroadcastTx :: "handler" where
  "rpc_BroadcastTx c e nd ps =
     with_param nd (dec_Tx c ps) (\<lambda>tx.
       submit nd (\<lambda>r. RReceipt (Some r)) (BroadcastTx (nd_env nd) tx (nd_mem nd)))"

definition rpc_Transact :: "handler" where
  "rpc_Transact c e nd ps =
     with_param nd (dec_TransactParam c ps) (\<lambda>p.
       submit nd (\<lambda>r. RReceipt (Some r))
         (Transact (nd_env nd) (tp_PrivKey p) (tp_Address p) (tp_Data p) (tp_GasLimit p) (tp_Fee p)
            (nd_mem nd)))"

definition rpc_TransactAndHold :: "handler" where
  "rpc_TransactAndHold c e nd ps =
     with_param nd (dec_TransactParam c ps) (\<lambda>p.
       submit_hold nd REventDataCall
         (TransactAndHold (nd_env nd) (re_chan e) (re_arrivals e) (tp_PrivKey p) (tp_Address p)
            (tp_Data p) (tp_GasLimit p) (tp_Fee p) (nd_mem nd, eventEmitter (nd_subs nd))))"

definition rpc_Send :: "handler" where
  "rpc_Send c e nd ps =
     with_param nd (dec_SendParam c ps) (\<lambda>p.
       submit nd (\<lambda>r. RReceipt (Some r))
         (Send (nd_env nd) (sp_PrivKey p) (sp_ToAddress p) (sp_Amount p) (nd_mem nd)))"

definition rpc_SendAndHold :: "handler" where
  "rpc_SendAndHold c e nd ps =
     with_param nd (dec_SendParam c ps) (\<lambda>p.
       submit_hold nd RReceipt
         (SendAndHold (nd_env nd) (re_chan e) (re_arrivals e) (sp_PrivKey p) (sp_ToAddress p)
            (sp_Amount p) (nd_mem nd, eventEmitter (nd_subs nd))))"

definition rpc_TransactNameReg :: "handler" where
  "rpc_TransactNameReg c e nd ps =
     with_param nd (dec_TransactNameRegParam c ps) (\<lambda>p.
       submit nd (\<lambda>r. RReceipt (Some r))
         (TransactNameReg (nd_env nd) (tnp_PrivKey p) (tnp_Name p) (tnp_Data p) (tnp_Amount p)
            (tnp_Fee p) (nd_mem nd)))"

definition rpc_UnconfirmedTxs :: "handler" where
  "rpc_UnconfirmedTxs c e nd ps =
     Some (nd, ARes (RUnconfirmedTxs (UnconfirmedTxs (nd_mem nd))))"

definition rpc_SignTx :: "handler" where
  "rpc_SignTx c e nd ps =
     with_param nd (dec_SignTxParam c ps) (\<lambda>p.
       Some (nd, internal RTx
         (case stp_Tx p of
            Some t \<Rightarrow> SignTx (wire (nd_env nd)) (chain_id (nd_env nd)) (TxCall t) (stp_PrivAccounts p)
          | None \<Rightarrow> obind (check_privs 0 (stp_PrivAccounts p))
                     (\<lambda>_. Panic ''nil pointer dereference''))))"

definition rpc_NameRegEntry :: "handler" where
  "rpc_NameRegEntry c e nd ps =
     with_param nd (dec_NameRegEntryParam c ps) (\<lambda>name.
       Some (nd, internal REntry (namereg_Entry (nd_state nd) name)))"

definition rpc_NameRegEntries :: "handler" where
  "rpc_NameRegEntries c e nd ps =
     with_param nd (dec_FilterListParam c ps) (\<lambda>filters.
       Some (nd, internal RListNames (namereg_Entries (nd_state nd) filters)))"

section \<open>The method table\<close>

definition method_name :: "string \<Rightarrow> string" where
  "method_name m = ''erisdb.'' @ m"

definition getMethods :: "(string, handler) gomap" where
  "getMethods = map (\<lambda>(m, h). (method_name m, h))
    [(''getAccounts'', rpc_Accounts),
     (''getAccount'', rpc_Account),
     (''getStorage'', rpc_AccountStorage),
     (''getStorageAt'', rpc_AccountStorageAt),
     (''genPrivAccount'', rpc_GenPrivAccount),
     (''genPrivAccountFromKey'', rpc_GenPrivAccountFromKey),
     (''getBlockchainInfo'', rpc_BlockchainInfo),
     (''getGenesisHash'', rpc_GenesisHash),
     (''getLatestBlockHeight'', rpc_LatestBlockHeight),
     (''getLatestBlock'', rpc_LatestBlock),
     (''getBlocks'', rpc_Blocks),
     (''getBlock'', rpc_Block),
     (''getConsensusState'', rpc_ConsensusState),
     (''getValidators'', rpc_Validators),
     (''getNetworkInfo'', rpc_NetworkInfo),
     (''getClientVersion'', rpc_ClientVersion),
     (''getMoniker'', rpc_Moniker),
     (''getChainId'', rpc_ChainId),
     (''isListening'', rpc_Listening),
     (''getListeners'', rpc_Listeners),
     (''getPeers'', rpc_Peers),
     (''getPeer'', rpc_Peer),
     (''call'', rpc_Call),
     (''callCode'', rpc_CallCode),
     (''broadcastTx'', rpc_BroadcastTx),
     (''getUnconfirmedTxs'', rpc_UnconfirmedTxs),
     (''signTx'', rpc_SignTx),
     (''transact'', rpc_Transact),
     (''transactAndHold'', rpc_TransactAndHold),
     (''send'', rpc_Send),
     (''sendAndHold'', rpc_SendAndHold),
     (''transactNameReg'', rpc_TransactNameReg),
     (''getNameRegEntry'', rpc_NameRegEntry),
     (''getNameRegEntries'', rpc_NameRegEntries)]"

end
