(* ===== verification/Rpc_Service.thy ===== *)
theory Rpc_Service
  imports Rpc_Methods
begin

text \<open>
  The two JSON-RPC services on top of the methods: over HTTP (\<open>erisdb/json_service.go\<close>) and over
  websockets (\<open>erisdb/wsService.go\<close>). They share the shape of \<open>Process\<close>, which is modelled once
  with the two write functions as arguments; they differ in the event methods and in what a
  reply is (a status with a body, or the bytes given to the session). That writing to a client may
  itself fail is left out.
\<close>

section \<open>Dispatch\<close>

definition Process ::
  "(string \<Rightarrow> string \<Rightarrow> int \<Rightarrow> 'w outcome) \<Rightarrow> (string \<Rightarrow> rpc_result \<Rightarrow> 'w outcome) \<Rightarrow> (string \<Rightarrow> string) \<Rightarrow>
   (string, handler) gomap \<Rightarrow> rpc_codec \<Rightarrow> req_env \<Rightarrow> node \<Rightarrow> string \<Rightarrow>
   (node \<times> 'w outcome) option" where
  "Process writeError writeResponse parse_msg handlers c e nd msg =
     (case dec_Request c msg of
        Err er \<Rightarrow> Some (nd, writeError (parse_msg er) [] PARSE_ERROR)
      | Panic er \<Rightarrow> Some (nd, Panic er)
      | Ok req \<Rightarrow>
          (if req_JSONRPC req \<noteq> ''2.0''
           then Some (nd, writeError (''Wrong protocol version: '' @ req_JSONRPC req) (req_Id req)
                            INVALID_REQUEST)
           else
             (case map_of handlers (req_Method req) of
                None \<Rightarrow> Some (nd, writeError (''Method not found: '' @ req_Method req) (req_Id req)
                                METHOD_NOT_FOUND)
              | Some handler \<Rightarrow>
                  (case handler c e nd (req_Params req) of
                     None \<Rightarrow> None
                   | Some (nd', AErr errCode err) \<Rightarrow> Some (nd', writeError err (req_Id req) errCode)
                   | Some (nd', ARes resp) \<Rightarrow> Some (nd', writeResponse (req_Id req) resp)
                   | Some (nd', APanic er) \<Rightarrow> Some (nd', Panic er)))))"

section \<open>The service over HTTP\<close>

text \<open>
  The response writer of gin: \<open>WriteHeader\<close> only records a status, the first byte that is written sends
  the recorded one, and nothing that is sent can be taken back. The JSON encoder writes as it goes:
  \<open>enc_partial\<close> is what it has written of a response when it finds that it cannot encode the rest.
\<close>

record gin_writer =
  cx_status :: nat
  cx_sent :: "nat option"
  cx_body :: string

definition new_writer :: gin_writer where
  "new_writer = \<lparr> cx_status = 200, cx_sent = None, cx_body = [] \<rparr>"

definition WriteHeader :: "nat \<Rightarrow> 'a gin_writer_scheme \<Rightarrow> 'a gin_writer_scheme" where
  "WriteHeader code cx = (if code > 0 then cx\<lparr> cx_status := code \<rparr> else cx)"

definition WriteHeaderNow :: "'a gin_writer_scheme \<Rightarrow> 'a gin_writer_scheme" where
  "WriteHeaderNow cx = (if cx_sent cx = None then cx\<lparr> cx_sent := Some (cx_status cx) \<rparr> else cx)"

definition ctx_Write :: "string \<Rightarrow> 'a gin_writer_scheme \<Rightarrow> 'a gin_writer_scheme" where
  "ctx_Write s cx = (let cx1 = WriteHeaderNow cx in cx1\<lparr> cx_body := cx_body cx1 @ s \<rparr>)"

text \<open>What the client receives once the handler is done.\<close>

definition received :: "'a gin_writer_scheme \<Rightarrow> nat \<times> string" where
  "received cx = (case cx_sent cx of None \<Rightarrow> cx_status cx | Some code \<Rightarrow> code, cx_body cx)"

definition http_Error :: "string \<Rightarrow> nat \<Rightarrow> gin_writer \<Rightarrow> gin_writer" where
  "http_Error msg code w = ctx_Write (msg @ [CHR 0x0A]) (WriteHeader code w)"

definition Encode :: "rpc_codec \<Rightarrow> RPCResponse \<Rightarrow> gin_writer \<Rightarrow> gin_writer \<times> unit outcome" where
  "Encode c r w =
     (case enc_Response c r of
        Ok s \<Rightarrow> (ctx_Write s w, Ok ())
      | Err er \<Rightarrow> (if enc_partial c r = [] then w else ctx_Write (enc_partial c r) w, Err er)
      | Panic er \<Rightarrow> (if enc_partial c r = [] then w else ctx_Write (enc_partial c r) w, Panic er))"

definition json_writeError :: "rpc_codec \<Rightarrow> string \<Rightarrow> string \<Rightarrow> int \<Rightarrow> gin_writer \<Rightarrow> gin_writer outcome" where
  "json_writeError c msg rid code w =
     (case Encode c (NewRPCErrorResponse rid code msg) w of
        (w1, Ok _) \<Rightarrow> Ok (WriteHeader 200 w1)
      | (w1, Err er) \<Rightarrow> Ok (http_Error (''Failed to marshal standard error response: '' @ er) 500 w1)
      | (w1, Panic er) \<Rightarrow> Panic er)"

definition json_writeResponse :: "rpc_codec \<Rightarrow> string \<Rightarrow> rpc_result \<Rightarrow> gin_writer \<Rightarrow> gin_writer outcome" where
  "json_writeResponse c rid res w =
     (case Encode c (NewRPCResponse rid res) w of
        (w1, Ok _) \<Rightarrow> Ok (WriteHeader 200 w1)
      | (w1, Err er) \<Rightarrow> json_writeError c (''Internal error: '' @ er) rid INTERNAL_ERROR w1
      | (w1, Panic er) \<Rightarrow> Panic er)"

definition json_EventSubscribe :: "handler" where
  "json_EventSubscribe c e nd ps =
     with_param nd (dec_EventIdParam c ps) (\<lambda>eventId.
       let (subs', r) = es_add newEvents (re_now e) (re_rand e) eventId (nd_subs nd)
       in Some (nd\<lparr> nd_subs := subs' \<rparr>, internal REventSub r))"

definition json_EventUnsubscribe :: "handler" where
  "json_EventUnsubscribe c e nd ps =
     with_param nd (dec_SubIdParam c ps) (\<lambda>subId.
       let (evsw', r) = events_Unsubscribe subId (eventEmitter (nd_subs nd))
       in Some (nd\<lparr> nd_subs := (nd_subs nd)\<lparr> eventEmitter := evsw' \<rparr> \<rparr>, internal REventUnsub r))"

definition json_EventPoll :: "handler" where
  "json_EventPoll c e nd ps =
     with_param nd (dec_SubIdParam c ps) (\<lambda>subId.
       let (subs', r) = es_poll (re_now e) subId (nd_subs nd)
       in Some (nd\<lparr> nd_subs := subs' \<rparr>, internal RPollResponse r))"

definition json_handlers :: "(string, handler) gomap" where
  "json_handlers =
     AList.update (method_name ''eventPoll'') json_EventPoll
     (AList.update (method_name ''eventUnsubscribe'') json_EventUnsubscribe
     (AList.update (method_name ''eventSubscribe'') json_EventSubscribe getMethods))"

definition json_Process :: "rpc_codec \<Rightarrow> req_env \<Rightarrow> node \<Rightarrow> string \<Rightarrow> (node \<times> gin_writer outcome) option" where
  "json_Process c e nd body =
     Process (\<lambda>msg rid code. json_writeError c msg rid code new_writer)
       (\<lambda>rid res. json_writeResponse c rid res new_writer) (\<lambda>er. ''Failed to parse request: '' @ er)
       json_handlers c e nd body"

section \<open>The service over websockets\<close>

definition ws_writeError :: "rpc_codec \<Rightarrow> string \<Rightarrow> string \<Rightarrow> int \<Rightarrow> string outcome" where
  "ws_writeError c msg rid code =
     (case enc_Response c (NewRPCErrorResponse rid code msg) of
        Ok s \<Rightarrow> Ok s
      | Err er \<Rightarrow> Panic (''Failed to marshal standard error response.'' @ er)
      | Panic er \<Rightarrow> Panic er)"

definition ws_writeResponse :: "rpc_codec \<Rightarrow> string \<Rightarrow> rpc_result \<Rightarrow> string outcome" where
  "ws_writeResponse c rid res =
     (case enc_Response c (NewRPCResponse rid res) of
        Ok s \<Rightarrow> Ok s
      | Err er \<Rightarrow> ws_writeError c (''Internal error: '' @ er) rid INTERNAL_ERROR
      | Panic er \<Rightarrow> Panic er)"

definition ws_EventSubscribe :: "nat \<Rightarrow> handler" where
  "ws_EventSubscribe session c e nd ps =
     with_param nd (dec_EventIdParam c ps) (\<lambda>eventId.
       (case generateSubId (re_rand e) of
          Err er \<Rightarrow> Some (nd, AErr INTERNAL_ERROR er)
        | Panic er \<Rightarrow> Some (nd, APanic er)
        | Ok subId \<Rightarrow>
            (let (evsw', r) = events_Subscribe subId eventId (ToSession session subId)
                                (eventEmitter (nd_subs nd))
             in Some (nd\<lparr> nd_subs := (nd_subs nd)\<lparr> eventEmitter := evsw' \<rparr> \<rparr>,
                      internal (\<lambda>_. REventSub subId) r))))"

definition ws_EventUnsubscribe :: "handler" where
  "ws_EventUnsubscribe c e nd ps =
     with_param nd (dec_EventIdParam c ps) (\<lambda>eventId.
       let (evsw', r) = events_Unsubscribe eventId (eventEmitter (nd_subs nd))
       in Some (nd\<lparr> nd_subs := (nd_subs nd)\<lparr> eventEmitter := evsw' \<rparr> \<rparr>, internal REventUnsub r))"

definition ws_EventPoll :: "handler" where
  "ws_EventPoll c e nd ps = Some (nd, AErr INTERNAL_ERROR ''Cannot poll with websockets'')"

definition ws_handlers :: "nat \<Rightarrow> (string, handler) gomap" where
  "ws_handlers session =
     AList.update (method_name ''eventUnsubscribe'') ws_EventUnsubscribe
     (AList.update (method_name ''eventSubscribe'') (ws_EventSubscribe session) getMethods)"

definition ws_Process ::
  "rpc_codec \<Rightarrow> req_env \<Rightarrow> nat \<Rightarrow> node \<Rightarrow> string \<Rightarrow> (node \<times> string outcome) option" where
  "ws_Process c e session nd msg =
     Process (ws_writeError c) (ws_writeResponse c)
       (\<lambda>er. ''Failed to parse request: '' @ er @ '' . Raw: '' @ msg) (ws_handlers session) c e nd msg"

text \<open>
  The closure of a websocket subscription: it writes the event to the session under the id of the
  subscription and unsubscribes when the session refuses the message.
\<close>

definition ws_callback ::
  "rpc_codec \<Rightarrow> string \<Rightarrow> (string \<Rightarrow> bool) \<Rightarrow> EventData \<Rightarrow> EventSwitch \<Rightarrow> (EventSwitch \<times> string) outcome" where
  "ws_callback c subId session_Write ret evsw =
     obind (ws_writeResponse c subId (REventData ret)) (\<lambda>s.
       Ok (if session_Write s then evsw else fst (events_Unsubscribe subId evsw), s))"

section \<open>The handlers as a group\<close>

lemmas query_handlers = rpc_GenPrivAccount_def rpc_GenPrivAccountFromKey_def
  rpc_Accounts_def rpc_AccountStorage_def rpc_AccountStorageAt_def rpc_BlockchainInfo_def
  rpc_ChainId_def rpc_GenesisHash_def rpc_LatestBlockHeight_def rpc_LatestBlock_def rpc_Blocks_def
  rpc_Block_def rpc_ConsensusState_def rpc_Validators_def rpc_NetworkInfo_def rpc_ClientVersion_def
  rpc_Moniker_def rpc_Listening_def rpc_Listeners_def rpc_Peers_def rpc_Peer_def
  rpc_UnconfirmedTxs_def rpc_SignTx_def rpc_NameRegEntry_def rpc_NameRegEntries_def

lemmas submit_handlers = rpc_CallCode_def rpc_BroadcastTx_def rpc_Transact_def rpc_Send_def rpc_TransactNameReg_def
  rpc_TransactAndHold_def rpc_SendAndHold_def

lemmas event_handlers = json_EventSubscribe_def json_EventUnsubscribe_def json_EventPoll_def
  ws_EventSubscribe_def ws_EventUnsubscribe_def

lemma internal_not_invalid: "internal f r \<noteq> AErr INVALID_PARAMS msg"
  by (simp add: internal_def rpc_codes split: outcome.split)

lemma with_param_cases:
  assumes "with_param nd d k = Some (nd', a)"
  obtains p where "d = Ok p" "k p = Some (nd', a)"
  | msg where "nd' = nd" "a = AErr INVALID_PARAMS msg"
  | msg where "nd' = nd" "a = APanic msg"
  using assms by (cases d) (auto simp: with_param_def)

text \<open>What every request keeps of the node, and what it may do to the mempool.\<close>

definition appended :: "node \<Rightarrow> node \<Rightarrow> bool" where
  "appended nd nd' \<longleftrightarrow>
     nd_env nd' = nd_env nd \<and> nd_state nd' = nd_state nd \<and> nd_store nd' = nd_store nd \<and>
     nd_round nd' = nd_round nd \<and> nd_switch nd' = nd_switch nd \<and> nd_genesis nd' = nd_genesis nd \<and>
     (mem_txs (nd_mem nd') = mem_txs (nd_mem nd) \<or>
      (\<exists>tx. mem_txs (nd_mem nd') = mem_txs (nd_mem nd) @ [tx]))"

lemma appended_refl [simp]: "appended nd nd"
  by (simp add: appended_def)

lemma appended_subs [simp]: "appended nd (nd\<lparr> nd_subs := s \<rparr>)"
  by (simp add: appended_def)

lemma appended_cache [simp]: "appended nd (nd\<lparr> nd_mem := (nd_mem nd)\<lparr> mem_cache := c \<rparr> \<rparr>)"
  by (simp add: appended_def)

definition one_more :: "Mempool \<Rightarrow> Mempool \<Rightarrow> bool" where
  "one_more mem mem' \<longleftrightarrow> mem_txs mem' = mem_txs mem \<or> (\<exists>tx. mem_txs mem' = mem_txs mem @ [tx])"

lemma one_more_refl [simp]: "one_more mem mem"
  by (simp add: one_more_def)

lemma BroadcastTx_one_more: "one_more mem (fst (BroadcastTx T tx mem))"
proof (cases "AddTx (te_exec T) tx mem")
  case (Pair mem' r)
  then show ?thesis
    using AddTx_txs [OF Pair] by (cases r) (auto simp: BroadcastTx_def one_more_def)
qed

lemma sign_and_broadcast_one_more: "one_more mem (fst (sign_and_broadcast T pa tx mem))"
  by (simp add: sign_and_broadcast_def BroadcastTx_one_more split: outcome.split)

lemma with_account_one_more:
  "(\<And>pa. one_more mem (fst (k pa))) \<Longrightarrow> one_more mem (fst (with_account T key mem k))"
  by (simp add: with_account_def split: outcome.split)

lemma next_sequence_one_more:
  "one_more (snd (next_sequence a mem)) mem' \<Longrightarrow> one_more mem mem'"
  by (simp add: one_more_def next_sequence_keeps)

lemma sequence_broadcast_one_more:
  "one_more mem (fst (sign_and_broadcast T pa tx (snd (next_sequence a mem))))"
  by (rule next_sequence_one_more) (rule sign_and_broadcast_one_more)

lemma CallCode_one_more: "one_more mem (fst (CallCode T st mem a code data))"
  by (auto simp: CallCode_def one_more_def split: outcome.split prod.split)

lemma Transact_one_more: "one_more mem (fst (Transact T key addr d g f mem))"
  by (auto simp: Transact_def case_prod_beta intro!: with_account_one_more sequence_broadcast_one_more)

lemma Send_one_more: "one_more mem (fst (Send T key addr amt mem))"
  by (auto simp: Send_def case_prod_beta intro!: with_account_one_more sequence_broadcast_one_more)

lemma TransactNameReg_one_more: "one_more mem (fst (TransactNameReg T key name d amt f mem))"
  by (auto simp: TransactNameReg_def case_prod_beta intro!: with_account_one_more sequence_broadcast_one_more
      split: option.split)

lemma TransactAndHold_one_more:
  "one_more mem (fst (fst (TransactAndHold T wc arr key addr d g f (mem, evsw))))"
proof -
  obtain mem' r where t: "Transact T key addr d g f mem = (mem', r)" by fastforce
  then show ?thesis
    using Transact_one_more [of mem T key addr d g f]
    by (cases r) (simp_all add: TransactAndHold_def Let_def)
qed

lemma SendAndHold_one_more:
  "one_more mem (fst (fst (SendAndHold T wc arr key addr amt (mem, evsw))))"
proof -
  obtain mem' r where t: "Send T key addr amt mem = (mem', r)" by fastforce
  then have m: "one_more mem mem'"
    using Send_one_more [of mem T key addr amt] by simp
  have "fst (fst (SendAndHold T wc arr key addr amt (mem, evsw))) = mem'"
    by (simp add: SendAndHold_def t Let_def split: outcome.split option.split bool.split)
  with m show ?thesis by simp
qed

lemma appended_submit: "submit nd f r = Some (nd', a) \<Longrightarrow> one_more (nd_mem nd) (fst r) \<Longrightarrow> appended nd nd'"
  by (auto simp: submit_def appended_def one_more_def)

lemma appended_submit_hold:
  "submit_hold nd f r = Some (nd', a) \<Longrightarrow> one_more (nd_mem nd) (fst (fst r)) \<Longrightarrow> appended nd nd'"
  by (auto simp: submit_hold_def appended_def one_more_def)

lemma query_handler_keeps:
  assumes "with_param nd d (\<lambda>p. Some (nd, f p)) = Some (nd', a)"
  shows "nd' = nd"
  using assms by (cases d) (simp_all add: with_param_def)

lemma query_keeps: "(nd, x) = (nd', a) \<Longrightarrow> nd' = nd"
  by simp

lemma with_param_appended:
  assumes "with_param nd d k = Some (nd', a)" "\<And>p. k p = Some (nd', a) \<Longrightarrow> appended nd nd'"
  shows "appended nd nd'"
  using assms by (cases d) (auto simp: with_param_def)

lemma getMethods_appended:
  assumes "map_of getMethods m = Some h" "h c e nd ps = Some (nd', a)"
  shows "appended nd nd'"
proof -
  have "h \<in> snd ` set getMethods"
    using assms(1) by (metis image_eqI map_of_SomeD snd_conv)
  then consider (query) "h \<in> {rpc_GenPrivAccount, rpc_GenPrivAccountFromKey,
      rpc_Accounts, rpc_AccountStorage, rpc_AccountStorageAt, rpc_BlockchainInfo,
      rpc_ChainId, rpc_GenesisHash, rpc_LatestBlockHeight, rpc_LatestBlock, rpc_Blocks,
      rpc_Block, rpc_ConsensusState, rpc_Validators, rpc_NetworkInfo, rpc_ClientVersion,
      rpc_Moniker, rpc_Listening, rpc_Listeners, rpc_Peers, rpc_Peer,
      rpc_UnconfirmedTxs, rpc_SignTx, rpc_NameRegEntry, rpc_NameRegEntries}"
    | (account) "h = rpc_Account"
    | (call) "h = rpc_Call"
    | (submit) "h \<in> {rpc_CallCode, rpc_BroadcastTx, rpc_Transact, rpc_Send, rpc_TransactNameReg}"
    | (hold) "h \<in> {rpc_TransactAndHold, rpc_SendAndHold}"
    by (simp add: getMethods_def) blast
  then show ?thesis
  proof cases
    case query
    then have "nd' = nd"
      using assms(2) by (auto simp: query_handlers with_param_def split: outcome.splits)
    then show ?thesis by simp
  next
    case account
    then show ?thesis
      using assms(2)
      by (auto simp: rpc_Account_def split: prod.splits elim!: with_param_appended)
  next
    case call
    then show ?thesis
      using assms(2) by (auto simp: rpc_Call_def fire_all_def split: prod.splits elim!: with_param_appended)
  next
    case submit
    then show ?thesis
      using assms(2)
      by (auto simp: submit_handlers CallCode_one_more BroadcastTx_one_more Transact_one_more Send_one_more
          TransactNameReg_one_more elim!: with_param_appended appended_submit)
  next
    case hold
    then show ?thesis
      using assms(2)
      by (auto simp: submit_handlers TransactAndHold_one_more SendAndHold_one_more
          elim!: with_param_appended appended_submit_hold)
  qed
qed

lemma json_EventSubscribe_appended: "json_EventSubscribe c e nd ps = Some (nd', a) \<Longrightarrow> appended nd nd'"
  by (auto simp: json_EventSubscribe_def split: prod.splits elim!: with_param_appended)

lemma json_EventUnsubscribe_appended: "json_EventUnsubscribe c e nd ps = Some (nd', a) \<Longrightarrow> appended nd nd'"
  by (auto simp: json_EventUnsubscribe_def split: prod.splits elim!: with_param_appended)

lemma json_EventPoll_appended: "json_EventPoll c e nd ps = Some (nd', a) \<Longrightarrow> appended nd nd'"
  by (auto simp: json_EventPoll_def split: prod.splits elim!: with_param_appended)

lemma json_handlers_appended:
  assumes "map_of json_handlers m = Some h" "h c e nd ps = Some (nd', a)"
  shows "appended nd nd'"
  using assms
  by (auto simp: json_handlers_def split: if_splits
      intro: json_EventSubscribe_appended json_EventUnsubscribe_appended json_EventPoll_appended
        getMethods_appended)

lemma ws_EventSubscribe_appended: "ws_EventSubscribe n c e nd ps = Some (nd', a) \<Longrightarrow> appended nd nd'"
  by (auto simp: ws_EventSubscribe_def split: prod.splits outcome.splits elim!: with_param_appended)

lemma ws_EventUnsubscribe_appended: "ws_EventUnsubscribe c e nd ps = Some (nd', a) \<Longrightarrow> appended nd nd'"
  by (auto simp: ws_EventUnsubscribe_def split: prod.splits elim!: with_param_appended)

lemma ws_handlers_appended:
  assumes "map_of (ws_handlers n) m = Some h" "h c e nd ps = Some (nd', a)"
  shows "appended nd nd'"
  using assms
  by (auto simp: ws_handlers_def split: if_splits
      intro: ws_EventSubscribe_appended ws_EventUnsubscribe_appended getMethods_appended)

lemma Process_appended:
  assumes "\<And>m h ps nd' a. map_of hs m = Some h \<Longrightarrow> h c e nd ps = Some (nd', a) \<Longrightarrow> appended nd nd'"
    and "Process we wr pm hs c e nd msg = Some (nd', r)"
  shows "appended nd nd'"
proof (cases "dec_Request c msg")
  case (Ok req)
  show ?thesis
  proof (cases "map_of hs (req_Method req)")
    case None
    with Ok assms(2) show ?thesis
      by (auto simp: Process_def split: if_splits)
  next
    case (Some h)
    with Ok assms(2) assms(1) [OF Some, of "req_Params req"] show ?thesis
      by (auto simp: Process_def split: if_splits option.splits rpc_answer.splits)
  qed
qed (use assms(2) in \<open>auto simp: Process_def\<close>)

lemma json_Process_appended: "pred_option (\<lambda>(nd', r). appended nd nd') (json_Process c e nd body)"
  using Process_appended [OF json_handlers_appended]
  by (cases "json_Process c e nd body") (auto simp: json_Process_def)

lemma ws_Process_appended: "pred_option (\<lambda>(nd', r). appended nd nd') (ws_Process c e session nd msg)"
  using Process_appended [OF ws_handlers_appended]
  by (cases "ws_Process c e session nd msg") (auto simp: ws_Process_def)

section \<open>Properties\<close>

text \<open>
  A result that cannot be encoded to its end is answered with status 200 and a body that is no JSON:
  the part of the result that the encoder had already written, followed by the error response.
\<close>

theorem failed_encoding_garbles_reply:
  assumes "enc_Response c (NewRPCResponse rid res) = Err er" "enc_partial c (NewRPCResponse rid res) = p" "p \<noteq> []"
    and "enc_Response c (NewRPCErrorResponse rid INTERNAL_ERROR (''Internal error: '' @ er)) = Ok s"
  shows "\<exists>w. json_writeResponse c rid res new_writer = Ok w \<and> received w = (200, p @ s)"
  using assms
  by (simp add: json_writeResponse_def json_writeError_def Encode_def ctx_Write_def WriteHeader_def
      WriteHeaderNow_def new_writer_def received_def Let_def)

text \<open>Codec and node for the witnesses: one fixed request, empty data.\<close>

definition sample_codec :: "string \<Rightarrow> rpc_codec" where
  "sample_codec method =
     \<lparr> dec_Request = (\<lambda>_. Ok \<lparr> req_JSONRPC = ''2.0'', req_Method = method, req_Params = [], req_Id = ''1'' \<rparr>),
       dec_AddressParam = (\<lambda>_. Err ''x''), dec_FilterListParam = (\<lambda>_. Ok [None]),
       dec_PrivKeyParam = (\<lambda>_. Err ''x''), dec_StorageAtParam = (\<lambda>_. Err ''x''),
       dec_HeightParam = (\<lambda>_. Err ''x''), dec_EventIdParam = (\<lambda>_. Ok ''Bond''),
       dec_SubIdParam = (\<lambda>_. Ok ''01''), dec_PeerParam = (\<lambda>_. Err ''x''), dec_CallParam = (\<lambda>_. Err ''x''),
       dec_CallCodeParam = (\<lambda>_. Err ''x''), dec_SignTxParam = (\<lambda>_. Err ''x''),
       dec_TransactParam = (\<lambda>_. Err ''x''), dec_SendParam = (\<lambda>_. Err ''x''),
       dec_NameRegEntryParam = (\<lambda>_. Err ''x''), dec_TransactNameRegParam = (\<lambda>_. Err ''x''),
       dec_Tx = (\<lambda>_. Err ''x''), enc_Response = (\<lambda>_. Ok ''{}''), enc_partial = (\<lambda>_. []) \<rparr>"

definition sample_req :: req_env where
  "sample_req = \<lparr> re_now = 0, re_rand = Ok [1], re_newkey = sample_priv, re_arrivals = [], re_chan = 0 \<rparr>"

definition sample_node :: node where
  "sample_node =
     \<lparr> nd_env = sample_env, nd_state = sample_registry,
       nd_store = \<lparr> bs_Height = 0, LoadBlockMeta = (\<lambda>_. None), LoadBlock = (\<lambda>_. None) \<rparr>,
       nd_mem = NewMempool sample_registry, nd_subs = es_after [OpAdd 0 (Ok [1]) ''Bond''],
       nd_round = \<lparr> rnd_Height = 1, rnd_Round = 0, rnd_Step = 1, rnd_StartTime = [], rnd_CommitTime = [],
         rnd_Validators = NewValidatorSet [], rnd_Proposal = None \<rparr>,
       nd_switch = \<lparr> IsListening = True, sw_Listeners = [], sw_Peers = [] \<rparr>,
       nd_genesis = [], nd_version = [], nd_moniker = [] \<rparr>"

text \<open>
  Unsubscribing over HTTP reports success but keeps the subscription: its id can still be
  polled, and the poll returns what the cache had collected instead of an error.
\<close>

theorem json_unsubscribe_keeps_subscription:
  assumes "dec_SubIdParam c ps = Ok subId" "map_of (subs (nd_subs nd)) subId = Some r"
  shows "\<exists>nd' nd''. json_EventUnsubscribe c e nd ps = Some (nd', ARes (REventUnsub True)) \<and>
           json_EventPoll c e nd' ps = Some (nd'', ARes (RPollResponse (ec_events (heap (nd_subs nd) ! r))))"
  using assms
  by (simp add: json_EventUnsubscribe_def json_EventPoll_def with_param_def events_Unsubscribe_def
      internal_def es_poll_state)

lemma sample_subscription: "map_of (subs (nd_subs sample_node)) ''01'' = Some 0"
proof -
  have "generateSubId (Ok [1]) = Ok ''01''" by code_simp
  then show ?thesis
    by (simp add: sample_node_def es_after_def es_do_def es_add_state NewEventSubscriptions_def Let_def)
qed

theorem json_unsubscribe_keeps_subscription_witness:
  "\<exists>nd' nd'' evts. json_EventUnsubscribe (sample_codec []) sample_req sample_node [] = Some (nd', ARes (REventUnsub True)) \<and>
     json_EventPoll (sample_codec []) sample_req nd' [] = Some (nd'', ARes (RPollResponse evts))"
  using json_unsubscribe_keeps_subscription [OF _ sample_subscription, of "sample_codec []" "[]" sample_req]
  by (auto simp: sample_codec_def)

text \<open>
  A request for the accounts whose filter list holds a null is not answered with an error: the
  handler panics. A websocket session runs each request in a goroutine of its own, which recovers
  nothing, so that such a request ends the node.
\<close>

theorem null_filter_panics:
  assumes "dec_Request c msg = Ok \<lparr> req_JSONRPC = ''2.0'', req_Method = method_name ''getAccounts'',
             req_Params = ps, req_Id = rid \<rparr>"
    and "dec_FilterListParam c ps = Ok [None]"
  shows "ws_Process c e session nd msg = Some (nd, Panic ''nil pointer dereference'')"
  using assms
  by (simp add: ws_Process_def Process_def ws_handlers_def getMethods_def method_name_def rpc_Accounts_def
      with_param_def accounts_Accounts_def NewFilter_null internal_def)

theorem null_filter_panics_witness:
  "ws_Process (sample_codec (method_name ''getAccounts'')) sample_req 0 sample_node ''x'' =
     Some (sample_node, Panic ''nil pointer dereference'')"
  by (rule null_filter_panics [where ps = "[]" and rid = "''1''"]) (simp_all add: sample_codec_def)

text \<open>The websocket service offers every method of the HTTP service but polling.\<close>

lemma handler_keys:
  "keys (ws_handlers n :: (string, handler) gomap) = keys (json_handlers :: (string, handler) gomap) - {method_name ''eventPoll''}"
  by (simp add: ws_handlers_def json_handlers_def)
    (auto simp: getMethods_def method_name_def keys_def)

lemma ws_eventPoll_unknown: "map_of (ws_handlers n) (method_name ''eventPoll'') = None"
  by (simp add: ws_handlers_def getMethods_def method_name_def)

end
