(* ===== verification/Rest_Server.thy ===== *)
theory Rest_Server
  imports Rpc_Service Query_Parser Util_Regex
begin

text \<open>
  The REST server (\<open>erisdb/restServer.go\<close>) on the parts of the gin framework it uses: the status
  and body of the response writer (a status is only sent with the first write or at the end),
  the keys of the context, aborting a chain of handlers, and the recovery of panics. A handler
  gives the new context and node and, if it panics, the message; \<open>None\<close> means that it never
  returns. Finding the route of a request is left to the router: a request comes with the
  parameters of its path.

  A chain runs its handlers in order until one aborts. The middleware functions of the program
  call \<open>Next\<close> last or not at all, so nesting the calls or running them in sequence is the same.
  A body that cannot be decoded leaves the parameter at its zero value.
\<close>

section \<open>Contexts\<close>

datatype key_value = KBytes bytes | KInt int | KStr string | KFilters "FilterData list" | KBool bool

record http_request =
  hr_Method :: string
  hr_ContentType :: string
  hr_Params :: "(string \<times> string) list"
  hr_Query :: "(string \<times> string) list"
  hr_Body :: string

record gin_ctx = gin_writer +
  cx_aborted :: bool
  cx_Keys :: "(string, key_value) gomap"

record rest_env =
  rs_codec :: rpc_codec
  rs_enc :: "rpc_result option \<Rightarrow> string"
  rs_req :: req_env

definition new_ctx :: gin_ctx where
  "new_ctx = \<lparr> cx_status = 200, cx_sent = None, cx_body = [], cx_aborted = False, cx_Keys = [] \<rparr>"

definition Abort :: "gin_ctx \<Rightarrow> gin_ctx" where
  "Abort cx = cx\<lparr> cx_aborted := True \<rparr>"

definition AbortWithStatus :: "nat \<Rightarrow> gin_ctx \<Rightarrow> gin_ctx" where
  "AbortWithStatus code cx = Abort (WriteHeader code cx)"

definition ctx_Set :: "string \<Rightarrow> key_value \<Rightarrow> gin_ctx \<Rightarrow> gin_ctx" where
  "ctx_Set k v cx = cx\<lparr> cx_Keys := AList.update k v (cx_Keys cx) \<rparr>"

definition ctx_Get :: "string \<Rightarrow> gin_ctx \<Rightarrow> key_value option" where
  "ctx_Get k cx = map_of (cx_Keys cx) k"

definition lookup_str :: "(string \<times> string) list \<Rightarrow> string \<Rightarrow> string" where
  "lookup_str m k = (case map_of m k of None \<Rightarrow> [] | Some v \<Rightarrow> v)"

type_synonym rest_state = "gin_ctx \<times> node"
type_synonym rest_result = "(rest_state \<times> string option) option"
type_synonym rest_handler = "rest_env \<Rightarrow> http_request \<Rightarrow> rest_state \<Rightarrow> rest_result"

definition fine :: "rest_state \<Rightarrow> rest_result" where
  "fine st = Some (st, None)"

definition panics :: "string \<Rightarrow> rest_state \<Rightarrow> rest_result" where
  "panics e st = Some (st, Some e)"

text \<open>
  The end of every handler: \<open>if err != nil { c.AbortWithError(500, err) }\<close>, then status 200 and the
  encoded value, which after an error is the zero value \<open>zero\<close> (\<open>None\<close> for a nil pointer).
\<close>

definition rest_reply ::
  "rest_env \<Rightarrow> rpc_result option \<Rightarrow> rpc_result outcome \<Rightarrow> rest_state \<Rightarrow> rest_result" where
  "rest_reply E zero r st =
     (case r of
        Ok x \<Rightarrow> fine (ctx_Write (rs_enc E (Some x)) (WriteHeader 200 (fst st)), snd st)
      | Err e \<Rightarrow> fine (ctx_Write (rs_enc E zero) (WriteHeader 200 (AbortWithStatus 500 (fst st))), snd st)
      | Panic e \<Rightarrow> panics e st)"

definition ores :: "('a \<Rightarrow> rpc_result) \<Rightarrow> 'a outcome \<Rightarrow> rpc_result outcome" where
  "ores f r = obind r (\<lambda>x. Ok (f x))"

text \<open>\<open>if errD != nil { c.AbortWithError(500, errD) }\<close>, then the handler goes on.\<close>

definition rest_body ::
  "'p outcome \<Rightarrow> 'p \<Rightarrow> ('p \<Rightarrow> rest_state \<Rightarrow> rest_result) \<Rightarrow> rest_state \<Rightarrow> rest_result" where
  "rest_body d zero k st =
     (case d of
        Ok p \<Rightarrow> k p st
      | Err e \<Rightarrow> k zero (AbortWithStatus 500 (fst st), snd st)
      | Panic e \<Rightarrow> panics e st)"

definition must_get :: "string \<Rightarrow> gin_ctx \<Rightarrow> key_value outcome" where
  "must_get k cx =
     (case ctx_Get k cx of
        None \<Rightarrow> Panic (''Key '' @ quote @ k @ quote @ '' does not exist'')
      | Some v \<Rightarrow> Ok v)"

definition with_key ::
  "string \<Rightarrow> (key_value \<Rightarrow> 'a option) \<Rightarrow> ('a \<Rightarrow> rest_state \<Rightarrow> rest_result) \<Rightarrow> rest_state \<Rightarrow> rest_result" where
  "with_key k as f st =
     (case must_get k (fst st) of
        Ok v \<Rightarrow> (case as v of None \<Rightarrow> panics ''interface conversion'' st | Some a \<Rightarrow> f a st)
      | Err e \<Rightarrow> panics e st
      | Panic e \<Rightarrow> panics e st)"

definition as_bytes :: "key_value \<Rightarrow> bytes option" where
  "as_bytes v = (case v of KBytes b \<Rightarrow> Some b | _ \<Rightarrow> None)"

definition as_int :: "key_value \<Rightarrow> int option" where
  "as_int v = (case v of KInt i \<Rightarrow> Some i | _ \<Rightarrow> None)"

definition as_str :: "key_value \<Rightarrow> string option" where
  "as_str v = (case v of KStr s \<Rightarrow> Some s | _ \<Rightarrow> None)"

definition ctx_filters :: "gin_ctx \<Rightarrow> FilterData option list" where
  "ctx_filters cx = (case ctx_Get ''filters'' cx of Some (KFilters fs) \<Rightarrow> map Some fs | _ \<Rightarrow> [])"

section \<open>Middleware\<close>

definition contentTypeMW :: "rest_handler" where
  "contentTypeMW E r st =
     (if hr_Method r = ''POST'' \<and> hr_ContentType r \<noteq> ''application/json''
      then fine (AbortWithStatus 415 (fst st), snd st) else fine st)"

definition addressParam :: "rest_handler" where
  "addressParam E r st =
     (let addr = lookup_str (hr_Params r) ''address'';
          cx = (if \<not> IsAddress addr then AbortWithStatus 400 (fst st) else fst st);
          bts = (case DecodeString addr of None \<Rightarrow> [] | Some b \<Rightarrow> b)
      in fine (ctx_Set ''addrBts'' (KBytes bts) cx, snd st))"

definition nameParam :: "rest_handler" where
  "nameParam E r st = fine (ctx_Set ''name'' (KStr (lookup_str (hr_Params r) ''key'')) (fst st), snd st)"

definition keyParam :: "rest_handler" where
  "keyParam E r st =
     (case DecodeString (lookup_str (hr_Params r) ''key'') of
        None \<Rightarrow> fine (ctx_Set ''keyBts'' (KBytes []) (AbortWithStatus 400 (fst st)), snd st)
      | Some bts \<Rightarrow> fine (ctx_Set ''keyBts'' (KBytes bts) (fst st), snd st))"

definition heightParam :: "rest_handler" where
  "heightParam E r st =
     (let p = ParseInt (lookup_str (hr_Params r) ''height'');
          h = (case p of None \<Rightarrow> 0 | Some v \<Rightarrow> v);
          cx = (if p = None then AbortWithStatus 400 (fst st) else fst st);
          cx2 = (if h < 0 then AbortWithStatus 400 cx else cx)
      in fine (ctx_Set ''height'' (KInt h) cx2, snd st))"

definition subIdParam :: "rest_handler" where
  "subIdParam E r st =
     (let subId = lookup_str (hr_Params r) ''id'';
          cx = (if length subId \<noteq> 64 \<or> \<not> IsHex subId then AbortWithStatus 400 (fst st) else fst st)
      in fine (ctx_Set ''id'' (KStr subId) cx, snd st))"

definition peerAddressParam :: "rest_handler" where
  "peerAddressParam E r st =
     fine (ctx_Set ''address'' (KStr (lookup_str (hr_Params r) ''address'')) (fst st), snd st)"

definition parseTxModifier :: "rest_handler" where
  "parseTxModifier E r st =
     (let hold = lookup_str (hr_Query r) ''hold'' in
      if hold = ''true'' then fine (ctx_Set ''hold'' (KBool True) (fst st), snd st)
      else if hold \<noteq> [] \<and> hold \<noteq> ''false''
      then fine (Abort (ctx_Write (''tx hold must be either '' @ [CHR 0x27] @ ''true'' @ [CHR 0x27] @
               '' or '' @ [CHR 0x27] @ ''false'' @ [CHR 0x27] @ '', found: '' @ hold)
             (WriteHeader 400 (fst st))), snd st)
      else fine st)"

definition parseSearchQueryMW :: "rest_handler" where
  "parseSearchQueryMW E r st =
     (let q = lookup_str (hr_Query r) ''q'' in
      if q \<noteq> [] then
        (case parseSearchQuery q of
           Err e \<Rightarrow> fine (Abort (ctx_Write e (WriteHeader 400 (fst st))), snd st)
         | Panic e \<Rightarrow> panics e st
         | Ok data \<Rightarrow> fine (ctx_Set ''filters'' (KFilters data) (fst st), snd st))
      else fine st)"

section \<open>Handlers\<close>

definition handleGenPrivAcc :: "rest_handler" where
  "handleGenPrivAcc E r st =
     rest_reply E None (Ok (RPrivAccount (re_newkey (rs_req E)))) st"

definition handleAccounts :: "rest_handler" where
  "handleAccounts E r st =
     rest_reply E None (ores RAccountList (accounts_Accounts (nd_state (snd st)) (ctx_filters (fst st)))) st"

definition handleAccount :: "rest_handler" where
  "handleAccount E r st =
     with_key ''addrBts'' as_bytes (\<lambda>addr st.
       let nd = snd st; (acc, cache) = accounts_Account addr (mem_cache (nd_mem nd))
       in rest_reply E None (Ok (RAccount acc))
            (fst st, nd\<lparr> nd_mem := (nd_mem nd)\<lparr> mem_cache := cache \<rparr> \<rparr>)) st"

definition handleStorage :: "rest_handler" where
  "handleStorage E r st =
     with_key ''addrBts'' as_bytes (\<lambda>addr st.
       rest_reply E None (Ok (RStorage (accounts_Storage (nd_state (snd st)) addr))) st) st"

definition handleStorageAt :: "rest_handler" where
  "handleStorageAt E r st =
     with_key ''addrBts'' as_bytes (\<lambda>addr. with_key ''keyBts'' as_bytes (\<lambda>key st.
       rest_reply E None (ores RStorageItem (accounts_StorageAt (nd_state (snd st)) addr key)) st)) st"

definition handleBlockchainInfo :: "rest_handler" where
  "handleBlockchainInfo E r st =
     rest_reply E None (Ok (RBlockchainInfo (blockchain_Info (chain_id (nd_env (snd st))) (nd_genesis (snd st)) (nd_store (snd st))))) st"

definition handleGenesisHash :: "rest_handler" where
  "handleGenesisHash E r st =
     rest_reply E (Some (RGenesisHash [])) (Ok (RGenesisHash (nd_genesis (snd st)))) st"

definition handleChainId :: "rest_handler" where
  "handleChainId E r st =
     rest_reply E (Some (RChainId [])) (Ok (RChainId (chain_id (nd_env (snd st))))) st"

definition handleLatestBlockHeight :: "rest_handler" where
  "handleLatestBlockHeight E r st =
     rest_reply E (Some (RLatestBlockHeight 0)) (Ok (RLatestBlockHeight (LatestBlockHeight (nd_store (snd st))))) st"

definition handleLatestBlock :: "rest_handler" where
  "handleLatestBlock E r st =
     rest_reply E None (ores RBlock (LatestBlock (nd_store (snd st)))) st"

definition handleBlocks :: "rest_handler" where
  "handleBlocks E r st =
     (case blockchain_Blocks (nd_store (snd st)) (ctx_filters (fst st)) of
        None \<Rightarrow> None
      | Some r \<Rightarrow> rest_reply E None (ores RBlocks r) st)"

definition handleBlock :: "rest_handler" where
  "handleBlock E r st =
     with_key ''height'' as_int (\<lambda>height st.
       rest_reply E None (ores RBlock (blockchain_Block (nd_store (snd st)) height)) st) st"

definition handleConsensusState :: "rest_handler" where
  "handleConsensusState E r st =
     rest_reply E None (ores RConsensusState (consensus_State (nd_round (snd st)) (nd_switch (snd st)))) st"

definition handleValidatorList :: "rest_handler" where
  "handleValidatorList E r st =
     rest_reply E None (Ok (RValidatorList (consensus_Validators (nd_state (snd st))))) st"

definition handleEventSubscribe :: "rest_handler" where
  "handleEventSubscribe E r st =
     rest_body (dec_EventIdParam (rs_codec E) (hr_Body r)) [] (\<lambda>eventId st.
       let (subs', res) = es_add newEvents (re_now (rs_req E)) (re_rand (rs_req E)) eventId (nd_subs (snd st))
       in rest_reply E (Some (REventSub [])) (ores REventSub res) (fst st, (snd st)\<lparr> nd_subs := subs' \<rparr>)) st"

definition handleEventPoll :: "rest_handler" where
  "handleEventPoll E r st =
     with_key ''id'' as_str (\<lambda>subId st.
       let (subs', res) = es_poll (re_now (rs_req E)) subId (nd_subs (snd st))
       in rest_reply E (Some (RPollResponse [])) (ores RPollResponse res) (fst st, (snd st)\<lparr> nd_subs := subs' \<rparr>)) st"

definition handleEventUnsubscribe :: "rest_handler" where
  "handleEventUnsubscribe E r st =
     with_key ''id'' as_str (\<lambda>subId st.
       let (subs', err) = es_remove subId (nd_subs (snd st));
           res = (case err of None \<Rightarrow> Ok (REventUnsub True) | Some e \<Rightarrow> Err e)
       in rest_reply E (Some (REventUnsub True)) res (fst st, (snd st)\<lparr> nd_subs := subs' \<rparr>)) st"

definition handleNameRegEntries :: "rest_handler" where
  "handleNameRegEntries E r st =
     rest_reply E None (ores RListNames (namereg_Entries (nd_state (snd st)) (ctx_filters (fst st)))) st"

definition handleNameRegEntry :: "rest_handler" where
  "handleNameRegEntry E r st =
     with_key ''name'' as_str (\<lambda>name st.
       rest_reply E None (ores REntry (namereg_Entry (nd_state (snd st)) name)) st) st"

definition handleNetworkInfo :: "rest_handler" where
  "handleNetworkInfo E r st =
     rest_reply E None (Ok (RNetworkInfo (net_Info (nd_version (snd st)) (nd_moniker (snd st)) (nd_switch (snd st))))) st"

definition handleClientVersion :: "rest_handler" where
  "handleClientVersion E r st =
     rest_reply E (Some (RClientVersion [])) (Ok (RClientVersion (nd_version (snd st)))) st"

definition handleMoniker :: "rest_handler" where
  "handleMoniker E r st =
     rest_reply E (Some (RMoniker [])) (Ok (RMoniker (nd_moniker (snd st)))) st"

definition handleListening :: "rest_handler" where
  "handleListening E r st =
     rest_reply E (Some (RListening False)) (Ok (RListening (IsListening (nd_switch (snd st))))) st"

definition handleListeners :: "rest_handler" where
  "handleListeners E r st =
     rest_reply E (Some (RListeners [])) (Ok (RListeners (net_Listeners (nd_switch (snd st))))) st"

definition handlePeers :: "rest_handler" where
  "handlePeers E r st =
     rest_reply E None (Ok (RPeers (net_Peers (nd_switch (snd st))))) st"

definition handlePeer :: "rest_handler" where
  "handlePeer E r st =
     with_key ''address'' as_str (\<lambda>address st.
       rest_reply E None (ores RPeer (net_Peer (nd_switch (snd st)) address)) st) st"

definition handleBroadcastTx :: "rest_handler" where
  "handleBroadcastTx E r st =
     (case dec_Tx (rs_codec E) (hr_Body r) of
        Err e \<Rightarrow> panics ''Unknown Tx type'' (AbortWithStatus 500 (fst st), snd st)
      | Panic e \<Rightarrow> panics e st
      | Ok tx \<Rightarrow>
          (let (mem, res) = BroadcastTx (nd_env (snd st)) tx (nd_mem (snd st))
           in rest_reply E None (ores (\<lambda>x. RReceipt (Some x)) res) (fst st, (snd st)\<lparr> nd_mem := mem \<rparr>)))"

definition handleUnconfirmedTxs :: "rest_handler" where
  "handleUnconfirmedTxs E r st =
     rest_reply E None (Ok (RUnconfirmedTxs (UnconfirmedTxs (nd_mem (snd st))))) st"

definition handleCall :: "rest_handler" where
  "handleCall E r st =
     rest_body (dec_CallParam (rs_codec E) (hr_Body r)) \<lparr> cp_Address = [], cp_From = [], cp_Data = [] \<rparr>
       (\<lambda>p st.
          let (evs, res) = transactor_Call (nd_env (snd st)) (nd_state (snd st)) (cp_From p) (cp_Address p) (cp_Data p)
          in rest_reply E None (ores RCall res) (fst st, fire_all evs (snd st))) st"

definition handleCallCode :: "rest_handler" where
  "handleCallCode E r st =
     rest_body (dec_CallCodeParam (rs_codec E) (hr_Body r)) \<lparr> ccp_From = [], ccp_Code = [], ccp_Data = [] \<rparr>
       (\<lambda>p st.
          let (mem, res) = CallCode (nd_env (snd st)) (nd_state (snd st)) (nd_mem (snd st)) (ccp_From p) (ccp_Code p) (ccp_Data p)
          in rest_reply E None (ores RCall res) (fst st, (snd st)\<lparr> nd_mem := mem \<rparr>)) st"

definition handleTransact :: "rest_handler" where
  "handleTransact E r st =
     (let hold = (ctx_Get ''hold'' (fst st) \<noteq> None) in
      rest_body (dec_TransactParam (rs_codec E) (hr_Body r))
        \<lparr> tp_PrivKey = [], tp_Data = [], tp_Address = [], tp_Fee = 0, tp_GasLimit = 0 \<rparr>
        (\<lambda>p st.
           if hold then
             (let ((mem, evsw), res) = TransactAndHold (nd_env (snd st)) (re_chan (rs_req E))
                    (re_arrivals (rs_req E)) (tp_PrivKey p) (tp_Address p) (tp_Data p) (tp_GasLimit p)
                    (tp_Fee p) (nd_mem (snd st), eventEmitter (nd_subs (snd st)))
              in rest_reply E None (ores REventDataCall res)
                   (fst st, (snd st)\<lparr> nd_mem := mem, nd_subs := (nd_subs (snd st))\<lparr> eventEmitter := evsw \<rparr> \<rparr>))
           else
             (let (mem, res) = Transact (nd_env (snd st)) (tp_PrivKey p) (tp_Address p) (tp_Data p)
                    (tp_GasLimit p) (tp_Fee p) (nd_mem (snd st))
              in rest_reply E None (ores (\<lambda>x. RReceipt (Some x)) res)
                   (fst st, (snd st)\<lparr> nd_mem := mem \<rparr>))) st)"

definition handleTransactNameReg :: "rest_handler" where
  "handleTransactNameReg E r st =
     rest_body (dec_TransactNameRegParam (rs_codec E) (hr_Body r))
       \<lparr> tnp_PrivKey = [], tnp_Name = [], tnp_Data = [], tnp_Fee = 0, tnp_Amount = 0 \<rparr>
       (\<lambda>p st.
          let (mem, res) = TransactNameReg (nd_env (snd st)) (tnp_PrivKey p) (tnp_Name p) (tnp_Data p)
                 (tnp_Amount p) (tnp_Fee p) (nd_mem (snd st))
          in rest_reply E None (ores (\<lambda>x. RReceipt (Some x)) res) (fst st, (snd st)\<lparr> nd_mem := mem \<rparr>)) st"

definition handleSignTx :: "rest_handler" where
  "handleSignTx E r st =
     rest_body (dec_SignTxParam (rs_codec E) (hr_Body r)) \<lparr> stp_Tx = None, stp_PrivAccounts = [] \<rparr>
       (\<lambda>p st. rest_reply E None (ores RTx
          (case stp_Tx p of
             Some t \<Rightarrow> SignTx (wire (nd_env (snd st))) (chain_id (nd_env (snd st))) (TxCall t) (stp_PrivAccounts p)
           | None \<Rightarrow> obind (check_privs 0 (stp_PrivAccounts p)) (\<lambda>_. Panic ''nil pointer dereference''))) st) st"

section \<open>Routes\<close>

definition rest_Start :: "(string \<times> string, rest_handler list) gomap" where
  "rest_Start =
    [((''GET'', ''/accounts''), [parseSearchQueryMW, handleAccounts]),
     ((''GET'', ''/accounts/:address''), [addressParam, handleAccount]),
     ((''GET'', ''/accounts/:address/storage''), [addressParam, handleStorage]),
     ((''GET'', ''/accounts/:address/storage/:key''), [addressParam, keyParam, handleStorageAt]),
     ((''GET'', ''/blockchain''), [handleBlockchainInfo]),
     ((''GET'', ''/blockchain/chain_id''), [handleChainId]),
     ((''GET'', ''/blockchain/genesis_hash''), [handleGenesisHash]),
     ((''GET'', ''/blockchain/latest_block_height''), [handleLatestBlockHeight]),
     ((''GET'', ''/blockchain/latest_block''), [handleLatestBlock]),
     ((''GET'', ''/blockchain/blocks''), [parseSearchQueryMW, handleBlocks]),
     ((''GET'', ''/blockchain/block/:height''), [heightParam, handleBlock]),
     ((''GET'', ''/consensus''), [handleConsensusState]),
     ((''GET'', ''/consensus/validators''), [handleValidatorList]),
     ((''POST'', ''/event_subs''), [handleEventSubscribe]),
     ((''GET'', ''/event_subs/:id''), [handleEventPoll]),
     ((''DELETE'', ''/event_subs/:id''), [handleEventUnsubscribe]),
     ((''GET'', ''/namereg''), [parseSearchQueryMW, handleNameRegEntries]),
     ((''GET'', ''/namereg/:key''), [nameParam, handleNameRegEntry]),
     ((''GET'', ''/network''), [handleNetworkInfo]),
     ((''GET'', ''/network/client_version''), [handleClientVersion]),
     ((''GET'', ''/network/moniker''), [handleMoniker]),
     ((''GET'', ''/network/listening''), [handleListening]),
     ((''GET'', ''/network/listeners''), [handleListeners]),
     ((''GET'', ''/network/peers''), [handlePeers]),
     ((''GET'', ''/network/peers/:address''), [peerAddressParam, handlePeer]),
     ((''POST'', ''/txpool''), [handleBroadcastTx]),
     ((''GET'', ''/txpool''), [handleUnconfirmedTxs]),
     ((''POST'', ''/calls''), [handleCall]),
     ((''POST'', ''/codecalls''), [handleCallCode]),
     ((''GET'', ''/unsafe/pa_generator''), [handleGenPrivAcc]),
     ((''POST'', ''/unsafe/txpool''), [parseTxModifier, handleTransact]),
     ((''POST'', ''/unsafe/namereg/txpool''), [handleTransactNameReg]),
     ((''POST'', ''/unsafe/tx_signer''), [handleSignTx])]"

fun run_chain :: "rest_env \<Rightarrow> http_request \<Rightarrow> rest_handler list \<Rightarrow> rest_state \<Rightarrow> rest_result" where
  "run_chain E r [] st = fine st"
| "run_chain E r (h # hs) st =
     (if cx_aborted (fst st) then fine st
      else case h E r st of
             None \<Rightarrow> None
           | Some (st', Some e) \<Rightarrow> panics e st'
           | Some (st', None) \<Rightarrow> run_chain E r hs st')"

text \<open>\<open>gin.Recovery\<close> turns a panic into status 500; the status is sent when the chain is done.\<close>

definition serve ::
  "rest_env \<Rightarrow> http_request \<Rightarrow> rest_handler list \<Rightarrow> node \<Rightarrow> ((nat \<times> string) \<times> node) option" where
  "serve E r chain nd =
     map_option
       (\<lambda>((cx, nd'), p).
          let cx1 = WriteHeaderNow (case p of None \<Rightarrow> cx | Some e \<Rightarrow> AbortWithStatus 500 cx)
          in ((case cx_sent cx1 of None \<Rightarrow> 0 | Some s \<Rightarrow> s, cx_body cx1), nd'))
       (run_chain E r (contentTypeMW # chain) (new_ctx, nd))"

text \<open>A path without a route: the middleware runs, and the default body is written if it kept the status.\<close>

definition serve_not_found :: "rest_env \<Rightarrow> http_request \<Rightarrow> node \<Rightarrow> ((nat \<times> string) \<times> node) option" where
  "serve_not_found E r nd =
     map_option
       (\<lambda>((cx, nd'), p).
          let cx1 = (if cx_sent cx = None \<and> cx_status cx = 404 then ctx_Write ''404 page not found'' cx
                     else WriteHeaderNow cx)
          in ((case cx_sent cx1 of None \<Rightarrow> 0 | Some s \<Rightarrow> s, cx_body cx1), nd'))
       (run_chain E r [contentTypeMW] (new_ctx\<lparr> cx_status := 404 \<rparr>, nd))"

definition rest_serve ::
  "rest_env \<Rightarrow> http_request \<Rightarrow> string \<Rightarrow> node \<Rightarrow> ((nat \<times> string) \<times> node) option" where
  "rest_serve E r pattern nd =
     (case map_of rest_Start (hr_Method r, pattern) of
        None \<Rightarrow> serve_not_found E r nd
      | Some chain \<Rightarrow> serve E r chain nd)"

section \<open>Facts about the chain\<close>

lemmas ctx_defs = new_ctx_def WriteHeader_def WriteHeaderNow_def ctx_Write_def Abort_def
  AbortWithStatus_def ctx_Set_def ctx_Get_def

lemma contentType_GET: "hr_Method r = ''GET'' \<or> hr_Method r = ''DELETE'' \<Longrightarrow> contentTypeMW E r st = fine st"
  by (auto simp: contentTypeMW_def)

lemma rest_chain:
  "hr_Method r = ''GET'' \<Longrightarrow> rest_serve E r ''/accounts'' nd = serve E r [parseSearchQueryMW, handleAccounts] nd"
  "hr_Method r = ''GET'' \<Longrightarrow> rest_serve E r ''/accounts/:address'' nd = serve E r [addressParam, handleAccount] nd"
  "hr_Method r = ''GET'' \<Longrightarrow> rest_serve E r ''/event_subs/:id'' nd = serve E r [handleEventPoll] nd"
  "hr_Method r = ''DELETE'' \<Longrightarrow> rest_serve E r ''/event_subs/:id'' nd = serve E r [handleEventUnsubscribe] nd"
  "hr_Method r = ''POST'' \<Longrightarrow> rest_serve E r ''/event_subs'' nd = serve E r [handleEventSubscribe] nd"
  "hr_Method r = ''GET'' \<Longrightarrow> rest_serve E r ''/namereg/:key'' nd = serve E r [nameParam, handleNameRegEntry] nd"
  by (simp_all add: rest_serve_def rest_Start_def)

section \<open>What a request does to the node\<close>

definition into :: "node \<Rightarrow> rest_result \<Rightarrow> bool" where
  "into nd res \<longleftrightarrow> pred_option (\<lambda>(st', p). appended nd (snd st')) res"

definition keeps_node :: "rest_handler \<Rightarrow> bool" where
  "keeps_node h \<longleftrightarrow> (\<forall>E r st. pred_option (\<lambda>(st', p). snd st' = snd st) (h E r st))"

definition appends :: "rest_handler \<Rightarrow> bool" where
  "appends h \<longleftrightarrow> (\<forall>E r st. into (snd st) (h E r st))"

lemma into_None [simp]: "into nd None"
  by (simp add: into_def)

lemma into_panics [simp]: "appended nd (snd st) \<Longrightarrow> into nd (panics e st)"
  by (simp add: into_def panics_def)

lemma into_rest_reply [simp, intro!]: "appended nd (snd st) \<Longrightarrow> into nd (rest_reply E z r st)"
  by (simp add: into_def rest_reply_def fine_def panics_def split: outcome.split)

lemma into_rest_body [intro!]:
  assumes "appended nd (snd st)" "\<And>p st'. snd st' = snd st \<Longrightarrow> into nd (k p st')"
  shows "into nd (rest_body d z k st)"
  using assms by (simp add: rest_body_def split: outcome.split)

lemma into_with_key [intro!]:
  assumes "appended nd (snd st)" "\<And>a. into nd (f a st)"
  shows "into nd (with_key k as f st)"
  using assms by (simp add: with_key_def split: outcome.split option.split)

lemma appended_mem: "one_more (nd_mem nd) mem \<Longrightarrow> appended nd (nd\<lparr> nd_mem := mem \<rparr>)"
  by (simp add: appended_def one_more_def)

lemma appended_mem_subs:
  "one_more (nd_mem nd) mem \<Longrightarrow> appended nd (nd\<lparr> nd_mem := mem, nd_subs := s \<rparr>)"
  by (simp add: appended_def one_more_def)

lemma appended_fire_all [simp]: "appended nd (fire_all evs nd)"
  by (simp add: fire_all_def)

lemmas read_handlers = handleGenPrivAcc_def handleAccounts_def handleAccount_def handleStorage_def
  handleStorageAt_def handleBlockchainInfo_def handleGenesisHash_def handleChainId_def
  handleLatestBlockHeight_def handleLatestBlock_def handleBlocks_def handleBlock_def
  handleConsensusState_def handleValidatorList_def handleNameRegEntries_def handleNameRegEntry_def
  handleNetworkInfo_def handleClientVersion_def handleMoniker_def handleListening_def
  handleListeners_def handlePeers_def handlePeer_def handleUnconfirmedTxs_def handleSignTx_def

lemma read_handlers_append:
  "list_all appends [handleGenPrivAcc, handleAccounts, handleAccount, handleStorage, handleStorageAt,
     handleBlockchainInfo, handleGenesisHash, handleChainId, handleLatestBlockHeight, handleLatestBlock,
     handleBlocks, handleBlock, handleConsensusState, handleValidatorList, handleNameRegEntries,
     handleNameRegEntry, handleNetworkInfo, handleClientVersion, handleMoniker, handleListening,
     handleListeners, handlePeers, handlePeer, handleUnconfirmedTxs, handleSignTx]"
  by (simp add: appends_def) (auto simp: read_handlers split: prod.split option.split)

lemma event_handlers_append:
  "list_all appends [handleEventSubscribe, handleEventPoll, handleEventUnsubscribe]"
  by (simp add: appends_def)
    (auto simp: handleEventSubscribe_def handleEventPoll_def handleEventUnsubscribe_def split: prod.split)

lemma handleBroadcastTx_appends: "appends handleBroadcastTx"
  by (auto simp: appends_def handleBroadcastTx_def case_prod_beta intro!: appended_mem BroadcastTx_one_more
      split: outcome.split)

lemma handleCalls_append: "appends handleCall" "appends handleCallCode"
  by (auto simp: appends_def handleCall_def handleCallCode_def case_prod_beta
      intro!: appended_mem CallCode_one_more)

lemma handleTransact_appends: "appends handleTransact"
  by (auto simp: appends_def handleTransact_def case_prod_beta Let_def
      intro!: appended_mem appended_mem_subs Transact_one_more TransactAndHold_one_more)

lemma handleTransactNameReg_appends: "appends handleTransactNameReg"
  by (auto simp: appends_def handleTransactNameReg_def case_prod_beta
      intro!: appended_mem TransactNameReg_one_more)

lemma middleware_keeps:
  "list_all keeps_node [contentTypeMW, addressParam, nameParam, keyParam, heightParam, subIdParam,
     peerAddressParam, parseTxModifier, parseSearchQueryMW]"
  by (simp add: keeps_node_def contentTypeMW_def addressParam_def nameParam_def keyParam_def heightParam_def
      subIdParam_def peerAddressParam_def parseTxModifier_def parseSearchQueryMW_def fine_def panics_def Let_def
      split: outcome.split option.split)

fun appending_chain :: "rest_handler list \<Rightarrow> bool" where
  "appending_chain [] = True"
| "appending_chain [h] = appends h"
| "appending_chain (h # hs) = (keeps_node h \<and> appending_chain hs)"

lemma run_chain_into:
  "appending_chain hs \<Longrightarrow> into (snd st) (run_chain E r hs st)"
proof (induction hs arbitrary: st rule: appending_chain.induct)
  case 1
  then show ?case by (simp add: into_def fine_def)
next
  case (2 h)
  then have "into (snd st) (h E r st)" unfolding appending_chain.simps appends_def by blast
  then show ?case by (auto simp: into_def fine_def panics_def split: option.split)
next
  case (3 h h' hs)
  then have k: "pred_option (\<lambda>(st', p). snd st' = snd st) (h E r st)"
    and rest: "\<And>st'. into (snd st') (run_chain E r (h' # hs) st')"
    unfolding appending_chain.simps keeps_node_def by blast+
  show ?case
  proof (cases "h E r st")
    case (Some a)
    obtain st' p where a: "a = (st', p)" by fastforce
    then have "snd st' = snd st" using k Some by simp
    then show ?thesis
      using rest [of st'] Some a
      by (cases p) (auto simp: into_def fine_def panics_def simp del: run_chain.simps(2) simp add: run_chain.simps(2) [of E r h])
  qed (simp add: into_def fine_def)
qed

lemma rest_Start_appending: "list_all (\<lambda>(route, chain). appending_chain (contentTypeMW # chain)) rest_Start"
  using read_handlers_append event_handlers_append middleware_keeps
  by (simp add: rest_Start_def handleBroadcastTx_appends handleCalls_append handleTransact_appends
      handleTransactNameReg_appends)

lemma serve_appended:
  assumes "appending_chain (contentTypeMW # chain)"
  shows "pred_option (\<lambda>(reply, nd'). appended nd nd') (serve E r chain nd)"
  using run_chain_into [OF assms, of "(new_ctx, nd)" E r]
  by (cases "run_chain E r (contentTypeMW # chain) (new_ctx, nd)")
    (auto simp: serve_def into_def Let_def simp del: run_chain.simps)

lemma rest_serve_appended: "pred_option (\<lambda>(reply, nd'). appended nd nd') (rest_serve E r pattern nd)"
proof (cases "map_of rest_Start (hr_Method r, pattern)")
  case None
  then show ?thesis
    by (simp add: rest_serve_def serve_not_found_def contentTypeMW_def fine_def Let_def)
next
  case (Some chain)
  then have "((hr_Method r, pattern), chain) \<in> set rest_Start" by (rule map_of_SomeD)
  then have "appending_chain (contentTypeMW # chain)"
    using rest_Start_appending by (fastforce simp: list_all_iff)
  then show ?thesis
    using Some by (simp add: rest_serve_def serve_appended)
qed

section \<open>Properties\<close>

text \<open>
  C25: Whatever a client sends, as JSON-RPC over HTTP, as JSON-RPC over a websocket or to a route of the
  REST interface, a request never changes the consensus state, the block store, the consensus round
  or the peers, and it leaves the list of unconfirmed transactions as it was or with one
  transaction more at its end.
\<close>

theorem rpc_request_appends_at_most_one_tx:
  "pred_option (\<lambda>(nd', r). appended nd nd') (json_Process c e nd body) \<and>
   pred_option (\<lambda>(nd', r). appended nd nd') (ws_Process c e session nd body) \<and>
   pred_option (\<lambda>(reply, nd'). appended nd nd') (rest_serve E r pattern nd)"
  by (intro conjI json_Process_appended ws_Process_appended rest_serve_appended)

text \<open>
  Asking for an account by address: a parameter that is not forty hexadecimal digits is answered
  with status 400 and an empty body, and the handler is not run; any other is decoded and answered
  with status 200 and the account at these bytes.
\<close>

theorem rest_account_by_address:
  assumes "hr_Method r = ''GET''"
  shows "rest_serve E r ''/accounts/:address'' nd =
         (let addr = lookup_str (hr_Params r) ''address'' in
          if IsAddress addr
          then (let (acc, cache) = accounts_Account (the (DecodeString addr)) (mem_cache (nd_mem nd)) in
                Some ((200, rs_enc E (Some (RAccount acc))), nd\<lparr> nd_mem := (nd_mem nd)\<lparr> mem_cache := cache \<rparr> \<rparr>))
          else Some ((400, []), nd))"
proof (cases "IsAddress (lookup_str (hr_Params r) ''address'')")
  case True
  then obtain b where "DecodeString (lookup_str (hr_Params r) ''address'') = Some b"
    using IsAddress_iff_decodes by blast
  with True show ?thesis
    by (cases "accounts_Account b (mem_cache (nd_mem nd))")
       (simp add: rest_chain(2) [OF assms] serve_def contentType_GET assms fine_def addressParam_def
        handleAccount_def with_key_def must_get_def as_bytes_def rest_reply_def ctx_defs Let_def)
next
  case False
  then show ?thesis
    by (simp add: rest_chain(2) [OF assms] serve_def contentType_GET assms fine_def addressParam_def
        ctx_defs Let_def)
qed

definition sample_rest :: rest_env where
  "sample_rest = \<lparr> rs_codec = sample_codec [], rs_enc = (\<lambda>r. case r of None \<Rightarrow> ''null'' | Some _ \<Rightarrow> ''x''),
                   rs_req = sample_req \<rparr>"

definition sample_get :: "(string \<times> string) list \<Rightarrow> (string \<times> string) list \<Rightarrow> http_request" where
  "sample_get params query =
     \<lparr> hr_Method = ''GET'', hr_ContentType = [], hr_Params = params, hr_Query = query, hr_Body = [] \<rparr>"

theorem rest_account_by_address_witness:
  "rest_serve sample_rest (sample_get [(''address'', ''zz'')] []) ''/accounts/:address'' sample_node =
     Some ((400, []), sample_node)"
proof -
  have "\<not> IsAddress ''zz''" by code_simp
  then show ?thesis
    using rest_account_by_address [of "sample_get [(''address'', ''zz'')] []" sample_rest sample_node]
    by (simp add: sample_get_def lookup_str_def)
qed

text \<open>
  A search over the accounts with a query that prints valid filters is answered with status 200
  and the list of exactly the accounts that satisfy all of them.
\<close>

theorem rest_account_search:
  assumes "hr_Method r = ''GET''" "lookup_str (hr_Query r) ''q'' = print_query fds"
    and "list_all printable fds" "list_all account_valid fds"
  shows "rest_serve E r ''/accounts'' nd =
         Some ((200, rs_enc E (Some (RAccountList
           (filter (\<lambda>acc. list_all (\<lambda>fd. account_sem fd acc) fds) (map snd (st_accounts (nd_state nd))))))), nd)"
proof -
  have acc: "accounts_Accounts (nd_state nd) (map Some fds) =
      Ok (filter (\<lambda>acc. list_all (\<lambda>fd. account_sem fd acc) fds) (map snd (st_accounts (nd_state nd))))"
  proof -
    have "NewFilter accounts_filterFactory (map Some fds) =
          Ok (\<lambda>v. \<forall>fd\<in>set fds. field_match acc_of (account_sem fd) v)"
      using assms(4) by (subst accounts_ff.NewFilter_Ok_iff) (simp add: list_all_iff)
    then show ?thesis
      by (simp add: accounts_Accounts_def field_match_def acc_of_def list_all_iff)
  qed
  have "parseSearchQuery (print_query fds) = Ok fds"
    using assms(3) by (rule parse_print)
  then have q: "parseSearchQueryMW E r (new_ctx, nd) =
      fine (if print_query fds \<noteq> [] then ctx_Set ''filters'' (KFilters fds) new_ctx else new_ctx, nd)"
    by (simp add: parseSearchQueryMW_def assms(2))
  define cx where "cx = (if print_query fds \<noteq> [] then ctx_Set ''filters'' (KFilters fds) new_ctx else new_ctx)"
  have fresh: "cx_aborted cx = False" "cx_sent cx = None" "cx_body cx = []" "cx_aborted new_ctx = False"
    by (simp_all add: cx_def ctx_defs)
  have "ctx_filters cx = map Some fds"
  proof (cases "fds = []")
    case True
    then show ?thesis by (simp add: cx_def print_query_def ctx_filters_def ctx_defs)
  next
    case False
    then have "print_query fds \<noteq> []"
      by (cases fds rule: remdups_adj.cases) (auto simp: print_query_def print_fd_def)
    then show ?thesis by (simp add: cx_def ctx_filters_def ctx_defs)
  qed
  then have "handleAccounts E r (cx, nd) =
      fine (ctx_Write (rs_enc E (Some (RAccountList
        (filter (\<lambda>acc. list_all (\<lambda>fd. account_sem fd acc) fds) (map snd (st_accounts (nd_state nd)))))))
        (WriteHeader 200 cx), nd)"
    by (simp add: handleAccounts_def acc ores_def rest_reply_def)
  then have "run_chain E r [contentTypeMW, parseSearchQueryMW, handleAccounts] (new_ctx, nd) =
      fine (ctx_Write (rs_enc E (Some (RAccountList
        (filter (\<lambda>acc. list_all (\<lambda>fd. account_sem fd acc) fds) (map snd (st_accounts (nd_state nd)))))))
        (WriteHeader 200 cx), nd)"
    by (simp add: contentType_GET assms(1) fine_def q [folded cx_def] fresh)
  then show ?thesis
    by (simp add: rest_chain(1) [OF assms(1)] serve_def fine_def fresh WriteHeader_def WriteHeaderNow_def
        ctx_Write_def Let_def del: run_chain.simps)
qed

theorem rest_account_search_witness:
  "rest_serve sample_rest (sample_get [] [(''q'', ''balance:>=100'')]) ''/accounts'' sample_node =
     Some ((200, ''x''), sample_node)"
proof -
  have "list_all printable [mk_fd ''balance'' ''>='' ''100'']"
    by (simp add: printable_def mk_fd_def)
  moreover have "list_all account_valid [mk_fd ''balance'' ''>='' ''100'']"
    by (simp add: account_valid_def mk_fd_def EqualFold_refl range_valid_def number_of_value_def cmp_of_def
        ParseInt_def parse_unsigned_def digit_val_def int64_simps)
  ultimately show ?thesis
    using rest_account_search [of "sample_get [] [(''q'', ''balance:>=100'')]"
        "[mk_fd ''balance'' ''>='' ''100'']" sample_rest sample_node]
    by (simp add: sample_get_def lookup_str_def print_query_def print_fd_def mk_fd_def sample_rest_def)
qed

text \<open>
  Polling and ending a subscription over REST never works: their routes lack the middleware that
  sets the id, so every such request panics in the handler and is answered with status 500, and
  the subscriptions stay as they are.
\<close>

theorem rest_event_routes_always_fail:
  "rest_serve E (r\<lparr> hr_Method := ''GET'' \<rparr>) ''/event_subs/:id'' nd = Some ((500, []), nd) \<and>
   rest_serve E (r\<lparr> hr_Method := ''DELETE'' \<rparr>) ''/event_subs/:id'' nd = Some ((500, []), nd)"
  by (simp add: rest_chain serve_def contentType_GET fine_def panics_def handleEventPoll_def
      handleEventUnsubscribe_def with_key_def must_get_def ctx_defs)

text \<open>
  An error of the pipe is answered with status 200: after the handler has recorded status 500 it
  goes on, sets status 200 and writes the encoding of nil; for example for a name that is not
  registered.
\<close>

theorem rest_error_has_status_200:
  assumes "hr_Method r = ''GET''" "State_GetNameRegEntry (nd_state nd) (lookup_str (hr_Params r) ''key'') = None"
  shows "rest_serve E r ''/namereg/:key'' nd = Some ((200, rs_enc E None), nd)"
  using assms(2)
  by (simp add: rest_chain(6) [OF assms(1)] serve_def contentType_GET assms(1) fine_def nameParam_def
      handleNameRegEntry_def with_key_def must_get_def as_str_def namereg_Entry_def ores_def rest_reply_def
      ctx_defs)

theorem rest_error_has_status_200_witness:
  "rest_serve sample_rest (sample_get [(''key'', ''c'')] []) ''/namereg/:key'' sample_node =
     Some ((200, ''null''), sample_node)"
  using rest_error_has_status_200 [of "sample_get [(''key'', ''c'')] []" sample_node sample_rest]
  by (simp add: sample_get_def lookup_str_def sample_node_def sample_registry_def State_GetNameRegEntry_def
      sample_rest_def)

text \<open>
  A subscription request whose body cannot be decoded is answered with status 200 and creates a
  subscription to the event with the empty name.
\<close>

theorem rest_malformed_subscribe_succeeds:
  assumes "hr_Method r = ''POST''" "hr_ContentType r = ''application/json''"
    and "dec_EventIdParam (rs_codec E) (hr_Body r) = Err e" "generateSubId (re_rand (rs_req E)) = Ok subId"
  shows "\<exists>nd'. rest_serve E r ''/event_subs'' nd = Some ((200, rs_enc E (Some (REventSub subId))), nd') \<and>
           map_of (subs (nd_subs nd')) subId = Some (length (heap (nd_subs nd)))"
  using assms(2-)
  by (simp add: rest_chain(5) [OF assms(1)] serve_def contentTypeMW_def fine_def handleEventSubscribe_def
      rest_body_def es_add_def newEvents_def events_Subscribe_def ores_def rest_reply_def ctx_defs Let_def)

theorem rest_malformed_subscribe_succeeds_witness:
  "\<exists>nd'. rest_serve (sample_rest\<lparr> rs_codec := (sample_codec [])\<lparr> dec_EventIdParam := (\<lambda>_. Err ''bad'') \<rparr> \<rparr>)
     \<lparr> hr_Method = ''POST'', hr_ContentType = ''application/json'', hr_Params = [], hr_Query = [], hr_Body = ''?'' \<rparr>
     ''/event_subs'' sample_node = Some ((200, ''x''), nd')"
proof -
  have "generateSubId (Ok [1]) = Ok ''01''" by code_simp
  then show ?thesis
    using rest_malformed_subscribe_succeeds [of "\<lparr> hr_Method = ''POST'', hr_ContentType = ''application/json'',
        hr_Params = [], hr_Query = [], hr_Body = ''?'' \<rparr>"
        "sample_rest\<lparr> rs_codec := (sample_codec [])\<lparr> dec_EventIdParam := (\<lambda>_. Err ''bad'') \<rparr> \<rparr>" "''bad''" "''01''"
        sample_node]
    by (auto simp: sample_rest_def sample_req_def)
qed

end
