(* ===== verification/WebSocket_Server.thy ===== *)
theory WebSocket_Server
  imports Session_Manager Server_Config
begin

text \<open>
  The websocket server of \<open>src/server/websocket.go\<close>: it upgrades a request to a websocket
  connection, asks the session manager for a session and starts the session. Beside the server the
  state has the network connections that are open. Upgrading is done by a third-party package: its
  result, a connection or an error, and what it wrote to the response are an argument of the
  handler. A connection that was upgraded has been taken over from the HTTP server (\<open>hijacked\<close>),
  and what is written to the response after that is lost.
\<close>

section \<open>Responses\<close>

record http_writer =
  hijacked :: bool
  w_status :: "nat option"
  w_body :: string

definition http_Error :: "string \<Rightarrow> nat \<Rightarrow> http_writer \<Rightarrow> http_writer" where
  "http_Error msg code w =
     (if hijacked w then w
      else w\<lparr>w_status := (if w_status w = None then Some code else w_status w),
             w_body := w_body w @ msg @ [CHR 0x0A]\<rparr>)"

section \<open>The server\<close>

record WebSocketServer =
  upgrader :: "int \<times> int"
  wss_running :: bool
  wss_maxSessions :: uint
  sessionManager :: SessionManager
  wss_config :: "ServerConfig option"
  allOrigins :: bool

definition NewWebSocketServer :: "uint \<Rightarrow> WebSocketServer option" where
  "NewWebSocketServer n = map_option (\<lambda>sm.
     \<lparr>upgrader = (0, 0), wss_running = False, wss_maxSessions = n, sessionManager = sm,
      wss_config = None, allOrigins = False\<rparr>) (NewSessionManager n)"

definition wss_Start :: "ServerConfig \<Rightarrow> WebSocketServer \<Rightarrow> WebSocketServer" where
  "wss_Start cfg ws =
     ws\<lparr>wss_config := Some cfg,
        upgrader := (sint (ReadBufferSize (cfgWebSocket cfg)), sint (WriteBufferSize (cfgWebSocket cfg))),
        wss_running := True\<rparr>"

definition wss_ShutDown :: "WebSocketServer \<Rightarrow> WebSocketServer" where
  "wss_ShutDown ws = ws\<lparr>sessionManager := Shutdown (sessionManager ws), wss_running := False\<rparr>"

type_synonym wss_state = "WebSocketServer \<times> nat list"

definition wss_handleFunc ::
  "nat outcome \<times> http_writer \<Rightarrow> wss_state \<Rightarrow> (wss_state \<times> http_writer outcome) option" where
  "wss_handleFunc up st =
     (case up of
        (Err uErr, w) \<Rightarrow>
          Some (st, Ok (http_Error (''Failed to upgrade to websocket connection: '' @ uErr) 400 w))
      | (Panic e, w) \<Rightarrow> Some (st, Panic e)
      | (Ok conn, w) \<Rightarrow>
          (let ws = fst st; conns = snd st @ [conn] in
           case createSession (sessionManager ws) conn of
             Err cErr \<Rightarrow>
               Some ((ws, conns), Ok (http_Error (''Failed to establish websocket connection: '' @ cErr) 503 w))
           | Panic e \<Rightarrow> Some ((ws, conns), Panic e)
           | Ok (session, sm) \<Rightarrow>
               map_option (\<lambda>sm'. ((ws\<lparr>sessionManager := sm'\<rparr>, conns), Ok w)) (Open sm session)))"

text \<open>\<open>WSSession.Close\<close> with the network connection it closes.\<close>

definition wss_close :: "nat \<Rightarrow> wss_state \<Rightarrow> wss_state option" where
  "wss_close session st =
     (let ws = fst st; s = heap (sessionManager ws) ! session in
      map_option
        (\<lambda>sm. (ws\<lparr>sessionManager := sm\<rparr>, if closed s then snd st else removeAll (wsConn s) (snd st)))
        (Close (sessionManager ws) session))"

section \<open>Runs\<close>

text \<open>A connection from \<open>Upgrade\<close> is a new object.\<close>

definition new_conn :: "nat outcome \<Rightarrow> wss_state \<Rightarrow> bool" where
  "new_conn r st \<longleftrightarrow>
     (case r of
        Ok conn \<Rightarrow> conn \<notin> set (snd st) \<and> conn \<notin> wsConn ` set (heap (sessionManager (fst st)))
      | Err e \<Rightarrow> True
      | Panic e \<Rightarrow> True)"

inductive wss_step :: "wss_state \<Rightarrow> wss_state \<Rightarrow> bool" where
  starting: "wss_step (ws, conns) (wss_Start cfg ws, conns)"
| shutting: "wss_step (ws, conns) (wss_ShutDown ws, conns)"
| request: "new_conn (fst up) st \<Longrightarrow> wss_handleFunc up st = Some (st', r) \<Longrightarrow> wss_step st st'"
| writing: "session < length (heap (sessionManager ws)) \<Longrightarrow>
    Write (sessionManager ws) session msg = Some (Ok sm) \<Longrightarrow>
    wss_step (ws, conns) (ws\<lparr>sessionManager := sm\<rparr>, conns)"
| closing: "session < length (heap (sessionManager (fst st))) \<Longrightarrow> wss_close session st = Some st' \<Longrightarrow>
    wss_step st st'"
| observe_open: "wss_step (ws, conns)
    (ws\<lparr>sessionManager := snd (SessionOpenEventChannel (sessionManager ws))\<rparr>, conns)"
| observe_close: "wss_step (ws, conns)
    (ws\<lparr>sessionManager := snd (SessionCloseEventChannel (sessionManager ws))\<rparr>, conns)"
| receive: "wss_step (ws, conns)
    (ws\<lparr>sessionManager := (sessionManager ws)\<lparr>chans := (chans (sessionManager ws))[c := tl (chans (sessionManager ws) ! c)]\<rparr>\<rparr>, conns)"

definition wss_reach :: "uint \<Rightarrow> wss_state \<Rightarrow> bool" where
  "wss_reach n st \<longleftrightarrow> (\<exists>ws. NewWebSocketServer n = Some ws \<and> wss_step\<^sup>*\<^sup>* (ws, []) st)"

section \<open>Sessions and connections\<close>

text \<open>What the manager's calls do to the sessions.\<close>

lemma createSession_heap:
  "createSession s conn = Ok (r, t) \<Longrightarrow>
   r = length (heap s) \<and> (\<exists>x. heap t = heap s @ [x] \<and> wsConn x = conn \<and> \<not> closed x)"
  by (auto simp: createSession_def Let_def split: if_splits option.splits prod.splits)

lemma Open_heap: "Open s r = Some t \<Longrightarrow> heap t = (heap s)[r := (heap s ! r)\<lparr>opened := True\<rparr>]"
  by (auto simp: Open_def notifyOpened_def)

lemma Write_heap:
  "Write s r msg = Some (Ok t) \<Longrightarrow> heap t = (heap s)[r := (heap s ! r)\<lparr>writeChan := writeChan (heap s ! r) @ [msg]\<rparr>]"
  by (auto simp: Write_def Let_def split: if_splits)

lemma heap_removeSession [simp]: "heap (removeSession s i) = heap s"
  by (simp add: removeSession_def split: option.split)

lemma Close_heap:
  "Close s r = Some t \<Longrightarrow>
   heap t = (if closed (heap s ! r) then heap s else (heap s)[r := (heap s ! r)\<lparr>closed := True\<rparr>])"
  by (auto simp: Close_def notifyClosed_def close_session_def split: if_splits)

text \<open>
  A connection is open as long as its session is: the connections of the sessions are pairwise
  different, and exactly those of sessions that are not closed are open.
\<close>

definition conns_of :: "WSSession list \<Rightarrow> (nat \<times> bool) list" where
  "conns_of h = map (\<lambda>s. (wsConn s, closed s)) h"

definition conn_inv :: "wss_state \<Rightarrow> bool" where
  "conn_inv st \<longleftrightarrow>
     (let h = conns_of (heap (sessionManager (fst st))) in
      distinct (map fst h) \<and> (\<forall>(conn, cl)\<in>set h. conn \<in> set (snd st) \<longleftrightarrow> \<not> cl))"

lemma conns_of_same:
  "wsConn x = wsConn (h ! r) \<Longrightarrow> closed x = closed (h ! r) \<Longrightarrow> conns_of (h[r := x]) = conns_of h"
  by (cases "r < length h") (simp_all add: conns_of_def map_update list_update_same_conv list_update_beyond)

lemma conn_inv_cong:
  "conn_inv st \<Longrightarrow> conns_of (heap (sessionManager (fst st'))) = conns_of (heap (sessionManager (fst st))) \<Longrightarrow>
   snd st' = snd st \<Longrightarrow> conn_inv st'"
  by (simp add: conn_inv_def)

text \<open>The cases of the handler, with what they leave of sessions and connections.\<close>

lemma handleFunc_cases:
  assumes "wss_handleFunc up st = Some (st', r)"
  obtains (kept) "st' = st"
  | (refused) conn where "fst up = Ok conn" "heap (sessionManager (fst st')) = heap (sessionManager (fst st))"
      "snd st' = snd st @ [conn]"
  | (session) conn where "fst up = Ok conn"
      "conns_of (heap (sessionManager (fst st'))) = conns_of (heap (sessionManager (fst st))) @ [(conn, False)]"
      "snd st' = snd st @ [conn]"
proof (cases "fst up")
  case (Ok conn)
  show thesis
  proof (cases "createSession (sessionManager (fst st)) conn")
    case (Ok p)
    obtain ref sm where p: "p = (ref, sm)" by fastforce
    from assms Ok \<open>fst up = Ok conn\<close> p obtain sm' where o: "Open sm ref = Some sm'"
      and st': "st' = ((fst st)\<lparr>sessionManager := sm'\<rparr>, snd st @ [conn])"
      by (cases up) (auto simp: wss_handleFunc_def Let_def)
    obtain x where "ref = length (heap (sessionManager (fst st)))"
      "heap sm = heap (sessionManager (fst st)) @ [x]" "wsConn x = conn" "\<not> closed x"
      using createSession_heap Ok p by blast
    then have "conns_of (heap sm') = conns_of (heap (sessionManager (fst st))) @ [(conn, False)]"
      using Open_heap [OF o] by (simp add: conns_of_def)
    with \<open>fst up = Ok conn\<close> st' show thesis by (intro session) simp_all
  qed (use assms Ok refused in \<open>cases up; auto simp: wss_handleFunc_def Let_def\<close>)+
qed (use assms kept in \<open>cases up; auto simp: wss_handleFunc_def\<close>)+

lemma wss_close_cases:
  assumes "wss_close r st = Some st'"
  obtains (again) "conns_of (heap (sessionManager (fst st'))) = conns_of (heap (sessionManager (fst st)))"
      "snd st' = snd st"
  | (closes) conn where "conn = wsConn (heap (sessionManager (fst st)) ! r)"
      "conns_of (heap (sessionManager (fst st'))) = (conns_of (heap (sessionManager (fst st))))[r := (conn, True)]"
      "snd st' = removeAll conn (snd st)"
proof -
  from assms obtain sm where c: "Close (sessionManager (fst st)) r = Some sm"
    and st': "st' = ((fst st)\<lparr>sessionManager := sm\<rparr>,
      if closed (heap (sessionManager (fst st)) ! r) then snd st
      else removeAll (wsConn (heap (sessionManager (fst st)) ! r)) (snd st))"
    by (auto simp: wss_close_def Let_def)
  show thesis
  proof (cases "closed (heap (sessionManager (fst st)) ! r)")
    case True
    with st' Close_heap [OF c] show thesis by (intro again) simp_all
  next
    case False
    with st' Close_heap [OF c] show thesis
      by (intro closes [of "wsConn (heap (sessionManager (fst st)) ! r)"]) (simp_all add: conns_of_def map_update)
  qed
qed

lemma conn_inv_close:
  assumes inv: "conn_inv st" and r: "r < length (heap (sessionManager (fst st)))"
    and cl: "conn = wsConn (heap (sessionManager (fst st)) ! r)"
      "conns_of (heap (sessionManager (fst st'))) = (conns_of (heap (sessionManager (fst st))))[r := (conn, True)]"
      "snd st' = removeAll conn (snd st)"
  shows "conn_inv st'"
proof -
  let ?h = "conns_of (heap (sessionManager (fst st)))"
  have len: "r < length ?h" and fst_r: "fst (?h ! r) = conn"
    using r cl(1) by (simp_all add: conns_of_def)
  have d: "distinct (map fst ?h)" and iff: "\<And>c b. (c, b) \<in> set ?h \<Longrightarrow> c \<in> set (snd st) \<longleftrightarrow> \<not> b"
    using inv by (auto simp: conn_inv_def Let_def)
  have "map fst (?h[r := (conn, True)]) = map fst ?h"
    using fst_r len by (simp add: map_update list_update_same_conv)
  moreover have "c \<in> set (removeAll conn (snd st)) \<longleftrightarrow> \<not> b" if "(c, b) \<in> set (?h[r := (conn, True)])" for c b
  proof -
    from that obtain i where i: "i < length ?h" "?h[r := (conn, True)] ! i = (c, b)"
      by (auto simp: in_set_conv_nth)
    show ?thesis
    proof (cases "i = r")
      case True
      with i len show ?thesis by simp
    next
      case False
      with i have h: "?h ! i = (c, b)" by simp
      have "c \<noteq> conn"
        using nth_eq_iff_index_eq [OF d, of i r] False i(1) len fst_r h by auto
      moreover have "(c, b) \<in> set ?h" using h i(1) by (metis nth_mem)
      ultimately show ?thesis using iff by simp
    qed
  qed
  ultimately show ?thesis
    using d cl(2,3) by (auto simp: conn_inv_def Let_def)
qed

lemma conn_inv_step: "wss_step st st' \<Longrightarrow> conn_inv st \<Longrightarrow> conn_inv st'"
proof (induction rule: wss_step.induct)
  case (request up st st' r)
  from request(2) show ?case
  proof (cases rule: handleFunc_cases)
    case (refused conn)
    with request(1,3) show ?thesis
      by (auto simp: conn_inv_def new_conn_def Let_def conns_of_def)
  next
    case (session conn)
    with request(1,3) show ?thesis
      by (auto simp: conn_inv_def new_conn_def Let_def conns_of_def)
  qed (use request(3) in simp)
next
  case (closing r st st')
  from closing(2) show ?case
  proof (cases rule: wss_close_cases)
    case again
    with closing(3) show ?thesis by (rule conn_inv_cong)
  next
    case (closes conn)
    then show ?thesis by (rule conn_inv_close [OF closing(3,1)])
  qed
next
  case (writing r ws msg sm conns)
  have "conns_of (heap sm) = conns_of (heap (sessionManager ws))"
    unfolding Write_heap [OF writing(2)] by (rule conns_of_same) simp_all
  then show ?case
    by (intro conn_inv_cong [OF writing(3)]) simp_all
qed (erule conn_inv_cong; simp add: wss_Start_def wss_ShutDown_def Shutdown_def SessionOpenEventChannel_def
    SessionCloseEventChannel_def Let_def)+

lemma conn_inv_reach:
  assumes "wss_reach n st" shows "conn_inv st"
proof -
  obtain ws where ws: "NewWebSocketServer n = Some ws" and run: "wss_step\<^sup>*\<^sup>* (ws, []) st"
    using assms by (auto simp: wss_reach_def)
  from run show ?thesis
  proof (induction rule: rtranclp_induct)
    case base
    from ws show ?case
      by (auto simp: NewWebSocketServer_def NewSessionManager_def conn_inv_def conns_of_def)
  qed (blast intro: conn_inv_step)
qed

section \<open>Properties\<close>

text \<open>
  C23: In every reachable state of the websocket server a session's network connection is open
  exactly as long as the session is not closed, and no two sessions share a connection.
\<close>

theorem session_owns_connection:
  assumes "wss_reach n (ws, conns)" "r < length (heap (sessionManager ws))"
  shows "(wsConn (heap (sessionManager ws) ! r) \<in> set conns \<longleftrightarrow> \<not> closed (heap (sessionManager ws) ! r)) \<and>
         (\<forall>q < length (heap (sessionManager ws)). wsConn (heap (sessionManager ws) ! q) = wsConn (heap (sessionManager ws) ! r) \<longrightarrow> q = r)"
proof -
  let ?h = "heap (sessionManager ws)"
  have inv: "conn_inv (ws, conns)" using assms(1) by (rule conn_inv_reach)
  then have "distinct (map wsConn ?h)"
    by (simp add: conn_inv_def conns_of_def comp_def Let_def)
  moreover have "(wsConn (?h ! r), closed (?h ! r)) \<in> set (conns_of ?h)"
    using assms(2) by (auto simp: conns_of_def)
  ultimately show ?thesis
    using inv assms(2) by (auto simp: conn_inv_def Let_def distinct_conv_nth)
qed

lemma orphan_step:
  assumes "wss_step st st'" "conn \<in> set (snd st)" "conn \<notin> wsConn ` set (heap (sessionManager (fst st)))"
  shows "conn \<in> set (snd st') \<and> conn \<notin> wsConn ` set (heap (sessionManager (fst st')))"
proof -
  have eq: "wsConn ` set h = fst ` set (conns_of h)" for h by (force simp: conns_of_def)
  have same: "conns_of (heap sm) = conns_of (heap (sessionManager ws))"
    if "Write (sessionManager ws) r msg = Some (Ok sm)" for r ws msg sm
    unfolding Write_heap [OF that] by (rule conns_of_same) simp_all
  from assms show ?thesis
    unfolding eq
  proof (induction rule: wss_step.induct)
    case (request up st st' r)
    from request(2) show ?case
      by (cases rule: handleFunc_cases) (use request in \<open>auto simp: new_conn_def\<close>)
  next
    case (closing r st st')
    from closing(2) show ?case
    proof (cases rule: wss_close_cases)
      case (closes c)
      have "c \<in> fst ` set (conns_of (heap (sessionManager (fst st))))"
        using closing(1) closes(1) by (force simp: conns_of_def)
      with closing(4) have "conn \<noteq> c" by blast
      with closing(3,4) closes(2,3) show ?thesis
        by (auto dest!: set_update_subset_insert [THEN subsetD])
    qed (use closing in simp)
  next
    case (writing r ws msg sm conns)
    then show ?case by (simp add: same [OF writing(2)])
  qed (simp_all add: wss_Start_def wss_ShutDown_def Shutdown_def SessionOpenEventChannel_def
      SessionCloseEventChannel_def Let_def)
qed

text \<open>
  At capacity, or for any other reason the manager refuses the session, an upgraded connection is
  not answered with status 503 as the documentation of the server says: the response was handed
  over by the upgrade and stays as it is, and the connection stays open, whatever happens later.
\<close>

theorem refused_connection_stays_open:
  assumes "wss_reach n (ws, conns)" "atCapacity (sessionManager ws)" "new_conn (Ok conn) (ws, conns)" "hijacked w"
  shows "wss_handleFunc (Ok conn, w) (ws, conns) = Some ((ws, conns @ [conn]), Ok w) \<and>
         (\<forall>st'. wss_step\<^sup>*\<^sup>* (ws, conns @ [conn]) st' \<longrightarrow> conn \<in> set (snd st'))"
proof (intro conjI allI impI)
  show "wss_handleFunc (Ok conn, w) (ws, conns) = Some ((ws, conns @ [conn]), Ok w)"
    using assms(2,4) by (simp add: wss_handleFunc_def createSession_def http_Error_def)
next
  fix st' assume "wss_step\<^sup>*\<^sup>* (ws, conns @ [conn]) st'"
  then have "conn \<in> set (snd st') \<and> conn \<notin> wsConn ` set (heap (sessionManager (fst st')))"
  proof (induction rule: rtranclp_induct)
    case base
    then show ?case using assms(3) by (simp add: new_conn_def)
  qed (use orphan_step in blast)
  then show "conn \<in> set (snd st')" by simp
qed

lemma new_server: "NewSessionManager n = Some sm \<Longrightarrow> \<exists>ws. wss_reach n (ws, []) \<and> sessionManager ws = sm"
  by (auto simp: wss_reach_def NewWebSocketServer_def)

lemma new_manager_0: "NewSessionManager 0 = Some \<lparr>maxSessions = 0, activeSessions = Some [], idPool = \<lparr>ids = []\<rparr>,
     heap = [], chans = [], openEventChans = [], closeEventChans = []\<rparr>"
proof -
  have "(0 :: uint) < - 1" by (simp add: word_gt_0)
  then show ?thesis by (simp add: NewSessionManager_def NewIdPool_result [of 0] upt_rec)
qed

theorem refused_connection_stays_open_witness:
  "\<exists>ws. wss_handleFunc (Ok 7, \<lparr>hijacked = True, w_status = None, w_body = []\<rparr>) (ws, []) =
      Some ((ws, [7]), Ok \<lparr>hijacked = True, w_status = None, w_body = []\<rparr>)"
proof -
  obtain ws where ws: "wss_reach 0 (ws, [])" "sessionManager ws = the (NewSessionManager 0)"
    using new_server [OF new_manager_0] by (auto simp: new_manager_0)
  then have "atCapacity (sessionManager ws)" "new_conn (Ok 7) (ws, [])"
    by (simp_all add: new_manager_0 atCapacity_def num_active_def new_conn_def)
  with refused_connection_stays_open [OF ws(1), of 7 "\<lparr>hijacked = True, w_status = None, w_body = []\<rparr>"]
  show ?thesis by auto
qed

lemma server_one_session:
  "\<exists>ws. wss_reach 2 (ws, [7]) \<and> map wsConn (heap (sessionManager ws)) = [7] \<and> map closed (heap (sessionManager ws)) = [False]"
proof -
  obtain ws where reach: "wss_reach 2 (ws, [])" and ws: "sessionManager ws = the (NewSessionManager 2)"
    using new_server [OF new_manager_2] by (auto simp: new_manager_2)
  let ?up = "(Ok 7, \<lparr>hijacked = True, w_status = None, w_body = []\<rparr>)"
  obtain ws' r where h: "wss_handleFunc ?up (ws, []) = Some ((ws', [7]), r)"
    and "map wsConn (heap (sessionManager ws')) = [7]" "map closed (heap (sessionManager ws')) = [False]"
    by (simp add: wss_handleFunc_def createSession_def atCapacity_def num_active_def ws new_manager_2 GetId_def
        Open_def notifyOpened_def Let_def)
  moreover have "wss_step (ws, []) (ws', [7])"
    using h by (intro wss_step.request [of ?up]) (simp_all add: new_conn_def ws new_manager_2)
  ultimately show ?thesis
    using reach unfolding wss_reach_def by (meson rtranclp.rtrancl_into_rtrancl)
qed

theorem session_owns_connection_witness:
  "\<exists>ws :: WebSocketServer. wsConn (heap (sessionManager ws) ! 0) = 7 \<and> \<not> closed (heap (sessionManager ws) ! 0)"
proof -
  obtain ws :: WebSocketServer where ws: "wss_reach 2 (ws, [7])" "map wsConn (heap (sessionManager ws)) = [7]"
    using server_one_session by (elim exE conjE)
  then have "wsConn (heap (sessionManager ws) ! 0) = 7" "0 < length (heap (sessionManager ws))"
    by (cases "heap (sessionManager ws)"; simp)+
  with session_owns_connection [OF ws(1), of 0] show ?thesis by auto
qed

end
