(* ===== verification/Spec2Isabelle.thy ===== *)
theory Spec2Isabelle
  imports Eris_Prelude Go_Stdlib Util_Regex Id_Pool Session_Manager Session_Pump Files Server_Config Server_Manager
    Filters Query_Parser Tendermint_Types Permissions Validator_Set Ledger_State Block_Cache Tx_Validation Tx_Cache Tx_Execution Send_Effects Word256 Evm_Native Evm Evm_Facts
    Evm_Alu Evm_Runs Call_Effects Mempool Wire Iavl Iavl_Proof Iavl_Store Bit_Array Simple_Merkle Part_Set
    Vote_Set Height_Vote_Set Priv_Validator Proposer Block_Execution Block_Validators Evm_Quiet Block_Proposal
    Accounts Blockchain Event_Switch Event_Cache Rest_Server WebSocket_Server
begin

text \<open>
  A verification development of eris-db: a blockchain node that serves a Tendermint ledger with smart
  contracts over JSON-RPC (HTTP and websockets) and REST. The source is the tree \<open>src/\<close>; vendored
  packages are under \<open>src/Godeps/_workspace/src/github.com/tendermint/tendermint\<close> and are named below by
  their package directory alone.

  \<^bold>\<open>The parts and how they interact.\<close> A client reaches the node through one of three servers. The
  REST server (\<open>erisdb/restServer.go\<close>) and the two JSON-RPC services (\<open>erisdb/json_service.go\<close>,
  \<open>erisdb/wsService.go\<close>) decode a request and call the methods (\<open>erisdb/methods.go\<close>) or the \<open>pipe\<close>
  (\<open>erisdb/pipe\<close>) directly. The pipe answers queries on accounts, names, blocks, consensus and
  network, makes and signs transactions, and gives them to the mempool. The mempool executes each
  transaction on a block cache over the ledger state; contracts run in the contract machine on a
  transaction cache over that block cache. Events go through the event switch to websocket sessions or
  to subscriptions that clients poll. The ledger is kept in balanced Merkle trees, whose hash is part
  of the block, and blocks travel between nodes in parts with their own Merkle proofs. Validators take turns in
  proposing a block, sign votes with a key that remembers what it signed, and count the votes of a
  round; a block with the commit of the one before it is then executed on the state. Beside the node there is a
  server that starts and reaps test nodes (\<open>erisdb/erisdbss\<close>), with the helpers for files, ids and
  configuration.

  \<^bold>\<open>How code becomes definitions.\<close> Every definition that models code bears the name of the function
  or type, with a prefix where two packages use the same name (\<open>tc_\<close> transaction cache, \<open>bc_\<close> block
  cache, \<open>vs_\<close> validator set, \<open>ba_\<close> bit array, \<open>ps_\<close> part set, \<open>rpc_\<close>, \<open>json_\<close>, \<open>ws_\<close>, \<open>rest_\<close>). A call
  that can fail returns \<open>'a outcome\<close>: a value, an error with its message, or a panic. Operations on a
  state return the state they leave behind, also after an error; where many calls are threaded the
  monad \<open>exec\<close> of \<open>Tx_Validation\<close> does it. A Go \<open>int\<close> is an \<open>int\<close> wrapped to 64 bits after every
  operation that may leave the range; bytes and bit flags are \<open>word\<close>s. Go maps are association lists:
  a theorem that could depend on the order of iteration states which order it takes, and where the
  order reaches the hash of the state (the accounts that a released bond is paid to) it is a
  parameter of the node (\<open>be_range\<close>). Pointers are
  values where nothing can tell the difference, and indices into an explicit heap where it matters:
  sessions and observer channels, event caches, and the accounts a contract call works on, whose
  aliasing decides whether a write is kept. A loop that need not end is a \<open>partial_function\<close>
  (\<open>getHeightMinMax\<close>) or has fuel.

  The trees of the state are their entries together with the sequence of writes that made them
  (\<open>accounts_writes\<close>, \<open>infos_writes\<close>, \<open>names_writes\<close> of \<open>Ledger_State\<close>), since the hash of a balanced tree depends on
  its shape and so on the order of the insertions; the three hashes in the hash of the state are
  functions of these sequences.

  \<^bold>\<open>Theories.\<close>
    \<^item> \<open>Eris_Prelude\<close>, \<open>Go_Stdlib\<close>: outcomes, 64-bit arithmetic, Go maps,
      and the parts of \<open>strconv\<close>, \<open>strings\<close>, \<open>bytes\<close>, \<open>encoding/hex\<close> and \<open>sort\<close> the program uses.
    \<^item> \<open>Util_Regex\<close> (\<open>util/util.go\<close>), \<open>Id_Pool\<close> (\<open>server/idpool.go\<close>), \<open>Files\<close> (\<open>files/files.go\<close>),
      \<open>Server_Config\<close> (\<open>server/config.go\<close>), \<open>Server_Manager\<close> (\<open>erisdb/erisdbss/server_manager.go\<close>).
    \<^item> \<open>Session_Manager\<close>, \<open>Session_Pump\<close>, \<open>WebSocket_Server\<close> (\<open>server/websocket.go\<close>): the sessions and
      their ids, the two goroutines of a session as interleaved steps, the handler of connections.
    \<^item> \<open>Filters\<close>, \<open>Query_Parser\<close>, \<open>Accounts\<close>, \<open>Blockchain\<close>, \<open>Node_Info\<close>, \<open>Transactor\<close> (\<open>erisdb/pipe\<close>, and the
      query grammar of \<open>erisdb/restServer.go\<close>).
    \<^item> \<open>Event_Switch\<close> (\<open>events/events.go\<close>, \<open>erisdb/pipe/events.go\<close>), \<open>Event_Cache\<close> (\<open>erisdb/event_cache.go\<close>).
    \<^item> \<open>Rpc_Methods\<close>, \<open>Rpc_Service\<close>, \<open>Rest_Server\<close>: the requests, from the decoded parameters to the reply.
    \<^item> \<open>Tendermint_Types\<close>, \<open>Permissions\<close>, \<open>Validator_Set\<close>, \<open>Ledger_State\<close>, \<open>Block_Cache\<close>, \<open>Tx_Validation\<close>,
      \<open>Tx_Cache\<close>, \<open>Tx_Execution\<close>, \<open>Mempool\<close>: the ledger (\<open>types\<close>, \<open>permission/types\<close>, \<open>state\<close>, \<open>mempool\<close>).
      \<open>Send_Effects\<close> and \<open>Call_Effects\<close> show what transactions do to the ledger.
    \<^item> \<open>Word256\<close>, \<open>Evm_Native\<close>, \<open>Evm\<close>, \<open>Evm_Facts\<close>, \<open>Evm_Alu\<close>, \<open>Evm_Runs\<close>: the contract machine (\<open>vm\<close>).
    \<^item> \<open>Wire\<close>, \<open>Iavl\<close>, \<open>Iavl_Proof\<close>, \<open>Iavl_Store\<close>, \<open>Bit_Array\<close>, \<open>Simple_Merkle\<close>, \<open>Part_Set\<close>: the encoding
      (\<open>wire\<close>), the trees and proofs (\<open>merkle\<close>), and the parts of a block (\<open>common/bit_array.go\<close>,
      \<open>types/part_set.go\<close>).
    \<^item> \<open>Vote_Set\<close> (\<open>types/vote_set.go\<close>), \<open>Height_Vote_Set\<close> (\<open>consensus/height_vote_set.go\<close>), \<open>Priv_Validator\<close>
      (\<open>types/priv_validator.go\<close>), \<open>Proposer\<close> (\<open>IncrementAccum\<close> of \<open>types/validator_set.go\<close>, \<open>common/heap.go\<close>): votes,
      signing and the choice of the proposer.
    \<^item> \<open>Block_Execution\<close> (\<open>ExecBlock\<close> of \<open>state/execution.go\<close>, the hashes and checks of \<open>types/block.go\<close>). Two
      theories of facts go with it: \<open>Block_Validators\<close> has the steps of the validators in a block and their
      invariant, \<open>Block_Proposal\<close>, on \<open>Evm_Quiet\<close>, shows that executing a proposed block again gives the same.

  \<^bold>\<open>Interfaces.\<close> Contracts between components are locales, each interpreted on the model: \<open>id_source\<close>
  (ids that are handed out are not handed out again; the pool), \<open>configurable_filter\<close> and
  \<open>filter_family\<close> (a filter made from its data decides the meaning of the data; the seven filters, the
  factories of accounts and names), \<open>event_emitter\<close> (what firing calls after subscribing and
  unsubscribing; the event switch), \<open>signable_inputs\<close> (transactions whose inputs are signed one by one;
  send and bond), \<open>keyed_store\<close> (a finite map; the validator sets), \<open>account_getter\<close> (lookup of
  accounts that changes nothing visible; the cache and the state), \<open>machine_invariant\<close> (what the parts
  of an instruction keep, every instruction keeps; the ledger behind a call), \<open>contract_machine\<close> (what a
  transaction needs of the machine that runs it; the model of the machine) and its extension
  \<open>quiet_machine\<close> (collecting events changes nothing else; the same), \<open>ledger_tree\<close> (a sorted
  association list; the balanced tree and the list itself, whence the two answer alike), \<open>wire_codec\<close>
  (a reader takes back what the writer wrote; varints, byte slices, small integers).

  \<^bold>\<open>What is shown.\<close> For the ledger: a transfer with amounts in range makes and loses no money; an account
  loses money only as a signed input, or as an output whose amount is negative or does not fit; with an
  input it cannot be replayed; a failed contract call costs the fee and changes nothing else, neither
  accounts nor names nor storage; names change hands only
  by their owner's signature; writing a block cache without storage writes to the ledger writes the
  accounts and names it showed; the mempool keeps exactly the transactions that are still valid. For the blocks: a commit that verifies has more
  than two thirds of the voting power; a block that is accepted extends the chain and its header covers it; the
  validator sets stay consistent and the signers of a commit are always found; a block that a proposer
  made is accepted by everyone in the same state, in whatever order Go walks its maps, when every bond it
  releases is paid to at most one account, and with two the order can split the chain. For consensus: a vote set reports a block exactly when
  it has a majority, for ever, and makes a commit that verifies unless different blocks share a key; a validator never signs for an earlier step than before, across crashes;
  validators propose in proportion to their power; peers can make a node track only a bounded number of
  rounds. For the machine: eighteen of its arithmetic, comparison and bitwise instructions compute on 256-bit words, its writes reach the
  ledger only when the call succeeds, its permissions contract is guarded. For the trees: the balanced
  tree is a sorted map, proofs are sound up to collisions, saving and loading are inverse; blocks are
  reassembled from their parts. For the servers: sessions are unique, bounded and own their
  connection, messages leave in order, events are delivered once while a subscription lasts, a request
  over JSON-RPC or REST changes the node by at most one transaction in the mempool, and a transaction
  signed for a client carries the key and the signature of the account given for each input. For the queries: results are exactly the entries that satisfy
  the filters, and the search ends. Further theorems prove where the code does not do what it means
  to, on a concrete path: contracts that run for ever or take the node down, negative amounts that
  steal, forged proofs and parts, leaked goroutines, double signing that is not prevented, evidence and
  bonds that stop or split the chain, transfers that need no signature.

  \<^bold>\<open>Parameters.\<close> Code that is not in the tree, and cryptography, are arguments: the codecs, hashes and
  keys of signed data (\<open>wire_env\<close>), SHA3, SHA-256 and RIPEMD-160, the root hash of a saved storage tree
  (\<open>tree_Save\<close>), the JSON and TOML codecs (\<open>rpc_codec\<close>, the configuration), system calls, clocks and random
  numbers, the encodings of votes and validators by reflection, the hashes of the three trees of the
  state from their writes and the order in which Go walks a map (\<open>block_env\<close>). Where a theorem needs more than a function (a codec that decodes what it encodes, a signature
  that verifies when it was made, no collision among the strings hashed) it is a hypothesis, and the
  witness beside it gives an instance.

  \<^bold>\<open>Fuel.\<close> The machine has one unit per instruction. More fuel never changes a result (\<open>Evm_Facts\<close>); no
  amount is enough for every contract, because the gas does not bound the run, which is a theorem; the statements on
  transactions hold for every amount. Loading a tree from the database has fuel for its height, which
  is enough (\<open>saved_tree_loads\<close>).

  \<^bold>\<open>Simplifications.\<close> The values that the machine computes are modelled, not the time: \<open>EXP\<close> builds the full
  power before it reduces it, which for large exponents does not finish. Opening or closing a session
  is one step with the notification of its observers, and a write of the service is one step with its
  test for a closed session. \<open>RmRole\<close> shifts an array that copies of an account share; the
  model gives each copy its own. The accounts of a transaction are collected in the order of
  its inputs and outputs. Writing a reply may leave part of a result behind when the encoder fails, but
  a broken connection is not modelled.

  \<^bold>\<open>Not modelled.\<close> The programs under \<open>cmd\<close>, \<open>erisdb/serve.go\<close> and \<open>erisdb/pipe/pipe.go\<close> wire the components
  together and start goroutines. \<open>client\<close>, \<open>server/logging.go\<close> and the mocks are input and output. The
  JSON and TOML codecs, gin, gorilla/websocket, log15, goleveldb, Ed25519 and other third-party packages
  are only called. Of Tendermint, the goroutines and timers that drive the consensus rounds
  (\<open>consensus/state.go\<close>), the peer-to-peer network, the fast sync, the
  reflective encoder (\<open>wire/reflect.go\<close>) and the node are not modelled; eris-db reads their reports.
\<close>

end
